(* ===== verification/Prelude.thy ===== *)
theory Prelude
  imports Main "HOL-Library.Word"
begin

text \<open>
  Shared vocabulary of the development: the C integer types of the 32-bit ARM targets,
  the macros of \<open>src/kernel/arch/common/word_t.h\<close>, the outcome of code that may hit
  \<open>_BUG()\<close>, and the facts on bits, words and lists the component theories use.
\<close>

unbundle bit_operations_syntax

section \<open>Types\<close>

type_synonym u8 = "8 word"
type_synonym u16 = "16 word"
type_synonym u32 = "32 word"
type_synonym u64 = "64 word"

text \<open>
  \<open>_BUG()\<close> prints its position and spins for ever (\<open>src/kernel/arch/arm_a/arm.c\<close>), so a
  call that reaches it has no result: the left summand of \<open>'a run\<close>. \<open>FAULT\<close> is an access through
  a null pointer.
\<close>

datatype halt = BUG | FAULT

type_synonym 'a run = "halt + 'a"

text \<open>Facts about bits, and facts that unfold one layer of the model.\<close>

named_theorems bit_facts
named_theorems model_defs

section \<open>The macros of word\_t.h\<close>

definition WORD_T_BITS :: nat where
  "WORD_T_BITS = 32"

definition WORD_T_BYTES :: nat where
  "WORD_T_BYTES = 4"

text \<open>\<open>BIT(b)\<close> is \<open>1U << b\<close>; the sources use it below \<open>WORD_T_BITS\<close> only, where C defines it.\<close>

definition BIT :: "nat \<Rightarrow> u32" where
  "BIT b = push_bit b 1"

lemma bit_BIT [bit_facts, simp]: "bit (BIT b) n \<longleftrightarrow> n = b \<and> b < 32"
  by (auto simp: BIT_def bit_simps simp flip: push_bit_eq_mult)

lemma BIT_eq_0_iff [simp]: "BIT b = 0 \<longleftrightarrow> 32 \<le> b"
proof
  assume "BIT b = 0"
  then have "\<not> bit (BIT b) b" by simp
  then show "32 \<le> b" by simp
next
  assume "32 \<le> b"
  then show "BIT b = 0" by (intro bit_eqI) auto
qed

lemma and_BIT_eq_0_iff [bit_facts]:
  assumes "b < 32"
  shows "w AND BIT b = 0 \<longleftrightarrow> \<not> bit w b"
proof
  assume "w AND BIT b = 0"
  then have "\<not> bit (w AND BIT b) b" by simp
  with assms show "\<not> bit w b" by (simp add: bit_and_iff)
next
  assume "\<not> bit w b"
  then show "w AND BIT b = 0" by (intro bit_eqI) (auto simp: bit_and_iff)
qed

lemma unat_exp2 [simp]:
  assumes "b < 32"
  shows "unat ((2::u32) ^ b) = 2 ^ b"
proof -
  have "(2::u32) ^ b = word_of_nat (2 ^ b)" by simp
  moreover have "(2::nat) ^ b < 2 ^ 32"
    using assms by (intro power_strict_increasing) simp_all
  ultimately show ?thesis by (simp only: unat_of_nat) simp
qed

lemma unat_BIT [simp]: "b < 32 \<Longrightarrow> unat (BIT b) = 2 ^ b"
  by (simp add: BIT_def)

lemma unat_u32_less [simp]: "unat (x::u32) < 4294967296"
  using unsigned_less [of x, where ?'a = nat] by simp

lemma unat_u32_le [simp]: "unat (x::u32) \<le> 4294967295"
  using unat_u32_less [of x] by linarith

lemma unat_u32_minus_1 [simp]: "unat (- 1 :: u32) = 4294967295"
  by (simp add: unsigned_minus_1_eq_mask mask_eq_exp_minus_1)

lemma unat_add_u32: "unat x + unat y < 2 ^ 32 \<Longrightarrow> unat (x + y :: u32) = unat x + unat y"
  by (simp add: unat_word_ariths)

lemma unat_mult_u32: "unat x * unat y < 2 ^ 32 \<Longrightarrow> unat (x * y :: u32) = unat x * unat y"
  by (simp add: unat_word_ariths)

lemma unat_sub_u32: "y \<le> x \<Longrightarrow> unat (x - y :: u32) = unat x - unat y"
  by (rule unat_sub)

lemma unat_div_u32: "unat (x div y :: u32) = unat x div unat y"
  by (rule unat_div_distrib)

lemma unat_shift_right: "unat (drop_bit k (x::u32)) = unat x div 2 ^ k"
  by (simp add: unat_drop_bit_eq) (simp add: drop_bit_eq_div)

text \<open>Signed readings of 32-bit words.\<close>

lemma sint_u32: "sint (n::u32) = (if unat n < 2 ^ 31 then int (unat n) else int (unat n) - 2 ^ 32)"
proof -
  define m where "m = unat n"
  have m: "m < 4294967296" unfolding m_def by simp
  have "sint n = (int m + 2 ^ 31) mod 2 ^ 32 - 2 ^ 31"
    using int_word_sint [of "int m", where ?'a = 32] by (simp add: m_def)
  also have "(int m + 2 ^ 31) mod 2 ^ 32 = (if m < 2 ^ 31 then int m + 2 ^ 31 else int m - 2 ^ 31)"
  proof (cases "m < 2 ^ 31")
    case False
    then have "(int m + 2 ^ 31) mod 2 ^ 32 = (int m - 2 ^ 31 + 2 ^ 32) mod 2 ^ 32" by (simp add: add.commute)
    also have "\<dots> = (int m - 2 ^ 31) mod 2 ^ 32" by (rule mod_add_self2)
    also have "\<dots> = int m - 2 ^ 31" using m False by (intro mod_pos_pos_trivial) auto
    finally show ?thesis using False by simp
  qed (simp add: mod_pos_pos_trivial)
  finally show ?thesis unfolding m_def [symmetric] by simp
qed

lemma unat_minus_u32:
  assumes "n \<noteq> 0"
  shows "unat (- n :: u32) = 2 ^ 32 - unat n"
proof -
  have "0 < unat n" using assms by (simp add: unat_gt_0)
  then have "unat (word_of_nat (2 ^ 32 - unat n) :: u32) = 2 ^ 32 - unat n"
    by (simp add: unat_of_nat)
  moreover have "(word_of_nat (2 ^ 32 - unat n) :: u32) = - n"
    using less_imp_le [OF unat_u32_less [of n]] by (simp add: of_nat_diff)
  ultimately show ?thesis by simp
qed

lemma sint_minus_nonneg:
  assumes "sint (n::u32) < 0" and "n \<noteq> 0x80000000"
  shows "0 \<le> sint (- n)"
proof -
  have "unat n \<noteq> 2147483648"
  proof
    assume "unat n = 2147483648"
    then have "(word_of_nat (unat n) :: u32) = word_of_nat 2147483648" by (rule arg_cong)
    with assms(2) show False by simp
  qed
  moreover have "n \<noteq> 0" using assms(1) by auto
  moreover have "\<not> unat n < 2 ^ 31"
  proof
    assume "unat n < 2 ^ 31"
    then have "sint n = int (unat n)" by (simp only: sint_u32 if_True)
    with assms(1) show False by linarith
  qed
  ultimately have "unat (- n) < 2 ^ 31" by (simp add: unat_minus_u32)
  then have "sint (- n) = int (unat (- n))" by (simp only: sint_u32 if_True)
  then show ?thesis by simp
qed

lemma sint_nonneg_u32:
  assumes "0 \<le> sint (n::u32)"
  shows "sint n = int (unat n)" and "unat n < 2 ^ 31"
proof -
  have "int (unat n) < int 4294967296" by (rule iffD2 [OF of_nat_less_iff]) simp
  then show lt: "unat n < 2 ^ 31" using assms sint_u32 [of n] by (simp split: if_splits)
  show "sint n = int (unat n)" using lt by (simp only: sint_u32 if_True)
qed

lemma nat_sint_diff_u32:
  assumes "w < 2 ^ 31" and "k < 2 ^ 31"
  shows "nat (sint (word_of_nat w - word_of_nat k :: u32)) = w - k"
proof -
  have "sint (word_of_nat w - word_of_nat k :: u32) = (int w - int k + 2 ^ 31) mod 2 ^ 32 - 2 ^ 31"
    using int_word_sint [of "int w - int k", where ?'a = 32] by simp
  also have "\<dots> = int w - int k" using assms by (subst mod_pos_pos_trivial) auto
  finally show ?thesis by simp
qed

section \<open>The board configuration\<close>

text \<open>
  The constants \<open>configure.ac\<close> defines for a machine, and the linker's symbol
  \<open>__HEAP_BEGIN\<close> (the first page boundary after the kernel image).
\<close>

record board =
  PAGE_SIZE :: u32
  PHYSICAL_MEMORY_BASE_ADDRESS :: u32
  VIRTUAL_MEMORY_BASE_ADDRESS :: u32
  PHYSICAL_MEMORY_LENGTH :: u32
  HEAP_BEGIN :: u32

definition bbc_microbit :: "u32 \<Rightarrow> board" where
  "bbc_microbit heap = \<lparr>PAGE_SIZE = 32, PHYSICAL_MEMORY_BASE_ADDRESS = 0x20000000,
     VIRTUAL_MEMORY_BASE_ADDRESS = 0x20000000, PHYSICAL_MEMORY_LENGTH = 0x4000,
     HEAP_BEGIN = heap\<rparr>"

definition beaglexm :: "u32 \<Rightarrow> board" where
  "beaglexm heap = \<lparr>PAGE_SIZE = 4096, PHYSICAL_MEMORY_BASE_ADDRESS = 0x80200000,
     VIRTUAL_MEMORY_BASE_ADDRESS = 0x80200000, PHYSICAL_MEMORY_LENGTH = 0xFE00000,
     HEAP_BEGIN = heap\<rparr>"

text \<open>\<open>enum gfp_flags\<close> of \<open>memory.h\<close>, kept in an \<open>int\<close>.\<close>

definition GFP_ATOMIC :: u32 where "GFP_ATOMIC = 1"
definition GFP_KERNEL :: u32 where "GFP_KERNEL = 2"
definition GFP_ZERO :: u32 where "GFP_ZERO = 4"

lemmas gfp_defs [model_defs] = GFP_ATOMIC_def GFP_KERNEL_def GFP_ZERO_def

text \<open>The byte-addressed memory of the machine.\<close>

type_synonym memory = "u32 \<Rightarrow> u8"

section \<open>Alignment\<close>

text \<open>\<open>FRACTION_MASK\<close> and \<open>ALIGN_U\<close> of \<open>buddy_alloc.c\<close> and \<open>kmalloc_tiny.c\<close>.\<close>

definition FRACTION_MASK :: "u32 \<Rightarrow> u32" where
  "FRACTION_MASK whole = whole - 1"

definition ALIGN_U :: "u32 \<Rightarrow> u32 \<Rightarrow> u32" where
  "ALIGN_U i m = (i + FRACTION_MASK m) AND NOT (FRACTION_MASK m)"

lemma unat_and_not_mask:
  fixes x :: u32
  assumes "k < 32"
  shows "unat (x AND NOT (2 ^ k - 1)) = unat x div 2 ^ k * 2 ^ k"
proof -
  have "x AND NOT (2 ^ k - 1) = push_bit k (drop_bit k x)"
    by (intro bit_eqI) (auto simp: bit_simps simp flip: mask_eq_exp_minus_1)
  also have "unat \<dots> = unat x div 2 ^ k * 2 ^ k mod 2 ^ 32"
    using assms by (simp add: push_bit_eq_mult unat_word_ariths unat_shift_right)
  also have "\<dots> = unat x div 2 ^ k * 2 ^ k"
    by (rule mod_less, rule le_less_trans [OF div_times_less_eq_dividend])
      (use unsigned_less [of x] in simp)
  finally show ?thesis .
qed

lemma unat_ALIGN_U:
  assumes "k < 32" and "unat i + 2 ^ k - 1 < 2 ^ 32"
  shows "unat (ALIGN_U i (2 ^ k)) = (unat i + 2 ^ k - 1) div 2 ^ k * 2 ^ k"
proof -
  have "unat ((2::u32) ^ k - 1) = 2 ^ k - 1"
    using assms(1) by (simp add: unat_minus_one)
  with assms have "unat (i + (2 ^ k - 1)) = unat i + 2 ^ k - 1"
    by (simp add: unat_word_ariths)
  with assms show ?thesis
    by (simp add: ALIGN_U_def FRACTION_MASK_def unat_and_not_mask)
qed

end
