(* ===== verification/Stdlib.thy ===== *)
theory Stdlib
  imports Prelude
begin

text \<open>
  \<open>src/kernel/stdlib/stdlib.c\<close> and \<open>src/kernel/stdlib/fgets.c\<close>: the kernel's own
  \<open>memcpy\<close>, \<open>memset\<close>, \<open>strlen\<close>, the decimal parser behind \<open>atoi\<close>, and the line reader.
  \<open>memcpy\<close>, \<open>memset\<close> and \<open>strlen\<close> work on the byte memory; the parser works on the
  characters of a C string up to its terminator.
\<close>

section \<open>Memory\<close>

fun memcpy_loop :: "memory \<Rightarrow> u32 \<Rightarrow> u32 \<Rightarrow> nat \<Rightarrow> memory" where
  "memcpy_loop m d s 0 = m"
| "memcpy_loop m d s (Suc n) = memcpy_loop (m(d := m s)) (d + 1) (s + 1) n"

definition memcpy :: "memory \<Rightarrow> u32 \<Rightarrow> u32 \<Rightarrow> u32 \<Rightarrow> memory" where
  "memcpy m d s sz = memcpy_loop m d s (unat sz)"

fun memset_loop :: "memory \<Rightarrow> u32 \<Rightarrow> u8 \<Rightarrow> nat \<Rightarrow> memory" where
  "memset_loop m p c 0 = m"
| "memset_loop m p c (Suc n) = memset_loop (m(p := c)) (p + 1) c n"

definition memset :: "memory \<Rightarrow> u32 \<Rightarrow> u32 \<Rightarrow> u32 \<Rightarrow> memory" where
  "memset m p c sz = memset_loop m p (ucast c) (unat sz)"

text \<open>The offset of \<open>a\<close> from \<open>p\<close>, counted upwards and around the address space.\<close>

definition off :: "u32 \<Rightarrow> u32 \<Rightarrow> nat" where
  "off p a = unat (a - p)"

lemma off_same [simp]: "off p p = 0"
  by (simp add: off_def)

lemma off_eq_0_iff: "off p a = 0 \<longleftrightarrow> a = p"
  by (simp add: off_def unsigned_eq_0_iff)

lemma off_less: "off p a < 2 ^ 32"
  using unsigned_less [of "a - p"] by (simp add: off_def)

lemma off_Suc:
  assumes "a \<noteq> p"
  shows "off p a = Suc (off (p + 1) a)"
proof -
  have "a - p \<noteq> 0" using assms by simp
  then have "unat (a - p - 1) = unat (a - p) - 1" and "0 < unat (a - p)"
    by (simp_all add: unat_minus_one word_gt_0 unat_gt_0)
  then show ?thesis by (simp add: off_def algebra_simps)
qed

lemma add_off [simp]: "p + word_of_nat (off p a) = a"
  by (simp add: off_def)

lemma off_add: "n < 2 ^ 32 \<Longrightarrow> off p (p + word_of_nat n) = n"
  by (simp add: off_def unat_of_nat)

lemma memset_loop_at:
  assumes "n \<le> 2 ^ 32"
  shows "memset_loop m p c n a = (if off p a < n then c else m a)"
  using assms
proof (induction n arbitrary: m p)
  case (Suc n)
  show ?case
  proof (cases "a = p")
    case True
    have "off (p + 1) p = 2 ^ 32 - 1" by (simp add: off_def)
    with True Suc show ?thesis by auto
  next
    case False
    with Suc show ?thesis by (simp add: off_Suc)
  qed
qed simp

lemma memset_at: "memset m p c n a = (if off p a < unat n then ucast c else m a)"
  using memset_loop_at [of "unat n" m p "ucast c" a] unat_u32_le [of n] by (simp add: memset_def)

lemma memcpy_loop_at:
  assumes "n \<le> 2 ^ 32" and "n \<le> off s d \<or> d = s"
  shows "memcpy_loop m d s n a = (if off d a < n then m (s + word_of_nat (off d a)) else m a)"
  using assms
proof (induction n arbitrary: m d s)
  case (Suc n)
  have off': "off (s + 1) (d + 1) = off s d" by (simp add: off_def)
  have IH: "memcpy_loop (m(d := m s)) (d + 1) (s + 1) n a =
      (if off (d + 1) a < n then (m(d := m s)) (s + 1 + word_of_nat (off (d + 1) a))
       else (m(d := m s)) a)"
    using Suc.prems by (intro Suc.IH) (auto simp: off')
  show ?case
  proof (cases "a = d")
    case True
    have "off (d + 1) d = 2 ^ 32 - 1" by (simp add: off_def)
    with True Suc.prems IH show ?thesis by auto
  next
    case False
    then have o: "off d a = Suc (off (d + 1) a)" by (rule off_Suc)
    show ?thesis
    proof (cases "off (d + 1) a < n \<and> s + 1 + word_of_nat (off (d + 1) a) = d")
      case True
      then have "off s d = Suc (off (d + 1) a)"
        using Suc.prems(1) off_add [of "Suc (off (d + 1) a)" s] by (simp add: algebra_simps)
      with True Suc.prems have "d = s" by auto
      with True o show ?thesis using off_eq_0_iff [of d a] IH by (auto simp: off_def)
    next
      case F: False
      with o IH \<open>a \<noteq> d\<close> show ?thesis by (auto simp: algebra_simps)
    qed
  qed
qed simp

lemma memcpy_at:
  assumes "unat n \<le> off s d \<or> d = s"
  shows "memcpy m d s n a = (if off d a < unat n then m (s + word_of_nat (off d a)) else m a)"
  using memcpy_loop_at [OF _ assms] unat_u32_le [of n] by (simp add: memcpy_def)

partial_function (option) strlen_from :: "memory \<Rightarrow> u32 \<Rightarrow> u32 \<Rightarrow> u32 option" where
  "strlen_from m string s = (if m (string + s) \<noteq> 0 then strlen_from m string (s + 1) else Some s)"

definition strlen :: "memory \<Rightarrow> u32 \<Rightarrow> u32 option" where
  "strlen m string = strlen_from m string 0"

lemma strlen_from_stops:
  assumes "m (string + s + word_of_nat n) = 0" and "\<And>i. i < n \<Longrightarrow> m (string + s + word_of_nat i) \<noteq> 0"
  shows "strlen_from m string s = Some (s + word_of_nat n)"
  using assms
proof (induction n arbitrary: s)
  case 0
  then show ?case by (subst strlen_from.simps) simp
next
  case (Suc n)
  have "m (string + s) \<noteq> 0" using Suc.prems(2) [of 0] by simp
  moreover have "strlen_from m string (s + 1) = Some (s + 1 + word_of_nat n)"
    using Suc.prems(1) Suc.prems(2) [of "Suc i" for i]
    by (intro Suc.IH) (auto simp: algebra_simps)
  ultimately show ?case by (subst strlen_from.simps) (simp add: algebra_simps)
qed

section \<open>Characters and numbers\<close>

definition char_code :: "char \<Rightarrow> nat" where
  "char_code c = of_char c"

definition isnum :: "char \<Rightarrow> bool" where
  "isnum c \<longleftrightarrow> char_code c \<ge> char_code (CHR ''0'') \<and> char_code c \<le> char_code (CHR ''9'')"

definition isdigit :: "char \<Rightarrow> bool" where
  "isdigit c = isnum c"

definition isspace :: "char \<Rightarrow> bool" where
  "isspace c \<longleftrightarrow> c = CHR '' '' \<or> c = CHR 0x0C \<or> c = CHR 0x0A \<or> c = CHR 0x0D \<or>
     c = CHR 0x09 \<or> c = CHR 0x0B"

text \<open>The loop \<open>while(isnum(*str++)) ret++\<close>; the terminator is not a digit.\<close>

fun count_digits :: "string \<Rightarrow> nat" where
  "count_digits [] = 0"
| "count_digits (c # str) = (if isnum c then Suc (count_digits str) else 0)"

definition declen :: "string \<Rightarrow> nat" where
  "declen str =
     (case str of
        c # rest \<Rightarrow>
          if c = CHR ''-'' then
            (case rest of
               d # rest' \<Rightarrow> if isnum d then 2 + count_digits rest' else 0
             | [] \<Rightarrow> 0)
          else count_digits str
      | [] \<Rightarrow> 0)"

text \<open>
  The loop of \<open>atoq\<close> walks from the last character of the number back to the first, so it
  is a recursion over the reversed prefix. \<open>ret\<close> is a 32-bit and the power of ten a 16-bit
  integer, and both wrap; the addition is done in 64 bits and cut back to 32.
\<close>

definition signed_ret :: "bool \<Rightarrow> u32 \<Rightarrow> u64" where
  "signed_ret negflag ret = scast (if negflag then - ret else ret)"

fun atoq_loop :: "string \<Rightarrow> u32 \<Rightarrow> bool \<Rightarrow> u16 \<Rightarrow> bool \<Rightarrow> u64" where
  "atoq_loop [] ret negflag pow started = signed_ret negflag ret"
| "atoq_loop (c # cs) ret negflag pow started =
     (if c = CHR ''-'' then
        (if negflag \<or> started then 0
         else atoq_loop cs ret True (pow * 10) started)
      else if isnum c then
        atoq_loop cs
          (ucast (scast ret + ucast pow * (word_of_nat (char_code c - char_code (CHR ''0''))) :: u64))
          negflag (pow * 10) True
      else signed_ret negflag ret)"

definition atoq :: "string \<Rightarrow> u64" where
  "atoq str = atoq_loop (rev (take (declen str) str)) 0 False 1 False"

definition atoll :: "string \<Rightarrow> u64" where
  "atoll str = atoq str"

definition atoi :: "string \<Rightarrow> u32" where
  "atoi str =
     (let r64 = atoq str; r32 = ucast (r64 AND 0x7fffffff) :: u32
      in if sint r64 < 0 then - r32 else r32)"

subsection \<open>What the parser computes\<close>

definition digit :: "char \<Rightarrow> nat" where
  "digit c = char_code c - char_code (CHR ''0'')"

fun rev_value :: "string \<Rightarrow> nat" where
  "rev_value [] = 0"
| "rev_value (c # cs) = digit c + 10 * rev_value cs"

definition dec_value :: "string \<Rightarrow> nat" where
  "dec_value ds = rev_value (rev ds)"

lemma digit_le_9: "isnum c \<Longrightarrow> digit c \<le> 9"
  by (auto simp: isnum_def digit_def char_code_def)

lemma isnum_not_minus: "isnum c \<Longrightarrow> c \<noteq> CHR ''-''"
  by (auto simp: isnum_def char_code_def)

lemma rev_value_bound: "list_all isnum cs \<Longrightarrow> rev_value cs < 10 ^ length cs"
  by (induction cs) (use digit_le_9 in fastforce)+

lemma sint_u32_small:
  assumes "unat (ret::u32) < 2 ^ 31"
  shows "sint ret = int (unat ret)"
proof -
  have "int (unat ret) < 2 ^ 31" using assms by (metis of_nat_less_iff of_nat_numeral of_nat_power)
  moreover have "- (2 ^ 31) \<le> int (unat ret)" by (rule order_trans [of _ 0]) simp_all
  ultimately have "signed_take_bit 31 (int (unat ret)) = int (unat ret)"
    by (intro signed_take_bit_int_eq_self)
  then show ?thesis by (simp add: sint_uint)
qed

lemma u32_step:
  assumes "unat ret + p * d < 2 ^ 31" and "p < 2 ^ 16"
  shows "ucast (scast (ret::u32) + ucast (word_of_nat p :: u16) * word_of_nat d :: u64)
    = (word_of_nat (unat ret + p * d) :: u32)"
proof -
  have "scast ret = (word_of_nat (unat ret) :: u64)"
    using assms(1) by (simp add: scast_eq sint_u32_small)
  moreover have "ucast (word_of_nat p :: u16) = (word_of_nat p :: u64)"
    using assms(2) by (simp add: unsigned_of_nat take_bit_nat_eq_self)
  moreover have "ucast (word_of_nat (unat ret + p * d) :: u64) = (word_of_nat (unat ret + p * d) :: u32)"
    using assms(1) by (simp only: unsigned_of_nat take_bit_nat_eq_self) (simp add: take_bit_nat_eq_self)
  ultimately show ?thesis by simp
qed

lemma atoq_loop_digits:
  assumes "list_all isnum cs" and "k + length cs \<le> 5"
    and "unat ret + 10 ^ k * rev_value cs < 2 ^ 31"
  shows "atoq_loop cs ret False (word_of_nat (10 ^ k)) st =
    word_of_nat (unat ret + 10 ^ k * rev_value cs)"
  using assms
proof (induction cs arbitrary: ret k st)
  case Nil
  then show ?case by (simp add: signed_ret_def scast_eq sint_u32_small)
next
  case (Cons c cs)
  define ret' where "ret' = (word_of_nat (unat ret + 10 ^ k * digit c) :: u32)"
  have "(10::nat) ^ k \<le> 10 ^ 4" using Cons.prems(2) by (intro power_increasing) auto
  then have p: "(10::nat) ^ k < 2 ^ 16" by simp
  have b: "unat ret + 10 ^ k * digit c + 10 ^ Suc k * rev_value cs < 2 ^ 31"
    using Cons.prems(3) by (simp add: algebra_simps)
  then have r: "unat ret' = unat ret + 10 ^ k * digit c"
    unfolding ret'_def by (simp only: unat_of_nat) simp
  have "atoq_loop cs ret' False (word_of_nat (10 ^ Suc k)) True
      = word_of_nat (unat ret' + 10 ^ Suc k * rev_value cs)"
    using Cons.prems b r by (intro Cons.IH) auto
  moreover have "unat ret' + 10 ^ Suc k * rev_value cs = unat ret + 10 ^ k * rev_value (c # cs)"
    using r by (simp add: algebra_simps)
  moreover have "atoq_loop (c # cs) ret False (word_of_nat (10 ^ k)) st
      = atoq_loop cs ret' False (word_of_nat (10 ^ Suc k)) True"
  proof -
    have "ret' = ucast (scast ret + ucast (word_of_nat (10 ^ k) :: u16) * word_of_nat (digit c) :: u64)"
      unfolding ret'_def using b p by (intro u32_step [symmetric]) auto
    then show ?thesis
      using Cons.prems(1) isnum_not_minus [of c] by (simp add: digit_def mult.commute)
  qed
  ultimately show ?case by (simp only:)
qed

lemma count_digits_span:
  "list_all isnum ds \<Longrightarrow> rest = [] \<or> \<not> isnum (hd rest) \<Longrightarrow> count_digits (ds @ rest) = length ds"
  by (induction ds) (cases rest, auto)

lemma declen_digits:
  assumes "list_all isnum ds" and "ds \<noteq> []" and "rest = [] \<or> \<not> isnum (hd rest)"
  shows "declen (ds @ rest) = length ds"
  using assms count_digits_span [OF assms(1,3)] isnum_not_minus
  by (cases ds) (auto simp: declen_def)

lemma small_u64:
  assumes "n < 100000"
  shows "word_of_nat n AND (0x7fffffff :: u64) = word_of_nat n"
    and "0 \<le> sint (word_of_nat n :: u64)" and "\<not> sint (word_of_nat n :: u64) < 0"
    and "unat (ucast (word_of_nat n :: u64) :: u32) = n"
proof -
  have "(0x7fffffff :: u64) = mask 31" by (simp add: mask_eq_exp_minus_1)
  then have "word_of_nat n AND (0x7fffffff :: u64) = take_bit 31 (word_of_nat n)"
    by (simp add: take_bit_eq_mask)
  then show "word_of_nat n AND (0x7fffffff :: u64) = word_of_nat n"
    using assms by (simp add: take_bit_of_nat take_bit_nat_eq_self)
  have "\<not> bit (int n) 63" using assms by (simp add: bit_iff_odd div_pos_pos_trivial)
  then show "0 \<le> sint (word_of_nat n :: u64)"
    using assms by (simp add: sint_uint unsigned_of_nat uint_nat take_bit_nat_eq_self)
  then show "\<not> sint (word_of_nat n :: u64) < 0" by linarith
  show "unat (ucast (word_of_nat n :: u64) :: u32) = n"
    using assms by (simp add: unsigned_of_nat unat_of_nat take_bit_nat_eq_self)
qed

lemma atoi_digits:
  assumes "list_all isnum ds" and "ds \<noteq> []" and "length ds \<le> 5"
    and "rest = [] \<or> \<not> isnum (hd rest)"
  shows "unat (atoi (ds @ rest)) = dec_value ds"
proof -
  have b: "dec_value ds < 10 ^ 5"
    using rev_value_bound [of "rev ds"] assms(1,3) power_increasing [of "length ds" 5 "10::nat"]
    by (simp add: dec_value_def)
  moreover have "atoq (ds @ rest) = word_of_nat (dec_value ds)"
    using b assms atoq_loop_digits [of "rev ds" 0 0 False]
    by (simp add: atoq_def declen_digits dec_value_def)
  ultimately show ?thesis using b by (simp add: atoi_def small_u64)
qed

text \<open>\<open>atoi\<close> reads a decimal number of up to five digits, whatever follows it.\<close>

theorem atoi_decimal:
  assumes "list_all isnum ds" and "ds \<noteq> []" and "length ds \<le> 5"
    and "rest = [] \<or> \<not> isnum (hd rest)"
  shows "unat (atoi (ds @ rest)) = dec_value ds"
  using assms by (rule atoi_digits)

lemma atoi_decimal_witness:
  "unat (atoi (''65535'' @ ''px'')) = dec_value ''65535''"
  by (rule atoi_decimal) (simp_all add: isnum_def char_code_def of_char_def)

lemma atoq_loop_minus:
  "list_all isnum cs \<Longrightarrow> cs \<noteq> [] \<or> st \<Longrightarrow> atoq_loop (cs @ [CHR ''-'']) ret False p st = 0"
  by (induction cs arbitrary: ret p st) (auto simp: isnum_not_minus)

text \<open>\<open>atoi\<close> answers 0 for every negative number: the digits are read first, and the sign
  that comes after them is taken for an error.\<close>

theorem atoi_negative:
  assumes "list_all isnum ds" and "ds \<noteq> []" and "rest = [] \<or> \<not> isnum (hd rest)"
  shows "atoi (CHR ''-'' # ds @ rest) = 0"
proof -
  have "declen (CHR ''-'' # ds @ rest) = Suc (length ds)"
    using assms count_digits_span [of "tl ds" rest]
    by (cases ds) (auto simp: declen_def)
  then have "atoq (CHR ''-'' # ds @ rest) = 0"
    using assms atoq_loop_minus [of "rev ds" False 0 1] by (simp add: atoq_def)
  then show ?thesis by (simp add: atoi_def)
qed

lemma atoi_negative_witness: "atoi (CHR ''-'' # ''12'' @ '' '') = 0"
  by (rule atoi_negative) (simp_all add: isnum_def char_code_def of_char_def)

section \<open>The line reader\<close>

text \<open>
  \<open>fgets\<close> polls the device: each call of \<open>read(file, &c, 1)\<close> either delivers one
  character (returns 1) or nothing. The device is the list of what its next reads give;
  a call that has used up the list is still waiting (\<open>None\<close>). The buffer is what has been
  stored at \<open>s\<close> so far, the final terminator not counted.
\<close>

datatype read_event = Delivers char | Delivers_nothing

definition line_end :: "char \<Rightarrow> bool" where
  "line_end c \<longleftrightarrow> c = CHR 0x00 \<or> c = CHR 0x0A \<or> c = CHR 0x0D"

fun fgets_loop :: "nat \<Rightarrow> read_event list \<Rightarrow> string \<Rightarrow> (string \<times> read_event list) option" where
  "fgets_loop sz evs s =
     (if sz > 1 then
        (case evs of
           [] \<Rightarrow> None
         | Delivers_nothing # evs' \<Rightarrow> fgets_loop sz evs' s
         | Delivers c # evs' \<Rightarrow>
             (let s' = (if c \<noteq> CHR 0x00 then s @ [c] else s);
                  sz' = (if c \<noteq> CHR 0x00 then sz - 1 else sz)
              in if line_end c then Some (s', evs') else fgets_loop sz' evs' s'))
      else Some (s, evs))"

text \<open>\<open>Some None\<close> is the \<open>NULL\<close> that a zero \<open>size\<close> gets.\<close>

definition fgets :: "nat \<Rightarrow> read_event list \<Rightarrow> (string option \<times> read_event list) option" where
  "fgets sz evs =
     (if sz < 1 then Some (None, evs)
      else map_option (\<lambda>(s, evs'). (Some s, evs')) (fgets_loop sz evs []))"

declare fgets_loop.simps [simp del]

lemma fgets_loop_bound:
  "fgets_loop sz evs s = Some (r, evs') \<Longrightarrow>
     length r \<le> length s + (sz - 1) \<and> (CHR 0x00 \<notin> set s \<longrightarrow> CHR 0x00 \<notin> set r)"
proof (induction evs arbitrary: sz s)
  case Nil
  then show ?case by (subst (asm) fgets_loop.simps) (auto split: if_splits)
next
  case (Cons e es)
  show ?case
  proof (cases "sz > 1")
    case True
    note step = Cons.prems [unfolded fgets_loop.simps [of sz "e # es" s]]
    show ?thesis
    proof (cases e)
      case (Delivers c)
      with True step Cons.IH [of "sz - 1" "s @ [c]"] show ?thesis
        by (auto simp: Let_def line_end_def split: if_splits)
    next
      case Delivers_nothing
      with True step Cons.IH [of sz s] show ?thesis by auto
    qed
  next
    case False
    with Cons.prems show ?thesis by (subst (asm) fgets_loop.simps) auto
  qed
qed

text \<open>The line \<open>fgets\<close> stores fits the buffer with its terminator, and holds no null character
  before it.\<close>

theorem fgets_fits_buffer:
  assumes "fgets sz evs = Some (Some s, evs')"
  shows "length s < sz \<and> CHR 0x00 \<notin> set s"
  using assms fgets_loop_bound [of sz evs "[]" s evs']
  by (auto simp: fgets_def split: if_splits)

lemma fgets_fits_buffer_witness: "length ''ab'' < (3::nat) \<and> CHR 0x00 \<notin> set ''ab''"
  by (rule fgets_fits_buffer [of 3 "[Delivers CHR ''a'', Delivers_nothing, Delivers CHR ''b'', Delivers CHR ''c'']"
        "''ab''" "[Delivers CHR ''c'']"])
    (simp add: fgets_def fgets_loop.simps line_end_def)

end
