(* ===== verification/Boot_Pages.thy ===== *)
theory Boot_Pages
  imports Stdlib
begin

text \<open>
  \<open>src/kernel/memory/boot_pages.c\<close>: the watermark allocator that serves the kernel until
  the page allocator is up. The state is the counter \<open>_boot_pages\<close> and the memory that
  \<open>GFP_ZERO\<close> clears. \<open>_BUG()\<close> inside \<open>get_boot_pages\<close> is \<open>Inl BUG\<close>. The bare-metal
  branch of the file is modelled; the hosted one differs in the heap's first address only.
\<close>

record boot =
  boot_pages :: u32
  boot_mem :: memory

definition heap_virtual_begin :: "board \<Rightarrow> u32" where
  "heap_virtual_begin cfg = HEAP_BEGIN cfg"

text \<open>As written: the end of memory minus the heap's first address, a length.\<close>

definition heap_virtual_end :: "board \<Rightarrow> u32" where
  "heap_virtual_end cfg =
     (VIRTUAL_MEMORY_BASE_ADDRESS cfg + PHYSICAL_MEMORY_LENGTH cfg) - heap_virtual_begin cfg"

definition heap_length :: "board \<Rightarrow> u32" where
  "heap_length cfg = heap_virtual_end cfg - heap_virtual_begin cfg"

definition heap_pages :: "board \<Rightarrow> u32" where
  "heap_pages cfg = heap_length cfg div PAGE_SIZE cfg"

definition get_boot_pages :: "board \<Rightarrow> u32 \<Rightarrow> u32 \<Rightarrow> boot \<Rightarrow> (u32 \<times> boot) run" where
  "get_boot_pages cfg pages flags s =
     (let base = heap_virtual_begin cfg + boot_pages s * PAGE_SIZE cfg
      in if boot_pages s + pages > heap_pages cfg then Inl BUG
         else
           let s1 = (if flags AND GFP_ZERO \<noteq> 0
                     then s\<lparr>boot_mem := memset (boot_mem s) base 0 (pages * PAGE_SIZE cfg)\<rparr>
                     else s)
           in Inr (base, s1\<lparr>boot_pages := boot_pages s1 + pages\<rparr>))"

definition get_boot_pages_remaining :: "board \<Rightarrow> boot \<Rightarrow> (u32 \<times> boot) run" where
  "get_boot_pages_remaining cfg s =
     (case get_boot_pages cfg 0 0 s of
        Inl e \<Rightarrow> Inl e
      | Inr (heap_begin, s') \<Rightarrow>
          Inr ((VIRTUAL_MEMORY_BASE_ADDRESS cfg + PHYSICAL_MEMORY_LENGTH cfg) - heap_begin, s'))"

text \<open>The \<open>for(;;)\<close> of \<open>get_aligned_boot_pages\<close>; \<open>None\<close> would be a run that never leaves it.\<close>

partial_function (option) get_aligned_boot_pages ::
  "board \<Rightarrow> u32 \<Rightarrow> u32 \<Rightarrow> u32 \<Rightarrow> boot \<Rightarrow> (u32 \<times> boot) run option" where
  "get_aligned_boot_pages cfg alignment pages flags s =
     (let base = heap_virtual_begin cfg + boot_pages s * PAGE_SIZE cfg
      in if base AND (alignment - 1) = 0 then Some (get_boot_pages cfg pages flags s)
         else
           let s' = s\<lparr>boot_pages := boot_pages s + 1\<rparr>
           in if boot_pages s' + pages > heap_pages cfg then Some (Inr (0, s'))
              else get_aligned_boot_pages cfg alignment pages flags s')"

definition end_boot_pages :: "board \<Rightarrow> boot \<Rightarrow> boot" where
  "end_boot_pages cfg s = s\<lparr>boot_pages := heap_pages cfg\<rparr>"

section \<open>Properties\<close>

lemma get_boot_pages_Inr:
  assumes "get_boot_pages cfg pages flags s = Inr (a, s')"
  shows "a = HEAP_BEGIN cfg + boot_pages s * PAGE_SIZE cfg"
    and "boot_pages s' = boot_pages s + pages" and "boot_pages s + pages \<le> heap_pages cfg"
  using assms by (auto simp: get_boot_pages_def heap_virtual_begin_def Let_def split: if_splits)

lemma get_boot_pages_mem:
  assumes "get_boot_pages cfg pages flags s = Inr (a, s')"
  shows "boot_mem s' x =
    (if flags AND GFP_ZERO \<noteq> 0 \<and> off a x < unat (pages * PAGE_SIZE cfg) then 0 else boot_mem s x)"
  using assms
  by (auto simp: get_boot_pages_def Let_def memset_at split: if_splits)

text \<open>Boot pages are handed out from a watermark: a request starts where the one before it ended.\<close>

theorem boot_pages_consecutive:
  assumes "get_boot_pages cfg p f s = Inr (a, s1)" and "get_boot_pages cfg q g s1 = Inr (b, s2)"
  shows "b = a + p * PAGE_SIZE cfg"
  using get_boot_pages_Inr [OF assms(1)] get_boot_pages_Inr [OF assms(2)]
  by (simp add: algebra_simps)

lemmas eval_boot = heap_virtual_begin_def beaglexm_def get_boot_pages_def heap_pages_def heap_length_def
  heap_virtual_end_def gfp_defs

lemma boot_pages_consecutive_witness:
  "\<exists>a s1 b s2. get_boot_pages (beaglexm 0x80300000) 3 GFP_ZERO \<lparr>boot_pages = 0, boot_mem = \<lambda>_. 0\<rparr> = Inr (a, s1) \<and>
     get_boot_pages (beaglexm 0x80300000) 1 GFP_KERNEL s1 = Inr (b, s2) \<and> b = a + 3 * 4096"
proof -
  obtain a s1 where 1: "get_boot_pages (beaglexm 0x80300000) 3 GFP_ZERO \<lparr>boot_pages = 0, boot_mem = \<lambda>_. 0\<rparr> = Inr (a, s1)"
    and n: "boot_pages s1 = 3" by (simp add: eval_boot)
  obtain b s2 where 2: "get_boot_pages (beaglexm 0x80300000) 1 GFP_KERNEL s1 = Inr (b, s2)" using n by (simp add: eval_boot)
  have "PAGE_SIZE (beaglexm 0x80300000) = 4096" by (simp add: beaglexm_def)
  with boot_pages_consecutive [OF 1 2] 1 2 show ?thesis by simp
qed

lemma heap_pages_bound:
  assumes "1 < PAGE_SIZE cfg"
  shows "unat (heap_pages cfg) < 2 ^ 31"
proof -
  have "2 \<le> unat (PAGE_SIZE cfg)" using assms by (simp add: word_less_nat_alt)
  then have "unat (heap_length cfg) div unat (PAGE_SIZE cfg) \<le> unat (heap_length cfg) div 2"
    by (intro div_le_mono2) auto
  moreover have "unat (heap_length cfg) div 2 < 2 ^ 31" using unat_u32_less [of "heap_length cfg"] by (simp add: div_less_iff_less_mult)
  ultimately show ?thesis by (simp add: heap_pages_def unat_div_u32)
qed

lemma get_aligned_boot_pages_ok:
  assumes "unat (boot_pages s) + unat pages \<le> unat (heap_pages cfg)" and "1 < PAGE_SIZE cfg"
  shows "\<exists>a s'. get_aligned_boot_pages cfg alignment pages flags s = Some (Inr (a, s')) \<and>
    (a = 0 \<or> a AND (alignment - 1) = 0 \<and> (\<exists>s1. boot_pages s \<le> boot_pages s1 \<and> boot_mem s1 = boot_mem s \<and>
      unat (boot_pages s1) + unat pages \<le> unat (heap_pages cfg) \<and> get_boot_pages cfg pages flags s1 = Inr (a, s')))"
  using assms(1)
proof (induction "unat (heap_pages cfg) - unat (boot_pages s)" arbitrary: s rule: less_induct)
  case less
  note hp = heap_pages_bound [OF assms(2)]
  let ?base = "heap_virtual_begin cfg + boot_pages s * PAGE_SIZE cfg"
  let ?s = "s\<lparr>boot_pages := boot_pages s + 1\<rparr>"
  have up: "unat (boot_pages ?s) = unat (boot_pages s) + 1"
    using less.prems hp by (simp add: unat_add_u32)
  show ?case
  proof (cases "?base AND (alignment - 1) = 0")
    case True
    have "\<not> boot_pages s + pages > heap_pages cfg"
      using less.prems hp by (simp add: word_less_nat_alt unat_add_u32)
    then obtain s' where got: "get_boot_pages cfg pages flags s = Inr (?base, s')" by (simp add: get_boot_pages_def Let_def)
    then have "get_aligned_boot_pages cfg alignment pages flags s = Some (Inr (?base, s'))"
      using True by (subst get_aligned_boot_pages.simps) (simp add: Let_def)
    then show ?thesis using True got less.prems by blast
  next
    case False
    show ?thesis
    proof (cases "boot_pages ?s + pages > heap_pages cfg")
      case True
      with False show ?thesis
        by (subst get_aligned_boot_pages.simps) (simp add: Let_def)
    next
      case stay: False
      have "unat (boot_pages ?s + pages) = unat (boot_pages ?s) + unat pages"
        using less.prems hp up by (intro unat_add_u32) simp
      with stay have le: "unat (boot_pages ?s) + unat pages \<le> unat (heap_pages cfg)"
        by (simp add: word_less_nat_alt)
      have dec: "unat (heap_pages cfg) - unat (boot_pages ?s) < unat (heap_pages cfg) - unat (boot_pages s)"
        using le up by linarith
      have "get_aligned_boot_pages cfg alignment pages flags s =
          get_aligned_boot_pages cfg alignment pages flags ?s"
        using False stay by (subst get_aligned_boot_pages.simps) (simp add: Let_def)
      moreover have "boot_pages s \<le> boot_pages ?s" using up by (simp add: word_le_nat_alt)
      moreover note less.hyps [OF dec le]
      ultimately show ?thesis by (auto intro: order_trans)
    qed
  qed
qed

text \<open>The search of \<open>get_aligned_boot_pages\<close> ends, with a null pointer or with pages
  behind the watermark whose address has the alignment asked for.\<close>

theorem get_aligned_boot_pages_returns:
  assumes "unat (boot_pages s) + unat pages \<le> unat (heap_pages cfg)" and "1 < PAGE_SIZE cfg"
  shows "\<exists>a s'. get_aligned_boot_pages cfg alignment pages flags s = Some (Inr (a, s')) \<and>
    (a = 0 \<or> a AND (alignment - 1) = 0 \<and>
      (\<exists>k \<ge> boot_pages s. a = HEAP_BEGIN cfg + k * PAGE_SIZE cfg \<and> boot_pages s' = k + pages))"
proof -
  obtain a s' where a: "get_aligned_boot_pages cfg alignment pages flags s = Some (Inr (a, s'))"
    and cases: "a = 0 \<or> a AND (alignment - 1) = 0 \<and> (\<exists>s1. boot_pages s \<le> boot_pages s1 \<and> boot_mem s1 = boot_mem s \<and>
      get_boot_pages cfg pages flags s1 = Inr (a, s'))" using get_aligned_boot_pages_ok [OF assms] by blast
  show ?thesis
  proof (cases "a = 0")
    case False
    then obtain s1 where "boot_pages s \<le> boot_pages s1" "get_boot_pages cfg pages flags s1 = Inr (a, s')"
      using cases by blast
    then show ?thesis using a cases get_boot_pages_Inr [of cfg pages flags s1 a s'] by blast
  qed (use a in blast)
qed

lemma get_aligned_boot_pages_returns_witness:
  "\<exists>a s'. get_aligned_boot_pages (beaglexm 0x80301000) 0x4000 4 GFP_KERNEL \<lparr>boot_pages = 0, boot_mem = \<lambda>_. 0\<rparr> = Some (Inr (a, s')) \<and>
    (a = 0 \<or> a AND 0x3fff = 0)"
proof -
  have "unat (heap_pages (beaglexm 0x80301000)) \<ge> 4" and "1 < PAGE_SIZE (beaglexm 0x80301000)" by (simp_all add: eval_boot)
  then show ?thesis
    using get_aligned_boot_pages_returns [of "\<lparr>boot_pages = 0, boot_mem = \<lambda>_. 0\<rparr>" 4 "beaglexm 0x80301000" "0x4000" GFP_KERNEL]
    by auto
qed

lemma get_boot_pages_remaining_eq:
  "get_boot_pages_remaining cfg s = Inr (r, s') \<Longrightarrow>
     r = VIRTUAL_MEMORY_BASE_ADDRESS cfg + PHYSICAL_MEMORY_LENGTH cfg
       - (HEAP_BEGIN cfg + boot_pages s * PAGE_SIZE cfg)"
  by (auto simp: get_boot_pages_remaining_def dest: get_boot_pages_Inr split: sum.splits)

text \<open>On the BeagleBoard-xM the boot pages go far beyond the end of the memory before the limit stops
  them: the end of the heap is computed as a length.\<close>

theorem boot_limit_beyond_ram:
  "\<exists>s'. get_boot_pages (beaglexm 0x80300000) 0x20000 GFP_KERNEL \<lparr>boot_pages = 0, boot_mem = m\<rparr>
       = Inr (0x80300000, s') \<and>
     unat (0x80300000 :: u32) + 0x20000 * unat (PAGE_SIZE (beaglexm 0x80300000)) >
       unat (VIRTUAL_MEMORY_BASE_ADDRESS (beaglexm 0x80300000)) +
       unat (PHYSICAL_MEMORY_LENGTH (beaglexm 0x80300000))"
  by (simp add: get_boot_pages_def heap_pages_def heap_length_def heap_virtual_end_def
      heap_virtual_begin_def beaglexm_def gfp_defs Let_def)

end
