(* ===== verification/Buddy.thy ===== *)
theory Buddy
  imports Boot_Pages
begin

text \<open>
  \<open>src/kernel/lib/alloc/buddy_alloc.c\<close>: two families of bitmaps, one bit per block of
  \<open>2 ^ order\<close> pages. A block is \<^emph>\<open>dirty\<close> when something inside it is allocated and
  \<^emph>\<open>saturated\<close> when nothing inside it is left. All bitmaps live one after the other in a
  single allocation, so the model keeps that memory as one array of words (\<open>words\<close>, indexed
  from its first word) and each bitmap as the index of its first word: a write past the end
  of one bitmap lands in the next one, as it does in the program.
\<close>

section \<open>State\<close>

record buddy =
  data :: "nat list"
  order_0_bits :: nat
  orders :: nat

record buddies =
  dirty :: buddy
  saturated :: buddy
  total_pages_allocated :: u32
  heap_base :: u32
  words :: "nat \<Rightarrow> u32"

section \<open>Geometry\<close>

definition determine_buddy_order_ptr_size :: "buddy \<Rightarrow> nat" where
  "determine_buddy_order_ptr_size b = orders b * WORD_T_BYTES"

text \<open>\<open>ALIGN_U(b->order_0_bits >> order, WORD_T_BITS) / 8\<close>.\<close>

definition determine_buddy_order_size :: "buddy \<Rightarrow> nat \<Rightarrow> nat" where
  "determine_buddy_order_size b order =
     ((order_0_bits b div 2 ^ order + (WORD_T_BITS - 1)) div WORD_T_BITS * WORD_T_BITS) div 8"

definition buddy_order_bits :: "buddy \<Rightarrow> nat \<Rightarrow> nat" where
  "buddy_order_bits b order =
     order_0_bits b div 2 ^ order + (if order_0_bits b mod 2 ^ order \<noteq> 0 then 1 else 0)"

definition determine_buddy_data_size :: "buddy \<Rightarrow> nat" where
  "determine_buddy_data_size b =
     determine_buddy_order_ptr_size b + (\<Sum>order \<leftarrow> [0..<orders b]. determine_buddy_order_size b order)"

text \<open>The loop \<open>for(; orders > 0; orders--)\<close> of \<open>_configure_geometry\<close>.\<close>

fun geometry_orders :: "nat \<Rightarrow> nat \<Rightarrow> nat" where
  "geometry_orders bits 0 = 0"
| "geometry_orders bits (Suc k) = (if bits div 2 ^ k > 0 then Suc k else geometry_orders bits k)"

definition configure_geometry :: "board \<Rightarrow> buddies \<Rightarrow> u32 \<Rightarrow> int \<times> buddies" where
  "configure_geometry cfg b heap_len =
     (let n = unat (heap_len div PAGE_SIZE cfg);
          b1 = b\<lparr>dirty := (dirty b)\<lparr>order_0_bits := n\<rparr>,
                 saturated := (saturated b)\<lparr>order_0_bits := n\<rparr>\<rparr>;
          ords = geometry_orders n 31
      in if ords = 0 then (-1, b1)
         else (0, b1\<lparr>dirty := (dirty b1)\<lparr>orders := ords\<rparr>,
                     saturated := (saturated b1)\<lparr>orders := ords\<rparr>\<rparr>))"

section \<open>Building the bitmaps\<close>

type_synonym 's page_source = "u32 \<Rightarrow> u32 \<Rightarrow> 's \<Rightarrow> (u32 \<times> 's) run"

definition buddy_data_alloc ::
  "board \<Rightarrow> buddies \<Rightarrow> u32 \<Rightarrow> 's page_source \<Rightarrow> u32 \<Rightarrow> 's \<Rightarrow> (u32 \<times> buddies \<times> 's) run" where
  "buddy_data_alloc cfg b bytes alloc_func flags s =
     (let pages = ALIGN_U bytes (PAGE_SIZE cfg) div PAGE_SIZE cfg
      in case alloc_func pages flags s of
           Inl e \<Rightarrow> Inl e
         | Inr (heap_begin, s') \<Rightarrow>
             Inr (heap_begin,
                  b\<lparr>words := (\<lambda>i. if WORD_T_BYTES * i < unat (pages * PAGE_SIZE cfg) then 0 else words b i)\<rparr>,
                  s'))"

text \<open>
  One round of each loop that lays out the bitmaps. \<open>cur\<close> is the index of the next free
  word. A level whose last block is cut off by the end of the heap starts with that block
  marked dirty.
\<close>

fun dirty_step :: "buddy \<Rightarrow> nat \<Rightarrow> nat list \<times> nat \<times> (nat \<Rightarrow> u32) \<Rightarrow> nat list \<times> nat \<times> (nat \<Rightarrow> u32)" where
  "dirty_step d order (ptrs, cur, w) =
     (let n = order_0_bits d;
          cur' = cur + determine_buddy_order_size d order div WORD_T_BYTES
      in if n mod 2 ^ order \<noteq> 0 then
           let bt = n div 2 ^ order; shift = bt mod WORD_T_BITS; wd = bt div WORD_T_BITS
           in (ptrs @ [cur], cur', w(cur + wd := w (cur + wd) OR BIT shift))
         else (ptrs @ [cur], cur', w))"

fun saturated_step :: "buddy \<Rightarrow> nat \<Rightarrow> nat list \<times> nat \<Rightarrow> nat list \<times> nat" where
  "saturated_step s order (ptrs, cur) =
     (ptrs @ [cur], cur + determine_buddy_order_size s order div WORD_T_BYTES)"

definition buddy_alloc_data ::
  "board \<Rightarrow> buddies \<Rightarrow> u32 \<Rightarrow> boot page_source \<Rightarrow> u32 \<Rightarrow> boot \<Rightarrow> (int \<times> buddies \<times> boot) run" where
  "buddy_alloc_data cfg b heap_len alloc_func flags s =
     (let b1 = snd (configure_geometry cfg b heap_len);
          total_data_sz = determine_buddy_data_size (dirty b1) + determine_buddy_data_size (saturated b1)
      in case buddy_data_alloc cfg b1 (word_of_nat total_data_sz) alloc_func flags s of
           Inl e \<Rightarrow> Inl e
         | Inr (base, b2, s1) \<Rightarrow>
             if total_data_sz \<ge> unat heap_len then Inl BUG
             else
               let b3 = snd (configure_geometry cfg b2 (heap_len - word_of_nat total_data_sz))
               in if base = 0 then Inr (-1, b3, end_boot_pages cfg s1)
                  else
                    let (dptrs, cur1, w) =
                          fold (dirty_step (dirty b3)) [0..<orders (dirty b3)]
                            ([], orders (dirty b3), words b3);
                        (sptrs, cur2) =
                          fold (saturated_step (saturated b3)) [0..<orders (saturated b3)]
                            ([], cur1 + orders (saturated b3));
                        cur = base + word_of_nat (WORD_T_BYTES * cur2);
                        err = (if cur = base + word_of_nat total_data_sz then 0 else -1)
                    in Inr (err,
                         b3\<lparr>dirty := (dirty b3)\<lparr>data := dptrs\<rparr>,
                            saturated := (saturated b3)\<lparr>data := sptrs\<rparr>,
                            words := w, heap_base := ALIGN_U cur (PAGE_SIZE cfg)\<rparr>,
                         end_boot_pages cfg s1))"

section \<open>Bit operations\<close>

definition twin_mask_from_shift :: "nat \<Rightarrow> u32" where
  "twin_mask_from_shift shift = (let sh = shift OR 1 in BIT sh OR BIT (sh - 1))"

text \<open>\<open>b->data[order][bit / WORD_T_BITS]\<close> and its assignment.\<close>

definition word_index :: "buddy \<Rightarrow> nat \<Rightarrow> nat \<Rightarrow> nat" where
  "word_index d order bt = data d ! order + bt div WORD_T_BITS"

definition set_word :: "buddies \<Rightarrow> nat \<Rightarrow> u32 \<Rightarrow> buddies" where
  "set_word b i v = b\<lparr>words := (words b)(i := v)\<rparr>"

lemma set_word_simps [simp]:
  "dirty (set_word b i v) = dirty b" "saturated (set_word b i v) = saturated b"
  "total_pages_allocated (set_word b i v) = total_pages_allocated b"
  "heap_base (set_word b i v) = heap_base b" "words (set_word b i v) = (words b)(i := v)"
  by (simp_all add: set_word_def)

function buddy_set_dirty :: "buddies \<Rightarrow> nat \<Rightarrow> nat \<Rightarrow> buddies" where
  "buddy_set_dirty b order bt =
     (if order < orders (dirty b) then
        let i = word_index (dirty b) order bt
        in buddy_set_dirty (set_word b i (words b i OR BIT (bt mod WORD_T_BITS))) (order + 1) (bt div 2)
      else b)"
  by pat_completeness auto
termination
  by (relation "measure (\<lambda>(b, order, bt). orders (dirty b) - order)") (auto simp: Let_def)

function buddy_clear_dirty :: "buddies \<Rightarrow> nat \<Rightarrow> nat \<Rightarrow> buddies" where
  "buddy_clear_dirty b order bt =
     (if order < orders (dirty b) then
        let shift = bt mod WORD_T_BITS;
            i = word_index (dirty b) order bt;
            dat = words b i AND NOT (BIT shift);
            b' = set_word b i dat
        in if dat AND twin_mask_from_shift shift \<noteq> 0 then b'
           else buddy_clear_dirty b' (order + 1) (bt div 2)
      else b)"
  by pat_completeness auto
termination
  by (relation "measure (\<lambda>(b, order, bt). orders (dirty b) - order)") (auto simp: Let_def)

function buddy_set_saturated :: "buddies \<Rightarrow> nat \<Rightarrow> nat \<Rightarrow> buddies" where
  "buddy_set_saturated b order bt =
     (if order < orders (saturated b) then
        let shift = bt mod WORD_T_BITS;
            i = word_index (saturated b) order bt;
            dat = words b i OR BIT shift;
            b' = set_word b i dat
        in if dat AND twin_mask_from_shift shift = twin_mask_from_shift shift
           then buddy_set_saturated b' (order + 1) (bt div 2)
           else b'
      else b)"
  by pat_completeness auto
termination
  by (relation "measure (\<lambda>(b, order, bt). orders (saturated b) - order)") (auto simp: Let_def)

function buddy_clear_saturated :: "buddies \<Rightarrow> nat \<Rightarrow> nat \<Rightarrow> buddies" where
  "buddy_clear_saturated b order bt =
     (if order < orders (saturated b) then
        let i = word_index (saturated b) order bt
        in buddy_clear_saturated (set_word b i (words b i AND NOT (BIT (bt mod WORD_T_BITS))))
             (order + 1) (bt div 2)
      else b)"
  by pat_completeness auto
termination
  by (relation "measure (\<lambda>(b, order, bt). orders (saturated b) - order)") (auto simp: Let_def)

text \<open>
  The search walks down from \<open>search_order\<close>. It returns from inside the loop as soon as it
  has descended into one block that is not saturated, without coming back to the loop when
  nothing was found there. \<open>WORD_T_MAX\<close> is \<open>None\<close>.
\<close>

function buddy_search_unsaturated :: "buddies \<Rightarrow> nat \<Rightarrow> nat \<Rightarrow> nat \<Rightarrow> nat \<Rightarrow> nat option" where
  "buddy_search_unsaturated b search_order target_order bt order_bit_end =
     (if bt < order_bit_end then
        let shift = bt mod WORD_T_BITS
        in if words b (word_index (saturated b) search_order bt) AND BIT shift = 0 then
             if search_order > target_order then
               let next_search_order = search_order - 1;
                   max_bits = buddy_order_bits (saturated b) next_search_order;
                   search_begin = bt * 2;
                   search_end = (if search_begin + 2 > max_bits then max_bits else search_begin + 2)
               in buddy_search_unsaturated b next_search_order target_order search_begin search_end
             else if search_order = target_order \<and>
                 words b (word_index (dirty b) target_order bt) AND BIT shift = 0 then Some bt
             else buddy_search_unsaturated b search_order target_order (bt + 1) order_bit_end
           else buddy_search_unsaturated b search_order target_order (bt + 1) order_bit_end
      else None)"
  by pat_completeness auto
termination
  by (relation "measures [\<lambda>(b, so, t, bt, e). so, \<lambda>(b, so, t, bt, e). e - bt]") auto

declare buddy_set_dirty.simps [simp del] buddy_clear_dirty.simps [simp del]
  buddy_set_saturated.simps [simp del] buddy_clear_saturated.simps [simp del]
  buddy_search_unsaturated.simps [simp del]

end
