(* ===== verification/Page2.thy ===== *)
theory Page2
  imports Buddy
begin

text \<open>
  \<open>src/kernel/memory/page2.c\<close>, the page allocator of every build: it rounds a request up to
  a power of two, finds a block in the bitmaps of \<open>Buddy\<close> and turns its number into an
  address; freeing works out the order of a block from the dirty bits alone.
\<close>

section \<open>Operations\<close>

record pages =
  buddies_of :: buddies
  pages_mem :: memory

definition get_total_pages_allocated :: "pages \<Rightarrow> u32" where
  "get_total_pages_allocated s = total_pages_allocated (buddies_of s)"

text \<open>
  \<open>for(;BIT(order)<pages;order++)\<close>. \<open>BIT(32)\<close> is undefined in C, which only a request for
  more than \<open>2 ^ 31\<close> pages reaches; the model stops there at 32, an order no bitmap has.
\<close>

function pages_order_from :: "u32 \<Rightarrow> nat \<Rightarrow> nat" where
  "pages_order_from pages order =
     (if order < WORD_T_BITS \<and> BIT order < pages then pages_order_from pages (order + 1) else order)"
  by pat_completeness auto
termination
  by (relation "measure (\<lambda>(pages, order). WORD_T_BITS - order)") auto

declare pages_order_from.simps [simp del]

definition pages_order :: "u32 \<Rightarrow> nat" where
  "pages_order pages = pages_order_from pages 0"

definition get_free_page_setup :: "board \<Rightarrow> buddies \<Rightarrow> boot \<Rightarrow> (int \<times> buddies \<times> boot) run" where
  "get_free_page_setup cfg b s =
     (case get_boot_pages_remaining cfg s of
        Inl e \<Rightarrow> Inl e
      | Inr (heap_len, s') \<Rightarrow> buddy_alloc_data cfg b heap_len (get_boot_pages cfg) GFP_KERNEL s')"

definition get_free_pages_pn :: "u32 \<Rightarrow> buddies \<Rightarrow> nat option \<times> buddies" where
  "get_free_pages_pn pages b =
     (let target_order = pages_order pages;
          top_order = orders (saturated b) - 1;
          top_bits = buddy_order_bits (saturated b) top_order
      in case buddy_search_unsaturated b top_order target_order 0 top_bits of
           Some search_result \<Rightarrow>
             let b1 = buddy_set_saturated b target_order search_result;
                 b2 = buddy_set_dirty b1 target_order search_result
             in (Some (search_result * 2 ^ target_order),
                 b2\<lparr>total_pages_allocated := total_pages_allocated b2 + BIT target_order\<rparr>)
         | None \<Rightarrow> (None, b))"

definition get_free_pages :: "board \<Rightarrow> u32 \<Rightarrow> u32 \<Rightarrow> pages \<Rightarrow> u32 \<times> pages" where
  "get_free_pages cfg pages flags s =
     (case get_free_pages_pn pages (buddies_of s) of
        (None, b) \<Rightarrow> (0, s\<lparr>buddies_of := b\<rparr>)
      | (Some pn, b) \<Rightarrow>
          let p = word_of_nat pn * PAGE_SIZE cfg + heap_base b;
              m = (if flags AND GFP_ZERO \<noteq> 0 then memset (pages_mem s) p 0 (pages * PAGE_SIZE cfg)
                   else pages_mem s)
          in (p, s\<lparr>buddies_of := b, pages_mem := m\<rparr>))"

definition get_free_page :: "board \<Rightarrow> u32 \<Rightarrow> pages \<Rightarrow> u32 \<times> pages" where
  "get_free_page cfg flags s = get_free_pages cfg 1 flags s"

fun determine_order_from :: "buddies \<Rightarrow> nat \<Rightarrow> nat \<Rightarrow> nat" where
  "determine_order_from b page 0 = 0"
| "determine_order_from b page (Suc k) =
     (let bt = page div 2 ^ k; shift = bt mod WORD_T_BITS
      in if words b (word_index (dirty b) k bt) AND BIT shift = 0 then Suc k
         else determine_order_from b page k)"

definition determine_allocated_page_order :: "buddies \<Rightarrow> nat \<Rightarrow> nat" where
  "determine_allocated_page_order b page = determine_order_from b page (orders (dirty b) - 1)"

definition free_pages2_pn :: "nat \<Rightarrow> buddies \<Rightarrow> buddies" where
  "free_pages2_pn page b =
     (if page \<noteq> 0xffffffff then
        let target_order = determine_allocated_page_order b page;
            pg = page div 2 ^ target_order;
            b1 = buddy_clear_saturated b target_order pg;
            b2 = buddy_clear_dirty b1 target_order pg
        in b2\<lparr>total_pages_allocated := total_pages_allocated b2 - BIT target_order\<rparr>
      else b)"

definition free_pages2 :: "board \<Rightarrow> u32 \<Rightarrow> pages \<Rightarrow> pages" where
  "free_pages2 cfg page s =
     (if page \<noteq> 0 then
        let page_number = unat ((page - heap_base (buddies_of s)) div PAGE_SIZE cfg)
        in s\<lparr>buddies_of := free_pages2_pn page_number (buddies_of s)\<rparr>
      else s)"

definition free_pages :: "board \<Rightarrow> u32 \<Rightarrow> u32 \<Rightarrow> pages \<Rightarrow> pages" where
  "free_pages cfg page pages s = free_pages2 cfg page s"

definition free_page :: "board \<Rightarrow> u32 \<Rightarrow> pages \<Rightarrow> pages" where
  "free_page cfg page s = free_pages cfg page 1 s"

end
