(* ===== verification/Buddy_Spec.thy ===== *)
theory Buddy_Spec
  imports Prelude
begin

text \<open>
  The abstract page allocator behind \<open>buddy_alloc.c\<close>: its state is the set of live blocks,
  a block being a pair of an order and a number, and the bitmaps' meaning is a function of
  that set. The bit loops are restated here on sets of bits, and shown to keep the meaning.
\<close>

type_synonym block = "nat \<times> nat"

section \<open>Blocks\<close>

text \<open>\<open>inside j m k n\<close>: block \<open>m\<close> of order \<open>j\<close> lies in block \<open>n\<close> of order \<open>k\<close>.\<close>

definition inside :: "nat \<Rightarrow> nat \<Rightarrow> nat \<Rightarrow> nat \<Rightarrow> bool" where
  "inside j m k n \<longleftrightarrow> j \<le> k \<and> m div 2 ^ (k - j) = n"

definition block_pages :: "block \<Rightarrow> nat set" where
  "block_pages bl = {snd bl * 2 ^ fst bl ..< (snd bl + 1) * 2 ^ fst bl}"

lemma div_exp_Suc: "(m::nat) div 2 ^ Suc i = m div 2 ^ i div 2"
  by (metis div_mult2_eq power_Suc2)

lemma inside_refl [simp]: "inside k n k n"
  by (simp add: inside_def)

lemma inside_Suc: "inside j m k n \<Longrightarrow> inside j m (Suc k) (n div 2)"
  by (auto simp: inside_def Suc_diff_le div_exp_Suc simp del: power_Suc)

lemma inside_trans: "inside i l j m \<Longrightarrow> inside j m k n \<Longrightarrow> inside i l k n"
  by (auto simp: inside_def simp flip: div_mult2_eq power_add)

lemma inside_cases:
  assumes "inside j m (Suc k) n"
  obtains "j = Suc k" and "m = n" | "inside j m k (2 * n)" | "inside j m k (2 * n + 1)"
proof (cases "j = Suc k")
  case True
  with assms that show ?thesis by (simp add: inside_def)
next
  case False
  with assms have "j \<le> k" and "m div 2 ^ (k - j) div 2 = n"
    by (auto simp: inside_def Suc_diff_le div_exp_Suc simp del: power_Suc)
  then have "inside j m k (2 * n) \<or> inside j m k (2 * n + 1)"
    by (auto simp: inside_def)
  with that show ?thesis by blast
qed

lemma page_in_block: "p \<in> block_pages (k, n) \<longleftrightarrow> p div 2 ^ k = n"
proof
  assume "p \<in> block_pages (k, n)"
  then show "p div 2 ^ k = n"
    by (intro div_nat_eqI) (auto simp: block_pages_def algebra_simps)
next
  assume n: "p div 2 ^ k = n"
  have "p div 2 ^ k * 2 ^ k \<le> p" by (rule div_times_less_eq_dividend)
  moreover have "p < p div 2 ^ k * 2 ^ k + 2 ^ k" using dividend_less_div_times [of "2 ^ k" p] by (simp add: algebra_simps)
  ultimately show "p \<in> block_pages (k, n)" using n by (auto simp: block_pages_def algebra_simps)
qed

lemma block_pages_inside: "inside j m k n \<Longrightarrow> block_pages (j, m) \<subseteq> block_pages (k, n)"
  by (auto simp: page_in_block inside_def simp flip: div_mult2_eq power_add)

lemma blocks_meet:
  assumes "block_pages (j, m) \<inter> block_pages (k, n) \<noteq> {}"
  shows "inside j m k n \<or> inside k n j m"
proof -
  obtain p where p: "p div 2 ^ j = m" "p div 2 ^ k = n"
    using assms page_in_block by auto
  have "inside j m k n" if "j \<le> k"
    using p that by (auto simp: inside_def simp flip: div_mult2_eq power_add)
  moreover have "inside k n j m" if "k \<le> j"
    using p that by (auto simp: inside_def simp flip: div_mult2_eq power_add)
  ultimately show ?thesis by linarith
qed

text \<open>The other half of a pair of twins.\<close>

definition twin :: "nat \<Rightarrow> nat" where
  "twin n = (if even n then n + 1 else n - 1)"

lemma twin_div2 [simp]: "twin n div 2 = n div 2"
  by (auto simp: twin_def elim!: oddE)

lemma twin_neq [simp]: "twin n \<noteq> n"
  by (auto simp: twin_def elim!: oddE)

lemma twin_children: "{2 * (n div 2), 2 * (n div 2) + 1} = {n, twin n}"
  by (auto simp: twin_def elim!: evenE oddE)

text \<open>A block and everything above it, below order \<open>hi\<close>.\<close>

definition chain :: "nat \<Rightarrow> nat \<Rightarrow> nat \<Rightarrow> block set" where
  "chain hi k n = {(j, m). j < hi \<and> inside k n j m}"

lemma inside_up: "inside k n j m \<longleftrightarrow> (j, m) = (k, n) \<or> inside (Suc k) (n div 2) j m"
proof (cases "Suc k \<le> j")
  case True
  then have "n div 2 ^ (j - k) = n div 2 div 2 ^ (j - Suc k)"
    by (metis Suc_diff_le diff_Suc_Suc div_mult2_eq power_Suc)
  with True show ?thesis by (auto simp: inside_def)
next
  case False
  then show ?thesis by (auto simp: inside_def)
qed

lemma chain_step: "k < hi \<Longrightarrow> chain hi k n = insert (k, n) (chain hi (Suc k) (n div 2))"
  by (subst chain_def, subst inside_up) (auto simp: chain_def)

lemma chain_empty: "hi \<le> k \<Longrightarrow> chain hi k n = {}"
  by (auto simp: chain_def inside_def)

section \<open>The meaning of the bitmaps\<close>

text \<open>Dirty: something live lies inside. Saturated: live itself, or both halves saturated.\<close>

definition dirty_of :: "block set \<Rightarrow> block set" where
  "dirty_of live = {(k, n). \<exists>(j, m) \<in> live. inside j m k n}"

fun sat_of :: "block set \<Rightarrow> nat \<Rightarrow> nat \<Rightarrow> bool" where
  "sat_of live 0 n = ((0, n) \<in> live)"
| "sat_of live (Suc k) n =
     ((Suc k, n) \<in> live \<or> sat_of live k (2 * n) \<and> sat_of live k (2 * n + 1))"

definition sat_set :: "nat \<Rightarrow> block set \<Rightarrow> block set" where
  "sat_set hi live = {(k, n). k < hi \<and> sat_of live k n}"

text \<open>Live blocks do not nest.\<close>

definition unnested :: "block set \<Rightarrow> bool" where
  "unnested live \<longleftrightarrow>
     (\<forall>(j, m) \<in> live. \<forall>(k, n) \<in> live. inside j m k n \<longrightarrow> (j, m) = (k, n))"

text \<open>A block that neither lies in a live block nor has one inside.\<close>

definition fresh :: "block set \<Rightarrow> nat \<Rightarrow> nat \<Rightarrow> bool" where
  "fresh live k n \<longleftrightarrow> (\<forall>(j, m) \<in> live. \<not> inside j m k n \<and> \<not> inside k n j m)"

lemma unnestedD:
  "unnested live \<Longrightarrow> (j, m) \<in> live \<Longrightarrow> (k, n) \<in> live \<Longrightarrow> inside j m k n \<Longrightarrow> j = k \<and> m = n"
  by (fastforce simp: unnested_def)

lemma unnested_insert: "unnested live \<Longrightarrow> fresh live k n \<Longrightarrow> unnested (insert (k, n) live)"
  unfolding unnested_def fresh_def by blast

lemma unnested_diff: "unnested live \<Longrightarrow> unnested (live - X)"
  unfolding unnested_def by blast

lemma unnested_disjoint:
  assumes "unnested live" and "x \<in> live" and "y \<in> live" and "x \<noteq> y"
  shows "block_pages x \<inter> block_pages y = {}"
proof (rule ccontr)
  obtain j m k n where xy: "x = (j, m)" "y = (k, n)" by (metis surj_pair)
  assume "block_pages x \<inter> block_pages y \<noteq> {}"
  then have "inside j m k n \<or> inside k n j m" unfolding xy by (rule blocks_meet)
  with assms show False unfolding xy using unnestedD by blast
qed

lemma freshD: "fresh live k n \<Longrightarrow> (j, m) \<in> live \<Longrightarrow> \<not> inside j m k n \<and> \<not> inside k n j m"
  by (auto simp: fresh_def)

lemma fresh_disjoint:
  assumes "fresh live k n" and "x \<in> live"
  shows "block_pages (k, n) \<inter> block_pages x = {}"
proof (rule ccontr)
  obtain j m where x: "x = (j, m)" by (metis surj_pair)
  assume "block_pages (k, n) \<inter> block_pages x \<noteq> {}"
  then have "inside k n j m \<or> inside j m k n" unfolding x by (rule blocks_meet)
  with assms show False unfolding x by (blast dest: freshD)
qed

lemma dirty_of_insert:
  "dirty_of (insert (k, n) live) = dirty_of live \<union> {(j, m). inside k n j m}"
  by (auto simp: dirty_of_def)

lemma sat_of_inside: "sat_of live k n \<Longrightarrow> \<exists>(j, m) \<in> live. inside j m k n"
proof (induction k arbitrary: n)
  case 0
  then show ?case by (intro bexI [of _ "(0, n)"]) auto
next
  case (Suc k)
  show ?case
  proof (cases "(Suc k, n) \<in> live")
    case True
    then show ?thesis by (intro bexI [of _ "(Suc k, n)"]) auto
  next
    case False
    with Suc.prems have "sat_of live k (2 * n)" by simp
    from Suc.IH [OF this] show ?thesis using inside_Suc [of _ _ k "2 * n"] by fastforce
  qed
qed

lemma sat_of_mono: "live \<subseteq> live' \<Longrightarrow> sat_of live k n \<Longrightarrow> sat_of live' k n"
  by (induction k arbitrary: n) auto

lemma sat_of_off_chain:
  "\<not> inside k n j m \<Longrightarrow> sat_of (insert (k, n) live) j m = sat_of live j m"
proof (induction j arbitrary: m)
  case 0
  then show ?case by auto
next
  case (Suc j)
  have "\<not> inside k n j (2 * m)" and "\<not> inside k n j (2 * m + 1)"
    using Suc.prems inside_Suc [of k n j "2 * m"] inside_Suc [of k n j "2 * m + 1"] by auto
  with Suc show ?case by auto
qed

lemma sat_of_pair: "sat_of live (Suc k) (n div 2) \<longleftrightarrow>
    (Suc k, n div 2) \<in> live \<or> sat_of live k n \<and> sat_of live k (twin n)"
  using twin_children [of n] by (auto simp: doubleton_eq_iff)

lemma fresh_not_sat:
  assumes "fresh live k n"
  shows "inside k n j m \<Longrightarrow> \<not> sat_of live j m"
proof (induction "j - k" arbitrary: j m)
  case 0
  then have [simp]: "j = k" "m = n" by (auto simp: inside_def)
  show ?case using sat_of_inside [of live k n] assms by (auto dest: freshD)
next
  case (Suc d)
  then obtain i where j: "j = Suc i" and d: "d = i - k" and i: "k \<le> i"
    by (cases j) auto
  define c where "c = n div 2 ^ (i - k)"
  have c: "inside k n i c" using i by (simp add: inside_def c_def)
  have m: "m = c div 2"
    using Suc.prems i unfolding j c_def by (simp add: inside_def Suc_diff_le div_exp_Suc del: power_Suc)
  have "\<not> sat_of live i c" using Suc.hyps(1) [OF d c] .
  moreover have "(Suc i, c div 2) \<notin> live" using Suc.prems assms unfolding j m by (auto dest: freshD)
  ultimately show ?case unfolding j m by (simp only: sat_of_pair) simp
qed

lemma unnested_fresh:
  assumes "unnested live" and "(k, n) \<in> live"
  shows "fresh (live - {(k, n)}) k n"
proof -
  have "\<not> inside j m k n \<and> \<not> inside k n j m" if "(j, m) \<in> live" "(j, m) \<noteq> (k, n)" for j m
    using unnestedD [OF assms(1) that(1) assms(2)] unnestedD [OF assms(1) assms(2) that(1)] that(2) by auto
  then show ?thesis by (auto simp: fresh_def)
qed

lemma inside_unique: "inside k n j m \<Longrightarrow> inside k n j l \<longleftrightarrow> l = m"
  by (auto simp: inside_def)

section \<open>The loops on sets of bits\<close>

function asat :: "nat \<Rightarrow> block set \<Rightarrow> nat \<Rightarrow> nat \<Rightarrow> block set" where
  "asat hi S k n =
     (if k < hi then
        if (k, twin n) \<in> S then asat hi (insert (k, n) S) (k + 1) (n div 2) else insert (k, n) S
      else S)"
  by pat_completeness auto
termination by (relation "measure (\<lambda>(hi, S, k, n). hi - k)") auto

function adclr :: "nat \<Rightarrow> block set \<Rightarrow> nat \<Rightarrow> nat \<Rightarrow> block set" where
  "adclr hi D k n =
     (if k < hi then
        if (k, twin n) \<in> D then D - {(k, n)} else adclr hi (D - {(k, n)}) (k + 1) (n div 2)
      else D)"
  by pat_completeness auto
termination by (relation "measure (\<lambda>(hi, D, k, n). hi - k)") auto

declare asat.simps [simp del] adclr.simps [simp del]

text \<open>Saturating a fresh block leaves the saturated blocks of the larger set.\<close>

lemma asat_from:
  assumes "fresh live k n" and "inside k n j m" and "sat_of (insert (k, n) live) j m"
  shows "asat hi (sat_set hi live \<union> {(i, l). i < j \<and> i < hi \<and> sat_of (insert (k, n) live) i l}) j m
    = sat_set hi (insert (k, n) live)" (is "asat hi (?old \<union> ?below j) j m = ?new")
  using assms(2, 3)
proof (induction "hi - j" arbitrary: j m)
  case 0
  have "?old \<subseteq> ?new" using sat_of_mono [of live "insert (k, n) live"] by (auto simp: sat_set_def)
  then show ?case using 0 by (subst asat.simps) (auto simp: sat_set_def)
next
  case (Suc d)
  have j: "j < hi" and d: "d = hi - Suc j" using Suc.hyps(2) by auto
  have level: "sat_of (insert (k, n) live) j l \<longleftrightarrow> l = m \<or> sat_of live j l" for l
    using sat_of_off_chain [of k n j l live] inside_unique [OF Suc.prems(1)] Suc.prems(2) by auto
  have ins: "insert (j, m) (?old \<union> ?below j) = ?old \<union> ?below (Suc j)"
    using j by (auto simp: sat_set_def less_Suc_eq level)
  have tw: "(j, twin m) \<in> ?old \<union> ?below j \<longleftrightarrow> sat_of (insert (k, n) live) j (twin m)"
    using j by (auto simp: sat_set_def level)
  have up: "inside k n (Suc j) (m div 2)" using Suc.prems(1) by (rule inside_Suc)
  show ?case
  proof (cases "sat_of (insert (k, n) live) j (twin m)")
    case True
    with Suc.prems have "sat_of (insert (k, n) live) (Suc j) (m div 2)" by (simp only: sat_of_pair) simp
    from Suc.hyps(1) [OF d up this] True j tw ins show ?thesis by (subst asat.simps) simp
  next
    case False
    have stop: "\<not> sat_of (insert (k, n) live) i l" if "j < i" "inside k n i l" for i l
      using that
    proof (induction "i - j" arbitrary: i l)
      case (Suc e)
      obtain i' where i: "i = Suc i'" "j \<le> i'" using Suc.prems(1) by (cases i) auto
      have k: "k \<le> i'" using Suc.prems i \<open>inside k n j m\<close> by (auto simp: inside_def)
      define c where "c = n div 2 ^ (i' - k)"
      have c: "inside k n i' c" using k by (simp add: inside_def c_def)
      have l: "l = c div 2" using inside_Suc [OF c] Suc.prems(2) i by (auto simp: inside_def)
      have "(i, l) \<notin> insert (k, n) live"
        using Suc.prems assms(1) i k by (auto dest: freshD)
      moreover have "\<not> (sat_of (insert (k, n) live) i' c \<and> sat_of (insert (k, n) live) i' (twin c))"
      proof (cases "i' = j")
        case True
        then have "c = m" using c inside_unique [OF \<open>inside k n j m\<close>] by simp
        with False True show ?thesis by simp
      next
        case False
        then show ?thesis using Suc.hyps(1) [of i' c] Suc.hyps(2) c i by auto
      qed
      ultimately show ?case unfolding i l by (simp only: sat_of_pair) (simp add: i l)
    qed simp
    have "?old \<union> ?below (Suc j) = ?new"
    proof (intro subset_antisym subrelI)
      fix i l assume "(i, l) \<in> ?old \<union> ?below (Suc j)"
      then show "(i, l) \<in> ?new" using sat_of_mono [of live "insert (k, n) live"] by (auto simp: sat_set_def)
    next
      fix i l assume new: "(i, l) \<in> ?new"
      show "(i, l) \<in> ?old \<union> ?below (Suc j)"
        using new stop [of i l] sat_of_off_chain [of k n i l live]
        by (cases "i \<le> j"; cases "inside k n i l") (auto simp: sat_set_def)
    qed
    with False j tw ins show ?thesis by (subst asat.simps) simp
  qed
qed

lemma asat_correct:
  assumes "fresh live k n"
  shows "asat hi (sat_set hi live) k n = sat_set hi (insert (k, n) live)"
proof -
  have "sat_of (insert (k, n) live) i l = sat_of live i l" if "i < k" for i l
    using that by (intro sat_of_off_chain) (auto simp: inside_def)
  then have "sat_set hi live \<union> {(i, l). i < k \<and> i < hi \<and> sat_of (insert (k, n) live) i l} = sat_set hi live"
    by (auto simp: sat_set_def)
  moreover have "sat_of (insert (k, n) live) k n" by (cases k) auto
  ultimately show ?thesis using asat_from [OF assms, of k n hi] by simp
qed

text \<open>Clearing the chain above a live block leaves the saturated blocks of the smaller set.\<close>

lemma sat_set_remove:
  assumes "unnested live" and "(k, n) \<in> live"
  shows "sat_set hi live - chain hi k n = sat_set hi (live - {(k, n)})"
proof -
  have fr: "fresh (live - {(k, n)}) k n" using assms by (rule unnested_fresh)
  have live: "live = insert (k, n) (live - {(k, n)})" using assms(2) by auto
  show ?thesis
    using fresh_not_sat [OF fr] sat_of_off_chain [of k n _ _ "live - {(k, n)}"]
    by (subst live) (auto simp: sat_set_def chain_def)
qed

text \<open>
  What the dirty bits are: those of the live blocks, plus some of a set of marks \<open>T\<close> made at
  the start; nothing inside a live block is marked, and a mark goes with all above it.
\<close>

definition dirty_ok :: "nat \<Rightarrow> block set \<Rightarrow> block set \<Rightarrow> block set \<Rightarrow> bool" where
  "dirty_ok hi T live D \<longleftrightarrow>
     (\<forall>(k, n) \<in> dirty_of live. k < hi \<longrightarrow> (k, n) \<in> D) \<and>
     D \<subseteq> dirty_of live \<union> T \<and>
     (\<forall>(k, n) \<in> D. k + 1 < hi \<longrightarrow> (k + 1, n div 2) \<in> D) \<and>
     (\<forall>(k, n) \<in> live. \<forall>(j, m) \<in> D. inside j m k n \<longrightarrow> (j, m) = (k, n))"

lemma dirty_okD:
  assumes "dirty_ok hi T live D"
  shows "(j, m) \<in> live \<Longrightarrow> inside j m k n \<Longrightarrow> k < hi \<Longrightarrow> (k, n) \<in> D"
    and "(k, n) \<in> D \<Longrightarrow> (k, n) \<notin> T \<Longrightarrow> \<exists>(j, m) \<in> live. inside j m k n"
    and "(k, n) \<in> D \<Longrightarrow> k + 1 < hi \<Longrightarrow> (k + 1, n div 2) \<in> D"
    and "(k, n) \<in> live \<Longrightarrow> (j, m) \<in> D \<Longrightarrow> inside j m k n \<Longrightarrow> (j, m) = (k, n)"
  using assms unfolding dirty_ok_def dirty_of_def by blast+

lemma up_closed:
  assumes step: "\<And>j m. (j, m) \<in> D \<Longrightarrow> j + 1 < hi \<Longrightarrow> (j + 1, m div 2) \<in> D" and "k < hi"
  shows "(j, m) \<in> D \<Longrightarrow> inside j m k n \<Longrightarrow> (k, n) \<in> D"
proof (induction "k - j" arbitrary: j m)
  case 0
  then have "j = k" "m = n" by (auto simp: inside_def)
  with 0 show ?case by simp
next
  case (Suc d)
  then have j: "j < k" by (auto simp: inside_def)
  with Suc.prems(2) have "inside (Suc j) (m div 2) k n" by (simp only: inside_up [of j m]) simp
  moreover have "(Suc j, m div 2) \<in> D" using step [OF Suc.prems(1)] j assms(2) by simp
  ultimately show ?case using Suc.hyps(1) [of "Suc j" "m div 2"] Suc.hyps(2) by auto
qed

text \<open>Allocating a block whose bit is clear and that lies in no live block.\<close>

lemma dirty_ok_fresh:
  assumes "dirty_ok hi T live D" and "(k, n) \<notin> D" and "k < hi"
    and "\<forall>(j, m) \<in> live. \<not> inside k n j m"
  shows "fresh live k n"
  using dirty_okD(1) [OF assms(1)] assms(2-4) unfolding fresh_def by blast

lemma dirty_ok_insert:
  assumes ok: "dirty_ok hi T live D" and "(k, n) \<notin> D" and "k < hi" and fr: "fresh live k n"
  shows "dirty_ok hi T (insert (k, n) live) (D \<union> chain hi k n)"
proof -
  have "(j, m) \<notin> D" if "inside j m k n" for j m
    using up_closed [of D hi k j m n] dirty_okD(3) [OF ok] assms that by blast
  then have below: "(j, m) \<in> D \<union> chain hi k n \<Longrightarrow> inside j m k n \<Longrightarrow> (j, m) = (k, n)" for j m
    by (auto simp: chain_def inside_def)
  have other: "\<not> inside j m i l" if "(i, l) \<in> live" "(j, m) \<in> chain hi k n" for i l j m
    using inside_trans [of k n j m i l] freshD [OF fr that(1)] that(2) by (auto simp: chain_def)
  have "(j, m) \<in> D \<union> chain hi k n" if "(j, m) \<in> dirty_of (insert (k, n) live)" "j < hi" for j m
    using that dirty_okD(1) [OF ok] by (auto simp: dirty_of_def chain_def)
  moreover have "D \<union> chain hi k n \<subseteq> dirty_of (insert (k, n) live) \<union> T"
    using ok by (auto simp: dirty_ok_def dirty_of_def chain_def)
  moreover have "(i + 1, l div 2) \<in> D \<union> chain hi k n"
    if "(i, l) \<in> D \<union> chain hi k n" "i + 1 < hi" for i l
    using that dirty_okD(3) [OF ok] inside_Suc [of k n i l] by (auto simp: chain_def)
  moreover have "(j, m) = (i, l)"
    if "(i, l) \<in> insert (k, n) live" "(j, m) \<in> D \<union> chain hi k n" "inside j m i l" for i l j m
    using that below [of j m] other dirty_okD(4) [OF ok] by blast
  ultimately show ?thesis unfolding dirty_ok_def by blast
qed

text \<open>
  The loop that clears dirty bits removes exactly the bits of the chain that nothing but the
  freed block kept set.
\<close>

lemma adclr_subset: "adclr hi D k n \<subseteq> D"
proof (induction hi D k n rule: adclr.induct)
  case (1 hi D k n)
  then show ?case by (subst adclr.simps) auto
qed

lemma adclr_up:
  assumes "\<And>i l. (i, l) \<in> D \<Longrightarrow> i + 1 < hi \<Longrightarrow> (i + 1, l div 2) \<in> D"
    and "\<And>i l. (i, l) \<in> D \<Longrightarrow> i + 1 = k \<Longrightarrow> l div 2 \<noteq> n"
    and "(i, l) \<in> adclr hi D k n" and "i + 1 < hi"
  shows "(i + 1, l div 2) \<in> adclr hi D k n"
  using assms
proof (induction hi D k n rule: adclr.induct)
  case (1 hi D k n)
  have up: "(i', l') \<in> D - {(k, n)} \<Longrightarrow> i' + 1 < hi \<Longrightarrow> (i' + 1, l' div 2) \<in> D - {(k, n)}" for i' l'
    using 1(2, 3) by auto
  have ch: "l' div 2 \<noteq> n div 2" if "(k, twin n) \<notin> D" "(i', l') \<in> D - {(k, n)}" "i' + 1 = k + 1" for i' l'
  proof
    assume "l' div 2 = n div 2"
    then have "l' \<in> {n, twin n}" unfolding twin_children [symmetric] by auto
    with that show False by auto
  qed
  consider "\<not> k < hi" | "k < hi" "(k, twin n) \<in> D" | "k < hi" "(k, twin n) \<notin> D" by blast
  then show ?case
  proof cases
    case 3
    with "1.IH" [OF 3 up ch] "1.prems"(3, 4) show ?thesis by (simp add: adclr.simps [of hi D k n])
  qed (use 1(2-5) up in \<open>auto simp: adclr.simps [of hi D k n]\<close>)
qed

lemma dirty_pair:
  assumes "(Suc j, m div 2) \<in> dirty_of live" and "(Suc j, m div 2) \<notin> live"
  shows "(j, m) \<in> dirty_of live \<or> (j, twin m) \<in> dirty_of live"
proof -
  obtain i l where il: "(i, l) \<in> live" "inside i l (Suc j) (m div 2)"
    using assms(1) by (auto simp: dirty_of_def)
  have pair: "{2 * (m div 2), 2 * (m div 2) + 1} = {m, twin m}" by (rule twin_children)
  from il(2) have "inside i l j m \<or> inside i l j (twin m)"
  proof (cases rule: inside_cases)
    case 1
    with il assms(2) show ?thesis by simp
  next
    case 2
    have "2 * (m div 2) \<in> {m, twin m}" unfolding pair [symmetric] by simp
    with 2 show ?thesis by auto
  next
    case 3
    have "2 * (m div 2) + 1 \<in> {m, twin m}" unfolding pair [symmetric] by simp
    with 3 show ?thesis by auto
  qed
  with il(1) show ?thesis by (auto simp: dirty_of_def)
qed

lemma dirty_of_up: "(j, m) \<in> dirty_of live \<Longrightarrow> inside j m i l \<Longrightarrow> (i, l) \<in> dirty_of live"
  using inside_trans by (fastforce simp: dirty_of_def)

lemma adclr_keeps:
  assumes un: "unnested live" "(k, n) \<in> live"
    and "inside k n j m" and "(j, m) \<notin> dirty_of (live - {(k, n)})"
    and "\<And>i l. (i, l) \<in> dirty_of (live - {(k, n)}) \<Longrightarrow> i < hi \<Longrightarrow> (i, l) \<in> D"
    and "(i, l) \<in> dirty_of (live - {(k, n)})" and "i < hi"
  shows "(i, l) \<in> adclr hi D j m"
  using assms(3-)
proof (induction hi D j m rule: adclr.induct)
  case (1 hi D j m)
  let ?live0 = "live - {(k, n)}"
  have keep: "(i', l') \<in> D - {(j, m)}" if "(i', l') \<in> dirty_of ?live0" "i' < hi" for i' l'
    using 1(3, 4) that by auto
  consider "\<not> j < hi" | "j < hi" "(j, twin m) \<in> D" | "j < hi" "(j, twin m) \<notin> D" by blast
  then show ?case
  proof cases
    case 3
    have "(Suc j, m div 2) \<notin> live - {(k, n)}"
      using unnestedD [OF un(1) un(2) _ inside_Suc [OF "1.prems"(1)]] "1.prems"(1)
      by (auto simp: inside_def)
    moreover have "(j, twin m) \<notin> dirty_of ?live0" using 3 "1.prems"(3) by blast
    ultimately have up: "(j + 1, m div 2) \<notin> dirty_of ?live0"
      using dirty_pair [of j m ?live0] "1.prems"(2) by auto
    have "(i, l) \<in> adclr hi (D - {(j, m)}) (j + 1) (m div 2)"
      using "1.IH" [OF 3 _ up] inside_Suc [OF "1.prems"(1)] keep "1.prems"(4, 5) by auto
    with 3 show ?thesis by (simp add: adclr.simps [of hi D j m])
  qed (use keep "1.prems" in \<open>auto simp: adclr.simps [of hi D j m]\<close>)
qed

lemma adclr_bound:
  assumes T: "\<And>i l. (i, l) \<in> T \<Longrightarrow> i + 1 < hi \<Longrightarrow> (i + 1, l div 2) \<in> T"
    and "D \<subseteq> dirty_of live0 \<union> T \<union> chain hi j m"
  shows "adclr hi D j m \<subseteq> dirty_of live0 \<union> T"
  using assms
proof (induction hi D j m rule: adclr.induct)
  case (1 hi D j m)
  have T_up: "(i, l) \<in> T" if "(j, m') \<in> T" "inside j m' i l" "i < hi" for m' i l
    using up_closed [of T hi i j m' l] 1(2) that by blast
  consider "\<not> j < hi" | "j < hi" "(j, twin m) \<in> D" | "j < hi" "(j, twin m) \<notin> D" by blast
  then show ?case
  proof cases
    case 1
    with "1.prems"(2) show ?thesis by (simp add: adclr.simps [of hi D j m] chain_empty)
  next
    case 2
    have tw: "inside j (twin m) i l" if "(i, l) \<in> chain hi (Suc j) (m div 2)" for i l
      using that by (subst inside_up) (auto simp: chain_def)
    have "(j, twin m) \<notin> chain hi j m" using twin_neq [of m, symmetric] by (simp add: chain_def inside_def)
    then have "(j, twin m) \<in> dirty_of live0 \<union> T"
      using "1.prems"(2) 2 by blast
    then have "chain hi (Suc j) (m div 2) \<subseteq> dirty_of live0 \<union> T"
      using tw T_up dirty_of_up by (fastforce simp: chain_def)
    with "1.prems"(2) 2 show ?thesis by (auto simp: adclr.simps [of hi D j m] chain_step)
  next
    case 3
    have "D - {(j, m)} \<subseteq> dirty_of live0 \<union> T \<union> chain hi (j + 1) (m div 2)"
      using "1.prems"(2) 3(1) by (auto simp: chain_step)
    with "1.IH" [OF 3 "1.prems"(1)] 3 show ?thesis by (simp add: adclr.simps [of hi D j m])
  qed
qed

lemma dirty_ok_remove:
  assumes ok: "dirty_ok hi T live D" and un: "unnested live" and kn: "(k, n) \<in> live"
    and T: "\<And>i l. (i, l) \<in> T \<Longrightarrow> i + 1 < hi \<Longrightarrow> (i + 1, l div 2) \<in> T"
    and D: "D \<subseteq> {..<hi} \<times> UNIV"
  shows "dirty_ok hi T (live - {(k, n)}) (adclr hi D k n)"
proof -
  have fr: "fresh (live - {(k, n)}) k n" using un kn by (rule unnested_fresh)
  have live: "live = insert (k, n) (live - {(k, n)})" using kn by auto
  have none: "(k, n) \<notin> dirty_of (live - {(k, n)})"
    using freshD [OF fr] by (auto simp: dirty_of_def)
  have "(i, l) \<in> adclr hi D k n" if "(i, l) \<in> dirty_of (live - {(k, n)})" "i < hi" for i l
    using that dirty_okD(1) [OF ok]
    by (intro adclr_keeps [OF un kn inside_refl none]) (auto simp: dirty_of_def)
  moreover have "adclr hi D k n \<subseteq> dirty_of (live - {(k, n)}) \<union> T"
  proof (rule adclr_bound [OF T])
    have "dirty_of live = dirty_of (live - {(k, n)}) \<union> {(j, m). inside k n j m}"
      by (subst live) (rule dirty_of_insert)
    then show "D \<subseteq> dirty_of (live - {(k, n)}) \<union> T \<union> chain hi k n"
      using ok D by (auto simp: dirty_ok_def chain_def)
  qed
  moreover have "(i + 1, l div 2) \<in> adclr hi D k n" if "(i, l) \<in> adclr hi D k n" "i + 1 < hi" for i l
  proof (rule adclr_up [OF dirty_okD(3) [OF ok] _ that])
    fix i l assume "(i, l) \<in> D" "i + 1 = k"
    then show "l div 2 \<noteq> n"
      using dirty_okD(4) [OF ok kn, of i l] inside_Suc [OF inside_refl [of i l]] by auto
  qed
  moreover have "(j, m) = (i, l)"
    if "(i, l) \<in> live - {(k, n)}" "(j, m) \<in> adclr hi D k n" "inside j m i l" for i l j m
    using that adclr_subset [of hi D k n] dirty_okD(4) [OF ok, of i l j m] by blast
  ultimately show ?thesis unfolding dirty_ok_def by blast
qed

end
