(* ===== verification/Buddy_Inv.thy ===== *)
theory Buddy_Inv
  imports Page2 Buddy_Spec
begin

text \<open>
  The bitmaps of \<open>Buddy\<close> refine the sets of \<open>Buddy_Spec\<close>: where the tables are laid out one
  after the other and no level spills over its words, every bit loop is its set-level
  counterpart, and the page allocator keeps the invariant that relates the bitmaps to the set
  of live blocks.
\<close>

section \<open>Layout of the tables\<close>

definition order_words :: "nat \<Rightarrow> nat \<Rightarrow> nat" where
  "order_words N k = (N div 2 ^ k + 31) div 32"

definition order_cap :: "nat \<Rightarrow> nat \<Rightarrow> nat" where
  "order_cap N k = 32 * order_words N k"

definition order_off :: "nat \<Rightarrow> nat \<Rightarrow> nat" where
  "order_off N k = (\<Sum>i<k. order_words N i)"

definition order_blocks :: "nat \<Rightarrow> nat \<Rightarrow> nat" where
  "order_blocks N k = N div 2 ^ k + (if N mod 2 ^ k \<noteq> 0 then 1 else 0)"

lemma buddy_order_bits_eq: "buddy_order_bits d k = order_blocks (order_0_bits d) k"
  by (simp add: buddy_order_bits_def order_blocks_def)

lemma less_order_blocks: "n < order_blocks N k \<longleftrightarrow> n * 2 ^ k < N"
proof (cases "N mod 2 ^ k = 0")
  case True
  then obtain q where "N = q * 2 ^ k" by (metis mod_0_imp_dvd dvd_div_mult_self)
  then show ?thesis by (simp add: order_blocks_def)
next
  case False
  have "n * 2 ^ k < N \<longleftrightarrow> n \<le> N div 2 ^ k"
  proof
    assume "n * 2 ^ k < N"
    then have "n * 2 ^ k div 2 ^ k \<le> N div 2 ^ k" by (intro div_le_mono) simp
    then show "n \<le> N div 2 ^ k" by simp
  next
    assume "n \<le> N div 2 ^ k"
    then have "n * 2 ^ k \<le> N div 2 ^ k * 2 ^ k" by simp
    also have "\<dots> < N" using False by (metis div_mult_mod_eq less_add_same_cancel1 gr0I)
    finally show "n * 2 ^ k < N" .
  qed
  then show ?thesis using False by (simp add: order_blocks_def less_Suc_eq_le)
qed

lemma order_blocks_up: "n < order_blocks N k \<Longrightarrow> inside k n j m \<Longrightarrow> m < order_blocks N j"
proof -
  assume n: "n < order_blocks N k" and i: "inside k n j m"
  have "m * 2 ^ j = n div 2 ^ (j - k) * 2 ^ (j - k) * 2 ^ k"
    using i by (auto simp: inside_def mult.assoc simp flip: power_add)
  also have "\<dots> \<le> n * 2 ^ k" by (intro mult_right_mono div_times_less_eq_dividend) simp
  finally show ?thesis using n by (simp add: less_order_blocks)
qed

lemma order_off_mono: "j \<le> k \<Longrightarrow> order_off N j \<le> order_off N k"
  by (auto simp: order_off_def intro!: sum_mono2)

lemma order_off_Suc: "order_off N (Suc k) = order_off N k + order_words N k"
  by (simp add: order_off_def)

definition table_at :: "nat \<Rightarrow> buddy \<Rightarrow> bool" where
  "table_at p d \<longleftrightarrow> data d = map (\<lambda>k. p + order_off (order_0_bits d) k) [0..<orders d]"

definition bits_of :: "buddy \<Rightarrow> (nat \<Rightarrow> u32) \<Rightarrow> block set" where
  "bits_of d w = {(k, n). k < orders d \<and> n < order_cap (order_0_bits d) k \<and>
     bit (w (word_index d k n)) (n mod 32)}"

lemma bits_of_order: "bits_of d w \<subseteq> {..<orders d} \<times> UNIV"
  by (auto simp: bits_of_def)

lemma index_range:
  assumes "table_at p d" and "k < orders d" and "n < order_cap (order_0_bits d) k"
  shows "p + order_off (order_0_bits d) k \<le> word_index d k n"
    and "word_index d k n < p + order_off (order_0_bits d) (Suc k)"
    and "word_index d k n < p + order_off (order_0_bits d) (orders d)"
proof -
  let ?N = "order_0_bits d"
  have "n div 32 < order_words ?N k" using assms(3) by (simp add: order_cap_def less_mult_imp_div_less)
  then have i: "word_index d k n = p + order_off ?N k + n div 32" "n div 32 < order_words ?N k"
    using assms by (auto simp: word_index_def table_at_def WORD_T_BITS_def)
  then show "p + order_off ?N k \<le> word_index d k n" "word_index d k n < p + order_off ?N (Suc k)"
    by (simp_all add: order_off_Suc)
  then show "word_index d k n < p + order_off ?N (orders d)"
    using order_off_mono [of "Suc k" "orders d" ?N] assms(2) by simp
qed

text \<open>Two bits in one word belong to one order.\<close>

lemma same_word:
  assumes "table_at p d" and "k < orders d" and "n < order_cap (order_0_bits d) k"
    and "j < orders d" and "m < order_cap (order_0_bits d) j"
    and "word_index d j m = word_index d k n"
  shows "j = k \<and> m div 32 = n div 32"
proof -
  let ?N = "order_0_bits d"
  note r = index_range [OF assms(1-3)] index_range [OF assms(1) assms(4, 5)]
  have "\<not> j < k" using r assms(6) order_off_mono [of "Suc j" k ?N] by auto
  moreover have "\<not> k < j" using r assms(6) order_off_mono [of "Suc k" j ?N] by auto
  ultimately have "j = k" by simp
  with assms(6) show ?thesis by (simp add: word_index_def WORD_T_BITS_def)
qed

lemma same_bit: "m div 32 = n div 32 \<Longrightarrow> m mod 32 = n mod 32 \<Longrightarrow> m = (n::nat)"
  by (metis div_mult_mod_eq)

lemma bits_of_write:
  assumes "table_at p d" and "k < orders d" and "n < order_cap (order_0_bits d) k"
    and "\<And>i. i < 32 \<Longrightarrow> i \<noteq> n mod 32 \<Longrightarrow> bit v i = bit (w (word_index d k n)) i"
  shows "bits_of d (w(word_index d k n := v)) =
    (if bit v (n mod 32) then insert (k, n) (bits_of d w) else bits_of d w - {(k, n)})"
proof -
  let ?i = "word_index d k n"
  have "(j, m) \<in> bits_of d (w(?i := v)) \<longleftrightarrow>
    (if (j, m) = (k, n) then bit v (n mod 32) else (j, m) \<in> bits_of d w)" for j m
  proof (cases "(j, m) = (k, n)")
    case False
    then show ?thesis
      using same_word [OF assms(1-3), of j m] same_bit [of m n] assms(4) [of "m mod 32"]
      by (cases "word_index d j m = ?i") (auto simp: bits_of_def)
  qed (use assms in \<open>auto simp: bits_of_def\<close>)
  then show ?thesis by (intro set_eqI) (metis (no_types) Diff_iff insert_iff singleton_iff surj_pair)
qed

lemma bits_of_or:
  assumes "table_at p d" and "k < orders d" and "n < order_cap (order_0_bits d) k"
  shows "bits_of d (w(word_index d k n := w (word_index d k n) OR BIT (n mod 32))) =
    insert (k, n) (bits_of d w)"
  by (subst bits_of_write [OF assms]) (auto simp: bit_or_iff)

lemma bits_of_and_not:
  assumes "table_at p d" and "k < orders d" and "n < order_cap (order_0_bits d) k"
  shows "bits_of d (w(word_index d k n := w (word_index d k n) AND NOT (BIT (n mod 32)))) =
    bits_of d w - {(k, n)}"
  by (subst bits_of_write [OF assms]) (auto simp: bit_and_iff bit_not_iff)

lemma bits_of_elsewhere:
  assumes "table_at p d" and "i < p \<or> p + order_off (order_0_bits d) (orders d) \<le> i"
  shows "bits_of d (w(i := v)) = bits_of d w"
  using index_range(1, 3) [OF assms(1)] assms(2) by (fastforce simp: bits_of_def)

lemma bits_of_mem:
  assumes "k < orders d" and "n < order_cap (order_0_bits d) k"
  shows "w (word_index d k n) AND BIT (n mod 32) = 0 \<longleftrightarrow> (k, n) \<notin> bits_of d w"
  using assms and_BIT_eq_0_iff [of "n mod 32" "w (word_index d k n)"] by (auto simp: bits_of_def)

lemma order_cap_twin: "n < order_cap N k \<Longrightarrow> twin n < order_cap N k"
  by (auto simp: order_cap_def twin_def elim!: evenE)

lemma div_32: "(n::nat) div 32 = n div 2 div 16"
  by (simp flip: div_mult2_eq)

lemma twin_word: "twin n div 32 = n div 32"
  by (simp only: div_32 twin_div2)

lemma or_1: "s OR 1 = (if even s then s + 1 else (s::nat))"
  by (simp add: or_Suc_0_eq)

lemma bit_twin_mask:
  "i < 32 \<Longrightarrow> bit (twin_mask_from_shift (n mod 32)) i \<longleftrightarrow> i = n mod 32 \<or> i = twin n mod 32"
proof -
  assume i: "i < 32"
  define s where "s = n mod 32"
  have s: "s < 32" "even s = even n" by (auto simp: s_def even_mod_2_iff dvd_mod_iff)
  have "twin n mod 32 = (if even s then s + 1 else s - 1)"
    using s minus_div_mult_eq_mod [of "twin n" 32] minus_div_mult_eq_mod [of n 32] odd_pos [of s]
    unfolding twin_word s_def [symmetric] by (auto simp: twin_def)
  then show ?thesis
    using i s or_1 [of s] unfolding twin_mask_from_shift_def Let_def s_def [symmetric]
    by (auto simp: bit_or_iff)
qed

section \<open>The bit loops on laid-out tables\<close>

text \<open>
  Both families have the same geometry, the saturated tables lie behind the dirty ones, and
  every level has room for its last, cut-off block. The last condition fails for sizes such
  as 65 pages, see \<open>Buddy_Findings\<close>.
\<close>

definition same_geometry :: "buddies \<Rightarrow> bool" where
  "same_geometry b \<longleftrightarrow> order_0_bits (saturated b) = order_0_bits (dirty b) \<and>
     orders (saturated b) = orders (dirty b) \<and> 0 < orders (dirty b)"

definition no_spill :: "nat \<Rightarrow> nat \<Rightarrow> bool" where
  "no_spill N hi \<longleftrightarrow> (\<forall>k < hi. order_blocks N k \<le> order_cap N k)"

definition tables_ok :: "buddies \<Rightarrow> bool" where
  "tables_ok b \<longleftrightarrow> same_geometry b \<and> no_spill (order_0_bits (dirty b)) (orders (dirty b)) \<and>
     (\<exists>p q. table_at p (dirty b) \<and> table_at q (saturated b) \<and>
        p + order_off (order_0_bits (dirty b)) (orders (dirty b)) \<le> q)"

abbreviation pages_of :: "buddies \<Rightarrow> nat" where
  "pages_of b \<equiv> order_0_bits (dirty b)"

abbreviation top_of :: "buddies \<Rightarrow> nat" where
  "top_of b \<equiv> orders (dirty b)"

abbreviation dirty_bits :: "buddies \<Rightarrow> block set" where
  "dirty_bits b \<equiv> bits_of (dirty b) (words b)"

abbreviation sat_bits :: "buddies \<Rightarrow> block set" where
  "sat_bits b \<equiv> bits_of (saturated b) (words b)"

text \<open>A change of the words alone, which is all the loops do.\<close>

definition same_tables :: "buddies \<Rightarrow> buddies \<Rightarrow> bool" where
  "same_tables b b' \<longleftrightarrow> dirty b' = dirty b \<and> saturated b' = saturated b \<and>
     total_pages_allocated b' = total_pages_allocated b \<and> heap_base b' = heap_base b"

lemma same_tables_refl [simp]: "same_tables b b"
  by (simp add: same_tables_def)

lemma same_tables_set_word [simp]:
  "same_tables (set_word b i v) b' \<longleftrightarrow> same_tables b b'"
  "same_tables b (set_word b' i v) \<longleftrightarrow> same_tables b b'"
  by (simp_all add: same_tables_def)

lemma same_tables_ok: "same_tables b b' \<Longrightarrow> tables_ok b' = tables_ok b"
  by (simp add: same_tables_def tables_ok_def same_geometry_def)

lemma same_tables_trans: "same_tables b b' \<Longrightarrow> same_tables b' b'' \<Longrightarrow> same_tables b b''"
  by (simp add: same_tables_def)

lemma tables_ok_set_word [simp]: "tables_ok (set_word b i v) = tables_ok b"
  by (simp add: tables_ok_def same_geometry_def)

lemma tables_ok_sat [simp]:
  "tables_ok b \<Longrightarrow> order_0_bits (saturated b) = pages_of b"
  "tables_ok b \<Longrightarrow> orders (saturated b) = top_of b"
  by (auto simp: tables_ok_def same_geometry_def)

lemma block_room:
  "tables_ok b \<Longrightarrow> k < top_of b \<Longrightarrow> n < order_blocks (pages_of b) k \<Longrightarrow> n < order_cap (pages_of b) k"
  by (auto simp: tables_ok_def no_spill_def intro: less_le_trans)

lemma dirty_write:
  assumes ok: "tables_ok b" and k: "k < top_of b" and n: "n < order_blocks (pages_of b) k"
  defines "i \<equiv> word_index (dirty b) k n"
  shows "dirty_bits (set_word b i (words b i OR BIT (n mod 32))) = insert (k, n) (dirty_bits b)"
    and "dirty_bits (set_word b i (words b i AND NOT (BIT (n mod 32)))) = dirty_bits b - {(k, n)}"
    and "sat_bits (set_word b i v) = sat_bits b"
proof -
  obtain p q where t: "table_at p (dirty b)" "table_at q (saturated b)"
    and pq: "p + order_off (pages_of b) (top_of b) \<le> q"
    using ok by (auto simp: tables_ok_def)
  note room = block_room [OF ok k n]
  show "dirty_bits (set_word b i (words b i OR BIT (n mod 32))) = insert (k, n) (dirty_bits b)"
    using bits_of_or [OF t(1) k room] by (simp add: i_def)
  show "dirty_bits (set_word b i (words b i AND NOT (BIT (n mod 32)))) = dirty_bits b - {(k, n)}"
    using bits_of_and_not [OF t(1) k room] by (simp add: i_def)
  show "sat_bits (set_word b i v) = sat_bits b"
    using bits_of_elsewhere [OF t(2)] index_range(3) [OF t(1) k room] pq by (simp add: i_def)
qed

lemma sat_write:
  assumes ok: "tables_ok b" and k: "k < top_of b" and n: "n < order_blocks (pages_of b) k"
  defines "i \<equiv> word_index (saturated b) k n"
  shows "sat_bits (set_word b i (words b i OR BIT (n mod 32))) = insert (k, n) (sat_bits b)"
    and "sat_bits (set_word b i (words b i AND NOT (BIT (n mod 32)))) = sat_bits b - {(k, n)}"
    and "dirty_bits (set_word b i v) = dirty_bits b"
proof -
  obtain p q where t: "table_at p (dirty b)" "table_at q (saturated b)"
    and pq: "p + order_off (pages_of b) (top_of b) \<le> q"
    using ok by (auto simp: tables_ok_def)
  have k': "k < orders (saturated b)" and room: "n < order_cap (order_0_bits (saturated b)) k"
    using block_room [OF ok k n] k ok by simp_all
  show "sat_bits (set_word b i (words b i OR BIT (n mod 32))) = insert (k, n) (sat_bits b)"
    using bits_of_or [OF t(2) k' room] by (simp add: i_def)
  show "sat_bits (set_word b i (words b i AND NOT (BIT (n mod 32)))) = sat_bits b - {(k, n)}"
    using bits_of_and_not [OF t(2) k' room] by (simp add: i_def)
  show "dirty_bits (set_word b i v) = dirty_bits b"
    using bits_of_elsewhere [OF t(1)] index_range(1) [OF t(2) k' room] pq ok
      order_off_mono [of 0 k "pages_of b"] by (simp add: i_def)
qed

lemma dirty_mem:
  assumes "tables_ok b" and "k < top_of b" and "n < order_blocks (pages_of b) k"
  shows "words b (word_index (dirty b) k n) AND BIT (n mod 32) = 0 \<longleftrightarrow> (k, n) \<notin> dirty_bits b"
  using assms by (intro bits_of_mem) (auto intro: block_room)

lemma sat_mem:
  assumes "tables_ok b" and "k < top_of b" and "n < order_blocks (pages_of b) k"
  shows "words b (word_index (saturated b) k n) AND BIT (n mod 32) = 0 \<longleftrightarrow> (k, n) \<notin> sat_bits b"
  using assms by (intro bits_of_mem) (auto intro: block_room)

lemma word_index_twin: "word_index d k (twin n) = word_index d k n"
  by (simp add: word_index_def WORD_T_BITS_def twin_word)

lemma and_twin_mask:
  fixes v :: u32
  shows "v AND twin_mask_from_shift (n mod 32) \<noteq> 0 \<longleftrightarrow>
      bit v (n mod 32) \<or> bit v (twin n mod 32)" (is "?a \<longleftrightarrow> ?c")
    and "v AND twin_mask_from_shift (n mod 32) = twin_mask_from_shift (n mod 32) \<longleftrightarrow>
      bit v (n mod 32) \<and> bit v (twin n mod 32)" (is "?b \<longleftrightarrow> _")
proof -
  have m: "n mod 32 < 32" "twin n mod 32 < 32" by simp_all
  have "?a \<longleftrightarrow> (\<exists>i<32. bit v i \<and> (i = n mod 32 \<or> i = twin n mod 32))"
    by (subst bit_eq_iff) (auto simp: bit_and_iff bit_twin_mask)
  with m show "?a \<longleftrightarrow> ?c" by blast
  have "?b \<longleftrightarrow> (\<forall>i<32. i = n mod 32 \<or> i = twin n mod 32 \<longrightarrow> bit v i)" (is "_ \<longleftrightarrow> ?d")
    by (subst bit_eq_iff) (auto simp: bit_and_iff bit_twin_mask)
  also have "?d \<longleftrightarrow> bit v (n mod 32) \<and> bit v (twin n mod 32)" using m by blast
  finally show "?b \<longleftrightarrow> bit v (n mod 32) \<and> bit v (twin n mod 32)" .
qed

lemma bits_up:
  assumes "n < order_blocks N k" shows "n div 2 < order_blocks N (k + 1)"
  using order_blocks_up [OF assms inside_Suc [OF inside_refl]] by simp

lemma set_dirty_bits:
  assumes "tables_ok b" and "k < top_of b \<Longrightarrow> n < order_blocks (pages_of b) k"
  shows "same_tables b (buddy_set_dirty b k n)"
    and "dirty_bits (buddy_set_dirty b k n) = dirty_bits b \<union> chain (top_of b) k n"
    and "sat_bits (buddy_set_dirty b k n) = sat_bits b"
proof -
  have "same_tables b (buddy_set_dirty b k n) \<and>
    dirty_bits (buddy_set_dirty b k n) = dirty_bits b \<union> chain (top_of b) k n \<and>
    sat_bits (buddy_set_dirty b k n) = sat_bits b"
    using assms
  proof (induction b k n rule: buddy_set_dirty.induct)
    case (1 b k n)
    show ?case
    proof (cases "k < top_of b")
      case True
      let ?i = "word_index (dirty b) k n"
      let ?b = "set_word b ?i (words b ?i OR BIT (n mod 32))"
      note n = "1.prems"(2) [OF True]
      have "same_tables ?b (buddy_set_dirty ?b (k + 1) (n div 2)) \<and>
        dirty_bits (buddy_set_dirty ?b (k + 1) (n div 2)) = dirty_bits ?b \<union> chain (top_of ?b) (k + 1) (n div 2) \<and>
        sat_bits (buddy_set_dirty ?b (k + 1) (n div 2)) = sat_bits ?b"
        using "1.IH" [OF True refl] "1.prems"(1) bits_up [OF n] by (simp add: WORD_T_BITS_def del: set_word_simps(5))
      moreover have "buddy_set_dirty b k n = buddy_set_dirty ?b (k + 1) (n div 2)"
        using True by (subst buddy_set_dirty.simps) (simp add: WORD_T_BITS_def Let_def)
      ultimately show ?thesis
        using dirty_write(1, 3) [OF "1.prems"(1) True n] True
        by (simp add: chain_step del: set_word_simps(5))
    qed (simp add: buddy_set_dirty.simps [of b k n] chain_empty)
  qed
  then show "same_tables b (buddy_set_dirty b k n)"
    "dirty_bits (buddy_set_dirty b k n) = dirty_bits b \<union> chain (top_of b) k n"
    "sat_bits (buddy_set_dirty b k n) = sat_bits b" by blast+
qed

lemma clear_dirty_bits:
  assumes "tables_ok b" and "k < top_of b \<Longrightarrow> n < order_blocks (pages_of b) k"
  shows "same_tables b (buddy_clear_dirty b k n)"
    and "dirty_bits (buddy_clear_dirty b k n) = adclr (top_of b) (dirty_bits b) k n"
    and "sat_bits (buddy_clear_dirty b k n) = sat_bits b"
proof -
  have "same_tables b (buddy_clear_dirty b k n) \<and>
    dirty_bits (buddy_clear_dirty b k n) = adclr (top_of b) (dirty_bits b) k n \<and>
    sat_bits (buddy_clear_dirty b k n) = sat_bits b"
    using assms
  proof (induction b k n rule: buddy_clear_dirty.induct)
    case (1 b k n)
    show ?case
    proof (cases "k < top_of b")
      case True
      let ?i = "word_index (dirty b) k n"
      let ?v = "words b ?i AND NOT (BIT (n mod 32))"
      let ?b = "set_word b ?i ?v"
      note n = "1.prems"(2) [OF True]
      note w = dirty_write(2, 3) [OF "1.prems"(1) True n]
      have room: "twin n < order_cap (pages_of b) k"
        using block_room [OF "1.prems"(1) True n] by (rule order_cap_twin)
      have stop: "?v AND twin_mask_from_shift (n mod 32) \<noteq> 0 \<longleftrightarrow> (k, twin n) \<in> dirty_bits b"
        using True room by (simp only: and_twin_mask)
          (auto simp: bits_of_def word_index_twin bit_and_iff bit_not_iff dest: same_bit [OF twin_word])
      have eq: "buddy_clear_dirty b k n =
        (if (k, twin n) \<in> dirty_bits b then ?b else buddy_clear_dirty ?b (k + 1) (n div 2))"
        using True stop by (subst buddy_clear_dirty.simps) (simp add: WORD_T_BITS_def Let_def)
      show ?thesis
      proof (cases "(k, twin n) \<in> dirty_bits b")
        case True
        with eq w \<open>k < top_of b\<close> show ?thesis
          by (simp add: adclr.simps [of _ _ k n] del: set_word_simps(5))
      next
        case False
        have "same_tables ?b (buddy_clear_dirty ?b (k + 1) (n div 2)) \<and>
          dirty_bits (buddy_clear_dirty ?b (k + 1) (n div 2)) = adclr (top_of ?b) (dirty_bits ?b) (k + 1) (n div 2) \<and>
          sat_bits (buddy_clear_dirty ?b (k + 1) (n div 2)) = sat_bits ?b"
          using "1.IH" [OF True refl refl refl refl] False stop "1.prems"(1) bits_up [OF n]
          by (simp add: WORD_T_BITS_def del: set_word_simps(5))
        with eq w \<open>k < top_of b\<close> False show ?thesis
          by (simp add: adclr.simps [of _ _ k n] del: set_word_simps(5))
      qed
    qed (simp add: buddy_clear_dirty.simps [of b k n] adclr.simps [of _ _ k n])
  qed
  then show "same_tables b (buddy_clear_dirty b k n)"
    "dirty_bits (buddy_clear_dirty b k n) = adclr (top_of b) (dirty_bits b) k n"
    "sat_bits (buddy_clear_dirty b k n) = sat_bits b" by blast+
qed

lemma set_saturated_bits:
  assumes "tables_ok b" and "k < top_of b \<Longrightarrow> n < order_blocks (pages_of b) k"
  shows "same_tables b (buddy_set_saturated b k n)"
    and "sat_bits (buddy_set_saturated b k n) = asat (top_of b) (sat_bits b) k n"
    and "dirty_bits (buddy_set_saturated b k n) = dirty_bits b"
proof -
  have "same_tables b (buddy_set_saturated b k n) \<and>
    sat_bits (buddy_set_saturated b k n) = asat (top_of b) (sat_bits b) k n \<and>
    dirty_bits (buddy_set_saturated b k n) = dirty_bits b"
    using assms
  proof (induction b k n rule: buddy_set_saturated.induct)
    case (1 b k n)
    show ?case
    proof (cases "k < top_of b")
      case True
      let ?i = "word_index (saturated b) k n"
      let ?v = "words b ?i OR BIT (n mod 32)"
      let ?b = "set_word b ?i ?v"
      note n = "1.prems"(2) [OF True]
      note w = sat_write(1, 3) [OF "1.prems"(1) True n]
      have True': "k < orders (saturated b)" using True "1.prems"(1) by simp
      have room: "twin n < order_cap (pages_of b) k"
        using block_room [OF "1.prems"(1) True n] by (rule order_cap_twin)
      have go: "?v AND twin_mask_from_shift (n mod 32) = twin_mask_from_shift (n mod 32) \<longleftrightarrow>
        (k, twin n) \<in> sat_bits b"
        using True' room "1.prems"(1) by (simp only: and_twin_mask)
          (auto simp: bits_of_def word_index_twin bit_or_iff dest: same_bit [OF twin_word])
      have eq: "buddy_set_saturated b k n =
        (if (k, twin n) \<in> sat_bits b then buddy_set_saturated ?b (k + 1) (n div 2) else ?b)"
        using True' go by (subst buddy_set_saturated.simps) (simp add: WORD_T_BITS_def Let_def)
      show ?thesis
      proof (cases "(k, twin n) \<in> sat_bits b")
        case False
        with eq w True show ?thesis
          by (simp add: asat.simps [of _ _ k n] del: set_word_simps(5))
      next
        case more: True
        have "same_tables ?b (buddy_set_saturated ?b (k + 1) (n div 2)) \<and>
          sat_bits (buddy_set_saturated ?b (k + 1) (n div 2)) = asat (top_of ?b) (sat_bits ?b) (k + 1) (n div 2) \<and>
          dirty_bits (buddy_set_saturated ?b (k + 1) (n div 2)) = dirty_bits ?b"
          using "1.IH" [OF True' refl refl refl refl] more go "1.prems"(1) bits_up [OF n]
          by (simp add: WORD_T_BITS_def del: set_word_simps(5))
        with eq w True more show ?thesis
          by (simp add: asat.simps [of _ _ k n] del: set_word_simps(5))
      qed
    qed (use "1.prems"(1) in \<open>simp add: buddy_set_saturated.simps [of b k n] asat.simps [of _ _ k n]\<close>)
  qed
  then show "same_tables b (buddy_set_saturated b k n)"
    "sat_bits (buddy_set_saturated b k n) = asat (top_of b) (sat_bits b) k n"
    "dirty_bits (buddy_set_saturated b k n) = dirty_bits b" by blast+
qed

lemma clear_saturated_bits:
  assumes "tables_ok b" and "k < top_of b \<Longrightarrow> n < order_blocks (pages_of b) k"
  shows "same_tables b (buddy_clear_saturated b k n)"
    and "sat_bits (buddy_clear_saturated b k n) = sat_bits b - chain (top_of b) k n"
    and "dirty_bits (buddy_clear_saturated b k n) = dirty_bits b"
proof -
  have "same_tables b (buddy_clear_saturated b k n) \<and>
    sat_bits (buddy_clear_saturated b k n) = sat_bits b - chain (top_of b) k n \<and>
    dirty_bits (buddy_clear_saturated b k n) = dirty_bits b"
    using assms
  proof (induction b k n rule: buddy_clear_saturated.induct)
    case (1 b k n)
    show ?case
    proof (cases "k < top_of b")
      case True
      let ?i = "word_index (saturated b) k n"
      let ?b = "set_word b ?i (words b ?i AND NOT (BIT (n mod 32)))"
      note n = "1.prems"(2) [OF True]
      have True': "k < orders (saturated b)" using True "1.prems"(1) by simp
      have "same_tables ?b (buddy_clear_saturated ?b (k + 1) (n div 2)) \<and>
        sat_bits (buddy_clear_saturated ?b (k + 1) (n div 2)) = sat_bits ?b - chain (top_of ?b) (k + 1) (n div 2) \<and>
        dirty_bits (buddy_clear_saturated ?b (k + 1) (n div 2)) = dirty_bits ?b"
        using "1.IH" [OF True' refl] "1.prems"(1) bits_up [OF n] by (simp add: WORD_T_BITS_def del: set_word_simps(5))
      moreover have "buddy_clear_saturated b k n = buddy_clear_saturated ?b (k + 1) (n div 2)"
        using True' by (subst buddy_clear_saturated.simps) (simp add: WORD_T_BITS_def Let_def)
      ultimately show ?thesis
        using sat_write(2, 3) [OF "1.prems"(1) True n] True
        by (auto simp add: chain_step simp del: set_word_simps(5))
    qed (use "1.prems"(1) in \<open>simp add: buddy_clear_saturated.simps [of b k n] chain_empty\<close>)
  qed
  then show "same_tables b (buddy_clear_saturated b k n)"
    "sat_bits (buddy_clear_saturated b k n) = sat_bits b - chain (top_of b) k n"
    "dirty_bits (buddy_clear_saturated b k n) = dirty_bits b" by blast+
qed

end
