(* ===== verification/Page_Allocator.thy ===== *)
theory Page_Allocator
  imports Buddy_Inv
begin

text \<open>
  The page allocator as its callers see it: \<open>buddy_inv b live\<close> says that the bitmaps of \<open>b\<close>
  stand for the set \<open>live\<close> of allocated blocks, and every operation of \<open>page2.c\<close> is shown to
  keep it while changing \<open>live\<close> by exactly the block it allocates or frees.
\<close>

section \<open>The invariant\<close>

text \<open>The blocks cut off by the end of the heap, which start out marked dirty.\<close>

definition tails :: "nat \<Rightarrow> block set" where
  "tails N = {(k, n). N mod 2 ^ k \<noteq> 0 \<and> n = N div 2 ^ k}"

definition buddy_inv :: "buddies \<Rightarrow> block set \<Rightarrow> bool" where
  "buddy_inv b live \<longleftrightarrow> tables_ok b \<and> finite live \<and>
     (\<forall>(k, n) \<in> live. k < top_of b \<and> n * 2 ^ k < pages_of b) \<and> unnested live \<and>
     dirty_ok (top_of b) (tails (pages_of b)) live (dirty_bits b) \<and>
     sat_bits b = sat_set (top_of b) live \<and>
     total_pages_allocated b = word_of_nat (\<Sum>(k, n) \<in> live. 2 ^ k) \<and>
     top_of b \<le> 31 \<and> pages_of b < 2 ^ 32 - 1"

lemma buddy_invD:
  assumes "buddy_inv b live"
  shows "tables_ok b" "finite live" "unnested live"
    "dirty_ok (top_of b) (tails (pages_of b)) live (dirty_bits b)"
    "sat_bits b = sat_set (top_of b) live"
    "(k, n) \<in> live \<Longrightarrow> k < top_of b \<and> n < order_blocks (pages_of b) k"
    "top_of b \<le> 31" "pages_of b < 2 ^ 32 - 1"
    "total_pages_allocated b = word_of_nat (\<Sum>(k, n) \<in> live. 2 ^ k)"
  using assms by (auto simp: buddy_inv_def less_order_blocks)

lemma tails_up:
  assumes "(k, n) \<in> tails N" shows "(k + 1, n div 2) \<in> tails N"
proof -
  have "N mod 2 ^ (k + 1) \<noteq> 0"
    using assms by (auto simp: tails_def mod_eq_0_iff_dvd dest: power_le_dvd [of 2 "Suc k" N k] simp del: power_Suc)
  with assms show ?thesis by (auto simp: tails_def div_exp_Suc simp del: power_Suc)
qed

lemma no_tail_page: "(0, n) \<notin> tails N"
  by (simp add: tails_def)

lemma tables_ok_pos: "tables_ok b \<Longrightarrow> 0 < top_of b"
  unfolding tables_ok_def same_geometry_def by blast

lemma tables_ok_total [simp]: "tables_ok (b\<lparr>total_pages_allocated := x\<rparr>) = tables_ok b"
  unfolding tables_ok_def same_geometry_def by simp

section \<open>The search\<close>

lemma search_step:
  assumes ok: "tables_ok b" and so: "so < top_of b" and t: "t \<le> so" and e: "e \<le> order_blocks (pages_of b) so"
  shows "buddy_search_unsaturated b so t bt e =
    (if bt < e then
       if (so, bt) \<notin> sat_bits b then
         if t < so then buddy_search_unsaturated b (so - 1) t (bt * 2)
           (min (order_blocks (pages_of b) (so - 1)) (bt * 2 + 2))
         else if (t, bt) \<notin> dirty_bits b then Some bt
         else buddy_search_unsaturated b so t (bt + 1) e
       else buddy_search_unsaturated b so t (bt + 1) e
     else None)"
proof (cases "bt < e")
  case True
  then have r: "bt < order_blocks (pages_of b) so" using e by simp
  have m: "min (order_blocks (pages_of b) (so - 1)) (bt * 2 + 2) =
    (if bt * 2 + 2 > order_blocks (pages_of b) (so - 1) then order_blocks (pages_of b) (so - 1) else bt * 2 + 2)"
    by simp
  show ?thesis
    using True sat_mem [OF ok so r] dirty_mem [OF ok so r] t ok
    by (subst buddy_search_unsaturated.simps)
      (simp add: WORD_T_BITS_def Let_def m buddy_order_bits_eq)
qed (simp add: buddy_search_unsaturated.simps [of b so t bt e])

text \<open>The four ways a round of the search can go, as an induction rule.\<close>

lemma search_induct [consumes 5, case_names stop down found again]:
  assumes ok: "tables_ok b" and "so < top_of b" and "t \<le> so" and "e \<le> order_blocks (pages_of b) so"
    and res: "buddy_search_unsaturated b so t bt e = res"
    and stop: "\<And>so bt e. e \<le> bt \<Longrightarrow> P so bt e None"
    and down: "\<And>so bt e res. so < top_of b \<Longrightarrow> t < so \<Longrightarrow> bt < e \<Longrightarrow> e \<le> order_blocks (pages_of b) so \<Longrightarrow>
      (so, bt) \<notin> sat_bits b \<Longrightarrow>
      P (so - 1) (bt * 2) (min (order_blocks (pages_of b) (so - 1)) (bt * 2 + 2)) res \<Longrightarrow> P so bt e res"
    and found: "\<And>bt e. bt < e \<Longrightarrow> e \<le> order_blocks (pages_of b) t \<Longrightarrow> (t, bt) \<notin> sat_bits b \<Longrightarrow>
      (t, bt) \<notin> dirty_bits b \<Longrightarrow> P t bt e (Some bt)"
    and nxt: "\<And>so bt e res. so < top_of b \<Longrightarrow> t \<le> so \<Longrightarrow> bt < e \<Longrightarrow> e \<le> order_blocks (pages_of b) so \<Longrightarrow>
      (so, bt) \<in> sat_bits b \<or> so = t \<and> (t, bt) \<in> dirty_bits b \<Longrightarrow> P so (bt + 1) e res \<Longrightarrow> P so bt e res"
  shows "P so bt e res"
  unfolding res [symmetric] using assms(2-4)
proof (induction so arbitrary: bt e rule: less_induct)
  case outer: (less so)
  show ?case
    using outer.prems(3)
  proof (induction "e - bt" arbitrary: bt rule: less_induct)
    case (less bt)
    note step = search_step [OF ok outer.prems(1, 2) less.prems]
    let ?e = "min (order_blocks (pages_of b) (so - 1)) (bt * 2 + 2)"
    let ?stay = "(so, bt) \<in> sat_bits b \<or> so = t \<and> (t, bt) \<in> dirty_bits b"
    have again: "P so (bt + 1) e (buddy_search_unsaturated b so t (bt + 1) e)" if "bt < e"
      using that less.prems by (intro less.hyps) auto
    have deep: "P (so - 1) (bt * 2) ?e (buddy_search_unsaturated b (so - 1) t (bt * 2) ?e)" if "t < so"
      using that outer.prems(1) by (intro outer.IH) auto
    consider "e \<le> bt" | "bt < e" ?stay | "bt < e" "\<not> ?stay" "t < so" | "bt < e" "\<not> ?stay" "so = t"
      using outer.prems(2) by linarith
    then show ?case
    proof cases
      case 1
      then have "buddy_search_unsaturated b so t bt e = None" by (simp add: step)
      with stop [OF 1] show ?thesis by simp
    next
      case 2
      then have "buddy_search_unsaturated b so t bt e = buddy_search_unsaturated b so t (bt + 1) e"
        by (subst step) auto
      with nxt [OF outer.prems(1, 2) 2(1) less.prems 2(2) again] 2 show ?thesis by simp
    next
      case 3
      then have "buddy_search_unsaturated b so t bt e = buddy_search_unsaturated b (so - 1) t (bt * 2) ?e"
        by (subst step) auto
      with down [OF outer.prems(1) 3(3, 1) less.prems _ deep] 3 show ?thesis by simp
    next
      case 4
      then have "buddy_search_unsaturated b so t bt e = Some bt" by (subst step) auto
      with found [of bt e] less.prems 4 show ?thesis by simp
    qed
  qed
qed

lemma search_sound:
  assumes "tables_ok b" and "so < top_of b" and "t \<le> so" and "e \<le> order_blocks (pages_of b) so"
    and "buddy_search_unsaturated b so t bt e = res" and "res = Some r"
  shows "r < order_blocks (pages_of b) t \<and> (t, r) \<notin> dirty_bits b \<and>
    bt \<le> r div 2 ^ (so - t) \<and> r div 2 ^ (so - t) < e \<and>
    (\<forall>j m. inside t r j m \<and> j \<le> so \<longrightarrow> (j, m) \<notin> sat_bits b)"
  using assms
proof (induction so bt e res rule: search_induct)
  case (down so bt e res)
  have half: "r div 2 ^ (so - t) = r div 2 ^ (so - 1 - t) div 2"
    using down(2) div_exp_Suc [of r "so - 1 - t"] by (simp add: Suc_diff_Suc del: power_Suc)
  note ih = down.IH [OF down.prems]
  have bt: "r div 2 ^ (so - t) = bt" unfolding half using ih by auto
  have "(j, m) \<notin> sat_bits b" if "inside t r j m" "j \<le> so" for j m
  proof (cases "j = so")
    case True
    with that bt down(5) show ?thesis by (simp add: inside_def)
  next
    case False
    with that ih show ?thesis by auto
  qed
  with ih bt down(3) show ?case by simp
next
  case (found bt e)
  then show ?case by (auto simp: inside_def)
qed auto

lemma search_below_target:
  "so < t \<Longrightarrow> buddy_search_unsaturated b so t bt e = None"
proof (induction "e - bt" arbitrary: bt)
  case 0
  then show ?case by (subst buddy_search_unsaturated.simps) simp
next
  case (Suc d)
  then have "buddy_search_unsaturated b so t (bt + 1) e = None" by simp
  with Suc.prems show ?case by (subst buddy_search_unsaturated.simps) (simp add: Let_def)
qed

section \<open>The order of a request\<close>

lemma pages_order_from:
  "(pages_order_from n k < 32 \<longrightarrow> n \<le> BIT (pages_order_from n k)) \<and> k \<le> pages_order_from n k \<and>
   (k < pages_order_from n k \<longrightarrow> BIT (pages_order_from n k - 1) < n)"
proof (induction n k rule: pages_order_from.induct)
  case (1 n k)
  show ?case
  proof (cases "k < 32 \<and> BIT k < n")
    case True
    then have eq: "pages_order_from n k = pages_order_from n (k + 1)"
      by (subst pages_order_from.simps) (simp add: WORD_T_BITS_def)
    from True 1 have "(pages_order_from n (k + 1) < 32 \<longrightarrow> n \<le> BIT (pages_order_from n (k + 1))) \<and>
      k + 1 \<le> pages_order_from n (k + 1) \<and>
      (k + 1 < pages_order_from n (k + 1) \<longrightarrow> BIT (pages_order_from n (k + 1) - 1) < n)"
      by (simp add: WORD_T_BITS_def)
    with True show ?thesis unfolding eq by (cases "pages_order_from n (k + 1) = k + 1") auto
  next
    case False
    then have "\<not> (k < WORD_T_BITS \<and> BIT k < n)" by (simp add: WORD_T_BITS_def)
    then have "pages_order_from n k = k" by (subst pages_order_from.simps) (simp only: if_False)
    with False show ?thesis by auto
  qed
qed

lemma pages_order_fits: "pages_order n < 32 \<Longrightarrow> n \<le> BIT (pages_order n)"
  using pages_order_from [of n 0] by (simp add: pages_order_def)

lemma pages_order_tight: "0 < pages_order n \<Longrightarrow> BIT (pages_order n - 1) < n"
  using pages_order_from [of n 0] by (simp add: pages_order_def)

section \<open>Allocation\<close>

lemma BIT_word: "BIT t = word_of_nat (2 ^ t)"
  by (simp add: BIT_def)

lemma insert_live:
  assumes inv: "buddy_inv b live" and k: "k < top_of b" and n: "n < order_blocks (pages_of b) k"
    and clear: "(k, n) \<notin> dirty_bits b" and fr: "fresh live k n"
  defines "b' \<equiv> buddy_set_dirty (buddy_set_saturated b k n) k n"
  shows "buddy_inv (b'\<lparr>total_pages_allocated := total_pages_allocated b' + BIT k\<rparr>) (insert (k, n) live)"
    and "same_tables b b'"
proof -
  note D = buddy_invD [OF inv]
  let ?s = "buddy_set_saturated b k n"
  have s: "same_tables b ?s" "sat_bits ?s = asat (top_of b) (sat_bits b) k n" "dirty_bits ?s = dirty_bits b"
    using set_saturated_bits [OF D(1), of k n] n by simp_all
  have ok: "tables_ok ?s" using s(1) D(1) same_tables_ok by blast
  have geo: "dirty ?s = dirty b" "saturated ?s = saturated b" using s(1) by (simp_all add: same_tables_def)
  have d: "same_tables ?s b'" "dirty_bits b' = dirty_bits b \<union> chain (top_of b) k n" "sat_bits b' = sat_bits ?s"
    unfolding b'_def using set_dirty_bits [OF ok, of k n] n s(3) geo by simp_all
  show st: "same_tables b b'" using s(1) d(1) by (rule same_tables_trans)
  then have geo': "dirty b' = dirty b" "saturated b' = saturated b"
    "total_pages_allocated b' = total_pages_allocated b" by (simp_all add: same_tables_def)
  have new: "(k, n) \<notin> live" using freshD [OF fr, of k n] by auto
  have "sat_bits b' = sat_set (top_of b) (insert (k, n) live)"
    using d(3) s(2) D(5) asat_correct [OF fr] by simp
  moreover have "dirty_ok (top_of b) (tails (pages_of b)) (insert (k, n) live) (dirty_bits b')"
    unfolding d(2) using D(4) clear k fr by (rule dirty_ok_insert)
  moreover have "tables_ok (b'\<lparr>total_pages_allocated := total_pages_allocated b' + BIT k\<rparr>)"
    using D(1) same_tables_ok [OF st] by simp
  moreover have "total_pages_allocated b + BIT k = word_of_nat (\<Sum>(k, n) \<in> insert (k, n) live. 2 ^ k)"
    unfolding D(9) BIT_word sum.insert [OF D(2) new] by (simp del: of_nat_sum)
  moreover have "\<forall>(j, m) \<in> insert (k, n) live. j < top_of b \<and> m * 2 ^ j < pages_of b"
    using D(6) k n by (auto simp: less_order_blocks)
  ultimately show "buddy_inv (b'\<lparr>total_pages_allocated := total_pages_allocated b' + BIT k\<rparr>) (insert (k, n) live)"
    using D(2, 7, 8) unnested_insert [OF D(3) fr]
    by (simp add: buddy_inv_def geo' del: of_nat_sum)
qed

lemma get_free_pages_pn_ok:
  assumes inv: "buddy_inv b live" and got: "get_free_pages_pn pages b = (Some pn, b')"
  obtains n where "pn = n * 2 ^ pages_order pages" and "pages_order pages < top_of b"
    and "n * 2 ^ pages_order pages < pages_of b"
    and "fresh live (pages_order pages) n" and "buddy_inv b' (insert (pages_order pages, n) live)"
    and "heap_base b' = heap_base b" and "pages_of b' = pages_of b" and "top_of b' = top_of b"
proof -
  note D = buddy_invD [OF inv]
  let ?t = "pages_order pages" and ?so = "top_of b - 1"
  have top: "?so < top_of b" using tables_ok_pos [OF D(1)] by simp
  have e: "buddy_order_bits (saturated b) ?so = order_blocks (pages_of b) ?so"
    using D(1) by (simp add: buddy_order_bits_eq)
  obtain r where r: "buddy_search_unsaturated b ?so ?t 0 (order_blocks (pages_of b) ?so) = Some r"
    and pn: "pn = r * 2 ^ ?t"
    and b': "b' = (let b2 = buddy_set_dirty (buddy_set_saturated b ?t r) ?t r
                   in b2\<lparr>total_pages_allocated := total_pages_allocated b2 + BIT ?t\<rparr>)"
    using got D(1) e unfolding get_free_pages_pn_def by (simp add: Let_def split: option.splits)
  have t: "?t \<le> ?so" using r search_below_target [of ?so ?t] by (metis leI option.distinct(1))
  note s = search_sound [OF D(1) top t order.refl r refl]
  have "\<not> inside ?t r j m" if "(j, m) \<in> live" for j m
  proof
    assume "inside ?t r j m"
    moreover have "j \<le> ?so" using D(6) [OF that] by linarith
    ultimately have "(j, m) \<notin> sat_bits b" using s by blast
    moreover have "sat_of live j m" using that by (cases j) auto
    ultimately show False using D(5, 6) that by (auto simp: sat_set_def)
  qed
  then have fr: "fresh live ?t r"
    using s t top by (intro dirty_ok_fresh [OF D(4)]) auto
  have k: "?t < top_of b" using t top by simp
  have "r < order_blocks (pages_of b) ?t" "(?t, r) \<notin> dirty_bits b" using s by auto
  note i = insert_live [OF inv k this fr]
  show ?thesis
    using that [OF pn k _ fr] i s less_order_blocks unfolding b'
    by (auto simp: same_tables_def Let_def)
qed

section \<open>Freeing\<close>

lemma page_div: "(n::nat) * 2 ^ k div 2 ^ j = (if j \<le> k then n * 2 ^ (k - j) else n div 2 ^ (j - k))"
proof (cases "j \<le> k")
  case True
  then have "n * 2 ^ k = n * 2 ^ (k - j) * 2 ^ j" by (simp add: mult.assoc flip: power_add)
  then have "n * 2 ^ k div 2 ^ j = n * 2 ^ (k - j)" by (simp only:) simp
  with True show ?thesis by simp
next
  case False
  then have "(2::nat) ^ j = 2 ^ k * 2 ^ (j - k)" by (simp flip: power_add)
  with False show ?thesis by (simp add: div_mult2_eq)
qed

lemma determine_order_ok:
  assumes inv: "buddy_inv b live" and kn: "(k, n) \<in> live"
  shows "K < top_of b \<Longrightarrow> k \<le> K \<Longrightarrow> determine_order_from b (n * 2 ^ k) K = k"
proof (induction K)
  case 0
  then show ?case by simp
next
  case (Suc K)
  note D = buddy_invD [OF inv]
  let ?bt = "n * 2 ^ k div 2 ^ K"
  have "?bt * 2 ^ K \<le> n * 2 ^ k" by (rule div_times_less_eq_dividend)
  also have "\<dots> < pages_of b" using D(6) [OF kn] by (simp add: less_order_blocks)
  finally have "?bt < order_blocks (pages_of b) K" by (simp add: less_order_blocks)
  then have mem: "words b (word_index (dirty b) K ?bt) AND BIT (?bt mod WORD_T_BITS) = 0 \<longleftrightarrow>
    (K, ?bt) \<notin> dirty_bits b"
    using dirty_mem [OF D(1), of K ?bt] Suc.prems(1) by (simp add: WORD_T_BITS_def)
  show ?case
  proof (cases "k = Suc K")
    case True
    have "inside K ?bt k n" using True by (simp add: inside_def page_div)
    then have "(K, ?bt) \<notin> dirty_bits b" using dirty_okD(4) [OF D(4) kn, of K ?bt] True by auto
    with mem True show ?thesis by (simp add: Let_def)
  next
    case False
    with Suc.prems have k: "k \<le> K" by simp
    then have "inside k n K ?bt" by (auto simp: inside_def page_div)
    then have "(K, ?bt) \<in> dirty_bits b" using dirty_okD(1) [OF D(4) kn] Suc.prems(1) by simp
    with mem Suc k show ?thesis by (simp add: Let_def)
  qed
qed

lemma remove_live:
  assumes inv: "buddy_inv b live" and kn: "(k, n) \<in> live"
  shows "determine_allocated_page_order b (n * 2 ^ k) = k"
    and "buddy_inv (free_pages2_pn (n * 2 ^ k) b) (live - {(k, n)})"
    and "heap_base (free_pages2_pn (n * 2 ^ k) b) = heap_base b"
    and "pages_of (free_pages2_pn (n * 2 ^ k) b) = pages_of b"
    and "top_of (free_pages2_pn (n * 2 ^ k) b) = top_of b"
proof -
  note D = buddy_invD [OF inv]
  have k: "k < top_of b" and n: "n < order_blocks (pages_of b) k" using D(6) [OF kn] by auto
  show ord: "determine_allocated_page_order b (n * 2 ^ k) = k"
    unfolding determine_allocated_page_order_def using k by (intro determine_order_ok [OF inv kn]) auto
  let ?s = "buddy_clear_saturated b k n"
  let ?d = "buddy_clear_dirty ?s k n"
  have s: "same_tables b ?s" "sat_bits ?s = sat_bits b - chain (top_of b) k n" "dirty_bits ?s = dirty_bits b"
    using clear_saturated_bits [OF D(1), of k n] n by simp_all
  have ok: "tables_ok ?s" using s(1) D(1) same_tables_ok by blast
  have geo: "dirty ?s = dirty b" "saturated ?s = saturated b" using s(1) by (simp_all add: same_tables_def)
  have d: "same_tables ?s ?d" "dirty_bits ?d = adclr (top_of b) (dirty_bits b) k n" "sat_bits ?d = sat_bits ?s"
    using clear_dirty_bits [OF ok, of k n] n s(3) geo by simp_all
  have st: "same_tables b ?d" using s(1) d(1) by (rule same_tables_trans)
  then have geo': "dirty ?d = dirty b" "saturated ?d = saturated b" "heap_base ?d = heap_base b"
    "total_pages_allocated ?d = total_pages_allocated b" by (simp_all add: same_tables_def)
  have "n * 2 ^ k < pages_of b" using n by (simp add: less_order_blocks)
  then have "n * 2 ^ k \<noteq> 0xffffffff" using D(8) by simp
  then have eq: "free_pages2_pn (n * 2 ^ k) b = ?d\<lparr>total_pages_allocated := total_pages_allocated b - BIT k\<rparr>"
    using ord geo' by (simp add: free_pages2_pn_def Let_def)
  have "sat_bits ?d = sat_set (top_of b) (live - {(k, n)})"
    using d(3) s(2) D(5) sat_set_remove [OF D(3) kn] by simp
  moreover have "dirty_ok (top_of b) (tails (pages_of b)) (live - {(k, n)}) (dirty_bits ?d)"
    unfolding d(2) using D(4, 3) kn tails_up bits_of_order by (rule dirty_ok_remove)
  moreover have "(\<Sum>(k, n) \<in> live. 2 ^ k) = (2::nat) ^ k + (\<Sum>(k, n) \<in> live - {(k, n)}. 2 ^ k)"
    using sum.remove [OF D(2) kn, of "\<lambda>(k, n). 2 ^ k"] by simp
  then have "word_of_nat (\<Sum>(k, n) \<in> live. 2 ^ k) - BIT k = (word_of_nat (\<Sum>(k, n) \<in> live - {(k, n)}. 2 ^ k) :: u32)"
    by (simp add: BIT_word)
  moreover have "tables_ok (?d\<lparr>total_pages_allocated := total_pages_allocated b - BIT k\<rparr>)"
    using D(1) same_tables_ok [OF st] by simp
  moreover have "total_pages_allocated b = word_of_nat (\<Sum>(k, n) \<in> live. 2 ^ k)"
    by (rule D(9))
  moreover have "\<forall>(j, m) \<in> live - {(k, n)}. j < top_of b \<and> m * 2 ^ j < pages_of b"
    using D(6) by (auto simp: less_order_blocks)
  ultimately show "buddy_inv (free_pages2_pn (n * 2 ^ k) b) (live - {(k, n)})"
    using D(2, 7, 8) unnested_diff [OF D(3), of "{(k, n)}"] unfolding eq
    by (simp add: buddy_inv_def geo' del: of_nat_sum)
  show "heap_base (free_pages2_pn (n * 2 ^ k) b) = heap_base b"
    "pages_of (free_pages2_pn (n * 2 ^ k) b) = pages_of b"
    "top_of (free_pages2_pn (n * 2 ^ k) b) = top_of b" by (simp_all add: eq geo')
qed

section \<open>A single page is found whenever one is free\<close>

definition page_free :: "block set \<Rightarrow> nat \<Rightarrow> bool" where
  "page_free live p \<longleftrightarrow> (\<forall>bl \<in> live. p \<notin> block_pages bl)"

lemma not_page_free: "(j, m) \<in> live \<Longrightarrow> p div 2 ^ j = m \<Longrightarrow> \<not> page_free live p"
  by (auto simp: page_free_def page_in_block intro!: bexI [of _ "(j, m)"])

lemma sat_taken: "sat_of live k n \<Longrightarrow> p div 2 ^ k = n \<Longrightarrow> \<not> page_free live p"
proof (induction k arbitrary: n)
  case 0
  then show ?case using not_page_free [of 0 n live p] by simp
next
  case (Suc k)
  show ?case
  proof (cases "(Suc k, n) \<in> live")
    case True
    with Suc.prems not_page_free show ?thesis by blast
  next
    case False
    have "p div 2 ^ k = 2 * n \<or> p div 2 ^ k = 2 * n + 1"
      using Suc.prems(2) by (auto simp: div_exp_Suc simp del: power_Suc)
    with False Suc.prems(1) Suc.IH show ?thesis by auto
  qed
qed

lemma unsat_free:
  "\<not> sat_of live k n \<Longrightarrow> \<forall>(j, m) \<in> live. \<not> inside k n j m \<Longrightarrow> \<exists>p. p div 2 ^ k = n \<and> page_free live p"
proof (induction k arbitrary: n)
  case 0
  have "page_free live n"
    using 0(2) by (auto simp: page_free_def page_in_block inside_def)
  then show ?case by auto
next
  case (Suc k)
  then obtain c where c: "c = 2 * n \<or> c = 2 * n + 1" "\<not> sat_of live k c" by auto
  then have n: "c div 2 = n" by auto
  have "\<not> inside k c j m" if "(j, m) \<in> live" for j m
  proof
    assume "inside k c j m"
    then have "(j, m) = (k, c) \<or> inside (Suc k) n j m" using n by (simp only: inside_up [of k c j m])
    with that Suc.prems(2) have "(k, c) \<in> live" by auto
    with c(2) show False by (cases k) auto
  qed
  then obtain p where "p div 2 ^ k = c" "page_free live p" using Suc.IH [OF c(2)] by auto
  with n show ?case by (auto simp: div_exp_Suc simp del: power_Suc)
qed

lemma search_complete:
  assumes "tables_ok b" and "so < top_of b" and "0 \<le> so" and "e \<le> order_blocks (pages_of b) so"
    and "buddy_search_unsaturated b so 0 bt e = res"
    and inv: "buddy_inv b live" and "res = None"
    and "\<forall>m < e. \<forall>(j, l) \<in> live. inside so m j l \<longrightarrow> bt \<le> m \<longrightarrow> (j, l) = (so, m)"
    and "p < pages_of b" and "bt \<le> p div 2 ^ so" and "p div 2 ^ so < e"
  shows "\<not> page_free live p"
  using assms(1-5, 7-11)
proof (induction so bt e res arbitrary: p rule: search_induct)
  case (down so bt e res)
  note D = buddy_invD [OF inv]
  let ?e = "min (order_blocks (pages_of b) (so - 1)) (bt * 2 + 2)"
  have so: "so = Suc (so - 1)" using down.hyps(2) by simp
  have notlive: "(so, bt) \<notin> live"
  proof
    assume "(so, bt) \<in> live"
    then have "sat_of live so bt" by (cases so) auto
    then show False using down.hyps(1, 5) D(5) by (simp add: sat_set_def)
  qed
  have clear: "\<not> inside so bt j l" if "(j, l) \<in> live" for j l
    using down.prems(2) down.hyps(3) that notlive by blast
  have half: "q div 2 ^ (so - 1) div 2 = q div 2 ^ so" for q :: nat
    using div_exp_Suc [of q "so - 1"] so by simp
  have "\<forall>m < ?e. \<forall>(j, l) \<in> live. inside (so - 1) m j l \<longrightarrow> bt * 2 \<le> m \<longrightarrow> (j, l) = (so - 1, m)"
  proof (intro allI impI ballI, clarify)
    fix m j l assume m: "m < ?e" "inside (so - 1) m j l" "bt * 2 \<le> m" and live: "(j, l) \<in> live"
    have "m div 2 = bt" using m(1, 3) by auto
    with m(2) have "(j, l) = (so - 1, m) \<or> inside so bt j l"
      by (metis so inside_up)
    with clear [OF live] show "j = so - 1 \<and> l = m" by simp
  qed
  note ih = down.IH [OF down.prems(1) this]
  have here: "\<not> page_free live q" if "q < pages_of b" "q div 2 ^ so = bt" for q
  proof (rule ih [OF that(1)])
    show "bt * 2 \<le> q div 2 ^ (so - 1)" using half [of q] that(2) by auto
    have "q div 2 ^ (so - 1) * 2 ^ (so - 1) < pages_of b"
      using div_times_less_eq_dividend that(1) by (rule le_less_trans)
    then show "q div 2 ^ (so - 1) < ?e" using half [of q] that(2) by (auto simp: less_order_blocks)
  qed
  show ?case
  proof (cases "p div 2 ^ so = bt")
    case True
    with here down.prems(3) show ?thesis by blast
  next
    case False
    have "(bt + 1) * 2 ^ so \<le> p div 2 ^ so * 2 ^ so"
      using False down.prems(4) by (intro mult_right_mono) auto
    also have "\<dots> \<le> p" by (rule div_times_less_eq_dividend)
    finally have full: "(bt + 1) * 2 ^ so < pages_of b" using down.prems(3) by simp
    have "\<not> sat_of live so bt" using down.hyps(1, 5) D(5) by (simp add: sat_set_def)
    moreover have "\<forall>(j, m) \<in> live. \<not> inside so bt j m" using clear by blast
    ultimately obtain q where q: "q div 2 ^ so = bt" "page_free live q" using unsat_free by blast
    have "q \<in> block_pages (so, bt)" using q(1) by (simp add: page_in_block)
    then have "q < pages_of b" using full by (simp add: block_pages_def)
    with here q show ?thesis by blast
  qed
next
  case (again so bt e res)
  note D = buddy_invD [OF inv]
  show ?case
  proof (cases "p div 2 ^ so = bt")
    case True
    have "\<not> page_free live p" if "(so, bt) \<in> sat_bits b"
      using that True sat_taken D(5) by (auto simp: sat_set_def)
    moreover have "\<not> page_free live p" if d: "so = 0" "(0, bt) \<in> dirty_bits b"
    proof -
      obtain j m where "(j, m) \<in> live" "inside j m 0 bt"
        using dirty_okD(2) [OF D(4) d(2) no_tail_page] by blast
      then have "(0, bt) \<in> live" by (auto simp: inside_def)
      then show ?thesis using not_page_free [of 0 bt live p] True d(1) by simp
    qed
    ultimately show ?thesis using again.hyps(5) by blast
  next
    case False
    have "\<forall>m < e. \<forall>(j, l) \<in> live. inside so m j l \<longrightarrow> bt + 1 \<le> m \<longrightarrow> (j, l) = (so, m)"
    proof (intro allI impI ballI)
      fix m bl assume "m < e" "bl \<in> live"
      with again.prems(2) show "case bl of (j, l) \<Rightarrow> inside so m j l \<longrightarrow> bt + 1 \<le> m \<longrightarrow> (j, l) = (so, m)"
        by (cases bl) fastforce
    qed
    moreover have "bt + 1 \<le> p div 2 ^ so" using False again.prems(4) by simp
    ultimately show ?thesis using again.IH again.prems(1, 3, 5) by blast
  qed
qed simp_all

lemma get_free_page_pn_complete:
  assumes inv: "buddy_inv b live" and none: "get_free_pages_pn 1 b = (None, b')" and p: "p < pages_of b"
  shows "\<not> page_free live p"
proof -
  note D = buddy_invD [OF inv]
  let ?so = "top_of b - 1"
  have top: "?so < top_of b" using tables_ok_pos [OF D(1)] by simp
  have "pages_order 1 = 0"
    unfolding pages_order_def by (subst pages_order_from.simps) (simp add: BIT_def)
  then have s: "buddy_search_unsaturated b ?so 0 0 (order_blocks (pages_of b) ?so) = None"
    using none D(1) unfolding get_free_pages_pn_def
    by (simp add: Let_def buddy_order_bits_eq split: option.splits)
  have above: "\<forall>m < order_blocks (pages_of b) ?so. \<forall>(j, l) \<in> live. inside ?so m j l \<longrightarrow> 0 \<le> m \<longrightarrow> (j, l) = (?so, m)"
  proof (intro allI impI ballI, clarify)
    fix m j l assume "inside ?so m j l" "(j, l) \<in> live"
    then have "j = ?so" using D(6) [of j l] top by (auto simp: inside_def)
    with \<open>inside ?so m j l\<close> show "j = ?so \<and> l = m" by (simp add: inside_def)
  qed
  have "p div 2 ^ ?so * 2 ^ ?so < pages_of b"
    using div_times_less_eq_dividend p by (rule le_less_trans)
  then have "p div 2 ^ ?so < order_blocks (pages_of b) ?so" by (simp add: less_order_blocks)
  then show ?thesis using search_complete [OF D(1) top _ order.refl s inv refl above p] by simp
qed

end
