(* ===== verification/Page_Init.thy ===== *)
theory Page_Init
  imports Page_Allocator
begin

text \<open>
  Setting the allocator up: \<open>buddy_alloc_data\<close> leaves bitmaps that satisfy the invariant with
  nothing allocated, over a heap that lies inside the memory it was given.
\<close>

section \<open>Geometry\<close>

lemma geometry_orders_le: "geometry_orders N k \<le> k"
  by (induction k) auto

lemma geometry_orders_mono: "M \<le> N \<Longrightarrow> geometry_orders M k \<le> geometry_orders N k"
proof (induction k)
  case (Suc k)
  have "M div 2 ^ k \<le> N div 2 ^ k" using Suc.prems by (rule div_le_mono)
  with Suc show ?case using geometry_orders_le [of M k] by auto
qed simp

lemma geometry_orders_pos: "0 < N \<Longrightarrow> 0 < geometry_orders N (Suc k)"
  by (induction k) auto

lemma geometry_orders_top: "0 < geometry_orders N k \<Longrightarrow> 2 ^ (geometry_orders N k - 1) \<le> N"
proof (induction k)
  case (Suc k)
  show ?case
  proof (cases "0 < N div 2 ^ k")
    case True
    then have "2 ^ k \<le> N" by (simp add: div_greater_zero_iff)
    with True show ?thesis by simp
  next
    case False
    with Suc show ?thesis by simp
  qed
qed simp

lemma order_words_mono: "M \<le> N \<Longrightarrow> order_words M k \<le> order_words N k"
  unfolding order_words_def by (intro div_le_mono add_right_mono)

lemma order_size_words: "determine_buddy_order_size d k = 4 * order_words (order_0_bits d) k"
  by (simp add: determine_buddy_order_size_def order_words_def WORD_T_BITS_def)

text \<open>The words a family of tables takes: one pointer per level, then the bitmaps.\<close>

definition family_words :: "nat \<Rightarrow> nat \<Rightarrow> nat" where
  "family_words N h = h + order_off N h"

lemma buddy_data_size_words: "determine_buddy_data_size d = 4 * family_words (order_0_bits d) (orders d)"
proof -
  have "(\<Sum>k \<leftarrow> [0..<h]. 4 * order_words N k) = 4 * order_off N h" for N h
    by (induction h) (simp_all add: order_off_def algebra_simps)
  then show ?thesis
    by (simp add: determine_buddy_data_size_def determine_buddy_order_ptr_size_def WORD_T_BYTES_def
        order_size_words family_words_def)
qed

lemma family_words_mono:
  assumes "M \<le> N" and "g \<le> h"
  shows "family_words M g \<le> family_words N h"
proof -
  have "order_off M g \<le> order_off N g"
    unfolding order_off_def by (intro sum_mono order_words_mono assms(1))
  also have "\<dots> \<le> order_off N h" using assms(2) by (rule order_off_mono)
  finally show ?thesis using assms(2) by (simp add: family_words_def)
qed

section \<open>Laying out the tables\<close>

definition laid_out :: "nat \<Rightarrow> buddy \<Rightarrow> buddy" where
  "laid_out p d = d\<lparr>data := map (\<lambda>k. p + order_off (order_0_bits d) k) [0..<orders d]\<rparr>"

lemma table_at_laid_out: "table_at p (laid_out p d)"
  by (simp add: table_at_def laid_out_def)

lemma laid_out_simps [simp]:
  "order_0_bits (laid_out p d) = order_0_bits d" "orders (laid_out p d) = orders d"
  "data (laid_out p d) = map (\<lambda>k. p + order_off (order_0_bits d) k) [0..<orders d]"
  by (simp_all add: laid_out_def)

lemma dirty_steps:
  assumes spill: "no_spill (order_0_bits d) (orders d)" and "k \<le> orders d"
    and zero: "\<forall>i. p \<le> i \<longrightarrow> i < lim \<longrightarrow> w i = 0"
    and lim: "p + order_off (order_0_bits d) (orders d) \<le> lim"
  obtains w' where "fold (dirty_step d) [0..<k] ([], p, w) =
      (map (\<lambda>k. p + order_off (order_0_bits d) k) [0..<k], p + order_off (order_0_bits d) k, w')"
    and "bits_of (laid_out p d) w' = tails (order_0_bits d) \<inter> {..<k} \<times> UNIV"
    and "\<And>i. p + order_off (order_0_bits d) (orders d) \<le> i \<Longrightarrow> w' i = w i"
proof -
  let ?N = "order_0_bits d" and ?L = "laid_out p d"
  have "\<exists>w'. fold (dirty_step d) [0..<k] ([], p, w) =
      (map (\<lambda>k. p + order_off ?N k) [0..<k], p + order_off ?N k, w') \<and>
     bits_of ?L w' = tails ?N \<inter> {..<k} \<times> UNIV \<and> (\<forall>i. p + order_off ?N (orders d) \<le> i \<longrightarrow> w' i = w i)"
    using assms(2)
  proof (induction k)
    case 0
    have "w (word_index ?L j n) = 0" if "j < orders d" "n < order_cap ?N j" for j n
    proof -
      have k: "j < orders ?L" "n < order_cap (order_0_bits ?L) j" using that by simp_all
      note r = index_range(1, 3) [OF table_at_laid_out [of p d] k]
      have "p \<le> word_index ?L j n" using r(1) by simp
      moreover have "word_index ?L j n < lim" using r(2) lim by simp
      ultimately show ?thesis using zero by blast
    qed
    then have "bits_of ?L w = {}" by (auto simp: bits_of_def)
    then show ?case by (simp add: order_off_def)
  next
    case (Suc k)
    then obtain w' where IH: "fold (dirty_step d) [0..<k] ([], p, w) =
        (map (\<lambda>k. p + order_off ?N k) [0..<k], p + order_off ?N k, w')"
      "bits_of ?L w' = tails ?N \<inter> {..<k} \<times> UNIV" "\<forall>i. p + order_off ?N (orders d) \<le> i \<longrightarrow> w' i = w i"
      by auto
    have cur: "p + order_off ?N k + determine_buddy_order_size d k div WORD_T_BYTES = p + order_off ?N (Suc k)"
      by (simp add: order_size_words WORD_T_BYTES_def order_off_Suc)
    show ?case
    proof (cases "?N mod 2 ^ k = 0")
      case True
      then have "tails ?N \<inter> {..<Suc k} \<times> UNIV = tails ?N \<inter> {..<k} \<times> UNIV"
        by (auto simp: tails_def less_Suc_eq)
      moreover have "fold (dirty_step d) [0..<Suc k] ([], p, w) =
        (map (\<lambda>k. p + order_off ?N k) [0..<Suc k], p + order_off ?N (Suc k), w')"
        using True IH(1) cur by (simp add: Let_def)
      ultimately show ?thesis using IH(2, 3) by auto
    next
      case False
      let ?bt = "?N div 2 ^ k"
      let ?i = "word_index ?L k ?bt"
      let ?w = "w'(?i := w' ?i OR BIT (?bt mod 32))"
      have k: "k < orders ?L" using Suc.prems by simp
      have "?bt < order_blocks ?N k" using False by (simp add: order_blocks_def)
      also have "\<dots> \<le> order_cap ?N k" using spill Suc.prems by (simp add: no_spill_def)
      finally have room: "?bt < order_cap (order_0_bits ?L) k" by simp
      have "?i = p + order_off ?N k + ?bt div 32"
        using k by (simp add: word_index_def WORD_T_BITS_def)
      then have step: "fold (dirty_step d) [0..<Suc k] ([], p, w) =
        (map (\<lambda>k. p + order_off ?N k) [0..<Suc k], p + order_off ?N (Suc k), ?w)"
        using False IH cur by (simp add: Let_def WORD_T_BITS_def)
      have "bits_of ?L ?w = insert (k, ?bt) (bits_of ?L w')"
        using bits_of_or [OF table_at_laid_out k room] .
      moreover have "tails ?N \<inter> {..<Suc k} \<times> UNIV = insert (k, ?bt) (tails ?N \<inter> {..<k} \<times> UNIV)"
        using False by (auto simp: tails_def less_Suc_eq)
      ultimately have "bits_of ?L ?w = tails ?N \<inter> {..<Suc k} \<times> UNIV"
        by (simp only: IH(2))
      moreover have "?i < p + order_off ?N (orders d)"
        using index_range(3) [OF table_at_laid_out k room] by simp
      then have "\<forall>i. p + order_off ?N (orders d) \<le> i \<longrightarrow> ?w i = w i" using IH(3) by auto
      ultimately show ?thesis using step by (intro exI [of _ ?w]) (intro conjI)
    qed
  qed
  with that show ?thesis by blast
qed

lemma saturated_steps:
  "fold (saturated_step d) [0..<k] ([], p) =
    (map (\<lambda>k. p + order_off (order_0_bits d) k) [0..<k], p + order_off (order_0_bits d) k)"
  by (induction k) (simp_all add: order_off_def order_size_words WORD_T_BYTES_def)

section \<open>The whole set-up\<close>

text \<open>A board whose memory is whole pages below the end of the address space.\<close>

definition board_ok :: "board \<Rightarrow> nat \<Rightarrow> bool" where
  "board_ok cfg j \<longleftrightarrow> PAGE_SIZE cfg = 2 ^ j \<and> 2 \<le> j \<and> j < 32 \<and> HEAP_BEGIN cfg \<noteq> 0 \<and>
     2 ^ j dvd unat (HEAP_BEGIN cfg) \<and>
     2 ^ j dvd unat (VIRTUAL_MEMORY_BASE_ADDRESS cfg) + unat (PHYSICAL_MEMORY_LENGTH cfg) \<and>
     unat (VIRTUAL_MEMORY_BASE_ADDRESS cfg) + unat (PHYSICAL_MEMORY_LENGTH cfg) < 2 ^ 32"

abbreviation memory_end :: "board \<Rightarrow> nat" where
  "memory_end cfg \<equiv> unat (VIRTUAL_MEMORY_BASE_ADDRESS cfg) + unat (PHYSICAL_MEMORY_LENGTH cfg)"

definition watermark :: "board \<Rightarrow> boot \<Rightarrow> nat" where
  "watermark cfg s = unat (HEAP_BEGIN cfg) + unat (boot_pages s) * unat (PAGE_SIZE cfg)"

definition fresh_buddies :: "buddies \<Rightarrow> bool" where
  "fresh_buddies b \<longleftrightarrow> orders (dirty b) = 0 \<and> orders (saturated b) = 0 \<and> total_pages_allocated b = 0"

lemma configure_geometry_fresh:
  fixes cfg :: board and heap_len :: u32
  assumes "orders (dirty b) = orders (saturated b)"
  defines "N \<equiv> unat (heap_len div PAGE_SIZE cfg)"
  shows "order_0_bits (dirty (snd (configure_geometry cfg b heap_len))) = N"
    and "order_0_bits (saturated (snd (configure_geometry cfg b heap_len))) = N"
    and "orders (saturated (snd (configure_geometry cfg b heap_len))) =
      orders (dirty (snd (configure_geometry cfg b heap_len)))"
    and "orders (dirty (snd (configure_geometry cfg b heap_len))) =
      (if geometry_orders N 31 = 0 then orders (dirty b) else geometry_orders N 31)"
    and "total_pages_allocated (snd (configure_geometry cfg b heap_len)) = total_pages_allocated b"
    and "words (snd (configure_geometry cfg b heap_len)) = words b"
    and "data (dirty (snd (configure_geometry cfg b heap_len))) = data (dirty b)"
  using assms by (auto simp: configure_geometry_def Let_def)

lemma sat_of_empty [simp]: "\<not> sat_of {} k n"
  by (induction k arbitrary: n) auto

lemma bits_of_zero: "(\<And>k n. k < orders d \<Longrightarrow> n < order_cap (order_0_bits d) k \<Longrightarrow> w (word_index d k n) = 0) \<Longrightarrow>
    bits_of d w = {}"
  by (auto simp: bits_of_def)

text \<open>Bitmaps built over zeroed words stand for the empty set of blocks.\<close>

lemma built_tables_inv:
  assumes d: "order_0_bits d = N" "orders d = h" and s: "order_0_bits e = N" "orders e = h"
    and h: "0 < h" "h \<le> 31" and N: "N < 2 ^ 32 - 1" and spill: "no_spill N h"
    and zero: "\<And>i. i < 2 * family_words N h \<Longrightarrow> w i = 0"
    and f: "fold (dirty_step d) [0..<h] ([], h, w) = (dp, c1, w')"
    and g: "fold (saturated_step e) [0..<h] ([], c1 + h) = (sp, c2)"
    and b: "dirty b = d\<lparr>data := dp\<rparr>" "saturated b = e\<lparr>data := sp\<rparr>" "words b = w'" "total_pages_allocated b = 0"
  shows "buddy_inv b {}" and "c2 = 2 * family_words N h"
proof -
  have F: "h + order_off N h = family_words N h" by (simp add: family_words_def)
  have spill': "no_spill (order_0_bits d) (orders d)" using spill d by simp
  have zero': "\<forall>i. h \<le> i \<longrightarrow> i < 2 * family_words N h \<longrightarrow> w i = 0" using zero by simp
  have lim: "h + order_off (order_0_bits d) (orders d) \<le> 2 * family_words N h"
    using d by (simp add: family_words_def)
  have hd: "h \<le> orders d" using d by simp
  obtain w'' where D: "fold (dirty_step d) [0..<h] ([], h, w) =
      (map (\<lambda>k. h + order_off N k) [0..<h], h + order_off N h, w'')"
    "bits_of (laid_out h d) w'' = tails N \<inter> {..<h} \<times> UNIV"
    "\<And>i. h + order_off N h \<le> i \<Longrightarrow> w'' i = w i"
    by (rule dirty_steps [OF spill' hd zero' lim, unfolded d]) (rule that)
  have eqs: "dp = map (\<lambda>k. h + order_off N k) [0..<h]" "c1 = family_words N h" "w' = w''"
    using D(1) f by (simp_all add: family_words_def)
  have S: "sp = map (\<lambda>k. family_words N h + h + order_off N k) [0..<h]" "c2 = family_words N h + h + order_off N h"
    using g s unfolding saturated_steps eqs by auto
  show c2: "c2 = 2 * family_words N h" using S(2) by (simp add: family_words_def)
  have bd: "dirty b = laid_out h d" and bs: "saturated b = laid_out (family_words N h + h) e"
    using b d s eqs S(1) by (simp_all add: laid_out_def)
  have t: "table_at h (dirty b)" "table_at (family_words N h + h) (saturated b)"
    unfolding bd bs by (rule table_at_laid_out)+
  have geo: "order_0_bits (dirty b) = N" "orders (dirty b) = h" "order_0_bits (saturated b) = N" "orders (saturated b) = h"
    unfolding bd bs using d s by simp_all
  have tok: "tables_ok b"
    unfolding tables_ok_def same_geometry_def geo
  proof (intro conjI exI)
    show "h + order_off N h \<le> family_words N h + h" by (simp add: family_words_def)
  qed (use h spill t in simp_all)
  moreover have "sat_bits b = {}"
  proof (rule bits_of_zero)
    fix k n assume kn: "k < orders (saturated b)" "n < order_cap (order_0_bits (saturated b)) k"
    note r = index_range(1, 3) [OF t(2) kn]
    have "words b (word_index (saturated b) k n) = w (word_index (saturated b) k n)"
      using r(1) unfolding b(3) eqs(3) by (intro D(3)) (simp add: family_words_def)
    also have "\<dots> = 0" using r(2) geo by (intro zero) (simp add: family_words_def)
    finally show "words b (word_index (saturated b) k n) = 0" .
  qed
  moreover have "dirty_bits b = tails N \<inter> {..<h} \<times> UNIV"
    using D(2) unfolding bd b(3) eqs(3) .
  moreover have "dirty_ok h (tails N) {} (tails N \<inter> {..<h} \<times> UNIV)"
    unfolding dirty_ok_def dirty_of_def using tails_up [of _ _ N] by auto
  ultimately show "buddy_inv b {}"
    unfolding buddy_inv_def geo using h N b(4) by (simp add: unnested_def sat_set_def)
qed

text \<open>Rounding up to a page on natural numbers.\<close>

definition round_up :: "nat \<Rightarrow> nat \<Rightarrow> nat" where
  "round_up j x = (x + 2 ^ j - 1) div 2 ^ j * 2 ^ j"

lemma round_up_ge: "x \<le> round_up j x"
proof -
  have "x + 2 ^ j - 1 < round_up j x + 2 ^ j"
    using dividend_less_div_times [of "2 ^ j" "x + 2 ^ j - 1"] by (simp add: round_up_def algebra_simps)
  then show ?thesis by simp
qed

lemma less_round: "x \<le> q * 2 ^ j \<Longrightarrow> x + 2 ^ j - 1 < (q + 1) * (2::nat) ^ j"
proof -
  assume "x \<le> q * 2 ^ j"
  moreover have "0 < (2::nat) ^ j" by simp
  moreover have "(q + 1) * (2::nat) ^ j = q * 2 ^ j + 2 ^ j" by simp
  ultimately show ?thesis by linarith
qed

lemma round_up_le: "x \<le> y \<Longrightarrow> 2 ^ j dvd y \<Longrightarrow> round_up j x \<le> y"
proof -
  assume xy: "x \<le> y" "2 ^ j dvd y"
  then obtain q where q: "y = q * 2 ^ j" by (metis dvd_div_mult_self)
  have "(x + 2 ^ j - 1) div 2 ^ j < q + 1"
    using less_round xy(1) unfolding q by (intro less_mult_imp_div_less) blast
  then show ?thesis unfolding q round_up_def by simp
qed

lemma round_up_dvd: "2 ^ j dvd round_up j x"
  by (simp add: round_up_def)

lemma round_up_rest:
  assumes "x \<le> y" and "2 ^ j dvd y"
  shows "round_up j x + (y - x) div 2 ^ j * 2 ^ j \<le> y"
proof -
  have m: "(y - x) div 2 ^ j * 2 ^ j \<le> y - x" by (rule div_times_less_eq_dividend)
  have "2 ^ j dvd y - (y - x) div 2 ^ j * 2 ^ j" using assms(2) by (rule dvd_diff_nat) simp
  moreover have "x \<le> y - (y - x) div 2 ^ j * 2 ^ j" using m assms(1) by linarith
  ultimately have "round_up j x \<le> y - (y - x) div 2 ^ j * 2 ^ j" by (intro round_up_le)
  with m assms(1) show ?thesis by linarith
qed

lemma unat_ALIGN_U_round:
  assumes "j < 32" and "unat x \<le> 2 ^ 32 - 2 ^ j"
  shows "unat (ALIGN_U x (2 ^ j)) = round_up j (unat x)"
proof -
  have "(2::nat) ^ j \<le> 2 ^ 32" by (rule power_increasing) (use assms(1) in simp_all)
  moreover have "0 < (2::nat) ^ j" by simp
  ultimately have "unat x + 2 ^ j - 1 < 2 ^ 32" using assms(2) by linarith
  with assms(1) show ?thesis unfolding round_up_def by (rule unat_ALIGN_U)
qed

lemma dvd_below_2_32:
  assumes "2 ^ j dvd E" and "E < (2::nat) ^ 32" and "j < 32"
  shows "E \<le> 2 ^ 32 - 2 ^ j"
proof -
  have "2 ^ j dvd (2::nat) ^ 32" using assms(3) by (intro le_imp_power_dvd) simp
  then have "2 ^ j dvd 2 ^ 32 - E" using assms(1) by (rule dvd_diff_nat)
  then have "2 ^ j \<le> 2 ^ 32 - E" using assms(2) by (intro dvd_imp_le) simp_all
  then show ?thesis using assms(2) by linarith
qed

text \<open>
  The state when the page allocator is set up: boot pages are left, nothing else exists yet. The
  last condition, which holds for every board, keeps a block that sticks out of the end of the
  heap below the end of the address space.
\<close>

definition setup_ready :: "board \<Rightarrow> nat \<Rightarrow> buddies \<Rightarrow> boot \<Rightarrow> bool" where
  "setup_ready cfg j b s \<longleftrightarrow> board_ok cfg j \<and> fresh_buddies b \<and> watermark cfg s \<le> memory_end cfg \<and>
     2 * memory_end cfg < 2 ^ 32 + watermark cfg s"

lemma watermark_word:
  assumes "setup_ready cfg j b s"
  shows "unat (HEAP_BEGIN cfg + boot_pages s * PAGE_SIZE cfg) = watermark cfg s"
    and "unat ((VIRTUAL_MEMORY_BASE_ADDRESS cfg + PHYSICAL_MEMORY_LENGTH cfg) -
        (HEAP_BEGIN cfg + boot_pages s * PAGE_SIZE cfg)) = memory_end cfg - watermark cfg s"
    and "2 ^ j dvd watermark cfg s"
proof -
  have ok: "board_ok cfg j" and w: "watermark cfg s \<le> memory_end cfg" using assms by (auto simp: setup_ready_def)
  then have E: "memory_end cfg < 2 ^ 32" and ps: "unat (PAGE_SIZE cfg) = 2 ^ j" by (auto simp: board_ok_def)
  have "unat (boot_pages s) * unat (PAGE_SIZE cfg) < 2 ^ 32" using w E by (simp add: watermark_def)
  then have m: "unat (boot_pages s * PAGE_SIZE cfg) = unat (boot_pages s) * unat (PAGE_SIZE cfg)"
    by (rule unat_mult_u32)
  show u: "unat (HEAP_BEGIN cfg + boot_pages s * PAGE_SIZE cfg) = watermark cfg s"
    using w E m by (subst unat_add_u32) (simp_all add: watermark_def)
  have e: "unat (VIRTUAL_MEMORY_BASE_ADDRESS cfg + PHYSICAL_MEMORY_LENGTH cfg) = memory_end cfg"
    using E by (intro unat_add_u32)
  show "unat ((VIRTUAL_MEMORY_BASE_ADDRESS cfg + PHYSICAL_MEMORY_LENGTH cfg) -
        (HEAP_BEGIN cfg + boot_pages s * PAGE_SIZE cfg)) = memory_end cfg - watermark cfg s"
    using w u e by (subst unat_sub_u32) (simp_all add: word_le_nat_alt)
  show "2 ^ j dvd watermark cfg s"
    using ok ps by (simp add: watermark_def board_ok_def)
qed

lemma get_boot_pages_again:
  assumes "get_boot_pages cfg pages GFP_KERNEL s = Inr (a, s')"
  shows "a = HEAP_BEGIN cfg + boot_pages s * PAGE_SIZE cfg"
  using get_boot_pages_Inr(1) [OF assms] .

lemma remaining_same_state:
  "get_boot_pages_remaining cfg s = Inr (len, s') \<Longrightarrow> s' = s \<and>
     len = (VIRTUAL_MEMORY_BASE_ADDRESS cfg + PHYSICAL_MEMORY_LENGTH cfg) -
        (HEAP_BEGIN cfg + boot_pages s * PAGE_SIZE cfg)"
  by (auto simp: get_boot_pages_remaining_def get_boot_pages_def heap_virtual_begin_def Let_def
      split: sum.splits if_splits)

lemma setup_ready_facts:
  assumes "setup_ready cfg j b s"
  shows "PAGE_SIZE cfg = 2 ^ j" "2 \<le> j" "j < 32" "2 ^ j dvd memory_end cfg" "memory_end cfg < 2 ^ 32"
    "0 < watermark cfg s" "watermark cfg s \<le> memory_end cfg" "fresh_buddies b"
    "memory_end cfg \<le> 2 ^ 32 - 2 ^ j" "2 * memory_end cfg < 2 ^ 32 + watermark cfg s"
proof -
  have ok: "board_ok cfg j" using assms by (simp add: setup_ready_def)
  then show r: "PAGE_SIZE cfg = 2 ^ j" "2 \<le> j" "j < 32" "2 ^ j dvd memory_end cfg" "memory_end cfg < 2 ^ 32"
    by (auto simp: board_ok_def)
  show "0 < watermark cfg s" using ok by (auto simp: board_ok_def watermark_def unat_gt_0)
  show "watermark cfg s \<le> memory_end cfg" "fresh_buddies b" "2 * memory_end cfg < 2 ^ 32 + watermark cfg s"
    using assms by (auto simp: setup_ready_def)
  show "memory_end cfg \<le> 2 ^ 32 - 2 ^ j" using r(4, 5, 3) by (rule dvd_below_2_32)
qed

text \<open>What a successful run of the set-up has computed on its way.\<close>

lemma page_setup_run:
  assumes ready: "setup_ready cfg j b s"
    and run: "get_free_page_setup cfg b s = Inr (err, b', s')" and N: "0 < pages_of b'"
  defines "L \<equiv> memory_end cfg - watermark cfg s"
  obtains N1 h1 and b3 :: buddies and w dp c1 w' sp c2 where
    "N1 = L div 2 ^ j" and "h1 = geometry_orders N1 31"
    and "8 * family_words N1 h1 < L"
    and "pages_of b' = (L - 8 * family_words N1 h1) div 2 ^ j" and "top_of b' = geometry_orders (pages_of b') 31"
    and "order_0_bits (dirty b3) = pages_of b'" and "order_0_bits (saturated b3) = pages_of b'"
    and "orders (dirty b3) = top_of b'" and "orders (saturated b3) = top_of b'"
    and "words b3 = w" and "\<And>i. 4 * i < 8 * family_words N1 h1 \<Longrightarrow> w i = 0"
    and "fold (dirty_step (dirty b3)) [0..<top_of b'] ([], top_of b', w) = (dp, c1, w')"
    and "fold (saturated_step (saturated b3)) [0..<top_of b'] ([], c1 + top_of b') = (sp, c2)"
    and "dirty b' = (dirty b3)\<lparr>data := dp\<rparr>" and "saturated b' = (saturated b3)\<lparr>data := sp\<rparr>"
    and "words b' = w'" and "total_pages_allocated b' = 0"
    and "heap_base b' = ALIGN_U (HEAP_BEGIN cfg + boot_pages s * PAGE_SIZE cfg + word_of_nat (4 * c2)) (2 ^ j)"
proof -
  note R = setup_ready_facts [OF ready]
  let ?len = "(VIRTUAL_MEMORY_BASE_ADDRESS cfg + PHYSICAL_MEMORY_LENGTH cfg) -
    (HEAP_BEGIN cfg + boot_pages s * PAGE_SIZE cfg)"
  have len: "unat ?len = L" unfolding L_def by (rule watermark_word(2) [OF ready])
  have run2: "buddy_alloc_data cfg b ?len (get_boot_pages cfg) GFP_KERNEL s = Inr (err, b', s')"
    using run remaining_same_state unfolding get_free_page_setup_def by (fastforce split: sum.splits)
  define b1 where "b1 = snd (configure_geometry cfg b ?len)"
  define total where "total = determine_buddy_data_size (dirty b1) + determine_buddy_data_size (saturated b1)"
  have eq0: "orders (dirty b) = orders (saturated b)" "orders (dirty b) = 0" "total_pages_allocated b = 0"
    using R(8) by (simp_all add: fresh_buddies_def)
  note g1 = configure_geometry_fresh [OF eq0(1), of cfg ?len, folded b1_def]
  obtain base b2 s1 where A: "buddy_data_alloc cfg b1 (word_of_nat total) (get_boot_pages cfg) GFP_KERNEL s = Inr (base, b2, s1)"
    and small: "total < unat ?len"
    using run2 unfolding buddy_alloc_data_def Let_def b1_def [symmetric] total_def [symmetric]
    by (auto split: sum.splits if_splits)
  define b3 where "b3 = snd (configure_geometry cfg b2 (?len - word_of_nat total))"
  obtain dp c1 w' where F: "fold (dirty_step (dirty b3)) [0..<orders (dirty b3)] ([], orders (dirty b3), words b3) = (dp, c1, w')"
    by (metis prod_cases3)
  obtain sp c2 where G: "fold (saturated_step (saturated b3)) [0..<orders (saturated b3)] ([], c1 + orders (saturated b3)) = (sp, c2)"
    by (metis surj_pair)
  let ?pages = "ALIGN_U (word_of_nat total) (PAGE_SIZE cfg) div PAGE_SIZE cfg"
  have base: "base = HEAP_BEGIN cfg + boot_pages s * PAGE_SIZE cfg"
    and b2: "b2 = b1\<lparr>words := (\<lambda>i. if WORD_T_BYTES * i < unat (?pages * PAGE_SIZE cfg) then 0 else words b1 i)\<rparr>"
    using A get_boot_pages_again by (auto simp: buddy_data_alloc_def Let_def split: sum.splits)
  have "base \<noteq> 0" using watermark_word(1) [OF ready] R(6) unfolding base by (metis unat_0 less_irrefl)
  then have b': "b' = b3\<lparr>dirty := (dirty b3)\<lparr>data := dp\<rparr>, saturated := (saturated b3)\<lparr>data := sp\<rparr>,
      words := w', heap_base := ALIGN_U (base + word_of_nat (WORD_T_BYTES * c2)) (PAGE_SIZE cfg)\<rparr>"
    using run2 small A F G unfolding buddy_alloc_data_def Let_def b1_def [symmetric] total_def [symmetric]
    by (simp add: b3_def [symmetric])
  have eq2: "orders (dirty b2) = orders (saturated b2)" using g1(3) b2 by simp
  note g3 = configure_geometry_fresh [OF eq2, of cfg "?len - word_of_nat total", folded b3_def]
  have ps: "unat (PAGE_SIZE cfg) = 2 ^ j" using R(1, 3) by simp
  have tot32: "total < 2 ^ 32" using small len R(5) unfolding L_def by linarith
  then have ut: "unat (word_of_nat total :: u32) = total" by (simp add: unat_of_nat)
  have N2: "pages_of b' = (L - total) div 2 ^ j"
    using g3(1) small ut ps len unfolding b' by (simp add: unat_div_u32 unat_sub_u32 word_le_nat_alt)
  have N1: "order_0_bits (dirty b1) = L div 2 ^ j" using g1(1) ps len by (simp add: unat_div_u32)
  have le: "pages_of b' \<le> L div 2 ^ j" unfolding N2 by (intro div_le_mono) simp
  have pos: "0 < geometry_orders M 31" if "0 < M" for M
    using geometry_orders_pos [OF that, of 30] by simp
  have h1: "orders (dirty b1) = geometry_orders (L div 2 ^ j) 31"
    using g1(4) pos [of "L div 2 ^ j"] N le N1 g1(1) by simp
  have h3: "orders (dirty b3) = geometry_orders (pages_of b') 31"
    using g3(4) pos [OF N] g3(1) unfolding b' by simp
  have total: "total = 8 * family_words (L div 2 ^ j) (geometry_orders (L div 2 ^ j) 31)"
    using N1 h1 g1(1-3) unfolding total_def buddy_data_size_words by simp
  have tL: "total \<le> 2 ^ 32 - 2 ^ j" using small len R(9) unfolding L_def by simp
  have "unat ?pages * unat (PAGE_SIZE cfg) = round_up j total"
    using unat_ALIGN_U_round [OF R(3)] tL ut round_up_dvd [of j total] ps unfolding R(1)
    by (simp add: unat_div_u32)
  moreover have "total \<le> memory_end cfg" using small len unfolding L_def by linarith
  then have "round_up j total < 2 ^ 32"
    using round_up_le [of total "memory_end cfg" j] R(4, 5) by linarith
  ultimately have zeroed: "unat (?pages * PAGE_SIZE cfg) = round_up j total"
    by (subst unat_mult_u32) simp_all
  have zero: "words b3 i = 0" if "4 * i < total" for i
    using that round_up_ge [of total j] zeroed unfolding g3(6) b2 by (simp add: WORD_T_BYTES_def)
  show thesis
  proof (rule that [of _ _ b3 "words b3" dp c1 w' sp c2, OF refl refl])
    show "8 * family_words (L div 2 ^ j) (geometry_orders (L div 2 ^ j) 31) < L"
      using small len total by simp
    show "pages_of b' = (L - 8 * family_words (L div 2 ^ j) (geometry_orders (L div 2 ^ j) 31)) div 2 ^ j"
      using N2 total by simp
    show "top_of b' = geometry_orders (pages_of b') 31" using h3 unfolding b' by simp
    show "order_0_bits (dirty b3) = pages_of b'" "order_0_bits (saturated b3) = pages_of b'"
      "orders (dirty b3) = top_of b'" "orders (saturated b3) = top_of b'"
      using g3(1-3) unfolding b' by simp_all
    show "words b3 = words b3" ..
    show "words b3 i = 0" if "4 * i < 8 * family_words (L div 2 ^ j) (geometry_orders (L div 2 ^ j) 31)" for i
      using zero that total by simp
    show "fold (dirty_step (dirty b3)) [0..<top_of b'] ([], top_of b', words b3) = (dp, c1, w')"
      using F unfolding b' by simp
    show "fold (saturated_step (saturated b3)) [0..<top_of b'] ([], c1 + top_of b') = (sp, c2)"
      using G g3(3) unfolding b' by simp
    show "dirty b' = (dirty b3)\<lparr>data := dp\<rparr>" "saturated b' = (saturated b3)\<lparr>data := sp\<rparr>" "words b' = w'"
      unfolding b' by simp_all
    show "total_pages_allocated b' = 0"
      using g3(5) g1(5) eq0(3) unfolding b' by (simp add: b2)
    show "heap_base b' = ALIGN_U (HEAP_BEGIN cfg + boot_pages s * PAGE_SIZE cfg + word_of_nat (4 * c2)) (2 ^ j)"
      unfolding b' base R(1) by (simp add: WORD_T_BYTES_def)
  qed
qed

lemma page_setup_facts:
  assumes ready: "setup_ready cfg j b s"
    and run: "get_free_page_setup cfg b s = Inr (err, b', s')"
    and N: "0 < pages_of b'" and spill: "no_spill (pages_of b') (top_of b')"
  shows "buddy_inv b' {} \<and> watermark cfg s < unat (heap_base b') \<and>
    unat (heap_base b') + pages_of b' * unat (PAGE_SIZE cfg) \<le> memory_end cfg \<and>
    unat (PAGE_SIZE cfg) dvd unat (heap_base b') \<and> 2 ^ (top_of b' - 1) \<le> pages_of b'"
proof -
  note R = setup_ready_facts [OF ready]
  let ?W = "watermark cfg s"
  define L where "L = memory_end cfg - ?W"
  obtain N1 h1 and b3 :: buddies and w dp c1 w' sp c2 where
    N1: "N1 = L div 2 ^ j" "h1 = geometry_orders N1 31" "8 * family_words N1 h1 < L"
    and N2: "pages_of b' = (L - 8 * family_words N1 h1) div 2 ^ j" "top_of b' = geometry_orders (pages_of b') 31"
    and b3: "order_0_bits (dirty b3) = pages_of b'" "orders (dirty b3) = top_of b'"
      "order_0_bits (saturated b3) = pages_of b'" "orders (saturated b3) = top_of b'"
    and w: "words b3 = w" "\<And>i. 4 * i < 8 * family_words N1 h1 \<Longrightarrow> w i = 0"
    and F: "fold (dirty_step (dirty b3)) [0..<top_of b'] ([], top_of b', w) = (dp, c1, w')"
    and G: "fold (saturated_step (saturated b3)) [0..<top_of b'] ([], c1 + top_of b') = (sp, c2)"
    and b': "dirty b' = (dirty b3)\<lparr>data := dp\<rparr>" "saturated b' = (saturated b3)\<lparr>data := sp\<rparr>"
      "words b' = w'" "total_pages_allocated b' = 0"
    and base: "heap_base b' = ALIGN_U (HEAP_BEGIN cfg + boot_pages s * PAGE_SIZE cfg + word_of_nat (4 * c2)) (2 ^ j)"
    by (rule page_setup_run [OF ready run N, folded L_def]) (rule that)
  have le: "pages_of b' \<le> N1" unfolding N1 N2(1) by (intro div_le_mono) simp
  have fam: "family_words (pages_of b') (top_of b') \<le> family_words N1 h1"
    unfolding N1(2) N2(2) by (intro family_words_mono geometry_orders_mono le)
  have L: "?W + L = memory_end cfg" using R(7) by (simp add: L_def)
  have pow: "(4::nat) \<le> 2 ^ j"
    using power_increasing [OF R(2), of "2::nat"] by simp
  have "pages_of b' * 2 ^ j \<le> L - 8 * family_words N1 h1"
    unfolding N2(1) by (rule div_times_less_eq_dividend)
  then have NL: "pages_of b' * 4 \<le> memory_end cfg"
    using pow L mult_le_mono2 [OF pow, of "pages_of b'"] by linarith
  have top: "0 < top_of b'" "top_of b' \<le> 31"
    using geometry_orders_pos [OF N, of 30] geometry_orders_le [of "pages_of b'" 31] N2(2) by simp_all
  have big: "pages_of b' < 2 ^ 32 - 1" using NL R(5) N by linarith
  have z: "w i = 0" if "i < 2 * family_words (pages_of b') (top_of b')" for i
    using that fam by (intro w(2)) linarith
  note built = built_tables_inv [OF b3(1-4) top big spill z F G b']
  have c2: "c2 = 2 * family_words (pages_of b') (top_of b')" using built(2) by simp
  let ?t = "8 * family_words N1 h1"
  have c2_le: "4 * c2 \<le> ?t" and c2_pos: "0 < c2" using fam top(1) unfolding c2 by (simp_all add: family_words_def)
  have c32: "?W + 4 * c2 < 2 ^ 32" using c2_le N1(3) L R(5) by linarith
  then have c2u: "unat (word_of_nat (4 * c2) :: u32) = 4 * c2"
    by (simp add: unat_of_nat del: of_nat_mult)
  have x: "unat (HEAP_BEGIN cfg + boot_pages s * PAGE_SIZE cfg + word_of_nat (4 * c2)) = ?W + 4 * c2"
    using watermark_word(1) [OF ready] c32 by (subst unat_add_u32) (simp_all only: c2u)
  have heap: "unat (heap_base b') = round_up j (?W + 4 * c2)"
    unfolding base x [symmetric] using x c2_le N1(3) L R(9) by (intro unat_ALIGN_U_round R(3)) linarith
  obtain q where q: "L = q * 2 ^ j"
    using dvd_diff_nat [OF R(4) watermark_word(3) [OF ready]] unfolding L_def by (metis dvd_div_mult_self)
  have "round_up j (?W + 4 * c2) \<le> ?W + round_up j ?t"
    using c2_le round_up_ge [of ?t j] watermark_word(3) [OF ready] round_up_dvd
    by (intro round_up_le) auto
  moreover have "round_up j ?t + pages_of b' * 2 ^ j \<le> L"
    unfolding N2(1) using round_up_rest [of ?t L j] N1(3) q by simp
  moreover have "2 ^ (top_of b' - 1) \<le> pages_of b'"
    using geometry_orders_top [of "pages_of b'" 31] top(1) N2(2) by simp
  ultimately show ?thesis
    using built(1) heap L R(1, 3) round_up_ge [of "?W + 4 * c2" j] c2_pos by (simp add: round_up_dvd)
qed


end
