(* ===== verification/Page_Provider.thy ===== *)
theory Page_Provider
  imports Page_Init
begin

text \<open>
  The contract of a memory allocator, \<open>region_provider\<close>, which the slab allocator, the FIFOs and
  the kernel stacks rely on; its consequences for any run of requests; and the proof that
  \<open>page2.c\<close> keeps it, over addresses and bytes.
\<close>

section \<open>The contract\<close>

text \<open>
  A request is a number of units of \<open>page\<close> bytes and some flags, and \<open>fine\<close> says for which numbers the
  provider keeps its promise.
\<close>

type_synonym region = "u32 \<times> nat"

definition region_bytes :: "region \<Rightarrow> nat set" where
  "region_bytes r = {unat (fst r) ..< unat (fst r) + snd r}"

locale region_provider =
  fixes get :: "u32 \<Rightarrow> u32 \<Rightarrow> 's \<Rightarrow> u32 \<times> 's"
    and free :: "u32 \<Rightarrow> 's \<Rightarrow> 's"
    and inv :: "'s \<Rightarrow> region set \<Rightarrow> bool"
    and page :: nat
    and fine :: "u32 \<Rightarrow> bool"
  assumes get_some: "inv s R \<Longrightarrow> fine n \<Longrightarrow> get n fl s = (p, s') \<Longrightarrow> p \<noteq> 0 \<Longrightarrow>
      \<exists>len. 0 < len \<and> unat n * page \<le> len \<and> (\<forall>r \<in> R. region_bytes r \<inter> region_bytes (p, len) = {}) \<and>
        inv s' (insert (p, len) R)"
    and get_none: "inv s R \<Longrightarrow> get n fl s = (0, s') \<Longrightarrow> inv s' R"
    and free_region: "inv s R \<Longrightarrow> (p, len) \<in> R \<Longrightarrow> inv (free p s) (R - {(p, len)})"
    and free_null: "inv s R \<Longrightarrow> inv (free 0 s) R"

text \<open>
  A run of a client: it asks for pages, and gives back what it got. The ghost component is the
  set of outstanding requests, an address with the number of pages asked for.
\<close>

inductive client_run ::
  "(u32 \<Rightarrow> bool) \<Rightarrow> (u32 \<Rightarrow> u32 \<Rightarrow> 's \<Rightarrow> u32 \<times> 's) \<Rightarrow> (u32 \<Rightarrow> 's \<Rightarrow> 's) \<Rightarrow> 's \<Rightarrow> 's \<Rightarrow> (u32 \<times> u32) set \<Rightarrow> bool"
  for fine get free s0 where
  client_start: "client_run fine get free s0 s0 {}"
| client_got: "client_run fine get free s0 s R \<Longrightarrow> fine n \<Longrightarrow> get n fl s = (p, s') \<Longrightarrow> p \<noteq> 0 \<Longrightarrow>
    client_run fine get free s0 s' (insert (p, n) R)"
| client_failed: "client_run fine get free s0 s R \<Longrightarrow> get n fl s = (0, s') \<Longrightarrow> client_run fine get free s0 s' R"
| client_freed: "client_run fine get free s0 s R \<Longrightarrow> (p, n) \<in> R \<Longrightarrow>
    client_run fine get free s0 (free p s) (R - {(p, n)})"
| client_freed_null: "client_run fine get free s0 s R \<Longrightarrow> client_run fine get free s0 (free 0 s) R"

text \<open>Every outstanding request sits at the start of a region of its own, and no region is left over.\<close>

definition covered :: "nat \<Rightarrow> (u32 \<times> u32) set \<Rightarrow> region set \<Rightarrow> bool" where
  "covered page R Q \<longleftrightarrow>
     (\<forall>p n. (p, n) \<in> R \<longrightarrow> (\<exists>len. 0 < len \<and> unat n * page \<le> len \<and> (p, len) \<in> Q)) \<and>
     (\<forall>p n m. (p, n) \<in> R \<longrightarrow> (p, m) \<in> R \<longrightarrow> n = m) \<and>
     (\<forall>r r'. r \<in> Q \<longrightarrow> r' \<in> Q \<longrightarrow> r \<noteq> r' \<longrightarrow> region_bytes r \<inter> region_bytes r' = {}) \<and>
     (\<forall>p len. (p, len) \<in> Q \<longrightarrow> 0 < len \<and> (\<exists>n. (p, n) \<in> R))"

lemma coveredD:
  assumes "covered page R Q"
  shows "(p, n) \<in> R \<Longrightarrow> \<exists>len. 0 < len \<and> unat n * page \<le> len \<and> (p, len) \<in> Q"
    and "(p, n) \<in> R \<Longrightarrow> (p, m) \<in> R \<Longrightarrow> n = m"
    and "r \<in> Q \<Longrightarrow> r' \<in> Q \<Longrightarrow> r \<noteq> r' \<Longrightarrow> region_bytes r \<inter> region_bytes r' = {}"
    and "(p, len) \<in> Q \<Longrightarrow> 0 < len \<and> (\<exists>n. (p, n) \<in> R)"
  using assms by (simp_all only: covered_def) blast+

lemma coveredI:
  assumes "\<And>p n. (p, n) \<in> R \<Longrightarrow> \<exists>len. 0 < len \<and> unat n * page \<le> len \<and> (p, len) \<in> Q"
    and "\<And>p n m. (p, n) \<in> R \<Longrightarrow> (p, m) \<in> R \<Longrightarrow> n = m"
    and "\<And>r r'. r \<in> Q \<Longrightarrow> r' \<in> Q \<Longrightarrow> r \<noteq> r' \<Longrightarrow> region_bytes r \<inter> region_bytes r' = {}"
    and "\<And>p len. (p, len) \<in> Q \<Longrightarrow> 0 < len \<and> (\<exists>n. (p, n) \<in> R)"
  shows "covered page R Q"
  unfolding covered_def by (intro conjI allI impI; (rule assms; assumption)?) (use assms(4) in blast)+

lemma region_start: "0 < len \<Longrightarrow> unat p \<in> region_bytes (p, len)"
  by (simp add: region_bytes_def)

lemma covered_insert:
  assumes c: "covered page R Q" and len: "0 < len" "unat n * page \<le> len"
    and apart: "\<forall>r \<in> Q. region_bytes r \<inter> region_bytes (p, len) = {}"
  shows "covered page (insert (p, n) R) (insert (p, len) Q)"
proof -
  have new: "(p, m) \<notin> R" for m
  proof
    assume "(p, m) \<in> R"
    then obtain l where "0 < l" "(p, l) \<in> Q" using coveredD(1) [OF c] by blast
    with apart len(1) region_start [of l p] region_start [of len p] show False by blast
  qed
  have "\<exists>l. 0 < l \<and> unat m * page \<le> l \<and> (q, l) \<in> insert (p, len) Q" if "(q, m) \<in> insert (p, n) R" for q m
    using that len coveredD(1) [OF c, of q m] by auto
  moreover have "m = m'" if "(q, m) \<in> insert (p, n) R" "(q, m') \<in> insert (p, n) R" for q m m'
    using that new coveredD(2) [OF c, of q m m'] by auto
  moreover have "region_bytes r \<inter> region_bytes r' = {}"
    if "r \<in> insert (p, len) Q" "r' \<in> insert (p, len) Q" "r \<noteq> r'" for r r'
    using that apart coveredD(3) [OF c, of r r'] by (auto simp: Int_commute)
  moreover have "0 < l \<and> (\<exists>m. (q, m) \<in> insert (p, n) R)" if "(q, l) \<in> insert (p, len) Q" for q l
    using that len(1) coveredD(4) [OF c, of q l] by auto
  ultimately show ?thesis by (rule coveredI)
qed

lemma covered_remove:
  assumes c: "covered page R Q" and pn: "(p, n) \<in> R" and len: "0 < len" "(p, len) \<in> Q"
  shows "covered page (R - {(p, n)}) (Q - {(p, len)})"
proof -
  have other: "q \<noteq> p" if "(q, m) \<in> R - {(p, n)}" for q m
    using that coveredD(2) [OF c pn, of m] by auto
  have mine: "q \<noteq> p" if "(q, l) \<in> Q - {(p, len)}" for q l
  proof
    assume q: "q = p"
    with that have "region_bytes (p, l) \<inter> region_bytes (p, len) = {}"
      using coveredD(3) [OF c, of "(p, l)" "(p, len)"] len(2) by auto
    moreover have "0 < l" using that coveredD(4) [OF c, of q l] by auto
    ultimately show False using region_start [of l p] region_start [OF len(1), of p] by blast
  qed
  have "\<exists>l. 0 < l \<and> unat m * page \<le> l \<and> (q, l) \<in> Q - {(p, len)}" if "(q, m) \<in> R - {(p, n)}" for q m
    using that other [OF that] coveredD(1) [OF c, of q m] by auto
  moreover have "m = m'" if "(q, m) \<in> R - {(p, n)}" "(q, m') \<in> R - {(p, n)}" for q m m'
    using that coveredD(2) [OF c, of q m m'] by auto
  moreover have "region_bytes r \<inter> region_bytes r' = {}"
    if "r \<in> Q - {(p, len)}" "r' \<in> Q - {(p, len)}" "r \<noteq> r'" for r r'
    using that coveredD(3) [OF c, of r r'] by auto
  moreover have "0 < l \<and> (\<exists>m. (q, m) \<in> R - {(p, n)})" if "(q, l) \<in> Q - {(p, len)}" for q l
    using that mine [OF that] coveredD(4) [OF c, of q l] by auto
  ultimately show ?thesis by (rule coveredI)
qed

lemma covered_disjoint:
  assumes c: "covered page R Q" and "(p, n) \<in> R" and "(q, m) \<in> R" and "(p, n) \<noteq> (q, m)"
  shows "region_bytes (p, unat n * page) \<inter> region_bytes (q, unat m * page) = {}"
proof -
  obtain l k where l: "unat n * page \<le> l" "(p, l) \<in> Q" and k: "unat m * page \<le> k" "(q, k) \<in> Q"
    using coveredD(1) [OF c] assms(2, 3) by blast
  have "p \<noteq> q" using coveredD(2) [OF c assms(2)] assms(3, 4) by blast
  then have "region_bytes (p, l) \<inter> region_bytes (q, k) = {}" using coveredD(3) [OF c l(2) k(2)] by blast
  with l(1) k(1) show ?thesis by (fastforce simp: region_bytes_def)
qed

lemma covered_empty: "covered page {} Q \<longleftrightarrow> Q = {}"
  by (auto simp: covered_def)

text \<open>The regions behind a run are apart from those that were there before it.\<close>

definition apart :: "region set \<Rightarrow> region set \<Rightarrow> bool" where
  "apart R Q \<longleftrightarrow> (\<forall>r \<in> R. \<forall>q \<in> Q. region_bytes r \<inter> region_bytes q = {})"

lemma apart_simps [simp]: "apart R {}" "apart {} Q"
  by (simp_all add: apart_def)

lemma apart_insert [simp]:
  "apart R (insert q Q) \<longleftrightarrow> (\<forall>r \<in> R. region_bytes r \<inter> region_bytes q = {}) \<and> apart R Q"
  unfolding apart_def by blast

lemma apart_minus: "apart R Q \<Longrightarrow> apart R (Q - X)"
  unfolding apart_def by blast

lemma apart_remove: "apart R Q \<Longrightarrow> (p, len) \<in> Q \<Longrightarrow> 0 < len \<Longrightarrow> (R \<union> Q) - {(p, len)} = R \<union> (Q - {(p, len)})"
  using region_start [of len p] unfolding apart_def by blast

text \<open>A client owns the requests \<open>R\<close>: beside the regions \<open>R0\<close> of others, those behind \<open>R\<close> are all there are.\<close>

definition owns :: "('s \<Rightarrow> region set \<Rightarrow> bool) \<Rightarrow> nat \<Rightarrow> region set \<Rightarrow> 's \<Rightarrow> (u32 \<times> u32) set \<Rightarrow> bool" where
  "owns Iv page R0 s R \<longleftrightarrow> (\<exists>Q. Iv s (R0 \<union> Q) \<and> covered page R Q \<and> apart R0 Q)"

lemma ownsI: "Iv s (R0 \<union> Q) \<Longrightarrow> covered page R Q \<Longrightarrow> apart R0 Q \<Longrightarrow> owns Iv page R0 s R"
  unfolding owns_def by blast

lemma ownsE:
  assumes "owns Iv page R0 s R"
  obtains Q where "Iv s (R0 \<union> Q)" and "covered page R Q" and "apart R0 Q"
  using assms unfolding owns_def by blast

lemma owns_disjoint:
  assumes "owns Iv page R0 s R" and "(p, n) \<in> R" and "(q, m) \<in> R" and "(p, n) \<noteq> (q, m)"
  shows "region_bytes (p, unat n * page) \<inter> region_bytes (q, unat m * page) = {}"
  using assms covered_disjoint by (blast elim: ownsE)

context region_provider
begin

lemma owns_start: "inv s R0 \<Longrightarrow> owns inv page R0 s {}"
  by (rule ownsI [where Q = "{}"]) (simp_all add: covered_def)

lemma owns_got:
  assumes "owns inv page R0 s R" and "fine n" and "get n fl s = (p, s')" and "p \<noteq> 0"
  shows "owns inv page R0 s' (insert (p, n) R)" and "(p, m) \<notin> R"
proof -
  obtain Q where Q: "inv s (R0 \<union> Q)" "covered page R Q" "apart R0 Q" using assms(1) by (rule ownsE)
  from get_some [OF Q(1) assms(2-4)] obtain len where len: "0 < len" "unat n * page \<le> len"
    "\<forall>r \<in> R0 \<union> Q. region_bytes r \<inter> region_bytes (p, len) = {}" "inv s' (insert (p, len) (R0 \<union> Q))"
    by blast
  show "owns inv page R0 s' (insert (p, n) R)"
  proof (rule ownsI)
    show "covered page (insert (p, n) R) (insert (p, len) Q)" using covered_insert [OF Q(2) len(1, 2)] len(3) by blast
    show "apart R0 (insert (p, len) Q)" using len(3) Q(3) by simp
    show "inv s' (R0 \<union> insert (p, len) Q)" using len(4) by simp
  qed
  show "(p, m) \<notin> R"
  proof
    assume "(p, m) \<in> R"
    then obtain l where l: "0 < l" "(p, l) \<in> Q" using coveredD(1) [OF Q(2)] by blast
    then have "region_bytes (p, l) \<inter> region_bytes (p, len) = {}" using len(3) by blast
    with region_start [of l p] region_start [of len p] l(1) len(1) show False by blast
  qed
qed

lemma owns_failed: "owns inv page R0 s R \<Longrightarrow> get n fl s = (0, s') \<Longrightarrow> owns inv page R0 s' R"
  by (erule ownsE, rule ownsI) (blast intro: get_none)+

lemma owns_freed:
  assumes "owns inv page R0 s R" and "(p, n) \<in> R"
  shows "owns inv page R0 (free p s) (R - {(p, n)})"
proof -
  obtain Q where Q: "inv s (R0 \<union> Q)" "covered page R Q" "apart R0 Q" using assms(1) by (rule ownsE)
  then obtain len where len: "0 < len" "(p, len) \<in> Q" using coveredD(1) assms(2) by blast
  have "inv (free p s) (R0 \<union> (Q - {(p, len)}))"
    using free_region [OF Q(1)] len(2) apart_remove [OF Q(3) len(2, 1)] by (metis UnI2)
  then show ?thesis using covered_remove [OF Q(2) assms(2) len] apart_minus [OF Q(3)] by (rule ownsI)
qed

lemma owns_null: "owns inv page R0 s R \<Longrightarrow> owns inv page R0 (free 0 s) R"
  by (erule ownsE, rule ownsI) (blast intro: free_null)+

lemma owns_given_back: "owns inv page R0 s {} \<Longrightarrow> inv s R0"
  by (auto simp: covered_empty elim!: ownsE)

lemma run_owns:
  assumes "client_run fine get free s0 s R" and "inv s0 R0"
  shows "owns inv page R0 s R"
  using assms
  by (induction rule: client_run.induct)
    (blast intro: owns_start owns_got(1) owns_failed owns_freed owns_null)+

lemma run_covered:
  assumes "client_run fine get free s0 s R" and "inv s0 R0"
  shows "\<exists>Q. inv s (R0 \<union> Q) \<and> covered page R Q \<and> apart R0 Q"
  using run_owns [OF assms] unfolding owns_def .

lemma run_disjoint:
  assumes "client_run fine get free s0 s R" and "inv s0 R0"
    and "(p, n) \<in> R" and "(q, m) \<in> R" and "(p, n) \<noteq> (q, m)"
  shows "region_bytes (p, unat n * page) \<inter> region_bytes (q, unat m * page) = {}"
  using owns_disjoint [OF run_owns [OF assms(1, 2)] assms(3-5)] .

text \<open>A run that has given everything back leaves the provider as it found it.\<close>

lemma run_balanced:
  assumes "client_run fine get free s0 s {}" and "inv s0 R0"
  shows "inv s R0"
  using owns_given_back [OF run_owns [OF assms]] .

end

section \<open>The contract of page2.c\<close>

definition pages_inv :: "board \<Rightarrow> pages \<Rightarrow> block set \<Rightarrow> bool" where
  "pages_inv cfg s live \<longleftrightarrow> buddy_inv (buddies_of s) live \<and> 0 < unat (PAGE_SIZE cfg) \<and>
     0 < unat (heap_base (buddies_of s)) \<and>
     unat (PAGE_SIZE cfg) dvd unat (heap_base (buddies_of s)) \<and>
     2 ^ (top_of (buddies_of s) - 1) \<le> pages_of (buddies_of s) \<and>
     unat (heap_base (buddies_of s)) + 2 * pages_of (buddies_of s) * unat (PAGE_SIZE cfg) < 2 ^ 32"

definition block_addr :: "board \<Rightarrow> pages \<Rightarrow> block \<Rightarrow> u32" where
  "block_addr cfg s bl = word_of_nat (snd bl * 2 ^ fst bl) * PAGE_SIZE cfg + heap_base (buddies_of s)"

definition block_region :: "board \<Rightarrow> pages \<Rightarrow> block \<Rightarrow> region" where
  "block_region cfg s bl = (block_addr cfg s bl, 2 ^ fst bl * unat (PAGE_SIZE cfg))"

lemma page_number_word:
  assumes "pages_inv cfg s live" and "pn < pages_of (buddies_of s)"
  shows "unat (word_of_nat pn * PAGE_SIZE cfg + heap_base (buddies_of s)) =
      pn * unat (PAGE_SIZE cfg) + unat (heap_base (buddies_of s))"
    and "unat ((word_of_nat pn * PAGE_SIZE cfg + heap_base (buddies_of s) - heap_base (buddies_of s))
      div PAGE_SIZE cfg) = pn"
proof -
  let ?ps = "unat (PAGE_SIZE cfg)" and ?b = "buddies_of s"
  have I: "0 < ?ps" "unat (heap_base ?b) + pages_of ?b * ?ps < 2 ^ 32" "pages_of ?b < 2 ^ 32 - 1"
    using assms(1) by (simp_all add: pages_inv_def buddy_inv_def)
  have pn: "unat (word_of_nat pn :: u32) = pn"
    using assms(2) I(3) by (simp add: unat_of_nat)
  have "pn * ?ps \<le> pages_of ?b * ?ps" using assms(2) by simp
  then have b: "unat (heap_base ?b) + pn * ?ps < 2 ^ 32" using I(2) by linarith
  have m: "unat (word_of_nat pn * PAGE_SIZE cfg) = pn * ?ps"
    using b pn by (subst unat_mult_u32) auto
  show "unat (word_of_nat pn * PAGE_SIZE cfg + heap_base ?b) = pn * ?ps + unat (heap_base ?b)"
    using b m by (subst unat_add_u32) (simp_all add: add.commute)
  show "unat ((word_of_nat pn * PAGE_SIZE cfg + heap_base ?b - heap_base ?b) div PAGE_SIZE cfg) = pn"
    using m I(1) by (simp add: unat_div_u32)
qed

lemma block_addr_unat:
  assumes "pages_inv cfg s live" and "n * 2 ^ k < pages_of (buddies_of s)"
  shows "unat (block_addr cfg s (k, n)) =
    n * 2 ^ k * unat (PAGE_SIZE cfg) + unat (heap_base (buddies_of s))"
  unfolding block_addr_def fst_conv snd_conv by (rule page_number_word(1) [OF assms])

lemma region_pages:
  assumes inv: "pages_inv cfg s live" and "n * 2 ^ k < pages_of (buddies_of s)"
  shows "x \<in> region_bytes (block_region cfg s (k, n)) \<longleftrightarrow>
    unat (heap_base (buddies_of s)) \<le> x \<and>
    (x - unat (heap_base (buddies_of s))) div unat (PAGE_SIZE cfg) \<in> block_pages (k, n)"
proof -
  let ?h = "unat (heap_base (buddies_of s))" and ?ps = "unat (PAGE_SIZE cfg)"
  have ps: "0 < ?ps" using inv by (simp add: pages_inv_def)
  have "x \<in> region_bytes (block_region cfg s (k, n)) \<longleftrightarrow>
    n * 2 ^ k * ?ps + ?h \<le> x \<and> x < n * 2 ^ k * ?ps + ?h + 2 ^ k * ?ps"
    by (simp add: region_bytes_def block_region_def block_addr_unat [OF assms])
  also have "\<dots> \<longleftrightarrow> ?h \<le> x \<and> n * 2 ^ k * ?ps \<le> x - ?h \<and> x - ?h < (n + 1) * 2 ^ k * ?ps"
    by (auto simp: algebra_simps)
  also have "\<dots> \<longleftrightarrow> ?h \<le> x \<and> n * 2 ^ k \<le> (x - ?h) div ?ps \<and> (x - ?h) div ?ps < (n + 1) * 2 ^ k"
    using ps by (simp add: less_eq_div_iff_mult_less_eq div_less_iff_less_mult)
  finally show ?thesis by (simp add: block_pages_def)
qed

lemma regions_disjoint:
  assumes inv: "pages_inv cfg s live" and "n * 2 ^ k < pages_of (buddies_of s)"
    and "m * 2 ^ j < pages_of (buddies_of s)" and "block_pages (k, n) \<inter> block_pages (j, m) = {}"
  shows "region_bytes (block_region cfg s (k, n)) \<inter> region_bytes (block_region cfg s (j, m)) = {}"
  using assms(4) region_pages [OF inv assms(2)] region_pages [OF inv assms(3)] by auto

lemma pages_inv_range:
  "pages_inv cfg s live \<Longrightarrow> (k, n) \<in> live \<Longrightarrow> n * 2 ^ k < pages_of (buddies_of s)"
  by (auto simp: pages_inv_def buddy_inv_def)

lemma get_free_pages_None:
  "get_free_pages_pn pages b = (None, b') \<Longrightarrow> b' = b"
  by (auto simp: get_free_pages_pn_def Let_def split: option.splits)

text \<open>The address is null exactly when the search found nothing.\<close>

lemma get_free_pages_cases:
  assumes inv: "pages_inv cfg s live" and got: "get_free_pages cfg pages flags s = (p, s')"
  obtains (failed) "p = 0" and "s' = s" and "get_free_pages_pn pages (buddies_of s) = (None, buddies_of s)"
  | (found) n where "p \<noteq> 0" and "p = block_addr cfg s (pages_order pages, n)"
    and "fresh live (pages_order pages) n" and "pages_order pages < top_of (buddies_of s)"
    and "n * 2 ^ pages_order pages < pages_of (buddies_of s)"
    and "pages_inv cfg s' (insert (pages_order pages, n) live)"
    and "\<And>bl. block_region cfg s' bl = block_region cfg s bl"
    and "\<And>x. pages_mem s' x = (if flags AND GFP_ZERO \<noteq> 0 \<and> off p x < unat (pages * PAGE_SIZE cfg)
      then 0 else pages_mem s x)"
proof (cases "get_free_pages_pn pages (buddies_of s)")
  case (Pair r b)
  have I: "buddy_inv (buddies_of s) live" using inv by (simp add: pages_inv_def)
  show thesis
  proof (cases r)
    case None
    then show thesis using failed got Pair get_free_pages_None by (auto simp: get_free_pages_def)
  next
    case (Some pn)
    then have Pair': "get_free_pages_pn pages (buddies_of s) = (Some pn, b)" using Pair by simp
    obtain n where n: "pn = n * 2 ^ pages_order pages" "pages_order pages < top_of (buddies_of s)"
      "n * 2 ^ pages_order pages < pages_of (buddies_of s)" "fresh live (pages_order pages) n"
      "buddy_inv b (insert (pages_order pages, n) live)" "heap_base b = heap_base (buddies_of s)"
      "pages_of b = pages_of (buddies_of s)" "top_of b = top_of (buddies_of s)"
      by (rule get_free_pages_pn_ok [OF I Pair']) (rule that)
    have p: "p = block_addr cfg s (pages_order pages, n)" and b: "buddies_of s' = b"
      using got Pair' n(1, 6) by (auto simp: get_free_pages_def block_addr_def Let_def)
    have "unat p \<noteq> 0" using block_addr_unat [OF inv n(3)] inv p by (simp add: pages_inv_def)
    then have "p \<noteq> 0" by auto
    moreover have "pages_mem s' x = (if flags AND GFP_ZERO \<noteq> 0 \<and> off p x < unat (pages * PAGE_SIZE cfg)
      then 0 else pages_mem s x)" for x
      using got Pair' by (auto simp: get_free_pages_def Let_def memset_at)
    ultimately show thesis
      using found [OF _ p n(4, 2, 3)] inv n b by (simp add: pages_inv_def block_region_def block_addr_def)
  qed
qed

definition page_regions :: "board \<Rightarrow> pages \<Rightarrow> region set \<Rightarrow> bool" where
  "page_regions cfg s R \<longleftrightarrow> (\<exists>live. pages_inv cfg s live \<and> R = block_region cfg s ` live)"

lemma free_pages2_ok:
  assumes inv: "pages_inv cfg s live" and bl: "(k, n) \<in> live"
  shows "pages_inv cfg (free_pages2 cfg (block_addr cfg s (k, n)) s) (live - {(k, n)})"
    and "block_region cfg (free_pages2 cfg (block_addr cfg s (k, n)) s) x = block_region cfg s x"
proof -
  let ?b = "buddies_of s" and ?p = "block_addr cfg s (k, n)"
  have r: "n * 2 ^ k < pages_of ?b" using pages_inv_range [OF inv bl] .
  have I: "buddy_inv ?b live" using inv by (simp add: pages_inv_def)
  have "unat ?p \<noteq> 0" using block_addr_unat [OF inv r] inv by (simp add: pages_inv_def)
  then have "?p \<noteq> 0" by auto
  then have f: "free_pages2 cfg ?p s = s\<lparr>buddies_of := free_pages2_pn (n * 2 ^ k) ?b\<rparr>"
    using page_number_word(2) [OF inv r] by (simp add: free_pages2_def block_addr_def)
  show "pages_inv cfg (free_pages2 cfg ?p s) (live - {(k, n)})"
    using remove_live(2-5) [OF I bl] inv unfolding f by (simp add: pages_inv_def)
  show "block_region cfg (free_pages2 cfg ?p s) x = block_region cfg s x"
    using remove_live(3) [OF I bl] unfolding f by (simp add: block_region_def block_addr_def)
qed

interpretation pg: region_provider "get_free_pages cfg" "free_pages2 cfg"
  "page_regions cfg" "unat (PAGE_SIZE cfg)" "\<lambda>_. True"
  for cfg
proof
  fix s R n fl p s' assume R: "page_regions cfg s R" and "True" and got: "get_free_pages cfg n fl s = (p, s')" and p: "p \<noteq> 0"
  then obtain live where inv: "pages_inv cfg s live" and live: "R = block_region cfg s ` live"
    by (auto simp: page_regions_def)
  let ?k = "pages_order n"
  from inv got show "\<exists>len. 0 < len \<and> unat n * unat (PAGE_SIZE cfg) \<le> len \<and>
      (\<forall>r \<in> R. region_bytes r \<inter> region_bytes (p, len) = {}) \<and> page_regions cfg s' (insert (p, len) R)"
  proof (cases rule: get_free_pages_cases)
    case (found m)
    let ?len = "2 ^ ?k * unat (PAGE_SIZE cfg)"
    have "top_of (buddies_of s) \<le> 31" and ps: "0 < unat (PAGE_SIZE cfg)"
      using inv by (auto simp: pages_inv_def buddy_inv_def)
    then have k: "?k < 32" using found(4) by simp
    then have "unat n \<le> 2 ^ ?k" using pages_order_fits [OF k] by (simp add: word_le_nat_alt)
    then have "unat n * unat (PAGE_SIZE cfg) \<le> ?len" by simp
    moreover have "region_bytes r \<inter> region_bytes (p, ?len) = {}" if "r \<in> R" for r
    proof -
      obtain i l where bl: "(i, l) \<in> live" "r = block_region cfg s (i, l)"
        using \<open>r \<in> R\<close> unfolding live by (metis imageE surj_pair)
      have "block_pages (?k, m) \<inter> block_pages (i, l) = {}" using fresh_disjoint [OF found(3) bl(1)] .
      then have "region_bytes (block_region cfg s (?k, m)) \<inter> region_bytes r = {}"
        unfolding bl(2) by (rule regions_disjoint [OF inv found(5) pages_inv_range [OF inv bl(1)]])
      then show ?thesis using found(2) by (simp add: block_region_def Int_commute)
    qed
    moreover have "page_regions cfg s' (insert (p, ?len) R)"
      unfolding page_regions_def live using found(2, 6, 7)
      by (intro exI [of _ "insert (?k, m) live"]) (auto simp: block_region_def image_iff)
    ultimately show ?thesis using ps by (intro exI [of _ ?len]) simp
  qed (use p in simp)
next
  fix s R n fl s' assume R: "page_regions cfg s R" and got: "get_free_pages cfg n fl s = (0, s')"
  then obtain live where inv: "pages_inv cfg s live" and live: "R = block_region cfg s ` live"
    by (auto simp: page_regions_def)
  from inv got show "page_regions cfg s' R"
    by (cases rule: get_free_pages_cases) (use R in auto)
next
  fix s R p len assume "page_regions cfg s R" and "(p, len) \<in> R"
  then obtain live k n where inv: "pages_inv cfg s live" and live: "R = block_region cfg s ` live"
    and bl: "(k, n) \<in> live" "(p, len) = block_region cfg s (k, n)"
    by (auto simp: page_regions_def)
  have p: "p = block_addr cfg s (k, n)" using bl(2) by (simp add: block_region_def)
  have inj: "bl = (k, n)" if "bl \<in> live" "block_region cfg s bl = block_region cfg s (k, n)" for bl
  proof (rule ccontr)
    assume ne: "bl \<noteq> (k, n)"
    obtain i l where il: "bl = (i, l)" by (metis surj_pair)
    have "unnested live" and ps: "0 < unat (PAGE_SIZE cfg)" using inv by (auto simp: pages_inv_def buddy_inv_def)
    then have "block_pages (i, l) \<inter> block_pages (k, n) = {}" using unnested_disjoint that(1) bl(1) ne il by blast
    then have "region_bytes (block_region cfg s bl) \<inter> region_bytes (block_region cfg s (k, n)) = {}"
      using regions_disjoint [OF inv pages_inv_range [OF inv] pages_inv_range [OF inv bl(1)]] that(1) il by blast
    then show False using that(2) ps region_start [of "2 ^ k * unat (PAGE_SIZE cfg)" p]
      by (simp add: block_region_def p)
  qed
  then have "R - {(p, len)} = block_region cfg s ` (live - {(k, n)})"
    unfolding live bl(2) by auto
  with free_pages2_ok [OF inv bl(1)] show "page_regions cfg (free_pages2 cfg p s) (R - {(p, len)})"
    unfolding page_regions_def p by (auto intro!: exI [of _ "live - {(k, n)}"])
next
  fix s R assume "page_regions cfg s R"
  then show "page_regions cfg (free_pages2 cfg 0 s) R" by (simp add: free_pages2_def)
qed

text \<open>
  What the slab allocator needs besides: whole pages, below the end of the address space; and that
  clearing memory leaves the provider's books alone.
\<close>

locale aligned_provider = region_provider get free inv page fine
  for get :: "u32 \<Rightarrow> u32 \<Rightarrow> 's \<Rightarrow> u32 \<times> 's" and free inv page fine +
  assumes aligned: "inv s R \<Longrightarrow> (p, len) \<in> R \<Longrightarrow> page dvd unat p"
    and in_range: "inv s R \<Longrightarrow> (p, len) \<in> R \<Longrightarrow> unat p + len < 2 ^ 32"
    and not_null: "inv s R \<Longrightarrow> (p, len) \<in> R \<Longrightarrow> p \<noteq> 0"

lemma page_region_facts:
  assumes R: "page_regions cfg s R" and p: "(p, len) \<in> R"
  shows "unat (PAGE_SIZE cfg) dvd unat p" and "unat p + len < 2 ^ 32" and "p \<noteq> 0"
proof -
  let ?ps = "unat (PAGE_SIZE cfg)" and ?h = "unat (heap_base (buddies_of s))" and ?N = "pages_of (buddies_of s)"
  obtain live k n where inv: "pages_inv cfg s live" and bl: "(k, n) \<in> live" "(p, len) = block_region cfg s (k, n)"
    using assms by (auto simp: page_regions_def)
  note r = pages_inv_range [OF inv bl(1)]
  have I: "?ps dvd ?h" "?h + 2 * ?N * ?ps < 2 ^ 32" "0 < ?h" "2 ^ (top_of (buddies_of s) - 1) \<le> ?N" "k < top_of (buddies_of s)"
    using inv bl(1) by (auto simp: pages_inv_def buddy_inv_def)
  have p: "unat p = n * 2 ^ k * ?ps + ?h" and len: "len = 2 ^ k * ?ps"
    using bl(2) block_addr_unat [OF inv r] by (simp_all add: block_region_def)
  show "?ps dvd unat p" using I(1) p by simp
  show "p \<noteq> 0" using p I(3) by auto
  have "(2::nat) ^ k \<le> 2 ^ (top_of (buddies_of s) - 1)"
    by (rule power_increasing) (use I(5) in simp_all)
  then have "2 ^ k \<le> ?N" using I(4) by linarith
  then have "n * 2 ^ k + 2 ^ k \<le> 2 * ?N" using r by linarith
  then have "(n * 2 ^ k + 2 ^ k) * ?ps \<le> 2 * ?N * ?ps" by (rule mult_le_mono1)
  then show "unat p + len < 2 ^ 32" using I(2) p len by (simp add: algebra_simps)
qed

interpretation apg: aligned_provider "get_free_pages cfg" "free_pages2 cfg"
  "page_regions cfg" "unat (PAGE_SIZE cfg)" "\<lambda>_. True"
  for cfg
proof
  fix s R p len assume R: "page_regions cfg s R" and p: "(p, len) \<in> R"
  show "unat (PAGE_SIZE cfg) dvd unat p" using R p by (rule page_region_facts(1))
  show "unat p + len < 2 ^ 32" using R p by (rule page_region_facts(2))
  show "p \<noteq> 0" using R p by (rule page_region_facts(3))
qed

locale clearing_provider = aligned_provider get free inv page fine
  for get :: "u32 \<Rightarrow> u32 \<Rightarrow> 's \<Rightarrow> u32 \<times> 's" and free inv page fine +
  fixes clear :: "u32 \<Rightarrow> u32 \<Rightarrow> 's \<Rightarrow> 's"
  assumes clear_inv: "inv s R \<Longrightarrow> inv (clear p n s) R"

definition clear_pages :: "u32 \<Rightarrow> u32 \<Rightarrow> pages \<Rightarrow> pages" where
  "clear_pages p n s = s\<lparr>pages_mem := memset (pages_mem s) p 0 n\<rparr>"

interpretation cpg: clearing_provider "get_free_pages cfg" "free_pages2 cfg"
  "page_regions cfg" "unat (PAGE_SIZE cfg)" "\<lambda>_. True" clear_pages
  for cfg
proof
  fix s R p n assume "page_regions cfg s R"
  then show "page_regions cfg (clear_pages p n s) R"
    by (simp add: page_regions_def pages_inv_def clear_pages_def block_region_def block_addr_def cong: image_cong)
qed

section \<open>Properties\<close>

text \<open>C1: A successful page allocation returns the start of a block big enough and of no more
  than twice the size asked for, disjoint from every live block, and makes it live; a failed one
  changes nothing.\<close>

theorem get_free_pages_safe:
  assumes inv: "pages_inv cfg s live" and got: "get_free_pages cfg pages flags s = (p, s')"
  shows "if p = 0 then s' = s else
    \<exists>k n. p = block_addr cfg s (k, n) \<and> unat pages \<le> 2 ^ k \<and> (0 < k \<longrightarrow> 2 ^ k < 2 * unat pages) \<and>
      (k, n) \<notin> live \<and> pages_inv cfg s' (insert (k, n) live) \<and>
      (\<forall>bl \<in> live. region_bytes (block_region cfg s bl) \<inter> region_bytes (block_region cfg s (k, n)) = {})"
  using inv got
proof (cases rule: get_free_pages_cases)
  case (found n)
  let ?k = "pages_order pages"
  have "top_of (buddies_of s) \<le> 31" using inv by (auto simp: pages_inv_def buddy_inv_def)
  then have k: "?k < 32" using found(4) by simp
  then have fits: "unat pages \<le> 2 ^ ?k" using pages_order_fits [OF k] by (simp add: word_le_nat_alt)
  have tight: "2 ^ ?k < 2 * unat pages" if "0 < ?k"
    using pages_order_tight [OF that] that k
    by (cases ?k) (simp_all add: word_less_nat_alt)
  have "(?k, n) \<notin> live" using freshD [OF found(3), of ?k n] by auto
  moreover have "region_bytes (block_region cfg s bl) \<inter> region_bytes (block_region cfg s (?k, n)) = {}"
    if "bl \<in> live" for bl
  proof -
    obtain i l where bl: "bl = (i, l)" by (metis surj_pair)
    have "block_pages (i, l) \<inter> block_pages (?k, n) = {}"
      using fresh_disjoint [OF found(3) that] bl by auto
    then show ?thesis
      using regions_disjoint [OF inv pages_inv_range [OF inv] found(5)] that bl by blast
  qed
  ultimately show ?thesis using found(1, 2, 6) fits tight
    by (subst if_not_P) (simp, intro exI [of _ ?k] exI [of _ n], simp)
qed simp

text \<open>C6: \<open>GFP_ZERO\<close> clears exactly the pages asked for, and no allocation writes elsewhere.\<close>

theorem get_free_pages_memory:
  assumes "pages_inv cfg s live" and "get_free_pages cfg pages flags s = (p, s')" and "p \<noteq> 0"
  shows "pages_mem s' x = (if flags AND GFP_ZERO \<noteq> 0 \<and> off p x < unat (pages * PAGE_SIZE cfg)
    then 0 else pages_mem s x)"
  using assms(1, 2)
proof (cases rule: get_free_pages_cases)
  case (found n)
  then show ?thesis by blast
qed (use assms(3) in simp)

text \<open>C4: A single-page request fails only when every page of the heap is allocated.\<close>

theorem get_free_page_complete:
  assumes inv: "pages_inv cfg s live" and "get_free_page cfg flags s = (0, s')"
    and "pg < pages_of (buddies_of s)"
  shows "\<exists>bl \<in> live. pg \<in> block_pages bl"
proof -
  have got: "get_free_pages cfg 1 flags s = (0, s')" using assms(2) by (simp add: get_free_page_def)
  have I: "buddy_inv (buddies_of s) live" using inv by (simp add: pages_inv_def)
  from inv got have "get_free_pages_pn 1 (buddies_of s) = (None, buddies_of s)"
    by (cases rule: get_free_pages_cases) auto
  then show ?thesis using get_free_page_pn_complete [OF I _ assms(3)] by (auto simp: page_free_def)
qed

text \<open>C3: Freeing the address of a live block releases that block and nothing else, although
  \<open>free_page\<close> is not told its size.\<close>

theorem free_page_exact:
  assumes inv: "pages_inv cfg s live" and bl: "(k, n) \<in> live"
  shows "pages_inv cfg (free_page cfg (block_addr cfg s (k, n)) s) (live - {(k, n)}) \<and>
    determine_allocated_page_order (buddies_of s) (n * 2 ^ k) = k \<and>
    pages_mem (free_page cfg (block_addr cfg s (k, n)) s) = pages_mem s"
proof -
  have "buddy_inv (buddies_of s) live" using inv by (simp add: pages_inv_def)
  then show ?thesis
    using free_pages2_ok(1) [OF inv bl] remove_live(1) [OF _ bl]
    by (simp add: free_page_def free_pages_def free_pages2_def)
qed


text \<open>When no level of the bitmaps is cut off by the end of the heap, every block handed out
  lies inside the heap.\<close>

theorem live_blocks_in_heap:
  assumes inv: "pages_inv cfg s live" and "pages_of (buddies_of s) mod 2 ^ (top_of (buddies_of s) - 1) = 0"
    and "bl \<in> live" and "x \<in> region_bytes (block_region cfg s bl)"
  shows "unat (heap_base (buddies_of s)) \<le> x \<and>
    x < unat (heap_base (buddies_of s)) + pages_of (buddies_of s) * unat (PAGE_SIZE cfg)"
proof -
  let ?N = "pages_of (buddies_of s)"
  obtain k n where bl: "bl = (k, n)" by (metis surj_pair)
  have k: "k < top_of (buddies_of s)" using inv assms(3) bl by (auto simp: pages_inv_def buddy_inv_def)
  have n: "n * 2 ^ k < ?N" using pages_inv_range [OF inv] assms(3) bl by blast
  have "2 ^ k dvd ?N" using k assms(2) by (auto intro: power_le_dvd dvd_trans [OF le_imp_power_dvd])
  then obtain q where q: "?N = q * 2 ^ k" by (metis dvd_div_mult_self)
  with n have "n < q" by simp
  then have full: "(n + 1) * 2 ^ k \<le> ?N" unfolding q by (intro mult_right_mono) auto
  have x: "unat (heap_base (buddies_of s)) \<le> x"
    "(x - unat (heap_base (buddies_of s))) div unat (PAGE_SIZE cfg) \<in> block_pages (k, n)"
    using assms(4) region_pages [OF inv n] unfolding bl by auto
  have ps: "0 < unat (PAGE_SIZE cfg)" using inv by (simp add: pages_inv_def)
  have "(x - unat (heap_base (buddies_of s))) div unat (PAGE_SIZE cfg) < ?N"
    using x(2) full by (simp add: block_pages_def)
  then have "x - unat (heap_base (buddies_of s)) < ?N * unat (PAGE_SIZE cfg)"
    using ps by (simp add: div_less_iff_less_mult)
  with x(1) show ?thesis by linarith
qed

end
