(* ===== verification/Page_Examples.thy ===== *)
theory Page_Examples
  imports Page_Provider
begin

text \<open>
  The page allocator run on the last few pages of a BBC micro:bit: instances of the properties
  of \<open>Page_Init\<close> and \<open>Page_Provider\<close>, and the inputs on which the allocator goes wrong.
\<close>

section \<open>Evaluation\<close>

lemma geometry_orders_numeral: "geometry_orders n (numeral k) =
    (if n div 2 ^ pred_numeral k > 0 then numeral k else geometry_orders n (pred_numeral k))"
  by (simp add: numeral_eq_Suc)

lemma determine_order_numeral: "determine_order_from b page (numeral k) =
    (let bt = page div 2 ^ pred_numeral k; shift = bt mod WORD_T_BITS
     in if words b (word_index (dirty b) (pred_numeral k) bt) AND BIT shift = 0 then numeral k
        else determine_order_from b page (pred_numeral k))"
  using determine_order_from.simps(2) [of b page "pred_numeral k"] by (simp only: numeral_eq_Suc)

lemma upt_numeral: "[i..<numeral k] = (if i \<le> pred_numeral k then [i..<pred_numeral k] @ [pred_numeral k] else [])"
  by (simp add: numeral_eq_Suc)

lemmas eval_pages = geometry_orders_numeral determine_order_numeral upt_numeral Let_def
  WORD_T_BITS_def WORD_T_BYTES_def BIT_def GFP_ZERO_def GFP_KERNEL_def
  ALIGN_U_def FRACTION_MASK_def

definition no_buddies :: buddies where
  "no_buddies = \<lparr>dirty = \<lparr>data = [], order_0_bits = 0, orders = 0\<rparr>,
     saturated = \<lparr>data = [], order_0_bits = 0, orders = 0\<rparr>,
     total_pages_allocated = 0, heap_base = 0, words = (\<lambda>_. 0)\<rparr>"

definition microbit :: board where
  "microbit = bbc_microbit 0x20001000"

text \<open>The boot allocator when all but \<open>n\<close> pages are gone.\<close>

definition left_pages :: "u32 \<Rightarrow> boot" where
  "left_pages n = \<lparr>boot_pages = 384 - n, boot_mem = (\<lambda>_. 0)\<rparr>"

text \<open>The bitmaps over eight pages, and over six, the second with the cut-off block marked.\<close>

definition eight_pages :: buddies where
  "eight_pages = \<lparr>dirty = \<lparr>data = [4, 5, 6, 7], order_0_bits = 8, orders = 4\<rparr>,
     saturated = \<lparr>data = [12, 13, 14, 15], order_0_bits = 8, orders = 4\<rparr>,
     total_pages_allocated = 0, heap_base = 0x20003F00, words = (\<lambda>_. 0)\<rparr>"

definition six_pages :: buddies where
  "six_pages = \<lparr>dirty = \<lparr>data = [3, 4, 5], order_0_bits = 6, orders = 3\<rparr>,
     saturated = \<lparr>data = [9, 10, 11], order_0_bits = 6, orders = 3\<rparr>,
     total_pages_allocated = 0, heap_base = 0x20003F40, words = (\<lambda>_. 0)(5 := 2)\<rparr>"

lemma microbit_simps [simp]:
  "PAGE_SIZE microbit = 32" "HEAP_BEGIN microbit = 0x20001000"
  "VIRTUAL_MEMORY_BASE_ADDRESS microbit = 0x20000000" "PHYSICAL_MEMORY_LENGTH microbit = 0x4000"
  by (simp_all add: microbit_def bbc_microbit_def)

lemmas boot_defs = get_boot_pages_remaining_def get_boot_pages_def heap_virtual_begin_def
  heap_pages_def heap_length_def heap_virtual_end_def

lemma remaining_microbit:
  "get_boot_pages_remaining microbit (left_pages 10) = Inr (320, left_pages 10)"
  "get_boot_pages_remaining microbit (left_pages 8) = Inr (256, left_pages 8)"
  by (simp_all add: boot_defs left_pages_def eval_pages)

lemma boot_page_microbit:
  "get_boot_pages microbit 2 GFP_KERNEL (left_pages 10) = Inr (0x20003EC0, (left_pages 10)\<lparr>boot_pages := 376\<rparr>)"
  "get_boot_pages microbit 2 GFP_KERNEL (left_pages 8) = Inr (0x20003F00, (left_pages 8)\<lparr>boot_pages := 378\<rparr>)"
  by (simp_all add: boot_defs left_pages_def eval_pages)

lemmas setup_defs = get_free_page_setup_def remaining_microbit buddy_alloc_data_def configure_geometry_def
  no_buddies_def buddy_data_alloc_def boot_page_microbit [unfolded GFP_KERNEL_def]
  determine_buddy_data_size_def determine_buddy_order_ptr_size_def determine_buddy_order_size_def eval_pages

lemma setup_eight:
  "get_free_page_setup microbit no_buddies (left_pages 10) =
     Inr (0, eight_pages, end_boot_pages microbit ((left_pages 10)\<lparr>boot_pages := 376\<rparr>))"
  by (simp add: setup_defs) (simp add: eight_pages_def fun_eq_iff)

text \<open>Here the error code is -1, because the second geometry is smaller than the first.\<close>

lemma setup_six:
  "get_free_page_setup microbit no_buddies (left_pages 8) =
     Inr (-1, six_pages, end_boot_pages microbit ((left_pages 8)\<lparr>boot_pages := 378\<rparr>))"
  by (simp add: setup_defs) (simp add: six_pages_def fun_eq_iff)

section \<open>Instances of the properties\<close>

lemma setup_ready_microbit:
  "setup_ready microbit 5 no_buddies (left_pages 10)" "setup_ready microbit 5 no_buddies (left_pages 8)"
  by (simp_all add: setup_ready_def board_ok_def fresh_buddies_def no_buddies_def watermark_def left_pages_def)

lemma no_spill_small: "no_spill 8 4" "no_spill 6 3"
proof -
  have "k = 0 \<or> k = 1 \<or> k = 2 \<or> k = 3" if "k < 4" for k :: nat using that by auto
  then have "order_blocks 8 k \<le> order_cap 8 k" if "k < 4" for k
    using that by (fastforce simp: order_blocks_def order_cap_def order_words_def)
  then show "no_spill 8 4" by (simp add: no_spill_def)
  have "k = 0 \<or> k = 1 \<or> k = 2" if "k < 3" for k :: nat using that by auto
  then have "order_blocks 6 k \<le> order_cap 6 k" if "k < 3" for k
    using that by (fastforce simp: order_blocks_def order_cap_def order_words_def)
  then show "no_spill 6 3" by (simp add: no_spill_def)
qed

text \<open>Evaluating one call at a time, from a state given by its page count and its words.\<close>

definition eight_at :: "u32 \<Rightarrow> (nat \<Rightarrow> u32) \<Rightarrow> pages" where
  "eight_at n w = \<lparr>buddies_of = eight_pages\<lparr>total_pages_allocated := n, words := w\<rparr>, pages_mem = (\<lambda>_. 255)\<rparr>"

definition six_at :: "u32 \<Rightarrow> (nat \<Rightarrow> u32) \<Rightarrow> pages" where
  "six_at n w = \<lparr>buddies_of = six_pages\<lparr>total_pages_allocated := n, words := w\<rparr>, pages_mem = (\<lambda>_. 255)\<rparr>"

abbreviation zeros :: "nat \<Rightarrow> u32" where
  "zeros \<equiv> \<lambda>_. 0"


abbreviation eight :: pages where
  "eight \<equiv> eight_at 0 zeros"

abbreviation six :: pages where
  "six \<equiv> six_at 0 (zeros(5 := 2))"

lemma eight_at_start: "buddies_of eight = eight_pages"
  by (simp add: eight_at_def eight_pages_def)

lemma six_at_start: "buddies_of six = six_pages"
  by (simp add: six_at_def six_pages_def)

lemma pages_inv_eight: "pages_inv microbit eight {}"
proof -
  have "buddy_inv eight_pages {}"
    using page_setup_facts [OF setup_ready_microbit(1) setup_eight]
    by (simp add: eight_pages_def no_spill_small)
  then show ?thesis by (simp add: pages_inv_def eight_at_start) (simp add: eight_pages_def)
qed

lemmas eval_alloc = get_free_page_def get_free_pages_def get_free_pages_pn_def pages_order_def
  pages_order_from.simps buddy_search_unsaturated.simps buddy_set_saturated.simps buddy_set_dirty.simps
  buddy_clear_saturated.simps buddy_clear_dirty.simps buddy_order_bits_def word_index_def
  twin_mask_from_shift_def determine_allocated_page_order_def free_pages2_def free_pages2_pn_def
  free_page_def free_pages_def eval_pages

lemmas eval_six = eval_alloc six_at_def six_pages_def set_word_def fun_eq_iff
lemmas eval_eight = eval_alloc eight_at_def eight_pages_def set_word_def fun_eq_iff

lemma run_six:
  "get_free_pages microbit 4 0 six = (0x20003F40, six_at 4 (zeros(11 := 1, 5 := 3)))"
  "get_free_pages microbit 4 0 (six_at 4 (zeros(11 := 1, 5 := 3))) = (0, six_at 4 (zeros(11 := 1, 5 := 3)))"
  "get_free_page microbit 0 (six_at 4 (zeros(11 := 1, 5 := 3))) =
    (0x20003FC0, six_at 5 (zeros(11 := 1, 9 := 16, 3 := 16, 4 := 4, 5 := 3)))"
  "free_page microbit 0x20003FC0 (six_at 5 (zeros(11 := 1, 9 := 16, 3 := 16, 4 := 4, 5 := 3))) =
    six_at 4 (zeros(11 := 1, 5 := 1))"
  "get_free_pages microbit 4 0 (six_at 4 (zeros(11 := 1, 5 := 1))) =
    (0x20003FC0, six_at 8 (zeros(11 := 3, 5 := 3)))"
  by (simp_all add: eval_six)

lemma run_eight:
  "get_free_page microbit 0 eight = (0x20003F00, eight_at 1 (zeros(4 := 1, 5 := 1, 6 := 1, 7 := 1, 12 := 1)))"
  "get_free_page microbit 0 (eight_at 1 (zeros(4 := 1, 5 := 1, 6 := 1, 7 := 1, 12 := 1))) =
    (0x20003F20, eight_at 2 (zeros(4 := 3, 5 := 1, 6 := 1, 7 := 1, 12 := 3, 13 := 1)))"
  "get_free_page microbit 0 (eight_at 2 (zeros(4 := 3, 5 := 1, 6 := 1, 7 := 1, 12 := 3, 13 := 1))) =
    (0x20003F40, eight_at 3 (zeros(4 := 7, 5 := 3, 6 := 1, 7 := 1, 12 := 7, 13 := 1)))"
  "free_page microbit 0x20003F20 (eight_at 3 (zeros(4 := 7, 5 := 3, 6 := 1, 7 := 1, 12 := 7, 13 := 1))) =
    eight_at 2 (zeros(4 := 5, 5 := 3, 6 := 1, 7 := 1, 12 := 5))"
  "get_free_pages microbit 2 0 (eight_at 2 (zeros(4 := 5, 5 := 3, 6 := 1, 7 := 1, 12 := 5))) =
    (0, eight_at 2 (zeros(4 := 5, 5 := 3, 6 := 1, 7 := 1, 12 := 5)))"
  "get_free_pages microbit 4 0 (eight_at 2 (zeros(4 := 5, 5 := 3, 6 := 1, 7 := 1, 12 := 5))) =
    (0x20003F80, eight_at 6 (zeros(4 := 5, 5 := 3, 6 := 3, 7 := 1, 12 := 5, 14 := 2)))"
  "get_free_pages microbit 8 0 eight = (0x20003F00, eight_at 8 (zeros(7 := 1, 15 := 1)))"
  "get_free_page microbit 0 (eight_at 8 (zeros(7 := 1, 15 := 1))) = (0, eight_at 8 (zeros(7 := 1, 15 := 1)))"
  by (simp_all add: eval_eight)

abbreviation full :: pages where
  "full \<equiv> eight_at 8 (zeros(7 := 1, 15 := 1))"

lemma pages_inv_full: "pages_inv microbit full {(3, 0)}"
  using pages_inv_eight run_eight(7)
proof (cases rule: get_free_pages_cases)
  case (found n)
  have k: "pages_order 8 = 3" by (simp add: pages_order_def pages_order_from.simps BIT_def WORD_T_BITS_def)
  have "n = 0" using found(5) by (simp add: k eight_at_start eight_pages_def)
  with found(6) show ?thesis by (simp add: k)
qed simp

lemma get_free_pages_safe_witness:
  "\<exists>k n. 0x20003F00 = block_addr microbit eight (k, n) \<and> 8 \<le> (2::nat) ^ k \<and> pages_inv microbit full {(k, n)}"
  using get_free_pages_safe [OF pages_inv_eight run_eight(7)] by auto

lemma get_free_pages_memory_witness:
  "pages_mem (snd (get_free_pages microbit 1 GFP_ZERO eight)) 0x20003F10 = 0 \<and>
   pages_mem (snd (get_free_pages microbit 1 GFP_ZERO eight)) 0x20003F20 = 255"
proof -
  have "get_free_pages microbit 1 GFP_ZERO eight = (0x20003F00, snd (get_free_pages microbit 1 GFP_ZERO eight))"
    by (simp add: eval_eight)
  from get_free_pages_memory [OF pages_inv_eight this] show ?thesis
    by (simp add: off_def GFP_ZERO_def eight_at_def)
qed

lemma get_free_page_complete_witness: "\<exists>bl \<in> {(3, 0)}. 5 \<in> block_pages bl"
  using get_free_page_complete [OF pages_inv_full run_eight(8), of 5]
  by (simp add: eight_at_def eight_pages_def)

lemma free_page_exact_witness:
  "pages_inv microbit (free_page microbit 0x20003F00 full) {} \<and>
    determine_allocated_page_order (buddies_of full) 0 = 3"
proof -
  have "block_addr microbit full (3, 0) = 0x20003F00"
    by (simp add: block_addr_def eight_at_def eight_pages_def)
  with free_page_exact [OF pages_inv_full, of 3 0] show ?thesis by simp
qed

lemma run_two:
  "client_run (\<lambda>_. True) (get_free_pages microbit) (free_pages2 microbit) eight
    (eight_at 2 (zeros(4 := 3, 5 := 1, 6 := 1, 7 := 1, 12 := 3, 13 := 1))) {(0x20003F20, 1), (0x20003F00, 1)}"
proof -
  have "client_run (\<lambda>_. True) (get_free_pages microbit) (free_pages2 microbit) eight
    (eight_at 1 (zeros(4 := 1, 5 := 1, 6 := 1, 7 := 1, 12 := 1))) {(0x20003F00, 1)}"
    by (rule client_got [OF client_start, where fl = 0]) (use run_eight(1) in \<open>simp_all add: get_free_page_def\<close>)
  then show ?thesis
    by (rule client_got [where fl = 0]) (use run_eight(2) in \<open>simp_all add: get_free_page_def\<close>)
qed


lemma live_blocks_in_heap_witness:
  "0x20003F00 \<le> (0x20003FFF::nat) \<and> 0x20003FFF < 0x20003F00 + 8 * (32::nat)"
  using live_blocks_in_heap [OF pages_inv_full, of "(3, 0)" "0x20003FFF"]
  by (simp add: eight_at_def eight_pages_def region_bytes_def block_region_def block_addr_def)

text \<open>A block that the end of the heap cuts off starts out marked dirty, but freeing a page
  inside it clears the mark, and the next large request gets memory past the end of the RAM.\<close>

theorem cut_off_block_handed_out:
  "let s1 = snd (get_free_pages microbit 4 0 six);
       (p, s2) = get_free_page microbit 0 s1;
       s3 = free_page microbit p s2;
       (q, s4) = get_free_pages microbit 4 0 s3
   in fst (get_free_pages microbit 4 0 s1) = 0 \<and> q = 0x20003FC0 \<and>
      memory_end microbit < unat q + 4 * unat (PAGE_SIZE microbit)"
  by (simp add: run_six)

text \<open>The search does not come back from a block without a free pair: with pages 0 and 2 of
  eight allocated a request for two pages fails, although one for four succeeds.\<close>

theorem fragmented_request_fails:
  "let s1 = snd (get_free_page microbit 0 eight);
       (p, s2) = get_free_page microbit 0 s1;
       s3 = snd (get_free_page microbit 0 s2);
       s4 = free_page microbit p s3
   in fst (get_free_pages microbit 2 0 s4) = 0 \<and> fst (get_free_pages microbit 4 0 s4) = 0x20003F80"
  by (simp add: run_eight)

end
