(* ===== verification/Bounded_Queue.thy ===== *)
theory Bounded_Queue
  imports Prelude
begin

text \<open>
  The contract of a bounded first-in first-out buffer, and the list a ring of slots stands for.
  \<open>fifo_buffer.c\<close> and \<open>fifo_packet_buffer.c\<close> are shown to keep the contract.
\<close>

section \<open>Rings\<close>

definition ring_list :: "(nat \<Rightarrow> 'a) \<Rightarrow> nat \<Rightarrow> nat \<Rightarrow> nat \<Rightarrow> 'a list" where
  "ring_list f r n sz = map (\<lambda>i. f ((r + i) mod sz)) [0..<n]"

lemma length_ring_list [simp]: "length (ring_list f r n sz) = n"
  by (simp add: ring_list_def)

lemma ring_list_empty [simp]: "ring_list f r 0 sz = []"
  by (simp add: ring_list_def)

lemma ring_slot_neq:
  fixes n :: nat
  assumes "i < n" and "n < sz"
  shows "(r + i) mod sz \<noteq> (r + n) mod sz"
proof
  assume "(r + i) mod sz = (r + n) mod sz"
  then have "sz dvd (r + n) - (r + i)" using assms(1) by (intro mod_eq_dvd_iff_nat [THEN iffD1]) auto
  then have "sz dvd n - i" using assms(1) by simp
  then have "sz \<le> n - i" using assms(1) by (intro dvd_imp_le) auto
  with assms show False by linarith
qed

lemma ring_push:
  assumes "n < sz"
  shows "ring_list (f((r + n) mod sz := x)) r (n + 1) sz = ring_list f r n sz @ [x]"
  using ring_slot_neq [OF _ assms] by (simp add: ring_list_def)

lemma ring_pop:
  assumes "0 < n" and "r < sz"
  shows "ring_list f r n sz = f r # ring_list f ((r + 1) mod sz) (n - 1) sz"
proof -
  obtain k where n: "n = Suc k" using assms(1) by (cases n) auto
  have "ring_list f r n sz = f (r mod sz) # map (\<lambda>i. f ((r + Suc i) mod sz)) [0..<k]"
    unfolding ring_list_def n by (simp add: upt_conv_Cons map_Suc_upt [symmetric] del: upt_Suc)
  also have "map (\<lambda>i. f ((r + Suc i) mod sz)) [0..<k] = ring_list f ((r + 1) mod sz) k sz"
    unfolding ring_list_def by (simp add: mod_add_left_eq)
  finally show ?thesis using assms(2) n by simp
qed

text \<open>Stepping an index the way the sources do: increment, then back to 0 at the end.\<close>

lemma ring_step: "(r::nat) < sz \<Longrightarrow> (if r + 1 = sz then 0 else r + 1) = (r + 1) mod sz"
  by auto

lemma ring_advance: "0 < n \<Longrightarrow> ((r + 1) mod m + (n - 1)) mod m = (r + n) mod (m::nat)"
  by (cases n) (simp_all add: mod_add_left_eq)

section \<open>16-bit indices\<close>

lemma unat_u16_less [simp]: "unat (x::u16) < 65536"
  using unsigned_less [of x, where ?'a = nat] by simp

lemma unat_u16_Suc: "x < (y::u16) \<Longrightarrow> unat (x + 1) = unat x + 1"
proof -
  assume "x < y"
  then have "unat x < unat y" by (simp add: word_less_nat_alt)
  then have "unat x + 1 < 65536" using unat_u16_less [of y] by linarith
  then show ?thesis by (simp add: unat_word_ariths)
qed

lemma unat_u16_pred: "x \<noteq> 0 \<Longrightarrow> unat (x - 1 :: u16) = unat x - 1"
  by (simp add: unat_minus_one)

lemma unat_u16_pos: "x \<noteq> 0 \<Longrightarrow> 0 < unat (x::u16)"
  by (simp add: unat_gt_0)

lemma u16_ring_step:
  assumes "w < (s::u16)"
  shows "unat (if w + 1 = s then 0 else w + 1) = (unat w + 1) mod unat s"
proof -
  have w: "unat w < unat s" using assms by (simp add: word_less_nat_alt)
  have "w + 1 = s \<longleftrightarrow> unat w + 1 = unat s"
    using unat_u16_Suc [OF assms] by (metis unsigned_word_eqI)
  with w unat_u16_Suc [OF assms] show ?thesis by auto
qed

section \<open>The contract\<close>

locale bounded_queue =
  fixes put :: "'a \<Rightarrow> 'q \<Rightarrow> bool \<times> 'q"
    and get :: "'q \<Rightarrow> 'a option \<times> 'q"
    and contents :: "'q \<Rightarrow> 'a list"
    and capacity :: "'q \<Rightarrow> nat"
    and inv :: "'q \<Rightarrow> bool"
    and fits :: "'q \<Rightarrow> 'a \<Rightarrow> bool"
  assumes put_room: "inv q \<Longrightarrow> fits q x \<Longrightarrow> length (contents q) < capacity q \<Longrightarrow>
      \<exists>q'. put x q = (True, q') \<and> inv q' \<and> contents q' = contents q @ [x] \<and>
        capacity q' = capacity q \<and> fits q' = fits q"
    and put_full: "inv q \<Longrightarrow> length (contents q) = capacity q \<Longrightarrow> put x q = (False, q)"
    and get_some: "inv q \<Longrightarrow> contents q = x # xs \<Longrightarrow>
      \<exists>q'. get q = (Some x, q') \<and> inv q' \<and> contents q' = xs \<and> capacity q' = capacity q \<and> fits q' = fits q"
    and get_none: "inv q \<Longrightarrow> contents q = [] \<Longrightarrow> get q = (None, q)"
    and within: "inv q \<Longrightarrow> length (contents q) \<le> capacity q"

text \<open>A producer and a consumer taking turns in any order.\<close>

datatype 'a queue_op = Put 'a | Get

fun queue_run :: "('a \<Rightarrow> 'q \<Rightarrow> bool \<times> 'q) \<Rightarrow> ('q \<Rightarrow> 'a option \<times> 'q) \<Rightarrow> 'a queue_op list \<Rightarrow> 'q
    \<Rightarrow> 'a list \<times> 'a list \<times> 'q" where
  "queue_run put get [] q = ([], [], q)"
| "queue_run put get (Put x # ops) q =
     (case put x q of (ok, q') \<Rightarrow>
        (case queue_run put get ops q' of (acc, out, q'') \<Rightarrow> (if ok then x # acc else acc, out, q'')))"
| "queue_run put get (Get # ops) q =
     (case get q of (r, q') \<Rightarrow>
        (case queue_run put get ops q' of (acc, out, q'') \<Rightarrow>
           (acc, (case r of Some x \<Rightarrow> x # out | None \<Rightarrow> out), q'')))"

context bounded_queue
begin

lemma run_fifo:
  assumes "inv q" and "\<forall>x. Put x \<in> set ops \<longrightarrow> fits q x"
    and "queue_run put get ops q = (acc, out, q')"
  shows "inv q' \<and> contents q @ acc = out @ contents q' \<and> capacity q' = capacity q"
  using assms
proof (induction ops arbitrary: q acc out)
  case (Cons a ops)
  show ?case
  proof (cases a)
    case (Put x)
    consider "length (contents q) < capacity q" | "length (contents q) = capacity q"
      using within [OF Cons.prems(1)] by linarith
    then show ?thesis
    proof cases
      case 1
      then obtain q1 where q1: "put x q = (True, q1)" "inv q1" "contents q1 = contents q @ [x]"
        "capacity q1 = capacity q" "fits q1 = fits q"
        using put_room [OF Cons.prems(1), of x] Cons.prems(2) Put by auto
      with Cons.prems Put Cons.IH [OF q1(2)] show ?thesis by (auto split: prod.splits)
    next
      case 2
      with Cons.prems Put Cons.IH [OF Cons.prems(1)] put_full [OF Cons.prems(1), of x] show ?thesis
        by (auto split: prod.splits)
    qed
  next
    case Get
    show ?thesis
    proof (cases "contents q")
      case Nil
      with Cons.prems Get Cons.IH [OF Cons.prems(1)] get_none [OF Cons.prems(1)] show ?thesis
        by (auto split: prod.splits)
    next
      case (Cons x xs)
      then obtain q1 where q1: "get q = (Some x, q1)" "inv q1" "contents q1 = xs"
        "capacity q1 = capacity q" "fits q1 = fits q"
        using get_some [OF Cons.prems(1)] by blast
      with Cons.prems Get Cons.IH [OF q1(2)] Cons show ?thesis by (auto split: prod.splits)
    qed
  qed
qed simp

end

end
