(* ===== verification/Fifo_Buffer.thy ===== *)
theory Fifo_Buffer
  imports Bounded_Queue Page_Examples
begin

text \<open>
  \<open>src/kernel/memory/fifo_buffer.c\<close>: the byte FIFO between the interrupt handlers and the file
  operations of the serial drivers. A buffer is its five 16-bit counters and the address of its
  bytes, which stay in the byte-addressed memory.
\<close>

section \<open>Operations\<close>

record fifo_buffer =
  bp :: u32
  ri :: u16
  wi :: u16
  sz :: u16
  rsz :: u16
  wsz :: u16

definition fifo_buffer_create :: "board \<Rightarrow> fifo_buffer \<Rightarrow> u32 \<Rightarrow> pages \<Rightarrow> int \<times> fifo_buffer \<times> pages" where
  "fifo_buffer_create cfg buffer nbytes s =
     (let pages = (nbytes + (PAGE_SIZE cfg - 1)) div PAGE_SIZE cfg;
          (p, s') = get_free_pages cfg pages GFP_KERNEL s;
          b1 = buffer\<lparr>bp := p\<rparr>
      in if bp b1 \<noteq> 0 then
           let b2 = b1\<lparr>ri := 0, wi := 0, sz := ucast (pages * PAGE_SIZE cfg), rsz := 0\<rparr>
           in (0, b2\<lparr>wsz := sz b2\<rparr>, s')
         else (-1, b1, s'))"

definition fifo_buffer_destroy :: "board \<Rightarrow> fifo_buffer \<Rightarrow> pages \<Rightarrow> pages" where
  "fifo_buffer_destroy cfg buffer s = free_pages cfg (bp buffer) (ucast (sz buffer) div PAGE_SIZE cfg) s"

definition FIFO_BUFFER_PUT_SUCCESS :: int where "FIFO_BUFFER_PUT_SUCCESS = 0"
definition FIFO_BUFFER_PUT_FAILURE :: int where "FIFO_BUFFER_PUT_FAILURE = -1"
definition FIFO_BUFFER_GET_SUCCESS :: int where "FIFO_BUFFER_GET_SUCCESS = 0"
definition FIFO_BUFFER_GET_FAILURE :: int where "FIFO_BUFFER_GET_FAILURE = -1"

lemmas fifo_codes = FIFO_BUFFER_PUT_SUCCESS_def FIFO_BUFFER_PUT_FAILURE_def
  FIFO_BUFFER_GET_SUCCESS_def FIFO_BUFFER_GET_FAILURE_def

definition fifo_buffer_putb :: "fifo_buffer \<Rightarrow> u8 \<Rightarrow> memory \<Rightarrow> int \<times> fifo_buffer \<times> memory" where
  "fifo_buffer_putb buffer b m =
     (if wsz buffer \<noteq> 0 then
        let m' = m(bp buffer + ucast (wi buffer) := b);
            b1 = buffer\<lparr>wi := wi buffer + 1\<rparr>;
            b2 = (if wi b1 = sz b1 then b1\<lparr>wi := 0\<rparr> else b1)
        in (FIFO_BUFFER_PUT_SUCCESS, b2\<lparr>wsz := wsz b2 - 1, rsz := rsz b2 + 1\<rparr>, m')
      else (FIFO_BUFFER_PUT_FAILURE, buffer, m))"

text \<open>The byte is \<open>None\<close> where the source leaves the caller's variable as it was.\<close>

definition fifo_buffer_getb :: "fifo_buffer \<Rightarrow> memory \<Rightarrow> int \<times> u8 option \<times> fifo_buffer" where
  "fifo_buffer_getb buffer m =
     (if rsz buffer \<noteq> 0 then
        let b = m (bp buffer + ucast (ri buffer));
            b1 = buffer\<lparr>ri := ri buffer + 1\<rparr>;
            b2 = (if ri b1 = sz b1 then b1\<lparr>ri := 0\<rparr> else b1)
        in (FIFO_BUFFER_GET_SUCCESS, Some b, b2\<lparr>rsz := rsz b2 - 1, wsz := wsz b2 + 1\<rparr>)
      else (FIFO_BUFFER_GET_FAILURE, None, buffer))"

section \<open>The list a buffer stands for\<close>

definition slot :: "fifo_buffer \<Rightarrow> memory \<Rightarrow> nat \<Rightarrow> u8" where
  "slot b m i = m (bp b + word_of_nat i)"

definition fifo_bytes :: "fifo_buffer \<times> memory \<Rightarrow> u8 list" where
  "fifo_bytes q = (case q of (b, m) \<Rightarrow>
     ring_list (slot b m) (unat (ri b)) (unat (rsz b)) (unat (sz b)))"

definition fifo_ok :: "fifo_buffer \<Rightarrow> bool" where
  "fifo_ok b \<longleftrightarrow> unat (ri b) < unat (sz b) \<and> unat (wi b) = (unat (ri b) + unat (rsz b)) mod unat (sz b) \<and>
     unat (rsz b) + unat (wsz b) = unat (sz b)"

lemma slot_address: "i < 65536 \<Longrightarrow> j < 65536 \<Longrightarrow> (bp b + word_of_nat i = bp b + (word_of_nat j :: u32)) = (i = j)"
proof -
  assume "i < 65536" "j < 65536"
  then have "unat (word_of_nat i :: u32) = i" "unat (word_of_nat j :: u32) = j"
    by (simp_all add: unat_of_nat)
  then show ?thesis by (metis add_left_cancel)
qed

text \<open>The write index steps like a ring, and a byte is written to one slot.\<close>

lemma putb_steps:
  assumes ok: "fifo_ok b" and room: "wsz b \<noteq> 0"
  obtains b' where "fifo_buffer_putb b x m = (0, b', m(bp b + word_of_nat (unat (wi b)) := x))"
    and "fifo_ok b'" and "bp b' = bp b" and "sz b' = sz b" and "ri b' = ri b" and "unat (rsz b') = unat (rsz b) + 1"
proof -
  let ?w = "if wi b + 1 = sz b then 0 else wi b + 1"
  have w: "wi b < sz b" using ok by (auto simp: fifo_ok_def word_less_nat_alt intro: mod_less_divisor)
  have "unat (rsz b) < unat (sz b)" using ok unat_u16_pos [OF room] by (auto simp: fifo_ok_def)
  then have r: "rsz b < sz b" by (simp add: word_less_nat_alt)
  have wi: "unat ?w = (unat (wi b) + 1) mod unat (sz b)"
    using w by (rule u16_ring_step)
  have "fifo_buffer_putb b x m = (0, b\<lparr>wi := ?w, wsz := wsz b - 1, rsz := rsz b + 1\<rparr>,
      m(bp b + word_of_nat (unat (wi b)) := x))"
    using room by (auto simp: fifo_buffer_putb_def Let_def fifo_codes)
  moreover have "fifo_ok (b\<lparr>wi := ?w, wsz := wsz b - 1, rsz := rsz b + 1\<rparr>)"
    using ok wi unat_u16_Suc [OF r] unat_u16_pred [OF room] unat_u16_pos [OF room]
    by (simp add: fifo_ok_def mod_Suc_eq)
  ultimately show thesis using that unat_u16_Suc [OF r] by simp
qed

lemma getb_steps:
  assumes ok: "fifo_ok b" and data: "rsz b \<noteq> 0"
  obtains b' where "fifo_buffer_getb b m = (0, Some (slot b m (unat (ri b))), b')"
    and "fifo_ok b'" and "bp b' = bp b" and "sz b' = sz b"
    and "unat (ri b') = (unat (ri b) + 1) mod unat (sz b)" and "unat (rsz b') = unat (rsz b) - 1"
proof -
  let ?r = "if ri b + 1 = sz b then 0 else ri b + 1"
  have r: "ri b < sz b" using ok by (simp add: fifo_ok_def word_less_nat_alt)
  have "unat (wsz b) < unat (sz b)" using ok unat_u16_pos [OF data] by (auto simp: fifo_ok_def)
  then have w: "wsz b < sz b" by (simp add: word_less_nat_alt)
  have ri: "unat ?r = (unat (ri b) + 1) mod unat (sz b)"
    using r by (rule u16_ring_step)
  have "fifo_buffer_getb b m = (0, Some (slot b m (unat (ri b))), b\<lparr>ri := ?r, rsz := rsz b - 1, wsz := wsz b + 1\<rparr>)"
    using data by (auto simp: fifo_buffer_getb_def Let_def fifo_codes slot_def)
  moreover have "fifo_ok (b\<lparr>ri := ?r, rsz := rsz b - 1, wsz := wsz b + 1\<rparr>)"
    using ok ri unat_u16_Suc [OF w] unat_u16_pred [OF data] unat_u16_pos [OF data]
      ring_advance [OF unat_u16_pos [OF data], of "unat (ri b)" "unat (sz b)"]
    by (simp add: fifo_ok_def)
  ultimately show thesis using that ri unat_u16_pred [OF data] by simp
qed

section \<open>The buffer is a bounded queue\<close>

definition fifo_put :: "u8 \<Rightarrow> fifo_buffer \<times> memory \<Rightarrow> bool \<times> fifo_buffer \<times> memory" where
  "fifo_put x q = (case fifo_buffer_putb (fst q) x (snd q) of (r, q') \<Rightarrow> (r = FIFO_BUFFER_PUT_SUCCESS, q'))"

definition fifo_get :: "fifo_buffer \<times> memory \<Rightarrow> u8 option \<times> fifo_buffer \<times> memory" where
  "fifo_get q = (case fifo_buffer_getb (fst q) (snd q) of (r, x, b) \<Rightarrow> (x, b, snd q))"

definition fifo_capacity :: "fifo_buffer \<times> memory \<Rightarrow> nat" where
  "fifo_capacity q = unat (sz (fst q))"

lemma fifo_bytes_length: "length (fifo_bytes (b, m)) = unat (rsz b)"
  by (simp add: fifo_bytes_def)

lemma fifo_bytes_put:
  assumes ok: "fifo_ok b" and room: "unat (rsz b) < unat (sz b)"
    and b': "bp b' = bp b" "sz b' = sz b" "ri b' = ri b" "unat (rsz b') = unat (rsz b) + 1"
  shows "fifo_bytes (b', m(bp b + word_of_nat (unat (wi b)) := x)) = fifo_bytes (b, m) @ [x]"
proof -
  let ?m = "m(bp b + word_of_nat (unat (wi b)) := x)"
  have w: "unat (wi b) = (unat (ri b) + unat (rsz b)) mod unat (sz b)" using ok by (simp add: fifo_ok_def)
  have s: "0 < unat (sz b)" using room by simp
  have slots: "slot b' ?m i = ((slot b m)(unat (wi b) := x)) i" if "i < unat (sz b)" for i
    using that slot_address [of i "unat (wi b)" b] less_trans [OF that unat_u16_less] b'(1)
    by (auto simp: slot_def simp del: of_nat_unat)
  have "fifo_bytes (b', ?m) = ring_list ((slot b m)(unat (wi b) := x)) (unat (ri b)) (unat (rsz b) + 1) (unat (sz b))"
    unfolding fifo_bytes_def ring_list_def using b' slots s by simp
  also have "\<dots> = fifo_bytes (b, m) @ [x]"
    unfolding w using ring_push [OF room] by (simp add: fifo_bytes_def)
  finally show ?thesis .
qed

interpretation fifo: bounded_queue fifo_put fifo_get fifo_bytes fifo_capacity
  "\<lambda>q. fifo_ok (fst q)" "\<lambda>_ _. True"
proof
  fix q :: "fifo_buffer \<times> memory" and x assume ok: "fifo_ok (fst q)"
    and room: "length (fifo_bytes q) < fifo_capacity q"
  obtain b m where q: "q = (b, m)" by (metis surj_pair)
  have r: "unat (rsz b) < unat (sz b)" using room by (simp add: q fifo_bytes_def fifo_capacity_def)
  then have "wsz b \<noteq> 0" using ok by (auto simp: q fifo_ok_def)
  with ok q obtain b' where b': "fifo_buffer_putb b x m = (0, b', m(bp b + word_of_nat (unat (wi b)) := x))"
    "fifo_ok b'" "bp b' = bp b" "sz b' = sz b" "ri b' = ri b" "unat (rsz b') = unat (rsz b) + 1"
    using putb_steps [of b x m] by auto
  have "fifo_ok b" using ok q by simp
  from fifo_bytes_put [OF this r b'(3-6), of m x] b'
  show "\<exists>q'. fifo_put x q = (True, q') \<and> fifo_ok (fst q') \<and> fifo_bytes q' = fifo_bytes q @ [x] \<and>
      fifo_capacity q' = fifo_capacity q \<and> (\<lambda>_. True) = (\<lambda>_. True)"
    by (simp add: fifo_put_def q fifo_capacity_def fifo_codes)
next
  fix q :: "fifo_buffer \<times> memory" and x assume ok: "fifo_ok (fst q)"
    and full: "length (fifo_bytes q) = fifo_capacity q"
  obtain b m where q: "q = (b, m)" by (metis surj_pair)
  have "unat (rsz b) = unat (sz b)" using full by (simp add: q fifo_bytes_def fifo_capacity_def)
  then have "wsz b = 0" using ok by (simp add: q fifo_ok_def unsigned_eq_0_iff)
  then show "fifo_put x q = (False, q)"
    by (simp add: fifo_put_def q fifo_buffer_putb_def fifo_codes)
next
  fix q :: "fifo_buffer \<times> memory" and x xs assume ok: "fifo_ok (fst q)" and some: "fifo_bytes q = x # xs"
  obtain b m where q: "q = (b, m)" by (metis surj_pair)
  have n: "0 < unat (rsz b)" using some fifo_bytes_length [of b m] by (simp add: q)
  then have "rsz b \<noteq> 0" by auto
  with ok q obtain b' where b': "fifo_buffer_getb b m = (0, Some (slot b m (unat (ri b))), b')"
    "fifo_ok b'" "bp b' = bp b" "sz b' = sz b" "unat (ri b') = (unat (ri b) + 1) mod unat (sz b)"
    "unat (rsz b') = unat (rsz b) - 1"
    using getb_steps [of b m] by auto
  have "unat (ri b) < unat (sz b)" using ok by (simp add: q fifo_ok_def)
  note pop = ring_pop [OF n this, of "slot b m"]
  have "slot b' m = slot b m" by (simp add: slot_def fun_eq_iff b'(3))
  then have "fifo_bytes (b, m) = slot b m (unat (ri b)) # fifo_bytes (b', m)"
    using pop b'(4-6) by (simp add: fifo_bytes_def)
  then show "\<exists>q'. fifo_get q = (Some x, q') \<and> fifo_ok (fst q') \<and> fifo_bytes q' = xs \<and>
      fifo_capacity q' = fifo_capacity q \<and> (\<lambda>_. True) = (\<lambda>_. True)"
    using some b'(1, 2, 4) by (simp add: q fifo_get_def fifo_capacity_def)
next
  fix q :: "fifo_buffer \<times> memory" assume none: "fifo_bytes q = []"
  obtain b m where q: "q = (b, m)" by (metis surj_pair)
  have "rsz b = 0" using none fifo_bytes_length [of b m] by (simp add: q unsigned_eq_0_iff)
  then show "fifo_get q = (None, q)" by (simp add: fifo_get_def q fifo_buffer_getb_def)
next
  fix q :: "fifo_buffer \<times> memory" assume "fifo_ok (fst q)"
  then show "length (fifo_bytes q) \<le> fifo_capacity q"
    by (cases q) (simp add: fifo_bytes_def fifo_capacity_def fifo_ok_def)
qed

section \<open>Properties\<close>

text \<open>C7: Bytes come out of the buffer in the order they went in, none lost, none duplicated,
  whatever the interleaving of puts and gets: what was there before and what was accepted is
  what has been read and what is still there.\<close>

theorem fifo_buffer_order:
  assumes "fifo_ok b" and "queue_run fifo_put fifo_get ops (b, m) = (acc, out, q')"
  shows "fifo_ok (fst q') \<and> fifo_bytes (b, m) @ acc = out @ fifo_bytes q'"
  using fifo.run_fifo [of "(b, m)" ops] assms by simp

lemma unat_div_mult: "unat ((x div y) * (y :: u32)) = unat x div unat y * unat y"
proof -
  have "unat x div unat y * unat y < 4294967296"
    using div_times_less_eq_dividend [of "unat x" "unat y"] unat_u32_less [of x] by linarith
  then show ?thesis by (subst unat_mult_u32) (simp_all add: unat_div_u32)
qed

lemma create_result:
  assumes "fifo_buffer_create cfg buffer nbytes s = (0, b, s')"
  obtains pages where "pages = (nbytes + (PAGE_SIZE cfg - 1)) div PAGE_SIZE cfg"
    and "get_free_pages cfg pages GFP_KERNEL s = (bp b, s')" and "bp b \<noteq> 0"
    and "ri b = 0" and "wi b = 0" and "rsz b = 0" and "sz b = ucast (pages * PAGE_SIZE cfg)" and "wsz b = sz b"
  using assms by (auto simp: fifo_buffer_create_def Let_def split: prod.splits if_splits)

definition ex_fifo :: fifo_buffer where
  "ex_fifo = \<lparr>bp = 0x20003F00, ri = 1, wi = 1, sz = 2, rsz = 0, wsz = 2\<rparr>"

lemma fifo_buffer_order_witness:
  "(case queue_run fifo_put fifo_get [Put 7, Put 8, Put 9, Get, Put 5, Get, Get, Get] (ex_fifo, \<lambda>_. 0) of
     (acc, out, q) \<Rightarrow> acc = [7, 8, 5] \<and> out = [7, 8, 5] \<and> fifo_bytes q = [])"
proof -
  define r where "r = queue_run fifo_put fifo_get [Put 7, Put 8, Put 9, Get, Put 5, Get, Get, Get] (ex_fifo, \<lambda>_. 0)"
  obtain acc out q where q: "r = (acc, out, q)" by (metis prod_cases3)
  have "fifo_ok ex_fifo" by (simp add: ex_fifo_def fifo_ok_def)
  from fifo_buffer_order [OF this q [unfolded r_def]]
  have "acc = out @ fifo_bytes q" by (simp add: ex_fifo_def fifo_bytes_def)
  moreover have "fst r = [7, 8, 5] \<and> fst (snd r) = [7, 8, 5]"
    by (simp add: r_def ex_fifo_def fifo_put_def fifo_get_def fifo_buffer_putb_def fifo_buffer_getb_def
        fifo_codes Let_def)
  ultimately show ?thesis unfolding r_def [symmetric] using q by force
qed



text \<open>A request for 64 kB succeeds and takes the pages, but leaves a buffer of size 0.\<close>

theorem fifo_buffer_create_64k:
  assumes "fifo_buffer_create cfg buffer 0x10000 s = (0, b, s')" and "PAGE_SIZE cfg = 4096"
  shows "sz b = 0 \<and> fifo_buffer_putb b x m = (FIFO_BUFFER_PUT_FAILURE, b, m)"
proof -
  obtain pages where pages: "pages = (0x10000 + (PAGE_SIZE cfg - 1)) div PAGE_SIZE cfg"
    and b: "sz b = ucast (pages * PAGE_SIZE cfg)" "wsz b = sz b"
    using assms(1) by (rule create_result) (rule that)
  have "pages = 16" using pages assms(2) by simp
  then have "sz b = 0" using b(1) assms(2) by simp
  then show ?thesis using b(2) by (simp add: fifo_buffer_putb_def)
qed

end
