(* ===== verification/Packet_Fifo.thy ===== *)
theory Packet_Fifo
  imports Bounded_Queue Page_Provider
begin

text \<open>
  \<open>src/kernel/memory/fifo_packet_buffer.c\<close>: a ring of fixed-size packets. A producer locks the
  next free packet, fills it in place and releases it; a consumer locks the oldest one, reads it
  and releases it. One flag locks both ends. \<open>kmalloc\<close> and \<open>kfree\<close>
  are parameters of the two operations that allocate, under the contract \<open>region_provider\<close>.
\<close>

section \<open>State\<close>

text \<open>\<open>slots\<close> is the array of packet pointers \<open>bp\<close> points to.\<close>

record packet_fifo =
  bp :: u32
  slots :: "u32 list"
  flags :: u8
  ri :: u16
  wi :: u16
  sz :: u16
  rsz :: u16
  wsz :: u16
  plen :: u16

definition FIFO_PACKET_SUCCESS :: int where "FIFO_PACKET_SUCCESS = 0"
definition FIFO_PACKET_FAILURE :: int where "FIFO_PACKET_FAILURE = -1"
definition LOCKED :: u8 where "LOCKED = 1"

lemmas packet_codes = FIFO_PACKET_SUCCESS_def FIFO_PACKET_FAILURE_def LOCKED_def

section \<open>Operations\<close>

type_synonym 's kmalloc_fun = "u32 \<Rightarrow> u32 \<Rightarrow> 's \<Rightarrow> u32 \<times> 's"
type_synonym 's kfree_fun = "u32 \<Rightarrow> 's \<Rightarrow> 's"

text \<open>
  The loop that allocates the packets, \<open>False\<close> for the jump to \<open>error\<close>. The array was zeroed,
  so the entries behind a failure are null.
\<close>

fun alloc_packets :: "'s kmalloc_fun \<Rightarrow> u32 \<Rightarrow> nat \<Rightarrow> 's \<Rightarrow> bool \<times> u32 list \<times> 's" where
  "alloc_packets kmalloc packet_size 0 s = (True, [], s)"
| "alloc_packets kmalloc packet_size (Suc n) s =
     (case kmalloc packet_size GFP_KERNEL s of (p, s1) \<Rightarrow>
        if p = 0 then (False, 0 # replicate n 0, s1)
        else case alloc_packets kmalloc packet_size n s1 of (ok, ps, s2) \<Rightarrow> (ok, p # ps, s2))"

definition free_packets :: "'s kfree_fun \<Rightarrow> u32 list \<Rightarrow> 's \<Rightarrow> 's" where
  "free_packets kfree ps s = fold kfree ps s"

definition packet_fifo_create ::
  "'s kmalloc_fun \<Rightarrow> 's kfree_fun \<Rightarrow> packet_fifo \<Rightarrow> u32 \<Rightarrow> u32 \<Rightarrow> 's \<Rightarrow> int \<times> packet_fifo \<times> 's" where
  "packet_fifo_create kmalloc kfree buffer packet_size packets s =
     (case kmalloc (packets * 4) (GFP_KERNEL OR GFP_ZERO) s of (p, s1) \<Rightarrow>
        let b1 = buffer\<lparr>bp := p\<rparr>
        in if p = 0 then (FIFO_PACKET_FAILURE, b1, s1)
           else case alloc_packets kmalloc packet_size (unat packets) s1 of (ok, ps, s2) \<Rightarrow>
             let b2 = b1\<lparr>slots := ps\<rparr>
             in if ok then
                  let b3 = b2\<lparr>flags := 0, plen := ucast packet_size, ri := 0, wi := 0,
                              sz := ucast packets, rsz := 0\<rparr>
                  in (FIFO_PACKET_SUCCESS, b3\<lparr>wsz := sz b3\<rparr>, s2)
                else (FIFO_PACKET_FAILURE, b2, kfree p (free_packets kfree ps s2)))"

definition packet_fifo_destroy :: "'s kfree_fun \<Rightarrow> packet_fifo \<Rightarrow> 's \<Rightarrow> 's" where
  "packet_fifo_destroy kfree buffer s =
     (if bp buffer \<noteq> 0 then kfree (bp buffer) (free_packets kfree (take (unat (sz buffer)) (slots buffer)) s)
      else s)"

definition packet_fifo_size :: "packet_fifo \<Rightarrow> int" where
  "packet_fifo_size buffer = int (unat (rsz buffer))"

definition packet_fifo_write_lock :: "packet_fifo \<Rightarrow> int \<times> u32 option \<times> packet_fifo" where
  "packet_fifo_write_lock buffer =
     (if flags buffer AND LOCKED = 0 \<and> wsz buffer \<noteq> 0 then
        let b1 = buffer\<lparr>flags := flags buffer OR LOCKED\<rparr>
        in (FIFO_PACKET_SUCCESS, Some (slots b1 ! unat (wi b1)), b1)
      else (FIFO_PACKET_FAILURE, None, buffer))"

definition packet_fifo_write_cancel :: "packet_fifo \<Rightarrow> int \<times> packet_fifo" where
  "packet_fifo_write_cancel buffer = (FIFO_PACKET_SUCCESS, buffer\<lparr>flags := flags buffer AND NOT LOCKED\<rparr>)"

definition packet_fifo_write_release :: "packet_fifo \<Rightarrow> int \<times> packet_fifo" where
  "packet_fifo_write_release buffer =
     (let b1 = buffer\<lparr>wi := wi buffer + 1\<rparr>;
          b2 = (if wi b1 = sz b1 then b1\<lparr>wi := 0\<rparr> else b1)
      in (FIFO_PACKET_SUCCESS,
          b2\<lparr>wsz := wsz b2 - 1, rsz := rsz b2 + 1, flags := flags b2 AND NOT LOCKED\<rparr>))"

definition packet_fifo_read_lock :: "packet_fifo \<Rightarrow> int \<times> u32 option \<times> packet_fifo" where
  "packet_fifo_read_lock buffer =
     (if flags buffer AND LOCKED = 0 \<and> rsz buffer \<noteq> 0 then
        let b1 = buffer\<lparr>flags := flags buffer OR LOCKED\<rparr>
        in (FIFO_PACKET_SUCCESS, Some (slots b1 ! unat (ri b1)), b1)
      else (FIFO_PACKET_FAILURE, None, buffer))"

definition packet_fifo_read_cancel :: "packet_fifo \<Rightarrow> int \<times> packet_fifo" where
  "packet_fifo_read_cancel buffer = (FIFO_PACKET_SUCCESS, buffer\<lparr>flags := flags buffer AND NOT LOCKED\<rparr>)"

definition packet_fifo_read_release :: "packet_fifo \<Rightarrow> int \<times> packet_fifo" where
  "packet_fifo_read_release buffer =
     (let b1 = buffer\<lparr>ri := ri buffer + 1\<rparr>;
          b2 = (if ri b1 = sz b1 then b1\<lparr>ri := 0\<rparr> else b1)
      in (FIFO_PACKET_SUCCESS,
          b2\<lparr>rsz := rsz b2 - 1, wsz := wsz b2 + 1, flags := flags b2 AND NOT LOCKED\<rparr>))"

section \<open>Creation and destruction under the allocator's contract\<close>

context region_provider
begin

lemma run_fresh:
  assumes "client_run fine get free s0 s R" and "inv s0 R0" and "fine n" and "get n fl s = (p, s')" and "p \<noteq> 0"
  shows "(p, m) \<notin> R"
  using owns_got(2) [OF run_owns [OF assms(1, 2)] assms(3-5)] .

lemma alloc_packets_run:
  assumes "inv s0 R0" and "fine packet_size"
  shows "client_run fine get free s0 s R \<Longrightarrow> alloc_packets get packet_size n s = (ok, ps, s') \<Longrightarrow>
    \<exists>as k. ps = as @ replicate k 0 \<and> distinct as \<and> 0 \<notin> set as \<and> (\<forall>a \<in> set as. \<forall>m. (a, m) \<notin> R) \<and>
      (ok \<longrightarrow> k = 0 \<and> length as = n) \<and>
      client_run fine get free s0 s' (R \<union> (\<lambda>a. (a, packet_size)) ` set as)"
proof (induction n arbitrary: s R ok ps s')
  case 0
  then show ?case by (intro exI [of _ "[]"]) auto
next
  case (Suc n)
  obtain p s1 where p: "get packet_size GFP_KERNEL s = (p, s1)" by (metis surj_pair)
  show ?case
  proof (cases "p = 0")
    case True
    with Suc.prems p client_failed [OF Suc.prems(1)] show ?thesis
      by (intro exI [of _ "[]"] exI [of _ "Suc n"]) auto
  next
    case False
    note new = run_fresh [OF Suc.prems(1) assms p False]
    have run: "client_run fine get free s0 s1 (insert (p, packet_size) R)"
      using Suc.prems(1) assms(2) p False by (rule client_got)
    obtain ok' ps' s2 where rest: "alloc_packets get packet_size n s1 = (ok', ps', s2)" by (metis prod_cases3)
    from Suc.IH [OF run rest] obtain as k where as: "ps' = as @ replicate k 0" "distinct as" "0 \<notin> set as"
      "\<forall>a \<in> set as. \<forall>m. (a, m) \<notin> insert (p, packet_size) R" "ok' \<longrightarrow> k = 0 \<and> length as = n"
      "client_run fine get free s0 s2 (insert (p, packet_size) R \<union> (\<lambda>a. (a, packet_size)) ` set as)"
      by blast
    have "ok = ok'" "ps = p # ps'" "s' = s2" using Suc.prems(2) p False rest by auto
    with as new False show ?thesis by (intro exI [of _ "p # as"] exI [of _ k]) auto
  qed
qed

lemma free_packets_run:
  "client_run fine get free s0 s (R \<union> (\<lambda>a. (a, n)) ` set as) \<Longrightarrow> distinct as \<Longrightarrow>
    \<forall>a \<in> set as. \<forall>m. (a, m) \<notin> R \<Longrightarrow>
    client_run fine get free s0 (free_packets free (as @ replicate k 0) s) R"
proof (induction as arbitrary: s)
  case Nil
  then have "client_run fine get free s0 s R" by simp
  then show ?case by (induction k arbitrary: s) (auto simp: free_packets_def intro: client_freed_null)
next
  case (Cons a as)
  have "client_run fine get free s0 (free a s) ((R \<union> (\<lambda>a. (a, n)) ` set (a # as)) - {(a, n)})"
    using Cons.prems(1) by (rule client_freed) simp
  moreover have "(R \<union> (\<lambda>a. (a, n)) ` set (a # as)) - {(a, n)} = R \<union> (\<lambda>a. (a, n)) ` set as"
    using Cons.prems(2, 3) by auto
  ultimately show ?case using Cons.IH [of "free a s"] Cons.prems(2, 3) by (simp add: free_packets_def)
qed

text \<open>A creation that succeeds holds an array and as many packets; one that fails holds nothing.\<close>

lemma create_run:
  assumes inv: "inv s R0" and fine: "fine (packets * 4)" "fine packet_size"
    and create: "packet_fifo_create get free buffer packet_size packets s = (r, b, s')"
  shows "(if r = FIFO_PACKET_SUCCESS
      then length (slots b) = unat packets \<and> bp b \<noteq> 0 \<and> distinct (bp b # slots b) \<and>
        client_run fine get free s s' (insert (bp b, packets * 4) ((\<lambda>a. (a, packet_size)) ` set (slots b)))
      else client_run fine get free s s' {})"
proof -
  obtain p s1 where p: "get (packets * 4) (GFP_KERNEL OR GFP_ZERO) s = (p, s1)" by (metis surj_pair)
  note start = client_start [of fine get free s]
  show ?thesis
  proof (cases "p = 0")
    case True
    with create p client_failed [OF start] show ?thesis by (auto simp: packet_fifo_create_def packet_codes Let_def)
  next
    case False
    have run: "client_run fine get free s s1 {(p, packets * 4)}" using client_got [OF start fine(1) p False] .
    obtain ok ps s2 where rest: "alloc_packets get packet_size (unat packets) s1 = (ok, ps, s2)" by (metis prod_cases3)
    from alloc_packets_run [OF inv fine(2) run rest] obtain as k where as: "ps = as @ replicate k 0" "distinct as"
      "0 \<notin> set as" "\<forall>a \<in> set as. \<forall>m. (a, m) \<notin> {(p, packets * 4)}" "ok \<longrightarrow> k = 0 \<and> length as = unat packets"
      "client_run fine get free s s2 ({(p, packets * 4)} \<union> (\<lambda>a. (a, packet_size)) ` set as)"
      by blast
    show ?thesis
    proof (cases ok)
      case True
      with create p False rest as show ?thesis
        by (auto simp: packet_fifo_create_def packet_codes Let_def)
    next
      case nok: False
      have "client_run fine get free s (free_packets free ps s2) {(p, packets * 4)}"
        unfolding as(1) using as(6, 2, 4) by (rule free_packets_run)
      then have "client_run fine get free s (free p (free_packets free ps s2)) ({(p, packets * 4)} - {(p, packets * 4)})"
        by (rule client_freed) simp
      with create p False rest nok show ?thesis
        by (auto simp: packet_fifo_create_def packet_codes Let_def)
    qed
  qed
qed

end

section \<open>The ring of packets\<close>

definition write_bytes :: "memory \<Rightarrow> u32 \<Rightarrow> u8 list \<Rightarrow> memory" where
  "write_bytes m p xs = (\<lambda>a. if off p a < length xs then xs ! off p a else m a)"

definition packet_data :: "memory \<Rightarrow> nat \<Rightarrow> u32 \<Rightarrow> u8 list" where
  "packet_data m n p = map (\<lambda>x. m (p + word_of_nat x)) [0..<n]"

definition slot :: "packet_fifo \<Rightarrow> nat \<Rightarrow> u32" where
  "slot b i = slots b ! i"

definition queued :: "packet_fifo \<Rightarrow> u32 list" where
  "queued b = ring_list (slot b) (unat (ri b)) (unat (rsz b)) (unat (sz b))"

definition ring_ok :: "packet_fifo \<Rightarrow> bool" where
  "ring_ok b \<longleftrightarrow> unat (ri b) < unat (sz b) \<and> unat (wi b) = (unat (ri b) + unat (rsz b)) mod unat (sz b) \<and>
     unat (rsz b) + unat (wsz b) = unat (sz b) \<and> length (slots b) = unat (sz b)"

definition unlocked :: "packet_fifo \<Rightarrow> bool" where
  "unlocked b \<longleftrightarrow> flags b AND LOCKED = 0"

text \<open>No byte of one packet is a byte of another.\<close>

definition packets_apart :: "packet_fifo \<Rightarrow> bool" where
  "packets_apart b \<longleftrightarrow> (\<forall>i < unat (sz b). \<forall>j < unat (sz b). \<forall>x < unat (plen b). i \<noteq> j \<longrightarrow>
     unat (plen b) \<le> off (slot b i) (slot b j + word_of_nat x))"

lemma length_packet_data [simp]: "length (packet_data m n p) = n"
  by (simp add: packet_data_def)

lemma packet_data_written:
  assumes "length xs = n" and "n \<le> 2 ^ 32"
  shows "packet_data (write_bytes m p xs) n p = xs"
proof (rule nth_equalityI)
  fix i assume "i < length (packet_data (write_bytes m p xs) n p)"
  then have "i < n" by simp
  then show "packet_data (write_bytes m p xs) n p ! i = xs ! i"
    using assms by (simp add: packet_data_def write_bytes_def off_add)
qed (use assms in simp)

lemma packet_data_other:
  assumes "\<And>x. x < n \<Longrightarrow> length xs \<le> off p (q + word_of_nat x)"
  shows "packet_data (write_bytes m p xs) n q = packet_data m n q"
  using assms by (fastforce simp: packet_data_def write_bytes_def)

lemma unlock_bit: "((f :: u8) AND NOT LOCKED) AND LOCKED = 0"
  by (simp add: and.assoc)

lemma lock_bit: "((f :: u8) OR LOCKED) AND LOCKED \<noteq> 0"
proof
  assume "(f OR LOCKED) AND LOCKED = 0"
  then have "\<not> bit ((f OR LOCKED) AND LOCKED) 0" by simp
  then show False by (simp add: LOCKED_def bit_simps)
qed

lemma write_release_steps:
  assumes ok: "ring_ok b" and room: "wsz b \<noteq> 0"
  obtains b' where "packet_fifo_write_release b = (0, b')" and "ring_ok b'" and "unlocked b'"
    and "queued b' = queued b @ [slots b ! unat (wi b)]" and "slots b' = slots b" and "sz b' = sz b" and "plen b' = plen b"
proof -
  let ?w = "if wi b + 1 = sz b then 0 else wi b + 1"
  let ?b = "b\<lparr>wi := ?w, wsz := wsz b - 1, rsz := rsz b + 1, flags := flags b AND NOT LOCKED\<rparr>"
  have w: "wi b < sz b" using ok by (auto simp: ring_ok_def word_less_nat_alt intro: mod_less_divisor)
  have n: "unat (rsz b) < unat (sz b)" using ok unat_u16_pos [OF room] by (auto simp: ring_ok_def)
  then have r: "rsz b < sz b" by (simp add: word_less_nat_alt)
  note wi = u16_ring_step [OF w]
  have "packet_fifo_write_release b = (0, ?b)"
    by (simp add: packet_fifo_write_release_def Let_def packet_codes)
  moreover have "ring_ok ?b"
    using ok wi unat_u16_Suc [OF r] unat_u16_pred [OF room] unat_u16_pos [OF room]
    by (simp add: ring_ok_def mod_Suc_eq)
  moreover have "queued ?b = queued b @ [slots b ! unat (wi b)]"
  proof -
    have slot: "slot ?b = slot b" by (simp add: slot_def fun_eq_iff)
    have wi': "unat (wi b) = (unat (ri b) + unat (rsz b)) mod unat (sz b)" using ok by (simp add: ring_ok_def)
    have "(slot b)((unat (ri b) + unat (rsz b)) mod unat (sz b) := slots b ! unat (wi b)) = slot b"
      unfolding wi' [symmetric] by (auto simp: slot_def)
    with ring_push [OF n, of "slot b" "unat (ri b)" "slots b ! unat (wi b)"] show ?thesis
      unfolding queued_def slot using unat_u16_Suc [OF r] by simp
  qed
  ultimately show thesis using that [of ?b] by (simp add: unlocked_def unlock_bit)
qed

lemma read_release_steps:
  assumes ok: "ring_ok b" and data: "rsz b \<noteq> 0"
  obtains b' where "packet_fifo_read_release b = (0, b')" and "ring_ok b'" and "unlocked b'"
    and "queued b = slots b ! unat (ri b) # queued b'" and "slots b' = slots b" and "sz b' = sz b" and "plen b' = plen b"
proof -
  let ?r = "if ri b + 1 = sz b then 0 else ri b + 1"
  let ?b = "b\<lparr>ri := ?r, rsz := rsz b - 1, wsz := wsz b + 1, flags := flags b AND NOT LOCKED\<rparr>"
  have r: "ri b < sz b" and ri': "unat (ri b) < unat (sz b)" using ok by (simp_all add: ring_ok_def word_less_nat_alt)
  have "unat (wsz b) < unat (sz b)" using ok unat_u16_pos [OF data] by (auto simp: ring_ok_def)
  then have w: "wsz b < sz b" by (simp add: word_less_nat_alt)
  note ri = u16_ring_step [OF r]
  have "packet_fifo_read_release b = (0, ?b)"
    by (simp add: packet_fifo_read_release_def Let_def packet_codes)
  moreover have "ring_ok ?b"
    using ok ri unat_u16_Suc [OF w] unat_u16_pred [OF data] unat_u16_pos [OF data]
      ring_advance [OF unat_u16_pos [OF data], of "unat (ri b)" "unat (sz b)"]
    by (simp add: ring_ok_def)
  moreover have "queued b = slots b ! unat (ri b) # queued ?b"
  proof -
    have slot: "slot ?b = slot b" by (simp add: slot_def fun_eq_iff)
    show ?thesis
      unfolding queued_def slot using ring_pop [OF unat_u16_pos [OF data] ri', of "slot b"] ri
        unat_u16_pred [OF data] by (simp add: slot_def)
  qed
  ultimately show thesis using that [of ?b] by (simp add: unlocked_def unlock_bit)
qed

section \<open>The packet ring is a bounded queue\<close>

text \<open>
  What a sender and a receiver do with it, as in \<open>drivers/ns/nRF51822/radio/write.h\<close> and
  \<open>read.h\<close>: lock, copy, release.
\<close>

definition packet_put :: "u8 list \<Rightarrow> packet_fifo \<times> memory \<Rightarrow> bool \<times> packet_fifo \<times> memory" where
  "packet_put xs q = (case q of (b, m) \<Rightarrow>
     case packet_fifo_write_lock b of
       (_, None, b1) \<Rightarrow> (False, b1, m)
     | (_, Some p, b1) \<Rightarrow> (case packet_fifo_write_release b1 of (_, b2) \<Rightarrow> (True, b2, write_bytes m p xs)))"

definition packet_get :: "packet_fifo \<times> memory \<Rightarrow> u8 list option \<times> packet_fifo \<times> memory" where
  "packet_get q = (case q of (b, m) \<Rightarrow>
     case packet_fifo_read_lock b of
       (_, None, b1) \<Rightarrow> (None, b1, m)
     | (_, Some p, b1) \<Rightarrow>
         (case packet_fifo_read_release b1 of (_, b2) \<Rightarrow> (Some (packet_data m (unat (plen b)) p), b2, m)))"

definition packets :: "packet_fifo \<times> memory \<Rightarrow> u8 list list" where
  "packets q = (case q of (b, m) \<Rightarrow> map (packet_data m (unat (plen b))) (queued b))"

definition packet_ok :: "packet_fifo \<times> memory \<Rightarrow> bool" where
  "packet_ok q \<longleftrightarrow> ring_ok (fst q) \<and> unlocked (fst q) \<and> packets_apart (fst q)"

definition packet_capacity :: "packet_fifo \<times> memory \<Rightarrow> nat" where
  "packet_capacity q = unat (sz (fst q))"

definition packet_fits :: "packet_fifo \<times> memory \<Rightarrow> u8 list \<Rightarrow> bool" where
  "packet_fits q xs \<longleftrightarrow> length xs = unat (plen (fst q))"

lemma length_queued [simp]: "length (queued b) = unat (rsz b)"
  by (simp add: queued_def)

lemma packets_apart_same: "slots b' = slots b \<Longrightarrow> sz b' = sz b \<Longrightarrow> plen b' = plen b \<Longrightarrow>
    packets_apart b' = packets_apart b"
  by (simp add: packets_apart_def slot_def)

lemma queued_slots:
  assumes "ring_ok b" and "wsz b \<noteq> 0" and "p \<in> set (queued b)"
  obtains i where "i < unat (sz b)" and "i \<noteq> unat (wi b)" and "p = slot b i"
proof -
  have ok: "unat (wi b) = (unat (ri b) + unat (rsz b)) mod unat (sz b)" "unat (rsz b) < unat (sz b)"
    using assms(1) unat_u16_pos [OF assms(2)] by (auto simp: ring_ok_def)
  obtain j where j: "j < unat (rsz b)" "p = slot b ((unat (ri b) + j) mod unat (sz b))"
    using assms(3) by (auto simp: queued_def ring_list_def)
  then show thesis
    using that [of "(unat (ri b) + j) mod unat (sz b)"] ring_slot_neq [OF j(1) ok(2), of "unat (ri b)"] ok by auto
qed

lemma packets_write:
  assumes ok: "packet_ok (b, m)" and room: "wsz b \<noteq> 0" and len: "length xs = unat (plen b)"
    and b': "queued b' = queued b @ [slots b ! unat (wi b)]" "plen b' = plen b"
  shows "packets (b', write_bytes m (slots b ! unat (wi b)) xs) = packets (b, m) @ [xs]"
proof -
  let ?p = "slots b ! unat (wi b)" and ?n = "unat (plen b)"
  have ring: "ring_ok b" and apart: "packets_apart b" using ok by (simp_all add: packet_ok_def)
  have w: "unat (wi b) < unat (sz b)" using ring by (auto simp: ring_ok_def intro: mod_less_divisor)
  have "packet_data (write_bytes m ?p xs) ?n q = packet_data m ?n q" if mem: "q \<in> set (queued b)" for q
  proof (rule packet_data_other)
    fix x assume x: "x < ?n"
    obtain i where i: "i < unat (sz b)" "i \<noteq> unat (wi b)" "q = slot b i"
      by (rule queued_slots [OF ring room mem]) (rule that)
    have "?n \<le> off (slot b (unat (wi b))) (slot b i + word_of_nat x)"
      using apart w i x unfolding packets_apart_def by (metis)
    then show "length xs \<le> off ?p (q + word_of_nat x)" by (simp add: len i(3) slot_def)
  qed
  moreover have "?n \<le> 2 ^ 32" using less_imp_le [OF unat_u16_less [of "plen b"]] by (rule order_trans) simp
  ultimately show ?thesis
    using packet_data_written [OF len] b' by (simp add: packets_def)
qed

interpretation packet: bounded_queue packet_put packet_get packets packet_capacity packet_ok packet_fits
proof
  fix q xs assume ok: "packet_ok q" and len: "packet_fits q xs" and room: "length (packets q) < packet_capacity q"
  obtain b m where q: "q = (b, m)" by (metis surj_pair)
  let ?b = "b\<lparr>flags := flags b OR LOCKED\<rparr>"
  have ring: "ring_ok b" "unlocked b" using ok by (simp_all add: q packet_ok_def)
  have "unat (rsz b) < unat (sz b)" using room by (simp add: q packets_def packet_capacity_def)
  then have w: "wsz b \<noteq> 0" using ring by (auto simp: ring_ok_def)
  have lock: "packet_fifo_write_lock b = (0, Some (slots b ! unat (wi b)), ?b)"
    using w ring(2) by (simp add: packet_fifo_write_lock_def Let_def unlocked_def packet_codes)
  have "ring_ok ?b" "wsz ?b \<noteq> 0" using ring(1) w by (simp_all add: ring_ok_def)
  then obtain b' where b': "packet_fifo_write_release ?b = (0, b')" "ring_ok b'" "unlocked b'"
    "queued b' = queued ?b @ [slots ?b ! unat (wi ?b)]" "slots b' = slots ?b" "sz b' = sz ?b" "plen b' = plen ?b"
    by (rule write_release_steps)
  have qb: "queued ?b = queued b" by (simp add: queued_def slot_def ring_list_def)
  have len': "length xs = unat (plen b)" using len by (simp add: q packet_fits_def)
  have ok': "packet_ok (b, m)" using ok q by simp
  have "packets (b', write_bytes m (slots b ! unat (wi b)) xs) = packets (b, m) @ [xs]"
    by (rule packets_write [OF ok' w len']) (use b' qb in simp_all)
  moreover have "packets_apart b'"
    using ok b' by (subst packets_apart_same [of b' b]) (simp_all add: q packet_ok_def)
  ultimately show "\<exists>q'. packet_put xs q = (True, q') \<and> packet_ok q' \<and> packets q' = packets q @ [xs] \<and>
      packet_capacity q' = packet_capacity q \<and> packet_fits q' = packet_fits q"
    using lock b' by (simp add: packet_put_def q packet_ok_def packet_capacity_def packet_fits_def fun_eq_iff)
next
  fix q xs assume ok: "packet_ok q" and full: "length (packets q) = packet_capacity q"
  obtain b m where q: "q = (b, m)" by (metis surj_pair)
  have "unat (rsz b) = unat (sz b)" using full by (simp add: q packets_def packet_capacity_def)
  then have "wsz b = 0" using ok by (simp add: q packet_ok_def ring_ok_def unsigned_eq_0_iff)
  then show "packet_put xs q = (False, q)"
    by (simp add: packet_put_def q packet_fifo_write_lock_def)
next
  fix q x xs assume ok: "packet_ok q" and some: "packets q = x # xs"
  obtain b m where q: "q = (b, m)" by (metis surj_pair)
  let ?b = "b\<lparr>flags := flags b OR LOCKED\<rparr>"
  have ring: "ring_ok b" "unlocked b" using ok by (simp_all add: q packet_ok_def)
  have "unat (rsz b) = Suc (length xs)" using some by (simp add: q packets_def) (metis length_Cons length_map length_queued)
  then have r: "rsz b \<noteq> 0" by auto
  have lock: "packet_fifo_read_lock b = (0, Some (slots b ! unat (ri b)), ?b)"
    using r ring(2) by (simp add: packet_fifo_read_lock_def Let_def unlocked_def packet_codes)
  have "ring_ok ?b" "rsz ?b \<noteq> 0" using ring(1) r by (simp_all add: ring_ok_def)
  then obtain b' where b': "packet_fifo_read_release ?b = (0, b')" "ring_ok b'" "unlocked b'"
    "queued ?b = slots ?b ! unat (ri ?b) # queued b'" "slots b' = slots ?b" "sz b' = sz ?b" "plen b' = plen ?b"
    by (rule read_release_steps)
  have qb: "queued ?b = queued b" by (simp add: queued_def slot_def ring_list_def)
  have "packets_apart b'"
    using ok b' by (subst packets_apart_same [of b' b]) (simp_all add: q packet_ok_def)
  then show "\<exists>q'. packet_get q = (Some x, q') \<and> packet_ok q' \<and> packets q' = xs \<and>
      packet_capacity q' = packet_capacity q \<and> packet_fits q' = packet_fits q"
    using lock b' qb some
    by (simp add: packet_get_def q packet_ok_def packet_capacity_def packet_fits_def packets_def fun_eq_iff)
next
  fix q assume ok: "packet_ok q" and none: "packets q = []"
  obtain b m where q: "q = (b, m)" by (metis surj_pair)
  have "unat (rsz b) = 0" using none by (simp add: q packets_def) (metis length_queued list.size(3))
  then have "rsz b = 0" by (simp add: unsigned_eq_0_iff)
  then show "packet_get q = (None, q)" by (simp add: packet_get_def q packet_fifo_read_lock_def)
next
  fix q assume "packet_ok q"
  then show "length (packets q) \<le> packet_capacity q"
    by (cases q) (simp add: packets_def packet_capacity_def packet_ok_def ring_ok_def)
qed

section \<open>Properties\<close>

text \<open>C9: Packets come out whole and in the order they went in, whatever the interleaving of sends
  and receives.\<close>

theorem packet_fifo_order:
  assumes "packet_ok (b, m)" and "\<forall>xs. Put xs \<in> set ops \<longrightarrow> length xs = unat (plen b)"
    and "queue_run packet_put packet_get ops (b, m) = (acc, out, q')"
  shows "packet_ok q' \<and> packets (b, m) @ acc = out @ packets q'"
  using packet.run_fifo [of "(b, m)" ops] assms by (simp add: packet_fits_def)

text \<open>While one side holds a packet the other side cannot take one, although it may be free:
  one flag locks both ends.\<close>

theorem packet_fifo_lock_excludes:
  assumes "packet_fifo_write_lock b = (FIFO_PACKET_SUCCESS, p, b')"
  shows "packet_fifo_write_lock b' = (FIFO_PACKET_FAILURE, None, b') \<and>
    packet_fifo_read_lock b' = (FIFO_PACKET_FAILURE, None, b') \<and>
    packet_fifo_write_lock (snd (packet_fifo_write_cancel b')) = (FIFO_PACKET_SUCCESS, p, b')"
proof -
  have b': "b' = b\<lparr>flags := flags b OR LOCKED\<rparr>" "p = Some (slots b ! unat (wi b))" "wsz b \<noteq> 0"
    using assms by (auto simp: packet_fifo_write_lock_def Let_def packet_codes split: if_splits)
  moreover have "((flags b OR LOCKED) AND NOT LOCKED) OR LOCKED = flags b OR LOCKED"
    by (rule bit_eqI) (auto simp: bit_simps)
  ultimately show ?thesis
    using lock_bit [of 0]
    by (simp add: packet_fifo_write_lock_def packet_fifo_read_lock_def packet_fifo_write_cancel_def lock_bit
        unlock_bit Let_def)
qed

definition ex_ring :: packet_fifo where
  "ex_ring = \<lparr>bp = 64, slots = [128, 256], flags = 0, ri = 1, wi = 1, sz = 2, rsz = 0, wsz = 2, plen = 2\<rparr>"

lemma ex_ring_ok: "packet_ok (ex_ring, \<lambda>_. 0)"
proof -
  have two: "i < 2 \<longleftrightarrow> i = 0 \<or> i = 1" for i :: nat by auto
  show ?thesis
    by (auto simp: packet_ok_def ring_ok_def unlocked_def packets_apart_def slot_def ex_ring_def two off_def)
qed

lemma packet_fifo_order_witness:
  "case queue_run packet_put packet_get [Put [1, 2], Put [3, 4], Put [5, 6], Get] (ex_ring, \<lambda>_. 0) of
     (acc, out, q') \<Rightarrow> packet_ok q' \<and> acc = [[1, 2], [3, 4]] \<and> out @ packets q' = acc"
proof -
  define r where "r = queue_run packet_put packet_get [Put [1, 2], Put [3, 4], Put [5, 6], Get] (ex_ring, \<lambda>_. 0)"
  obtain acc out q where q: "r = (acc, out, q)" by (metis prod_cases3)
  have "packet_ok q \<and> packets (ex_ring, \<lambda>_. 0) @ acc = out @ packets q"
    by (rule packet_fifo_order [OF ex_ring_ok _ q [unfolded r_def]]) (simp add: ex_ring_def)
  moreover have "packets (ex_ring, \<lambda>_. 0) = []" by (simp add: packets_def queued_def ex_ring_def)
  moreover have "fst r = [[1, 2], [3, 4]]"
    by (simp add: r_def ex_ring_def packet_put_def packet_get_def packet_fifo_write_lock_def packet_fifo_write_release_def
        packet_fifo_read_lock_def packet_fifo_read_release_def packet_codes Let_def)
  ultimately show ?thesis unfolding r_def [symmetric] using q by simp
qed

end
