(* ===== verification/Kmalloc_Tiny.thy ===== *)
theory Kmalloc_Tiny
  imports Page_Examples Packet_Fifo
begin

text \<open>
  \<open>src/kernel/memory/kmalloc_tiny.c\<close>, the \<open>kmalloc\<close> of the small boards: every request is
  rounded up to whole pages. It keeps the allocator contract for every size that does not wrap,
  and so do its clients, here the packet FIFO of the radio driver.
\<close>

definition mem_cache_setup_tiny :: int where
  "mem_cache_setup_tiny = 0"

definition kmalloc_setup_tiny :: int where
  "kmalloc_setup_tiny = 0"

definition kmalloc_tiny :: "board \<Rightarrow> u32 \<Rightarrow> u32 \<Rightarrow> pages \<Rightarrow> u32 \<times> pages" where
  "kmalloc_tiny cfg nbytes gfp_flags s =
     (let nbytes' = ALIGN_U nbytes (PAGE_SIZE cfg)
      in get_free_pages cfg (nbytes' div PAGE_SIZE cfg) gfp_flags s)"

definition kfree_tiny :: "board \<Rightarrow> u32 \<Rightarrow> pages \<Rightarrow> int \<times> pages" where
  "kfree_tiny cfg mem s = (0, free_pages2 cfg mem s)"

text \<open>Sizes that rounding up to a page does not carry past the end of the address space.\<close>

definition tiny_fits :: "board \<Rightarrow> u32 \<Rightarrow> bool" where
  "tiny_fits cfg n \<longleftrightarrow> unat n + unat (PAGE_SIZE cfg) \<le> 2 ^ 32"

definition page_power :: "board \<Rightarrow> bool" where
  "page_power cfg \<longleftrightarrow> (\<exists>j < 32. PAGE_SIZE cfg = 2 ^ j)"

lemma tiny_pages:
  assumes "page_power cfg" and "tiny_fits cfg n"
  shows "unat n \<le> unat (ALIGN_U n (PAGE_SIZE cfg) div PAGE_SIZE cfg) * unat (PAGE_SIZE cfg)"
proof -
  obtain j where j: "j < 32" "PAGE_SIZE cfg = 2 ^ j" using assms(1) by (auto simp: page_power_def)
  have le: "unat n \<le> 2 ^ 32 - 2 ^ j" using assms(2) j by (simp add: tiny_fits_def)
  have "unat (ALIGN_U n (2 ^ j)) div 2 ^ j * 2 ^ j = round_up j (unat n)"
    using unat_ALIGN_U_round [OF j(1) le] round_up_dvd [of j "unat n"] by simp
  then show ?thesis using round_up_ge [of "unat n" j] j by (simp add: unat_div_u32)
qed

interpretation tiny: region_provider "kmalloc_tiny cfg" "\<lambda>p s. snd (kfree_tiny cfg p s)"
  "\<lambda>s R. page_regions cfg s R \<and> page_power cfg" 1 "tiny_fits cfg"
  for cfg
proof
  fix s R n fl p s'
  assume inv: "page_regions cfg s R \<and> page_power cfg" and fits: "tiny_fits cfg n"
    and got: "kmalloc_tiny cfg n fl s = (p, s')" and p: "p \<noteq> 0"
  have "get_free_pages cfg (ALIGN_U n (PAGE_SIZE cfg) div PAGE_SIZE cfg) fl s = (p, s')"
    using got by (simp add: kmalloc_tiny_def)
  then obtain len where len: "0 < len"
    "unat (ALIGN_U n (PAGE_SIZE cfg) div PAGE_SIZE cfg) * unat (PAGE_SIZE cfg) \<le> len"
    "\<forall>r \<in> R. region_bytes r \<inter> region_bytes (p, len) = {}" "page_regions cfg s' (insert (p, len) R)"
    using pg.get_some [OF _ TrueI _ p, of cfg s R] inv by blast
  have "unat n \<le> len" using tiny_pages [OF _ fits] inv len(2) by (meson le_trans)
  with len inv show "\<exists>len. 0 < len \<and> unat n * 1 \<le> len \<and>
      (\<forall>r \<in> R. region_bytes r \<inter> region_bytes (p, len) = {}) \<and>
      page_regions cfg s' (insert (p, len) R) \<and> page_power cfg"
    by auto
next
  fix s R n fl s'
  assume "page_regions cfg s R \<and> page_power cfg" and "kmalloc_tiny cfg n fl s = (0, s')"
  then show "page_regions cfg s' R \<and> page_power cfg"
    using pg.get_none by (auto simp: kmalloc_tiny_def Let_def)
next
  fix s R p len assume "page_regions cfg s R \<and> page_power cfg" and "(p, len) \<in> R"
  then show "page_regions cfg (snd (kfree_tiny cfg p s)) (R - {(p, len)}) \<and> page_power cfg"
    using pg.free_region by (simp add: kfree_tiny_def)
next
  fix s R assume "page_regions cfg s R \<and> page_power cfg"
  then show "page_regions cfg (snd (kfree_tiny cfg 0 s)) R \<and> page_power cfg"
    using pg.free_null by (simp add: kfree_tiny_def)
qed

definition ex_packets :: packet_fifo where
  "ex_packets = \<lparr>bp = 0, slots = [], flags = 0, ri = 0, wi = 0, sz = 0, rsz = 0, wsz = 0, plen = 0\<rparr>"

section \<open>Properties\<close>

text \<open>C10: Creating a packet FIFO over the page allocator gives an array and packets that overlap
  neither one another nor anything allocated before; a creation that runs out of memory half way
  gives everything back.\<close>

theorem packet_fifo_create_safe:
  assumes inv: "page_regions cfg s R" "page_power cfg" and fits: "tiny_fits cfg (n * 4)" "tiny_fits cfg packet_size"
    and create: "packet_fifo_create (kmalloc_tiny cfg) (\<lambda>p s. snd (kfree_tiny cfg p s)) buffer packet_size n s
      = (r, b, s')"
  shows "if r = FIFO_PACKET_SUCCESS then
      length (slots b) = unat n \<and> distinct (bp b # slots b) \<and>
      (\<forall>p \<in> set (slots b). \<forall>q \<in> set (slots b). p \<noteq> q \<longrightarrow>
         region_bytes (p, unat packet_size) \<inter> region_bytes (q, unat packet_size) = {}) \<and>
      (\<forall>p \<in> set (slots b). region_bytes (p, unat packet_size) \<inter> region_bytes (bp b, unat (n * 4)) = {}) \<and>
      (\<exists>Q. page_regions cfg s' (R \<union> Q) \<and> apart R Q)
    else page_regions cfg s' R"
proof -
  have inv': "page_regions cfg s R \<and> page_power cfg" using inv by simp
  note c = tiny.create_run [OF inv' fits create]
  show ?thesis
  proof (cases "r = FIFO_PACKET_SUCCESS")
    case True
    let ?R = "insert (bp b, n * 4) ((\<lambda>a. (a, packet_size)) ` set (slots b))"
    from c True have run: "client_run (tiny_fits cfg) (kmalloc_tiny cfg) (\<lambda>p s. snd (kfree_tiny cfg p s)) s s' ?R"
      and b: "length (slots b) = unat n" "distinct (bp b # slots b)" by simp_all
    have "region_bytes (p, unat packet_size) \<inter> region_bytes (q, unat packet_size) = {}"
      if "p \<in> set (slots b)" "q \<in> set (slots b)" "p \<noteq> q" for p q
      using tiny.run_disjoint [OF run inv', of p packet_size q packet_size] that by simp
    moreover have "region_bytes (p, unat packet_size) \<inter> region_bytes (bp b, unat (n * 4)) = {}"
      if "p \<in> set (slots b)" for p
      using tiny.run_disjoint [OF run inv', of p packet_size "bp b" "n * 4"] that b(2) by auto
    moreover have "\<exists>Q. page_regions cfg s' (R \<union> Q) \<and> apart R Q"
      using tiny.run_covered [OF run inv'] by blast
    ultimately show ?thesis using True b by simp
  next
    case False
    with c have "client_run (tiny_fits cfg) (kmalloc_tiny cfg) (\<lambda>p s. snd (kfree_tiny cfg p s)) s s' {}" by simp
    from tiny.run_balanced [OF this inv'] False show ?thesis by simp
  qed
qed

text \<open>A request within a page of the end of the address space wraps to no pages at all, and
  succeeds with the one page the page allocator hands out for it.\<close>

lemma kmalloc_tiny_wraps:
  assumes "PAGE_SIZE cfg = 32"
  shows "kmalloc_tiny cfg 0xFFFFFFF0 fl s = get_free_pages cfg 0 fl s"
  using assms by (simp add: kmalloc_tiny_def ALIGN_U_def FRACTION_MASK_def)

lemma packet_fifo_create_witness:
  "case packet_fifo_create (kmalloc_tiny microbit) (\<lambda>p s. snd (kfree_tiny microbit p s)) ex_packets 32 1 eight of
     (r, b, s') \<Rightarrow> r = FIFO_PACKET_SUCCESS \<and> slots b = [0x20003F20] \<and>
       (\<exists>Q. page_regions microbit s' Q)"
proof -
  define x where "x = packet_fifo_create (kmalloc_tiny microbit) (\<lambda>p s. snd (kfree_tiny microbit p s)) ex_packets 32 1 eight"
  obtain r b s' where x': "x = (r, b, s')" by (metis prod_cases3)
  have 1: "page_regions microbit eight {}" using pages_inv_eight by (auto simp: page_regions_def)
  have 2: "page_power microbit" unfolding page_power_def by (intro exI [of _ 5]) simp
  have 3: "tiny_fits microbit (1 * 4)" "tiny_fits microbit 32" by (simp_all add: tiny_fits_def)
  have v: "fst x = FIFO_PACKET_SUCCESS \<and> slots (fst (snd x)) = [0x20003F20]"
    unfolding x_def by (simp add: packet_fifo_create_def kmalloc_tiny_def eval_eight ex_packets_def packet_codes)
  with packet_fifo_create_safe [OF 1 2 3 x' [unfolded x_def]] x' show ?thesis
    unfolding x_def [symmetric] by auto
qed

end
