(* ===== verification/Mem_Cache.thy ===== *)
theory Mem_Cache
  imports Page_Provider
begin

text \<open>
  \<open>src/kernel/memory/mem_cache.c\<close>: the slab allocator. A cache hands out chunks of one size; a
  slab is a run of pages cut into chunks, with a bitmap of the chunks in use, on one of three
  lists. The pages come from \<open>get_free_pages\<close> and \<open>free_pages\<close>, which the source reaches through
  the macros \<open>GET_FREE_PAGES\<close> and \<open>FREE_PAGES\<close>; they are arguments of the operations here, under
  the contract \<open>aligned_provider\<close>.

  The linked lists are HOL lists: every slab is on one list of one cache. The address of a slab
  structure is kept, since the page it lies in was asked for.
\<close>

section \<open>Data\<close>

definition KMALLOC_SIZE_MIN :: u32 where
  "KMALLOC_SIZE_MIN = 32"

definition BITMAP_BYTES :: "board \<Rightarrow> u32 \<Rightarrow> u32 \<Rightarrow> u32" where
  "BITMAP_BYTES cfg page_nb chunk = ((page_nb * PAGE_SIZE cfg + (chunk - 1)) div chunk + 7) div 8"

definition BITMAP_WORDS :: "board \<Rightarrow> u32 \<Rightarrow> u32 \<Rightarrow> u32" where
  "BITMAP_WORDS cfg page_nb chunk =
     (BITMAP_BYTES cfg page_nb chunk + (word_of_nat WORD_T_BYTES - 1)) div word_of_nat WORD_T_BYTES"

definition MAX_BITMAP_WORDS :: "board \<Rightarrow> u32" where
  "MAX_BITMAP_WORDS cfg = BITMAP_WORDS cfg 1 KMALLOC_SIZE_MIN"

record slab =
  slab_at :: u32
  slab_page :: u32
  bitmap :: "u32 list"
  allocated_chunks :: u32

text \<open>\<open>sizeof(struct slab)\<close>: two pointers, the bitmap and the counter.\<close>

definition slab_size :: "board \<Rightarrow> u32" where
  "slab_size cfg = 4 + 4 + 4 * MAX_BITMAP_WORDS cfg + 4"

definition SLABS_PER_PAGE :: "board \<Rightarrow> u32" where
  "SLABS_PER_PAGE cfg = PAGE_SIZE cfg div slab_size cfg"

record mem_cache =
  pages_per_slab :: u32
  chunk_sz :: u32
  gfp_flags :: u32
  full_slabs :: "slab list"
  partial_slabs :: "slab list"
  free_slabs :: "slab list"

definition CHUNKS_PER_SLAB :: "board \<Rightarrow> mem_cache \<Rightarrow> u32" where
  "CHUNKS_PER_SLAB cfg mc = pages_per_slab mc * PAGE_SIZE cfg div chunk_sz mc"

type_synonym 's get_pages = "u32 \<Rightarrow> u32 \<Rightarrow> 's \<Rightarrow> u32 \<times> 's"
type_synonym 's put_pages = "u32 \<Rightarrow> 's \<Rightarrow> 's"
type_synonym 's clear = "u32 \<Rightarrow> u32 \<Rightarrow> 's \<Rightarrow> 's"

section \<open>New slabs\<close>

text \<open>The slab structure in zeroed memory.\<close>

definition zero_slab :: "board \<Rightarrow> u32 \<Rightarrow> slab" where
  "zero_slab cfg a = \<lparr>slab_at = a, slab_page = 0, bitmap = replicate (unat (MAX_BITMAP_WORDS cfg)) 0,
     allocated_chunks = 0\<rparr>"

text \<open>The slabs of a page, linked from the first to the last.\<close>

definition link_page :: "board \<Rightarrow> u32 \<Rightarrow> slab list" where
  "link_page cfg p = zero_slab cfg p #
     map (\<lambda>s. zero_slab cfg (p + word_of_nat s * slab_size cfg)) [1..<unat (SLABS_PER_PAGE cfg)]"

text \<open>
  The loop over the pages, with the chain so far. \<open>last_slab\<close> points at the \<open>next\<close> field of the
  last slab but one, so a further page takes the place of the last slab (for the first page it
  is the head of the empty chain). When a page is missing, \<open>*last_slab\<close> is null and the pages are
  given back from \<open>first_slab[SLABS_PER_PAGE-1].next\<close>, which no page has set: the first one only.
\<close>

fun more_slabs_loop :: "board \<Rightarrow> 's get_pages \<Rightarrow> 's put_pages \<Rightarrow> u32 \<Rightarrow> nat \<Rightarrow> slab list \<Rightarrow> 's \<Rightarrow> slab list \<times> 's" where
  "more_slabs_loop cfg get free fl 0 sls s = (sls, s)"
| "more_slabs_loop cfg get free fl (Suc n) sls s =
     (case get 1 (fl OR GFP_ZERO) s of (p, s1) \<Rightarrow>
        if p = 0 then
          (case butlast sls of [] \<Rightarrow> ([], s1) | first # _ \<Rightarrow> ([], free (slab_at first) s1))
        else more_slabs_loop cfg get free fl n (butlast sls @ link_page cfg p) s1)"

definition more_slabs :: "board \<Rightarrow> 's get_pages \<Rightarrow> 's put_pages \<Rightarrow> u32 \<Rightarrow> u32 \<Rightarrow> 's \<Rightarrow> slab list \<times> 's" where
  "more_slabs cfg get free slabs fl s =
     (let pages = (slabs + (SLABS_PER_PAGE cfg - 1)) div SLABS_PER_PAGE cfg
      in more_slabs_loop cfg get free fl (unat pages) [] s)"

section \<open>The caches\<close>

text \<open>\<open>struct root_mem_cache\<close>, with the caches of its page that are in use.\<close>

record root_mem_cache =
  root_page :: u32
  caches_total :: nat
  caches :: "mem_cache list"

definition sizeof_mem_cache :: u32 where
  "sizeof_mem_cache = 24"

definition mem_cache_setup :: "board \<Rightarrow> 's get_pages \<Rightarrow> root_mem_cache \<Rightarrow> 's \<Rightarrow> int \<times> root_mem_cache \<times> 's" where
  "mem_cache_setup cfg get root s =
     (case get 1 GFP_KERNEL s of (p, s1) \<Rightarrow>
        if p \<noteq> 0 then
          (0, root\<lparr>root_page := p, caches_total := unat (PAGE_SIZE cfg div sizeof_mem_cache)\<rparr>, s1)
        else (-1, root\<lparr>root_page := 0\<rparr>, s1))"

definition mem_cache_teardown :: "'s put_pages \<Rightarrow> root_mem_cache \<Rightarrow> 's \<Rightarrow> int \<times> 's" where
  "mem_cache_teardown free root s = (0, free (root_page root) s)"

text \<open>The index of the new cache stands for its address.\<close>

definition mem_cache_new ::
  "board \<Rightarrow> u32 \<Rightarrow> u32 \<Rightarrow> u32 \<Rightarrow> root_mem_cache \<Rightarrow> (int \<times> nat option \<times> root_mem_cache) run" where
  "mem_cache_new cfg pages chunk fl root =
     (if root_page root = 0 then Inl BUG
      else if length (caches root) < caches_total root then
        if BITMAP_WORDS cfg pages chunk > MAX_BITMAP_WORDS cfg then Inr (-1, None, root)
        else Inr (0, Some (length (caches root)),
          root\<lparr>caches := caches root @ [\<lparr>pages_per_slab = pages, chunk_sz = chunk, gfp_flags = fl,
                 full_slabs = [], partial_slabs = [], free_slabs = []\<rparr>]\<rparr>)
      else Inr (-1, None, root))"

section \<open>Allocation\<close>

definition find_zero_bit_in_word :: "u32 \<Rightarrow> nat \<Rightarrow> u32" where
  "find_zero_bit_in_word w mx = (case find (\<lambda>b. w AND BIT b = 0) [0..<mx] of Some b \<Rightarrow> word_of_nat b | None \<Rightarrow> -1)"

text \<open>The body of the search loop: a whole word with a zero bit, then the bits of the last word.\<close>

definition find_in_slab :: "nat \<Rightarrow> slab \<Rightarrow> (nat \<times> nat) option" where
  "find_in_slab chunks sl =
     (let whole_words = chunks div WORD_T_BITS; extra_bits = chunks mod WORD_T_BITS
      in case find (\<lambda>w. NOT (bitmap sl ! w) \<noteq> 0) [0..<whole_words] of
           Some w \<Rightarrow> Some (w, unat (find_zero_bit_in_word (bitmap sl ! w) WORD_T_BITS))
         | None \<Rightarrow>
             if extra_bits \<noteq> 0 then
               let zb = find_zero_bit_in_word (bitmap sl ! whole_words) extra_bits
               in if zb \<noteq> -1 then Some (whole_words, unat zb) else None
             else None)"

text \<open>The position in the list that \<open>free_slab_ptr\<close> is left at, and the word and bit.\<close>

fun find_unallocated :: "nat \<Rightarrow> slab list \<Rightarrow> nat \<times> (nat \<times> nat) option" where
  "find_unallocated chunks [] = (0, None)"
| "find_unallocated chunks (sl # sls) =
     (case find_in_slab chunks sl of
        Some wb \<Rightarrow> (0, Some wb)
      | None \<Rightarrow> (case find_unallocated chunks sls of (i, r) \<Rightarrow> (Suc i, r)))"

definition chunk_address :: "mem_cache \<Rightarrow> slab \<Rightarrow> nat \<Rightarrow> nat \<Rightarrow> u32" where
  "chunk_address mc sl word bt = slab_page sl + word_of_nat (word * WORD_T_BITS + bt) * chunk_sz mc"

text \<open>The two steps at the head of \<open>mem_cache_alloc\<close>: out of slabs, and no partial slab. A failed
  search leaves \<open>*free_slab_ptr\<close> null, and the code goes on through it.\<close>

definition refill :: "board \<Rightarrow> 's get_pages \<Rightarrow> 's put_pages \<Rightarrow> mem_cache \<Rightarrow> 's \<Rightarrow> mem_cache \<times> 's" where
  "refill cfg get free mc s =
     (if free_slabs mc = [] \<and> partial_slabs mc = [] then
        case more_slabs cfg get free 1 (gfp_flags mc) s of (sls, s1) \<Rightarrow> (mc\<lparr>free_slabs := sls\<rparr>, s1)
      else (mc, s))"

definition pluck_free :: "'s get_pages \<Rightarrow> mem_cache \<Rightarrow> 's \<Rightarrow> mem_cache \<times> 's" where
  "pluck_free get mc s =
     (case free_slabs mc of
        [] \<Rightarrow> (mc, s)
      | f # fs \<Rightarrow>
          (case (if slab_page f = 0 then get (pages_per_slab mc) (gfp_flags mc) s else (slab_page f, s)) of
             (pg, s1) \<Rightarrow>
               if pg = 0 then (mc\<lparr>free_slabs := f\<lparr>slab_page := 0\<rparr> # fs\<rparr>, s1)
               else (mc\<lparr>partial_slabs := [f\<lparr>slab_page := pg\<rparr>], free_slabs := fs\<rparr>, s1)))"

definition mem_cache_alloc ::
  "board \<Rightarrow> 's get_pages \<Rightarrow> 's put_pages \<Rightarrow> 's clear \<Rightarrow> mem_cache \<Rightarrow> 's \<Rightarrow> (u32 \<times> mem_cache \<times> 's) run" where
  "mem_cache_alloc cfg get free clear mc s =
     (case refill cfg get free mc s of (mc1, s1) \<Rightarrow>
        if free_slabs mc1 = [] \<and> partial_slabs mc1 = [] then Inr (0, mc1, s1)
        else case (if partial_slabs mc1 = [] then pluck_free get mc1 s1 else (mc1, s1)) of (mc2, s2) \<Rightarrow>
          if partial_slabs mc2 = [] then Inr (0, mc2, s2)
          else case find_unallocated (unat (CHUNKS_PER_SLAB cfg mc2)) (partial_slabs mc2) of
            (i, None) \<Rightarrow> Inl FAULT
          | (i, Some (word, bt)) \<Rightarrow>
              let sl = partial_slabs mc2 ! i;
                  sl1 = sl\<lparr>bitmap := (bitmap sl)[word := bitmap sl ! word OR BIT bt],
                           allocated_chunks := allocated_chunks sl + 1\<rparr>;
                  mc3 = (if allocated_chunks sl1 = CHUNKS_PER_SLAB cfg mc2
                    then mc2\<lparr>partial_slabs := take i (partial_slabs mc2) @ drop (Suc i) (partial_slabs mc2),
                             full_slabs := sl1 # full_slabs mc2\<rparr>
                    else mc2\<lparr>partial_slabs := (partial_slabs mc2)[i := sl1]\<rparr>);
                  addr = chunk_address mc2 sl1 word bt;
                  s3 = (if gfp_flags mc2 AND GFP_ZERO \<noteq> 0 then clear addr (chunk_sz mc2) s2 else s2)
              in Inr (addr, mc3, s3))"

section \<open>Release\<close>

definition page_contains_address :: "board \<Rightarrow> mem_cache \<Rightarrow> slab \<Rightarrow> u32 \<Rightarrow> bool" where
  "page_contains_address cfg mc sl a \<longleftrightarrow>
     \<not> a < slab_page sl \<and> \<not> a \<ge> slab_page sl + pages_per_slab mc * PAGE_SIZE cfg"

datatype far = FAR_FOUND | FAR_NOT_FOUND | FAR_CORRUPT | FAR_DOUBLEFREE

fun find_allocated_loop :: "board \<Rightarrow> u32 \<Rightarrow> mem_cache \<Rightarrow> slab list \<Rightarrow> far \<times> nat \<times> nat \<times> nat" where
  "find_allocated_loop cfg mem mc [] = (FAR_NOT_FOUND, 0, 0, 0)"
| "find_allocated_loop cfg mem mc (sl # sls) =
     (if page_contains_address cfg mc sl mem then
        let slab_offset = unat ((mem - slab_page sl) div chunk_sz mc);
            word = slab_offset div WORD_T_BITS; bt = slab_offset mod WORD_T_BITS
        in (if bitmap sl ! word AND BIT bt \<noteq> 0 then FAR_FOUND else FAR_DOUBLEFREE, 0, word, bt)
      else case find_allocated_loop cfg mem mc sls of (r, i, wb) \<Rightarrow> (r, Suc i, wb))"

definition find_allocated :: "board \<Rightarrow> u32 \<Rightarrow> mem_cache \<Rightarrow> slab list \<Rightarrow> far \<times> nat \<times> nat \<times> nat" where
  "find_allocated cfg mem mc sls =
     (if mem AND (chunk_sz mc - 1) \<noteq> 0 then (FAR_CORRUPT, 0, 0, 0) else find_allocated_loop cfg mem mc sls)"

text \<open>The part after the search: clear the bit, unlink the slab, link it into its new list.\<close>

definition release_chunk ::
  "'s put_pages \<Rightarrow> slab \<Rightarrow> nat \<Rightarrow> nat \<Rightarrow> mem_cache \<Rightarrow> 's \<Rightarrow> mem_cache \<times> 's" where
  "release_chunk free sl word bt mc s =
     (let sl1 = sl\<lparr>bitmap := (bitmap sl)[word := bitmap sl ! word AND NOT (BIT bt)],
                   allocated_chunks := allocated_chunks sl - 1\<rparr>
      in if allocated_chunks sl1 \<noteq> 0 then (mc\<lparr>partial_slabs := sl1 # partial_slabs mc\<rparr>, s)
         else if gfp_flags mc AND GFP_ATOMIC = 0
           then (mc\<lparr>free_slabs := sl1\<lparr>slab_page := 0\<rparr> # free_slabs mc\<rparr>, free (slab_page sl1) s)
           else (mc\<lparr>free_slabs := sl1 # free_slabs mc\<rparr>, s))"

definition mem_cache_free ::
  "board \<Rightarrow> 's put_pages \<Rightarrow> mem_cache \<Rightarrow> u32 \<Rightarrow> 's \<Rightarrow> int \<times> mem_cache \<times> 's" where
  "mem_cache_free cfg free mc mem s =
     (if mem = 0 then (0, mc, s)
      else case find_allocated cfg mem mc (partial_slabs mc) of
        (FAR_NOT_FOUND, _) \<Rightarrow>
          (case find_allocated cfg mem mc (full_slabs mc) of
             (FAR_FOUND, i, word, bt) \<Rightarrow>
               (case release_chunk free (full_slabs mc ! i) word bt
                   (mc\<lparr>full_slabs := take i (full_slabs mc) @ drop (Suc i) (full_slabs mc)\<rparr>) s of
                  (mc1, s1) \<Rightarrow> (0, mc1, s1))
           | _ \<Rightarrow> (-1, mc, s))
      | (FAR_FOUND, i, word, bt) \<Rightarrow>
          (case release_chunk free (partial_slabs mc ! i) word bt
              (mc\<lparr>partial_slabs := take i (partial_slabs mc) @ drop (Suc i) (partial_slabs mc)\<rparr>) s of
             (mc1, s1) \<Rightarrow> (0, mc1, s1))
      | _ \<Rightarrow> (-1, mc, s))"

end
