(* ===== verification/Mem_Cache_Inv.thy ===== *)
theory Mem_Cache_Inv
  imports Mem_Cache
begin

text \<open>
  The invariant of the slab allocator and what its operations do to it: which chunks are in use,
  where they lie, and which requests to the page allocator stand behind them.
\<close>

section \<open>Bits of a slab\<close>

definition slab_bit :: "slab \<Rightarrow> nat \<Rightarrow> bool" where
  "slab_bit sl i \<longleftrightarrow> bit (bitmap sl ! (i div 32)) (i mod 32)"

definition used :: "nat \<Rightarrow> slab \<Rightarrow> nat set" where
  "used n sl = {i. i < n \<and> slab_bit sl i}"

lemma used_finite [simp]: "finite (used n sl)"
  by (simp add: used_def)

lemma used_update [simp]: "used n (sl\<lparr>slab_page := p\<rparr>) = used n sl" "used n (sl\<lparr>allocated_chunks := c\<rparr>) = used n sl"
  by (simp_all add: used_def slab_bit_def)

lemma used_le: "card (used n sl) \<le> n"
  using card_mono [of "{..<n}" "used n sl"] by (auto simp: used_def)

lemma find_zero_bit_Some:
  assumes "find_zero_bit_in_word w mx = z" and "mx \<le> 32" and "b < mx" and "\<not> bit w b"
  shows "unat z < mx \<and> \<not> bit w (unat z)"
proof -
  obtain c where c: "find (\<lambda>b. w AND BIT b = 0) [0..<mx] = Some c"
    using assms(2-4) by (cases "find (\<lambda>b. w AND BIT b = 0) [0..<mx]") (auto simp: find_None_iff and_BIT_eq_0_iff)
  then have "c < mx" "w AND BIT c = 0" by (auto simp: find_Some_iff)
  with c assms(1, 2) show ?thesis by (auto simp: find_zero_bit_in_word_def and_BIT_eq_0_iff unat_of_nat)
qed

lemma find_zero_bit_None:
  assumes "mx \<le> 32" and "\<forall>b < mx. bit w b"
  shows "find_zero_bit_in_word w mx = -1"
proof -
  have "find (\<lambda>b. w AND BIT b = 0) [0..<mx] = None"
    using assms by (auto simp: find_None_iff and_BIT_eq_0_iff)
  then show ?thesis by (simp add: find_zero_bit_in_word_def)
qed

lemma not_full_word: "NOT (w :: u32) \<noteq> 0 \<longleftrightarrow> (\<exists>b < 32. \<not> bit w b)"
  by (auto simp: bit_eq_iff bit_simps)

text \<open>The search returns a chunk that is not in use, and fails only when all of them are.\<close>

lemma find_in_slab_Some:
  assumes "find_in_slab n sl = Some (w, b)"
  shows "w * 32 + b < n \<and> b < 32 \<and> \<not> slab_bit sl (w * 32 + b)"
proof (cases "find (\<lambda>w. NOT (bitmap sl ! w) \<noteq> 0) [0..<n div 32]")
  case (Some w')
  then have w': "w' < n div 32" "NOT (bitmap sl ! w') \<noteq> 0" by (auto simp: find_Some_iff)
  then obtain c where "c < 32" "\<not> bit (bitmap sl ! w') c" by (auto simp: not_full_word)
  with find_zero_bit_Some [OF refl, of 32 c "bitmap sl ! w'"]
  have z: "unat (find_zero_bit_in_word (bitmap sl ! w') 32) < 32"
    "\<not> bit (bitmap sl ! w') (unat (find_zero_bit_in_word (bitmap sl ! w') 32))" by simp_all
  have "(w' + 1) * 32 \<le> n" using w'(1) by (simp add: less_eq_div_iff_mult_less_eq Suc_le_eq [symmetric])
  with z Some assms show ?thesis by (auto simp: find_in_slab_def WORD_T_BITS_def slab_bit_def Let_def)
next
  case None
  define z where "z = find_zero_bit_in_word (bitmap sl ! (n div 32)) (n mod 32)"
  from None assms have z: "z \<noteq> -1" "w = n div 32" "b = unat z" "n mod 32 \<noteq> 0"
    by (auto simp: find_in_slab_def WORD_T_BITS_def Let_def z_def split: if_splits)
  then obtain c where "c < n mod 32" "\<not> bit (bitmap sl ! (n div 32)) c"
    using find_zero_bit_None [of "n mod 32" "bitmap sl ! (n div 32)"] by (auto simp: z_def)
  with find_zero_bit_Some [of "bitmap sl ! (n div 32)" "n mod 32" z c]
  have "unat z < n mod 32" "\<not> bit (bitmap sl ! (n div 32)) (unat z)" by (simp_all add: z_def)
  moreover from this(1) have "unat z < 32" by (rule less_trans) simp
  moreover have "n div 32 * 32 + unat z < n"
    using \<open>unat z < n mod 32\<close> div_mult_mod_eq [of n 32] by linarith
  ultimately show ?thesis using z by (simp add: slab_bit_def)
qed

lemma find_in_slab_None:
  assumes "find_in_slab n sl = None" and "i < n"
  shows "slab_bit sl i"
proof -
  have none: "find (\<lambda>w. NOT (bitmap sl ! w) \<noteq> 0) [0..<n div 32] = None"
    using assms(1) by (cases "find (\<lambda>w. NOT (bitmap sl ! w) \<noteq> 0) [0..<n div 32]") (auto simp: find_in_slab_def WORD_T_BITS_def Let_def)
  consider "i div 32 < n div 32" | "i div 32 = n div 32" "i mod 32 < n mod 32"
    using assms(2) by (metis div_le_mono div_mult_mod_eq le_neq_implies_less less_imp_le_nat nat_add_left_cancel_less)
  then show ?thesis
  proof cases
    case 1
    then have "NOT (bitmap sl ! (i div 32)) = 0" using none by (auto simp: find_None_iff)
    then show ?thesis using not_full_word [of "bitmap sl ! (i div 32)"] by (auto simp: slab_bit_def)
  next
    case 2
    show ?thesis
    proof (rule ccontr)
      assume "\<not> slab_bit sl i"
      then have "\<not> bit (bitmap sl ! (n div 32)) (i mod 32)" using 2 by (simp add: slab_bit_def)
      with find_zero_bit_Some [OF refl, of "n mod 32" "i mod 32" "bitmap sl ! (n div 32)"] 2
      have z: "unat (find_zero_bit_in_word (bitmap sl ! (n div 32)) (n mod 32)) < n mod 32" by simp
      moreover have "n mod 32 < 32" by simp
      ultimately have "unat (find_zero_bit_in_word (bitmap sl ! (n div 32)) (n mod 32)) < 32" by linarith
      then have "find_zero_bit_in_word (bitmap sl ! (n div 32)) (n mod 32) \<noteq> -1" by auto
      with z assms(1) none show False by (auto simp: find_in_slab_def WORD_T_BITS_def Let_def)
    qed
  qed
qed

section \<open>The invariant\<close>

abbreviation nchunks :: "board \<Rightarrow> mem_cache \<Rightarrow> nat" where
  "nchunks cfg mc \<equiv> unat (CHUNKS_PER_SLAB cfg mc)"

text \<open>Chunk sizes the cache works for: a power of two that divides the page, with a bitmap that fits.\<close>

definition geometry :: "board \<Rightarrow> mem_cache \<Rightarrow> bool" where
  "geometry cfg mc \<longleftrightarrow> (\<exists>j < 32. chunk_sz mc = 2 ^ j \<and> 2 ^ j dvd unat (PAGE_SIZE cfg)) \<and>
     0 < unat (PAGE_SIZE cfg) \<and> 0 < unat (pages_per_slab mc) \<and>
     unat (pages_per_slab mc) * unat (PAGE_SIZE cfg) < 2 ^ 32 \<and>
     nchunks cfg mc \<le> 32 * unat (MAX_BITMAP_WORDS cfg)"

lemma geometryD:
  assumes "geometry cfg mc"
  shows "0 < unat (chunk_sz mc)"
    and "nchunks cfg mc * unat (chunk_sz mc) = unat (pages_per_slab mc) * unat (PAGE_SIZE cfg)"
    and "unat (chunk_sz mc) dvd unat (PAGE_SIZE cfg)"
    and "0 < nchunks cfg mc"
    and "nchunks cfg mc \<le> 32 * unat (MAX_BITMAP_WORDS cfg)"
    and "unat (pages_per_slab mc * PAGE_SIZE cfg) = unat (pages_per_slab mc) * unat (PAGE_SIZE cfg)"
proof -
  from assms obtain j where j: "j < 32" "chunk_sz mc = 2 ^ j" "2 ^ j dvd unat (PAGE_SIZE cfg)"
    and lt: "unat (pages_per_slab mc) * unat (PAGE_SIZE cfg) < 2 ^ 32"
    and pos: "0 < unat (PAGE_SIZE cfg)" "0 < unat (pages_per_slab mc)"
    by (auto simp: geometry_def)
  show "0 < unat (chunk_sz mc)" and d: "unat (chunk_sz mc) dvd unat (PAGE_SIZE cfg)" using j by simp_all
  show m: "unat (pages_per_slab mc * PAGE_SIZE cfg) = unat (pages_per_slab mc) * unat (PAGE_SIZE cfg)"
    using lt by (rule unat_mult_u32)
  show n: "nchunks cfg mc * unat (chunk_sz mc) = unat (pages_per_slab mc) * unat (PAGE_SIZE cfg)"
    using d by (simp add: CHUNKS_PER_SLAB_def unat_div_u32 m)
  have "nchunks cfg mc * unat (chunk_sz mc) \<noteq> 0" unfolding n using pos by simp
  then show "0 < nchunks cfg mc" by simp
  show "nchunks cfg mc \<le> 32 * unat (MAX_BITMAP_WORDS cfg)" using assms by (simp add: geometry_def)
qed

definition slab_ok :: "board \<Rightarrow> mem_cache \<Rightarrow> slab \<Rightarrow> bool" where
  "slab_ok cfg mc sl \<longleftrightarrow> length (bitmap sl) = unat (MAX_BITMAP_WORDS cfg) \<and>
     unat (allocated_chunks sl) = card (used (nchunks cfg mc) sl)"

definition cache_slabs :: "mem_cache \<Rightarrow> slab list" where
  "cache_slabs mc = full_slabs mc @ partial_slabs mc @ free_slabs mc"

text \<open>\<open>M\<close> are requests to the page allocator; every slab with a page holds one of them.\<close>

definition cache_ok :: "board \<Rightarrow> mem_cache \<Rightarrow> (u32 \<times> u32) set \<Rightarrow> bool" where
  "cache_ok cfg mc M \<longleftrightarrow> geometry cfg mc \<and>
     (\<forall>sl \<in> set (cache_slabs mc). slab_ok cfg mc sl) \<and>
     (\<forall>sl \<in> set (full_slabs mc). used (nchunks cfg mc) sl = {..<nchunks cfg mc} \<and> slab_page sl \<noteq> 0) \<and>
     (\<forall>sl \<in> set (partial_slabs mc). used (nchunks cfg mc) sl \<noteq> {..<nchunks cfg mc} \<and> slab_page sl \<noteq> 0) \<and>
     (\<forall>sl \<in> set (free_slabs mc). used (nchunks cfg mc) sl = {}) \<and>
     distinct (filter (\<lambda>p. p \<noteq> 0) (map slab_page (cache_slabs mc))) \<and>
     (\<forall>sl \<in> set (cache_slabs mc). slab_page sl \<noteq> 0 \<longrightarrow> (slab_page sl, pages_per_slab mc) \<in> M)"

text \<open>The addresses of the chunks in use.\<close>

definition chunk_addr :: "mem_cache \<Rightarrow> slab \<Rightarrow> nat \<Rightarrow> u32" where
  "chunk_addr mc sl i = slab_page sl + word_of_nat i * chunk_sz mc"

definition allocated :: "board \<Rightarrow> mem_cache \<Rightarrow> u32 set" where
  "allocated cfg mc = (\<Union>sl \<in> set (full_slabs mc) \<union> set (partial_slabs mc). chunk_addr mc sl ` used (nchunks cfg mc) sl)"

text \<open>What the page allocator's contract says of outstanding requests.\<close>

definition held :: "nat \<Rightarrow> (u32 \<times> u32) set \<Rightarrow> bool" where
  "held page R \<longleftrightarrow>
     (\<forall>p n. (p, n) \<in> R \<longrightarrow> p \<noteq> 0 \<and> page dvd unat p \<and> unat p + unat n * page < 2 ^ 32) \<and>
     (\<forall>p n q m. (p, n) \<in> R \<longrightarrow> (q, m) \<in> R \<longrightarrow> (p, n) \<noteq> (q, m) \<longrightarrow>
        p \<noteq> q \<and> region_bytes (p, unat n * page) \<inter> region_bytes (q, unat m * page) = {})"

context aligned_provider
begin

lemma owns_held:
  assumes own: "owns inv page R0 s R"
  shows "held page R"
proof -
  obtain Q where Q: "inv s (R0 \<union> Q)" "covered page R Q" using own by (rule ownsE)
  have "p \<noteq> 0 \<and> page dvd unat p \<and> unat p + unat n * page < 2 ^ 32" if n: "(p, n) \<in> R" for p n
  proof -
    obtain l where l: "unat n * page \<le> l" "(p, l) \<in> R0 \<union> Q" using coveredD(1) [OF Q(2) n] by blast
    from aligned [OF Q(1) l(2)] not_null [OF Q(1) l(2)] in_range [OF Q(1) l(2)] l(1) show ?thesis by simp
  qed
  moreover have "p \<noteq> q \<and> region_bytes (p, unat n * page) \<inter> region_bytes (q, unat m * page) = {}"
    if n: "(p, n) \<in> R" and m: "(q, m) \<in> R" and ne: "(p, n) \<noteq> (q, m)" for p n q m
  proof
    show "p \<noteq> q"
    proof
      assume pq: "p = q"
      then have "n = m" using coveredD(2) [OF Q(2)] n m by blast
      with pq ne show False by simp
    qed
    show "region_bytes (p, unat n * page) \<inter> region_bytes (q, unat m * page) = {}"
      using owns_disjoint [OF own n m ne] .
  qed
  ultimately show ?thesis unfolding held_def by blast
qed

end

section \<open>Where chunks lie\<close>

lemma cache_update [simp]:
  "CHUNKS_PER_SLAB cfg (mc\<lparr>full_slabs := xs\<rparr>) = CHUNKS_PER_SLAB cfg mc"
  "CHUNKS_PER_SLAB cfg (mc\<lparr>partial_slabs := xs\<rparr>) = CHUNKS_PER_SLAB cfg mc"
  "CHUNKS_PER_SLAB cfg (mc\<lparr>free_slabs := xs\<rparr>) = CHUNKS_PER_SLAB cfg mc"
  "geometry cfg (mc\<lparr>full_slabs := xs\<rparr>) = geometry cfg mc"
  "geometry cfg (mc\<lparr>partial_slabs := xs\<rparr>) = geometry cfg mc"
  "geometry cfg (mc\<lparr>free_slabs := xs\<rparr>) = geometry cfg mc"
  "slab_ok cfg (mc\<lparr>full_slabs := xs\<rparr>) = slab_ok cfg mc"
  "slab_ok cfg (mc\<lparr>partial_slabs := xs\<rparr>) = slab_ok cfg mc"
  "slab_ok cfg (mc\<lparr>free_slabs := xs\<rparr>) = slab_ok cfg mc"
  "chunk_addr (mc\<lparr>full_slabs := xs\<rparr>) = chunk_addr mc"
  "chunk_addr (mc\<lparr>partial_slabs := xs\<rparr>) = chunk_addr mc"
  "chunk_addr (mc\<lparr>free_slabs := xs\<rparr>) = chunk_addr mc"
  by (simp_all add: CHUNKS_PER_SLAB_def geometry_def slab_ok_def chunk_addr_def fun_eq_iff)

lemma cache_okD:
  assumes "cache_ok cfg mc M"
  shows "geometry cfg mc"
    and "sl \<in> set (cache_slabs mc) \<Longrightarrow> slab_ok cfg mc sl"
    and "sl \<in> set (full_slabs mc) \<Longrightarrow> used (nchunks cfg mc) sl = {..<nchunks cfg mc} \<and> slab_page sl \<noteq> 0"
    and "sl \<in> set (partial_slabs mc) \<Longrightarrow> used (nchunks cfg mc) sl \<noteq> {..<nchunks cfg mc} \<and> slab_page sl \<noteq> 0"
    and "sl \<in> set (free_slabs mc) \<Longrightarrow> used (nchunks cfg mc) sl = {}"
    and "distinct (filter (\<lambda>p. p \<noteq> 0) (map slab_page (cache_slabs mc)))"
    and "sl \<in> set (cache_slabs mc) \<Longrightarrow> slab_page sl \<noteq> 0 \<Longrightarrow> (slab_page sl, pages_per_slab mc) \<in> M"
  using assms unfolding cache_ok_def by blast+

lemma distinct_filter_map:
  "distinct (filter P (map f xs)) \<Longrightarrow> x \<in> set xs \<Longrightarrow> y \<in> set xs \<Longrightarrow> P (f x) \<Longrightarrow> f x = f y \<Longrightarrow> x = y"
  by (induction xs) (fastforce split: if_splits simp: image_iff)+

lemma chunk_addr_unat:
  assumes "geometry cfg mc" and "held (unat (PAGE_SIZE cfg)) R" and "(slab_page sl, pages_per_slab mc) \<in> R"
    and "i < nchunks cfg mc"
  shows "unat (chunk_addr mc sl i) = unat (slab_page sl) + i * unat (chunk_sz mc)"
    and "(i + 1) * unat (chunk_sz mc) \<le> unat (pages_per_slab mc) * unat (PAGE_SIZE cfg)"
    and "unat (slab_page sl) + unat (pages_per_slab mc) * unat (PAGE_SIZE cfg) < 2 ^ 32"
proof -
  let ?cs = "unat (chunk_sz mc)" and ?l = "unat (pages_per_slab mc) * unat (PAGE_SIZE cfg)"
  show p: "unat (slab_page sl) + ?l < 2 ^ 32" using assms(2, 3) unfolding held_def by blast
  have "(i + 1) * ?cs \<le> nchunks cfg mc * ?cs" using assms(4) by (intro mult_le_mono1) simp
  then show i: "(i + 1) * ?cs \<le> ?l" using geometryD(2) [OF assms(1)] by simp
  have n: "unat (word_of_nat i :: u32) = i"
    using less_trans [OF assms(4) unat_u32_less] by (simp add: unat_of_nat)
  have b: "unat (slab_page sl) + i * ?cs < 2 ^ 32" using p i by simp
  have "unat (word_of_nat i * chunk_sz mc) = i * ?cs" using b n by (subst unat_mult_u32) simp_all
  then show "unat (chunk_addr mc sl i) = unat (slab_page sl) + i * ?cs"
    using b by (simp add: chunk_addr_def unat_add_u32)
qed

text \<open>The chunks of a slab lie in its pages, and two chunks never share a byte.\<close>

lemma chunk_in_slab:
  assumes "geometry cfg mc" and "held (unat (PAGE_SIZE cfg)) R" and "(slab_page sl, pages_per_slab mc) \<in> R"
    and "i < nchunks cfg mc"
  shows "region_bytes (chunk_addr mc sl i, unat (chunk_sz mc)) \<subseteq>
    region_bytes (slab_page sl, unat (pages_per_slab mc) * unat (PAGE_SIZE cfg))"
  using chunk_addr_unat [OF assms] by (auto simp: region_bytes_def)

lemma chunks_same_slab:
  assumes "geometry cfg mc" and "held (unat (PAGE_SIZE cfg)) R" and "(slab_page sl, pages_per_slab mc) \<in> R"
    and "i < nchunks cfg mc" and "j < nchunks cfg mc" and "i < j"
  shows "region_bytes (chunk_addr mc sl i, unat (chunk_sz mc)) \<inter>
    region_bytes (chunk_addr mc sl j, unat (chunk_sz mc)) = {}"
proof -
  have "(i + 1) * unat (chunk_sz mc) \<le> j * unat (chunk_sz mc)" using assms(6) by (intro mult_le_mono1) simp
  then show ?thesis
    using chunk_addr_unat(1) [OF assms(1-4)] chunk_addr_unat(1) [OF assms(1-3, 5)]
    by (auto simp: region_bytes_def)
qed

lemma chunks_apart:
  assumes ok: "cache_ok cfg mc M" and h: "held (unat (PAGE_SIZE cfg)) R" and M: "M \<subseteq> R"
    and sl: "sl \<in> set (cache_slabs mc)" "slab_page sl \<noteq> 0" "i < nchunks cfg mc"
    and sl': "sl' \<in> set (cache_slabs mc)" "slab_page sl' \<noteq> 0" "i' < nchunks cfg mc"
    and ne: "(sl, i) \<noteq> (sl', i')"
  shows "region_bytes (chunk_addr mc sl i, unat (chunk_sz mc)) \<inter>
    region_bytes (chunk_addr mc sl' i', unat (chunk_sz mc)) = {}"
proof (cases "sl = sl'")
  case True
  have R: "(slab_page sl, pages_per_slab mc) \<in> R" using cache_okD(7) [OF ok sl(1, 2)] M by blast
  consider "i < i'" | "i' < i" using ne True by fastforce
  then show ?thesis
  proof cases
    case 1
    show ?thesis using chunks_same_slab [OF cache_okD(1) [OF ok] h R sl(3) sl'(3) 1] True by simp
  next
    case 2
    show ?thesis using chunks_same_slab [OF cache_okD(1) [OF ok] h R sl'(3) sl(3) 2] True by (simp add: Int_commute)
  qed
next
  case False
  have p: "slab_page sl \<noteq> slab_page sl'"
    using distinct_filter_map [OF cache_okD(6) [OF ok] sl(1) sl'(1)] sl(2) False by blast
  have in_R: "(slab_page sl, pages_per_slab mc) \<in> R" "(slab_page sl', pages_per_slab mc) \<in> R"
    using cache_okD(7) [OF ok] sl sl' M by blast+
  then have "region_bytes (slab_page sl, unat (pages_per_slab mc) * unat (PAGE_SIZE cfg)) \<inter>
    region_bytes (slab_page sl', unat (pages_per_slab mc) * unat (PAGE_SIZE cfg)) = {}"
    using h p unfolding held_def by blast
  with chunk_in_slab [OF cache_okD(1) [OF ok] h in_R(1) sl(3)] chunk_in_slab [OF cache_okD(1) [OF ok] h in_R(2) sl'(3)]
  show ?thesis by blast
qed

lemma chunk_addr_inj:
  assumes "cache_ok cfg mc M" and "held (unat (PAGE_SIZE cfg)) R" and "M \<subseteq> R"
    and "sl \<in> set (cache_slabs mc)" "slab_page sl \<noteq> 0" "i < nchunks cfg mc"
    and "sl' \<in> set (cache_slabs mc)" "slab_page sl' \<noteq> 0" "i' < nchunks cfg mc"
    and "chunk_addr mc sl i = chunk_addr mc sl' i'"
  shows "sl = sl' \<and> i = i'"
proof (rule ccontr)
  assume "\<not> (sl = sl' \<and> i = i')"
  with chunks_apart [OF assms(1-9)] assms(10) region_start [OF geometryD(1) [OF cache_okD(1) [OF assms(1)]], of "chunk_addr mc sl i"]
  show False by auto
qed

lemma allocatedD:
  assumes "cache_ok cfg mc M" and "a \<in> allocated cfg mc"
  obtains sl i where "sl \<in> set (full_slabs mc) \<union> set (partial_slabs mc)" and "sl \<in> set (cache_slabs mc)"
    and "slab_page sl \<noteq> 0" and "i < nchunks cfg mc" and "slab_bit sl i" and "a = chunk_addr mc sl i"
proof -
  from assms(2) obtain sl i where sl: "sl \<in> set (full_slabs mc) \<union> set (partial_slabs mc)"
    and i: "i \<in> used (nchunks cfg mc) sl" "a = chunk_addr mc sl i"
    unfolding allocated_def by blast
  have "slab_page sl \<noteq> 0" using sl cache_okD(3, 4) [OF assms(1)] by blast
  moreover have "sl \<in> set (cache_slabs mc)" using sl by (auto simp: cache_slabs_def)
  moreover have "i < nchunks cfg mc" "slab_bit sl i" using i(1) by (simp_all add: used_def)
  ultimately show thesis using i(2) by (intro that [OF sl])
qed

section \<open>Taking and returning a chunk\<close>

definition take_bit_of :: "slab \<Rightarrow> nat \<Rightarrow> slab" where
  "take_bit_of sl i = sl\<lparr>bitmap := (bitmap sl)[i div 32 := bitmap sl ! (i div 32) OR BIT (i mod 32)],
     allocated_chunks := allocated_chunks sl + 1\<rparr>"

definition give_bit_of :: "slab \<Rightarrow> nat \<Rightarrow> slab" where
  "give_bit_of sl i = sl\<lparr>bitmap := (bitmap sl)[i div 32 := bitmap sl ! (i div 32) AND NOT (BIT (i mod 32))],
     allocated_chunks := allocated_chunks sl - 1\<rparr>"

lemma same_word_bit: "i \<noteq> j \<Longrightarrow> i div 32 = j div 32 \<Longrightarrow> i mod 32 \<noteq> (j :: nat) mod 32"
  by (metis div_mult_mod_eq)

lemma slab_bit_taken:
  assumes "i div 32 < length (bitmap sl)"
  shows "slab_bit (take_bit_of sl i) j \<longleftrightarrow> j = i \<or> slab_bit sl j"
  using assms same_word_bit [of i j]
  by (cases "j = i"; cases "j div 32 = i div 32") (auto simp: slab_bit_def take_bit_of_def bit_simps)

lemma slab_bit_given:
  assumes "i div 32 < length (bitmap sl)"
  shows "slab_bit (give_bit_of sl i) j \<longleftrightarrow> j \<noteq> i \<and> slab_bit sl j"
  using assms same_word_bit [of i j]
  by (cases "j = i"; cases "j div 32 = i div 32") (auto simp: slab_bit_def give_bit_of_def bit_simps)

lemma slab_update [simp]:
  "slab_page (take_bit_of sl i) = slab_page sl" "slab_page (give_bit_of sl i) = slab_page sl"
  "slab_at (take_bit_of sl i) = slab_at sl" "slab_at (give_bit_of sl i) = slab_at sl"
  by (simp_all add: take_bit_of_def give_bit_of_def)

lemma take_bit_ok:
  assumes ok: "slab_ok cfg mc sl" and i: "i < nchunks cfg mc" "\<not> slab_bit sl i"
    and g: "nchunks cfg mc \<le> 32 * unat (MAX_BITMAP_WORDS cfg)"
  shows "used (nchunks cfg mc) (take_bit_of sl i) = insert i (used (nchunks cfg mc) sl)"
    and "slab_ok cfg mc (take_bit_of sl i)"
    and "allocated_chunks (take_bit_of sl i) = CHUNKS_PER_SLAB cfg mc \<longleftrightarrow>
      used (nchunks cfg mc) (take_bit_of sl i) = {..<nchunks cfg mc}"
proof -
  let ?n = "nchunks cfg mc"
  have w: "i div 32 < length (bitmap sl)" using i(1) g ok by (auto simp: slab_ok_def)
  show u: "used ?n (take_bit_of sl i) = insert i (used ?n sl)"
    using i slab_bit_taken [OF w] by (auto simp: used_def)
  have new: "i \<notin> used ?n sl" using i by (simp add: used_def)
  have c: "card (insert i (used ?n sl)) = Suc (card (used ?n sl))" using new by simp
  have "Suc (card (used ?n sl)) \<le> ?n" using used_le [of ?n "take_bit_of sl i"] u c by simp
  moreover have "?n \<le> 4294967295" by (rule unat_u32_le)
  ultimately have "card (used ?n sl) < 4294967295" by linarith
  then have a: "unat (allocated_chunks sl + 1) = card (used ?n (take_bit_of sl i))"
    using ok c u by (simp add: slab_ok_def unat_add_u32)
  then show "slab_ok cfg mc (take_bit_of sl i)" using ok by (simp add: slab_ok_def take_bit_of_def)
  have "used ?n (take_bit_of sl i) \<subseteq> {..<?n}" by (auto simp: used_def)
  then have "card (used ?n (take_bit_of sl i)) = ?n \<longleftrightarrow> used ?n (take_bit_of sl i) = {..<?n}"
    using card_subset_eq [OF finite_lessThan] card_lessThan [of ?n] by metis
  moreover have "allocated_chunks (take_bit_of sl i) = CHUNKS_PER_SLAB cfg mc \<longleftrightarrow> unat (allocated_chunks sl + 1) = ?n"
    by (simp add: take_bit_of_def word_unat_eq_iff)
  ultimately show "allocated_chunks (take_bit_of sl i) = CHUNKS_PER_SLAB cfg mc \<longleftrightarrow>
      used ?n (take_bit_of sl i) = {..<?n}" unfolding a by simp
qed

lemma give_bit_ok:
  assumes ok: "slab_ok cfg mc sl" and i: "i < nchunks cfg mc" "slab_bit sl i"
    and g: "nchunks cfg mc \<le> 32 * unat (MAX_BITMAP_WORDS cfg)"
  shows "used (nchunks cfg mc) (give_bit_of sl i) = used (nchunks cfg mc) sl - {i}"
    and "slab_ok cfg mc (give_bit_of sl i)"
    and "allocated_chunks (give_bit_of sl i) = 0 \<longleftrightarrow> used (nchunks cfg mc) (give_bit_of sl i) = {}"
proof -
  let ?n = "nchunks cfg mc"
  have w: "i div 32 < length (bitmap sl)" using i(1) g ok by (auto simp: slab_ok_def)
  show u: "used ?n (give_bit_of sl i) = used ?n sl - {i}"
    using i slab_bit_given [OF w] by (auto simp: used_def)
  have "i \<in> used ?n sl" using i by (simp add: used_def)
  then have c: "card (used ?n sl) = Suc (card (used ?n sl - {i}))" by (simp only: card_Suc_Diff1 [OF used_finite])
  then have "allocated_chunks sl \<noteq> 0" using ok by (auto simp: slab_ok_def)
  then have "unat (allocated_chunks sl - 1) = unat (allocated_chunks sl) - 1" by (simp add: unat_minus_one)
  then have a: "unat (allocated_chunks sl - 1) = card (used ?n (give_bit_of sl i))"
    using ok c u by (simp add: slab_ok_def)
  then show "slab_ok cfg mc (give_bit_of sl i)" using ok by (simp add: slab_ok_def give_bit_of_def)
  have "allocated_chunks (give_bit_of sl i) = 0 \<longleftrightarrow> unat (allocated_chunks sl - 1) = 0"
    by (simp add: give_bit_of_def unsigned_eq_0_iff)
  then show "allocated_chunks (give_bit_of sl i) = 0 \<longleftrightarrow> used ?n (give_bit_of sl i) = {}" unfolding a by simp
qed

lemma cache_okI:
  assumes "geometry cfg mc"
    and "\<And>sl. sl \<in> set (full_slabs mc) \<Longrightarrow> slab_ok cfg mc sl \<and> used (nchunks cfg mc) sl = {..<nchunks cfg mc} \<and>
      slab_page sl \<noteq> 0 \<and> (slab_page sl, pages_per_slab mc) \<in> M"
    and "\<And>sl. sl \<in> set (partial_slabs mc) \<Longrightarrow> slab_ok cfg mc sl \<and> used (nchunks cfg mc) sl \<noteq> {..<nchunks cfg mc} \<and>
      slab_page sl \<noteq> 0 \<and> (slab_page sl, pages_per_slab mc) \<in> M"
    and "\<And>sl. sl \<in> set (free_slabs mc) \<Longrightarrow> slab_ok cfg mc sl \<and> used (nchunks cfg mc) sl = {} \<and>
      (slab_page sl \<noteq> 0 \<longrightarrow> (slab_page sl, pages_per_slab mc) \<in> M)"
    and "distinct (filter (\<lambda>p. p \<noteq> 0) (map slab_page (cache_slabs mc)))"
  shows "cache_ok cfg mc M"
proof -
  have "slab_ok cfg mc sl \<and> (slab_page sl \<noteq> 0 \<longrightarrow> (slab_page sl, pages_per_slab mc) \<in> M)" if "sl \<in> set (cache_slabs mc)" for sl
    using that assms(2-4) [of sl] by (auto simp: cache_slabs_def)
  with assms show ?thesis unfolding cache_ok_def by blast
qed

text \<open>Taking a chunk of the first partial slab.\<close>

lemma take_step:
  assumes ok: "cache_ok cfg mc M" and part: "partial_slabs mc = sl # sls"
  obtains i where "find_unallocated (nchunks cfg mc) (partial_slabs mc) = (0, Some (i div 32, i mod 32))"
    and "i < nchunks cfg mc" and "\<not> slab_bit sl i"
    and "cache_ok cfg (if allocated_chunks (take_bit_of sl i) = CHUNKS_PER_SLAB cfg mc
      then mc\<lparr>partial_slabs := sls, full_slabs := take_bit_of sl i # full_slabs mc\<rparr>
      else mc\<lparr>partial_slabs := take_bit_of sl i # sls\<rparr>) M"
    and "allocated cfg (if allocated_chunks (take_bit_of sl i) = CHUNKS_PER_SLAB cfg mc
      then mc\<lparr>partial_slabs := sls, full_slabs := take_bit_of sl i # full_slabs mc\<rparr>
      else mc\<lparr>partial_slabs := take_bit_of sl i # sls\<rparr>) = insert (chunk_addr mc sl i) (allocated cfg mc)"
proof -
  let ?n = "nchunks cfg mc"
  have sl: "sl \<in> set (cache_slabs mc)" "sl \<in> set (partial_slabs mc)" using part by (simp_all add: cache_slabs_def)
  have room: "used ?n sl \<noteq> {..<?n}" using cache_okD(4) [OF ok sl(2)] by blast
  have "find_in_slab ?n sl \<noteq> None"
  proof
    assume "find_in_slab ?n sl = None"
    from find_in_slab_None [OF this] have "used ?n sl = {..<?n}" by (auto simp: used_def)
    with room show False by simp
  qed
  then obtain w b where wb: "find_in_slab ?n sl = Some (w, b)" by fastforce
  define i where "i = w * 32 + b"
  have i: "i < ?n" "\<not> slab_bit sl i" "i div 32 = w" "i mod 32 = b"
    using find_in_slab_Some [OF wb] by (simp_all add: i_def)
  have find: "find_unallocated ?n (partial_slabs mc) = (0, Some (i div 32, i mod 32))"
    using wb i by (simp add: part)
  note t = take_bit_ok [OF cache_okD(2) [OF ok sl(1)] i(1, 2) geometryD(5) [OF cache_okD(1) [OF ok]]]
  have slabs: "set (cache_slabs mc) = insert sl (set (full_slabs mc) \<union> set sls \<union> set (free_slabs mc))"
    using part by (auto simp: cache_slabs_def)
  have pg: "slab_page sl \<noteq> 0" "(slab_page sl, pages_per_slab mc) \<in> M" "slab_ok cfg mc sl"
    using cache_okD(4) [OF ok sl(2)] cache_okD(2, 7) [OF ok sl(1)] by blast+
  have other: "slab_ok cfg mc x \<and> (slab_page x \<noteq> 0 \<longrightarrow> (slab_page x, pages_per_slab mc) \<in> M)"
    if "x \<in> set (full_slabs mc) \<union> set sls \<union> set (free_slabs mc)" for x
    using that cache_okD(2, 7) [OF ok, of x] unfolding slabs by blast
  have dist: "distinct (filter (\<lambda>p. p \<noteq> 0) (map slab_page (full_slabs mc @ sl # sls @ free_slabs mc)))"
    using cache_okD(6) [OF ok] part by (simp add: cache_slabs_def)
  have addr: "chunk_addr mc (take_bit_of sl i) = chunk_addr mc sl" by (simp add: chunk_addr_def fun_eq_iff)
  let ?mc = "if allocated_chunks (take_bit_of sl i) = CHUNKS_PER_SLAB cfg mc
      then mc\<lparr>partial_slabs := sls, full_slabs := take_bit_of sl i # full_slabs mc\<rparr>
      else mc\<lparr>partial_slabs := take_bit_of sl i # sls\<rparr>"
  have "cache_ok cfg ?mc M"
    using cache_okD(1) [OF ok] cache_okD(3-5) [OF ok] other pg t dist
    by (intro cache_okI) (auto simp: part cache_slabs_def split: if_splits)
  moreover have "allocated cfg ?mc = insert (chunk_addr mc sl i) (allocated cfg mc)"
    using t(1) addr by (auto simp: allocated_def part)
  ultimately show thesis using that find i by blast
qed

lemma distinct_pull: "distinct (filter P (xs @ y # zs)) \<longleftrightarrow> distinct (filter P (y # xs @ zs))"
  by auto

text \<open>Moving slabs: one off a list, one onto the partial or the free list.\<close>

lemma cache_ok_mono: "cache_ok cfg mc M \<Longrightarrow> M \<subseteq> N \<Longrightarrow> cache_ok cfg mc N"
  unfolding cache_ok_def by blast

lemma unlinked:
  assumes ok: "cache_ok cfg mc M" and pg: "slab_page sl \<noteq> 0"
    and at: "(full_slabs mc = xs @ sl # ys \<and> mc0 = mc\<lparr>full_slabs := xs @ ys\<rparr>) \<or>
      (partial_slabs mc = xs @ sl # ys \<and> mc0 = mc\<lparr>partial_slabs := xs @ ys\<rparr>)"
  shows "slab_page sl \<notin> slab_page ` set (cache_slabs mc0)"
    and "cache_ok cfg mc0 (M - {(slab_page sl, pages_per_slab mc)})"
proof -
  obtain as cs where pages: "map slab_page (cache_slabs mc) = as @ slab_page sl # cs" "map slab_page (cache_slabs mc0) = as @ cs"
    using at
  proof (elim disjE conjE)
    assume "full_slabs mc = xs @ sl # ys" and "mc0 = mc\<lparr>full_slabs := xs @ ys\<rparr>"
    then show thesis using that [of "map slab_page xs"] by (simp add: cache_slabs_def)
  next
    assume "partial_slabs mc = xs @ sl # ys" and "mc0 = mc\<lparr>partial_slabs := xs @ ys\<rparr>"
    then show thesis using that [of "map slab_page (full_slabs mc @ xs)"] by (simp add: cache_slabs_def)
  qed
  have d: "distinct (filter (\<lambda>p. p \<noteq> 0) (slab_page sl # map slab_page (cache_slabs mc0)))"
    using cache_okD(6) [OF ok] unfolding pages by (rule distinct_pull [THEN iffD1])
  then have d0: "distinct (filter (\<lambda>p. p \<noteq> 0) (map slab_page (cache_slabs mc0)))" by (simp split: if_splits)
  show gone: "slab_page sl \<notin> slab_page ` set (cache_slabs mc0)" using d pg by auto
  have sub: "set (full_slabs mc0) \<subseteq> set (full_slabs mc)" "set (partial_slabs mc0) \<subseteq> set (partial_slabs mc)"
    "set (free_slabs mc0) \<subseteq> set (free_slabs mc)" using at by auto
  then have sub': "set (cache_slabs mc0) \<subseteq> set (cache_slabs mc)" unfolding cache_slabs_def by auto
  have same: "CHUNKS_PER_SLAB cfg mc0 = CHUNKS_PER_SLAB cfg mc" "geometry cfg mc0 = geometry cfg mc"
    "pages_per_slab mc0 = pages_per_slab mc" "slab_ok cfg mc0 = slab_ok cfg mc" using at by auto
  have req: "(slab_page x, pages_per_slab mc) \<in> M - {(slab_page sl, pages_per_slab mc)}"
    if "x \<in> set (cache_slabs mc0)" "slab_page x \<noteq> 0" for x
  proof -
    have "slab_page x \<noteq> slab_page sl" using gone that(1) by (metis imageI)
    then show ?thesis using that sub' cache_okD(7) [OF ok, of x] by blast
  qed
  show "cache_ok cfg mc0 (M - {(slab_page sl, pages_per_slab mc)})"
    unfolding cache_ok_def same using d0 req sub sub' cache_okD(1) [OF ok] cache_okD(2-5) [OF ok] by blast
qed

lemma link_partial:
  assumes ok: "cache_ok cfg mc M" and sl: "slab_ok cfg mc sl" "used (nchunks cfg mc) sl \<noteq> {..<nchunks cfg mc}"
    and pg: "slab_page sl \<noteq> 0" "slab_page sl \<notin> slab_page ` set (cache_slabs mc)"
  shows "cache_ok cfg (mc\<lparr>partial_slabs := sl # partial_slabs mc\<rparr>) (insert (slab_page sl, pages_per_slab mc) M)"
proof -
  let ?mc = "mc\<lparr>partial_slabs := sl # partial_slabs mc\<rparr>"
  have set: "set (cache_slabs ?mc) = insert sl (set (cache_slabs mc))" by (auto simp: cache_slabs_def)
  have d: "distinct (filter (\<lambda>p. p \<noteq> 0) (slab_page sl # map slab_page (cache_slabs mc)))"
    using cache_okD(6) [OF ok] pg by simp
  have pages: "map slab_page (cache_slabs ?mc) = map slab_page (full_slabs mc) @
      slab_page sl # map slab_page (partial_slabs mc @ free_slabs mc)" by (simp add: cache_slabs_def)
  have "distinct (filter (\<lambda>p. p \<noteq> 0) (map slab_page (cache_slabs ?mc)))" unfolding pages
    by (rule distinct_pull [THEN iffD2]) (use d in \<open>simp only: cache_slabs_def map_append append_assoc\<close>)
  then show ?thesis
    unfolding cache_ok_def set using cache_okD(1) [OF ok] cache_okD(2-5, 7) [OF ok] sl pg by simp
qed

lemma link_free:
  assumes ok: "cache_ok cfg mc M" and sl: "slab_ok cfg mc sl" "used (nchunks cfg mc) sl = {}"
    and pg: "slab_page sl = 0 \<or> slab_page sl \<notin> slab_page ` set (cache_slabs mc)"
  shows "cache_ok cfg (mc\<lparr>free_slabs := sl # free_slabs mc\<rparr>)
    (if slab_page sl = 0 then M else insert (slab_page sl, pages_per_slab mc) M)"
proof -
  let ?mc = "mc\<lparr>free_slabs := sl # free_slabs mc\<rparr>"
  have set: "set (cache_slabs ?mc) = insert sl (set (cache_slabs mc))" by (auto simp: cache_slabs_def)
  have d: "distinct (filter (\<lambda>p. p \<noteq> 0) (slab_page sl # map slab_page (cache_slabs mc)))"
    using cache_okD(6) [OF ok] pg by auto
  have pages: "map slab_page (cache_slabs ?mc) = map slab_page (full_slabs mc @ partial_slabs mc) @
      slab_page sl # map slab_page (free_slabs mc)" by (simp add: cache_slabs_def)
  have "distinct (filter (\<lambda>p. p \<noteq> 0) (map slab_page (cache_slabs ?mc)))" unfolding pages
    by (rule distinct_pull [THEN iffD2]) (use d in \<open>simp only: cache_slabs_def map_append append_assoc\<close>)
  then show ?thesis
    unfolding cache_ok_def set using cache_okD(1) [OF ok] cache_okD(2-5, 7) [OF ok] sl by simp
qed

text \<open>Returning a chunk: \<open>mc0\<close> is the cache with the slab unlinked.\<close>

lemma give_step:
  assumes ok: "cache_ok cfg mc M" and h: "held (unat (PAGE_SIZE cfg)) R" and M: "M \<subseteq> R"
    and at: "(full_slabs mc = xs @ sl # ys \<and> mc0 = mc\<lparr>full_slabs := xs @ ys\<rparr>) \<or>
      (partial_slabs mc = xs @ sl # ys \<and> mc0 = mc\<lparr>partial_slabs := xs @ ys\<rparr>)"
    and i: "i < nchunks cfg mc" "slab_bit sl i"
    and rel: "release_chunk free sl (i div 32) (i mod 32) mc0 s = (mc', s')"
  shows "s' = s \<and> cache_ok cfg mc' M \<or>
      s' = free (slab_page sl) s \<and> (slab_page sl, pages_per_slab mc) \<in> M \<and>
        cache_ok cfg mc' (M - {(slab_page sl, pages_per_slab mc)})"
    and "allocated cfg mc' = allocated cfg mc - {chunk_addr mc sl i}"
    and "pages_per_slab mc' = pages_per_slab mc \<and> chunk_sz mc' = chunk_sz mc \<and> gfp_flags mc' = gfp_flags mc"
proof -
  let ?n = "nchunks cfg mc" and ?g = "give_bit_of sl i" and ?req = "(slab_page sl, pages_per_slab mc)"
  have sl: "sl \<in> set (cache_slabs mc)" "sl \<in> set (full_slabs mc) \<union> set (partial_slabs mc)" using at by (auto simp: cache_slabs_def)
  have pg: "slab_page sl \<noteq> 0" "?req \<in> M" "slab_ok cfg mc sl"
    using cache_okD(3, 4) [OF ok, of sl] cache_okD(2, 7) [OF ok sl(1)] sl(2) by blast+
  note g = give_bit_ok [OF pg(3) i geometryD(5) [OF cache_okD(1) [OF ok]]]
  have nfull: "used ?n ?g \<noteq> {..<?n}" using i(1) unfolding g(1) by auto
  have same: "CHUNKS_PER_SLAB cfg mc0 = CHUNKS_PER_SLAB cfg mc" "pages_per_slab mc0 = pages_per_slab mc"
    "slab_ok cfg mc0 = slab_ok cfg mc" "chunk_addr mc0 = chunk_addr mc" "gfp_flags mc0 = gfp_flags mc" "chunk_sz mc0 = chunk_sz mc"
    using at by auto
  note u = unlinked [OF ok pg(1) at]
  have sub: "set (full_slabs mc0) \<union> set (partial_slabs mc0) \<subseteq> set (full_slabs mc) \<union> set (partial_slabs mc)"
    and rest: "set (full_slabs mc) \<union> set (partial_slabs mc) = insert sl (set (full_slabs mc0) \<union> set (partial_slabs mc0))"
    using at by auto
  have gone: "chunk_addr mc sl i \<notin> chunk_addr mc x ` used ?n x" if x: "x \<in> set (full_slabs mc0) \<union> set (partial_slabs mc0)" for x
  proof
    assume "chunk_addr mc sl i \<in> chunk_addr mc x ` used ?n x"
    then obtain j where j: "j < ?n" "chunk_addr mc sl i = chunk_addr mc x j" by (auto simp: used_def)
    have x': "x \<in> set (cache_slabs mc)" "slab_page x \<noteq> 0"
      using x sub cache_okD(3, 4) [OF ok, of x] by (auto simp: cache_slabs_def)
    have "x = sl" using chunk_addr_inj [OF ok h M sl(1) pg(1) i(1) x' j] by simp
    moreover have "x \<in> set (cache_slabs mc0)" using x by (auto simp: cache_slabs_def)
    ultimately show False using u(1) by blast
  qed
  have gone': "chunk_addr mc sl i \<notin> chunk_addr mc sl ` (used ?n sl - {i})"
    using chunk_addr_inj [OF ok h M sl(1) pg(1) i(1) sl(1) pg(1)] by (auto simp: used_def)
  have addr: "chunk_addr mc ?g = chunk_addr mc sl" by (simp add: chunk_addr_def fun_eq_iff)
  have here: "i \<in> used ?n sl" using i by (simp add: used_def)
  have r: "release_chunk free sl (i div 32) (i mod 32) mc0 s =
    (if allocated_chunks ?g \<noteq> 0 then (mc0\<lparr>partial_slabs := ?g # partial_slabs mc0\<rparr>, s)
     else if gfp_flags mc0 AND GFP_ATOMIC = 0 then (mc0\<lparr>free_slabs := ?g\<lparr>slab_page := 0\<rparr> # free_slabs mc0\<rparr>, free (slab_page ?g) s)
     else (mc0\<lparr>free_slabs := ?g # free_slabs mc0\<rparr>, s))"
    by (simp add: release_chunk_def give_bit_of_def Let_def)
  have again: "insert ?req (M - {?req}) = M" using pg(2) by blast
  have alloc0: "allocated cfg mc - {chunk_addr mc sl i} =
      allocated cfg mc0 \<union> chunk_addr mc sl ` (used ?n sl - {i})"
  proof -
    have "allocated cfg mc = allocated cfg mc0 \<union> chunk_addr mc sl ` used ?n sl"
      unfolding allocated_def rest same by blast
    moreover have "chunk_addr mc sl i \<notin> allocated cfg mc0" unfolding allocated_def same using gone by blast
    moreover have "chunk_addr mc sl ` used ?n sl = insert (chunk_addr mc sl i) (chunk_addr mc sl ` (used ?n sl - {i}))"
      using here by blast
    ultimately show ?thesis using gone' by auto
  qed
  have cases: "allocated_chunks ?g \<noteq> 0 \<and> mc' = mc0\<lparr>partial_slabs := ?g # partial_slabs mc0\<rparr> \<and> s' = s \<or>
      used ?n ?g = {} \<and> mc' = mc0\<lparr>free_slabs := ?g\<lparr>slab_page := 0\<rparr> # free_slabs mc0\<rparr> \<and> s' = free (slab_page sl) s \<or>
      used ?n ?g = {} \<and> mc' = mc0\<lparr>free_slabs := ?g # free_slabs mc0\<rparr> \<and> s' = s"
    using rel r g(3) by (auto split: if_splits)
  consider (partial) "allocated_chunks ?g \<noteq> 0" "mc' = mc0\<lparr>partial_slabs := ?g # partial_slabs mc0\<rparr>" "s' = s"
    | (release) "used ?n ?g = {}" "mc' = mc0\<lparr>free_slabs := ?g\<lparr>slab_page := 0\<rparr> # free_slabs mc0\<rparr>" "s' = free (slab_page sl) s"
    | (keep) "used ?n ?g = {}" "mc' = mc0\<lparr>free_slabs := ?g # free_slabs mc0\<rparr>" "s' = s"
    using cases by blast
  then show "s' = s \<and> cache_ok cfg mc' M \<or> s' = free (slab_page sl) s \<and> ?req \<in> M \<and> cache_ok cfg mc' (M - {?req})"
  proof cases
    case partial
    then show ?thesis
      using link_partial [OF u(2), of ?g] g(2) nfull pg(1) u(1) same again by simp
  next
    case release
    have "slab_ok cfg mc (?g\<lparr>slab_page := 0\<rparr>)" using g(2) by (simp add: slab_ok_def)
    then show ?thesis
      using link_free [OF u(2), of "?g\<lparr>slab_page := 0\<rparr>"] release same pg(2) by simp
  next
    case keep
    then show ?thesis
      using link_free [OF u(2), of ?g] g(2) u(1) pg(1) same again by simp
  qed
  have "allocated cfg mc' = allocated cfg mc0 \<union> chunk_addr mc sl ` (used ?n sl - {i}) \<and>
    pages_per_slab mc' = pages_per_slab mc \<and> chunk_sz mc' = chunk_sz mc \<and> gfp_flags mc' = gfp_flags mc"
    using cases
    by (elim disjE conjE) (use g(1) same addr in \<open>auto simp: allocated_def\<close>)
  then show "allocated cfg mc' = allocated cfg mc - {chunk_addr mc sl i}"
    and "pages_per_slab mc' = pages_per_slab mc \<and> chunk_sz mc' = chunk_sz mc \<and> gfp_flags mc' = gfp_flags mc"
    unfolding alloc0 by blast+
qed

end
