(* ===== verification/Mem_Cache_Ops.thy ===== *)
theory Mem_Cache_Ops
  imports Mem_Cache_Inv
begin

text \<open>
  The operations of the slab allocator over any provider of pages: an allocation returns a chunk
  that was not in use, a release makes exactly that chunk available again, and bad addresses
  change nothing.
\<close>

section \<open>The chunks in use\<close>

lemma allocated_region:
  assumes ok: "cache_ok cfg mc M" and h: "held (unat (PAGE_SIZE cfg)) R" and M: "M \<subseteq> R" and a: "a \<in> allocated cfg mc"
  obtains p where "(p, pages_per_slab mc) \<in> M"
    and "region_bytes (a, unat (chunk_sz mc)) \<subseteq> region_bytes (p, unat (pages_per_slab mc) * unat (PAGE_SIZE cfg))"
proof -
  obtain sl i where sl: "sl \<in> set (cache_slabs mc)" "slab_page sl \<noteq> 0" "i < nchunks cfg mc" "a = chunk_addr mc sl i"
    using a by (rule allocatedD [OF ok])
  have p: "(slab_page sl, pages_per_slab mc) \<in> M" using cache_okD(7) [OF ok sl(1, 2)] .
  then show thesis using that chunk_in_slab [OF cache_okD(1) [OF ok] h _ sl(3)] M sl(4) by blast
qed

lemma allocated_apart:
  assumes ok: "cache_ok cfg mc M" and h: "held (unat (PAGE_SIZE cfg)) R" and M: "M \<subseteq> R"
    and a: "a \<in> allocated cfg mc" and b: "b \<in> allocated cfg mc" and ne: "a \<noteq> b"
  shows "region_bytes (a, unat (chunk_sz mc)) \<inter> region_bytes (b, unat (chunk_sz mc)) = {}"
proof -
  obtain sl i where sl: "sl \<in> set (cache_slabs mc)" "slab_page sl \<noteq> 0" "i < nchunks cfg mc" "a = chunk_addr mc sl i"
    using a by (rule allocatedD [OF ok])
  obtain sl' j where sl': "sl' \<in> set (cache_slabs mc)" "slab_page sl' \<noteq> 0" "j < nchunks cfg mc" "b = chunk_addr mc sl' j"
    using b by (rule allocatedD [OF ok])
  have "(sl, i) \<noteq> (sl', j)" using ne sl(4) sl'(4) by auto
  from chunks_apart [OF ok h M sl(1-3) sl'(1-3) this] sl(4) sl'(4) show ?thesis by simp
qed

lemma allocated_not_null:
  assumes ok: "cache_ok cfg mc M" and h: "held (unat (PAGE_SIZE cfg)) R" and M: "M \<subseteq> R" and a: "a \<in> allocated cfg mc"
  shows "a \<noteq> 0"
proof -
  obtain sl i where sl: "sl \<in> set (cache_slabs mc)" "slab_page sl \<noteq> 0" "i < nchunks cfg mc" "a = chunk_addr mc sl i"
    using a by (rule allocatedD [OF ok])
  have "(slab_page sl, pages_per_slab mc) \<in> R" using cache_okD(7) [OF ok sl(1, 2)] M by blast
  then have "unat a = unat (slab_page sl) + i * unat (chunk_sz mc)"
    using chunk_addr_unat(1) [OF cache_okD(1) [OF ok] h _ sl(3)] sl(4) by blast
  moreover have "unat (slab_page sl) \<noteq> 0" using sl(2) by (simp add: unsigned_eq_0_iff)
  ultimately show ?thesis by auto
qed

section \<open>Allocation\<close>

lemma zero_slab_facts:
  assumes "geometry cfg mc"
  shows "slab_page (zero_slab cfg a) = 0" and "used (nchunks cfg mc) (zero_slab cfg a) = {}"
    and "slab_ok cfg mc (zero_slab cfg a)"
proof -
  show "slab_page (zero_slab cfg a) = 0" by (simp add: zero_slab_def)
  show u: "used (nchunks cfg mc) (zero_slab cfg a) = {}"
    using geometryD(5) [OF assms] by (auto simp: used_def slab_bit_def zero_slab_def)
  show "slab_ok cfg mc (zero_slab cfg a)" unfolding slab_ok_def u by (simp add: zero_slab_def)
qed

lemma fresh_free_slabs:
  assumes ok: "cache_ok cfg mc M" and "free_slabs mc = []" and sls: "sls = [] \<or> sls = link_page cfg p"
  shows "cache_ok cfg (mc\<lparr>free_slabs := sls\<rparr>) M"
proof -
  have z: "slab_page sl = 0 \<and> used (nchunks cfg mc) sl = {} \<and> slab_ok cfg mc sl" if "sl \<in> set sls" for sl
  proof -
    have "\<exists>a. sl = zero_slab cfg a" using that sls by (auto simp: link_page_def)
    then show ?thesis using zero_slab_facts [OF cache_okD(1) [OF ok]] by blast
  qed
  have f: "filter (\<lambda>p. p \<noteq> 0) (map slab_page sls) = []" using z by (auto simp: filter_empty_conv)
  have c: "cache_slabs (mc\<lparr>free_slabs := sls\<rparr>) = cache_slabs mc @ sls" using assms(2) by (simp add: cache_slabs_def)
  have "distinct (filter (\<lambda>p. p \<noteq> 0) (map slab_page (cache_slabs (mc\<lparr>free_slabs := sls\<rparr>))))"
    unfolding c map_append filter_append f using cache_okD(6) [OF ok] by simp
  then show ?thesis
    unfolding cache_ok_def using z cache_okD(1) [OF ok] cache_okD(2-5, 7) [OF ok] by (auto simp: c)
qed

lemma more_slabs_page:
  assumes "SLABS_PER_PAGE cfg \<noteq> 0"
  shows "more_slabs cfg get free 1 fl s =
    (case get 1 (fl OR GFP_ZERO) s of (p, s1) \<Rightarrow> (if p = 0 then [] else link_page cfg p, s1))"
proof -
  have "unat (SLABS_PER_PAGE cfg div SLABS_PER_PAGE cfg) = 1"
    using assms by (simp add: unat_div_u32 unsigned_eq_0_iff)
  then show ?thesis by (simp add: more_slabs_def Let_def numeral_2_eq_2 split: prod.splits)
qed

lemma more_slabs_one:
  "more_slabs cfg get free 1 fl s = ([], s) \<or>
    (case get 1 (fl OR GFP_ZERO) s of (p, s1) \<Rightarrow>
       more_slabs cfg get free 1 fl s = (if p = 0 then [] else link_page cfg p, s1))"
proof (cases "SLABS_PER_PAGE cfg = 0")
  case True
  then show ?thesis by (simp add: more_slabs_def)
next
  case False
  then show ?thesis by (simp add: more_slabs_page split: prod.splits)
qed

text \<open>
  What it takes to answer null: no partial slab, and a request for pages that fails. With no free slab either, that is the one
  for a page of slabs or, once this has succeeded, the one for the chunks of the first of them; otherwise the one for
  the chunks of the first free slab, which has no page yet.
\<close>

definition pages_failed :: "board \<Rightarrow> 's get_pages \<Rightarrow> mem_cache \<Rightarrow> 's \<Rightarrow> bool" where
  "pages_failed cfg get mc s \<longleftrightarrow> partial_slabs mc = [] \<and>
     (if free_slabs mc = [] then
        SLABS_PER_PAGE cfg = 0 \<or> fst (get 1 (gfp_flags mc OR GFP_ZERO) s) = 0 \<or>
        fst (get (pages_per_slab mc) (gfp_flags mc) (snd (get 1 (gfp_flags mc OR GFP_ZERO) s))) = 0
      else slab_page (hd (free_slabs mc)) = 0 \<and> fst (get (pages_per_slab mc) (gfp_flags mc) s) = 0)"

lemma pluck_fails:
  assumes "pluck_free get mc s = (mc', s')" and "partial_slabs mc' = []" and "free_slabs mc \<noteq> []"
  shows "slab_page (hd (free_slabs mc)) = 0 \<and> fst (get (pages_per_slab mc) (gfp_flags mc) s) = 0"
  using assms by (cases "free_slabs mc") (auto simp: pluck_free_def split: prod.splits if_splits)

lemma no_slab_fails:
  assumes none: "partial_slabs mc = []" and r: "refill cfg get free mc s = (mc1, s1)"
    and pl: "pluck_free get mc1 s1 = (mc2, s2)" "partial_slabs mc2 = []"
  shows "pages_failed cfg get mc s"
proof (cases "free_slabs mc = []")
  case False
  then have "mc1 = mc" "s1 = s" using r by (simp_all add: refill_def)
  then show ?thesis using pluck_fails [OF pl] False none by (simp add: pages_failed_def)
next
  case True
  show ?thesis
  proof (cases "SLABS_PER_PAGE cfg = 0")
    case some: False
    obtain p t where p: "get 1 (gfp_flags mc OR GFP_ZERO) s = (p, t)" by (metis surj_pair)
    then have 1: "mc1 = mc\<lparr>free_slabs := if p = 0 then [] else link_page cfg p\<rparr>" "s1 = t"
      using r True none more_slabs_page [OF some, of get free "gfp_flags mc" s] by (simp_all add: refill_def)
    show ?thesis
    proof (cases "p = 0")
      case False
      then have "free_slabs mc1 \<noteq> []" using 1(1) by (simp add: link_page_def)
      from pluck_fails [OF pl this] show ?thesis using 1 True none p by (simp add: pages_failed_def)
    qed (use True none p in \<open>simp add: pages_failed_def\<close>)
  qed (use True none in \<open>simp add: pages_failed_def\<close>)
qed

context clearing_provider
begin

lemma refill_ok:
  assumes own: "owns inv page R0 s R" and ok: "cache_ok cfg mc M" and fine: "fine 1"
    and r: "refill cfg get free mc s = (mc1, s1)"
  obtains R' sls where "owns inv page R0 s1 R'" and "R \<subseteq> R'" and "cache_ok cfg mc1 M"
    and "mc1 = mc\<lparr>free_slabs := sls\<rparr>"
proof (cases "free_slabs mc = [] \<and> partial_slabs mc = []")
  case True
  obtain p s2 where p: "get 1 (gfp_flags mc OR GFP_ZERO) s = (p, s2)" by (metis surj_pair)
  consider "mc1 = mc\<lparr>free_slabs := []\<rparr>" "s1 = s"
    | "mc1 = mc\<lparr>free_slabs := if p = 0 then [] else link_page cfg p\<rparr>" "s1 = s2"
    using r True more_slabs_one [of cfg get free "gfp_flags mc" s] p by (auto simp: refill_def)
  then show thesis
  proof cases
    case 1
    then show thesis using own fresh_free_slabs [OF ok] True by (intro that [where R' = R]) simp_all
  next
    case 2
    have c: "cache_ok cfg mc1 M" unfolding 2(1) using True by (intro fresh_free_slabs [OF ok, of _ p]) auto
    show thesis
    proof (cases "p = 0")
      case True
      then show thesis using owns_failed [OF own] p c 2 by (intro that [where R' = R]) auto
    next
      case False
      show thesis using owns_got(1) [OF own fine p False] c 2
        by (intro that [where R' = "insert (p, 1) R"]) auto
    qed
  qed
next
  case False
  then have "mc1 = mc" "s1 = s" using r unfolding refill_def if_not_P [OF False] by simp_all
  then show thesis using own ok by (intro that [where R' = R and sls = "free_slabs mc"]) simp_all
qed

lemma pluck_ok:
  assumes own: "owns inv page R0 s R" and ok: "cache_ok cfg mc M" and M: "M \<subseteq> R" and fine: "fine (pages_per_slab mc)"
    and none: "partial_slabs mc = []" and r: "pluck_free get mc s = (mc1, s1)"
  obtains R' M' ps fs where "owns inv page R0 s1 R'" and "R \<subseteq> R'" and "cache_ok cfg mc1 M'" and "M \<subseteq> M'"
    and "M' - M \<subseteq> R' - R" and "mc1 = mc\<lparr>partial_slabs := ps, free_slabs := fs\<rparr>"
    and "allocated cfg mc1 = allocated cfg mc"
proof (cases "free_slabs mc")
  case Nil
  then have "mc1 = mc" "s1 = s" using r by (simp_all add: pluck_free_def)
  then show thesis using own ok by (intro that [where ps = "partial_slabs mc" and fs = "free_slabs mc" and M' = M and R' = R]) simp_all
next
  case (Cons f fs)
  obtain pg s2 where pg: "(if slab_page f = 0 then get (pages_per_slab mc) (gfp_flags mc) s else (slab_page f, s)) = (pg, s2)"
    by (metis surj_pair)
  have f: "f \<in> set (free_slabs mc)" "f \<in> set (cache_slabs mc)" by (simp_all add: Cons cache_slabs_def)
  have uf: "used (nchunks cfg mc) f = {}" and sf: "slab_ok cfg mc f"
    using cache_okD(5) [OF ok f(1)] cache_okD(2) [OF ok f(2)] by simp_all
  show thesis
  proof (cases "pg = 0")
    case True
    then have z: "slab_page f = 0" and g: "get (pages_per_slab mc) (gfp_flags mc) s = (0, s2)" using pg by (auto split: if_splits)
    have f0: "f\<lparr>slab_page := 0\<rparr> = f" using z by simp
    have "pluck_free get mc s = (mc\<lparr>free_slabs := f # fs\<rparr>, s2)" using g z f0 by (simp add: pluck_free_def Cons)
    also have "mc\<lparr>free_slabs := f # fs\<rparr> = mc" by (simp flip: Cons)
    finally have "mc1 = mc" "s1 = s2" using r by simp_all
    then show thesis using owns_failed [OF own g] ok
      by (intro that [where ps = "partial_slabs mc" and fs = "free_slabs mc" and M' = M and R' = R]) simp_all
  next
    case False
    let ?f = "f\<lparr>slab_page := pg\<rparr>" and ?mc0 = "mc\<lparr>free_slabs := fs\<rparr>"
    have mc1: "mc1 = ?mc0\<lparr>partial_slabs := ?f # partial_slabs ?mc0\<rparr>" "s1 = s2"
      using r Cons pg False none by (auto simp: pluck_free_def)
    have n: "0 < nchunks cfg mc" using geometryD(4) [OF cache_okD(1) [OF ok]] .
    have set0: "set (cache_slabs ?mc0) \<subseteq> set (cache_slabs mc)" by (auto simp: cache_slabs_def Cons)
    have pages: "map slab_page (cache_slabs mc) = map slab_page (full_slabs mc) @ slab_page f # map slab_page fs"
      "map slab_page (cache_slabs ?mc0) = map slab_page (full_slabs mc) @ map slab_page fs"
      by (simp_all add: cache_slabs_def Cons none)
    have d: "distinct (filter (\<lambda>p. p \<noteq> 0) (slab_page f # map slab_page (cache_slabs ?mc0)))"
      using cache_okD(6) [OF ok] unfolding pages by (rule distinct_pull [THEN iffD1])
    then have d0: "distinct (filter (\<lambda>p. p \<noteq> 0) (map slab_page (cache_slabs ?mc0)))" by (simp split: if_splits)
    have ok0: "cache_ok cfg ?mc0 M"
      unfolding cache_ok_def using d0 cache_okD(1) [OF ok] cache_okD(2-5, 7) [OF ok] set0 Cons by (simp add: subset_iff)
    have "pg \<notin> slab_page ` set (cache_slabs ?mc0) \<and> owns inv page R0 s2 (insert (pg, pages_per_slab mc) R) \<and>
        insert (pg, pages_per_slab mc) M - M \<subseteq> insert (pg, pages_per_slab mc) R - R"
    proof (cases "slab_page f = 0")
      case True
      then have g: "get (pages_per_slab mc) (gfp_flags mc) s = (pg, s2)" using pg by simp
      note new = owns_got [OF own fine g False]
      have "pg \<noteq> slab_page x" if "x \<in> set (cache_slabs ?mc0)" for x
      proof
        assume x: "pg = slab_page x"
        then have "(slab_page x, pages_per_slab mc) \<in> M" using cache_okD(7) [OF ok] that set0 False by blast
        then show False using new(2) M x by blast
      qed
      then show ?thesis using new by auto
    next
      case nz: False
      then have p: "pg = slab_page f" "s2 = s" using pg by simp_all
      then have "(pg, pages_per_slab mc) \<in> M" using cache_okD(7) [OF ok f(2)] nz by simp
      then show ?thesis using own M d nz p by (auto simp: insert_absorb)
    qed
    note new = this
    have nfull: "{} \<noteq> {..<nchunks cfg mc}" using n by auto
    have "cache_ok cfg mc1 (insert (pg, pages_per_slab mc) M)"
      unfolding mc1 using link_partial [OF ok0, of ?f] new False sf uf nfull by (simp add: slab_ok_def)
    moreover have "allocated cfg mc1 = allocated cfg mc" using uf by (simp add: allocated_def mc1 none)
    moreover have "mc1 = mc\<lparr>partial_slabs := [?f], free_slabs := fs\<rparr>" using mc1 none by simp
    ultimately show thesis using that [where R' = "insert (pg, pages_per_slab mc) R"] new mc1(2) by blast
  qed
qed

lemma alloc_ok:
  assumes pages: "page = unat (PAGE_SIZE cfg)"
    and own: "owns inv page R0 s R" and ok: "cache_ok cfg mc M" and M: "M \<subseteq> R"
    and fine: "fine 1" "fine (pages_per_slab mc)"
  obtains p mc' s' R' M' where "mem_cache_alloc cfg get free clear mc s = Inr (p, mc', s')"
    and "owns inv page R0 s' R'" and "R \<subseteq> R'" and "cache_ok cfg mc' M'" and "M \<subseteq> M'" and "M' - M \<subseteq> R' - R"
    and "pages_per_slab mc' = pages_per_slab mc" and "chunk_sz mc' = chunk_sz mc" and "gfp_flags mc' = gfp_flags mc"
    and "if p = 0 then allocated cfg mc' = allocated cfg mc
      else p \<notin> allocated cfg mc \<and> allocated cfg mc' = insert p (allocated cfg mc)"
    and "p = 0 \<longrightarrow> pages_failed cfg get mc s"
proof -
  obtain mc1 s1 where r: "refill cfg get free mc s = (mc1, s1)" by (metis surj_pair)
  obtain R1 sls where R1: "owns inv page R0 s1 R1" "R \<subseteq> R1" "cache_ok cfg mc1 M" "mc1 = mc\<lparr>free_slabs := sls\<rparr>"
    using refill_ok [OF own ok fine(1) r] .
  have M1: "M \<subseteq> R1" using M R1(2) by blast
  have same1: "allocated cfg mc1 = allocated cfg mc" "pages_per_slab mc1 = pages_per_slab mc" "partial_slabs mc1 = partial_slabs mc"
    unfolding R1(4) allocated_def by simp_all
  obtain mc2 s2 where pl: "(if partial_slabs mc1 = [] then pluck_free get mc1 s1 else (mc1, s1)) = (mc2, s2)" by (metis surj_pair)
  obtain R2 M2 ps fs where R2: "owns inv page R0 s2 R2" "R1 \<subseteq> R2" "cache_ok cfg mc2 M2" "M \<subseteq> M2" "M2 - M \<subseteq> R2 - R1"
    "mc2 = mc1\<lparr>partial_slabs := ps, free_slabs := fs\<rparr>" "allocated cfg mc2 = allocated cfg mc1"
    and keep: "partial_slabs mc1 \<noteq> [] \<longrightarrow> mc2 = mc1"
  proof (cases "partial_slabs mc1 = []")
    case True
    with pl have p: "pluck_free get mc1 s1 = (mc2, s2)" by simp
    have "fine (pages_per_slab mc1)" using fine(2) same1(2) by simp
    obtain R' M' ps fs where "owns inv page R0 s2 R'" "R1 \<subseteq> R'" "cache_ok cfg mc2 M'" "M \<subseteq> M'" "M' - M \<subseteq> R' - R1"
      "mc2 = mc1\<lparr>partial_slabs := ps, free_slabs := fs\<rparr>" "allocated cfg mc2 = allocated cfg mc1"
      using pluck_ok [OF R1(1, 3) M1 \<open>fine (pages_per_slab mc1)\<close> True p] .
    then show thesis using True by (intro that [of R' M' fs ps]) simp_all
  next
    case False
    with pl have "mc2 = mc1" "s2 = s1" by simp_all
    with that [of R1 M "free_slabs mc1" "partial_slabs mc1"] R1 show thesis by simp
  qed
  have same2: "pages_per_slab mc2 = pages_per_slab mc" "chunk_sz mc2 = chunk_sz mc" "gfp_flags mc2 = gfp_flags mc"
    unfolding R2(6) R1(4) by simp_all
  have M2: "M2 \<subseteq> R2" using R2(2, 5) M1 by blast
  have sub: "R \<subseteq> R2" "M2 - M \<subseteq> R2 - R" using R1(2) R2(2, 5) by blast+
  show thesis
  proof (cases "partial_slabs mc2")
    case Nil
    have 0: "partial_slabs mc = []" using keep Nil same1(3) by auto
    have "pluck_free get mc1 s1 = (mc2, s2)" using pl 0 same1(3) by simp
    from no_slab_fails [OF 0 r this Nil] have failed: "pages_failed cfg get mc s" .
    show thesis
    proof (cases "free_slabs mc1 = []")
      case True
      then have "mem_cache_alloc cfg get free clear mc s = Inr (0, mc1, s1)"
        using r same1(3) 0 by (simp add: mem_cache_alloc_def)
      then show thesis using R1 same1 failed by (intro that [of 0 mc1 s1 R1 M]) simp_all
    next
      case False
      then have "mem_cache_alloc cfg get free clear mc s = Inr (0, mc2, s2)"
        using r pl Nil by (simp add: mem_cache_alloc_def)
      then show thesis using R2 sub same1 same2 failed by (intro that [of 0 mc2 s2 R2 M2]) simp_all
    qed
  next
    case (Cons sl sls)
    let ?n = "nchunks cfg mc2"
    from take_step [OF R2(3) Cons] obtain i where i:
      "find_unallocated ?n (partial_slabs mc2) = (0, Some (i div 32, i mod 32))" "i < ?n" "\<not> slab_bit sl i"
      and ok3: "cache_ok cfg (if allocated_chunks (take_bit_of sl i) = CHUNKS_PER_SLAB cfg mc2
        then mc2\<lparr>partial_slabs := sls, full_slabs := take_bit_of sl i # full_slabs mc2\<rparr>
        else mc2\<lparr>partial_slabs := take_bit_of sl i # sls\<rparr>) M2"
      and al: "allocated cfg (if allocated_chunks (take_bit_of sl i) = CHUNKS_PER_SLAB cfg mc2
        then mc2\<lparr>partial_slabs := sls, full_slabs := take_bit_of sl i # full_slabs mc2\<rparr>
        else mc2\<lparr>partial_slabs := take_bit_of sl i # sls\<rparr>) = insert (chunk_addr mc2 sl i) (allocated cfg mc2)" .
    define mc3 where "mc3 = (if allocated_chunks (take_bit_of sl i) = CHUNKS_PER_SLAB cfg mc2
        then mc2\<lparr>partial_slabs := sls, full_slabs := take_bit_of sl i # full_slabs mc2\<rparr>
        else mc2\<lparr>partial_slabs := take_bit_of sl i # sls\<rparr>)"
    let ?p = "chunk_addr mc2 sl i"
    define s3 where "s3 = (if gfp_flags mc2 AND GFP_ZERO \<noteq> 0 then clear ?p (chunk_sz mc2) s2 else s2)"
    have nonempty: "\<not> (free_slabs mc1 = [] \<and> partial_slabs mc1 = [])"
    proof
      assume e: "free_slabs mc1 = [] \<and> partial_slabs mc1 = []"
      then have "mc2 = mc1" using pl by (simp add: pluck_free_def)
      with e Cons show False by simp
    qed
    have nonempty2: "partial_slabs mc2 \<noteq> []" using Cons by simp
    have run: "mem_cache_alloc cfg get free clear mc s = Inr (?p, mc3, s3)"
      unfolding mem_cache_alloc_def r prod.case if_not_P [OF nonempty] pl if_not_P [OF nonempty2] i(1) option.case
      by (simp add: Cons mc3_def s3_def take_bit_of_def chunk_address_def chunk_addr_def WORD_T_BITS_def Let_def)
    have own3: "owns inv page R0 s3 R2"
      using R2(1) unfolding s3_def owns_def by (auto intro: clear_inv)
    have h: "held (unat (PAGE_SIZE cfg)) R2" using owns_held [OF R2(1)] pages by simp
    have sl: "sl \<in> set (cache_slabs mc2)" "slab_page sl \<noteq> 0"
      using Cons cache_okD(4) [OF R2(3), of sl] by (simp_all add: cache_slabs_def)
    have new: "?p \<notin> allocated cfg mc2"
    proof
      assume "?p \<in> allocated cfg mc2"
      then obtain sl' j where j: "sl' \<in> set (cache_slabs mc2)" "slab_page sl' \<noteq> 0" "j < ?n" "slab_bit sl' j" "?p = chunk_addr mc2 sl' j"
        by (rule allocatedD [OF R2(3)])
      from chunk_addr_inj [OF R2(3) h M2 sl i(2) j(1-3, 5)] i(3) j(4) show False by simp
    qed
    have al3: "allocated cfg mc3 = insert ?p (allocated cfg mc)" using al R2(7) same1(1) by (simp add: mc3_def)
    have "?p \<noteq> 0"
      using allocated_not_null [OF ok3 [folded mc3_def] h M2] al3 by blast
    moreover have "pages_per_slab mc3 = pages_per_slab mc" "chunk_sz mc3 = chunk_sz mc" "gfp_flags mc3 = gfp_flags mc"
      using same2 by (simp_all add: mc3_def)
    ultimately show thesis
      using run own3 sub ok3 R2(4) new al3 R2(7) same1(1)
      by (intro that [of ?p mc3 s3 R2 M2]) (simp_all add: mc3_def)
  qed
qed

end

section \<open>Release\<close>

lemma page_contains:
  assumes "geometry cfg mc" and "held (unat (PAGE_SIZE cfg)) R" and "(slab_page sl, pages_per_slab mc) \<in> R"
  shows "page_contains_address cfg mc sl a \<longleftrightarrow>
    unat a \<in> region_bytes (slab_page sl, unat (pages_per_slab mc) * unat (PAGE_SIZE cfg))"
proof -
  have "unat (slab_page sl + pages_per_slab mc * PAGE_SIZE cfg) =
      unat (slab_page sl) + unat (pages_per_slab mc) * unat (PAGE_SIZE cfg)"
    using chunk_addr_unat(3) [OF assms geometryD(4) [OF assms(1)]] geometryD(6) [OF assms(1)] by (simp add: unat_add_u32)
  then show ?thesis
    by (auto simp: page_contains_address_def region_bytes_def word_less_nat_alt word_le_nat_alt)
qed

lemma aligned_and_mask:
  assumes "geometry cfg mc"
  shows "a AND (chunk_sz mc - 1) = 0 \<longleftrightarrow> unat a mod unat (chunk_sz mc) = 0"
proof -
  obtain j where j: "j < 32" "chunk_sz mc = 2 ^ j" using assms by (auto simp: geometry_def)
  have "a AND (2 ^ j - 1) = take_bit j a" by (simp add: take_bit_eq_mask mask_eq_exp_minus_1)
  then have "unat (a AND (chunk_sz mc - 1)) = unat a mod 2 ^ j" using j by (simp add: take_bit_eq_mod unat_mod_distrib)
  then show ?thesis using j by (metis unat_exp2 unat_0 unsigned_word_eqI)
qed

lemma chunk_addr_aligned:
  assumes g: "geometry cfg mc" and h: "held (unat (PAGE_SIZE cfg)) R" and r: "(slab_page sl, pages_per_slab mc) \<in> R"
    and i: "i < nchunks cfg mc"
  shows "unat (chunk_addr mc sl i) mod unat (chunk_sz mc) = 0"
proof -
  have "unat (PAGE_SIZE cfg) dvd unat (slab_page sl)" using h r unfolding held_def by blast
  then have "unat (chunk_sz mc) dvd unat (slab_page sl)" using geometryD(3) [OF g] by (rule dvd_trans [rotated])
  then show ?thesis using chunk_addr_unat(1) [OF g h r i] by simp
qed

text \<open>An aligned address inside a slab is the address of one of its chunks.\<close>

lemma aligned_chunk:
  assumes g: "geometry cfg mc" and h: "held (unat (PAGE_SIZE cfg)) R" and r: "(slab_page sl, pages_per_slab mc) \<in> R"
    and a: "unat a mod unat (chunk_sz mc) = 0"
    and inside: "unat a \<in> region_bytes (slab_page sl, unat (pages_per_slab mc) * unat (PAGE_SIZE cfg))"
  shows "unat ((a - slab_page sl) div chunk_sz mc) < nchunks cfg mc"
    and "a = chunk_addr mc sl (unat ((a - slab_page sl) div chunk_sz mc))"
proof -
  let ?cs = "unat (chunk_sz mc)" and ?j = "unat ((a - slab_page sl) div chunk_sz mc)"
  have le: "unat (slab_page sl) \<le> unat a" and lt: "unat a < unat (slab_page sl) + nchunks cfg mc * ?cs"
    using inside geometryD(2) [OF g] by (simp_all add: region_bytes_def)
  have "unat (a - slab_page sl) = unat a - unat (slab_page sl)" using le by (simp add: unat_sub_u32 word_le_nat_alt)
  then have j: "?j = (unat a - unat (slab_page sl)) div ?cs" by (simp add: unat_div_u32)
  have "unat a - unat (slab_page sl) < nchunks cfg mc * ?cs" using le lt by linarith
  then show n: "?j < nchunks cfg mc" unfolding j using geometryD(1) [OF g] by (simp add: div_less_iff_less_mult)
  have "unat (PAGE_SIZE cfg) dvd unat (slab_page sl)" using h r unfolding held_def by blast
  then have "?cs dvd unat (slab_page sl)" using geometryD(3) [OF g] by (rule dvd_trans [rotated])
  then have "?cs dvd unat a - unat (slab_page sl)" using a by (simp add: dvd_eq_mod_eq_0 [symmetric] dvd_diff_nat)
  then have "unat a = unat (slab_page sl) + ?j * ?cs" using le unfolding j by simp
  then show "a = chunk_addr mc sl ?j" using chunk_addr_unat(1) [OF g h r n] by (simp add: word_unat_eq_iff)
qed

lemma find_allocated_loop_hit:
  assumes "find_allocated_loop cfg a mc sls = (r, i, w, b)" and "r \<noteq> FAR_NOT_FOUND"
  obtains xs sl ys j where "sls = xs @ sl # ys" and "length xs = i" and "page_contains_address cfg mc sl a"
    and "j = unat ((a - slab_page sl) div chunk_sz mc)" and "w = j div 32" and "b = j mod 32"
    and "r = (if slab_bit sl j then FAR_FOUND else FAR_DOUBLEFREE)"
  using assms
proof (induction sls arbitrary: i thesis)
  case (Cons x xs)
  show ?case
  proof (cases "page_contains_address cfg mc x a")
    case True
    then show ?thesis using Cons.prems
      by (intro Cons.prems(1) [of "[]" x xs]) (auto simp: WORD_T_BITS_def slab_bit_def Let_def and_BIT_eq_0_iff split: if_splits)
  next
    case False
    obtain r' i' wb where rest: "find_allocated_loop cfg a mc xs = (r', i', wb)" by (metis prod_cases3)
    with Cons.prems(2) False have "find_allocated_loop cfg a mc xs = (r, i', w, b)" "i = Suc i'" by auto
    with Cons.IH [OF _ this(1) Cons.prems(3)] Cons.prems(1) show ?thesis by (metis append_Cons length_Cons)
  qed
qed simp

lemma find_allocated_loop_miss:
  "find_allocated_loop cfg a mc sls = (FAR_NOT_FOUND, i) \<Longrightarrow> sl \<in> set sls \<Longrightarrow> \<not> page_contains_address cfg mc sl a"
  by (induction sls arbitrary: i) (auto simp: Let_def split: if_splits prod.splits)

text \<open>What a search of one list finds.\<close>

lemma search_found:
  assumes ok: "cache_ok cfg mc M" and h: "held (unat (PAGE_SIZE cfg)) R" and M: "M \<subseteq> R"
    and sub: "set sls \<subseteq> set (full_slabs mc) \<union> set (partial_slabs mc)"
    and f: "find_allocated cfg a mc sls = (FAR_FOUND, i, w, b)"
  obtains xs sl ys j where "sls = xs @ sl # ys" and "length xs = i" and "j < nchunks cfg mc" and "slab_bit sl j"
    and "a = chunk_addr mc sl j" and "w = j div 32" and "b = j mod 32"
proof -
  have al: "a AND (chunk_sz mc - 1) = 0" and f': "find_allocated_loop cfg a mc sls = (FAR_FOUND, i, w, b)"
    using f by (auto simp: find_allocated_def split: if_splits)
  obtain xs sl ys j where j: "sls = xs @ sl # ys" "length xs = i" "page_contains_address cfg mc sl a"
    "j = unat ((a - slab_page sl) div chunk_sz mc)" "w = j div 32" "b = j mod 32"
    "FAR_FOUND = (if slab_bit sl j then FAR_FOUND else FAR_DOUBLEFREE)"
    using find_allocated_loop_hit [OF f'] by blast
  have sl: "sl \<in> set (cache_slabs mc)" "slab_page sl \<noteq> 0"
    using sub j(1) cache_okD(3, 4) [OF ok, of sl] by (auto simp: cache_slabs_def)
  then have r: "(slab_page sl, pages_per_slab mc) \<in> R" using cache_okD(7) [OF ok] M by blast
  note g = cache_okD(1) [OF ok]
  have "unat a mod unat (chunk_sz mc) = 0" using al aligned_and_mask [OF g] by blast
  from aligned_chunk [OF g h r this] page_contains [OF g h r, of a] j(3)
  have "j < nchunks cfg mc" "a = chunk_addr mc sl j" unfolding j(4) by blast+
  then show thesis using that j(1, 2, 5-7) by (auto split: if_splits)
qed

lemma search_failed:
  assumes ok: "cache_ok cfg mc M" and h: "held (unat (PAGE_SIZE cfg)) R" and M: "M \<subseteq> R"
    and sub: "set sls \<subseteq> set (full_slabs mc) \<union> set (partial_slabs mc)"
    and f: "find_allocated cfg a mc sls = (r, i, w, b)" and r: "r \<noteq> FAR_FOUND"
  shows "(r = FAR_NOT_FOUND \<longrightarrow> (\<forall>sl \<in> set sls. a \<notin> chunk_addr mc sl ` used (nchunks cfg mc) sl)) \<and>
    (r \<noteq> FAR_NOT_FOUND \<longrightarrow> a \<notin> allocated cfg mc)"
proof -
  note g = cache_okD(1) [OF ok]
  have req: "(slab_page sl, pages_per_slab mc) \<in> R \<and> sl \<in> set (cache_slabs mc) \<and> slab_page sl \<noteq> 0"
    if "sl \<in> set (full_slabs mc) \<union> set (partial_slabs mc)" for sl
  proof -
    have "sl \<in> set (cache_slabs mc) \<and> slab_page sl \<noteq> 0"
      using that cache_okD(3, 4) [OF ok, of sl] by (auto simp: cache_slabs_def)
    then show ?thesis using cache_okD(7) [OF ok] M by blast
  qed
  have inside: "page_contains_address cfg mc sl (chunk_addr mc sl j)"
    if "sl \<in> set (full_slabs mc) \<union> set (partial_slabs mc)" "j < nchunks cfg mc" for sl j
  proof -
    have rq: "(slab_page sl, pages_per_slab mc) \<in> R" using req [OF that(1)] by blast
    have "unat (chunk_addr mc sl j) \<in> region_bytes (chunk_addr mc sl j, unat (chunk_sz mc))"
      using region_start geometryD(1) [OF g] by blast
    then show ?thesis using chunk_in_slab [OF g h rq that(2)] page_contains [OF g h rq] by blast
  qed
  show ?thesis
  proof (cases "a AND (chunk_sz mc - 1) = 0")
    case False
    then have "r = FAR_CORRUPT" using f by (simp add: find_allocated_def)
    moreover have "a \<notin> allocated cfg mc"
    proof
      assume "a \<in> allocated cfg mc"
      then obtain sl j where j: "sl \<in> set (full_slabs mc) \<union> set (partial_slabs mc)" "j < nchunks cfg mc" "a = chunk_addr mc sl j"
        by (rule allocatedD [OF ok])
      have "(slab_page sl, pages_per_slab mc) \<in> R" using req [OF j(1)] by blast
      from chunk_addr_aligned [OF g h this j(2)] j(3) False aligned_and_mask [OF g, of a] show False by simp
    qed
    ultimately show ?thesis by simp
  next
    case True
    then have f': "find_allocated_loop cfg a mc sls = (r, i, w, b)" using f by (simp add: find_allocated_def)
    show ?thesis
    proof (cases "r = FAR_NOT_FOUND")
      case nf: True
      have "a \<notin> chunk_addr mc sl ` used (nchunks cfg mc) sl" if "sl \<in> set sls" for sl
        using find_allocated_loop_miss [OF f' [unfolded nf] that] inside sub that by (auto simp: used_def)
      then show ?thesis using nf by blast
    next
      case nf: False
      obtain xs sl ys j where j: "sls = xs @ sl # ys" "page_contains_address cfg mc sl a"
        "j = unat ((a - slab_page sl) div chunk_sz mc)" "r = (if slab_bit sl j then FAR_FOUND else FAR_DOUBLEFREE)"
        using find_allocated_loop_hit [OF f' nf] by metis
      have sl: "sl \<in> set (full_slabs mc) \<union> set (partial_slabs mc)" using sub j(1) by auto
      note rq = req [OF sl]
      have al: "unat a mod unat (chunk_sz mc) = 0" using True aligned_and_mask [OF g, of a] by simp
      have "unat a \<in> region_bytes (slab_page sl, unat (pages_per_slab mc) * unat (PAGE_SIZE cfg))"
        using page_contains [OF g h conjunct1 [OF rq], of a] j(2) by simp
      note ac = aligned_chunk [OF g h conjunct1 [OF rq] al this]
      have ja: "j < nchunks cfg mc" "a = chunk_addr mc sl j" unfolding j(3) by (rule ac(1), rule ac(2))
      have "a \<notin> allocated cfg mc"
      proof
        assume "a \<in> allocated cfg mc"
        then obtain sl' k where k: "sl' \<in> set (cache_slabs mc)" "slab_page sl' \<noteq> 0" "k < nchunks cfg mc"
          "slab_bit sl' k" "a = chunk_addr mc sl' k"
          by (rule allocatedD [OF ok])
        have "sl = sl' \<and> j = k"
          using rq ja k by (intro chunk_addr_inj [OF ok h M _ _ ja(1) k(1-3)]) simp_all
        then show False using k(4) j(4) r by (simp split: if_splits)
      qed
      then show ?thesis using nf by blast
    qed
  qed
qed

text \<open>A null pointer is accepted; an address that is no chunk in use is refused and nothing changes.\<close>

lemma free_null_ok: "mem_cache_free cfg free mc 0 s = (0, mc, s)"
  by (simp add: mem_cache_free_def)

lemma unlink_list: "xs @ sl # ys = zs \<Longrightarrow> zs ! length xs = sl \<and> take (length xs) zs @ drop (Suc (length xs)) zs = xs @ ys"
  by auto

lemma free_cases:
  assumes ok: "cache_ok cfg mc M" and h: "held (unat (PAGE_SIZE cfg)) R" and M: "M \<subseteq> R" and a: "a \<noteq> 0"
    and r: "mem_cache_free cfg free mc a s = (err, mc', s')"
  obtains (bad) "err = -1" and "mc' = mc" and "s' = s" and "a \<notin> allocated cfg mc"
  | (freed) xs sl ys mc0 j where "err = 0"
      and "(full_slabs mc = xs @ sl # ys \<and> mc0 = mc\<lparr>full_slabs := xs @ ys\<rparr>) \<or>
        (partial_slabs mc = xs @ sl # ys \<and> mc0 = mc\<lparr>partial_slabs := xs @ ys\<rparr>)"
      and "j < nchunks cfg mc" and "slab_bit sl j" and "a = chunk_addr mc sl j"
      and "release_chunk free sl (j div 32) (j mod 32) mc0 s = (mc', s')"
proof -
  have sub: "set (partial_slabs mc) \<subseteq> set (full_slabs mc) \<union> set (partial_slabs mc)"
    "set (full_slabs mc) \<subseteq> set (full_slabs mc) \<union> set (partial_slabs mc)" by simp_all
  obtain r1 i w b where p: "find_allocated cfg a mc (partial_slabs mc) = (r1, i, w, b)" by (metis prod_cases4)
  obtain r2 i2 w2 b2 where f: "find_allocated cfg a mc (full_slabs mc) = (r2, i2, w2, b2)" by (metis prod_cases4)
  consider (found) "r1 = FAR_FOUND" | (full) "r1 = FAR_NOT_FOUND" "r2 = FAR_FOUND"
    | (wrong) "r1 \<noteq> FAR_FOUND" "r1 \<noteq> FAR_NOT_FOUND" | (nowhere) "r1 = FAR_NOT_FOUND" "r2 \<noteq> FAR_FOUND"
    by blast
  then show thesis
  proof cases
    case found
    obtain xs sl ys j where x: "partial_slabs mc = xs @ sl # ys" "length xs = i" "j < nchunks cfg mc" "slab_bit sl j"
      "a = chunk_addr mc sl j" "w = j div 32" "b = j mod 32"
      using search_found [OF ok h M sub(1) p [unfolded found]] by blast
    let ?mc0 = "mc\<lparr>partial_slabs := xs @ ys\<rparr>"
    have "release_chunk free sl (j div 32) (j mod 32) ?mc0 s = (mc', s') \<and> err = 0"
      using r a p found x by (auto simp: mem_cache_free_def split: prod.splits)
    then show thesis using x by (intro freed [of xs sl ys ?mc0 j]) simp_all
  next
    case full
    obtain xs sl ys j where x: "full_slabs mc = xs @ sl # ys" "length xs = i2" "j < nchunks cfg mc" "slab_bit sl j"
      "a = chunk_addr mc sl j" "w2 = j div 32" "b2 = j mod 32"
      using search_found [OF ok h M sub(2) f [unfolded full(2)]] by blast
    let ?mc0 = "mc\<lparr>full_slabs := xs @ ys\<rparr>"
    have "release_chunk free sl (j div 32) (j mod 32) ?mc0 s = (mc', s') \<and> err = 0"
      using r a p f full x by (auto simp: mem_cache_free_def split: prod.splits)
    then show thesis using x by (intro freed [of xs sl ys ?mc0 j]) simp_all
  next
    case wrong
    then have "(err, mc', s') = (-1, mc, s)" using r a p by (cases r1) (simp_all add: mem_cache_free_def)
    then show thesis using search_failed [OF ok h M sub(1) p] wrong by (intro bad) simp_all
  next
    case nowhere
    then have e: "(err, mc', s') = (-1, mc, s)" using r a p f by (cases r2) (simp_all add: mem_cache_free_def)
    have "a \<notin> chunk_addr mc sl ` used (nchunks cfg mc) sl" if "sl \<in> set (partial_slabs mc)" for sl
      using search_failed [OF ok h M sub(1) p] nowhere(1) that by simp
    moreover have "a \<notin> allocated cfg mc \<or> (\<forall>sl \<in> set (full_slabs mc). a \<notin> chunk_addr mc sl ` used (nchunks cfg mc) sl)"
      using search_failed [OF ok h M sub(2) f nowhere(2)] by blast
    ultimately have "a \<notin> allocated cfg mc" unfolding allocated_def by blast
    then show thesis using e by (intro bad) simp_all
  qed
qed

context clearing_provider
begin

lemma free_ok:
  assumes pages: "page = unat (PAGE_SIZE cfg)"
    and own: "owns inv page R0 s R" and ok: "cache_ok cfg mc M" and M: "M \<subseteq> R"
    and r: "mem_cache_free cfg free mc a s = (err, mc', s')"
  shows "if a = 0 \<or> a \<in> allocated cfg mc
    then err = 0 \<and> allocated cfg mc' = allocated cfg mc - {a} \<and>
      (\<exists>X. X \<subseteq> M \<and> owns inv page R0 s' (R - X) \<and> cache_ok cfg mc' (M - X)) \<and>
      pages_per_slab mc' = pages_per_slab mc \<and> chunk_sz mc' = chunk_sz mc \<and> gfp_flags mc' = gfp_flags mc
    else err = -1 \<and> mc' = mc \<and> s' = s"
proof (cases "a = 0")
  case True
  have h: "held (unat (PAGE_SIZE cfg)) R" using owns_held [OF own] pages by simp
  have "0 \<notin> allocated cfg mc" using allocated_not_null [OF ok h M] by blast
  moreover have "\<exists>X. X \<subseteq> M \<and> owns inv page R0 s (R - X) \<and> cache_ok cfg mc (M - X)"
    using own ok by (intro exI [of _ "{}"]) simp
  ultimately show ?thesis using r True by (simp add: free_null_ok)
next
  case False
  have h: "held (unat (PAGE_SIZE cfg)) R" using owns_held [OF own] pages by simp
  from ok h M False r show ?thesis
  proof (cases rule: free_cases)
    case bad
    then show ?thesis using False by simp
  next
    case (freed xs sl ys mc0 j)
    note g = give_step [OF ok h M freed(2-4, 6)]
    have sl: "sl \<in> set (full_slabs mc) \<union> set (partial_slabs mc)" using freed(2) by auto
    then have "a \<in> allocated cfg mc" using freed(3-5) unfolding allocated_def used_def by blast
    moreover have "\<exists>X. X \<subseteq> M \<and> owns inv page R0 s' (R - X) \<and> cache_ok cfg mc' (M - X)"
      using g(1)
    proof
      assume "s' = s \<and> cache_ok cfg mc' M"
      then show ?thesis using own by (intro exI [of _ "{}"]) simp
    next
      assume f: "s' = free (slab_page sl) s \<and> (slab_page sl, pages_per_slab mc) \<in> M \<and>
        cache_ok cfg mc' (M - {(slab_page sl, pages_per_slab mc)})"
      then have "owns inv page R0 s' (R - {(slab_page sl, pages_per_slab mc)})"
        using owns_freed [OF own] M by blast
      with f show ?thesis by (intro exI [of _ "{(slab_page sl, pages_per_slab mc)}"]) simp
    qed
    ultimately show ?thesis using g(2, 3) freed(1, 5) False by simp
  qed
qed

end

end
