(* ===== verification/Kmalloc.thy ===== *)
theory Kmalloc
  imports Mem_Cache_Ops
begin

text \<open>
  \<open>src/kernel/memory/kmalloc.c\<close>: the allocator of small blocks, seven slab caches of sizes 32 to
  2048, each made when it is first needed. It keeps the allocator contract \<open>region_provider\<close>, with
  bytes for units, over any provider of pages; here over the page allocator of \<open>page2.c\<close>.
\<close>

section \<open>The pools\<close>

record kmalloc_pool =
  pool_gfp_flags :: u32
  pool_chunk_size :: u32
  pool_pages :: u16

definition pools :: "kmalloc_pool list" where
  "pools =
    [\<lparr>pool_gfp_flags = GFP_KERNEL, pool_chunk_size = 32, pool_pages = 1\<rparr>,
     \<lparr>pool_gfp_flags = GFP_KERNEL, pool_chunk_size = 64, pool_pages = 1\<rparr>,
     \<lparr>pool_gfp_flags = GFP_KERNEL, pool_chunk_size = 128, pool_pages = 1\<rparr>,
     \<lparr>pool_gfp_flags = GFP_KERNEL, pool_chunk_size = 256, pool_pages = 1\<rparr>,
     \<lparr>pool_gfp_flags = GFP_KERNEL, pool_chunk_size = 512, pool_pages = 1\<rparr>,
     \<lparr>pool_gfp_flags = GFP_KERNEL, pool_chunk_size = 1024, pool_pages = 1\<rparr>,
     \<lparr>pool_gfp_flags = GFP_KERNEL, pool_chunk_size = 2048, pool_pages = 1\<rparr>]"

text \<open>
  The state: the root structure of the slab allocator, \<open>_pools_mem_cache\<close> as indices of its caches,
  and the provider of pages.
\<close>

record 's kheap =
  kh_root :: root_mem_cache
  kh_pools :: "nat option list"
  kh_pages :: 's

definition kmalloc_setup :: int where
  "kmalloc_setup = 0"

definition pool_matches :: "u32 \<Rightarrow> u32 \<Rightarrow> nat \<Rightarrow> bool" where
  "pool_matches nbytes fl i \<longleftrightarrow>
     fl AND pool_gfp_flags (pools ! i) = pool_gfp_flags (pools ! i) \<and> pool_chunk_size (pools ! i) \<ge> nbytes"

text \<open>Create the cache of a pool if it does not exist.\<close>

definition ensure_pool :: "board \<Rightarrow> nat \<Rightarrow> 's kheap \<Rightarrow> (int \<times> 's kheap) run" where
  "ensure_pool cfg i H =
     (if kh_pools H ! i \<noteq> None then Inr (0, H)
      else case mem_cache_new cfg (ucast (pool_pages (pools ! i))) (pool_chunk_size (pools ! i))
          (pool_gfp_flags (pools ! i)) (kh_root H) of
        Inl b \<Rightarrow> Inl b
      | Inr (err, c, root) \<Rightarrow>
          Inr (err, H\<lparr>kh_root := root, kh_pools := if err = 0 then (kh_pools H)[i := c] else kh_pools H\<rparr>))"

definition set_pool_cache :: "nat \<Rightarrow> mem_cache \<Rightarrow> 's \<Rightarrow> 's kheap \<Rightarrow> 's kheap" where
  "set_pool_cache c mc s H = H\<lparr>kh_root := (kh_root H)\<lparr>caches := (caches (kh_root H))[c := mc]\<rparr>, kh_pages := s\<rparr>"

definition kmalloc ::
  "board \<Rightarrow> 's get_pages \<Rightarrow> 's put_pages \<Rightarrow> 's clear \<Rightarrow> u32 \<Rightarrow> u32 \<Rightarrow> 's kheap \<Rightarrow> (u32 \<times> 's kheap) run" where
  "kmalloc cfg get free clear nbytes fl H =
     (case find (pool_matches nbytes fl) [0..<length pools] of
        None \<Rightarrow> Inr (0, H)
      | Some i \<Rightarrow>
          (case ensure_pool cfg i H of
             Inl b \<Rightarrow> Inl b
           | Inr (err, H1) \<Rightarrow>
               if err \<noteq> 0 then Inr (0, H1)
               else let c = the (kh_pools H1 ! i)
                 in case mem_cache_alloc cfg get free clear (caches (kh_root H1) ! c) (kh_pages H1) of
                      Inl b \<Rightarrow> Inl b
                    | Inr (p, mc, s) \<Rightarrow>
                        let s1 = (if p \<noteq> 0 \<and> fl AND GFP_ZERO \<noteq> 0 then clear p nbytes s else s)
                        in Inr (p, set_pool_cache c mc s1 H1)))"

fun kfree_loop :: "board \<Rightarrow> 's put_pages \<Rightarrow> u32 \<Rightarrow> nat list \<Rightarrow> 's kheap \<Rightarrow> int \<times> 's kheap" where
  "kfree_loop cfg free mem [] H = (-1, H)"
| "kfree_loop cfg free mem (i # is) H =
     (case kh_pools H ! i of
        None \<Rightarrow> kfree_loop cfg free mem is H
      | Some c \<Rightarrow>
          (case mem_cache_free cfg free (caches (kh_root H) ! c) mem (kh_pages H) of
             (err, mc, s) \<Rightarrow>
               let H1 = set_pool_cache c mc s H
               in if err = 0 then (0, H1) else kfree_loop cfg free mem is H1))"

definition kfree :: "board \<Rightarrow> 's put_pages \<Rightarrow> u32 \<Rightarrow> 's kheap \<Rightarrow> int \<times> 's kheap" where
  "kfree cfg free mem H = (if mem = 0 then (0, H) else kfree_loop cfg free mem [0..<length pools] H)"

section \<open>The invariant\<close>

definition pool_cache :: "'s kheap \<Rightarrow> nat \<Rightarrow> mem_cache option" where
  "pool_cache H i = map_option (\<lambda>c. caches (kh_root H) ! c) (kh_pools H ! i)"

definition pool_ok :: "board \<Rightarrow> nat \<Rightarrow> mem_cache \<Rightarrow> (u32 \<times> u32) set \<Rightarrow> bool" where
  "pool_ok cfg i mc M \<longleftrightarrow> pages_per_slab mc = 1 \<and> chunk_sz mc = pool_chunk_size (pools ! i) \<and> cache_ok cfg mc M"

definition pool_regions :: "board \<Rightarrow> 's kheap \<Rightarrow> region set" where
  "pool_regions cfg H = {(a, unat (chunk_sz mc)) | a mc i. i < 7 \<and> pool_cache H i = Some mc \<and> a \<in> allocated cfg mc}"

definition table_ok :: "'s kheap \<Rightarrow> bool" where
  "table_ok H \<longleftrightarrow> length (kh_pools H) = 7 \<and> root_page (kh_root H) \<noteq> 0 \<and>
     (\<forall>i < 7. \<forall>c. kh_pools H ! i = Some c \<longrightarrow> c < length (caches (kh_root H))) \<and>
     (\<forall>i < 7. \<forall>j < 7. \<forall>c. kh_pools H ! i = Some c \<longrightarrow> kh_pools H ! j = Some c \<longrightarrow> i = j)"

definition pools_hold :: "board \<Rightarrow> 's kheap \<Rightarrow> (nat \<Rightarrow> (u32 \<times> u32) set) \<Rightarrow> (u32 \<times> u32) set \<Rightarrow> bool" where
  "pools_hold cfg H Ms R \<longleftrightarrow> (\<forall>i < 7. Ms i \<subseteq> R) \<and> (\<forall>i < 7. \<forall>j < 7. i \<noteq> j \<longrightarrow> Ms i \<inter> Ms j = {}) \<and>
     (\<forall>i < 7. \<forall>mc. pool_cache H i = Some mc \<longrightarrow> pool_ok cfg i mc (Ms i))"

definition kmalloc_ok :: "board \<Rightarrow> ('s \<Rightarrow> region set \<Rightarrow> bool) \<Rightarrow> region set \<Rightarrow> 's kheap \<Rightarrow> region set \<Rightarrow> bool" where
  "kmalloc_ok cfg Iv R0 H Q \<longleftrightarrow> PAGE_SIZE cfg = 4096 \<and> table_ok H \<and> Q = pool_regions cfg H \<and>
     (\<exists>R Ms. owns Iv 4096 R0 (kh_pages H) R \<and> pools_hold cfg H Ms R)"

lemma length_pools [simp]: "length pools = 7"
  by (simp add: pools_def)

lemma pool_sizes:
  assumes "i < 7"
  shows "pool_pages (pools ! i) = 1" and "\<exists>j < 12. 4 < j \<and> pool_chunk_size (pools ! i) = 2 ^ j"
proof -
  have "i \<in> {0, 1, 2, 3, 4, 5, 6}" using assms by auto
  then show "pool_pages (pools ! i) = 1" by (auto simp: pools_def)
  have "pool_chunk_size (pools ! i) = 2 ^ (i + 5)"
    using \<open>i \<in> _\<close> by (elim insertE emptyE) (simp_all add: pools_def)
  then show "\<exists>j < 12. 4 < j \<and> pool_chunk_size (pools ! i) = 2 ^ j"
    using assms by (intro exI [of _ "i + 5"]) simp
qed

lemma pool_geometry:
  assumes "PAGE_SIZE cfg = 4096" and "i < 7" and "pages_per_slab mc = 1" and "chunk_sz mc = pool_chunk_size (pools ! i)"
  shows "geometry cfg mc"
proof -
  obtain j where j: "j < 12" "4 < j" "chunk_sz mc = 2 ^ j" using pool_sizes(2) [OF assms(2)] assms(4) by auto
  have "(2::nat) ^ j dvd 2 ^ 12" using j(1) by (intro le_imp_power_dvd) simp
  then have d: "2 ^ j dvd unat (PAGE_SIZE cfg)" using assms(1) by simp
  have "(2::nat) ^ 5 \<le> 2 ^ j" using j(2) by (intro power_increasing) simp_all
  then have "4096 div 2 ^ j \<le> (4096 :: nat) div 2 ^ 5" by (intro div_le_mono2) simp_all
  then have "nchunks cfg mc \<le> 128"
    using j assms(1, 3) by (simp add: CHUNKS_PER_SLAB_def unat_div_u32)
  moreover have "\<exists>j < 32. chunk_sz mc = 2 ^ j \<and> 2 ^ j dvd unat (PAGE_SIZE cfg)"
    using j d by (intro exI [of _ j]) simp
  ultimately show ?thesis
    using assms(1, 3)
    by (simp add: geometry_def MAX_BITMAP_WORDS_def BITMAP_WORDS_def BITMAP_BYTES_def KMALLOC_SIZE_MIN_def WORD_T_BYTES_def)
qed

definition empty_cache :: "nat \<Rightarrow> mem_cache" where
  "empty_cache i = \<lparr>pages_per_slab = ucast (pool_pages (pools ! i)), chunk_sz = pool_chunk_size (pools ! i),
     gfp_flags = pool_gfp_flags (pools ! i), full_slabs = [], partial_slabs = [], free_slabs = []\<rparr>"

lemma empty_cache_ok:
  assumes "PAGE_SIZE cfg = 4096" and "i < 7"
  shows "pool_ok cfg i (empty_cache i) M" and "allocated cfg (empty_cache i) = {}"
  using pool_geometry [OF assms, of "empty_cache i"] pool_sizes(1) [OF assms(2)]
  by (simp_all add: pool_ok_def cache_ok_def empty_cache_def cache_slabs_def allocated_def)

text \<open>Changing one pool.\<close>

lemma pool_cache_set:
  assumes t: "table_ok H" and i: "i < 7" "kh_pools H ! i = Some c" and j: "j < 7"
  shows "pool_cache (set_pool_cache c mc s H) j = (if j = i then Some mc else pool_cache H j)"
    and "table_ok (set_pool_cache c mc s H)" and "kh_pages (set_pool_cache c mc s H) = s"
proof -
  have c: "c < length (caches (kh_root H))" using t i unfolding table_ok_def by blast
  have other: "d \<noteq> c" if "kh_pools H ! j = Some d" "j \<noteq> i" for d
    using that t i j unfolding table_ok_def by blast
  show "pool_cache (set_pool_cache c mc s H) j = (if j = i then Some mc else pool_cache H j)"
    using c i(2) other by (cases "kh_pools H ! j") (auto simp: pool_cache_def set_pool_cache_def)
  show "table_ok (set_pool_cache c mc s H)" using t by (simp add: table_ok_def set_pool_cache_def)
  show "kh_pages (set_pool_cache c mc s H) = s" by (simp add: set_pool_cache_def)
qed

lemma pools_hold_set:
  assumes hold: "pools_hold cfg H Ms R" and t: "table_ok H" and i: "i < 7" "kh_pools H ! i = Some c"
    and M: "pool_ok cfg i mc M'" and R: "M' \<subseteq> R'" "\<And>j. j < 7 \<Longrightarrow> j \<noteq> i \<Longrightarrow> Ms j \<subseteq> R'"
    and new: "\<And>j. j < 7 \<Longrightarrow> j \<noteq> i \<Longrightarrow> Ms j \<inter> M' = {}"
  shows "pools_hold cfg (set_pool_cache c mc s H) (Ms(i := M')) R'"
  unfolding pools_hold_def
proof (intro conjI allI impI)
  fix j :: nat assume "j < 7"
  then show "(Ms(i := M')) j \<subseteq> R'" using R by simp
next
  fix j k :: nat assume "j < 7" "k < 7" "j \<noteq> k"
  then show "(Ms(i := M')) j \<inter> (Ms(i := M')) k = {}" using new hold unfolding pools_hold_def by (auto simp: Int_commute)
next
  fix j :: nat and mc' assume "j < 7" "pool_cache (set_pool_cache c mc s H) j = Some mc'"
  then show "pool_ok cfg j mc' ((Ms(i := M')) j)"
    using pool_cache_set(1) [OF t i] M hold unfolding pools_hold_def by (auto split: if_splits)
qed

definition other_regions :: "board \<Rightarrow> 's kheap \<Rightarrow> nat \<Rightarrow> region set" where
  "other_regions cfg H i =
     {(a, unat (chunk_sz mc)) | a mc j. j < 7 \<and> j \<noteq> i \<and> pool_cache H j = Some mc \<and> a \<in> allocated cfg mc}"

lemma pool_regions_split:
  assumes "i < 7" and "pool_cache H i = Some mc"
  shows "pool_regions cfg H = (\<lambda>a. (a, unat (chunk_sz mc))) ` allocated cfg mc \<union> other_regions cfg H i"
proof (intro equalityI subsetI)
  fix r assume "r \<in> pool_regions cfg H"
  then obtain a mc' j where r: "r = (a, unat (chunk_sz mc'))" "j < 7" "pool_cache H j = Some mc'" "a \<in> allocated cfg mc'"
    unfolding pool_regions_def by blast
  then show "r \<in> (\<lambda>a. (a, unat (chunk_sz mc))) ` allocated cfg mc \<union> other_regions cfg H i"
    using assms(2) unfolding other_regions_def by (cases "j = i") auto
next
  fix r assume "r \<in> (\<lambda>a. (a, unat (chunk_sz mc))) ` allocated cfg mc \<union> other_regions cfg H i"
  then show "r \<in> pool_regions cfg H"
    using assms unfolding other_regions_def pool_regions_def by blast
qed

lemma pool_regions_set:
  assumes t: "table_ok H" and i: "i < 7" "kh_pools H ! i = Some c"
  shows "pool_regions cfg (set_pool_cache c mc s H) =
    (\<lambda>a. (a, unat (chunk_sz mc))) ` allocated cfg mc \<union> other_regions cfg H i"
proof -
  note eq = pool_cache_set(1) [OF t i]
  have "pool_cache (set_pool_cache c mc s H) i = Some mc" using eq [OF i(1)] by simp
  moreover have "other_regions cfg (set_pool_cache c mc s H) i = other_regions cfg H i"
    by (simp add: other_regions_def eq cong: conj_cong)
  ultimately show ?thesis using pool_regions_split [OF i(1)] by blast
qed

section \<open>The operations\<close>

text \<open>The chunks of two pools never overlap.\<close>

lemma pools_apart:
  assumes size: "PAGE_SIZE cfg = 4096" and h: "held 4096 R" and hold: "pools_hold cfg H Ms R"
    and i: "i < 7" "pool_cache H i = Some mc" "a \<in> allocated cfg mc"
    and j: "j < 7" "pool_cache H j = Some mc'" "b \<in> allocated cfg mc'"
    and ne: "(i, a) \<noteq> (j, b)"
  shows "region_bytes (a, unat (chunk_sz mc)) \<inter> region_bytes (b, unat (chunk_sz mc')) = {}"
proof -
  have h': "held (unat (PAGE_SIZE cfg)) R" using h size by simp
  have oki: "cache_ok cfg mc (Ms i)" "pages_per_slab mc = 1" "Ms i \<subseteq> R" using hold i(1, 2) unfolding pools_hold_def pool_ok_def by blast+
  have okj: "cache_ok cfg mc' (Ms j)" "pages_per_slab mc' = 1" "Ms j \<subseteq> R" using hold j(1, 2) unfolding pools_hold_def pool_ok_def by blast+
  show ?thesis
  proof (cases "i = j")
    case True
    then show ?thesis using i j ne allocated_apart [OF oki(1) h' oki(3) i(3), of b] by simp
  next
    case False
    obtain p where p: "(p, pages_per_slab mc) \<in> Ms i"
      "region_bytes (a, unat (chunk_sz mc)) \<subseteq> region_bytes (p, unat (pages_per_slab mc) * unat (PAGE_SIZE cfg))"
      using allocated_region [OF oki(1) h' oki(3) i(3)] .
    obtain q where q: "(q, pages_per_slab mc') \<in> Ms j"
      "region_bytes (b, unat (chunk_sz mc')) \<subseteq> region_bytes (q, unat (pages_per_slab mc') * unat (PAGE_SIZE cfg))"
      using allocated_region [OF okj(1) h' okj(3) j(3)] .
    have "Ms i \<inter> Ms j = {}" using hold i(1) j(1) False unfolding pools_hold_def by blast
    then have ne': "(p, pages_per_slab mc) \<noteq> (q, pages_per_slab mc')" using p(1) q(1) by (metis IntI emptyE)
    have "(p, pages_per_slab mc) \<in> R" "(q, pages_per_slab mc') \<in> R" using p(1) q(1) oki(3) okj(3) by blast+
    with ne' h' have "region_bytes (p, unat (pages_per_slab mc) * unat (PAGE_SIZE cfg)) \<inter>
      region_bytes (q, unat (pages_per_slab mc') * unat (PAGE_SIZE cfg)) = {}"
      unfolding held_def by blast
    then show ?thesis using p(2) q(2) by blast
  qed
qed

lemma ensure_pool_ok:
  assumes H: "kmalloc_ok cfg Iv R0 H Q" and i: "i < 7"
  obtains err H1 where "ensure_pool cfg i H = Inr (err, H1)" and "kmalloc_ok cfg Iv R0 H1 Q"
    and "err = 0 \<Longrightarrow> kh_pools H1 ! i \<noteq> None"
proof (cases "kh_pools H ! i")
  case (Some c)
  then show thesis using H by (intro that [of 0 H]) (simp_all add: ensure_pool_def)
next
  case None
  let ?root = "kh_root H" and ?p = "pools ! i"
  have t: "table_ok H" and size: "PAGE_SIZE cfg = 4096" using H by (simp_all add: kmalloc_ok_def)
  obtain R Ms where own: "owns Iv 4096 R0 (kh_pages H) R" and hold: "pools_hold cfg H Ms R"
    using H by (auto simp: kmalloc_ok_def)
  let ?new = "\<not> length (caches ?root) < caches_total ?root \<or>
    BITMAP_WORDS cfg (ucast (pool_pages ?p)) (pool_chunk_size ?p) > MAX_BITMAP_WORDS cfg"
  show thesis
  proof (cases ?new)
    case True
    then have "ensure_pool cfg i H = Inr (-1, H)"
      using None t by (auto simp: ensure_pool_def mem_cache_new_def table_ok_def)
    then show thesis using H by (intro that [of "-1" H]) simp_all
  next
    case False
    let ?c = "length (caches ?root)"
    define H1 where "H1 = H\<lparr>kh_root := ?root\<lparr>caches := caches ?root @ [empty_cache i]\<rparr>, kh_pools := (kh_pools H)[i := Some ?c]\<rparr>"
    have e: "ensure_pool cfg i H = Inr (0, H1)"
      using None t False by (simp add: ensure_pool_def mem_cache_new_def table_ok_def H1_def empty_cache_def)
    have pc: "pool_cache H1 j = (if j = i then Some (empty_cache i) else pool_cache H j)" if "j < 7" for j
    proof -
      have "d < ?c" if "kh_pools H ! j = Some d" for d using t \<open>j < 7\<close> that unfolding table_ok_def by blast
      then show ?thesis using t i that by (cases "kh_pools H ! j") (auto simp: pool_cache_def H1_def table_ok_def nth_append)
    qed
    have "table_ok H1"
      using t i by (auto simp: table_ok_def H1_def nth_list_update less_Suc_eq split: if_splits)
    moreover have "pool_regions cfg H1 = pool_regions cfg H"
    proof -
      have "pool_cache H i = None" using None by (simp add: pool_cache_def)
      then have "j < 7 \<and> pool_cache H1 j = Some mc \<and> a \<in> allocated cfg mc \<longleftrightarrow>
          j < 7 \<and> pool_cache H j = Some mc \<and> a \<in> allocated cfg mc" for j mc a
        using empty_cache_ok(2) [OF size i] by (auto simp: pc split: if_splits)
      then show ?thesis unfolding pool_regions_def by simp
    qed
    moreover have "pools_hold cfg H1 Ms R"
      using hold empty_cache_ok(1) [OF size i] unfolding pools_hold_def by (auto simp: pc)
    moreover have "kh_pages H1 = kh_pages H" by (simp add: H1_def)
    ultimately have "kmalloc_ok cfg Iv R0 H1 Q" using H own unfolding kmalloc_ok_def by auto
    then show thesis using e t i by (intro that [of 0 H1]) (simp_all add: H1_def table_ok_def)
  qed
qed

context clearing_provider
begin

lemma kmalloc_step:
  assumes pages: "page = 4096" and fine: "fine 1" and H: "kmalloc_ok cfg inv R0 H Q"
  obtains p H' where "kmalloc cfg get free clear n fl H = Inr (p, H')"
    and "p = 0 \<Longrightarrow> kmalloc_ok cfg inv R0 H' Q"
    and "p \<noteq> 0 \<Longrightarrow> \<exists>len. 0 < len \<and> unat n \<le> len \<and> (\<forall>r \<in> Q. region_bytes r \<inter> region_bytes (p, len) = {}) \<and>
      kmalloc_ok cfg inv R0 H' (insert (p, len) Q)"
proof (cases "find (pool_matches n fl) [0..<length pools]")
  case None
  then have "kmalloc cfg get free clear n fl H = Inr (0, H)" by (simp add: kmalloc_def)
  then show thesis using H by (intro that [of 0 H]) simp_all
next
  case (Some i)
  have i: "i < 7" "pool_matches n fl i" using Some by (auto simp: find_Some_iff)
  obtain err H1 where e: "ensure_pool cfg i H = Inr (err, H1)" and H1: "kmalloc_ok cfg inv R0 H1 Q"
    and made: "err = 0 \<Longrightarrow> kh_pools H1 ! i \<noteq> None" using ensure_pool_ok [OF H i(1)] by metis
  show thesis
  proof (cases "err = 0")
    case False
    then have "kmalloc cfg get free clear n fl H = Inr (0, H1)" using Some e by (simp add: kmalloc_def)
    then show thesis using H1 by (intro that [of 0 H1]) simp_all
  next
    case True
    obtain c where c: "kh_pools H1 ! i = Some c" using made [OF True] by blast
    let ?mc = "caches (kh_root H1) ! c"
    have pc: "pool_cache H1 i = Some ?mc" using c by (simp add: pool_cache_def)
    have t: "table_ok H1" and size: "PAGE_SIZE cfg = 4096" and Q: "Q = pool_regions cfg H1" using H1 by (simp_all add: kmalloc_ok_def)
    obtain R Ms where own: "owns inv page R0 (kh_pages H1) R" and hold: "pools_hold cfg H1 Ms R"
      using H1 pages by (auto simp: kmalloc_ok_def)
    have ok: "cache_ok cfg ?mc (Ms i)" "pages_per_slab ?mc = 1" "Ms i \<subseteq> R" "chunk_sz ?mc = pool_chunk_size (pools ! i)"
      using hold i(1) pc unfolding pools_hold_def pool_ok_def by blast+
    have pg: "page = unat (PAGE_SIZE cfg)" using pages size by simp
    have f: "fine (pages_per_slab ?mc)" using fine ok(2) by simp
    obtain p mc' s' R' M' where a: "mem_cache_alloc cfg get free clear ?mc (kh_pages H1) = Inr (p, mc', s')"
      "owns inv page R0 s' R'" "R \<subseteq> R'" "cache_ok cfg mc' M'" "Ms i \<subseteq> M'" "M' - Ms i \<subseteq> R' - R"
      "pages_per_slab mc' = pages_per_slab ?mc" "chunk_sz mc' = chunk_sz ?mc"
      "if p = 0 then allocated cfg mc' = allocated cfg ?mc
        else p \<notin> allocated cfg ?mc \<and> allocated cfg mc' = insert p (allocated cfg ?mc)"
      using alloc_ok [OF pg own ok(1, 3) fine f] by metis
    define s1 where "s1 = (if p \<noteq> 0 \<and> fl AND GFP_ZERO \<noteq> 0 then clear p n s' else s')"
    define H2 where "H2 = set_pool_cache c mc' s1 H1"
    have k: "kmalloc cfg get free clear n fl H = Inr (p, H2)"
      using Some e True c a(1) by (simp add: kmalloc_def H2_def s1_def Let_def)
    have own2: "owns inv page R0 s1 R'" using a(2) unfolding s1_def owns_def by (auto intro: clear_inv)
    have pool: "pool_ok cfg i mc' M'" using a(4, 7, 8) ok(2, 4) by (simp add: pool_ok_def)
    have "Ms j \<subseteq> R'" "Ms j \<inter> M' = {}" if "j < 7" "j \<noteq> i" for j
    proof -
      have "Ms j \<subseteq> R" "Ms j \<inter> Ms i = {}" using hold that i(1) unfolding pools_hold_def by blast+
      then show "Ms j \<subseteq> R'" "Ms j \<inter> M' = {}" using a(3, 6) by blast+
    qed
    then have hold2: "pools_hold cfg H2 (Ms(i := M')) R'"
      unfolding H2_def using a(3, 5, 6) ok(3) by (intro pools_hold_set [OF hold t i(1) c pool]) auto
    have pc2: "pool_cache H2 j = (if j = i then Some mc' else pool_cache H1 j)" if "j < 7" for j
      unfolding H2_def by (rule pool_cache_set(1) [OF t i(1) c that])
    have t2: "table_ok H2" and pages2: "kh_pages H2 = s1" unfolding H2_def using pool_cache_set(2, 3) [OF t i(1) c i(1)] by simp_all
    have R2: "pool_regions cfg H2 = (\<lambda>a. (a, unat (chunk_sz ?mc))) ` allocated cfg mc' \<union> other_regions cfg H1 i"
      unfolding H2_def using pool_regions_set [OF t i(1) c] a(8) by simp
    note R1 = pool_regions_split [OF i(1) pc, of cfg]
    have ok2: "kmalloc_ok cfg inv R0 H2 (pool_regions cfg H2)"
      unfolding kmalloc_ok_def using size t2 own2 hold2 pages pages2 by auto
    show thesis
    proof (rule that [OF k])
      assume "p = 0"
      then have "pool_regions cfg H2 = Q" using R1 R2 Q a(9) by simp
      then show "kmalloc_ok cfg inv R0 H2 Q" using ok2 by simp
    next
      assume p: "p \<noteq> 0"
      let ?len = "unat (chunk_sz ?mc)"
      have Q2: "pool_regions cfg H2 = insert (p, ?len) Q" using R1 R2 Q a(9) p by simp
      have "0 < ?len" using geometryD(1) [OF cache_okD(1) [OF ok(1)]] .
      moreover have "unat n \<le> ?len" using i(2) ok(4) by (simp add: pool_matches_def word_le_nat_alt)
      moreover have "region_bytes r \<inter> region_bytes (p, ?len) = {}" if "r \<in> Q" for r
      proof -
        have h: "held 4096 R'" using owns_held [OF own2] pages by simp
        obtain a' m j where r: "r = (a', unat (chunk_sz m))" "j < 7" "pool_cache H1 j = Some m" "a' \<in> allocated cfg m"
          using \<open>r \<in> Q\<close> unfolding Q pool_regions_def by blast
        have new: "pool_cache H2 i = Some mc'" "p \<in> allocated cfg mc'" using pc2 [OF i(1)] a(9) p by simp_all
        have ne: "(j, a') \<noteq> (i, p)" using r(3, 4) pc a(9) p by auto
        show ?thesis
        proof (cases "j = i")
          case True
          then have m: "m = ?mc" using r(3) pc by simp
          then have "a' \<in> allocated cfg mc'" using r(4) a(9) p by simp
          with pools_apart [OF size h hold2 i(1) new(1) _ i(1) new, of a'] ne True
          show ?thesis using r(1) a(8) m by simp
        next
          case False
          then have "pool_cache H2 j = Some m" using r(3) pc2 [OF r(2)] by simp
          from pools_apart [OF size h hold2 r(2) this r(4) i(1) new ne] show ?thesis using r(1) a(8) by simp
        qed
      qed
      ultimately show "\<exists>len. 0 < len \<and> unat n \<le> len \<and> (\<forall>r \<in> Q. region_bytes r \<inter> region_bytes (p, len) = {}) \<and>
          kmalloc_ok cfg inv R0 H2 (insert (p, len) Q)"
        using ok2 Q2 by (intro exI [of _ ?len]) simp
    qed
  qed
qed

lemma kfree_pool:
  assumes pages: "page = 4096" and H: "kmalloc_ok cfg inv R0 H Q" and i: "i < 7" "kh_pools H ! i = Some c"
    and a: "a \<noteq> 0" and r: "mem_cache_free cfg free (caches (kh_root H) ! c) a (kh_pages H) = (err, mc, s)"
  shows "if a \<in> allocated cfg (caches (kh_root H) ! c)
    then err = 0 \<and> (a, unat (pool_chunk_size (pools ! i))) \<in> Q \<and>
      kmalloc_ok cfg inv R0 (set_pool_cache c mc s H) (Q - {(a, unat (pool_chunk_size (pools ! i)))})
    else err = -1 \<and> set_pool_cache c mc s H = H"
proof -
  let ?mc = "caches (kh_root H) ! c"
  have pc: "pool_cache H i = Some ?mc" using i(2) by (simp add: pool_cache_def)
  have t: "table_ok H" and size: "PAGE_SIZE cfg = 4096" and Q: "Q = pool_regions cfg H" using H by (simp_all add: kmalloc_ok_def)
  obtain R Ms where own: "owns inv page R0 (kh_pages H) R" and hold: "pools_hold cfg H Ms R"
    using H pages by (auto simp: kmalloc_ok_def)
  have ok: "cache_ok cfg ?mc (Ms i)" "pages_per_slab ?mc = 1" "Ms i \<subseteq> R" "chunk_sz ?mc = pool_chunk_size (pools ! i)"
    using hold i(1) pc unfolding pools_hold_def pool_ok_def by blast+
  have pg: "page = unat (PAGE_SIZE cfg)" using pages size by simp
  note f = free_ok [OF pg own ok(1, 3) r]
  show ?thesis
  proof (cases "a \<in> allocated cfg ?mc")
    case False
    then have "err = -1" "mc = ?mc" "s = kh_pages H" using f a by simp_all
    then show ?thesis using False by (simp add: set_pool_cache_def)
  next
    case True
    then have e: "err = 0" "allocated cfg mc = allocated cfg ?mc - {a}" "pages_per_slab mc = 1" "chunk_sz mc = chunk_sz ?mc"
      using f ok(2) by simp_all
    obtain X where X: "X \<subseteq> Ms i" "owns inv page R0 s (R - X)" "cache_ok cfg mc (Ms i - X)" using f True by auto
    let ?H = "set_pool_cache c mc s H"
    have pool: "pool_ok cfg i mc (Ms i - X)" using X(3) e ok(4) by (simp add: pool_ok_def)
    have "Ms j \<subseteq> R - X \<and> Ms j \<inter> (Ms i - X) = {}" if "j < 7" "j \<noteq> i" for j
    proof -
      have "Ms j \<subseteq> R" "Ms j \<inter> Ms i = {}" using hold that i(1) unfolding pools_hold_def by blast+
      then show ?thesis using X(1) by blast
    qed
    then have hold2: "pools_hold cfg ?H (Ms(i := Ms i - X)) (R - X)"
      using ok(3) by (intro pools_hold_set [OF hold t i pool]) auto
    have R2: "pool_regions cfg ?H = (\<lambda>a. (a, unat (chunk_sz ?mc))) ` (allocated cfg ?mc - {a}) \<union> other_regions cfg H i"
      using pool_regions_set [OF t i] e by simp
    note R1 = pool_regions_split [OF i(1) pc, of cfg]
    have h: "held 4096 R" using owns_held [OF own] pages by simp
    have "(a, unat (chunk_sz ?mc)) \<notin> other_regions cfg H i"
    proof
      assume "(a, unat (chunk_sz ?mc)) \<in> other_regions cfg H i"
      then obtain m j where j: "j < 7" "j \<noteq> i" "pool_cache H j = Some m" "a \<in> allocated cfg m" "unat (chunk_sz ?mc) = unat (chunk_sz m)"
        unfolding other_regions_def by blast
      have "region_bytes (a, unat (chunk_sz ?mc)) \<inter> region_bytes (a, unat (chunk_sz m)) = {}"
        using pools_apart [OF size h hold i(1) pc True j(1, 3, 4)] j(2) by simp
      then show False using j(5) region_start [OF geometryD(1) [OF cache_okD(1) [OF ok(1)]], of a] by simp
    qed
    then have Q2: "pool_regions cfg ?H = Q - {(a, unat (chunk_sz ?mc))}" unfolding R2 Q R1 by auto
    have "kmalloc_ok cfg inv R0 ?H (pool_regions cfg ?H)"
      unfolding kmalloc_ok_def using size pool_cache_set(2, 3) [OF t i i(1)] X(2) hold2 pages by auto
    moreover have "(a, unat (chunk_sz ?mc)) \<in> Q" unfolding Q R1 using True by blast
    ultimately show ?thesis using True e(1) Q2 ok(4) by simp
  qed
qed

lemma kfree_loop_ok:
  assumes pages: "page = 4096" and H: "kmalloc_ok cfg inv R0 H Q" and a: "a \<noteq> 0"
  shows "set is \<subseteq> {..<7} \<Longrightarrow>
    (if \<exists>i \<in> set is. \<exists>mc. pool_cache H i = Some mc \<and> a \<in> allocated cfg mc
     then \<exists>H' len. kfree_loop cfg free a is H = (0, H') \<and> (a, len) \<in> Q \<and> kmalloc_ok cfg inv R0 H' (Q - {(a, len)})
     else kfree_loop cfg free a is H = (-1, H))"
proof (induction "is")
  case (Cons i js)
  then have i: "i < 7" and IH: "if \<exists>i \<in> set js. \<exists>mc. pool_cache H i = Some mc \<and> a \<in> allocated cfg mc
     then \<exists>H' len. kfree_loop cfg free a js H = (0, H') \<and> (a, len) \<in> Q \<and> kmalloc_ok cfg inv R0 H' (Q - {(a, len)})
     else kfree_loop cfg free a js H = (-1, H)" by simp_all
  show ?case
  proof (cases "kh_pools H ! i")
    case None
    then have e1: "(\<exists>k \<in> set (i # js). \<exists>mc. pool_cache H k = Some mc \<and> a \<in> allocated cfg mc) \<longleftrightarrow>
        (\<exists>k \<in> set js. \<exists>mc. pool_cache H k = Some mc \<and> a \<in> allocated cfg mc)" by (simp add: pool_cache_def)
    have e2: "kfree_loop cfg free a (i # js) H = kfree_loop cfg free a js H" using None by simp
    show ?thesis unfolding e1 e2 using IH .
  next
    case (Some c)
    obtain err mc s where r: "mem_cache_free cfg free (caches (kh_root H) ! c) a (kh_pages H) = (err, mc, s)" by (metis prod_cases3)
    note p = kfree_pool [OF pages H i Some a r]
    have pc: "pool_cache H i = Some (caches (kh_root H) ! c)" using Some by (simp add: pool_cache_def)
    show ?thesis
    proof (cases "a \<in> allocated cfg (caches (kh_root H) ! c)")
      case True
      then have "kfree_loop cfg free a (i # js) H = (0, set_pool_cache c mc s H)" using p r Some by (simp add: Let_def)
      moreover have "\<exists>i \<in> set (i # js). \<exists>mc. pool_cache H i = Some mc \<and> a \<in> allocated cfg mc" using pc True by auto
      ultimately show ?thesis using p True by auto
    next
      case False
      then have e2: "kfree_loop cfg free a (i # js) H = kfree_loop cfg free a js H" using p r Some by (simp add: Let_def)
      have e1: "(\<exists>k \<in> set (i # js). \<exists>mc. pool_cache H k = Some mc \<and> a \<in> allocated cfg mc) \<longleftrightarrow>
        (\<exists>k \<in> set js. \<exists>mc. pool_cache H k = Some mc \<and> a \<in> allocated cfg mc)" using pc False by auto
      show ?thesis unfolding e1 e2 using IH .
    qed
  qed
qed simp

text \<open>\<open>kfree\<close> frees exactly the blocks that \<open>kmalloc\<close> handed out, and refuses every other address.\<close>

lemma kfree_step:
  assumes pages: "page = 4096" and H: "kmalloc_ok cfg inv R0 H Q"
  shows "if a = 0 then kfree cfg free a H = (0, H)
    else if \<exists>len. (a, len) \<in> Q then \<exists>H' len. kfree cfg free a H = (0, H') \<and> (a, len) \<in> Q \<and> kmalloc_ok cfg inv R0 H' (Q - {(a, len)})
    else kfree cfg free a H = (-1, H)"
proof -
  have Q: "Q = pool_regions cfg H" using H by (simp add: kmalloc_ok_def)
  have "(\<exists>i \<in> set [0..<length pools]. \<exists>mc. pool_cache H i = Some mc \<and> a \<in> allocated cfg mc) \<longleftrightarrow> (\<exists>len. (a, len) \<in> Q)"
    unfolding Q pool_regions_def set_upt length_pools atLeast0LessThan Bex_def lessThan_iff by blast
  note some = this
  show ?thesis
  proof (cases "a = 0")
    case False
    have "set [0..<length pools] \<subseteq> {..<7}" by auto
    from kfree_loop_ok [OF pages H False this, unfolded some] show ?thesis
      unfolding kfree_def if_not_P [OF False] .
  qed (simp add: kfree_def)
qed

lemma kmalloc_same_start:
  assumes pages: "page = 4096" and H: "kmalloc_ok cfg inv R0 H Q" and "(a, l) \<in> Q" and "(a, l') \<in> Q"
  shows "l = l'"
proof -
  have size: "PAGE_SIZE cfg = 4096" and Q: "Q = pool_regions cfg H" using H by (simp_all add: kmalloc_ok_def)
  obtain R Ms where own: "owns inv page R0 (kh_pages H) R" and hold: "pools_hold cfg H Ms R"
    using H pages by (auto simp: kmalloc_ok_def)
  have h: "held 4096 R" using owns_held [OF own] pages by simp
  obtain i mc where i: "i < 7" "pool_cache H i = Some mc" "a \<in> allocated cfg mc" "l = unat (chunk_sz mc)"
    using assms(3) unfolding Q pool_regions_def by blast
  obtain j mc' where j: "j < 7" "pool_cache H j = Some mc'" "a \<in> allocated cfg mc'" "l' = unat (chunk_sz mc')"
    using assms(4) unfolding Q pool_regions_def by blast
  have pos: "0 < unat (chunk_sz mc)" "0 < unat (chunk_sz mc')"
    using hold i(1, 2) j(1, 2) unfolding pools_hold_def pool_ok_def by (blast intro: geometryD(1) cache_okD(1))+
  have "i = j"
  proof (rule ccontr)
    assume "i \<noteq> j"
    then have "region_bytes (a, unat (chunk_sz mc)) \<inter> region_bytes (a, unat (chunk_sz mc')) = {}"
      using pools_apart [OF size h hold i(1-3) j(1-3)] by simp
    then show False using region_start [OF pos(1), of a] region_start [OF pos(2), of a] by blast
  qed
  then show ?thesis using i j by simp
qed

end

section \<open>Over the page allocator\<close>

text \<open>
  \<open>kmalloc\<close> never faults where the invariant holds (\<open>kmalloc_step\<close>); the total function the contract
  asks for reads a fault as a failed request.
\<close>

definition kmalloc_get :: "board \<Rightarrow> u32 \<Rightarrow> u32 \<Rightarrow> pages kheap \<Rightarrow> u32 \<times> pages kheap" where
  "kmalloc_get cfg n fl H =
     (case kmalloc cfg (get_free_pages cfg) (free_pages2 cfg) clear_pages n fl H of Inr r \<Rightarrow> r | Inl b \<Rightarrow> (0, H))"

definition kmalloc_put :: "board \<Rightarrow> u32 \<Rightarrow> pages kheap \<Rightarrow> pages kheap" where
  "kmalloc_put cfg p H = snd (kfree cfg (free_pages2 cfg) p H)"

abbreviation heap_ok :: "board \<Rightarrow> region set \<Rightarrow> pages kheap \<Rightarrow> region set \<Rightarrow> bool" where
  "heap_ok cfg R0 \<equiv> kmalloc_ok cfg (page_regions cfg) R0"

lemma heap_page_size: "heap_ok cfg R0 H Q \<Longrightarrow> unat (PAGE_SIZE cfg) = 4096"
  by (simp add: kmalloc_ok_def)

lemma kmalloc_get_eq:
  "kmalloc cfg (get_free_pages cfg) (free_pages2 cfg) clear_pages n fl H = Inr r \<Longrightarrow> kmalloc_get cfg n fl H = r"
  by (simp add: kmalloc_get_def)

interpretation km: region_provider "kmalloc_get cfg" "kmalloc_put cfg" "heap_ok cfg R0" 1 "\<lambda>_. True"
  for cfg R0
proof
  fix H Q n fl p H' assume H: "heap_ok cfg R0 H Q" and "True" and g: "kmalloc_get cfg n fl H = (p, H')" and p: "p \<noteq> 0"
  obtain q H2 where k: "kmalloc cfg (get_free_pages cfg) (free_pages2 cfg) clear_pages n fl H = Inr (q, H2)"
    and some: "q \<noteq> 0 \<Longrightarrow> \<exists>len. 0 < len \<and> unat n \<le> len \<and> (\<forall>r \<in> Q. region_bytes r \<inter> region_bytes (q, len) = {}) \<and>
      heap_ok cfg R0 H2 (insert (q, len) Q)"
    using cpg.kmalloc_step [OF heap_page_size [OF H] TrueI H] by metis
  have "q = p" "H2 = H'" using kmalloc_get_eq [OF k] g by simp_all
  with some [unfolded this] p show "\<exists>len. 0 < len \<and> unat n * 1 \<le> len \<and>
      (\<forall>r \<in> Q. region_bytes r \<inter> region_bytes (p, len) = {}) \<and> heap_ok cfg R0 H' (insert (p, len) Q)" by simp
next
  fix H Q n fl H' assume H: "heap_ok cfg R0 H Q" and g: "kmalloc_get cfg n fl H = (0, H')"
  obtain q H2 where k: "kmalloc cfg (get_free_pages cfg) (free_pages2 cfg) clear_pages n fl H = Inr (q, H2)"
    and none: "q = 0 \<Longrightarrow> heap_ok cfg R0 H2 Q"
    using cpg.kmalloc_step [OF heap_page_size [OF H] TrueI H] by metis
  then show "heap_ok cfg R0 H' Q" using kmalloc_get_eq [OF k] g by simp
next
  fix H Q p len assume H: "heap_ok cfg R0 H Q" and in_Q: "(p, len) \<in> Q"
  note f = cpg.kfree_step [OF heap_page_size [OF H] H, of p]
  have "p \<noteq> 0"
  proof -
    obtain R Ms where own: "owns (page_regions cfg) 4096 R0 (kh_pages H) R" and hold: "pools_hold cfg H Ms R"
      using H by (auto simp: kmalloc_ok_def)
    obtain i mc where i: "i < 7" "pool_cache H i = Some mc" "p \<in> allocated cfg mc"
      using H in_Q unfolding kmalloc_ok_def pool_regions_def by blast
    have "owns (page_regions cfg) (unat (PAGE_SIZE cfg)) R0 (kh_pages H) R" using own heap_page_size [OF H] by simp
    then have "held (unat (PAGE_SIZE cfg)) R" by (rule apg.owns_held)
    moreover have "cache_ok cfg mc (Ms i)" "Ms i \<subseteq> R" using hold i(1, 2) unfolding pools_hold_def pool_ok_def by blast+
    ultimately show ?thesis using allocated_not_null i(3) by blast
  qed
  have ex: "\<exists>len. (p, len) \<in> Q" using in_Q by blast
  obtain H' l where "kfree cfg (free_pages2 cfg) p H = (0, H')" "(p, l) \<in> Q" "heap_ok cfg R0 H' (Q - {(p, l)})"
    using f [unfolded if_not_P [OF \<open>p \<noteq> 0\<close>] if_P [OF ex]] by blast
  moreover have "l = len" using cpg.kmalloc_same_start [OF heap_page_size [OF H] H calculation(2) in_Q] .
  ultimately show "heap_ok cfg R0 (kmalloc_put cfg p H) (Q - {(p, len)})" by (simp add: kmalloc_put_def)
next
  fix H Q assume "heap_ok cfg R0 H Q"
  then show "heap_ok cfg R0 (kmalloc_put cfg 0 H) Q" by (simp add: kmalloc_put_def kfree_def)
qed

section \<open>Properties\<close>

text \<open>C11: \<open>kmalloc\<close> over the page allocator never runs into a null pointer or a \<open>_BUG()\<close>; a block it
  returns is at least as big as asked for and overlaps no block it returned before and has not got
  back, and a request that fails costs no block.\<close>

theorem kmalloc_safe:
  assumes "heap_ok cfg R0 H Q"
  shows "\<exists>p H'. kmalloc cfg (get_free_pages cfg) (free_pages2 cfg) clear_pages n fl H = Inr (p, H') \<and>
    (if p = 0 then heap_ok cfg R0 H' Q
     else \<exists>len. 0 < len \<and> unat n \<le> len \<and> (\<forall>r \<in> Q. region_bytes r \<inter> region_bytes (p, len) = {}) \<and>
       heap_ok cfg R0 H' (insert (p, len) Q))"
  using cpg.kmalloc_step [OF heap_page_size [OF assms] TrueI assms, of n fl] by (metis (full_types))

text \<open>C12: \<open>kfree\<close> returns 0 and releases exactly the block it is given when that is one \<open>kmalloc\<close>
  handed out; on any other address, a double free or a pointer into a block, it returns -1 and
  changes nothing.\<close>

theorem kfree_exact:
  assumes "heap_ok cfg R0 H Q" and "a \<noteq> 0"
  shows "if \<exists>len. (a, len) \<in> Q
    then \<exists>H' len. kfree cfg (free_pages2 cfg) a H = (0, H') \<and> (a, len) \<in> Q \<and> heap_ok cfg R0 H' (Q - {(a, len)})
    else kfree cfg (free_pages2 cfg) a H = (-1, H)"
  using cpg.kfree_step [OF heap_page_size [OF assms(1)] assms(1), of a] unfolding if_not_P [OF assms(2)] .

text \<open>C13: A slab cache of any chunk size that divides the page, filled by any mix of allocations:
  \<open>mem_cache_alloc\<close> returns a chunk that was not in use, disjoint from all in use, or null, and null only when the cache has no
  partial slab and a request it made to the page allocator failed: with no free slab, the one for a page of slabs or else
  the one for the pages of the first slab in it, and otherwise the one for the pages of its first free slab. A page holds
  at least one slab.\<close>

theorem mem_cache_alloc_fresh:
  assumes own: "owns (page_regions cfg) (unat (PAGE_SIZE cfg)) R0 s R" and ok: "cache_ok cfg mc M" and M: "M \<subseteq> R"
    and slabs: "SLABS_PER_PAGE cfg \<noteq> 0"
  shows "\<exists>p mc' s' R' M'. mem_cache_alloc cfg (get_free_pages cfg) (free_pages2 cfg) clear_pages mc s = Inr (p, mc', s') \<and>
    owns (page_regions cfg) (unat (PAGE_SIZE cfg)) R0 s' R' \<and> cache_ok cfg mc' M' \<and> M' \<subseteq> R' \<and> R \<subseteq> R' \<and>
    (if p = 0 then allocated cfg mc' = allocated cfg mc \<and> partial_slabs mc = [] \<and>
       (if free_slabs mc = [] then
          (case get_free_pages cfg 1 (gfp_flags mc OR GFP_ZERO) s of (q, t) \<Rightarrow>
             q = 0 \<or> fst (get_free_pages cfg (pages_per_slab mc) (gfp_flags mc) t) = 0)
        else slab_page (hd (free_slabs mc)) = 0 \<and> fst (get_free_pages cfg (pages_per_slab mc) (gfp_flags mc) s) = 0)
     else p \<notin> allocated cfg mc \<and> allocated cfg mc' = insert p (allocated cfg mc) \<and>
       (\<forall>a \<in> allocated cfg mc. region_bytes (a, unat (chunk_sz mc)) \<inter> region_bytes (p, unat (chunk_sz mc)) = {}))"
proof -
  obtain p mc' s' R' M' where a: "mem_cache_alloc cfg (get_free_pages cfg) (free_pages2 cfg) clear_pages mc s = Inr (p, mc', s')"
    "owns (page_regions cfg) (unat (PAGE_SIZE cfg)) R0 s' R'" "R \<subseteq> R'" "cache_ok cfg mc' M'" "M \<subseteq> M'" "M' - M \<subseteq> R' - R"
    "chunk_sz mc' = chunk_sz mc"
    "if p = 0 then allocated cfg mc' = allocated cfg mc
      else p \<notin> allocated cfg mc \<and> allocated cfg mc' = insert p (allocated cfg mc)"
    "p = 0 \<longrightarrow> pages_failed cfg (get_free_pages cfg) mc s"
    using cpg.alloc_ok [OF refl own ok M TrueI TrueI] by metis
  have sub: "M' \<subseteq> R'" using M a(3, 6) by blast
  have "region_bytes (b, unat (chunk_sz mc)) \<inter> region_bytes (p, unat (chunk_sz mc)) = {}"
    if "p \<noteq> 0" "b \<in> allocated cfg mc" for b
    using allocated_apart [OF a(4) apg.owns_held [OF a(2)] sub, of b p] that a(7, 8) by auto
  moreover have "partial_slabs mc = [] \<and>
       (if free_slabs mc = [] then
          (case get_free_pages cfg 1 (gfp_flags mc OR GFP_ZERO) s of (q, t) \<Rightarrow>
             q = 0 \<or> fst (get_free_pages cfg (pages_per_slab mc) (gfp_flags mc) t) = 0)
        else slab_page (hd (free_slabs mc)) = 0 \<and> fst (get_free_pages cfg (pages_per_slab mc) (gfp_flags mc) s) = 0)"
    if "p = 0"
    using a(9) that slabs by (auto simp: pages_failed_def split: prod.splits)
  ultimately show ?thesis
    using a(1,2,3,4,8) sub
    by (intro exI [of _ p] exI [of _ mc'] exI [of _ s'] exI [of _ R'] exI [of _ M']) (simp split: if_split_asm)
qed

end
