(* ===== verification/Kmalloc_Examples.thy ===== *)
theory Kmalloc_Examples
  imports Kmalloc Page_Examples
begin

text \<open>Runs of \<open>kmalloc\<close> and the slab allocator on a heap of eight pages of a BeagleBoard.\<close>

definition board4k :: board where
  "board4k = beaglexm 0x80300000"

definition pages4k :: "u32 \<Rightarrow> (nat \<Rightarrow> u32) \<Rightarrow> memory \<Rightarrow> pages" where
  "pages4k n w m = \<lparr>buddies_of = eight_pages\<lparr>heap_base := 0x80301000, total_pages_allocated := n, words := w\<rparr>,
     pages_mem = m\<rparr>"

lemmas eval_4k = eval_alloc pages4k_def board4k_def beaglexm_def eight_pages_def set_word_def fun_eq_iff

lemma pages4k_start: "pages_inv board4k (pages4k 0 zeros m) {}"
proof -
  have "buddy_inv eight_pages {}"
    using pages_inv_eight by (simp add: pages_inv_def eight_at_start)
  then have "buddy_inv (buddies_of (pages4k 0 zeros m)) {}"
    by (simp add: pages4k_def buddy_inv_def eight_pages_def tables_ok_def same_geometry_def)
  then show ?thesis by (simp add: pages_inv_def pages4k_def board4k_def beaglexm_def eight_pages_def)
qed

text \<open>The root page of the slab allocator, its first page of slabs and the first slab's page.\<close>

abbreviation "words1 \<equiv> zeros(4 := 1, 5 := 1, 6 := 1, 7 := 1, 12 := 1)"
abbreviation "words2 \<equiv> zeros(4 := 3, 5 := 1, 6 := 1, 7 := 1, 12 := 3, 13 := 1)"
abbreviation "words3 \<equiv> zeros(4 := 7, 5 := 3, 6 := 1, 7 := 1, 12 := 7, 13 := 1)"

lemma setup4k:
  "mem_cache_setup board4k (get_free_pages board4k) \<lparr>root_page = 0, caches_total = 0, caches = []\<rparr> (pages4k 0 zeros m) =
    (0, \<lparr>root_page = 0x80301000, caches_total = 170, caches = []\<rparr>, pages4k 1 words1 m)"
  by (simp add: mem_cache_setup_def sizeof_mem_cache_def eval_4k)

lemma next_pages:
  "get_free_pages board4k 1 (GFP_KERNEL OR GFP_ZERO) (pages4k 1 words1 m) = (0x80302000, pages4k 2 words2 (memset m 0x80302000 0 4096))"
  "get_free_pages board4k 1 GFP_KERNEL (pages4k 2 words2 m) = (0x80303000, pages4k 3 words3 m)"
  by (simp_all add: eval_4k del: memset_loop.simps)

definition heap4k :: "memory \<Rightarrow> pages kheap" where
  "heap4k m = \<lparr>kh_root = \<lparr>root_page = 0x80301000, caches_total = 170, caches = []\<rparr>,
     kh_pools = replicate 7 None, kh_pages = pages4k 1 words1 m\<rparr>"

lemma heap4k_start: "\<exists>R0. heap_ok board4k R0 (heap4k m) {}"
proof -
  have st: "page_regions board4k (pages4k 0 zeros m) {}" using pages4k_start by (auto simp: page_regions_def)
  have g: "get_free_pages board4k 1 GFP_KERNEL (pages4k 0 zeros m) = (0x80301000, pages4k 1 words1 m)"
    by (simp add: eval_4k)
  have "\<exists>len. page_regions board4k (pages4k 1 words1 m) {(0x80301000, len)}"
    using pg.get_some [OF st TrueI g] by auto
  then obtain len where "page_regions board4k (pages4k 1 words1 m) {(0x80301000, len)}" by blast
  then have own: "owns (page_regions board4k) 4096 {(0x80301000, len)} (kh_pages (heap4k m)) {}"
    using pg.owns_start [of board4k] by (simp add: heap4k_def board4k_def beaglexm_def)
  have "pool_cache (heap4k m) i = None" if "i < 7" for i using that by (simp add: pool_cache_def heap4k_def)
  then have "pools_hold board4k (heap4k m) (\<lambda>_. {}) {}" "pool_regions board4k (heap4k m) = {}"
    by (auto simp: pools_hold_def pool_regions_def)
  moreover have "table_ok (heap4k m)" by (simp add: table_ok_def heap4k_def)
  moreover have "PAGE_SIZE board4k = 4096" by (simp add: board4k_def beaglexm_def)
  ultimately show ?thesis using own unfolding kmalloc_ok_def by blast
qed

lemma slabs4k: "\<exists>sls. link_page board4k p = zero_slab board4k p # sls"
  by (simp add: link_page_def)

lemma first_alloc_at:
  assumes f: "find (pool_matches n fl) [0..<length pools] = Some i" and i: "i = 2 \<or> i = 5"
  shows "\<exists>H. kmalloc board4k (get_free_pages board4k) (free_pages2 board4k) clear_pages n fl (heap4k m) = Inr (0x80303000, H)"
proof -
  have w: "MAX_BITMAP_WORDS board4k = 4" "PAGE_SIZE board4k = 4096"
    by (simp_all add: MAX_BITMAP_WORDS_def BITMAP_WORDS_def BITMAP_BYTES_def KMALLOC_SIZE_MIN_def WORD_T_BYTES_def board4k_def beaglexm_def)
  then have s: "SLABS_PER_PAGE board4k = 146" by (simp add: SLABS_PER_PAGE_def slab_size_def)
  obtain sls where sls: "link_page board4k 0x80302000 = zero_slab board4k 0x80302000 # sls" using slabs4k by blast
  let ?H = "(heap4k m)\<lparr>kh_root := (kh_root (heap4k m))\<lparr>caches := [empty_cache i]\<rparr>, kh_pools := (kh_pools (heap4k m))[i := Some 0]\<rparr>"
  have k: "gfp_flags (empty_cache i) = GFP_KERNEL" "pages_per_slab (empty_cache i) = 1" "free_slabs (empty_cache i) = []"
    "partial_slabs (empty_cache i) = []"
    using i by (auto simp: empty_cache_def pools_def)
  have e: "ensure_pool board4k i (heap4k m) = Inr (0, ?H)"
    using i by (elim disjE) (simp_all add: ensure_pool_def mem_cache_new_def heap4k_def empty_cache_def pools_def w BITMAP_WORDS_def BITMAP_BYTES_def WORD_T_BYTES_def)
  have r: "refill board4k (get_free_pages board4k) (free_pages2 board4k) (empty_cache i) (pages4k 1 words1 m) =
    ((empty_cache i)\<lparr>free_slabs := zero_slab board4k 0x80302000 # sls\<rparr>, pages4k 2 words2 (memset m 0x80302000 0 4096))"
    using next_pages(1) k by (simp add: refill_def more_slabs_def s sls)
  define mc where "mc = (empty_cache i)\<lparr>partial_slabs := [(zero_slab board4k 0x80302000)\<lparr>slab_page := 0x80303000\<rparr>], free_slabs := sls\<rparr>"
  have pl: "pluck_free (get_free_pages board4k) ((empty_cache i)\<lparr>free_slabs := zero_slab board4k 0x80302000 # sls\<rparr>)
      (pages4k 2 words2 (memset m 0x80302000 0 4096)) = (mc, pages4k 3 words3 (memset m 0x80302000 0 4096))"
    using next_pages(2) k by (simp add: pluck_free_def zero_slab_def mc_def)
  let ?m1 = "(empty_cache i)\<lparr>free_slabs := zero_slab board4k 0x80302000 # sls\<rparr>"
  have ne: "\<not> (free_slabs ?m1 = [] \<and> partial_slabs ?m1 = [])" and none: "partial_slabs ?m1 = []"
    by (simp_all add: k)
  have c: "unat (CHUNKS_PER_SLAB board4k mc) = 32 \<or> unat (CHUNKS_PER_SLAB board4k mc) = 4"
    using i by (auto simp: CHUNKS_PER_SLAB_def mc_def empty_cache_def pools_def w)
  have part: "partial_slabs mc = [(zero_slab board4k 0x80302000)\<lparr>slab_page := 0x80303000\<rparr>]" by (simp add: mc_def)
  have u: "find_unallocated (unat (CHUNKS_PER_SLAB board4k mc)) (partial_slabs mc) = (0, Some (0, 0))"
    using c by (elim disjE) (simp_all add: part find_in_slab_def WORD_T_BITS_def zero_slab_def w find_zero_bit_in_word_def upt_rec Let_def)
  have "\<exists>mc' s. mem_cache_alloc board4k (get_free_pages board4k) (free_pages2 board4k) clear_pages (empty_cache i) (pages4k 1 words1 m) =
      Inr (0x80303000, mc', s)"
    unfolding mem_cache_alloc_def r prod.case if_not_P [OF ne] if_P [OF none] pl
    by (simp add: u) (simp add: part chunk_address_def Let_def zero_slab_def)
  then show ?thesis
    using i unfolding kmalloc_def f option.case e sum.case prod.case by (auto simp: heap4k_def Let_def)
qed

lemma first_alloc:
  "\<exists>H. kmalloc board4k (get_free_pages board4k) (free_pages2 board4k) clear_pages 100 GFP_KERNEL (heap4k m) = Inr (0x80303000, H)"
  by (rule first_alloc_at [where i = 2]) (simp_all add: pools_def pool_matches_def upt_rec gfp_defs)

lemma first_table:
  "\<exists>H. kmalloc board4k (get_free_pages board4k) (free_pages2 board4k) clear_pages 1024 (GFP_KERNEL OR GFP_ZERO) (heap4k m) = Inr (0x80303000, H)"
  by (rule first_alloc_at [where i = 5]) (simp_all add: pools_def pool_matches_def upt_rec gfp_defs)

section \<open>Instances of the properties\<close>

lemma kmalloc_safe_witness:
  "\<exists>R0 H len. kmalloc board4k (get_free_pages board4k) (free_pages2 board4k) clear_pages 100 GFP_KERNEL (heap4k (\<lambda>_. 255)) =
     Inr (0x80303000, H) \<and> 100 \<le> len \<and> heap_ok board4k R0 H {(0x80303000, len)}"
proof -
  obtain R0 where H0: "heap_ok board4k R0 (heap4k (\<lambda>_. 255)) {}" using heap4k_start by blast
  obtain H where H: "kmalloc board4k (get_free_pages board4k) (free_pages2 board4k) clear_pages 100 GFP_KERNEL (heap4k (\<lambda>_. 255)) =
    Inr (0x80303000, H)" using first_alloc by blast
  from kmalloc_safe [OF H0, of 100 GFP_KERNEL] H
  have "\<exists>len. 100 \<le> len \<and> heap_ok board4k R0 H {(0x80303000, len)}" by auto
  with H show ?thesis by blast
qed

text \<open>One block handed out.\<close>

lemma one_block:
  obtains R0 H len where "heap_ok board4k R0 H {(0x80303000, len)}"
proof -
  obtain R0 where H0: "heap_ok board4k R0 (heap4k (\<lambda>_. 255)) {}" using heap4k_start by blast
  obtain H where H: "kmalloc_get board4k 100 GFP_KERNEL (heap4k (\<lambda>_. 255)) = (0x80303000, H)"
    using first_alloc kmalloc_get_eq by blast
  from km.get_some [OF H0 TrueI H] that show thesis by auto
qed

lemma kfree_exact_witness:
  "\<exists>R0 H Q H'. heap_ok board4k R0 H Q \<and> kfree board4k (free_pages2 board4k) 0x80303000 H = (0, H') \<and>
     kfree board4k (free_pages2 board4k) 0x80303004 H = (-1, H)"
proof -
  obtain R0 H len where H: "heap_ok board4k R0 H {(0x80303000, len)}" by (rule one_block)
  have "\<exists>H'. kfree board4k (free_pages2 board4k) 0x80303000 H = (0, H')" using kfree_exact [OF H, of "0x80303000"] by auto
  moreover have "kfree board4k (free_pages2 board4k) 0x80303004 H = (-1, H)" using kfree_exact [OF H, of "0x80303004"] by simp
  ultimately show ?thesis using H by blast
qed

lemma mem_cache_alloc_fresh_witness:
  "\<exists>p mc s. mem_cache_alloc board4k (get_free_pages board4k) (free_pages2 board4k) clear_pages (empty_cache 2)
     (pages4k 0 zeros (\<lambda>_. 255)) = Inr (p, mc, s) \<and> allocated board4k mc \<subseteq> {p}"
proof -
  have size: "PAGE_SIZE board4k = 4096" by (simp add: board4k_def beaglexm_def)
  have "MAX_BITMAP_WORDS board4k = 4"
    by (simp add: MAX_BITMAP_WORDS_def BITMAP_WORDS_def BITMAP_BYTES_def KMALLOC_SIZE_MIN_def WORD_T_BYTES_def board4k_def beaglexm_def)
  then have slabs: "SLABS_PER_PAGE board4k \<noteq> 0" by (simp add: SLABS_PER_PAGE_def slab_size_def size)
  have "page_regions board4k (pages4k 0 zeros (\<lambda>_. 255)) {}" using pages4k_start by (auto simp: page_regions_def)
  then have own: "owns (page_regions board4k) (unat (PAGE_SIZE board4k)) {} (pages4k 0 zeros (\<lambda>_. 255)) {}"
    by (rule pg.owns_start)
  have e: "cache_ok board4k (empty_cache 2) {}" "allocated board4k (empty_cache 2) = {}"
    using empty_cache_ok [OF size, of 2] by (simp_all add: pool_ok_def)
  from mem_cache_alloc_fresh [OF own e(1) subset_refl slabs] e(2) show ?thesis by (auto split: if_splits)
qed

end
