(* ===== verification/System_Time.thy ===== *)
theory System_Time
  imports Prelude
begin

text \<open>
  \<open>src/kernel/timer/system_time.c\<close> and \<open>timespec.h\<close>: time since boot from a free-running counter.
  \<open>struct timespec\<close> is ordered by seconds and then nanoseconds, which is what
  \<open>compare_system_time\<close> decides. The readings of the counter are arguments.
\<close>

section \<open>Points in time\<close>

datatype timespec = Timespec (seconds: u32) (nanoseconds: u32)

instantiation timespec :: linorder
begin

definition less_eq_timespec :: "timespec \<Rightarrow> timespec \<Rightarrow> bool" where
  "a \<le> b \<longleftrightarrow> seconds a < seconds b \<or> seconds a = seconds b \<and> nanoseconds a \<le> nanoseconds b"

definition less_timespec :: "timespec \<Rightarrow> timespec \<Rightarrow> bool" where
  "(a :: timespec) < b \<longleftrightarrow> a \<le> b \<and> \<not> b \<le> a"

instance
  by standard (auto simp: less_eq_timespec_def less_timespec_def timespec.expand)

end

lemma less_timespec_iff:
  "a < b \<longleftrightarrow> seconds a < seconds b \<or> seconds a = seconds b \<and> nanoseconds a < nanoseconds b"
  by (auto simp: less_timespec_def less_eq_timespec_def)

definition compare_system_time :: "timespec \<Rightarrow> timespec \<Rightarrow> int" where
  "compare_system_time ts0 ts1 =
     (if seconds ts0 < seconds ts1 then -1
      else if seconds ts0 > seconds ts1 then 1
      else if nanoseconds ts0 < nanoseconds ts1 then -1
      else if nanoseconds ts0 > nanoseconds ts1 then 1
      else 0)"

definition add_system_time :: "timespec \<Rightarrow> timespec \<Rightarrow> timespec" where
  "add_system_time accum a =
     (let s = seconds accum + seconds a; n = nanoseconds accum + nanoseconds a
      in Timespec (s + n div 1000000000) (n mod 1000000000))"

definition sub_system_time :: "timespec \<Rightarrow> timespec \<Rightarrow> timespec" where
  "sub_system_time accum sub =
     (if nanoseconds accum \<ge> nanoseconds sub
      then Timespec (seconds accum - seconds sub) (nanoseconds accum - nanoseconds sub)
      else Timespec (seconds accum - 1 - seconds sub) (1000000000 - (nanoseconds sub - nanoseconds accum)))"

section \<open>The clock\<close>

text \<open>\<open>sync_timer\<close> is the pointer to the driver: set or not.\<close>

record system_time =
  sync_timer :: bool
  sync_loop :: u64
  sync_freq :: u64
  sync_freq_factor :: u64
  base_ts :: timespec
  base_tick :: u64
  curr_ts :: timespec

definition zero_time :: system_time where
  "zero_time = \<lparr>sync_timer = False, sync_loop = 0, sync_freq = 0, sync_freq_factor = 0,
     base_ts = Timespec 0 0, base_tick = 0, curr_ts = Timespec 0 0\<rparr>"

text \<open>\<open>e\<close> is the result of \<open>sync_timer_open\<close>, and \<open>cur\<close>, \<open>freq\<close> and \<open>wrap\<close> those of the driver's functions.\<close>

definition start_system_time :: "int \<Rightarrow> u64 \<Rightarrow> u64 \<Rightarrow> u64 \<Rightarrow> int \<times> system_time" where
  "start_system_time e cur freq wrap =
     (if e \<noteq> 0 then (e, zero_time)
      else (e, zero_time\<lparr>sync_timer := True, base_tick := cur, sync_freq := freq, sync_loop := wrap,
                        sync_freq_factor := 1000000000 div freq\<rparr>))"

definition forward_time :: "u64 \<Rightarrow> system_time \<Rightarrow> system_time" where
  "forward_time addticks st =
     (let addseconds = addticks div sync_freq st;
          rebase = addseconds * sync_freq st;
          s = ucast (ucast (seconds (base_ts st)) + addseconds) :: u32;
          n = ucast ((addticks - rebase) * sync_freq_factor st) :: u32;
          max_rebase = sync_loop st - base_tick st
      in st\<lparr>base_ts := Timespec s (nanoseconds (base_ts st)), curr_ts := Timespec s n,
            base_tick := if rebase \<le> max_rebase then base_tick st + rebase else rebase - max_rebase - 1\<rparr>)"

definition looped_time :: "u64 \<Rightarrow> system_time \<Rightarrow> system_time" where
  "looped_time ticks st = forward_time (ticks + (sync_loop st - base_tick st)) st"

text \<open>The time read is the second component, when there is a clock.\<close>

definition get_system_time :: "u64 \<Rightarrow> system_time \<Rightarrow> int \<times> timespec option \<times> system_time" where
  "get_system_time tick st =
     (if \<not> sync_timer st then (-1, None, st)
      else let st1 = (if tick > base_tick st then forward_time (tick - base_tick st) st
                      else if tick < base_tick st then looped_time tick st
                      else st)
        in (0, Some (curr_ts st1), st1))"

section \<open>Arithmetic on points in time\<close>

definition proper :: "timespec \<Rightarrow> bool" where
  "proper t \<longleftrightarrow> nanoseconds t < 1000000000"

definition total_ns :: "timespec \<Rightarrow> nat" where
  "total_ns t = unat (seconds t) * 1000000000 + unat (nanoseconds t)"

lemma proper_unat: "proper t \<longleftrightarrow> unat (nanoseconds t) < 1000000000"
  by (simp add: proper_def word_less_nat_alt)

lemma total_ns_order:
  assumes "proper a" and "proper b"
  shows "a \<le> b \<longleftrightarrow> total_ns a \<le> total_ns b"
  using assms by (auto simp: less_eq_timespec_def total_ns_def proper_unat word_less_nat_alt word_le_nat_alt word_unat_eq_iff)

lemma add_parts:
  assumes "proper a" and "proper b"
  shows "nanoseconds (add_system_time a b) =
      (if unat (nanoseconds a) + unat (nanoseconds b) < 1000000000 then nanoseconds a + nanoseconds b
       else nanoseconds a + nanoseconds b - 1000000000)"
    and "seconds (add_system_time a b) = seconds a + seconds b +
      (if unat (nanoseconds a) + unat (nanoseconds b) < 1000000000 then 0 else 1)"
    and "unat (nanoseconds a + nanoseconds b) = unat (nanoseconds a) + unat (nanoseconds b)"
proof -
  let ?n = "unat (nanoseconds a) + unat (nanoseconds b)"
  have lt: "?n < 2000000000" using assms by (simp add: proper_unat)
  show n: "unat (nanoseconds a + nanoseconds b) = ?n" using lt by (intro unat_add_u32) simp
  have d: "?n div 1000000000 = (if ?n < 1000000000 then 0 else 1)"
    and m: "?n mod 1000000000 = (if ?n < 1000000000 then ?n else ?n - 1000000000)"
    using lt by (auto simp: div_nat_eqI mod_if)
  have "unat ((nanoseconds a + nanoseconds b) div 1000000000) = ?n div 1000000000"
    using n by (simp add: unat_div_u32)
  then have div: "(nanoseconds a + nanoseconds b) div 1000000000 = (if ?n < 1000000000 then 0 else 1)"
    unfolding d by (auto simp: word_unat_eq_iff)
  have "unat ((nanoseconds a + nanoseconds b) mod 1000000000) = ?n mod 1000000000"
    using n by (simp add: unat_mod_distrib)
  then have mod: "(nanoseconds a + nanoseconds b) mod 1000000000 =
      (if ?n < 1000000000 then nanoseconds a + nanoseconds b else nanoseconds a + nanoseconds b - 1000000000)"
    unfolding m using n by (auto simp: word_unat_eq_iff unat_sub_u32 word_le_nat_alt)
  show "nanoseconds (add_system_time a b) =
      (if ?n < 1000000000 then nanoseconds a + nanoseconds b else nanoseconds a + nanoseconds b - 1000000000)"
    using mod by (simp add: add_system_time_def Let_def)
  show "seconds (add_system_time a b) = seconds a + seconds b + (if ?n < 1000000000 then 0 else 1)"
    using div by (simp add: add_system_time_def Let_def)
qed

lemma add_total:
  assumes "proper a" and "proper b" and fit: "unat (seconds a) + unat (seconds b) + 1 < 2 ^ 32"
  shows "proper (add_system_time a b) \<and> total_ns (add_system_time a b) = total_ns a + total_ns b"
proof -
  note p = add_parts [OF assms(1, 2)]
  have n: "unat (nanoseconds a) < 1000000000" "unat (nanoseconds b) < 1000000000" using assms by (simp_all add: proper_unat)
  have s: "unat (seconds a + seconds b) = unat (seconds a) + unat (seconds b)" using fit by (intro unat_add_u32) simp
  have s1: "unat (seconds a + seconds b + 1) = unat (seconds a) + unat (seconds b) + 1"
    using fit s by (subst unat_add_u32) simp_all
  have m: "unat (nanoseconds a + nanoseconds b - 1000000000) = unat (nanoseconds a) + unat (nanoseconds b) - 1000000000"
    if "\<not> unat (nanoseconds a) + unat (nanoseconds b) < 1000000000"
    using that p(3) by (subst unat_sub_u32) (simp_all add: word_le_nat_alt)
  show ?thesis using p n s s1 m by (auto simp: total_ns_def proper_unat)
qed

section \<open>The clock between wraps\<close>

lemma unat_add_u64: "unat x + unat y < 2 ^ 64 \<Longrightarrow> unat (x + y :: u64) = unat x + unat y"
  by (simp add: unat_word_ariths)

lemma unat_mult_u64: "unat x * unat y < 2 ^ 64 \<Longrightarrow> unat (x * y :: u64) = unat x * unat y"
  by (simp add: unat_word_ariths)

lemma unat_u64_less [simp]: "unat (x::u64) < 18446744073709551616"
  using unsigned_less [of x, where ?'a = nat] by simp

lemma unat_ucast_u64: "unat (ucast (x :: u32) :: u64) = unat x"
  using less_trans [OF unat_u32_less [of x], of "2 ^ 64"] by (simp add: unsigned_ucast_eq take_bit_nat_eq_self)

lemma ucast_u32_of_nat: "(ucast (word_of_nat n :: u64) :: u32) = word_of_nat n"
  by (intro bit_word_eqI) (simp add: bit_simps)

text \<open>The clock after the counter, started at \<open>t0\<close>, was last read as \<open>t\<close>.\<close>

definition time_at :: "u64 \<Rightarrow> u64 \<Rightarrow> u64 \<Rightarrow> timespec" where
  "time_at f t0 t = Timespec (word_of_nat ((unat t - unat t0) div unat f))
     (word_of_nat ((unat t - unat t0) mod unat f * (1000000000 div unat f)))"

definition clock_ok :: "u64 \<Rightarrow> u64 \<Rightarrow> u64 \<Rightarrow> system_time \<Rightarrow> bool" where
  "clock_ok f t0 t st \<longleftrightarrow> sync_timer st \<and> sync_freq st = f \<and> 0 < unat f \<and> unat f \<le> 1000000000 \<and>
     unat (sync_freq_factor st) = 1000000000 div unat f \<and> nanoseconds (base_ts st) = 0 \<and>
     unat (base_tick st) = unat t0 + unat f * unat (seconds (base_ts st)) \<and>
     base_tick st \<le> t \<and> t \<le> sync_loop st \<and> curr_ts st = time_at f t0 t"

lemma clock_start:
  assumes "0 < unat f" and "unat f \<le> 1000000000" and "t0 \<le> wrap"
  shows "clock_ok f t0 t0 (snd (start_system_time 0 t0 f wrap))"
proof -
  have "unat (1000000000 div f) = 1000000000 div unat f" by (simp add: unat_div_distrib)
  with assms show ?thesis by (simp add: clock_ok_def start_system_time_def zero_time_def time_at_def)
qed

lemma clock_step:
  assumes ok: "clock_ok f t0 t st" and t': "t \<le> t'" "t' \<le> sync_loop st"
    and fit: "(unat t' - unat t0) div unat f < 2 ^ 32"
  shows "\<exists>st'. get_system_time t' st = (0, Some (time_at f t0 t'), st') \<and> clock_ok f t0 t' st' \<and> sync_loop st' = sync_loop st"
proof -
  let ?b = "unat (seconds (base_ts st))"
  have f: "sync_freq st = f" "0 < unat f" "unat f \<le> 1000000000" and fac: "unat (sync_freq_factor st) = 1000000000 div unat f"
    and base: "unat (base_tick st) = unat t0 + unat f * ?b" and le: "base_tick st \<le> t" and on: "sync_timer st"
    and ns: "nanoseconds (base_ts st) = 0"
    using ok by (simp_all add: clock_ok_def)
  have bt: "unat (base_tick st) \<le> unat t'" using le t'(1) by (simp add: word_le_nat_alt)
  show ?thesis
  proof (cases "t' = base_tick st")
    case True
    then have "t = t'" using le t'(1) by simp
    with ok True on show ?thesis by (intro exI [of _ st]) (simp add: get_system_time_def clock_ok_def)
  next
    case False
    then have gt: "t' > base_tick st" using le t'(1) by simp
    define A where "A = unat t' - unat (base_tick st)"
    have a: "unat (t' - base_tick st) = A" using gt by (simp add: A_def unat_sub)
    have E: "unat t' - unat t0 = A + unat f * ?b" using base bt by (simp add: A_def)
    have q: "(unat t' - unat t0) div unat f = A div unat f + ?b" and r: "(unat t' - unat t0) mod unat f = A mod unat f"
      unfolding E using f(2) by simp_all
    define S where "S = (t' - base_tick st) div f"
    have s: "unat S = A div unat f" using a by (simp add: S_def unat_div_distrib)
    have rb: "A div unat f * unat f \<le> A" by simp
    have A64: "A < 18446744073709551616" using unat_u64_less [of t'] unfolding A_def by linarith
    have reb: "unat (S * f) = A div unat f * unat f"
      using s le_less_trans [OF rb A64] by (subst unat_mult_u64) simp_all
    have rem: "unat (t' - base_tick st - S * f) = A mod unat f"
      using a reb rb by (subst unat_sub) (simp_all add: word_le_nat_alt minus_div_mult_eq_mod)
    have "unat (sync_loop st - base_tick st) = unat (sync_loop st) - unat (base_tick st)"
      using t' gt by (intro unat_sub) simp
    moreover have "A \<le> unat (sync_loop st) - unat (base_tick st)" using t'(2) unfolding A_def by (simp add: word_le_nat_alt)
    ultimately have max: "S * f \<le> sync_loop st - base_tick st"
      unfolding word_le_nat_alt reb using order_trans [OF rb] by simp
    have "A mod unat f * (1000000000 div unat f) < unat f * (1000000000 div unat f)" if "0 < 1000000000 div unat f"
      using f(2) that by simp
    moreover have "unat f * (1000000000 div unat f) \<le> 1000000000" by simp
    ultimately have n9: "A mod unat f * (1000000000 div unat f) < 1000000000"
      by (cases "1000000000 div unat f = 0") (simp, linarith)
    have nn: "(t' - base_tick st - S * f) * sync_freq_factor st = word_of_nat (A mod unat f * (1000000000 div unat f))"
    proof -
      have "t' - base_tick st - S * f = word_of_nat (A mod unat f)" by (simp flip: rem)
      moreover have "sync_freq_factor st = word_of_nat (1000000000 div unat f)" by (simp flip: fac)
      ultimately show ?thesis by simp
    qed
    have n32: "(ucast ((t' - base_tick st - S * f) * sync_freq_factor st) :: u32) = word_of_nat (A mod unat f * (1000000000 div unat f))"
      unfolding nn by (rule ucast_u32_of_nat)
    have fits: "?b + A div unat f < 4294967296" using fit q by simp
    have s64: "unat (ucast (seconds (base_ts st)) + S) = ?b + A div unat f"
      using s fits by (subst unat_add_u64) (simp_all add: unat_ucast_u64)
    have s32: "(ucast (ucast (seconds (base_ts st)) + S) :: u32) = word_of_nat (A div unat f + ?b)"
    proof -
      have "(ucast (ucast (seconds (base_ts st)) + S) :: u32) = word_of_nat (unat (ucast (seconds (base_ts st)) + S))" by simp
      then show ?thesis unfolding s64 by (simp add: add.commute)
    qed
    let ?st = "forward_time (t' - base_tick st) st"
    have fw: "curr_ts ?st = time_at f t0 t'" "seconds (base_ts ?st) = word_of_nat (A div unat f + ?b)" "nanoseconds (base_ts ?st) = 0"
      "base_tick ?st = base_tick st + S * f" "sync_loop ?st = sync_loop st" "sync_timer ?st = sync_timer st"
      "sync_freq ?st = f" "sync_freq_factor ?st = sync_freq_factor st"
      using max s32 n32 q r ns by (simp_all add: forward_time_def Let_def f(1) S_def [symmetric] time_at_def)
    have us: "unat (seconds (base_ts ?st)) = A div unat f + ?b" unfolding fw(2) using fits
      by (simp add: unat_of_nat del: of_nat_add)
    have bb: "unat (base_tick st) + A div unat f * unat f \<le> unat t'"
      using rb bt unfolding A_def by linarith
    have ub: "unat (base_tick ?st) = unat (base_tick st) + A div unat f * unat f"
      unfolding fw(4) using reb le_less_trans [OF bb unat_u64_less] by (subst unat_add_u64) simp_all
    have "clock_ok f t0 t' ?st"
      unfolding clock_ok_def us ub fw(1, 3, 5-8)
      using on f fac base t'(2) bb ub by (simp add: word_le_nat_alt algebra_simps)
    then show ?thesis using on gt fw(1, 5) by (intro exI [of _ ?st]) (simp add: get_system_time_def Let_def)
  qed
qed

definition read_clock :: "u64 list \<Rightarrow> system_time \<Rightarrow> system_time" where
  "read_clock ts st = fold (\<lambda>t st. snd (snd (get_system_time t st))) ts st"

lemma clock_reads:
  assumes "clock_ok f t0 t st" and "sorted (t # ts)" and "\<forall>x \<in> set ts. x \<le> sync_loop st"
    and "\<forall>x \<in> set ts. (unat x - unat t0) div unat f < 2 ^ 32"
  shows "clock_ok f t0 (last (t # ts)) (read_clock ts st)"
  using assms
proof (induction ts arbitrary: t st)
  case Nil
  then show ?case by (simp add: read_clock_def)
next
  case (Cons x ts)
  obtain st' where st': "get_system_time x st = (0, Some (time_at f t0 x), st')" "clock_ok f t0 x st'" "sync_loop st' = sync_loop st"
    using clock_step [OF Cons.prems(1), of x] Cons.prems(2-4) by auto
  have "clock_ok f t0 (last (x # ts)) (read_clock ts st')" using Cons.prems(2-4) st' by (intro Cons.IH) auto
  then show ?case using st'(1) by (simp add: read_clock_def)
qed

section \<open>Properties\<close>

text \<open>\<open>compare_system_time\<close> decides the lexicographic order of \<open>struct timespec\<close>.\<close>

theorem compare_system_time_order:
  "compare_system_time a b = (if a < b then -1 else if a = b then 0 else 1)"
  by (auto simp: compare_system_time_def less_timespec_iff timespec.expand)

text \<open>C14: Adding points in time adds their nanoseconds, with the carry into the seconds, and the order
  of points in time is the order of the nanoseconds they stand for.\<close>

theorem add_system_time_total:
  assumes "proper a" and "proper b" and "unat (seconds a) + unat (seconds b) + 1 < 2 ^ 32"
  shows "proper (add_system_time a b) \<and> total_ns (add_system_time a b) = total_ns a + total_ns b \<and>
    (\<forall>c. proper c \<longrightarrow> (c \<le> add_system_time a b \<longleftrightarrow> total_ns c \<le> total_ns a + total_ns b))"
  using add_total [OF assms] total_ns_order by auto

text \<open>C15: Subtracting undoes adding, even when the seconds wrap around.\<close>

theorem sub_add_system_time:
  assumes "proper a" and "proper b"
  shows "sub_system_time (add_system_time a b) b = a"
proof -
  note p = add_parts [OF assms]
  have n: "unat (nanoseconds a) < 1000000000" "unat (nanoseconds b) < 1000000000" using assms by (simp_all add: proper_unat)
  show ?thesis
  proof (cases "unat (nanoseconds a) + unat (nanoseconds b) < 1000000000")
    case True
    then have "nanoseconds b \<le> nanoseconds a + nanoseconds b" using p(3) by (simp add: word_le_nat_alt)
    then show ?thesis using True p by (simp add: sub_system_time_def timespec.expand)
  next
    case False
    have "unat (nanoseconds a + nanoseconds b - 1000000000) = unat (nanoseconds a) + unat (nanoseconds b) - 1000000000"
      using False p(3) by (subst unat_sub_u32) (simp_all add: word_le_nat_alt)
    then have "\<not> nanoseconds b \<le> nanoseconds a + nanoseconds b - 1000000000"
      using n False by (simp add: word_le_nat_alt)
    then show ?thesis using False p by (simp add: sub_system_time_def timespec.expand)
  qed
qed

text \<open>C16: However often the clock is read, between two wraps of the counter it does not drift: it
  shows the whole seconds since it was started, and the rest in nanoseconds.\<close>

theorem clock_never_drifts:
  assumes "0 < unat f" and "unat f \<le> 1000000000" and "sorted (t0 # ts)" and "\<forall>t \<in> set ts. t \<le> wrap" and "t0 \<le> wrap"
    and "\<forall>t \<in> set ts. (unat t - unat t0) div unat f < 2 ^ 32"
  shows "curr_ts (read_clock ts (snd (start_system_time 0 t0 f wrap))) = time_at f t0 (last (t0 # ts))"
proof -
  have "sync_loop (snd (start_system_time 0 t0 f wrap)) = wrap" by (simp add: start_system_time_def)
  with clock_reads [OF clock_start [OF assms(1, 2, 5)] assms(3) _ assms(6)] assms(4) show ?thesis
    by (simp add: clock_ok_def)
qed

text \<open>A reading taken past the end of the counter is one tick short: the step from the last value
  of the counter to zero is not counted.\<close>

lemma looped_one_tick_short:
  "get_system_time 0 (snd (start_system_time 0 0xFFFFFFFF 1 0xFFFFFFFF)) =
    (0, Some (Timespec 0 0), (snd (start_system_time 0 0xFFFFFFFF 1 0xFFFFFFFF)))"
  "curr_ts (read_clock [4] (snd (start_system_time 0 0xFFFFFFFF 1 0xFFFFFFFF))) = Timespec 4 0"
  by (simp_all add: get_system_time_def start_system_time_def looped_time_def forward_time_def zero_time_def read_clock_def Let_def)

lemma compare_system_time_order_examples:
  "compare_system_time (Timespec 1 999999999) (Timespec 2 0) = -1"
  by (simp add: compare_system_time_def)

lemma add_system_time_total_witness:
  "proper (add_system_time (Timespec 1 999999999) (Timespec 2 1)) \<and>
    total_ns (add_system_time (Timespec 1 999999999) (Timespec 2 1)) = 4000000000"
  using add_system_time_total [of "Timespec 1 999999999" "Timespec 2 1"] by (simp add: proper_def total_ns_def)

lemma sub_add_system_time_witness:
  "sub_system_time (add_system_time (Timespec 0xFFFFFFFF 999999999) (Timespec 2 1)) (Timespec 2 1) = Timespec 0xFFFFFFFF 999999999"
  using sub_add_system_time [of "Timespec 0xFFFFFFFF 999999999" "Timespec 2 1"] by (simp add: proper_def)

lemma clock_never_drifts_witness:
  "curr_ts (read_clock [100, 40000, 98309] (snd (start_system_time 0 5 32768 0xFFFFFFFF))) = Timespec 3 0"
  using clock_never_drifts [of 32768 5 "[100, 40000, 98309]" "0xFFFFFFFF"] by (simp add: time_at_def)

end
