(* ===== verification/Stack.thy ===== *)
theory Stack
  imports Page_Examples
begin

text \<open>
  \<open>src/kernel/memory/stack.c\<close>: the stacks of the kernel threads. A stack is filled with a pattern,
  0xFF at the lowest byte and the low byte of the offset above it; \<open>stack_check\<close> looks at the lowest
  byte, \<open>stack_remaining\<close> for the lowest byte that has been written over. The stack grows downwards.
\<close>

section \<open>Operations\<close>

record stack_struct =
  stack_base :: u32
  stack_size :: u32

definition stack_pages :: "board \<Rightarrow> u32 \<Rightarrow> u32" where
  "stack_pages cfg s = (s + (PAGE_SIZE cfg - 1)) div PAGE_SIZE cfg"

text \<open>
  The pattern is written through a pointer that starts one byte above the base, or at the base when
  that is null.
\<close>

fun fill_loop :: "memory \<Rightarrow> u32 \<Rightarrow> nat \<Rightarrow> nat \<Rightarrow> memory" where
  "fill_loop m s i 0 = m"
| "fill_loop m s i (Suc n) = fill_loop (m(s := word_of_nat i)) (s + 1) (Suc i) n"

definition fill_stack :: "stack_struct \<Rightarrow> memory \<Rightarrow> memory" where
  "fill_stack ss m =
     (if stack_base ss \<noteq> 0
      then fill_loop (m(stack_base ss := 0xFF)) (stack_base ss + 1) 1 (unat (stack_size ss) - 1)
      else fill_loop m (stack_base ss) 1 (unat (stack_size ss) - 1))"

definition stack_alloc :: "board \<Rightarrow> u32 \<Rightarrow> u32 \<Rightarrow> pages \<Rightarrow> bool \<times> stack_struct \<times> pages" where
  "stack_alloc cfg sz flags s =
     (let n = stack_pages cfg sz
      in case get_free_pages cfg n flags s of (base, s1) \<Rightarrow>
           let ss = \<lparr>stack_base = base, stack_size = n * PAGE_SIZE cfg\<rparr>
           in (stack_base ss \<noteq> 0, ss, s1\<lparr>pages_mem := fill_stack ss (pages_mem s1)\<rparr>))"

definition stack_check :: "stack_struct \<Rightarrow> memory \<Rightarrow> int" where
  "stack_check ss m = (if stack_base ss \<noteq> 0 \<and> m (stack_base ss) \<noteq> 0xFF then -1 else 0)"

definition stack_remaining :: "stack_struct \<Rightarrow> memory \<Rightarrow> int" where
  "stack_remaining ss m =
     (if stack_base ss \<noteq> 0 then
        if m (stack_base ss) \<noteq> 0xFF then -1
        else (case find (\<lambda>i. m (stack_base ss + word_of_nat i) \<noteq> word_of_nat i) [1..<unat (stack_size ss)] of
                Some i \<Rightarrow> int i | None \<Rightarrow> 0)
      else 0)"

definition boot_stack :: "board \<Rightarrow> u32 \<Rightarrow> u32 \<Rightarrow> boot \<Rightarrow> (stack_struct \<times> boot) run" where
  "boot_stack cfg sz flags s =
     (let n = stack_pages cfg sz
      in case get_boot_pages cfg n flags s of
           Inl e \<Rightarrow> Inl e
         | Inr (base, s1) \<Rightarrow>
             let ss = \<lparr>stack_base = base, stack_size = n * PAGE_SIZE cfg\<rparr>;
                 m = fill_stack ss (boot_mem s1)
             in if stack_check ss m < 0 then Inl BUG else Inr (ss, s1\<lparr>boot_mem := m\<rparr>))"

definition stack_free :: "board \<Rightarrow> stack_struct \<Rightarrow> pages \<Rightarrow> stack_struct \<times> pages" where
  "stack_free cfg ss s =
     (if stack_base ss \<noteq> 0
      then (\<lparr>stack_base = 0, stack_size = 0\<rparr>, free_pages cfg (stack_base ss) (stack_pages cfg (stack_size ss)) s)
      else (ss, s))"

definition stack_top :: "stack_struct \<Rightarrow> u32" where
  "stack_top ss = (if stack_base ss \<noteq> 0 then stack_base ss + stack_size ss else 0)"

section \<open>The pattern\<close>

lemma fill_loop_at:
  assumes "n \<le> 2 ^ 32"
  shows "fill_loop m s i n a = (if off s a < n then word_of_nat (i + off s a) else m a)"
  using assms
proof (induction n arbitrary: m s i)
  case (Suc n)
  show ?case
  proof (cases "a = s")
    case True
    have "off (s + 1) s = 2 ^ 32 - 1" by (simp add: off_def)
    with True Suc show ?thesis by auto
  next
    case False
    with Suc show ?thesis by (simp add: off_Suc)
  qed
qed simp

lemma unat_pred_le: "unat (x :: u32) - 1 \<le> 2 ^ 32"
proof -
  have "unat x < 4294967296" and "(2 :: nat) ^ 32 = 4294967296" by simp_all
  then show ?thesis by linarith
qed

text \<open>The byte the pattern has at an offset.\<close>

definition pattern :: "nat \<Rightarrow> u8" where
  "pattern i = (if i = 0 then 0xFF else word_of_nat i)"

lemma fill_stack_at:
  assumes "stack_base ss \<noteq> 0"
  shows "fill_stack ss m a =
    (if off (stack_base ss) a < max 1 (unat (stack_size ss)) then pattern (off (stack_base ss) a) else m a)"
proof -
  let ?b = "stack_base ss"
  note le = unat_pred_le [of "stack_size ss"]
  show ?thesis
  proof (cases "a = ?b")
    case True
    have "unat (stack_size ss) < 4294967296" by simp
    then have "\<not> 4294967295 < unat (stack_size ss) - 1" by linarith
    moreover have "off (?b + 1) ?b = 4294967295" by (simp add: off_def)
    ultimately show ?thesis using assms True fill_loop_at [OF le] by (simp add: fill_stack_def pattern_def)
  next
    case False
    note o = off_Suc [OF False]
    show ?thesis using assms False fill_loop_at [OF le, of "m(?b := 0xFF)" "?b + 1" 1 a]
      unfolding fill_stack_def pattern_def o by auto
  qed
qed

lemma stack_remaining_cases:
  assumes b: "stack_base ss \<noteq> 0" and canary: "m (stack_base ss) = 0xFF"
  shows "stack_remaining ss m = int k \<and> 0 < k \<longleftrightarrow>
    0 < k \<and> k < unat (stack_size ss) \<and> m (stack_base ss + word_of_nat k) \<noteq> pattern k \<and>
    (\<forall>i < k. m (stack_base ss + word_of_nat i) = pattern i)"
proof -
  let ?P = "\<lambda>i. m (stack_base ss + word_of_nat i) \<noteq> word_of_nat i" and ?n = "unat (stack_size ss)"
  have pat: "(\<forall>i < k. m (stack_base ss + word_of_nat i) = pattern i) \<longleftrightarrow> (\<forall>i. 0 < i \<and> i < k \<longrightarrow> \<not> ?P i)" if "0 < k"
    using canary that by (auto simp: pattern_def)
  have "find ?P [1..<?n] = Some k \<longleftrightarrow> 0 < k \<and> k < ?n \<and> ?P k \<and> (\<forall>i. 0 < i \<and> i < k \<longrightarrow> \<not> ?P i)"
  proof
    assume "find ?P [1..<?n] = Some k"
    then obtain j where j: "j < ?n - 1" "?P ([1..<?n] ! j)" "k = [1..<?n] ! j" "\<forall>i < j. \<not> ?P ([1..<?n] ! i)"
      by (auto simp: find_Some_iff)
    then have k: "k = Suc j" by simp
    have "\<not> ?P i" if "0 < i" "i < k" for i using j(4) [rule_format, of "i - 1"] that j(1) k by simp
    with j k show "0 < k \<and> k < ?n \<and> ?P k \<and> (\<forall>i. 0 < i \<and> i < k \<longrightarrow> \<not> ?P i)" by auto
  next
    assume k: "0 < k \<and> k < ?n \<and> ?P k \<and> (\<forall>i. 0 < i \<and> i < k \<longrightarrow> \<not> ?P i)"
    then have "\<not> ?P ([1..<?n] ! j)" if "j < k - 1" for j
    proof -
      have "1 + j < ?n" and jk: "0 < Suc j" "Suc j < k" using that k by linarith+
      then have "[1..<?n] ! j = Suc j" using nth_upt [of 1 j ?n] by simp
      show ?thesis using k \<open>[1..<?n] ! j = Suc j\<close> jk by metis
    qed
    with k show "find ?P [1..<?n] = Some k"
      by (auto simp: find_Some_iff intro!: exI [of _ "k - 1"])
  qed
  moreover have "stack_remaining ss m = int k \<and> 0 < k \<longleftrightarrow> 0 < k \<and> find ?P [1..<?n] = Some k"
    using b canary by (auto simp: stack_remaining_def split: option.splits)
  ultimately show ?thesis using pat by (auto simp: pattern_def)
qed

lemma filled_pattern:
  assumes "stack_base ss \<noteq> 0" and "i < max 1 (unat (stack_size ss))"
  shows "fill_stack ss m (stack_base ss + word_of_nat i) = pattern i"
proof -
  have "unat (stack_size ss) < 4294967296" by simp
  then have "i < 4294967296" using assms(2) by linarith
  then have "i < 2 ^ 32" by simp
  then show ?thesis using assms by (simp add: fill_stack_at off_add)
qed

section \<open>Over the page allocator\<close>

lemma page_regions_mem [simp]: "page_regions cfg (s\<lparr>pages_mem := m\<rparr>) R = page_regions cfg s R"
  by (simp add: page_regions_def pages_inv_def block_region_def block_addr_def cong: image_cong)

lemma stack_size_fits:
  assumes "0 < unat (PAGE_SIZE cfg)" and "unat sz + unat (PAGE_SIZE cfg) \<le> 2 ^ 32"
  shows "unat (stack_pages cfg sz * PAGE_SIZE cfg) = unat (stack_pages cfg sz) * unat (PAGE_SIZE cfg)"
    and "unat sz \<le> unat (stack_pages cfg sz) * unat (PAGE_SIZE cfg)"
proof -
  let ?p = "unat (PAGE_SIZE cfg)" and ?s = "unat sz"
  have "PAGE_SIZE cfg \<noteq> 0" using assms(1) by auto
  then have p1: "unat (PAGE_SIZE cfg - 1) = ?p - 1" by (rule unat_minus_one)
  have "unat (sz + (PAGE_SIZE cfg - 1)) = ?s + (?p - 1)" using assms p1 by (subst unat_add_u32) simp_all
  then have n: "unat (stack_pages cfg sz) = (?s + (?p - 1)) div ?p" by (simp add: stack_pages_def unat_div_u32)
  have "(?s + (?p - 1)) div ?p * ?p \<le> ?s + (?p - 1)" by simp
  then have le: "unat (stack_pages cfg sz) * ?p \<le> ?s + (?p - 1)" unfolding n .
  then have lt: "unat (stack_pages cfg sz) * ?p < 2 ^ 32" using assms by linarith
  show "unat (stack_pages cfg sz * PAGE_SIZE cfg) = unat (stack_pages cfg sz) * ?p" using lt by (rule unat_mult_u32)
  have "?s + (?p - 1) < ((?s + (?p - 1)) div ?p + 1) * ?p"
    using assms(1) by (metis Suc_eq_plus1 dividend_less_div_times add.commute mult_Suc)
  then show "?s \<le> unat (stack_pages cfg sz) * ?p" unfolding n using assms(1) by simp
qed

section \<open>Properties\<close>

text \<open>C17: A stack that is allocated is at least as big as asked for, lies in memory of its own, is
  filled so that its check passes, and filling it writes to no block allocated before.\<close>

theorem stack_alloc_safe:
  assumes R: "page_regions cfg s R" and pos: "0 < unat (PAGE_SIZE cfg)" and fit: "unat sz + unat (PAGE_SIZE cfg) \<le> 2 ^ 32"
    and alloc: "stack_alloc cfg sz GFP_KERNEL s = (True, ss, s')"
  shows "\<exists>len. unat sz \<le> unat (stack_size ss) \<and> unat (stack_size ss) \<le> len \<and>
    page_regions cfg s' (insert (stack_base ss, len) R) \<and>
    (\<forall>r \<in> R. region_bytes r \<inter> region_bytes (stack_base ss, len) = {}) \<and>
    stack_check ss (pages_mem s') = 0 \<and>
    (\<forall>a. unat a \<notin> region_bytes (stack_base ss, len) \<longrightarrow> pages_mem s' a = pages_mem s a)"
proof -
  let ?n = "stack_pages cfg sz"
  obtain s1 where g: "get_free_pages cfg ?n GFP_KERNEL s = (stack_base ss, s1)"
    and ss: "stack_size ss = ?n * PAGE_SIZE cfg" "stack_base ss \<noteq> 0" and s': "s' = s1\<lparr>pages_mem := fill_stack ss (pages_mem s1)\<rparr>"
    using alloc by (auto simp: stack_alloc_def Let_def split: prod.splits)
  obtain len where len: "0 < len" "unat ?n * unat (PAGE_SIZE cfg) \<le> len"
    "\<forall>r \<in> R. region_bytes r \<inter> region_bytes (stack_base ss, len) = {}" "page_regions cfg s1 (insert (stack_base ss, len) R)"
    using pg.get_some [OF R TrueI g ss(2)] by blast
  note f = stack_size_fits [OF pos fit]
  have range: "unat (stack_base ss) + len < 2 ^ 32" using page_region_facts(2) [OF len(4)] by blast
  obtain live where "pages_inv cfg s live" using R by (auto simp: page_regions_def)
  then have mem: "pages_mem s1 = pages_mem s"
    using g ss(2) by (cases rule: get_free_pages_cases) (auto simp: gfp_defs fun_eq_iff)
  have "pages_mem s' a = pages_mem s a" if "unat a \<notin> region_bytes (stack_base ss, len)" for a
  proof -
    have "\<not> off (stack_base ss) a < max 1 (unat (stack_size ss))"
    proof
      assume o: "off (stack_base ss) a < max 1 (unat (stack_size ss))"
      then have lt: "off (stack_base ss) a < len" using len(1, 2) f(1) ss(1) by simp
      have "unat (stack_base ss + word_of_nat (off (stack_base ss) a)) = unat (stack_base ss) + off (stack_base ss) a"
        using lt range off_less [of "stack_base ss" a] by (subst unat_add_u32) (simp_all add: unat_of_nat)
      then have "unat a \<in> region_bytes (stack_base ss, len)" using lt by (simp add: region_bytes_def)
      with that show False by simp
    qed
    then show ?thesis by (simp add: s' fill_stack_at [OF ss(2)] mem)
  qed
  moreover have "stack_check ss (pages_mem s') = 0"
    using filled_pattern [OF ss(2), of 0] by (simp add: s' stack_check_def pattern_def)
  ultimately show ?thesis using len f ss(1) s' by (intro exI [of _ len]) simp
qed

lemma stack_alloc_safe_witness:
  "\<exists>ss s' len. stack_alloc microbit 32 GFP_KERNEL eight = (True, ss, s') \<and> 32 \<le> unat (stack_size ss) \<and>
     page_regions microbit s' {(stack_base ss, len)} \<and> stack_check ss (pages_mem s') = 0"
proof -
  have R: "page_regions microbit eight {}" using pages_inv_eight by (auto simp: page_regions_def)
  have "get_free_pages microbit 1 GFP_KERNEL eight = (0x20003F00, eight_at 1 (zeros(4 := 1, 5 := 1, 6 := 1, 7 := 1, 12 := 1)))"
    by (simp add: eval_eight)
  then obtain ss s' where a: "stack_alloc microbit 32 GFP_KERNEL eight = (True, ss, s')"
    by (simp add: stack_alloc_def stack_pages_def Let_def)
  from stack_alloc_safe [OF R _ _ a] obtain len where
    "32 \<le> unat (stack_size ss)" "page_regions microbit s' {(stack_base ss, len)}" "stack_check ss (pages_mem s') = 0"
    by auto
  with a show ?thesis by blast
qed

text \<open>C18: \<open>stack_remaining\<close> finds the watermark of a stack that was filled: when the lowest byte that
  no longer has its pattern is at offset \<open>k\<close>, it returns \<open>k\<close>, and -1 with \<open>stack_check\<close> when that is
  the lowest byte of the stack.\<close>

theorem stack_watermark:
  assumes "stack_base ss \<noteq> 0" and "k < unat (stack_size ss)"
    and "\<forall>i < k. m (stack_base ss + word_of_nat i) = fill_stack ss m0 (stack_base ss + word_of_nat i)"
    and "m (stack_base ss + word_of_nat k) \<noteq> fill_stack ss m0 (stack_base ss + word_of_nat k)"
  shows "stack_remaining ss m = (if k = 0 then -1 else int k) \<and> stack_check ss m = (if k = 0 then -1 else 0)"
proof -
  have pat: "fill_stack ss m0 (stack_base ss + word_of_nat i) = pattern i" if "i \<le> k" for i
    using filled_pattern [OF assms(1), of i] that assms(2) by simp
  show ?thesis
  proof (cases "k = 0")
    case True
    then have "m (stack_base ss) \<noteq> 0xFF" using assms(4) pat [of 0] by (simp add: pattern_def)
    then show ?thesis using True assms(1) by (simp add: stack_remaining_def stack_check_def)
  next
    case False
    then have "m (stack_base ss) = 0xFF" using assms(3) pat [of 0] by (auto simp: pattern_def)
    then show ?thesis
      using stack_remaining_cases [OF assms(1), of m k] assms(2-4) pat False by (auto simp: stack_check_def)
  qed
qed

lemma stack_watermark_witness:
  "stack_remaining \<lparr>stack_base = 64, stack_size = 32\<rparr> ((fill_stack \<lparr>stack_base = 64, stack_size = 32\<rparr> (\<lambda>_. 0))(84 := 7)) = 20"
proof -
  let ?ss = "\<lparr>stack_base = 64, stack_size = 32\<rparr>"
  have lo: "((fill_stack ?ss (\<lambda>_. 0))(84 := 7)) (64 + word_of_nat i) = fill_stack ?ss (\<lambda>_. 0) (64 + word_of_nat i)" if "i < 20" for i
  proof -
    have "unat (64 + word_of_nat i :: u32) = 64 + i" using that by (subst unat_add_u32) (simp_all add: unat_of_nat)
    then have "64 + word_of_nat i \<noteq> (84 :: u32)" using that by auto
    then show ?thesis by simp
  qed
  have "fill_stack ?ss (\<lambda>_. 0) 84 = 20" using filled_pattern [of ?ss 20 "\<lambda>_. 0"] by (simp add: pattern_def)
  then show ?thesis
    using stack_watermark [of ?ss 20 "(fill_stack ?ss (\<lambda>_. 0))(84 := 7)" "\<lambda>_. 0"] lo by simp
qed

text \<open>A stack nobody has written to has \<open>stack_size\<close> bytes left, and \<open>stack_remaining\<close> returns 0.\<close>

lemma stack_remaining_untouched:
  assumes "stack_base ss \<noteq> 0"
  shows "stack_remaining ss (fill_stack ss m) = 0"
proof -
  have "\<forall>i \<in> set [1..<unat (stack_size ss)]. fill_stack ss m (stack_base ss + word_of_nat i) = word_of_nat i"
    using filled_pattern [OF assms, of _ m] by (auto simp: pattern_def)
  then have "find (\<lambda>i. fill_stack ss m (stack_base ss + word_of_nat i) \<noteq> word_of_nat i) [1..<unat (stack_size ss)] = None"
    by (auto simp: find_None_iff)
  moreover have "fill_stack ss m (stack_base ss) = 0xFF" using filled_pattern [OF assms, of 0 m] by (simp add: pattern_def)
  ultimately show ?thesis by (simp add: stack_remaining_def)
qed

text \<open>Without memory for a stack the pattern is still written, from address 0 on.\<close>

lemma stack_alloc_null_writes:
  assumes "get_free_pages cfg (stack_pages cfg sz) flags s = (0, s)"
  shows "stack_alloc cfg sz flags s = (False, \<lparr>stack_base = 0, stack_size = stack_pages cfg sz * PAGE_SIZE cfg\<rparr>,
      s\<lparr>pages_mem := \<lambda>a. if unat a < unat (stack_pages cfg sz * PAGE_SIZE cfg) - 1 then word_of_nat (unat a + 1) else pages_mem s a\<rparr>)"
proof -
  let ?n = "unat (stack_pages cfg sz * PAGE_SIZE cfg)"
  note f = fill_loop_at [OF unat_pred_le]
  have "fill_loop (pages_mem s) 0 1 (?n - 1) = (\<lambda>a. if unat a < ?n - 1 then word_of_nat (unat a + 1) else pages_mem s a)"
    by (rule ext) (simp only: f, simp add: off_def)
  with assms show ?thesis by (simp add: stack_alloc_def fill_stack_def Let_def)
qed

end
