(* ===== verification/Sched.thy ===== *)
theory Sched
  imports Stack System_Time Kmalloc
begin

text \<open>
  The scheduler: \<open>src/kernel/sched/sched.c\<close>, \<open>sched_sleep.c\<close> and \<open>sched_priv.h\<close>, with the CPU state of
  \<open>arch/arm_a/cpu_state.c\<close>. A run queue has 32 slots, the first one for the idle task; the timer
  interrupt looks for the next runnable thread round robin. Thread structures come from
  \<open>kmalloc\<close>, stacks from the page allocator. On a single core the spin lock only masks interrupts,
  so an operation is one step; what the timer and interrupt drivers answer are arguments.
\<close>

section \<open>The CPU state\<close>

record cpu_state_struct =
  CPSR :: u32
  PC :: u32
  SP :: u32
  LR :: u32
  R0 :: u32
  R1 :: u32
  R2 :: u32
  R3 :: u32
  R4 :: u32
  R5 :: u32
  R6 :: u32
  R7 :: u32
  R8 :: u32
  R9 :: u32
  R10 :: u32
  R11 :: u32
  R12 :: u32

definition PSR_M :: "u32 \<Rightarrow> u32" where "PSR_M m5 = push_bit 0 m5"
definition PSR_A :: "u32 \<Rightarrow> u32" where "PSR_A a1 = push_bit 8 a1"
definition PSR_E :: "u32 \<Rightarrow> u32" where "PSR_E e1 = push_bit 9 e1"
definition PSR_MODE_svc :: u32 where "PSR_MODE_svc = 19"

definition cpu_state_build :: "cpu_state_struct \<Rightarrow> u32 \<Rightarrow> u32 \<Rightarrow> u32 \<Rightarrow> u32 \<Rightarrow> cpu_state_struct" where
  "cpu_state_build cpuss start args stack_p fin =
     cpuss\<lparr>PC := start + 4, LR := fin, R0 := args, SP := stack_p,
           CPSR := PSR_M PSR_MODE_svc OR PSR_E 0 OR PSR_A 1\<rparr>"

section \<open>Threads and the run queue\<close>

definition KTHREAD_JOINABLE :: u32 where "KTHREAD_JOINABLE = BIT 0"
definition KTHREAD_SLEEP_UNTIL_TIME :: u32 where "KTHREAD_SLEEP_UNTIL_TIME = BIT 1"

record kthread =
  cpu_state :: cpu_state_struct
  kt_stack :: stack_struct
  kt_flags :: u32
  sleep_until_time :: timespec

definition zero_kthread :: kthread where
  "zero_kthread = \<lparr>cpu_state = \<lparr>CPSR = 0, PC = 0, SP = 0, LR = 0, R0 = 0, R1 = 0, R2 = 0, R3 = 0, R4 = 0, R5 = 0,
       R6 = 0, R7 = 0, R8 = 0, R9 = 0, R10 = 0, R11 = 0, R12 = 0\<rparr>,
     kt_stack = \<lparr>stack_base = 0, stack_size = 0\<rparr>, kt_flags = 0, sleep_until_time = Timespec 0 0\<rparr>"

definition sizeof_kthread :: u32 where "sizeof_kthread = 68 + 8 + 4 + 8"
definition sizeof_run_queue :: u32 where "sizeof_run_queue = 4 + 32 * 4 + 4 + 4 + 8"

text \<open>A slot holds the address of a thread, 0 when it is empty.\<close>

record run_queue_struct =
  kthreads :: "u32 list"
  running :: nat
  sched_time :: timespec

record sched =
  run_queue :: "run_queue_struct option"
  threads :: "u32 \<Rightarrow> kthread"
  kheap :: "pages kheap"
  sys_time :: system_time

abbreviation thread_mem :: "sched \<Rightarrow> memory" where
  "thread_mem S \<equiv> pages_mem (kh_pages (kheap S))"

section \<open>Choosing the next thread\<close>

definition is_runnable :: "timespec \<Rightarrow> u32 \<Rightarrow> (u32 \<Rightarrow> kthread) \<Rightarrow> bool \<times> (u32 \<Rightarrow> kthread)" where
  "is_runnable now th ths =
     (if th \<noteq> 0 then
        if kt_flags (ths th) = 0 then (True, ths)
        else if kt_flags (ths th) AND KTHREAD_SLEEP_UNTIL_TIME \<noteq> 0 \<and>
            compare_system_time now (sleep_until_time (ths th)) \<ge> 0
          then (True, ths(th := (ths th)\<lparr>kt_flags := kt_flags (ths th) AND NOT KTHREAD_SLEEP_UNTIL_TIME\<rparr>))
        else (False, ths)
      else (False, ths))"

text \<open>
  The endless loop of \<open>run_queue_next\<close>: the position it has reached, the threads, and the answer: the
  thread, its position and the threads. It ends because the position comes back to where it
  started, which is proved below.
\<close>

partial_function (option) next_from ::
  "run_queue_struct \<Rightarrow> nat \<Rightarrow> (u32 \<Rightarrow> kthread) \<Rightarrow> (u32 \<times> nat \<times> (u32 \<Rightarrow> kthread)) run option" where
  "next_from rq r0 ths =
     (let r = (r0 + 1) mod 32; th = kthreads rq ! r
      in if r \<noteq> 0 \<and> fst (is_runnable (sched_time rq) th ths)
         then Some (Inr (th, r, snd (is_runnable (sched_time rq) th ths)))
         else if r = running rq
         then Some (if kthreads rq ! 0 = 0 then Inl BUG else Inr (kthreads rq ! 0, 0, ths))
         else next_from rq r ths)"

definition run_queue_next ::
  "run_queue_struct \<Rightarrow> (u32 \<Rightarrow> kthread) \<Rightarrow> (u32 \<times> run_queue_struct \<times> (u32 \<Rightarrow> kthread)) run option" where
  "run_queue_next rq ths =
     (case next_from rq (running rq) ths of
        None \<Rightarrow> None
      | Some (Inl b) \<Rightarrow> Some (Inl b)
      | Some (Inr (th, r, ths')) \<Rightarrow> Some (Inr (th, rq\<lparr>running := r\<rparr>, ths')))"

definition run_queue_current :: "run_queue_struct \<Rightarrow> u32" where
  "run_queue_current rq = kthreads rq ! running rq"

definition run_queue_add :: "u32 \<Rightarrow> run_queue_struct option \<Rightarrow> int \<times> run_queue_struct option" where
  "run_queue_add th rq =
     (case rq of None \<Rightarrow> (-1, None)
      | Some q \<Rightarrow>
          (case find (\<lambda>i. kthreads q ! i = 0) [0..<32] of
             Some i \<Rightarrow> (0, Some (q\<lparr>kthreads := (kthreads q)[i := th]\<rparr>))
           | None \<Rightarrow> (-1, Some q)))"

definition run_queue_remove :: "u32 \<Rightarrow> run_queue_struct \<Rightarrow> int \<times> run_queue_struct" where
  "run_queue_remove th q =
     (case find (\<lambda>i. kthreads q ! i = th) [0..<32] of
        Some i \<Rightarrow> (0, q\<lparr>kthreads := (kthreads q)[i := 0]\<rparr>)
      | None \<Rightarrow> (-1, q))"

section \<open>Creating and ending threads\<close>

definition kmalloc_kthread :: "board \<Rightarrow> sched \<Rightarrow> (u32 \<times> sched) run" where
  "kmalloc_kthread cfg S =
     (case kmalloc cfg (get_free_pages cfg) (free_pages2 cfg) clear_pages sizeof_kthread (GFP_KERNEL OR GFP_ZERO) (kheap S) of
        Inl b \<Rightarrow> Inl b
      | Inr (p, H) \<Rightarrow>
          Inr (p, S\<lparr>kheap := H, threads := if p = 0 then threads S else (threads S)(p := zero_kthread)\<rparr>))"

definition free_kthread_stack :: "board \<Rightarrow> u32 \<Rightarrow> sched \<Rightarrow> sched" where
  "free_kthread_stack cfg t S =
     (if t \<noteq> 0 then
        case stack_free cfg (kt_stack (threads S t)) (kh_pages (kheap S)) of
          (ss, s) \<Rightarrow> S\<lparr>threads := (threads S)(t := (threads S t)\<lparr>kt_stack := ss\<rparr>), kheap := (kheap S)\<lparr>kh_pages := s\<rparr>\<rparr>
      else S)"

definition free_kthread :: "board \<Rightarrow> u32 \<Rightarrow> sched \<Rightarrow> sched" where
  "free_kthread cfg t S =
     (if t \<noteq> 0 then
        let S1 = free_kthread_stack cfg t S
        in S1\<lparr>kheap := snd (kfree cfg (free_pages2 cfg) t (kheap S1))\<rparr>
      else S)"

text \<open>\<open>fin\<close> is the address of \<open>_exited_kthread\<close>. The thread is the second component.\<close>

definition kthread_create0 ::
  "board \<Rightarrow> u32 \<Rightarrow> u32 \<Rightarrow> u32 \<Rightarrow> u32 \<Rightarrow> sched \<Rightarrow> (int \<times> u32 \<times> sched) run" where
  "kthread_create0 cfg fin gf start args S =
     (case kmalloc_kthread cfg S of
        Inl b \<Rightarrow> Inl b
      | Inr (t, S1) \<Rightarrow>
          if t \<noteq> 0 then
            case stack_alloc cfg 1024 gf (kh_pages (kheap S1)) of
              (ok, ss, s) \<Rightarrow>
                let S2 = S1\<lparr>threads := (threads S1)(t := (threads S1 t)\<lparr>kt_stack := ss\<rparr>), kheap := (kheap S1)\<lparr>kh_pages := s\<rparr>\<rparr>
                in if ok then
                     let cpu = cpu_state_build (cpu_state (threads S2 t)) start args (stack_top ss) fin
                     in Inr (0, t, S2\<lparr>threads := (threads S2)(t := (threads S2 t)\<lparr>cpu_state := cpu\<rparr>)\<rparr>)
                   else Inr (-1, 0, free_kthread cfg t S2)
          else Inr (0, t, S1))"

definition kthread_create ::
  "board \<Rightarrow> u32 \<Rightarrow> u32 \<Rightarrow> u32 \<Rightarrow> u32 \<Rightarrow> sched \<Rightarrow> (int \<times> u32 \<times> sched) run" where
  "kthread_create cfg fin gf start args S =
     (case kthread_create0 cfg fin gf start args S of
        Inl b \<Rightarrow> Inl b
      | Inr (e, t, S1) \<Rightarrow>
          if e \<noteq> 0 then Inr (-1, t, S1)
          else case run_queue_add t (run_queue S1) of
            (rqa, rq) \<Rightarrow>
              let S2 = S1\<lparr>run_queue := rq\<rparr>
              in if rqa \<noteq> 0 then Inr (-1, 0, free_kthread cfg t S2) else Inr (0, t, S2))"

text \<open>The end of a thread, up to the yield it does not come back from.\<close>

definition exited_kthread :: "sched \<Rightarrow> sched run" where
  "exited_kthread S =
     (case run_queue S of
        None \<Rightarrow> Inl FAULT
      | Some rq \<Rightarrow>
          if running rq = 0 then Inl BUG
          else let c = run_queue_current rq
            in if c \<noteq> 0 then
                 Inr (S\<lparr>run_queue := Some (snd (run_queue_remove c rq)),
                        threads := (threads S)(c := (threads S c)\<lparr>kt_flags := kt_flags (threads S c) OR KTHREAD_JOINABLE\<rparr>)\<rparr>)
               else Inr S)"

text \<open>One round of \<open>kthread_join\<close>: \<open>None\<close> when the thread has to be waited for with another yield.\<close>

definition kthread_join :: "board \<Rightarrow> u32 \<Rightarrow> sched \<Rightarrow> sched option" where
  "kthread_join cfg t S =
     (if t = 0 then Some S
      else if kt_flags (threads S t) AND KTHREAD_JOINABLE = 0 then None
      else Some (free_kthread cfg t S))"

section \<open>Switching\<close>

text \<open>\<open>e\<close> is the answer of the timer's \<open>oneshot\<close>.\<close>

definition sched_next_task :: "int \<Rightarrow> int run" where
  "sched_next_task e = (if e \<noteq> 0 then Inl BUG else Inr 0)"

text \<open>\<open>_switch\<close>: the threads and the interrupted CPU state.\<close>

definition switch_to :: "u32 \<Rightarrow> u32 \<Rightarrow> cpu_state_struct \<Rightarrow> (u32 \<Rightarrow> kthread) \<Rightarrow> cpu_state_struct \<times> (u32 \<Rightarrow> kthread)" where
  "switch_to src dst cpu ths =
     (let ths1 = ths(src := (ths src)\<lparr>cpu_state := cpu\<rparr>)
      in (if src \<noteq> dst then cpu_state (ths1 dst) else cpu, ths1))"

definition arch_irq_task_switch ::
  "u64 \<Rightarrow> int \<Rightarrow> cpu_state_struct \<Rightarrow> sched \<Rightarrow> (cpu_state_struct \<times> sched) run option" where
  "arch_irq_task_switch tick e cpu S =
     (case run_queue S of
        None \<Rightarrow> Some (Inr (cpu, S))
      | Some rq \<Rightarrow>
          (case get_system_time tick (sys_time S) of
             (err, now, st) \<Rightarrow>
               let rq1 = (case now of None \<Rightarrow> rq | Some t \<Rightarrow> rq\<lparr>sched_time := t\<rparr>);
                   c = run_queue_current rq1
               in case run_queue_next rq1 (threads S) of
                    None \<Rightarrow> None
                  | Some (Inl b) \<Rightarrow> Some (Inl b)
                  | Some (Inr (n, rq2, ths)) \<Rightarrow>
                      Some (if n = 0 \<or> c = 0 then Inl BUG
                        else if stack_check (kt_stack (ths c)) (thread_mem S) < 0 then Inl BUG
                        else case switch_to c n cpu ths of
                          (cpu', ths') \<Rightarrow>
                            case sched_next_task e of
                              Inl b \<Rightarrow> Inl b
                            | Inr z \<Rightarrow> Inr (cpu', S\<lparr>run_queue := Some rq2, threads := ths', sys_time := st\<rparr>))))"

definition kthread_stack_check :: "sched \<Rightarrow> int run" where
  "kthread_stack_check S =
     (case run_queue S of None \<Rightarrow> Inl FAULT
      | Some rq \<Rightarrow> Inr (let c = run_queue_current rq in if c \<noteq> 0 then stack_check (kt_stack (threads S c)) (thread_mem S) else -1))"

definition kthread_stack_remaining :: "sched \<Rightarrow> int run" where
  "kthread_stack_remaining S =
     (case run_queue S of None \<Rightarrow> Inl FAULT
      | Some rq \<Rightarrow> Inr (let c = run_queue_current rq in if c \<noteq> 0 then stack_remaining (kt_stack (threads S c)) (thread_mem S) else -1))"

text \<open>
  \<open>kthread_init\<close>: \<open>te\<close> and \<open>ie\<close> are the answers of \<open>timer_open\<close> and \<open>interrupt_controller\<close>, \<open>idle\<close> is the
  address of the idle task; the yield to self in the middle is not part of the function.
\<close>

definition kthread_init ::
  "board \<Rightarrow> u32 \<Rightarrow> u32 \<Rightarrow> int \<Rightarrow> int \<Rightarrow> int \<Rightarrow> stack_struct \<Rightarrow> sched \<Rightarrow> (int \<times> sched) run" where
  "kthread_init cfg fin idle te ie e ss S =
     (case kmalloc cfg (get_free_pages cfg) (free_pages2 cfg) clear_pages sizeof_run_queue (GFP_KERNEL OR GFP_ZERO) (kheap S) of
        Inl b \<Rightarrow> Inl b
      | Inr (p, H) \<Rightarrow>
          if p = 0 then Inl BUG
          else case kmalloc_kthread cfg (S\<lparr>kheap := H\<rparr>) of
            Inl b \<Rightarrow> Inl b
          | Inr (boot_t, S1) \<Rightarrow>
              if boot_t = 0 \<or> te \<noteq> 0 \<or> ie \<noteq> 0 then Inl BUG
              else let S2 = S1\<lparr>threads := (threads S1)(boot_t := (threads S1 boot_t)\<lparr>kt_stack := ss\<rparr>)\<rparr>
                in case kthread_create0 cfg fin GFP_KERNEL idle 0 S2 of
                  Inl b \<Rightarrow> Inl b
                | Inr (err, t, S3) \<Rightarrow>
                    if err \<noteq> 0 \<or> t = 0 then Inl BUG
                    else case sched_next_task e of
                      Inl b \<Rightarrow> Inl b
                    | Inr r \<Rightarrow>
                        Inr (r, S3\<lparr>run_queue := Some \<lparr>kthreads = (replicate 32 0)[1 := boot_t, 0 := t], running = 1,
                                                      sched_time = Timespec 0 0\<rparr>\<rparr>))"

section \<open>Sleeping\<close>

text \<open>\<open>sched_sleep.c\<close>, up to the yield.\<close>

definition kthread_sleep_ts :: "u64 \<Rightarrow> timespec \<Rightarrow> timespec \<Rightarrow> sched \<Rightarrow> sched run" where
  "kthread_sleep_ts tick unset ts S =
     (case get_system_time tick (sys_time S) of
        (err, now, st) \<Rightarrow>
          let t = add_system_time (case now of Some t \<Rightarrow> t | None \<Rightarrow> unset) ts
          in case run_queue S of
               None \<Rightarrow> Inl FAULT
             | Some rq \<Rightarrow>
                 let c = run_queue_current rq
                 in Inr (if c \<noteq> 0
                    then S\<lparr>sys_time := st, threads := (threads S)(c := (threads S c)\<lparr>
                        kt_flags := kt_flags (threads S c) OR KTHREAD_SLEEP_UNTIL_TIME, sleep_until_time := t\<rparr>)\<rparr>
                    else S\<lparr>sys_time := st\<rparr>))"

definition sleep_ms_ts :: "u32 \<Rightarrow> timespec" where
  "sleep_ms_ts ms =
     (let s = (ucast ms :: u64) div 1000; n = 1000 * (ucast ms - s * 1000) in Timespec (ucast s) (ucast n))"

definition kthread_sleep_ms :: "u64 \<Rightarrow> timespec \<Rightarrow> u32 \<Rightarrow> sched \<Rightarrow> sched run" where
  "kthread_sleep_ms tick unset ms S = kthread_sleep_ts tick unset (sleep_ms_ts ms) S"

definition sleep_ns_ts :: "u64 \<Rightarrow> timespec" where
  "sleep_ns_ts ns =
     (let s = ns div 1000000000; n = ns - s * 1000000000 in Timespec (ucast s) (ucast n))"

definition kthread_sleep_ns :: "u64 \<Rightarrow> timespec \<Rightarrow> u64 \<Rightarrow> sched \<Rightarrow> sched run" where
  "kthread_sleep_ns tick unset ns S = kthread_sleep_ts tick unset (sleep_ns_ts ns) S"

end
