(* ===== verification/Sched_Props.thy ===== *)
theory Sched_Props
  imports Sched Kmalloc_Examples
begin

text \<open>
  What the scheduler promises: the search for the next thread ends, it finds a runnable thread when
  there is one, no runnable thread waits for more than 31 switches, and the CPU state of a thread
  survives the threads that run in between.
\<close>

section \<open>The round robin search\<close>

definition ready :: "timespec \<Rightarrow> u32 \<Rightarrow> (u32 \<Rightarrow> kthread) \<Rightarrow> bool" where
  "ready now th ths \<longleftrightarrow> th \<noteq> 0 \<and>
     (kt_flags (ths th) = 0 \<or> kt_flags (ths th) AND KTHREAD_SLEEP_UNTIL_TIME \<noteq> 0 \<and> sleep_until_time (ths th) \<le> now)"

lemma compare_ge: "compare_system_time a b \<ge> 0 \<longleftrightarrow> b \<le> a"
  by (auto simp: compare_system_time_def less_eq_timespec_def)

lemma is_runnable_ready:
  "is_runnable now th ths =
    (ready now th ths,
     if ready now th ths \<and> kt_flags (ths th) \<noteq> 0
     then ths(th := (ths th)\<lparr>kt_flags := kt_flags (ths th) AND NOT KTHREAD_SLEEP_UNTIL_TIME\<rparr>) else ths)"
  by (auto simp: is_runnable_def ready_def compare_ge)

text \<open>The slot \<open>j\<close> places after the running one, the idle task's slot left out.\<close>

definition slot_ready :: "run_queue_struct \<Rightarrow> (u32 \<Rightarrow> kthread) \<Rightarrow> nat \<Rightarrow> bool" where
  "slot_ready rq ths j \<longleftrightarrow> (running rq + j) mod 32 \<noteq> 0 \<and>
     ready (sched_time rq) (kthreads rq ! ((running rq + j) mod 32)) ths"

definition next_answer :: "run_queue_struct \<Rightarrow> (u32 \<Rightarrow> kthread) \<Rightarrow> nat option \<Rightarrow> (u32 \<times> nat \<times> (u32 \<Rightarrow> kthread)) run" where
  "next_answer rq ths j =
     (case j of
        Some j \<Rightarrow> let r = (running rq + j) mod 32; th = kthreads rq ! r
          in Inr (th, r, snd (is_runnable (sched_time rq) th ths))
      | None \<Rightarrow> if kthreads rq ! 0 = 0 then Inl BUG else Inr (kthreads rq ! 0, 0, ths))"

lemma mod_32: "r < 32 \<Longrightarrow> j \<le> 32 \<Longrightarrow> (r + j) mod 32 = (if r + j < 32 then r + j else r + j - (32 :: nat))"
  by (simp add: mod_if)

lemma ring_away: "r < 32 \<Longrightarrow> 0 < j \<Longrightarrow> j < 32 \<Longrightarrow> (r + j) mod 32 \<noteq> (r :: nat)"
  by (auto simp: mod_32)

lemma next_from_search:
  assumes "running rq < 32" and "k < 32"
  shows "next_from rq ((running rq + k) mod 32) ths = Some (next_answer rq ths (find (slot_ready rq ths) [Suc k..<33]))"
  using assms
proof (induction "31 - k" arbitrary: k)
  case 0
  then have k: "k = 31" by simp
  have r: "((running rq + k) mod 32 + 1) mod 32 = (running rq + Suc k) mod 32" by (simp add: mod_Suc_eq)
  have home: "(running rq + Suc k) mod 32 = running rq" using 0(2) k by simp
  have "[Suc k..<33] = [32]" using k by (simp add: upt_rec)
  then show ?case
    unfolding next_from.simps [of rq "(running rq + k) mod 32" ths] r
    using home k by (simp add: Let_def is_runnable_ready next_answer_def slot_ready_def)
next
  case (Suc n)
  then have k: "Suc k < 32" by simp
  have r: "((running rq + k) mod 32 + 1) mod 32 = (running rq + Suc k) mod 32" by (simp add: mod_Suc_eq)
  have away: "(running rq + Suc k) mod 32 \<noteq> running rq" using ring_away [of "running rq" "Suc k"] Suc.prems(1) k by simp
  have u: "[Suc k..<33] = Suc k # [Suc (Suc k)..<33]" using k by (simp add: upt_rec)
  have IH: "next_from rq ((running rq + Suc k) mod 32) ths =
      Some (next_answer rq ths (find (slot_ready rq ths) [Suc (Suc k)..<33]))"
    by (rule Suc.hyps(1)) (use Suc k in simp_all)
  show ?case
    unfolding next_from.simps [of rq "(running rq + k) mod 32" ths] r u
    using away IH by (simp add: Let_def is_runnable_ready next_answer_def slot_ready_def)
qed

lemma run_queue_next_search:
  assumes "running rq < 32"
  shows "run_queue_next rq ths = Some (case next_answer rq ths (find (slot_ready rq ths) [1..<33]) of
    Inl b \<Rightarrow> Inl b | Inr (th, r, ths') \<Rightarrow> Inr (th, rq\<lparr>running := r\<rparr>, ths'))"
  using next_from_search [OF assms, of 0 ths] assms
  by (simp add: run_queue_next_def split: sum.splits prod.splits)

lemma next_ends:
  assumes "running rq < 32"
  shows "run_queue_next rq ths = Some (Inl BUG) \<or> (\<exists>th rq' ths'. run_queue_next rq ths = Some (Inr (th, rq', ths')))"
  unfolding run_queue_next_search [OF assms] by (auto simp: next_answer_def Let_def split: option.splits)

section \<open>How long a thread waits\<close>

definition running_slot :: "sched \<Rightarrow> nat" where
  "running_slot S = (case run_queue S of Some rq \<Rightarrow> running rq | None \<Rightarrow> 0)"

text \<open>The thread \<open>th\<close> is in slot \<open>i\<close> and has nothing to wait for.\<close>

definition awake :: "nat \<Rightarrow> u32 \<Rightarrow> sched \<Rightarrow> bool" where
  "awake i th S \<longleftrightarrow> (\<exists>rq. run_queue S = Some rq \<and> running rq < 32 \<and> kthreads rq ! i = th) \<and> th \<noteq> 0 \<and> kt_flags (threads S th) = 0"

text \<open>
  \<open>n\<close> switches of which none chose slot \<open>i\<close>, though its thread was awake at each of them. Between two
  switches the threads may do what they like to the state but for the running slot, which only the
  switch sets.
\<close>

inductive starved :: "nat \<Rightarrow> u32 \<Rightarrow> nat \<Rightarrow> sched \<Rightarrow> bool" for i th where
  starved_start: "starved i th 0 S"
| starved_switch: "starved i th n S \<Longrightarrow> awake i th S \<Longrightarrow>
    arch_irq_task_switch tick e cpu S = Some (Inr (cpu', S')) \<Longrightarrow> running_slot S' \<noteq> i \<Longrightarrow> starved i th (Suc n) S'"
| starved_work: "starved i th n S \<Longrightarrow> running_slot S' = running_slot S \<Longrightarrow> starved i th n S'"

text \<open>The distance from the running slot to slot \<open>i\<close>, going upwards.\<close>

definition ahead :: "nat \<Rightarrow> nat \<Rightarrow> nat" where
  "ahead r i = (if r < i then i - r else i + 32 - r)"

lemma ahead_le: "r < 32 \<Longrightarrow> i < 32 \<Longrightarrow> ahead r i \<le> 32"
  by (auto simp: ahead_def)

lemma ahead_pos: "r < 32 \<Longrightarrow> 0 < ahead r i"
  by (simp add: ahead_def)

lemma ahead_slot: "r < 32 \<Longrightarrow> i < 32 \<Longrightarrow> (r + ahead r i) mod 32 = i"
  using mod_32 [of r "ahead r i"] ahead_le [of r i] by (auto simp: ahead_def split: if_splits)

lemma ahead_step:
  assumes "r < 32" and "i < 32" and "0 < j" and "j < ahead r i"
  shows "ahead ((r + j) mod 32) i + j = ahead r i"
proof -
  have "j \<le> 32" using assms(4) ahead_le [OF assms(1, 2)] by simp
  then show ?thesis using assms mod_32 [OF assms(1), of j] by (auto simp: ahead_def split: if_splits)
qed

lemma switch_running:
  assumes sw: "arch_irq_task_switch tick e cpu S = Some (Inr (cpu', S'))" and aw: "awake i th S" and i: "0 < i" "i < 32"
    and miss: "running_slot S' \<noteq> i"
  shows "running_slot S' < 32 \<and> ahead (running_slot S') i < ahead (running_slot S) i"
proof -
  obtain rq where rq: "run_queue S = Some rq" "running rq < 32" "kthreads rq ! i = th" "th \<noteq> 0" "kt_flags (threads S th) = 0"
    using aw by (auto simp: awake_def)
  obtain err now st where g: "get_system_time tick (sys_time S) = (err, now, st)" by (metis prod_cases3)
  define rq1 where "rq1 = (case now of None \<Rightarrow> rq | Some t \<Rightarrow> rq\<lparr>sched_time := t\<rparr>)"
  have rq1: "running rq1 = running rq" "kthreads rq1 = kthreads rq" by (simp_all add: rq1_def split: option.splits)
  let ?d = "ahead (running rq) i"
  have here: "slot_ready rq1 (threads S) ?d"
    using ahead_slot [OF rq(2) i(2)] i(1) rq by (simp add: slot_ready_def rq1 ready_def)
  have "?d \<in> set [1..<33]" using ahead_le [OF rq(2) i(2)] ahead_pos [OF rq(2), of i] by simp
  then have "find (slot_ready rq1 (threads S)) [1..<33] \<noteq> None" using here unfolding find_None_iff by blast
  then obtain j where j: "find (slot_ready rq1 (threads S)) [1..<33] = Some j" by blast
  have jd: "0 < j \<and> j \<le> ?d"
  proof -
    obtain k where k: "k < 32" "j = Suc k" "\<forall>l < k. \<not> slot_ready rq1 (threads S) (Suc l)"
      using j by (auto simp: find_Some_iff)
    have "\<not> ?d < j"
    proof
      assume "?d < j"
      then have "?d - 1 < k" using ahead_pos [OF rq(2), of i] k(2) by linarith
      then have "\<not> slot_ready rq1 (threads S) (Suc (?d - 1))" using k(3) by blast
      then show False using here ahead_pos [OF rq(2), of i] by simp
    qed
    then show ?thesis using k(2) by simp
  qed
  have r: "running rq1 < 32" using rq1 rq(2) by simp
  have "running_slot S' = (running rq + j) mod 32"
    using sw rq(1) g run_queue_next_search [OF r, of "threads S"] j
    by (auto simp: arch_irq_task_switch_def rq1_def [symmetric] next_answer_def Let_def running_slot_def rq1 switch_to_def
        split: if_splits sum.splits)
  moreover have "j \<noteq> ?d" using calculation miss ahead_slot [OF rq(2) i(2)] by auto
  ultimately show ?thesis using ahead_step [OF rq(2) i(2), of j] jd rq(1) by (simp add: running_slot_def)
qed

lemma starved_bound:
  assumes "starved i th n S" and "0 < i" and "i < 32"
  shows "n = 0 \<or> running_slot S < 32 \<and> n + ahead (running_slot S) i \<le> 32"
  using assms
proof (induction rule: starved.induct)
  case (starved_switch n S tick e cpu cpu' S')
  have r: "running_slot S < 32" using starved_switch.hyps(2) by (auto simp: awake_def running_slot_def)
  have "n + ahead (running_slot S) i \<le> 32" using starved_switch.IH starved_switch.prems ahead_le [OF r] by auto
  with switch_running [OF starved_switch.hyps(3, 2) starved_switch.prems starved_switch.hyps(4)] show ?case by simp
qed auto

section \<open>Properties\<close>

text \<open>C19: The endless loop of \<open>run_queue_next\<close> ends, and the answer is right: the ready thread in the first slot after the
  running one, going upwards and around, with every slot in between, the idle task's apart, not ready; its
  sleep flag is cleared and no other thread is changed; and the idle task when no other thread is ready. There is a thread
  in the idle task's slot, as the kernel's start puts it there.\<close>

theorem run_queue_next_returns:
  assumes "running rq < 32" and "kthreads rq ! 0 \<noteq> 0"
  shows "\<exists>th r ths'. run_queue_next rq ths = Some (Inr (th, rq\<lparr>running := r\<rparr>, ths')) \<and> th \<noteq> 0 \<and> th = kthreads rq ! r \<and>
    (if \<forall>i. 0 < i \<and> i < 32 \<longrightarrow> \<not> ready (sched_time rq) (kthreads rq ! i) ths then r = 0 \<and> ths' = ths
     else (\<exists>j. 0 < j \<and> j \<le> 32 \<and> r = (running rq + j) mod 32 \<and>
         (\<forall>k. 0 < k \<and> k < j \<longrightarrow> (running rq + k) mod 32 = 0 \<or>
            \<not> ready (sched_time rq) (kthreads rq ! ((running rq + k) mod 32)) ths)) \<and>
       r \<noteq> 0 \<and> ready (sched_time rq) th ths \<and>
       ths' = (if kt_flags (ths th) = 0 then ths
               else ths(th := (ths th)\<lparr>kt_flags := kt_flags (ths th) AND NOT KTHREAD_SLEEP_UNTIL_TIME\<rparr>)))"
proof (cases "find (slot_ready rq ths) [1..<33]")
  case None
  have "\<not> ready (sched_time rq) (kthreads rq ! i) ths" if i: "0 < i" "i < 32" for i
  proof -
    have "ahead (running rq) i \<in> set [1..<33]" using ahead_le [OF assms(1) i(2)] ahead_pos [OF assms(1), of i] by simp
    then have "\<not> slot_ready rq ths (ahead (running rq) i)" using None unfolding find_None_iff by blast
    then show ?thesis using ahead_slot [OF assms(1) i(2)] i(1) by (simp add: slot_ready_def)
  qed
  then show ?thesis
    using run_queue_next_search [OF assms(1), of ths] None assms(2)
    by (intro exI [of _ "kthreads rq ! 0"] exI [of _ 0] exI [of _ ths]) (simp add: next_answer_def)
next
  case (Some j)
  let ?r = "(running rq + j) mod 32"
  let ?th = "kthreads rq ! ?r"
  obtain n where n: "n < length [1..<33]" "j = [1..<33] ! n" "slot_ready rq ths j" "\<forall>m < n. \<not> slot_ready rq ths ([1..<33] ! m)"
    using Some unfolding find_Some_iff by metis
  have j: "j = n + 1" "n < 32" using n(1,2) by (simp_all only: length_upt nth_upt)
  have before: "\<not> slot_ready rq ths k" if "0 < k" "k < j" for k
  proof -
    have "[1..<33] ! (k - 1) = k" using that j by (subst nth_upt) simp_all
    moreover have "k - 1 < n" using that j by simp
    ultimately show ?thesis using n(4) by metis
  qed
  have r: "?r \<noteq> 0" "ready (sched_time rq) ?th ths" using n(3) by (simp_all add: slot_ready_def)
  then have th: "?th \<noteq> 0" by (simp add: ready_def)
  have "?r < 32" by simp
  then have some: "\<not> (\<forall>i. 0 < i \<and> i < 32 \<longrightarrow> \<not> ready (sched_time rq) (kthreads rq ! i) ths)" using r by blast
  have run: "run_queue_next rq ths = Some (Inr (?th, rq\<lparr>running := ?r\<rparr>, snd (is_runnable (sched_time rq) ?th ths)))"
    using run_queue_next_search [OF assms(1), of ths] Some by (simp add: next_answer_def Let_def)
  have "snd (is_runnable (sched_time rq) ?th ths) = (if kt_flags (ths ?th) = 0 then ths
      else ths(?th := (ths ?th)\<lparr>kt_flags := kt_flags (ths ?th) AND NOT KTHREAD_SLEEP_UNTIL_TIME\<rparr>))"
    using r(2) by (simp add: is_runnable_ready)
  moreover have "\<exists>j'. 0 < j' \<and> j' \<le> 32 \<and> ?r = (running rq + j') mod 32 \<and>
      (\<forall>k. 0 < k \<and> k < j' \<longrightarrow> (running rq + k) mod 32 = 0 \<or>
        \<not> ready (sched_time rq) (kthreads rq ! ((running rq + k) mod 32)) ths)"
    using j before unfolding slot_ready_def by (intro exI [of _ j]) auto
  ultimately show ?thesis
    unfolding if_not_P [OF some]
    using run th r by (intro exI [of _ ?th] exI [of _ ?r] exI [of _ "snd (is_runnable (sched_time rq) ?th ths)"]) blast
qed

definition three_threads :: run_queue_struct where
  "three_threads = \<lparr>kthreads = [0x1000, 0x2000, 0x3000] @ replicate 29 0, running = 1, sched_time = Timespec 5 0\<rparr>"

text \<open>Thread 1 runs, thread 2 is in the next slot, and no thread sleeps.\<close>

lemma run_queue_next_returns_witness:
  "\<exists>r ths'. run_queue_next three_threads (\<lambda>t. zero_kthread) = Some (Inr (0x3000, three_threads\<lparr>running := 2\<rparr>, ths'))"
proof -
  have two: "ready (sched_time three_threads) (kthreads three_threads ! 2) (\<lambda>t. zero_kthread)"
    by (simp add: ready_def three_threads_def zero_kthread_def)
  let ?ready = "\<lambda>i. ready (sched_time three_threads) (kthreads three_threads ! i) (\<lambda>t. zero_kthread)"
  have one: "running three_threads = 1" "kthreads three_threads ! 0 \<noteq> 0" by (simp_all add: three_threads_def)
  have some: "(\<forall>i. 0 < i \<and> i < 32 \<longrightarrow> \<not> ?ready i) = False" using two by (auto intro!: exI [of _ 2])
  obtain th r ths' j where run: "run_queue_next three_threads (\<lambda>t. zero_kthread) = Some (Inr (th, three_threads\<lparr>running := r\<rparr>, ths'))"
    "th = kthreads three_threads ! r" "0 < j" "r = (1 + j) mod 32" "\<forall>k. 0 < k \<and> k < j \<longrightarrow> (1 + k) mod 32 = 0 \<or> \<not> ?ready ((1 + k) mod 32)"
    using run_queue_next_returns [of three_threads "\<lambda>t. zero_kthread"] one unfolding one(1) some if_False by auto
  have "\<not> 1 < j"
  proof
    assume "1 < j"
    then have "(1 + 1) mod 32 = (0 :: nat) \<or> \<not> ?ready ((1 + 1) mod 32)" using run(5) zero_less_one by blast
    then show False using two by (simp add: numeral_2_eq_2)
  qed
  then have "j = 1" using run(3) by simp
  then have "r = 2" "th = 0x3000" using run(2,4) by (simp_all add: three_threads_def)
  then show ?thesis using run(1) by auto
qed

text \<open>C20: A thread that is awake is chosen at the latest at the 32nd switch: no 32 switches in a row
  pass it over, whatever the threads do in between.\<close>

theorem no_starvation:
  assumes "starved i th n S" and "0 < i" and "i < 32"
  shows "n < 32"
proof -
  have "0 < ahead (running_slot S) i" if "running_slot S < 32" using that by (rule ahead_pos)
  then show ?thesis using starved_bound [OF assms] by auto
qed

definition idle_sched :: "memory \<Rightarrow> sched" where
  "idle_sched m = \<lparr>run_queue = Some three_threads, threads = (\<lambda>t. zero_kthread), kheap = heap4k m, sys_time = zero_time\<rparr>"

lemma zero_time_read: "get_system_time tick zero_time = (-1, None, zero_time)"
  by (simp add: get_system_time_def zero_time_def)

lemma find_from_zero: "find P [1..<33] = Some 1" if "P 1"
  using that by (simp add: upt_rec)

lemma idle_switch:
  "\<exists>cpu' S'. arch_irq_task_switch 0 0 cpu (idle_sched m) = Some (Inr (cpu', S')) \<and> running_slot S' = 2"
proof -
  have z: "kt_flags zero_kthread = 0" "kt_stack zero_kthread = \<lparr>stack_base = 0, stack_size = 0\<rparr>" by (simp_all add: zero_kthread_def)
  have n: "run_queue_next three_threads (\<lambda>t. zero_kthread) = Some (Inr (0x3000, three_threads\<lparr>running := 2\<rparr>, (\<lambda>t. zero_kthread)))"
  proof -
    have "slot_ready three_threads (\<lambda>t. zero_kthread) 1"
      by (simp add: three_threads_def slot_ready_def ready_def z)
    then have f: "find (slot_ready three_threads (\<lambda>t. zero_kthread)) [1..<33] = Some 1" by (rule find_from_zero)
    show ?thesis
      by (subst run_queue_next_search, simp add: three_threads_def)
        (simp only: f, simp add: next_answer_def three_threads_def is_runnable_def z)
  qed
  have t: "running three_threads = 1" "kthreads three_threads ! Suc 0 = 0x2000" by (simp_all add: three_threads_def)
  have "arch_irq_task_switch 0 0 cpu (idle_sched m) = Some (Inr (cpu_state zero_kthread,
      (idle_sched m)\<lparr>run_queue := Some (three_threads\<lparr>running := 2\<rparr>), threads := snd (switch_to 0x2000 0x3000 cpu (\<lambda>t. zero_kthread))\<rparr>))"
    unfolding arch_irq_task_switch_def
    by (simp add: Let_def idle_sched_def zero_time_read n run_queue_current_def t stack_check_def z sched_next_task_def switch_to_def)
  then show ?thesis by (simp add: running_slot_def)
qed

lemma no_starvation_witness: "\<exists>S. starved 1 0x2000 1 S \<and> (1 :: nat) < 32"
proof -
  obtain cpu' S' where sw: "arch_irq_task_switch 0 0 (cpu_state zero_kthread) (idle_sched (\<lambda>a. 0)) = Some (Inr (cpu', S'))"
    and r: "running_slot S' = 2" using idle_switch by blast
  have "awake 1 0x2000 (idle_sched (\<lambda>a. 0))" by (simp add: awake_def idle_sched_def three_threads_def zero_kthread_def)
  then have "starved 1 0x2000 (Suc 0) S'" using r by (intro starved_switch [OF starved_start _ sw]) simp_all
  then show ?thesis using no_starvation [of 1 "0x2000" "Suc 0" S'] by auto
qed

text \<open>C21: The CPU state of a thread that is switched away from comes back when it is switched to, and
  switching writes to no other thread.\<close>

theorem switch_round_trip:
  assumes "a \<noteq> b" and "switch_to a b cpu ths = (cpu1, ths1)"
    and "cpu_state (ths2 a) = cpu_state (ths1 a)" and "switch_to c a cpu2 ths2 = (cpu3, ths3)" and "c \<noteq> a"
  shows "cpu3 = cpu \<and> cpu1 = cpu_state (ths b) \<and> (\<forall>t. t \<noteq> a \<longrightarrow> ths1 t = ths t) \<and>
    cpu_state (ths3 c) = cpu2 \<and> cpu_state (ths3 a) = cpu"
  using assms by (auto simp: switch_to_def)

lemma switch_round_trip_witness:
  "R4 (fst (switch_to 0x3000 0x2000 ((cpu_state zero_kthread)\<lparr>R4 := 9\<rparr>)
      (snd (switch_to 0x2000 0x3000 ((cpu_state zero_kthread)\<lparr>R4 := 7\<rparr>) (\<lambda>t. zero_kthread))))) = 7"
proof -
  let ?cpu = "(cpu_state zero_kthread)\<lparr>R4 := 7\<rparr>" and ?cpu2 = "(cpu_state zero_kthread)\<lparr>R4 := 9\<rparr>"
  let ?one = "switch_to 0x2000 0x3000 ?cpu (\<lambda>t. zero_kthread)"
  let ?two = "switch_to 0x3000 0x2000 ?cpu2 (snd ?one)"
  have "fst ?two = ?cpu"
    using switch_round_trip [of "0x2000" "0x3000" ?cpu "\<lambda>t. zero_kthread" "fst ?one" "snd ?one" "snd ?one" "0x3000" ?cpu2
        "fst ?two" "snd ?two"] by simp
  then show ?thesis by simp
qed

text \<open>C22: A thread that returns from its start routine halts the kernel: \<open>_exited_kthread\<close> empties the slot
  of the running thread, and the switch it then yields to finds no current thread there.\<close>

theorem thread_exit_halts:
  assumes "run_queue S = Some rq" and "0 < running rq" and "running rq < 32" and "length (kthreads rq) = 32"
    and "kthreads rq ! running rq \<noteq> 0" and "\<forall>i < 32. kthreads rq ! i = kthreads rq ! running rq \<longrightarrow> i = running rq"
  shows "\<exists>S'. exited_kthread S = Inr S' \<and> arch_irq_task_switch tick e cpu S' = Some (Inl BUG)"
proof -
  let ?c = "kthreads rq ! running rq" and ?P = "\<lambda>i. kthreads rq ! i = kthreads rq ! running rq"
  have "running rq \<in> set [0..<32]" using assms(3) by simp
  then have "find ?P [0..<32] \<noteq> None" unfolding find_None_iff by blast
  then obtain i where i: "find ?P [0..<32] = Some i" by blast
  then have "i < 32" "?P i" by (auto simp: find_Some_iff)
  then have "i = running rq" using assms(6) by blast
  let ?rq = "rq\<lparr>kthreads := (kthreads rq)[running rq := 0]\<rparr>"
  let ?S' = "S\<lparr>run_queue := Some ?rq, threads := (threads S)(?c := (threads S ?c)\<lparr>kt_flags := kt_flags (threads S ?c) OR KTHREAD_JOINABLE\<rparr>)\<rparr>"
  have ex: "exited_kthread S = Inr ?S'"
    using assms(1, 2, 5) i \<open>i = running rq\<close> by (simp add: exited_kthread_def run_queue_current_def run_queue_remove_def Let_def)
  obtain err now st where g: "get_system_time tick (sys_time S) = (err, now, st)" by (metis prod_cases3)
  define q where "q = (case now of None \<Rightarrow> ?rq | Some t \<Rightarrow> ?rq\<lparr>sched_time := t\<rparr>)"
  have q: "running q < 32" "kthreads q ! running q = 0" using assms(3, 4) by (simp_all add: q_def split: option.splits)
  have "arch_irq_task_switch tick e cpu ?S' = Some (Inl BUG)"
    using next_ends [OF q(1), of "threads ?S'"] q(2)
    by (auto simp: arch_irq_task_switch_def g q_def [symmetric] run_queue_current_def Let_def)
  with ex show ?thesis by blast
qed

lemma thread_exit_halts_witness:
  "\<exists>S'. exited_kthread (idle_sched (\<lambda>a. 0)) = Inr S' \<and>
     arch_irq_task_switch 0 0 (cpu_state zero_kthread) S' = Some (Inl BUG)"
proof (rule thread_exit_halts)
  show "run_queue (idle_sched (\<lambda>a. 0)) = Some three_threads" by (simp add: idle_sched_def)
  have "i \<in> {0..<32} \<Longrightarrow> kthreads three_threads ! i = 0x2000 \<Longrightarrow> i = 1" for i
    by (cases "i < 3") (auto simp: three_threads_def nth_append less_Suc_eq numeral_3_eq_3)
  then show "\<forall>i < 32. kthreads three_threads ! i = kthreads three_threads ! running three_threads \<longrightarrow> i = running three_threads"
    by (simp add: three_threads_def)
qed (simp_all add: three_threads_def)

text \<open>Sleeping for half a second is sleeping for half a millisecond.\<close>

lemma sleep_ms_too_short: "sleep_ms_ts 500 = Timespec 0 500000 \<and> sleep_ns_ts 500000000 = Timespec 0 500000000"
  by (simp add: sleep_ms_ts_def sleep_ns_ts_def Let_def)

text \<open>When there is no memory for the thread structure, \<open>kthread_create\<close> reports success with no thread.\<close>

lemma kthread_create_without_memory:
  assumes "kmalloc cfg (get_free_pages cfg) (free_pages2 cfg) clear_pages sizeof_kthread (GFP_KERNEL OR GFP_ZERO) (kheap S) = Inr (0, H)"
    and "run_queue S = Some rq" and "kthreads rq ! 31 = 0"
  shows "\<exists>S'. kthread_create cfg fin gf start args S = Inr (0, 0, S')"
proof -
  have "31 \<in> set [0..<32]" by simp
  then have "find (\<lambda>i. kthreads rq ! i = 0) [0..<32] \<noteq> None" using assms(3) unfolding find_None_iff by blast
  with assms(1, 2) show ?thesis
    by (auto simp: kthread_create_def kthread_create0_def kmalloc_kthread_def run_queue_add_def)
qed

end
