(* ===== verification/Sched_Inv.thy ===== *)
theory Sched_Inv
  imports Sched_Props
begin

text \<open>
  The life of a thread: every thread in the run queue is a block of \<open>kmalloc\<close> that has not been
  freed, every thread that has been created and not joined has a stack of its own, and a thread
  that can be joined is not in the run queue any more.
\<close>

section \<open>Pages of others beside the small blocks\<close>

lemma heap_others_got:
  assumes H: "heap_ok cfg R H Q" and got: "get_free_pages cfg n fl (kh_pages H) = (p, s)" and p: "p \<noteq> 0"
  obtains len where "0 < len" and "unat n * unat (PAGE_SIZE cfg) \<le> len"
    and "heap_ok cfg (insert (p, len) R) (H\<lparr>kh_pages := s\<rparr>) Q"
    and "\<forall>r \<in> R. region_bytes r \<inter> region_bytes (p, len) = {}"
proof -
  obtain M Ms where own: "owns (page_regions cfg) 4096 R (kh_pages H) M" and hold: "pools_hold cfg H Ms M"
    using H by (auto simp: kmalloc_ok_def)
  obtain X where X: "page_regions cfg (kh_pages H) (R \<union> X)" "covered 4096 M X" "apart R X" using own by (rule ownsE)
  obtain len where len: "0 < len" "unat n * unat (PAGE_SIZE cfg) \<le> len"
    "\<forall>r \<in> R \<union> X. region_bytes r \<inter> region_bytes (p, len) = {}" "page_regions cfg s (insert (p, len) (R \<union> X))"
    using pg.get_some [OF X(1) TrueI got p] by blast
  have "apart (insert (p, len) R) X" using X(3) len(3) unfolding apart_def by (auto simp: Int_commute)
  then have "owns (page_regions cfg) 4096 (insert (p, len) R) s M" using len(4) X(2) by (intro ownsI [where Q = X]) simp_all
  moreover have "pools_hold cfg (H\<lparr>kh_pages := s\<rparr>) Ms M" using hold by (simp add: pools_hold_def pool_cache_def)
  moreover have "table_ok (H\<lparr>kh_pages := s\<rparr>)" "pool_regions cfg (H\<lparr>kh_pages := s\<rparr>) = pool_regions cfg H"
    using H by (simp_all add: kmalloc_ok_def table_ok_def pool_regions_def pool_cache_def)
  ultimately have "heap_ok cfg (insert (p, len) R) (H\<lparr>kh_pages := s\<rparr>) Q"
    using H unfolding kmalloc_ok_def by auto
  with len that show thesis by blast
qed

lemma heap_others_freed:
  assumes H: "heap_ok cfg R H Q" and r: "(p, len) \<in> R"
  shows "heap_ok cfg (R - {(p, len)}) (H\<lparr>kh_pages := free_pages2 cfg p (kh_pages H)\<rparr>) Q"
proof -
  let ?s = "free_pages2 cfg p (kh_pages H)"
  obtain M Ms where own: "owns (page_regions cfg) 4096 R (kh_pages H) M" and hold: "pools_hold cfg H Ms M"
    using H by (auto simp: kmalloc_ok_def)
  obtain X where X: "page_regions cfg (kh_pages H) (R \<union> X)" "covered 4096 M X" "apart R X" using own by (rule ownsE)
  obtain live where live: "pages_inv cfg (kh_pages H) live" "R \<union> X = block_region cfg (kh_pages H) ` live"
    using X(1) by (auto simp: page_regions_def)
  have "0 < len"
  proof -
    have "(p, len) \<in> block_region cfg (kh_pages H) ` live" using r live(2) by blast
    then show ?thesis using live(1) by (auto simp: block_region_def pages_inv_def)
  qed
  then have "(p, len) \<notin> X" using X(3) r region_start [of len p] unfolding apart_def by blast
  then have "(R \<union> X) - {(p, len)} = (R - {(p, len)}) \<union> X" by blast
  moreover have "page_regions cfg ?s ((R \<union> X) - {(p, len)})" using pg.free_region [OF X(1)] r by blast
  moreover have "apart (R - {(p, len)}) X" using X(3) unfolding apart_def by blast
  ultimately have "owns (page_regions cfg) 4096 (R - {(p, len)}) ?s M" using X(2) by (intro ownsI [where Q = X]) simp_all
  moreover have "pools_hold cfg (H\<lparr>kh_pages := ?s\<rparr>) Ms M" using hold by (simp add: pools_hold_def pool_cache_def)
  moreover have "table_ok (H\<lparr>kh_pages := ?s\<rparr>)" "pool_regions cfg (H\<lparr>kh_pages := ?s\<rparr>) = pool_regions cfg H"
    using H by (simp_all add: kmalloc_ok_def table_ok_def pool_regions_def pool_cache_def)
  ultimately show ?thesis using H unfolding kmalloc_ok_def by auto
qed

lemma heap_mem:
  assumes "heap_ok cfg R H Q"
  shows "heap_ok cfg R (H\<lparr>kh_pages := (kh_pages H)\<lparr>pages_mem := m\<rparr>\<rparr>) Q"
  using assms
  by (simp add: kmalloc_ok_def table_ok_def pool_regions_def pool_cache_def pools_hold_def owns_def)

section \<open>The invariant\<close>

abbreviation stack_of :: "sched \<Rightarrow> u32 \<Rightarrow> u32" where
  "stack_of S t \<equiv> stack_base (kt_stack (threads S t))"

definition slots_ok :: "u32 list \<Rightarrow> bool" where
  "slots_ok ts \<longleftrightarrow> length ts = 32 \<and> (\<forall>i < 32. \<forall>j < 32. ts ! i = ts ! j \<longrightarrow> ts ! i \<noteq> 0 \<longrightarrow> i = j)"

definition queue_ok :: "sched \<Rightarrow> u32 set \<Rightarrow> bool" where
  "queue_ok S T \<longleftrightarrow> (\<forall>rq. run_queue S = Some rq \<longrightarrow> slots_ok (kthreads rq) \<and> running rq < 32 \<and>
     (\<forall>t \<in> set (kthreads rq). t \<noteq> 0 \<longrightarrow> t \<in> T \<and> kt_flags (threads S t) AND KTHREAD_JOINABLE = 0))"

text \<open>A stack is inside a block of the page allocator that is handed out.\<close>

definition stack_in :: "region set \<Rightarrow> stack_struct \<Rightarrow> bool" where
  "stack_in R ss \<longleftrightarrow> stack_base ss \<noteq> 0 \<and> (\<exists>l. (stack_base ss, l) \<in> R \<and> unat (stack_size ss) \<le> l)"

text \<open>
  \<open>T\<close> are the threads that exist, \<open>B\<close> those among them whose stack is not a block of the page
  allocator (the boot thread's), \<open>Q\<close> the blocks of \<open>kmalloc\<close> and \<open>R\<close> the other pages in use.
\<close>

definition sched_ok :: "board \<Rightarrow> region set \<Rightarrow> region set \<Rightarrow> u32 set \<Rightarrow> u32 set \<Rightarrow> sched \<Rightarrow> bool" where
  "sched_ok cfg R Q T B S \<longleftrightarrow> heap_ok cfg R (kheap S) Q \<and> queue_ok S T \<and>
     (\<forall>t \<in> T. t \<noteq> 0 \<and> (\<exists>l. (t, l) \<in> Q)) \<and>
     (\<forall>t \<in> T - B. stack_in R (kt_stack (threads S t))) \<and>
     inj_on (stack_of S) (T - B)"

lemma sched_okD:
  assumes "sched_ok cfg R Q T B S"
  shows "heap_ok cfg R (kheap S) Q" and "queue_ok S T" and "t \<in> T \<Longrightarrow> t \<noteq> 0 \<and> (\<exists>l. (t, l) \<in> Q)"
    and "t \<in> T - B \<Longrightarrow> stack_in R (kt_stack (threads S t))" and "inj_on (stack_of S) (T - B)"
  using assms unfolding sched_ok_def by blast+

lemma sched_okI:
  assumes "heap_ok cfg R (kheap S) Q" and "queue_ok S T" and "\<And>t. t \<in> T \<Longrightarrow> t \<noteq> 0 \<and> (\<exists>l. (t, l) \<in> Q)"
    and "\<And>t. t \<in> T - B \<Longrightarrow> stack_in R (kt_stack (threads S t))" and "inj_on (stack_of S) (T - B)"
  shows "sched_ok cfg R Q T B S"
  using assms unfolding sched_ok_def by blast

lemma inj_on_same: "inj_on f A \<Longrightarrow> (\<And>a. a \<in> A \<Longrightarrow> g a = f a) \<Longrightarrow> inj_on g A"
  by (simp add: inj_on_def)

lemma joinable_bits [simp]:
  "((f :: u32) OR KTHREAD_SLEEP_UNTIL_TIME) AND KTHREAD_JOINABLE = f AND KTHREAD_JOINABLE"
  "(f AND NOT KTHREAD_SLEEP_UNTIL_TIME) AND KTHREAD_JOINABLE = f AND KTHREAD_JOINABLE"
  by (simp_all add: KTHREAD_SLEEP_UNTIL_TIME_def KTHREAD_JOINABLE_def)
    (auto intro!: bit_eqI simp: bit_simps)

text \<open>Changes to the state that leave the invariant alone.\<close>

lemma sched_ok_same:
  assumes ok: "sched_ok cfg R Q T B S" and heap: "kheap S' = kheap S"
    and stacks: "\<And>t. kt_stack (threads S' t) = kt_stack (threads S t)"
    and flags: "\<And>t. kt_flags (threads S' t) AND KTHREAD_JOINABLE = kt_flags (threads S t) AND KTHREAD_JOINABLE"
    and queue: "run_queue S' = map_option (\<lambda>rq. rq\<lparr>running := r, sched_time := n\<rparr>) (run_queue S)" and r: "run_queue S \<noteq> None \<Longrightarrow> r < 32"
  shows "sched_ok cfg R Q T B S'"
proof -
  have "queue_ok S' T" using sched_okD(2) [OF ok] queue r flags by (auto simp: queue_ok_def)
  then show ?thesis using ok unfolding sched_ok_def heap by (simp add: stacks cong: inj_on_cong)
qed

section \<open>The operations\<close>

lemma heap_fresh_block:
  assumes "heap_ok cfg R H Q" and "\<forall>r \<in> Q. region_bytes r \<inter> region_bytes (p, len) = {}" and "0 < len" and "(p, l) \<in> Q"
  shows False
proof -
  obtain M Ms where own: "owns (page_regions cfg) 4096 R (kh_pages H) M" and hold: "pools_hold cfg H Ms M"
    using assms(1) by (auto simp: kmalloc_ok_def)
  obtain i mc where i: "i < 7" "pool_cache H i = Some mc" "l = unat (chunk_sz mc)"
    using assms(1, 4) unfolding kmalloc_ok_def pool_regions_def by blast
  then have "0 < l" using hold unfolding pools_hold_def pool_ok_def by (blast intro: geometryD(1) cache_okD(1))
  then show False using assms(2-4) region_start [of l p] region_start [of len p] by blast
qed

lemma queue_ok_cong:
  assumes "queue_ok S T" and "run_queue S' = run_queue S" and "T \<subseteq> T'"
    and "\<And>t. t \<in> T \<Longrightarrow> kt_flags (threads S' t) AND KTHREAD_JOINABLE = kt_flags (threads S t) AND KTHREAD_JOINABLE"
  shows "queue_ok S' T'"
  unfolding queue_ok_def
proof (intro allI impI)
  fix rq assume "run_queue S' = Some rq"
  then have rq: "run_queue S = Some rq" using assms(2) by simp
  have "t \<in> T' \<and> kt_flags (threads S' t) AND KTHREAD_JOINABLE = 0" if "t \<in> set (kthreads rq)" "t \<noteq> 0" for t
  proof -
    have "t \<in> T" "kt_flags (threads S t) AND KTHREAD_JOINABLE = 0" using assms(1) rq that unfolding queue_ok_def by blast+
    then show ?thesis using assms(3, 4) by auto
  qed
  then show "slots_ok (kthreads rq) \<and> running rq < 32 \<and>
      (\<forall>t \<in> set (kthreads rq). t \<noteq> 0 \<longrightarrow> t \<in> T' \<and> kt_flags (threads S' t) AND KTHREAD_JOINABLE = 0)"
    using assms(1) rq unfolding queue_ok_def by blast
qed

lemma kmalloc_kthread_ok:
  assumes ok: "sched_ok cfg R Q T B S"
  obtains p S' Q' where "kmalloc_kthread cfg S = Inr (p, S')" and "run_queue S' = run_queue S"
    and "\<forall>u \<in> T. threads S' u = threads S u"
    and "p = 0 \<Longrightarrow> sched_ok cfg R Q T B S'"
    and "p \<noteq> 0 \<Longrightarrow> sched_ok cfg R Q' T B S' \<and> p \<notin> T \<and> threads S' p = zero_kthread \<and>
      (\<exists>l. (p, l) \<notin> Q \<and> Q' = insert (p, l) Q)"
proof -
  let ?k = "kmalloc cfg (get_free_pages cfg) (free_pages2 cfg) clear_pages sizeof_kthread (GFP_KERNEL OR GFP_ZERO) (kheap S)"
  note H = sched_okD(1) [OF ok]
  obtain p H' where k: "?k = Inr (p, H')" and none: "p = 0 \<Longrightarrow> heap_ok cfg R H' Q"
    and some: "p \<noteq> 0 \<Longrightarrow> \<exists>len. 0 < len \<and> unat sizeof_kthread \<le> len \<and>
      (\<forall>r \<in> Q. region_bytes r \<inter> region_bytes (p, len) = {}) \<and> heap_ok cfg R H' (insert (p, len) Q)"
    using cpg.kmalloc_step [OF heap_page_size [OF H] TrueI H] by metis
  let ?S = "S\<lparr>kheap := H', threads := if p = 0 then threads S else (threads S)(p := zero_kthread)\<rparr>"
  have run: "kmalloc_kthread cfg S = Inr (p, ?S)" by (simp add: kmalloc_kthread_def k)
  show thesis
  proof (cases "p = 0")
    case True
    then have "sched_ok cfg R Q T B ?S" using ok none by (simp add: sched_ok_def queue_ok_def)
    then show thesis using run True by (intro that [of p ?S Q]) simp_all
  next
    case False
    then obtain len where len: "0 < len" "\<forall>r \<in> Q. region_bytes r \<inter> region_bytes (p, len) = {}"
      "heap_ok cfg R H' (insert (p, len) Q)" using some by blast
    have new: "(p, l) \<notin> Q" for l using heap_fresh_block [OF H len(2, 1)] by blast
    then have pT: "p \<notin> T" using sched_okD(3) [OF ok] by blast
    have same: "threads ?S t = threads S t" if "t \<in> T" for t using that pT False by auto
    then have stacks: "kt_stack (threads ?S t) = kt_stack (threads S t)" if "t \<in> T" for t using that by simp
    have same': "\<forall>u \<in> T. threads ?S u = threads S u" using same by blast
    have "queue_ok ?S T" by (rule queue_ok_cong [OF sched_okD(2) [OF ok]]) (use same in simp_all)
    moreover have "\<forall>t \<in> T - B. stack_in R (kt_stack (threads ?S t))"
      using sched_okD(4) [OF ok] stacks by simp
    moreover have "inj_on (stack_of ?S) (T - B)"
      by (rule inj_on_same [OF sched_okD(5) [OF ok]]) (use stacks in simp)
    ultimately have "sched_ok cfg R (insert (p, len) Q) T B ?S"
      using len(3) sched_okD(3) [OF ok] unfolding sched_ok_def by auto
    then show thesis using run False new pT same' by (intro that [of p ?S "insert (p, len) Q"]) auto
  qed
qed

lemma kfree_block:
  assumes H: "heap_ok cfg R H Q" and a: "(a, l) \<in> Q"
  shows "heap_ok cfg R (snd (kfree cfg (free_pages2 cfg) a H)) (Q - {(a, l)})"
  using km.free_region [OF H a] by (simp add: kmalloc_put_def)

text \<open>Freeing a thread that is not in the run queue.\<close>

lemma free_kthread_ok:
  assumes ok: "sched_ok cfg R Q T B S" and t: "t \<in> T - B" and off_queue: "\<And>rq. run_queue S = Some rq \<Longrightarrow> t \<notin> set (kthreads rq)"
  shows "\<exists>R' Q'. sched_ok cfg R' Q' (T - {t}) B (free_kthread cfg t S)"
proof -
  let ?b = "stack_of S t" and ?S1 = "free_kthread_stack cfg t S"
  have t0: "t \<noteq> 0" using sched_okD(3) [OF ok] t by blast
  obtain l where l: "(?b, l) \<in> R" and b: "?b \<noteq> 0" using sched_okD(4) [OF ok t] unfolding stack_in_def by blast
  obtain k where k: "(t, k) \<in> Q" using sched_okD(3) [OF ok] t by blast
  have S1: "kheap ?S1 = (kheap S)\<lparr>kh_pages := free_pages2 cfg ?b (kh_pages (kheap S))\<rparr>"
    "threads ?S1 = (threads S)(t := (threads S t)\<lparr>kt_stack := \<lparr>stack_base = 0, stack_size = 0\<rparr>\<rparr>)" "run_queue ?S1 = run_queue S"
    using t0 b by (simp_all add: free_kthread_stack_def stack_free_def free_pages_def)
  have H1: "heap_ok cfg (R - {(?b, l)}) (kheap ?S1) Q" unfolding S1 using heap_others_freed [OF sched_okD(1) [OF ok] l] .
  let ?S2 = "free_kthread cfg t S"
  have S2: "kheap ?S2 = snd (kfree cfg (free_pages2 cfg) t (kheap ?S1))" "threads ?S2 = threads ?S1" "run_queue ?S2 = run_queue S"
    using t0 S1(3) by (simp_all add: free_kthread_def Let_def)
  have H2: "heap_ok cfg (R - {(?b, l)}) (kheap ?S2) (Q - {(t, k)})" unfolding S2 by (rule kfree_block [OF H1 k])
  have same: "threads ?S2 u = threads S u" if "u \<noteq> t" for u using that by (simp add: S2 S1)
  have "queue_ok ?S2 (T - {t})"
    unfolding queue_ok_def S2(3)
  proof (intro allI impI)
    fix rq assume rq: "run_queue S = Some rq"
    have "u \<in> T - {t} \<and> kt_flags (threads ?S2 u) AND KTHREAD_JOINABLE = 0" if "u \<in> set (kthreads rq)" "u \<noteq> 0" for u
    proof -
      have "u \<noteq> t" using off_queue [OF rq] that(1) by blast
      moreover have "u \<in> T" "kt_flags (threads S u) AND KTHREAD_JOINABLE = 0"
        using sched_okD(2) [OF ok] rq that unfolding queue_ok_def by blast+
      ultimately show ?thesis using same by simp
    qed
    then have *: "\<forall>u \<in> set (kthreads rq). u \<noteq> 0 \<longrightarrow> u \<in> T - {t} \<and> kt_flags (threads ?S2 u) AND KTHREAD_JOINABLE = 0" by simp
    have "slots_ok (kthreads rq) \<and> running rq < 32"
      using sched_okD(2) [OF ok] rq unfolding queue_ok_def by blast
    with * show "slots_ok (kthreads rq) \<and> running rq < 32 \<and>
        (\<forall>u \<in> set (kthreads rq). u \<noteq> 0 \<longrightarrow> u \<in> T - {t} \<and> kt_flags (threads ?S2 u) AND KTHREAD_JOINABLE = 0)"
      by (intro conjI) simp_all
  qed
  moreover have "u \<noteq> 0 \<and> (\<exists>k'. (u, k') \<in> Q - {(t, k)})" if "u \<in> T - {t}" for u
    using sched_okD(3) [OF ok, of u] that by blast
  moreover have "stack_in (R - {(?b, l)}) (kt_stack (threads ?S2 u))" if u: "u \<in> T - {t} - B" for u
  proof -
    have "stack_of S u \<noteq> ?b" using sched_okD(5) [OF ok] u t unfolding inj_on_def by blast
    moreover have "stack_in R (kt_stack (threads S u))" using sched_okD(4) [OF ok, of u] u by blast
    moreover have "threads ?S2 u = threads S u" using same [of u] u by blast
    ultimately show ?thesis by (auto simp: stack_in_def)
  qed
  moreover have "inj_on (stack_of ?S2) (T - {t} - B)"
  proof -
    have "inj_on (stack_of S) (T - {t} - B)" using sched_okD(5) [OF ok] by (rule inj_on_subset) blast
    then show ?thesis by (rule inj_on_same) (use same in simp)
  qed
  ultimately have "sched_ok cfg (R - {(?b, l)}) (Q - {(t, k)}) (T - {t}) B ?S2"
    using H2 by (intro sched_okI)
  then show ?thesis by (intro exI)
qed

text \<open>Freeing a thread that never got a stack.\<close>

lemma free_unstacked_ok:
  assumes ok: "sched_ok cfg R (insert (t, k) Q) T B S" and new: "(t, k) \<notin> Q" "t \<notin> T" and t0: "t \<noteq> 0"
    and T: "\<forall>u \<in> T. \<exists>l. (u, l) \<in> Q" and b: "stack_of S t = 0"
  shows "sched_ok cfg R Q T B (free_kthread cfg t S)"
proof -
  let ?S2 = "free_kthread cfg t S"
  have S2: "kheap ?S2 = snd (kfree cfg (free_pages2 cfg) t (kheap S))" "run_queue ?S2 = run_queue S" "threads ?S2 = threads S"
    using t0 b by (simp_all add: free_kthread_def free_kthread_stack_def stack_free_def fun_upd_idem)
  have "insert (t, k) Q - {(t, k)} = Q" using new by blast
  then have "heap_ok cfg R (kheap ?S2) Q" unfolding S2 using kfree_block [OF sched_okD(1) [OF ok], of t k] by simp
  moreover have "queue_ok ?S2 T" using sched_okD(2) [OF ok] by (rule queue_ok_cong) (simp_all add: S2)
  moreover have "\<forall>u \<in> T. u \<noteq> 0 \<and> (\<exists>l. (u, l) \<in> Q)" using sched_okD(3) [OF ok] T by simp
  moreover have "\<forall>u \<in> T - B. stack_in R (kt_stack (threads ?S2 u))" using sched_okD(4) [OF ok] by (simp add: S2)
  moreover have "inj_on (stack_of ?S2) (T - B)" using sched_okD(5) [OF ok] by (simp add: S2)
  ultimately show ?thesis unfolding sched_ok_def by (intro conjI)
qed

lemma stack_alloc_heap:
  assumes H: "heap_ok cfg R H Q" and a: "stack_alloc cfg sz gf (kh_pages H) = (ok, ss, s)"
  shows "if ok then stack_base ss \<noteq> 0 \<and> (\<exists>l. heap_ok cfg (insert (stack_base ss, l) R) (H\<lparr>kh_pages := s\<rparr>) Q \<and>
      0 < l \<and> (\<forall>r \<in> R. region_bytes r \<inter> region_bytes (stack_base ss, l) = {}) \<and> unat (stack_size ss) \<le> l)
    else stack_base ss = 0 \<and> heap_ok cfg R (H\<lparr>kh_pages := s\<rparr>) Q"
proof -
  let ?n = "stack_pages cfg sz"
  obtain s1 where g: "get_free_pages cfg ?n gf (kh_pages H) = (stack_base ss, s1)" and k: "ok = (stack_base ss \<noteq> 0)"
    and s: "s = s1\<lparr>pages_mem := fill_stack ss (pages_mem s1)\<rparr>" and sz: "stack_size ss = ?n * PAGE_SIZE cfg"
    using a by (auto simp: stack_alloc_def Let_def split: prod.splits)
  have upd: "heap_ok cfg R' (H\<lparr>kh_pages := s\<rparr>) Q" if "heap_ok cfg R' (H\<lparr>kh_pages := s1\<rparr>) Q" for R'
    using heap_mem [OF that, of "fill_stack ss (pages_mem s1)"] by (simp add: s)
  show ?thesis
  proof (cases "stack_base ss = 0")
    case True
    obtain M Ms where own: "owns (page_regions cfg) 4096 R (kh_pages H) M" and hold: "pools_hold cfg H Ms M"
      using H by (auto simp: kmalloc_ok_def)
    have g0: "get_free_pages cfg ?n gf (kh_pages H) = (0, s1)" using g unfolding True .
    have e: "4096 = unat (PAGE_SIZE cfg)" using heap_page_size [OF H] by simp
    have "owns (page_regions cfg) 4096 R s1 M" using own unfolding e by (rule pg.owns_failed [OF _ g0])
    moreover have "pools_hold cfg (H\<lparr>kh_pages := s1\<rparr>) Ms M" using hold by (simp add: pools_hold_def pool_cache_def)
    moreover have "table_ok (H\<lparr>kh_pages := s1\<rparr>)" "pool_regions cfg (H\<lparr>kh_pages := s1\<rparr>) = pool_regions cfg H"
      using H by (simp_all add: kmalloc_ok_def table_ok_def pool_regions_def pool_cache_def)
    ultimately have "heap_ok cfg R (H\<lparr>kh_pages := s1\<rparr>) Q" using H unfolding kmalloc_ok_def by auto
    then show ?thesis using True k upd by simp
  next
    case False
    obtain len where "0 < len" "heap_ok cfg (insert (stack_base ss, len) R) (H\<lparr>kh_pages := s1\<rparr>) Q"
      "\<forall>r \<in> R. region_bytes r \<inter> region_bytes (stack_base ss, len) = {}" "unat ?n * unat (PAGE_SIZE cfg) \<le> len"
      using heap_others_got [OF H g False] by metis
    moreover from this(4) have "unat (stack_size ss) \<le> len" unfolding sz by (rule order_trans [rotated]) (simp add: unat_word_ariths)
    moreover from calculation(2) have "heap_ok cfg (insert (stack_base ss, len) R) (H\<lparr>kh_pages := s\<rparr>) Q" by (rule upd)
    ultimately show ?thesis using False k by (simp only: if_True simp_thms not_False_eq_True) blast
  qed
qed

text \<open>A thread that has just got its stack joins the threads that exist.\<close>

lemma heap_region_pos:
  assumes "heap_ok cfg R H Q" and "(b, l) \<in> R"
  shows "0 < l"
proof -
  obtain M where own: "owns (page_regions cfg) 4096 R (kh_pages H) M" using assms(1) by (auto simp: kmalloc_ok_def)
  obtain X where "page_regions cfg (kh_pages H) (R \<union> X)" using own by (rule ownsE)
  then obtain live where live: "pages_inv cfg (kh_pages H) live" "R \<union> X = block_region cfg (kh_pages H) ` live"
    by (auto simp: page_regions_def)
  have "(b, l) \<in> block_region cfg (kh_pages H) ` live" using assms(2) live(2) by blast
  then show ?thesis using live(1) by (auto simp: block_region_def pages_inv_def)
qed

lemma new_thread_ok:
  assumes ok: "sched_ok cfg R Q T B S" and p: "p \<notin> T" "p \<noteq> 0" "(p, l) \<in> Q"
    and H: "heap_ok cfg (insert (b, len) R) (kheap S') Q" "b \<noteq> 0" "0 < len" "\<forall>r \<in> R. region_bytes r \<inter> region_bytes (b, len) = {}"
    and S': "run_queue S' = run_queue S" "\<And>u. u \<in> T \<Longrightarrow> threads S' u = threads S u" "stack_of S' p = b" "unat (stack_size (kt_stack (threads S' p))) \<le> len"
  shows "sched_ok cfg (insert (b, len) R) Q (insert p T) B S'"
proof (rule sched_okI [OF H(1)])
  show "queue_ok S' (insert p T)"
    by (rule queue_ok_cong [OF sched_okD(2) [OF ok] S'(1)]) (auto simp: S'(2))
  show "u \<noteq> 0 \<and> (\<exists>l. (u, l) \<in> Q)" if "u \<in> insert p T" for u
    using that sched_okD(3) [OF ok, of u] p(2, 3) by blast
  have old: "stack_of S' u = stack_of S u" "stack_of S u \<noteq> b" "stack_in (insert (b, len) R) (kt_stack (threads S' u))" if u: "u \<in> T - B" for u
  proof -
    show "stack_of S' u = stack_of S u" using S'(2) u by simp
    have has: "stack_in R (kt_stack (threads S u))" by (rule sched_okD(4) [OF ok u])
    then show "stack_in (insert (b, len) R) (kt_stack (threads S' u))" using S'(2) u by (auto simp: stack_in_def)
    show "stack_of S u \<noteq> b"
    proof
      assume e: "stack_of S u = b"
      obtain l' where l': "(b, l') \<in> R" using has e by (auto simp: stack_in_def)
      then have "0 < l'" by (rule heap_region_pos [OF sched_okD(1) [OF ok]])
      then show False using H(3, 4) l' region_start [of l' b] region_start [of len b] by blast
    qed
  qed
  show "stack_in (insert (b, len) R) (kt_stack (threads S' u))" if u: "u \<in> insert p T - B" for u
  proof (cases "u = p")
    case True
    then show ?thesis using S'(3, 4) H(2) by (auto simp: stack_in_def)
  next
    case False
    then have "u \<in> T - B" using u by blast
    then show ?thesis by (rule old(3))
  qed
  show "inj_on (stack_of S') (insert p T - B)"
  proof (cases "p \<in> B")
    case True
    then have "insert p T - B = T - B" by blast
    then show ?thesis using inj_on_same [OF sched_okD(5) [OF ok] old(1)] by simp
  next
    case False
    have "stack_of S' p \<notin> stack_of S' ` (T - B)" using old(1, 2) S'(3) by (metis (no_types, lifting) imageE)
    then show ?thesis using inj_on_same [OF sched_okD(5) [OF ok] old(1)] p(1) False by (simp add: insert_Diff_if)
  qed
qed

lemma create0_ok:
  assumes ok: "sched_ok cfg R Q T B S"
  obtains e t S' R' Q' where "kthread_create0 cfg fin gf start args S = Inr (e, t, S')" and "run_queue S' = run_queue S"
    and "\<forall>u \<in> T. threads S' u = threads S u"
    and "sched_ok cfg R' Q' (if e = 0 \<and> t \<noteq> 0 then insert t T else T) B S'"
    and "e = 0 \<and> t \<noteq> 0 \<Longrightarrow> t \<notin> T \<and> kt_flags (threads S' t) = 0" and "e \<noteq> 0 \<Longrightarrow> e = -1 \<and> t = 0"
proof -
  obtain p S1 Q1 where k: "kmalloc_kthread cfg S = Inr (p, S1)" "run_queue S1 = run_queue S" "\<forall>u \<in> T. threads S1 u = threads S u"
    and none: "p = 0 \<Longrightarrow> sched_ok cfg R Q T B S1"
    and some: "p \<noteq> 0 \<Longrightarrow> sched_ok cfg R Q1 T B S1 \<and> p \<notin> T \<and> threads S1 p = zero_kthread \<and> (\<exists>l. (p, l) \<notin> Q \<and> Q1 = insert (p, l) Q)"
    using kmalloc_kthread_ok [OF ok] by metis
  show thesis
  proof (cases "p = 0")
    case True
    then have "kthread_create0 cfg fin gf start args S = Inr (0, p, S1)" using k(1) by (simp add: kthread_create0_def)
    then show thesis using True none k(2, 3) by (intro that [of 0 p S1 R Q]) simp_all
  next
    case False
    note s1 = some [OF False]
    then have ok1: "sched_ok cfg R Q1 T B S1" and pT: "p \<notin> T" and z: "threads S1 p = zero_kthread" by blast+
    obtain l where l: "(p, l) \<notin> Q" "Q1 = insert (p, l) Q" using s1 by blast
    obtain okk ss s where a: "stack_alloc cfg 1024 gf (kh_pages (kheap S1)) = (okk, ss, s)" by (metis prod_cases3)
    note H = stack_alloc_heap [OF sched_okD(1) [OF ok1] a]
    let ?S2 = "S1\<lparr>threads := (threads S1)(p := (threads S1 p)\<lparr>kt_stack := ss\<rparr>), kheap := (kheap S1)\<lparr>kh_pages := s\<rparr>\<rparr>"
    have same: "threads ?S2 u = threads S1 u" if "u \<in> T" for u using that pT by auto
    have q2: "queue_ok ?S2 T" by (rule queue_ok_cong [OF sched_okD(2) [OF ok1]]) (use same in simp_all)
    have inj2: "inj_on (stack_of ?S2) (T - B)"
      by (rule inj_on_same [OF sched_okD(5) [OF ok1]]) (use same in simp)
    have st2: "stack_in R (kt_stack (threads ?S2 u))" if "u \<in> T - B" for u
      using sched_okD(4) [OF ok1 that] same [of u] that by simp
    show thesis
    proof (cases okk)
      case no: False
      have ok2: "sched_ok cfg R (insert (p, l) Q) T B ?S2"
        using H no q2 inj2 st2 sched_okD(3) [OF ok1] unfolding sched_ok_def l(2) by auto
      have T: "\<forall>u \<in> T. \<exists>l. (u, l) \<in> Q" using sched_okD(3) [OF ok] by blast
      have f: "sched_ok cfg R Q T B (free_kthread cfg p ?S2)"
        by (rule free_unstacked_ok [OF ok2 l(1) pT False T]) (use H no in simp)
      have r: "run_queue (free_kthread cfg p ?S2) = run_queue S"
        using k(2) H no by (simp add: free_kthread_def free_kthread_stack_def stack_free_def Let_def)
      have "kthread_create0 cfg fin gf start args S = Inr (-1, 0, free_kthread cfg p ?S2)"
        using k(1) False a no by (simp add: kthread_create0_def Let_def)
      moreover have "\<forall>u \<in> T. threads (free_kthread cfg p ?S2) u = threads S u" using k(3) pT H no False
        by (auto simp: free_kthread_def free_kthread_stack_def stack_free_def Let_def)
      ultimately show thesis using f r by (intro that [of "-1" 0 "free_kthread cfg p ?S2" R Q]) simp_all
    next
      case yes: True
      then obtain len where len: "heap_ok cfg (insert (stack_base ss, len) R) ((kheap S1)\<lparr>kh_pages := s\<rparr>) Q1" "stack_base ss \<noteq> 0"
        "0 < len" "\<forall>r \<in> R. region_bytes r \<inter> region_bytes (stack_base ss, len) = {}" "unat (stack_size ss) \<le> len" using H by auto
      let ?S3 = "?S2\<lparr>threads := (threads ?S2)(p := (threads ?S2 p)\<lparr>cpu_state :=
        cpu_state_build (cpu_state (threads ?S2 p)) start args (stack_top ss) fin\<rparr>)\<rparr>"
      have c: "kthread_create0 cfg fin gf start args S = Inr (0, p, ?S3)"
        using k(1) False a yes by (simp add: kthread_create0_def Let_def)
      have mine: "stack_of ?S3 p = stack_base ss" "kt_flags (threads ?S3 p) = 0" "unat (stack_size (kt_stack (threads ?S3 p))) \<le> len"
        using z len(5) by (simp_all add: zero_kthread_def)
      have pl: "(p, l) \<in> Q1" using l(2) by simp
      have H3: "heap_ok cfg (insert (stack_base ss, len) R) (kheap ?S3) Q1" using len(1) by simp
      have rest: "run_queue ?S3 = run_queue S1" "threads ?S3 u = threads S1 u" if "u \<in> T" for u using that pT by auto
      have r3: "run_queue ?S3 = run_queue S1" by simp
      have "sched_ok cfg (insert (stack_base ss, len) R) Q1 (insert p T) B ?S3"
        by (rule new_thread_ok [OF ok1 pT False pl H3 len(2-4) r3 rest(2) mine(1, 3)])
      moreover have "\<forall>u \<in> T. threads ?S3 u = threads S u" using rest(2) k(3) by simp
      ultimately show thesis using c k(2) pT mine(2) False by (intro that [of 0 p ?S3 "insert (stack_base ss, len) R" Q1]) simp_all
    qed
  qed
qed

end
