(* ===== verification/Sched_Run.thy ===== *)
theory Sched_Run
  imports Sched_Inv
begin

text \<open>
  The whole life of the scheduler: from \<open>kthread_init\<close>, through any sequence of threads created,
  switched, put to sleep, ended and joined, and of other blocks allocated and freed.
\<close>

section \<open>The run queue\<close>

lemma find_slot:
  assumes "find P [0..<32] = Some i"
  shows "i < 32" and "P i"
  using assms by (auto simp: find_Some_iff)

lemma queue_okD:
  assumes "queue_ok S T" and "run_queue S = Some rq"
  shows "slots_ok (kthreads rq)" and "running rq < 32"
    and "t \<in> set (kthreads rq) \<Longrightarrow> t \<noteq> 0 \<Longrightarrow> t \<in> T \<and> kt_flags (threads S t) AND KTHREAD_JOINABLE = 0"
  using assms unfolding queue_ok_def by blast+

lemma slots_set: "slots_ok ts \<Longrightarrow> i < 32 \<Longrightarrow> ts ! i \<in> set ts"
  by (simp add: slots_ok_def)

lemma slots_okD: "slots_ok ts \<Longrightarrow> i < 32 \<Longrightarrow> j < 32 \<Longrightarrow> ts ! i = ts ! j \<Longrightarrow> ts ! i \<noteq> 0 \<Longrightarrow> i = j"
  unfolding slots_ok_def by blast

lemma slots_add:
  assumes "slots_ok ts" and "i < 32" and "t \<notin> set ts"
  shows "slots_ok (ts[i := t])"
proof -
  have len: "length ts = 32" using assms(1) by (simp add: slots_ok_def)
  have "k = j" if "k < 32" "j < 32" "ts[i := t] ! k = ts[i := t] ! j" "ts[i := t] ! k \<noteq> 0" for k j
    using that assms(2, 3) len slots_okD [OF assms(1), of k j] slots_set [OF assms(1), of k] slots_set [OF assms(1), of j]
    by (auto simp: nth_list_update split: if_splits)
  then show ?thesis using len by (simp add: slots_ok_def)
qed

lemma slots_remove: "slots_ok ts \<Longrightarrow> slots_ok (ts[i := 0])"
  unfolding slots_ok_def by (cases "i < length ts") (auto simp: nth_list_update)

lemma slots_removed:
  assumes "slots_ok ts" and "i < 32" and "ts ! i \<noteq> 0"
  shows "ts ! i \<notin> set (ts[i := 0])"
proof
  assume "ts ! i \<in> set (ts[i := 0])"
  then obtain j where "j < 32" "ts[i := 0] ! j = ts ! i" using assms(1) by (auto simp: in_set_conv_nth slots_ok_def)
  then show False using assms slots_okD [OF assms(1), of i j] by (cases "i = j") (auto simp: slots_ok_def)
qed

section \<open>Creating a thread\<close>

lemma add_thread_ok:
  assumes ok: "sched_ok cfg R Q T B S" and t: "t \<in> T" "kt_flags (threads S t) AND KTHREAD_JOINABLE = 0"
    and new: "run_queue S = Some rq" "t \<notin> set (kthreads rq)" and i: "i < 32"
  shows "sched_ok cfg R Q T B (S\<lparr>run_queue := Some (rq\<lparr>kthreads := (kthreads rq)[i := t]\<rparr>)\<rparr>)"
proof (rule sched_okI)
  note q = queue_okD [OF sched_okD(2) [OF ok] new(1)]
  have "set ((kthreads rq)[i := t]) \<subseteq> insert t (set (kthreads rq))" by (rule set_update_subset_insert)
  then have "u \<in> T \<and> kt_flags (threads S u) AND KTHREAD_JOINABLE = 0" if "u \<in> set ((kthreads rq)[i := t])" "u \<noteq> 0" for u
    using that q(3) [of u] t by blast
  then show "queue_ok (S\<lparr>run_queue := Some (rq\<lparr>kthreads := (kthreads rq)[i := t]\<rparr>)\<rparr>) T"
    using slots_add [OF q(1) i new(2)] q(2) by (simp add: queue_ok_def)
qed (use sched_okD [OF ok] in simp_all)

lemma kthread_create_ok:
  assumes ok: "sched_ok cfg R Q T B S" and B: "B \<subseteq> T"
  obtains e t S' R' Q' where "kthread_create cfg fin gf start args S = Inr (e, t, S')"
    and "sched_ok cfg R' Q' (if e = 0 \<and> t \<noteq> 0 then insert t T else T) B S'"
proof -
  obtain e t S1 R1 Q1 where c: "kthread_create0 cfg fin gf start args S = Inr (e, t, S1)" and rq: "run_queue S1 = run_queue S"
    and ok1: "sched_ok cfg R1 Q1 (if e = 0 \<and> t \<noteq> 0 then insert t T else T) B S1"
    and new: "e = 0 \<and> t \<noteq> 0 \<Longrightarrow> t \<notin> T \<and> kt_flags (threads S1 t) = 0"
    using create0_ok [OF ok] by metis
  show thesis
  proof (cases "e = 0")
    case False
    then have "kthread_create cfg fin gf start args S = Inr (-1, t, S1)" by (simp add: kthread_create_def c)
    then show thesis using ok1 False by (intro that [of "-1" t S1 R1 Q1]) simp_all
  next
    case e: True
    obtain rqa rq' where a: "run_queue_add t (run_queue S1) = (rqa, rq')" by (metis surj_pair)
    let ?S2 = "S1\<lparr>run_queue := rq'\<rparr>"
    have absent: "t \<notin> set (kthreads q)" if "run_queue S1 = Some q" "t \<noteq> 0" for q
      using queue_okD(3) [OF sched_okD(2) [OF ok], of q t] that rq new e by auto
    consider (full) "rqa \<noteq> 0" "rq' = run_queue S1"
      | (slot) q i where "rqa = 0" "run_queue S1 = Some q" "i < 32" "kthreads q ! i = 0" "rq' = Some (q\<lparr>kthreads := (kthreads q)[i := t]\<rparr>)"
      using a find_slot [of "\<lambda>i. kthreads (the (run_queue S1)) ! i = 0"]
      by (auto simp: run_queue_add_def split: option.splits)
    then show thesis
    proof cases
      case full
      have r: "kthread_create cfg fin gf start args S = Inr (-1, 0, free_kthread cfg t S1)"
        using e full by (simp add: kthread_create_def c a)
      show thesis
      proof (cases "t = 0")
        case True
        then show thesis using r ok1 by (intro that [of "-1" 0 S1 R1 Q1]) (simp_all add: free_kthread_def)
      next
        case False
        have ok1': "sched_ok cfg R1 Q1 (insert t T) B S1" using ok1 e False by simp
        have t: "t \<in> insert t T - B" using new e False B by blast
        obtain R' Q' where f: "sched_ok cfg R' Q' (insert t T - {t}) B (free_kthread cfg t S1)"
          using free_kthread_ok [OF ok1' t] absent False by metis
        have "insert t T - {t} = T" using new e False by simp
        then show thesis using f r by (intro that [of "-1" 0 "free_kthread cfg t S1" R' Q']) simp_all
      qed
    next
      case slot
      have r: "kthread_create cfg fin gf start args S = Inr (0, t, ?S2)"
        using e slot(1) by (simp add: kthread_create_def c a)
      show thesis
      proof (cases "t = 0")
        case True
        have same: "?S2 = S1" using slot(2, 4, 5) True by (metis list_update_id run_queue_struct.surjective
          run_queue_struct.update_convs(1) sched.surjective sched.update_convs(1) sched.select_convs(1))
        then show thesis using r ok1 True by (intro that [of 0 t S1 R1 Q1]) simp_all
      next
        case False
        have ok1': "sched_ok cfg R1 Q1 (insert t T) B S1" using ok1 e False by simp
        have "sched_ok cfg R1 Q1 (insert t T) B ?S2" unfolding slot(5)
          by (rule add_thread_ok [OF ok1' insertI1 _ slot(2) absent [OF slot(2) False] slot(3)]) (use new e False in simp)
        then show thesis using r False by (intro that [of 0 t ?S2 R1 Q1]) simp_all
      qed
    qed
  qed
qed

section \<open>Ending a thread\<close>

lemma exited_cases:
  assumes "exited_kthread S = Inr S'"
  obtains rq where "run_queue S = Some rq" and "running rq \<noteq> 0" and "kthreads rq ! running rq = 0" and "S' = S"
  | rq where "run_queue S = Some rq" and "running rq \<noteq> 0" and "kthreads rq ! running rq \<noteq> 0"
    and "S' = S\<lparr>run_queue := Some (snd (run_queue_remove (kthreads rq ! running rq) rq)),
      threads := (threads S)(kthreads rq ! running rq := (threads S (kthreads rq ! running rq))\<lparr>kt_flags :=
        kt_flags (threads S (kthreads rq ! running rq)) OR KTHREAD_JOINABLE\<rparr>)\<rparr>"
  using assms by (auto simp: exited_kthread_def run_queue_current_def Let_def split: option.splits if_splits)

lemma remove_running:
  assumes "slots_ok (kthreads rq)" and "running rq < 32" and "kthreads rq ! running rq \<noteq> 0"
  shows "run_queue_remove (kthreads rq ! running rq) rq = (0, rq\<lparr>kthreads := (kthreads rq)[running rq := 0]\<rparr>)"
proof -
  let ?P = "\<lambda>i. kthreads rq ! i = kthreads rq ! running rq"
  have "running rq \<in> set [0..<32]" using assms(2) by simp
  then have "find ?P [0..<32] \<noteq> None" unfolding find_None_iff by blast
  then obtain i where i: "find ?P [0..<32] = Some i" by blast
  have "i = running rq" using find_slot [OF i] slots_okD [OF assms(1), of i "running rq"] assms(2, 3) by simp
  then show ?thesis using i by (simp add: run_queue_remove_def)
qed

lemma exited_kthread_ok:
  assumes ok: "sched_ok cfg R Q T B S" and ex: "exited_kthread S = Inr S'"
  shows "sched_ok cfg R Q T B S'"
  using ex
proof (cases rule: exited_cases)
  case (2 rq)
  let ?c = "kthreads rq ! running rq"
  note q = queue_okD [OF sched_okD(2) [OF ok] 2(1)]
  have gone: "?c \<notin> set ((kthreads rq)[running rq := 0])" by (rule slots_removed [OF q(1, 2) 2(3)])
  have other: "t \<in> T \<and> kt_flags (threads S' t) AND KTHREAD_JOINABLE = 0"
    if t: "t \<in> set ((kthreads rq)[running rq := 0])" "t \<noteq> 0" for t
  proof -
    have "t \<in> set (kthreads rq)" using t set_update_subset_insert [of "kthreads rq" "running rq" 0] by blast
    moreover have "t \<noteq> ?c" using gone t by blast
    ultimately show ?thesis using q(3) [of t] t by (simp add: 2(4))
  qed
  have run: "run_queue S' = Some (rq\<lparr>kthreads := (kthreads rq)[running rq := 0]\<rparr>)"
    using remove_running [OF q(1, 2) 2(3)] by (simp add: 2(4))
  have stacks: "kt_stack (threads S' t) = kt_stack (threads S t)" for t by (simp add: 2(4))
  show ?thesis
  proof (rule sched_okI)
    show "queue_ok S' T" using slots_remove [OF q(1), of "running rq"] q(2) other by (simp add: queue_ok_def run)
    show "heap_ok cfg R (kheap S') Q" using sched_okD(1) [OF ok] by (simp add: 2(4))
  qed (use sched_okD(3-5) [OF ok] stacks in simp_all)
qed (use ok in simp)

lemma kthread_join_ok:
  assumes ok: "sched_ok cfg R Q T B S" and t: "t \<in> T - B" and j: "kthread_join cfg t S = Some S'"
  obtains R' Q' where "sched_ok cfg R' Q' (T - {t}) B S'"
proof -
  have "t \<noteq> 0" using sched_okD(3) [OF ok] t by blast
  then have f: "kt_flags (threads S t) AND KTHREAD_JOINABLE \<noteq> 0" "S' = free_kthread cfg t S"
    using j by (simp_all add: kthread_join_def split: if_splits)
  have "t \<notin> set (kthreads rq)" if "run_queue S = Some rq" for rq
    using queue_okD(3) [OF sched_okD(2) [OF ok] that, of t] f(1) \<open>t \<noteq> 0\<close> by blast
  then show thesis using free_kthread_ok [OF ok t] that unfolding f(2) by blast
qed

section \<open>Switching and sleeping\<close>

lemma next_keeps:
  assumes "run_queue_next rq ths = Some (Inr (th, rq', ths'))" and "running rq < 32"
  shows "running rq' < 32" and "rq' = rq\<lparr>running := running rq'\<rparr>" and "kt_stack (ths' t) = kt_stack (ths t)"
    and "kt_flags (ths' t) AND KTHREAD_JOINABLE = kt_flags (ths t) AND KTHREAD_JOINABLE"
  using assms(1) run_queue_next_search [OF assms(2), of ths]
  by (auto simp: next_answer_def is_runnable_ready Let_def split: option.splits if_splits)

lemma switch_ok:
  assumes ok: "sched_ok cfg R Q T B S" and sw: "arch_irq_task_switch tick e cpu S = Some (Inr (cpu', S'))"
  shows "sched_ok cfg R Q T B S'"
proof (cases "run_queue S")
  case None
  then show ?thesis using ok sw by (simp add: arch_irq_task_switch_def)
next
  case (Some rq)
  obtain err now st where g: "get_system_time tick (sys_time S) = (err, now, st)" by (metis prod_cases3)
  define rq1 where "rq1 = (case now of None \<Rightarrow> rq | Some t \<Rightarrow> rq\<lparr>sched_time := t\<rparr>)"
  have rq1: "running rq1 = running rq" "\<exists>n. rq1 = rq\<lparr>sched_time := n\<rparr>"
    by (auto simp: rq1_def split: option.splits intro: exI [of _ "sched_time rq"])
  obtain c n rq2 ths where nx: "run_queue_next rq1 (threads S) = Some (Inr (n, rq2, ths))"
    and S': "run_queue S' = Some rq2" "switch_to c n cpu ths = (cpu', threads S')" "kheap S' = kheap S"
    using sw by (auto simp: arch_irq_task_switch_def Some g rq1_def [symmetric] Let_def split: option.splits sum.splits if_splits prod.splits)
  have "running rq1 < 32" using queue_okD(2) [OF sched_okD(2) [OF ok] Some] rq1(1) by simp
  note keep = next_keeps [OF nx this]
  obtain t where "rq1 = rq\<lparr>sched_time := t\<rparr>" using rq1(2) by blast
  then have "rq2 = rq\<lparr>sched_time := t, running := running rq2\<rparr>" using keep(2) by simp
  moreover have "rq\<lparr>sched_time := t, running := r\<rparr> = rq\<lparr>running := r, sched_time := t\<rparr>" for r by simp
  ultimately have r: "rq2 = rq\<lparr>running := running rq2, sched_time := t\<rparr>" by metis
  have th: "threads S' = ths(c := (ths c)\<lparr>cpu_state := cpu\<rparr>)" using S'(2) by (simp add: switch_to_def Let_def)
  show ?thesis
    by (rule sched_ok_same [OF ok S'(3), where r = "running rq2" and n = t]) (use keep(1, 3, 4) Some S'(1) r in \<open>simp_all add: th\<close>)
qed

lemma kthread_sleep_ok:
  assumes ok: "sched_ok cfg R Q T B S" and sl: "kthread_sleep_ts tick unset ts S = Inr S'"
  shows "sched_ok cfg R Q T B S'"
proof -
  obtain err now st where g: "get_system_time tick (sys_time S) = (err, now, st)" by (metis prod_cases3)
  obtain rq where rq: "run_queue S = Some rq" using sl g by (auto simp: kthread_sleep_ts_def Let_def split: option.splits)
  note q = queue_okD(2) [OF sched_okD(2) [OF ok] rq]
  have S': "kheap S' = kheap S" "run_queue S' = Some rq" "kt_stack (threads S' t) = kt_stack (threads S t)"
    "kt_flags (threads S' t) AND KTHREAD_JOINABLE = kt_flags (threads S t) AND KTHREAD_JOINABLE" for t
    using sl g rq by (auto simp: kthread_sleep_ts_def Let_def)
  show ?thesis
    by (rule sched_ok_same [OF ok S'(1, 3, 4), where r = "running rq" and n = "sched_time rq"]) (use q rq S'(2) in simp_all)
qed

section \<open>Starting, and the rest of the kernel\<close>

lemma heap_moved_ok:
  assumes ok: "sched_ok cfg R Q T B S" and H: "heap_ok cfg R H Q'" and keep: "\<And>t l. t \<in> T \<Longrightarrow> (t, l) \<in> Q \<Longrightarrow> (t, l) \<in> Q'"
  shows "sched_ok cfg R Q' T B (S\<lparr>kheap := H\<rparr>)"
proof (rule sched_okI)
  show "queue_ok (S\<lparr>kheap := H\<rparr>) T" by (rule queue_ok_cong [OF sched_okD(2) [OF ok]]) simp_all
  show "t \<noteq> 0 \<and> (\<exists>l. (t, l) \<in> Q')" if "t \<in> T" for t using sched_okD(3) [OF ok that] keep [OF that] by blast
qed (use H sched_okD(4, 5) [OF ok] in simp_all)

lemma other_kmalloc_ok:
  assumes ok: "sched_ok cfg R Q T B S"
    and k: "kmalloc cfg (get_free_pages cfg) (free_pages2 cfg) clear_pages n fl (kheap S) = Inr (p, H)"
  obtains Q' where "sched_ok cfg R Q' T B (S\<lparr>kheap := H\<rparr>)"
proof -
  note H = sched_okD(1) [OF ok]
  have "\<exists>Q'. heap_ok cfg R H Q' \<and> Q \<subseteq> Q'"
    using cpg.kmalloc_step [OF heap_page_size [OF H] TrueI H, of n fl] k by (metis Inr_inject Pair_inject order_refl subset_insertI)
  then show thesis using heap_moved_ok [OF ok] that by (metis subsetD)
qed

lemma other_kfree_ok:
  assumes ok: "sched_ok cfg R Q T B S" and a: "a \<notin> T"
  obtains Q' where "sched_ok cfg R Q' T B (S\<lparr>kheap := snd (kfree cfg (free_pages2 cfg) a (kheap S))\<rparr>)"
proof -
  let ?k = "kfree cfg (free_pages2 cfg) a (kheap S)"
  note H = sched_okD(1) [OF ok]
  have "\<exists>Q'. heap_ok cfg R (snd ?k) Q' \<and> (\<forall>t l. t \<noteq> a \<longrightarrow> (t, l) \<in> Q \<longrightarrow> (t, l) \<in> Q')"
  proof (cases "a \<noteq> 0 \<and> (\<exists>l. (a, l) \<in> Q)")
    case True
    then obtain l where "(a, l) \<in> Q" by blast
    from kfree_block [OF H this] show ?thesis by blast
  next
    case False
    then have "snd ?k = kheap S" using cpg.kfree_step [OF heap_page_size [OF H] H, of a] by (auto split: if_splits)
    then show ?thesis using H by auto
  qed
  then show thesis using heap_moved_ok [OF ok] a that by metis
qed

lemma kthread_init_ok:
  assumes H: "heap_ok cfg R (kheap S) Q" and none: "run_queue S = None"
    and i: "kthread_init cfg fin idle te ie e ss S = Inr (r, S')"
  obtains R' Q' t b rq where "sched_ok cfg R' Q' {t, b} {b} S'" and "run_queue S' = Some rq"
    and "kthreads rq ! 1 = b" and "kthreads rq ! 0 = t"
proof -
  obtain p H1 where k: "kmalloc cfg (get_free_pages cfg) (free_pages2 cfg) clear_pages sizeof_run_queue (GFP_KERNEL OR GFP_ZERO) (kheap S) = Inr (p, H1)"
    using i by (auto simp: kthread_init_def split: sum.splits)
  have start: "sched_ok cfg R Q {} {} S" using H none by (intro sched_okI) (simp_all add: queue_ok_def)
  obtain Q1 where ok1: "sched_ok cfg R Q1 {} {} (S\<lparr>kheap := H1\<rparr>)" using other_kmalloc_ok [OF start k] by blast
  obtain b S1 Q2 where kb: "kmalloc_kthread cfg (S\<lparr>kheap := H1\<rparr>) = Inr (b, S1)" "run_queue S1 = run_queue (S\<lparr>kheap := H1\<rparr>)"
    and b: "b \<noteq> 0 \<Longrightarrow> sched_ok cfg R Q2 {} {} S1 \<and> threads S1 b = zero_kthread \<and> (\<exists>l. (b, l) \<in> Q2)"
    using kmalloc_kthread_ok [OF ok1] by (metis insertI1)
  let ?S2 = "S1\<lparr>threads := (threads S1)(b := (threads S1 b)\<lparr>kt_stack := ss\<rparr>)\<rparr>"
  obtain err t S3 where c: "kthread_create0 cfg fin GFP_KERNEL idle 0 ?S2 = Inr (err, t, S3)" and b0: "b \<noteq> 0" and t0: "err = 0" "t \<noteq> 0"
    and S': "S' = S3\<lparr>run_queue := Some \<lparr>kthreads = (replicate 32 0)[1 := b, 0 := t], running = 1, sched_time = Timespec 0 0\<rparr>\<rparr>"
    using i by (auto simp: kthread_init_def k kb(1) Let_def split: sum.splits if_splits)
  note b1 = b [OF b0]
  have ok2: "sched_ok cfg R Q2 {b} {b} ?S2"
  proof (rule sched_okI)
    show "queue_ok ?S2 {b}" using kb(2) none by (simp add: queue_ok_def)
    show "heap_ok cfg R (kheap ?S2) Q2" using sched_okD(1) [of cfg R Q2] b1 by fastforce
  qed (use b1 b0 in auto)
  obtain R3 Q3 where ok3: "sched_ok cfg R3 Q3 {t, b} {b} S3" and same: "threads S3 b = threads ?S2 b"
    and t: "t \<noteq> b" "kt_flags (threads S3 t) = 0"
    using create0_ok [OF ok2, where fin = fin and gf = GFP_KERNEL and start = idle and args = 0] c t0
    by (smt (verit) Inr_inject Pair_inject insertI1 singletonI singleton_iff)
  let ?ts = "(replicate 32 0)[1 := b, 0 := t]"
  have "slots_ok ?ts" using t(1) by (simp add: slots_ok_def nth_list_update)
  moreover have "u = t \<or> u = b" if "u \<in> set ?ts" "u \<noteq> 0" for u 
    using that set_update_subset_insert [of "(replicate 32 0)[1 := b]" 0 t] set_update_subset_insert [of "replicate 32 0" 1 b]
    by auto
  moreover have "kt_flags (threads S3 b) = 0" using same b1 by (simp add: zero_kthread_def)
  ultimately have "slots_ok ?ts" "\<And>u. u \<in> set ?ts \<Longrightarrow> u \<noteq> 0 \<Longrightarrow> u \<in> {t, b} \<and> kt_flags (threads S3 u) AND KTHREAD_JOINABLE = 0"
    using t(2) by fastforce+
  then have "queue_ok S' {t, b}" unfolding S' by (simp add: queue_ok_def)
  then have "sched_ok cfg R3 Q3 {t, b} {b} S'" using sched_okD [OF ok3] unfolding S' by (intro sched_okI) simp_all
  then show thesis by (rule that) (simp add: S', simp_all)
qed

text \<open>
  \<open>b\<close> is the boot thread, whose stack was not taken from the page allocator, and the last argument
  the threads that have been created and not joined. The rest of the kernel may allocate blocks and
  free whatever is not a thread.
\<close>

inductive sched_run :: "board \<Rightarrow> u32 \<Rightarrow> sched \<Rightarrow> u32 \<Rightarrow> sched \<Rightarrow> u32 set \<Rightarrow> bool" for cfg fin S0 b where
  run_init: "kthread_init cfg fin idle te ie e ss S0 = Inr (r, S) \<Longrightarrow> run_queue S = Some rq \<Longrightarrow>
    kthreads rq ! 1 = b \<Longrightarrow> kthreads rq ! 0 = t \<Longrightarrow> sched_run cfg fin S0 b S {t, b}"
| run_create: "sched_run cfg fin S0 b S T \<Longrightarrow> kthread_create cfg fin gf start args S = Inr (e, t, S') \<Longrightarrow>
    sched_run cfg fin S0 b S' (if e = 0 \<and> t \<noteq> 0 then insert t T else T)"
| run_switch: "sched_run cfg fin S0 b S T \<Longrightarrow> arch_irq_task_switch tick e cpu S = Some (Inr (cpu', S')) \<Longrightarrow>
    sched_run cfg fin S0 b S' T"
| run_sleep: "sched_run cfg fin S0 b S T \<Longrightarrow> kthread_sleep_ts tick unset ts S = Inr S' \<Longrightarrow> sched_run cfg fin S0 b S' T"
| run_exit: "sched_run cfg fin S0 b S T \<Longrightarrow> exited_kthread S = Inr S' \<Longrightarrow> sched_run cfg fin S0 b S' T"
| run_join: "sched_run cfg fin S0 b S T \<Longrightarrow> t \<in> T - {b} \<Longrightarrow> kthread_join cfg t S = Some S' \<Longrightarrow>
    sched_run cfg fin S0 b S' (T - {t})"
| run_kmalloc: "sched_run cfg fin S0 b S T \<Longrightarrow>
    kmalloc cfg (get_free_pages cfg) (free_pages2 cfg) clear_pages n fl (kheap S) = Inr (p, H) \<Longrightarrow>
    sched_run cfg fin S0 b (S\<lparr>kheap := H\<rparr>) T"
| run_kfree: "sched_run cfg fin S0 b S T \<Longrightarrow> a \<notin> T \<Longrightarrow>
    sched_run cfg fin S0 b (S\<lparr>kheap := snd (kfree cfg (free_pages2 cfg) a (kheap S))\<rparr>) T"

lemma sched_run_ok:
  assumes "sched_run cfg fin S0 b S T" and H: "heap_ok cfg Rg (kheap S0) Qg" and none: "run_queue S0 = None"
  shows "b \<in> T \<and> (\<exists>R Q. sched_ok cfg R Q T {b} S)"
  using assms(1)
proof induction
  case (run_init idle te ie e ss r S rq t)
  from kthread_init_ok [OF H none run_init(1)] run_init(2-4) show ?case by (metis insertI1 insert_commute option.inject)
next
  case (run_create S T gf start args e t S')
  then obtain R Q where ok: "sched_ok cfg R Q T {b} S" and b: "{b} \<subseteq> T" by blast
  obtain R' Q' where "sched_ok cfg R' Q' (if e = 0 \<and> t \<noteq> 0 then insert t T else T) {b} S'"
    using kthread_create_ok [OF ok b, where fin = fin and gf = gf and start = start and args = args] run_create.hyps(2)
    by (metis Inr_inject Pair_inject)
  then have "\<exists>R Q. sched_ok cfg R Q (if e = 0 \<and> t \<noteq> 0 then insert t T else T) {b} S'" by blast
  then show ?case using b by (simp only: if_distrib [of "(\<in>) b"]) simp
next
  case (run_switch S T tick e cpu cpu' S')
  then show ?case using switch_ok by blast
next
  case (run_sleep S T tick unset ts S')
  then show ?case using kthread_sleep_ok by blast
next
  case (run_exit S T S')
  then show ?case using exited_kthread_ok by blast
next
  case (run_join S T t S')
  then show ?case using kthread_join_ok [of cfg _ _ T "{b}" S t S'] by blast
next
  case (run_kmalloc S T n fl p H)
  then show ?case using other_kmalloc_ok by metis
next
  case (run_kfree S T a)
  then show ?case using other_kfree_ok by metis
qed

lemma heap_regions_disjoint:
  assumes "heap_ok cfg R H Q" and r: "r \<in> R" "q \<in> R" "r \<noteq> q"
  shows "region_bytes r \<inter> region_bytes q = {}"
proof -
  obtain M where own: "owns (page_regions cfg) 4096 R (kh_pages H) M" using assms(1) by (auto simp: kmalloc_ok_def)
  obtain X where "page_regions cfg (kh_pages H) (R \<union> X)" using own by (rule ownsE)
  then obtain live where inv: "pages_inv cfg (kh_pages H) live" and live: "R \<union> X = block_region cfg (kh_pages H) ` live"
    by (auto simp: page_regions_def)
  have "r \<in> block_region cfg (kh_pages H) ` live" "q \<in> block_region cfg (kh_pages H) ` live" using r(1, 2) live by blast+
  then obtain k n j m where x: "(k, n) \<in> live" "r = block_region cfg (kh_pages H) (k, n)"
    and y: "(j, m) \<in> live" "q = block_region cfg (kh_pages H) (j, m)" by auto
  have "unnested live" using inv by (auto simp: pages_inv_def buddy_inv_def)
  then have "block_pages (k, n) \<inter> block_pages (j, m) = {}" using unnested_disjoint x y r(3) by blast
  then show ?thesis
    using regions_disjoint [OF inv pages_inv_range [OF inv x(1)] pages_inv_range [OF inv y(1)]] x(2) y(2) by simp
qed

section \<open>Properties\<close>

text \<open>Whatever is created, switched, put to sleep, ended, joined or allocated after the start, no two
  slots of the run queue hold the same thread, a thread in the run queue has not been freed, and
  the stacks of two threads other than the boot thread share no byte.\<close>

theorem threads_apart:
  assumes "sched_run cfg fin S0 b S T" and "heap_ok cfg Rg (kheap S0) Qg" and "run_queue S0 = None"
    and "run_queue S = Some rq" and "i < 32" and "j < 32" and "i \<noteq> j"
    and "kthreads rq ! i = t" and "t \<noteq> 0" and "kthreads rq ! j = u" and "u \<noteq> 0"
  shows "t \<noteq> u \<and> t \<in> T \<and> u \<in> T \<and> (t \<noteq> b \<and> u \<noteq> b \<longrightarrow>
    region_bytes (stack_base (kt_stack (threads S t)), unat (stack_size (kt_stack (threads S t)))) \<inter>
    region_bytes (stack_base (kt_stack (threads S u)), unat (stack_size (kt_stack (threads S u)))) = {})"
proof -
  obtain R Q where ok: "sched_ok cfg R Q T {b} S" using sched_run_ok [OF assms(1-3)] by blast
  note q = queue_okD [OF sched_okD(2) [OF ok] assms(4)]
  have tu: "t \<noteq> u" using slots_okD [OF q(1) assms(5, 6)] assms(7-11) by auto
  have T: "t \<in> T" "u \<in> T" using q(3) slots_set [OF q(1) assms(5)] slots_set [OF q(1) assms(6)] assms(8-11) by blast+
  have "region_bytes (stack_base (kt_stack (threads S t)), unat (stack_size (kt_stack (threads S t)))) \<inter>
    region_bytes (stack_base (kt_stack (threads S u)), unat (stack_size (kt_stack (threads S u)))) = {}"
    if tb: "t \<noteq> b" "u \<noteq> b"
  proof -
    have "stack_in R (kt_stack (threads S t))" "stack_in R (kt_stack (threads S u))" using sched_okD(4) [OF ok] T tb by blast+
    then obtain l k where l: "(stack_of S t, l) \<in> R" "unat (stack_size (kt_stack (threads S t))) \<le> l"
      and k: "(stack_of S u, k) \<in> R" "unat (stack_size (kt_stack (threads S u))) \<le> k" by (auto simp: stack_in_def)
    have "stack_of S t \<noteq> stack_of S u" using sched_okD(5) [OF ok] T tb tu unfolding inj_on_def by blast
    then have "region_bytes (stack_of S t, l) \<inter> region_bytes (stack_of S u, k) = {}"
      using heap_regions_disjoint [OF sched_okD(1) [OF ok] l(1) k(1)] by blast
    then show ?thesis using l(2) k(2) by (auto simp: region_bytes_def)
  qed
  then show ?thesis using tu T by blast
qed

end
