(* ===== verification/Descriptors.thy ===== *)
theory Descriptors
  imports Prelude
begin

text \<open>
  The descriptors of the ARM short-descriptor translation tables, as the headers
  \<open>src/kernel/arch/arm_a/mm/VMSAv7/section.h\<close>, \<open>supersection.h\<close>,
    \<open>large_page.h\<close>, \<open>small_page.h\<close> and
  \<open>pagetable.h\<close> build them. The enumerations have the same members in each header, with the prefix
  of the header, and put the same values into the fields of the descriptor; only the positions of
  the fields differ. So each enumeration is one datatype with its field values, and each header has
  its macros, which place the fields.
\<close>

section \<open>The enumerations\<close>

datatype memtype =
    MEMTYPE_SHARED_STRONGLY_ORDERED
  | MEMTYPE_SHARED_DEVICE
  | MEMTYPE_NONSHARED_NORMAL_WRITETHROUGH
  | MEMTYPE_SHARED_NORMAL_WRITETHROUGH
  | MEMTYPE_NONSHARED_NORMAL_WRITEBACK
  | MEMTYPE_SHARED_NORMAL_WRITEBACK
  | MEMTYPE_NONSHARED_NORMAL_NONCACHEABLE
  | MEMTYPE_SHARED_NORMAL_NONCACHEABLE
  | MEMTYPE_NONSHARED_NORMAL_WRITEBACK_WRITEALLOCATE
  | MEMTYPE_SHARED_NORMAL_WRITEBACK_WRITEALLOCATE
  | MEMTYPE_NONSHARED_DEVICE
  | MEMTYPE_NONSHARED_NORMAL_OUTER_NOCACHEABLE_INNER_NOCACHEABLE
  | MEMTYPE_NONSHARED_NORMAL_OUTER_NOCACHEABLE_INNER_WRITEBACK_WRITEALLOCATE
  | MEMTYPE_NONSHARED_NORMAL_OUTER_NOCACHEABLE_INNER_WRITETHROUGH
  | MEMTYPE_NONSHARED_NORMAL_OUTER_NOCACHEABLE_INNER_WRITEBACK
  | MEMTYPE_NONSHARED_NORMAL_OUTER_WRITEBACK_WRITEALLOCATE_INNER_NOCACHEABLE
  | MEMTYPE_NONSHARED_NORMAL_OUTER_WRITEBACK_WRITEALLOCATE_INNER_WRITEBACK_WRITEALLOCATE
  | MEMTYPE_NONSHARED_NORMAL_OUTER_WRITEBACK_WRITEALLOCATE_INNER_WRITETHROUGH
  | MEMTYPE_NONSHARED_NORMAL_OUTER_WRITEBACK_WRITEALLOCATE_INNER_WRITEBACK
  | MEMTYPE_NONSHARED_NORMAL_OUTER_WRITETHROUGH_INNER_NOCACHEABLE
  | MEMTYPE_NONSHARED_NORMAL_OUTER_WRITETHROUGH_INNER_WRITEBACK_WRITEALLOCATE
  | MEMTYPE_NONSHARED_NORMAL_OUTER_WRITETHROUGH_INNER_WRITETHROUGH
  | MEMTYPE_NONSHARED_NORMAL_OUTER_WRITETHROUGH_INNER_WRITEBACK
  | MEMTYPE_NONSHARED_NORMAL_OUTER_WRITEBACK_INNER_NOCACHEABLE
  | MEMTYPE_NONSHARED_NORMAL_OUTER_WRITEBACK_INNER_WRITEBACK_WRITEALLOCATE
  | MEMTYPE_NONSHARED_NORMAL_OUTER_WRITEBACK_INNER_WRITETHROUGH
  | MEMTYPE_NONSHARED_NORMAL_OUTER_WRITEBACK_INNER_WRITEBACK
  | MEMTYPE_SHARED_NORMAL_OUTER_NOCACHEABLE_INNER_NOCACHEABLE
  | MEMTYPE_SHARED_NORMAL_OUTER_NOCACHEABLE_INNER_WRITEBACK_WRITEALLOCATE
  | MEMTYPE_SHARED_NORMAL_OUTER_NOCACHEABLE_INNER_WRITETHROUGH
  | MEMTYPE_SHARED_NORMAL_OUTER_NOCACHEABLE_INNER_WRITEBACK
  | MEMTYPE_SHARED_NORMAL_OUTER_WRITEBACK_WRITEALLOCATE_INNER_NOCACHEABLE
  | MEMTYPE_SHARED_NORMAL_OUTER_WRITEBACK_WRITEALLOCATE_INNER_WRITEBACK_WRITEALLOCATE
  | MEMTYPE_SHARED_NORMAL_OUTER_WRITEBACK_WRITEALLOCATE_INNER_WRITETHROUGH
  | MEMTYPE_SHARED_NORMAL_OUTER_WRITEBACK_WRITEALLOCATE_INNER_WRITEBACK
  | MEMTYPE_SHARED_NORMAL_OUTER_WRITETHROUGH_INNER_NOCACHEABLE
  | MEMTYPE_SHARED_NORMAL_OUTER_WRITETHROUGH_INNER_WRITEBACK_WRITEALLOCATE
  | MEMTYPE_SHARED_NORMAL_OUTER_WRITETHROUGH_INNER_WRITETHROUGH
  | MEMTYPE_SHARED_NORMAL_OUTER_WRITETHROUGH_INNER_WRITEBACK
  | MEMTYPE_SHARED_NORMAL_OUTER_WRITEBACK_INNER_NOCACHEABLE
  | MEMTYPE_SHARED_NORMAL_OUTER_WRITEBACK_INNER_WRITEBACK_WRITEALLOCATE
  | MEMTYPE_SHARED_NORMAL_OUTER_WRITEBACK_INNER_WRITETHROUGH
  | MEMTYPE_SHARED_NORMAL_OUTER_WRITEBACK_INNER_WRITEBACK

text \<open>The values of TEX, C, B and S; S is left 0 where the header does not mention it.\<close>

primrec memtype_fields :: "memtype \<Rightarrow> u32 \<times> u32 \<times> u32 \<times> u32" where
  "memtype_fields MEMTYPE_SHARED_STRONGLY_ORDERED = (0, 0, 0, 0)"
| "memtype_fields MEMTYPE_SHARED_DEVICE = (0, 0, 1, 0)"
| "memtype_fields MEMTYPE_NONSHARED_NORMAL_WRITETHROUGH = (0, 1, 0, 0)"
| "memtype_fields MEMTYPE_SHARED_NORMAL_WRITETHROUGH = (0, 1, 0, 1)"
| "memtype_fields MEMTYPE_NONSHARED_NORMAL_WRITEBACK = (0, 1, 1, 0)"
| "memtype_fields MEMTYPE_SHARED_NORMAL_WRITEBACK = (0, 1, 1, 1)"
| "memtype_fields MEMTYPE_NONSHARED_NORMAL_NONCACHEABLE = (1, 0, 0, 0)"
| "memtype_fields MEMTYPE_SHARED_NORMAL_NONCACHEABLE = (1, 0, 0, 1)"
| "memtype_fields MEMTYPE_NONSHARED_NORMAL_WRITEBACK_WRITEALLOCATE = (1, 1, 1, 0)"
| "memtype_fields MEMTYPE_SHARED_NORMAL_WRITEBACK_WRITEALLOCATE = (1, 1, 1, 1)"
| "memtype_fields MEMTYPE_NONSHARED_DEVICE = (2, 0, 0, 0)"
| "memtype_fields MEMTYPE_NONSHARED_NORMAL_OUTER_NOCACHEABLE_INNER_NOCACHEABLE = (4, 0, 0, 0)"
| "memtype_fields MEMTYPE_NONSHARED_NORMAL_OUTER_NOCACHEABLE_INNER_WRITEBACK_WRITEALLOCATE = (4, 0, 1, 0)"
| "memtype_fields MEMTYPE_NONSHARED_NORMAL_OUTER_NOCACHEABLE_INNER_WRITETHROUGH = (4, 1, 0, 0)"
| "memtype_fields MEMTYPE_NONSHARED_NORMAL_OUTER_NOCACHEABLE_INNER_WRITEBACK = (4, 1, 1, 0)"
| "memtype_fields MEMTYPE_NONSHARED_NORMAL_OUTER_WRITEBACK_WRITEALLOCATE_INNER_NOCACHEABLE = (5, 0, 0, 0)"
| "memtype_fields MEMTYPE_NONSHARED_NORMAL_OUTER_WRITEBACK_WRITEALLOCATE_INNER_WRITEBACK_WRITEALLOCATE = (5, 0, 1, 0)"
| "memtype_fields MEMTYPE_NONSHARED_NORMAL_OUTER_WRITEBACK_WRITEALLOCATE_INNER_WRITETHROUGH = (5, 1, 0, 0)"
| "memtype_fields MEMTYPE_NONSHARED_NORMAL_OUTER_WRITEBACK_WRITEALLOCATE_INNER_WRITEBACK = (5, 1, 1, 0)"
| "memtype_fields MEMTYPE_NONSHARED_NORMAL_OUTER_WRITETHROUGH_INNER_NOCACHEABLE = (6, 0, 0, 0)"
| "memtype_fields MEMTYPE_NONSHARED_NORMAL_OUTER_WRITETHROUGH_INNER_WRITEBACK_WRITEALLOCATE = (6, 0, 1, 0)"
| "memtype_fields MEMTYPE_NONSHARED_NORMAL_OUTER_WRITETHROUGH_INNER_WRITETHROUGH = (6, 1, 0, 0)"
| "memtype_fields MEMTYPE_NONSHARED_NORMAL_OUTER_WRITETHROUGH_INNER_WRITEBACK = (6, 1, 1, 0)"
| "memtype_fields MEMTYPE_NONSHARED_NORMAL_OUTER_WRITEBACK_INNER_NOCACHEABLE = (7, 0, 0, 0)"
| "memtype_fields MEMTYPE_NONSHARED_NORMAL_OUTER_WRITEBACK_INNER_WRITEBACK_WRITEALLOCATE = (7, 0, 1, 0)"
| "memtype_fields MEMTYPE_NONSHARED_NORMAL_OUTER_WRITEBACK_INNER_WRITETHROUGH = (7, 1, 0, 0)"
| "memtype_fields MEMTYPE_NONSHARED_NORMAL_OUTER_WRITEBACK_INNER_WRITEBACK = (7, 1, 1, 0)"
| "memtype_fields MEMTYPE_SHARED_NORMAL_OUTER_NOCACHEABLE_INNER_NOCACHEABLE = (4, 0, 0, 1)"
| "memtype_fields MEMTYPE_SHARED_NORMAL_OUTER_NOCACHEABLE_INNER_WRITEBACK_WRITEALLOCATE = (4, 0, 1, 1)"
| "memtype_fields MEMTYPE_SHARED_NORMAL_OUTER_NOCACHEABLE_INNER_WRITETHROUGH = (4, 1, 0, 1)"
| "memtype_fields MEMTYPE_SHARED_NORMAL_OUTER_NOCACHEABLE_INNER_WRITEBACK = (4, 1, 1, 1)"
| "memtype_fields MEMTYPE_SHARED_NORMAL_OUTER_WRITEBACK_WRITEALLOCATE_INNER_NOCACHEABLE = (5, 0, 0, 1)"
| "memtype_fields MEMTYPE_SHARED_NORMAL_OUTER_WRITEBACK_WRITEALLOCATE_INNER_WRITEBACK_WRITEALLOCATE = (5, 0, 1, 1)"
| "memtype_fields MEMTYPE_SHARED_NORMAL_OUTER_WRITEBACK_WRITEALLOCATE_INNER_WRITETHROUGH = (5, 1, 0, 1)"
| "memtype_fields MEMTYPE_SHARED_NORMAL_OUTER_WRITEBACK_WRITEALLOCATE_INNER_WRITEBACK = (5, 1, 1, 1)"
| "memtype_fields MEMTYPE_SHARED_NORMAL_OUTER_WRITETHROUGH_INNER_NOCACHEABLE = (6, 0, 0, 1)"
| "memtype_fields MEMTYPE_SHARED_NORMAL_OUTER_WRITETHROUGH_INNER_WRITEBACK_WRITEALLOCATE = (6, 0, 1, 1)"
| "memtype_fields MEMTYPE_SHARED_NORMAL_OUTER_WRITETHROUGH_INNER_WRITETHROUGH = (6, 1, 0, 1)"
| "memtype_fields MEMTYPE_SHARED_NORMAL_OUTER_WRITETHROUGH_INNER_WRITEBACK = (6, 1, 1, 1)"
| "memtype_fields MEMTYPE_SHARED_NORMAL_OUTER_WRITEBACK_INNER_NOCACHEABLE = (7, 0, 0, 1)"
| "memtype_fields MEMTYPE_SHARED_NORMAL_OUTER_WRITEBACK_INNER_WRITEBACK_WRITEALLOCATE = (7, 0, 1, 1)"
| "memtype_fields MEMTYPE_SHARED_NORMAL_OUTER_WRITEBACK_INNER_WRITETHROUGH = (7, 1, 0, 1)"
| "memtype_fields MEMTYPE_SHARED_NORMAL_OUTER_WRITEBACK_INNER_WRITEBACK = (7, 1, 1, 1)"

definition all_memtypes :: "memtype list" where
  "all_memtypes = [MEMTYPE_SHARED_STRONGLY_ORDERED,
     MEMTYPE_SHARED_DEVICE,
     MEMTYPE_NONSHARED_NORMAL_WRITETHROUGH,
     MEMTYPE_SHARED_NORMAL_WRITETHROUGH,
     MEMTYPE_NONSHARED_NORMAL_WRITEBACK,
     MEMTYPE_SHARED_NORMAL_WRITEBACK,
     MEMTYPE_NONSHARED_NORMAL_NONCACHEABLE,
     MEMTYPE_SHARED_NORMAL_NONCACHEABLE,
     MEMTYPE_NONSHARED_NORMAL_WRITEBACK_WRITEALLOCATE,
     MEMTYPE_SHARED_NORMAL_WRITEBACK_WRITEALLOCATE,
     MEMTYPE_NONSHARED_DEVICE,
     MEMTYPE_NONSHARED_NORMAL_OUTER_NOCACHEABLE_INNER_NOCACHEABLE,
     MEMTYPE_NONSHARED_NORMAL_OUTER_NOCACHEABLE_INNER_WRITEBACK_WRITEALLOCATE,
     MEMTYPE_NONSHARED_NORMAL_OUTER_NOCACHEABLE_INNER_WRITETHROUGH,
     MEMTYPE_NONSHARED_NORMAL_OUTER_NOCACHEABLE_INNER_WRITEBACK,
     MEMTYPE_NONSHARED_NORMAL_OUTER_WRITEBACK_WRITEALLOCATE_INNER_NOCACHEABLE,
     MEMTYPE_NONSHARED_NORMAL_OUTER_WRITEBACK_WRITEALLOCATE_INNER_WRITEBACK_WRITEALLOCATE,
     MEMTYPE_NONSHARED_NORMAL_OUTER_WRITEBACK_WRITEALLOCATE_INNER_WRITETHROUGH,
     MEMTYPE_NONSHARED_NORMAL_OUTER_WRITEBACK_WRITEALLOCATE_INNER_WRITEBACK,
     MEMTYPE_NONSHARED_NORMAL_OUTER_WRITETHROUGH_INNER_NOCACHEABLE,
     MEMTYPE_NONSHARED_NORMAL_OUTER_WRITETHROUGH_INNER_WRITEBACK_WRITEALLOCATE,
     MEMTYPE_NONSHARED_NORMAL_OUTER_WRITETHROUGH_INNER_WRITETHROUGH,
     MEMTYPE_NONSHARED_NORMAL_OUTER_WRITETHROUGH_INNER_WRITEBACK,
     MEMTYPE_NONSHARED_NORMAL_OUTER_WRITEBACK_INNER_NOCACHEABLE,
     MEMTYPE_NONSHARED_NORMAL_OUTER_WRITEBACK_INNER_WRITEBACK_WRITEALLOCATE,
     MEMTYPE_NONSHARED_NORMAL_OUTER_WRITEBACK_INNER_WRITETHROUGH,
     MEMTYPE_NONSHARED_NORMAL_OUTER_WRITEBACK_INNER_WRITEBACK,
     MEMTYPE_SHARED_NORMAL_OUTER_NOCACHEABLE_INNER_NOCACHEABLE,
     MEMTYPE_SHARED_NORMAL_OUTER_NOCACHEABLE_INNER_WRITEBACK_WRITEALLOCATE,
     MEMTYPE_SHARED_NORMAL_OUTER_NOCACHEABLE_INNER_WRITETHROUGH,
     MEMTYPE_SHARED_NORMAL_OUTER_NOCACHEABLE_INNER_WRITEBACK,
     MEMTYPE_SHARED_NORMAL_OUTER_WRITEBACK_WRITEALLOCATE_INNER_NOCACHEABLE,
     MEMTYPE_SHARED_NORMAL_OUTER_WRITEBACK_WRITEALLOCATE_INNER_WRITEBACK_WRITEALLOCATE,
     MEMTYPE_SHARED_NORMAL_OUTER_WRITEBACK_WRITEALLOCATE_INNER_WRITETHROUGH,
     MEMTYPE_SHARED_NORMAL_OUTER_WRITEBACK_WRITEALLOCATE_INNER_WRITEBACK,
     MEMTYPE_SHARED_NORMAL_OUTER_WRITETHROUGH_INNER_NOCACHEABLE,
     MEMTYPE_SHARED_NORMAL_OUTER_WRITETHROUGH_INNER_WRITEBACK_WRITEALLOCATE,
     MEMTYPE_SHARED_NORMAL_OUTER_WRITETHROUGH_INNER_WRITETHROUGH,
     MEMTYPE_SHARED_NORMAL_OUTER_WRITETHROUGH_INNER_WRITEBACK,
     MEMTYPE_SHARED_NORMAL_OUTER_WRITEBACK_INNER_NOCACHEABLE,
     MEMTYPE_SHARED_NORMAL_OUTER_WRITEBACK_INNER_WRITEBACK_WRITEALLOCATE,
     MEMTYPE_SHARED_NORMAL_OUTER_WRITEBACK_INNER_WRITETHROUGH,
     MEMTYPE_SHARED_NORMAL_OUTER_WRITEBACK_INNER_WRITEBACK]"

datatype access_permission =
    ACCESS_NONE
  | ACCESS_PRIVILEGED_FULL
  | ACCESS_PRIVILEGED_FULL_USER_READONLY
  | ACCESS_FULL
  | ACCESS_PRIVILEGED_READONLY
  | ACCESS_READONLY

text \<open>The values of APX and AP.\<close>

primrec access_fields :: "access_permission \<Rightarrow> u32 \<times> u32" where
  "access_fields ACCESS_NONE = (0, 0)"
| "access_fields ACCESS_PRIVILEGED_FULL = (0, 1)"
| "access_fields ACCESS_PRIVILEGED_FULL_USER_READONLY = (0, 2)"
| "access_fields ACCESS_FULL = (0, 3)"
| "access_fields ACCESS_PRIVILEGED_READONLY = (1, 1)"
| "access_fields ACCESS_READONLY = (1, 2)"

definition all_accesses :: "access_permission list" where
  "all_accesses = [ACCESS_NONE,
     ACCESS_PRIVILEGED_FULL,
     ACCESS_PRIVILEGED_FULL_USER_READONLY,
     ACCESS_FULL,
     ACCESS_PRIVILEGED_READONLY,
     ACCESS_READONLY]"

datatype domain =
    DOMAIN_0 | DOMAIN_1 | DOMAIN_2 | DOMAIN_3 | DOMAIN_4 | DOMAIN_5 | DOMAIN_6 | DOMAIN_7
  | DOMAIN_8 | DOMAIN_9 | DOMAIN_10 | DOMAIN_11 | DOMAIN_12 | DOMAIN_13 | DOMAIN_14 | DOMAIN_15

primrec domain_number :: "domain \<Rightarrow> u32" where
  "domain_number DOMAIN_0 = 0"
| "domain_number DOMAIN_1 = 1"
| "domain_number DOMAIN_2 = 2"
| "domain_number DOMAIN_3 = 3"
| "domain_number DOMAIN_4 = 4"
| "domain_number DOMAIN_5 = 5"
| "domain_number DOMAIN_6 = 6"
| "domain_number DOMAIN_7 = 7"
| "domain_number DOMAIN_8 = 8"
| "domain_number DOMAIN_9 = 9"
| "domain_number DOMAIN_10 = 10"
| "domain_number DOMAIN_11 = 11"
| "domain_number DOMAIN_12 = 12"
| "domain_number DOMAIN_13 = 13"
| "domain_number DOMAIN_14 = 14"
| "domain_number DOMAIN_15 = 15"

definition all_domains :: "domain list" where
  "all_domains = [DOMAIN_0, DOMAIN_1, DOMAIN_2, DOMAIN_3, DOMAIN_4, DOMAIN_5, DOMAIN_6, DOMAIN_7,
     DOMAIN_8, DOMAIN_9, DOMAIN_10, DOMAIN_11, DOMAIN_12, DOMAIN_13, DOMAIN_14, DOMAIN_15]"

datatype global_flag = GLOBAL | NOTGLOBAL

primrec global_field :: "global_flag \<Rightarrow> u32" where
  "global_field GLOBAL = 0"
| "global_field NOTGLOBAL = 1"

datatype execute_never = EXECUTE | EXECUTENEVER

primrec execute_field :: "execute_never \<Rightarrow> u32" where
  "execute_field EXECUTE = 0"
| "execute_field EXECUTENEVER = 1"

datatype privileged_execute_never = PRIVILEGED_EXECUTE | PRIVILEGED_EXECUTENEVER

primrec privileged_field :: "privileged_execute_never \<Rightarrow> u32" where
  "privileged_field PRIVILEGED_EXECUTE = 0"
| "privileged_field PRIVILEGED_EXECUTENEVER = 1"

datatype non_secure = SECURE | NON_SECURE

primrec secure_field :: "non_secure \<Rightarrow> u32" where
  "secure_field SECURE = 0"
| "secure_field NON_SECURE = 1"

lemmas field_values = memtype_fields.simps access_fields.simps domain_number.simps
  global_field.simps execute_field.simps privileged_field.simps secure_field.simps

section \<open>Fields that do not overlap\<close>

lemma outside_mask: "c AND m = c \<Longrightarrow> m AND n = 0 \<Longrightarrow> c AND n = (0 :: 'a ::
    semiring_bit_operations)"
  by (metis and.assoc and_zero_eq)

lemma masked_twice: "c AND m = c \<Longrightarrow> (c AND n) AND m = c AND (n :: 'a :: semiring_bit_operations)"
  by (metis and.assoc and.commute)

text \<open>The member of an enumeration that a field stands for.\<close>

definition decode_by :: "('a \<Rightarrow> u32) \<Rightarrow> 'a list \<Rightarrow> u32 \<Rightarrow> 'a option" where
  "decode_by enc xs v = find (\<lambda>x. enc x = v) xs"

lemma decode_by_enc:
  assumes "distinct (map enc xs)" and "x \<in> set xs"
  shows "decode_by enc xs (enc x) = Some x"
proof -
  obtain i where i: "i < length xs" "xs ! i = x" using assms(2) by (auto simp: in_set_conv_nth)
  have "enc (xs ! j) \<noteq> enc x" if "j < i" for j
    using nth_eq_iff_index_eq [OF assms(1), of j i] that i by simp
  then show ?thesis using i by (auto simp: decode_by_def find_Some_iff intro: exI [of _ i])
qed

lemma all_memtypes: "m \<in> set all_memtypes"
  by (cases m) (simp_all add: all_memtypes_def)

lemma all_accesses: "a \<in> set all_accesses"
  by (cases a) (simp_all add: all_accesses_def)

lemma all_domains: "d \<in> set all_domains"
  by (cases d) (simp_all add: all_domains_def)

end
