(* ===== verification/VMSAv7.thy ===== *)
theory VMSAv7
  imports Descriptors
begin

text \<open>
  The builders of \<open>src/kernel/arch/arm_a/mm/VMSAv7\<close>: \<open>section.h\<close>,
    \<open>supersection.h\<close>, \<open>large_page.h\<close>,
  \<open>small_page.h\<close> and \<open>pagetable.h\<close>. A descriptor gives back the address and every
    attribute it
  was built from, read at the positions of the ARM architecture.
\<close>

section \<open>section.h: a section\<close>

definition VMSAv7_SECTION_BITS :: u32 where "VMSAv7_SECTION_BITS = push_bit 18 0 OR push_bit 1 1"

definition VMSAv7_SECTION_BASEADDR :: "u32 \<Rightarrow> u32" where "VMSAv7_SECTION_BASEADDR base = base AND
    0xfff00000"

definition VMSAv7_SECTION_XN :: "u32 \<Rightarrow> u32" where "VMSAv7_SECTION_XN x = push_bit 4 x"
definition VMSAv7_SECTION_S :: "u32 \<Rightarrow> u32" where "VMSAv7_SECTION_S x = push_bit 16 x"
definition VMSAv7_SECTION_nG :: "u32 \<Rightarrow> u32" where "VMSAv7_SECTION_nG x = push_bit 17 x"
definition VMSAv7_SECTION_AP :: "u32 \<Rightarrow> u32" where "VMSAv7_SECTION_AP x = push_bit 10 x"
definition VMSAv7_SECTION_APX :: "u32 \<Rightarrow> u32" where "VMSAv7_SECTION_APX x = push_bit 15 x"
definition VMSAv7_SECTION_DOMAIN :: "u32 \<Rightarrow> u32" where "VMSAv7_SECTION_DOMAIN x = push_bit 5 x"
definition VMSAv7_SECTION_B :: "u32 \<Rightarrow> u32" where "VMSAv7_SECTION_B x = push_bit 2 x"
definition VMSAv7_SECTION_C :: "u32 \<Rightarrow> u32" where "VMSAv7_SECTION_C x = push_bit 3 x"
definition VMSAv7_SECTION_TEX :: "u32 \<Rightarrow> u32" where "VMSAv7_SECTION_TEX x = push_bit 12 x"
definition VMSAv7_SECTION_NS :: "u32 \<Rightarrow> u32" where "VMSAv7_SECTION_NS x = push_bit 19 x"
definition VMSAv7_SECTION_PXN :: "u32 \<Rightarrow> u32" where "VMSAv7_SECTION_PXN x = push_bit 0 x"

definition VMSAv7_SECTION_ACCESS :: "access_permission \<Rightarrow> u32" where
  "VMSAv7_SECTION_ACCESS a = (case access_fields a of (apx, ap) \<Rightarrow> VMSAv7_SECTION_APX apx OR
    VMSAv7_SECTION_AP ap)"

definition VMSAv7_SECTION_DOMAIN_enum :: "domain \<Rightarrow> u32" where
  "VMSAv7_SECTION_DOMAIN_enum d = VMSAv7_SECTION_DOMAIN (domain_number d)"

definition VMSAv7_SECTION_MEMTYPE :: "memtype \<Rightarrow> u32" where
  "VMSAv7_SECTION_MEMTYPE m = (case memtype_fields m of (tex, c, b, s) \<Rightarrow>
     VMSAv7_SECTION_TEX tex OR VMSAv7_SECTION_C c OR VMSAv7_SECTION_B b OR VMSAv7_SECTION_S s)"

definition VMSAv7_SECTION_GLOBAL_enum :: "global_flag \<Rightarrow> u32" where "VMSAv7_SECTION_GLOBAL_enum g =
    VMSAv7_SECTION_nG (global_field g)"
definition VMSAv7_SECTION_EXECUTE_enum :: "execute_never \<Rightarrow> u32" where "VMSAv7_SECTION_EXECUTE_enum x
    = VMSAv7_SECTION_XN (execute_field x)"
definition VMSAv7_SECTION_PRIVILEGED_enum :: "privileged_execute_never \<Rightarrow> u32" where
    "VMSAv7_SECTION_PRIVILEGED_enum x = VMSAv7_SECTION_PXN (privileged_field x)"
definition VMSAv7_SECTION_SECURE_enum :: "non_secure \<Rightarrow> u32" where "VMSAv7_SECTION_SECURE_enum x =
    VMSAv7_SECTION_NS (secure_field x)"

definition vmsav7_build_section ::
  "u32 \<Rightarrow> memtype \<Rightarrow> domain \<Rightarrow> access_permission \<Rightarrow> global_flag
    \<Rightarrow> execute_never \<Rightarrow> privileged_execute_never \<Rightarrow> non_secure \<Rightarrow>
    u32" where
  "vmsav7_build_section phy mem d acc glob xn pxn ns =
     VMSAv7_SECTION_BITS OR VMSAv7_SECTION_BASEADDR phy OR VMSAv7_SECTION_MEMTYPE mem OR
       VMSAv7_SECTION_DOMAIN_enum d OR VMSAv7_SECTION_ACCESS acc OR VMSAv7_SECTION_GLOBAL_enum glob OR
       VMSAv7_SECTION_EXECUTE_enum xn OR VMSAv7_SECTION_PRIVILEGED_enum pxn OR VMSAv7_SECTION_SECURE_enum ns"

lemmas VMSAv7_SECTION_defs =
  VMSAv7_SECTION_XN_def VMSAv7_SECTION_S_def VMSAv7_SECTION_nG_def VMSAv7_SECTION_AP_def VMSAv7_SECTION_APX_def
    VMSAv7_SECTION_DOMAIN_def VMSAv7_SECTION_B_def VMSAv7_SECTION_C_def VMSAv7_SECTION_TEX_def
    VMSAv7_SECTION_NS_def VMSAv7_SECTION_PXN_def
  VMSAv7_SECTION_MEMTYPE_def VMSAv7_SECTION_DOMAIN_enum_def VMSAv7_SECTION_ACCESS_def
    VMSAv7_SECTION_GLOBAL_enum_def VMSAv7_SECTION_EXECUTE_enum_def VMSAv7_SECTION_PRIVILEGED_enum_def
    VMSAv7_SECTION_SECURE_enum_def
  VMSAv7_SECTION_BITS_def

lemma VMSAv7_SECTION_MEMTYPE_mask: "VMSAv7_SECTION_MEMTYPE mem AND 0x1700c = VMSAv7_SECTION_MEMTYPE mem"
  by (cases mem) (simp_all add: VMSAv7_SECTION_defs)

lemma VMSAv7_SECTION_DOMAIN_enum_mask: "VMSAv7_SECTION_DOMAIN_enum d AND 0x1e0 = VMSAv7_SECTION_DOMAIN_enum d"
  by (cases d) (simp_all add: VMSAv7_SECTION_defs)

lemma VMSAv7_SECTION_ACCESS_mask: "VMSAv7_SECTION_ACCESS acc AND 0x8c00 = VMSAv7_SECTION_ACCESS acc"
  by (cases acc) (simp_all add: VMSAv7_SECTION_defs)

lemma VMSAv7_SECTION_GLOBAL_enum_mask: "VMSAv7_SECTION_GLOBAL_enum glob AND 0x20000 = VMSAv7_SECTION_GLOBAL_enum glob"
  by (cases glob) (simp_all add: VMSAv7_SECTION_defs)

lemma VMSAv7_SECTION_EXECUTE_enum_mask: "VMSAv7_SECTION_EXECUTE_enum xn AND 0x10 = VMSAv7_SECTION_EXECUTE_enum xn"
  by (cases xn) (simp_all add: VMSAv7_SECTION_defs)

lemma VMSAv7_SECTION_PRIVILEGED_enum_mask: "VMSAv7_SECTION_PRIVILEGED_enum pxn AND 0x1 =
    VMSAv7_SECTION_PRIVILEGED_enum pxn"
  by (cases pxn) (simp_all add: VMSAv7_SECTION_defs)

lemma VMSAv7_SECTION_SECURE_enum_mask: "VMSAv7_SECTION_SECURE_enum ns AND 0x80000 = VMSAv7_SECTION_SECURE_enum ns"
  by (cases ns) (simp_all add: VMSAv7_SECTION_defs)

lemmas VMSAv7_SECTION_masks = VMSAv7_SECTION_MEMTYPE_mask VMSAv7_SECTION_DOMAIN_enum_mask
    VMSAv7_SECTION_ACCESS_mask VMSAv7_SECTION_GLOBAL_enum_mask VMSAv7_SECTION_EXECUTE_enum_mask
    VMSAv7_SECTION_PRIVILEGED_enum_mask VMSAv7_SECTION_SECURE_enum_mask

text \<open>The attributes, read back from their fields.\<close>

definition vmsav7_section_fields :: "u32 \<Rightarrow> memtype option \<times> domain option \<times>
    access_permission option \<times> global_flag option \<times> execute_never option \<times>
    privileged_execute_never option \<times> non_secure option" where
  "vmsav7_section_fields v =
     (decode_by VMSAv7_SECTION_MEMTYPE all_memtypes (v AND 0x1700c),
      decode_by VMSAv7_SECTION_DOMAIN_enum all_domains (v AND 0x1e0),
      decode_by VMSAv7_SECTION_ACCESS all_accesses (v AND 0x8c00),
      decode_by VMSAv7_SECTION_GLOBAL_enum [GLOBAL, NOTGLOBAL] (v AND 0x20000),
      decode_by VMSAv7_SECTION_EXECUTE_enum [EXECUTE, EXECUTENEVER] (v AND 0x10),
      decode_by VMSAv7_SECTION_PRIVILEGED_enum [PRIVILEGED_EXECUTE, PRIVILEGED_EXECUTENEVER] (v AND 0x1),
      decode_by VMSAv7_SECTION_SECURE_enum [SECURE, NON_SECURE] (v AND 0x80000))"

lemma VMSAv7_SECTION_MEMTYPE_inj: "distinct (map VMSAv7_SECTION_MEMTYPE all_memtypes)"
  by (simp add: VMSAv7_SECTION_defs all_memtypes_def)

lemma VMSAv7_SECTION_DOMAIN_enum_inj: "distinct (map VMSAv7_SECTION_DOMAIN_enum all_domains)"
  by (simp add: VMSAv7_SECTION_defs all_domains_def)

lemma VMSAv7_SECTION_ACCESS_inj: "distinct (map VMSAv7_SECTION_ACCESS all_accesses)"
  by (simp add: VMSAv7_SECTION_defs all_accesses_def)

lemma VMSAv7_SECTION_GLOBAL_enum_inj: "distinct (map VMSAv7_SECTION_GLOBAL_enum [GLOBAL, NOTGLOBAL])"
  by (simp add: VMSAv7_SECTION_defs)

lemma VMSAv7_SECTION_EXECUTE_enum_inj: "distinct (map VMSAv7_SECTION_EXECUTE_enum [EXECUTE, EXECUTENEVER])"
  by (simp add: VMSAv7_SECTION_defs)

lemma VMSAv7_SECTION_PRIVILEGED_enum_inj: "distinct (map VMSAv7_SECTION_PRIVILEGED_enum [PRIVILEGED_EXECUTE,
    PRIVILEGED_EXECUTENEVER])"
  by (simp add: VMSAv7_SECTION_defs)

lemma VMSAv7_SECTION_SECURE_enum_inj: "distinct (map VMSAv7_SECTION_SECURE_enum [SECURE, NON_SECURE])"
  by (simp add: VMSAv7_SECTION_defs)

lemma vmsav7_build_section_at: "vmsav7_build_section phy mem d acc glob xn pxn ns AND n =
    (VMSAv7_SECTION_BITS AND n) OR (VMSAv7_SECTION_BASEADDR phy AND n) OR (VMSAv7_SECTION_MEMTYPE mem AND n) OR
      (VMSAv7_SECTION_DOMAIN_enum d AND n) OR (VMSAv7_SECTION_ACCESS acc AND n) OR (VMSAv7_SECTION_GLOBAL_enum
      glob AND n) OR (VMSAv7_SECTION_EXECUTE_enum xn AND n) OR (VMSAv7_SECTION_PRIVILEGED_enum pxn AND n) OR
      (VMSAv7_SECTION_SECURE_enum ns AND n)"
  by (simp add: vmsav7_build_section_def bit.conj_disj_distrib2)

lemma vmsav7_build_section_parts:
  "vmsav7_build_section phy mem d acc glob xn pxn ns AND 0xfff00000 = phy AND 0xfff00000"
  "vmsav7_build_section phy mem d acc glob xn pxn ns AND 0x40002 = 2"
  "vmsav7_build_section phy mem d acc glob xn pxn ns AND 0x1700c = VMSAv7_SECTION_MEMTYPE mem"
  "vmsav7_build_section phy mem d acc glob xn pxn ns AND 0x1e0 = VMSAv7_SECTION_DOMAIN_enum d"
  "vmsav7_build_section phy mem d acc glob xn pxn ns AND 0x8c00 = VMSAv7_SECTION_ACCESS acc"
  "vmsav7_build_section phy mem d acc glob xn pxn ns AND 0x20000 = VMSAv7_SECTION_GLOBAL_enum glob"
  "vmsav7_build_section phy mem d acc glob xn pxn ns AND 0x10 = VMSAv7_SECTION_EXECUTE_enum xn"
  "vmsav7_build_section phy mem d acc glob xn pxn ns AND 0x1 = VMSAv7_SECTION_PRIVILEGED_enum pxn"
  "vmsav7_build_section phy mem d acc glob xn pxn ns AND 0x80000 = VMSAv7_SECTION_SECURE_enum ns"
  unfolding vmsav7_build_section_at
  by (simp_all add: VMSAv7_SECTION_masks VMSAv7_SECTION_masks [THEN outside_mask] VMSAv7_SECTION_BASEADDR_def
    VMSAv7_SECTION_BITS_def and.assoc)

section \<open>supersection.h: a supersection\<close>

definition VMSAv7_SUPERSECTION_BITS :: u32 where "VMSAv7_SUPERSECTION_BITS = push_bit 18 1 OR push_bit 1 1"

definition VMSAv7_SUPERSECTION_BASEADDR_32 :: "u32 \<Rightarrow> u32" where "VMSAv7_SUPERSECTION_BASEADDR_32
    base = base AND 0xff000000"

definition VMSAv7_SUPERSECTION_BASEADDR_40 :: "u64 \<Rightarrow> u64" where
  "VMSAv7_SUPERSECTION_BASEADDR_40 base = drop_bit 0 (base AND 0x00ff000000) OR drop_bit 12 (base AND 0x0f00000000) OR
     drop_bit 31 (base AND 0xf000000000)"

definition VMSAv7_SUPERSECTION_XN :: "u32 \<Rightarrow> u32" where "VMSAv7_SUPERSECTION_XN x = push_bit 4 x"
definition VMSAv7_SUPERSECTION_S :: "u32 \<Rightarrow> u32" where "VMSAv7_SUPERSECTION_S x = push_bit 16 x"
definition VMSAv7_SUPERSECTION_nG :: "u32 \<Rightarrow> u32" where "VMSAv7_SUPERSECTION_nG x = push_bit 17 x"
definition VMSAv7_SUPERSECTION_AP :: "u32 \<Rightarrow> u32" where "VMSAv7_SUPERSECTION_AP x = push_bit 10 x"
definition VMSAv7_SUPERSECTION_APX :: "u32 \<Rightarrow> u32" where "VMSAv7_SUPERSECTION_APX x = push_bit 15 x"
definition VMSAv7_SUPERSECTION_B :: "u32 \<Rightarrow> u32" where "VMSAv7_SUPERSECTION_B x = push_bit 2 x"
definition VMSAv7_SUPERSECTION_C :: "u32 \<Rightarrow> u32" where "VMSAv7_SUPERSECTION_C x = push_bit 3 x"
definition VMSAv7_SUPERSECTION_TEX :: "u32 \<Rightarrow> u32" where "VMSAv7_SUPERSECTION_TEX x = push_bit 12 x"
definition VMSAv7_SUPERSECTION_NS :: "u32 \<Rightarrow> u32" where "VMSAv7_SUPERSECTION_NS x = push_bit 19 x"
definition VMSAv7_SUPERSECTION_PXN :: "u32 \<Rightarrow> u32" where "VMSAv7_SUPERSECTION_PXN x = push_bit 0 x"

definition VMSAv7_SUPERSECTION_ACCESS :: "access_permission \<Rightarrow> u32" where
  "VMSAv7_SUPERSECTION_ACCESS a = (case access_fields a of (apx, ap) \<Rightarrow> VMSAv7_SUPERSECTION_APX apx
    OR VMSAv7_SUPERSECTION_AP ap)"

definition VMSAv7_SUPERSECTION_MEMTYPE :: "memtype \<Rightarrow> u32" where
  "VMSAv7_SUPERSECTION_MEMTYPE m = (case memtype_fields m of (tex, c, b, s) \<Rightarrow>
     VMSAv7_SUPERSECTION_TEX tex OR VMSAv7_SUPERSECTION_C c OR VMSAv7_SUPERSECTION_B b OR VMSAv7_SUPERSECTION_S s)"

definition VMSAv7_SUPERSECTION_GLOBAL_enum :: "global_flag \<Rightarrow> u32" where
    "VMSAv7_SUPERSECTION_GLOBAL_enum g = VMSAv7_SUPERSECTION_nG (global_field g)"
definition VMSAv7_SUPERSECTION_EXECUTE_enum :: "execute_never \<Rightarrow> u32" where
    "VMSAv7_SUPERSECTION_EXECUTE_enum x = VMSAv7_SUPERSECTION_XN (execute_field x)"
definition VMSAv7_SUPERSECTION_PRIVILEGED_enum :: "privileged_execute_never \<Rightarrow> u32" where
    "VMSAv7_SUPERSECTION_PRIVILEGED_enum x = VMSAv7_SUPERSECTION_PXN (privileged_field x)"
definition VMSAv7_SUPERSECTION_SECURE_enum :: "non_secure \<Rightarrow> u32" where
    "VMSAv7_SUPERSECTION_SECURE_enum x = VMSAv7_SUPERSECTION_NS (secure_field x)"

definition vmsav7_build_supersection32 ::
  "u32 \<Rightarrow> memtype \<Rightarrow> access_permission \<Rightarrow> global_flag \<Rightarrow>
    execute_never \<Rightarrow> privileged_execute_never \<Rightarrow> non_secure \<Rightarrow> u32" where
  "vmsav7_build_supersection32 phy mem acc glob xn pxn ns =
     VMSAv7_SUPERSECTION_BITS OR VMSAv7_SUPERSECTION_BASEADDR_32 phy OR VMSAv7_SUPERSECTION_MEMTYPE mem OR
       VMSAv7_SUPERSECTION_ACCESS acc OR VMSAv7_SUPERSECTION_GLOBAL_enum glob OR
       VMSAv7_SUPERSECTION_EXECUTE_enum xn OR VMSAv7_SUPERSECTION_PRIVILEGED_enum pxn OR
       VMSAv7_SUPERSECTION_SECURE_enum ns"

definition vmsav7_build_supersection40 ::
  "u64 \<Rightarrow> memtype \<Rightarrow> access_permission \<Rightarrow> global_flag \<Rightarrow>
    execute_never \<Rightarrow> privileged_execute_never \<Rightarrow> non_secure \<Rightarrow> u32" where
  "vmsav7_build_supersection40 phy mem acc glob xn pxn ns =
     VMSAv7_SUPERSECTION_BITS OR ucast (VMSAv7_SUPERSECTION_BASEADDR_40 phy) OR VMSAv7_SUPERSECTION_MEMTYPE mem
       OR VMSAv7_SUPERSECTION_ACCESS acc OR VMSAv7_SUPERSECTION_GLOBAL_enum glob OR
       VMSAv7_SUPERSECTION_EXECUTE_enum xn OR VMSAv7_SUPERSECTION_PRIVILEGED_enum pxn OR
       VMSAv7_SUPERSECTION_SECURE_enum ns"

lemmas VMSAv7_SUPERSECTION_defs =
  VMSAv7_SUPERSECTION_XN_def VMSAv7_SUPERSECTION_S_def VMSAv7_SUPERSECTION_nG_def VMSAv7_SUPERSECTION_AP_def
    VMSAv7_SUPERSECTION_APX_def VMSAv7_SUPERSECTION_B_def VMSAv7_SUPERSECTION_C_def VMSAv7_SUPERSECTION_TEX_def
    VMSAv7_SUPERSECTION_NS_def VMSAv7_SUPERSECTION_PXN_def
  VMSAv7_SUPERSECTION_MEMTYPE_def VMSAv7_SUPERSECTION_ACCESS_def VMSAv7_SUPERSECTION_GLOBAL_enum_def
    VMSAv7_SUPERSECTION_EXECUTE_enum_def VMSAv7_SUPERSECTION_PRIVILEGED_enum_def
    VMSAv7_SUPERSECTION_SECURE_enum_def
  VMSAv7_SUPERSECTION_BITS_def

lemma VMSAv7_SUPERSECTION_MEMTYPE_mask: "VMSAv7_SUPERSECTION_MEMTYPE mem AND 0x1700c =
    VMSAv7_SUPERSECTION_MEMTYPE mem"
  by (cases mem) (simp_all add: VMSAv7_SUPERSECTION_defs)

lemma VMSAv7_SUPERSECTION_ACCESS_mask: "VMSAv7_SUPERSECTION_ACCESS acc AND 0x8c00 = VMSAv7_SUPERSECTION_ACCESS acc"
  by (cases acc) (simp_all add: VMSAv7_SUPERSECTION_defs)

lemma VMSAv7_SUPERSECTION_GLOBAL_enum_mask: "VMSAv7_SUPERSECTION_GLOBAL_enum glob AND 0x20000 =
    VMSAv7_SUPERSECTION_GLOBAL_enum glob"
  by (cases glob) (simp_all add: VMSAv7_SUPERSECTION_defs)

lemma VMSAv7_SUPERSECTION_EXECUTE_enum_mask: "VMSAv7_SUPERSECTION_EXECUTE_enum xn AND 0x10 =
    VMSAv7_SUPERSECTION_EXECUTE_enum xn"
  by (cases xn) (simp_all add: VMSAv7_SUPERSECTION_defs)

lemma VMSAv7_SUPERSECTION_PRIVILEGED_enum_mask: "VMSAv7_SUPERSECTION_PRIVILEGED_enum pxn AND 0x1 =
    VMSAv7_SUPERSECTION_PRIVILEGED_enum pxn"
  by (cases pxn) (simp_all add: VMSAv7_SUPERSECTION_defs)

lemma VMSAv7_SUPERSECTION_SECURE_enum_mask: "VMSAv7_SUPERSECTION_SECURE_enum ns AND 0x80000 =
    VMSAv7_SUPERSECTION_SECURE_enum ns"
  by (cases ns) (simp_all add: VMSAv7_SUPERSECTION_defs)

lemmas VMSAv7_SUPERSECTION_masks = VMSAv7_SUPERSECTION_MEMTYPE_mask VMSAv7_SUPERSECTION_ACCESS_mask
    VMSAv7_SUPERSECTION_GLOBAL_enum_mask VMSAv7_SUPERSECTION_EXECUTE_enum_mask
    VMSAv7_SUPERSECTION_PRIVILEGED_enum_mask VMSAv7_SUPERSECTION_SECURE_enum_mask

text \<open>The attributes, read back from their fields.\<close>

definition vmsav7_supersection_fields :: "u32 \<Rightarrow> memtype option \<times> access_permission option
    \<times> global_flag option \<times> execute_never option \<times> privileged_execute_never option \<times>
    non_secure option" where
  "vmsav7_supersection_fields v =
     (decode_by VMSAv7_SUPERSECTION_MEMTYPE all_memtypes (v AND 0x1700c),
      decode_by VMSAv7_SUPERSECTION_ACCESS all_accesses (v AND 0x8c00),
      decode_by VMSAv7_SUPERSECTION_GLOBAL_enum [GLOBAL, NOTGLOBAL] (v AND 0x20000),
      decode_by VMSAv7_SUPERSECTION_EXECUTE_enum [EXECUTE, EXECUTENEVER] (v AND 0x10),
      decode_by VMSAv7_SUPERSECTION_PRIVILEGED_enum [PRIVILEGED_EXECUTE, PRIVILEGED_EXECUTENEVER] (v AND 0x1),
      decode_by VMSAv7_SUPERSECTION_SECURE_enum [SECURE, NON_SECURE] (v AND 0x80000))"

lemma VMSAv7_SUPERSECTION_MEMTYPE_inj: "distinct (map VMSAv7_SUPERSECTION_MEMTYPE all_memtypes)"
  by (simp add: VMSAv7_SUPERSECTION_defs all_memtypes_def)

lemma VMSAv7_SUPERSECTION_ACCESS_inj: "distinct (map VMSAv7_SUPERSECTION_ACCESS all_accesses)"
  by (simp add: VMSAv7_SUPERSECTION_defs all_accesses_def)

lemma VMSAv7_SUPERSECTION_GLOBAL_enum_inj: "distinct (map VMSAv7_SUPERSECTION_GLOBAL_enum [GLOBAL, NOTGLOBAL])"
  by (simp add: VMSAv7_SUPERSECTION_defs)

lemma VMSAv7_SUPERSECTION_EXECUTE_enum_inj: "distinct (map VMSAv7_SUPERSECTION_EXECUTE_enum [EXECUTE, EXECUTENEVER])"
  by (simp add: VMSAv7_SUPERSECTION_defs)

lemma VMSAv7_SUPERSECTION_PRIVILEGED_enum_inj: "distinct (map VMSAv7_SUPERSECTION_PRIVILEGED_enum
    [PRIVILEGED_EXECUTE, PRIVILEGED_EXECUTENEVER])"
  by (simp add: VMSAv7_SUPERSECTION_defs)

lemma VMSAv7_SUPERSECTION_SECURE_enum_inj: "distinct (map VMSAv7_SUPERSECTION_SECURE_enum [SECURE, NON_SECURE])"
  by (simp add: VMSAv7_SUPERSECTION_defs)

lemma vmsav7_build_supersection32_at: "vmsav7_build_supersection32 phy mem acc glob xn pxn ns AND n =
    (VMSAv7_SUPERSECTION_BITS AND n) OR (VMSAv7_SUPERSECTION_BASEADDR_32 phy AND n) OR
      (VMSAv7_SUPERSECTION_MEMTYPE mem AND n) OR (VMSAv7_SUPERSECTION_ACCESS acc AND n) OR
      (VMSAv7_SUPERSECTION_GLOBAL_enum glob AND n) OR (VMSAv7_SUPERSECTION_EXECUTE_enum xn AND n) OR
      (VMSAv7_SUPERSECTION_PRIVILEGED_enum pxn AND n) OR (VMSAv7_SUPERSECTION_SECURE_enum ns AND n)"
  by (simp add: vmsav7_build_supersection32_def bit.conj_disj_distrib2)

lemma vmsav7_build_supersection32_parts:
  "vmsav7_build_supersection32 phy mem acc glob xn pxn ns AND 0xff000000 = phy AND 0xff000000"
  "vmsav7_build_supersection32 phy mem acc glob xn pxn ns AND 0x40002 = 0x40002"
  "vmsav7_build_supersection32 phy mem acc glob xn pxn ns AND 0x1700c = VMSAv7_SUPERSECTION_MEMTYPE mem"
  "vmsav7_build_supersection32 phy mem acc glob xn pxn ns AND 0x8c00 = VMSAv7_SUPERSECTION_ACCESS acc"
  "vmsav7_build_supersection32 phy mem acc glob xn pxn ns AND 0x20000 = VMSAv7_SUPERSECTION_GLOBAL_enum glob"
  "vmsav7_build_supersection32 phy mem acc glob xn pxn ns AND 0x10 = VMSAv7_SUPERSECTION_EXECUTE_enum xn"
  "vmsav7_build_supersection32 phy mem acc glob xn pxn ns AND 0x1 = VMSAv7_SUPERSECTION_PRIVILEGED_enum pxn"
  "vmsav7_build_supersection32 phy mem acc glob xn pxn ns AND 0x80000 = VMSAv7_SUPERSECTION_SECURE_enum ns"
  unfolding vmsav7_build_supersection32_at
  by (simp_all add: VMSAv7_SUPERSECTION_masks VMSAv7_SUPERSECTION_masks [THEN outside_mask]
    VMSAv7_SUPERSECTION_BASEADDR_32_def VMSAv7_SUPERSECTION_BITS_def and.assoc)

section \<open>large page.h: a large page\<close>

definition VMSAv7_LARGEPAGE_BITS :: u32 where "VMSAv7_LARGEPAGE_BITS = push_bit 0 1"

definition VMSAv7_LARGEPAGE_BASEADDR :: "u32 \<Rightarrow> u32" where "VMSAv7_LARGEPAGE_BASEADDR base = base AND
    0xffff0000"

definition VMSAv7_LARGEPAGE_XN :: "u32 \<Rightarrow> u32" where "VMSAv7_LARGEPAGE_XN x = push_bit 15 x"
definition VMSAv7_LARGEPAGE_S :: "u32 \<Rightarrow> u32" where "VMSAv7_LARGEPAGE_S x = push_bit 10 x"
definition VMSAv7_LARGEPAGE_nG :: "u32 \<Rightarrow> u32" where "VMSAv7_LARGEPAGE_nG x = push_bit 11 x"
definition VMSAv7_LARGEPAGE_AP :: "u32 \<Rightarrow> u32" where "VMSAv7_LARGEPAGE_AP x = push_bit 4 x"
definition VMSAv7_LARGEPAGE_APX :: "u32 \<Rightarrow> u32" where "VMSAv7_LARGEPAGE_APX x = push_bit 9 x"
definition VMSAv7_LARGEPAGE_B :: "u32 \<Rightarrow> u32" where "VMSAv7_LARGEPAGE_B x = push_bit 2 x"
definition VMSAv7_LARGEPAGE_C :: "u32 \<Rightarrow> u32" where "VMSAv7_LARGEPAGE_C x = push_bit 3 x"
definition VMSAv7_LARGEPAGE_TEX :: "u32 \<Rightarrow> u32" where "VMSAv7_LARGEPAGE_TEX x = push_bit 12 x"

definition VMSAv7_LARGEPAGE_ACCESS :: "access_permission \<Rightarrow> u32" where
  "VMSAv7_LARGEPAGE_ACCESS a = (case access_fields a of (apx, ap) \<Rightarrow> VMSAv7_LARGEPAGE_APX apx OR
    VMSAv7_LARGEPAGE_AP ap)"

definition VMSAv7_LARGEPAGE_MEMTYPE :: "memtype \<Rightarrow> u32" where
  "VMSAv7_LARGEPAGE_MEMTYPE m = (case memtype_fields m of (tex, c, b, s) \<Rightarrow>
     VMSAv7_LARGEPAGE_TEX tex OR VMSAv7_LARGEPAGE_C c OR VMSAv7_LARGEPAGE_B b OR VMSAv7_LARGEPAGE_S s)"

definition VMSAv7_LARGEPAGE_GLOBAL_enum :: "global_flag \<Rightarrow> u32" where "VMSAv7_LARGEPAGE_GLOBAL_enum g
    = VMSAv7_LARGEPAGE_nG (global_field g)"
definition VMSAv7_LARGEPAGE_EXECUTE_enum :: "execute_never \<Rightarrow> u32" where
    "VMSAv7_LARGEPAGE_EXECUTE_enum x = VMSAv7_LARGEPAGE_XN (execute_field x)"

definition vmsav7_build_largepage ::
  "u32 \<Rightarrow> memtype \<Rightarrow> access_permission \<Rightarrow> global_flag \<Rightarrow>
    execute_never \<Rightarrow> u32" where
  "vmsav7_build_largepage phy mem acc glob xn =
     VMSAv7_LARGEPAGE_BITS OR VMSAv7_LARGEPAGE_BASEADDR phy OR VMSAv7_LARGEPAGE_MEMTYPE mem OR
       VMSAv7_LARGEPAGE_ACCESS acc OR VMSAv7_LARGEPAGE_GLOBAL_enum glob OR VMSAv7_LARGEPAGE_EXECUTE_enum xn"

lemmas VMSAv7_LARGEPAGE_defs =
  VMSAv7_LARGEPAGE_XN_def VMSAv7_LARGEPAGE_S_def VMSAv7_LARGEPAGE_nG_def VMSAv7_LARGEPAGE_AP_def
    VMSAv7_LARGEPAGE_APX_def VMSAv7_LARGEPAGE_B_def VMSAv7_LARGEPAGE_C_def VMSAv7_LARGEPAGE_TEX_def
  VMSAv7_LARGEPAGE_MEMTYPE_def VMSAv7_LARGEPAGE_ACCESS_def VMSAv7_LARGEPAGE_GLOBAL_enum_def
    VMSAv7_LARGEPAGE_EXECUTE_enum_def
  VMSAv7_LARGEPAGE_BITS_def

lemma VMSAv7_LARGEPAGE_MEMTYPE_mask: "VMSAv7_LARGEPAGE_MEMTYPE mem AND 0x740c = VMSAv7_LARGEPAGE_MEMTYPE mem"
  by (cases mem) (simp_all add: VMSAv7_LARGEPAGE_defs)

lemma VMSAv7_LARGEPAGE_ACCESS_mask: "VMSAv7_LARGEPAGE_ACCESS acc AND 0x230 = VMSAv7_LARGEPAGE_ACCESS acc"
  by (cases acc) (simp_all add: VMSAv7_LARGEPAGE_defs)

lemma VMSAv7_LARGEPAGE_GLOBAL_enum_mask: "VMSAv7_LARGEPAGE_GLOBAL_enum glob AND 0x800 =
    VMSAv7_LARGEPAGE_GLOBAL_enum glob"
  by (cases glob) (simp_all add: VMSAv7_LARGEPAGE_defs)

lemma VMSAv7_LARGEPAGE_EXECUTE_enum_mask: "VMSAv7_LARGEPAGE_EXECUTE_enum xn AND 0x8000 =
    VMSAv7_LARGEPAGE_EXECUTE_enum xn"
  by (cases xn) (simp_all add: VMSAv7_LARGEPAGE_defs)

lemmas VMSAv7_LARGEPAGE_masks = VMSAv7_LARGEPAGE_MEMTYPE_mask VMSAv7_LARGEPAGE_ACCESS_mask
    VMSAv7_LARGEPAGE_GLOBAL_enum_mask VMSAv7_LARGEPAGE_EXECUTE_enum_mask

text \<open>The attributes, read back from their fields.\<close>

definition vmsav7_largepage_fields :: "u32 \<Rightarrow> memtype option \<times> access_permission option
    \<times> global_flag option \<times> execute_never option" where
  "vmsav7_largepage_fields v =
     (decode_by VMSAv7_LARGEPAGE_MEMTYPE all_memtypes (v AND 0x740c),
      decode_by VMSAv7_LARGEPAGE_ACCESS all_accesses (v AND 0x230),
      decode_by VMSAv7_LARGEPAGE_GLOBAL_enum [GLOBAL, NOTGLOBAL] (v AND 0x800),
      decode_by VMSAv7_LARGEPAGE_EXECUTE_enum [EXECUTE, EXECUTENEVER] (v AND 0x8000))"

lemma VMSAv7_LARGEPAGE_MEMTYPE_inj: "distinct (map VMSAv7_LARGEPAGE_MEMTYPE all_memtypes)"
  by (simp add: VMSAv7_LARGEPAGE_defs all_memtypes_def)

lemma VMSAv7_LARGEPAGE_ACCESS_inj: "distinct (map VMSAv7_LARGEPAGE_ACCESS all_accesses)"
  by (simp add: VMSAv7_LARGEPAGE_defs all_accesses_def)

lemma VMSAv7_LARGEPAGE_GLOBAL_enum_inj: "distinct (map VMSAv7_LARGEPAGE_GLOBAL_enum [GLOBAL, NOTGLOBAL])"
  by (simp add: VMSAv7_LARGEPAGE_defs)

lemma VMSAv7_LARGEPAGE_EXECUTE_enum_inj: "distinct (map VMSAv7_LARGEPAGE_EXECUTE_enum [EXECUTE, EXECUTENEVER])"
  by (simp add: VMSAv7_LARGEPAGE_defs)

lemma vmsav7_build_largepage_at: "vmsav7_build_largepage phy mem acc glob xn AND n =
    (VMSAv7_LARGEPAGE_BITS AND n) OR (VMSAv7_LARGEPAGE_BASEADDR phy AND n) OR (VMSAv7_LARGEPAGE_MEMTYPE mem AND
      n) OR (VMSAv7_LARGEPAGE_ACCESS acc AND n) OR (VMSAv7_LARGEPAGE_GLOBAL_enum glob AND n) OR
      (VMSAv7_LARGEPAGE_EXECUTE_enum xn AND n)"
  by (simp add: vmsav7_build_largepage_def bit.conj_disj_distrib2)

lemma vmsav7_build_largepage_parts:
  "vmsav7_build_largepage phy mem acc glob xn AND 0xffff0000 = phy AND 0xffff0000"
  "vmsav7_build_largepage phy mem acc glob xn AND 3 = 1"
  "vmsav7_build_largepage phy mem acc glob xn AND 0x740c = VMSAv7_LARGEPAGE_MEMTYPE mem"
  "vmsav7_build_largepage phy mem acc glob xn AND 0x230 = VMSAv7_LARGEPAGE_ACCESS acc"
  "vmsav7_build_largepage phy mem acc glob xn AND 0x800 = VMSAv7_LARGEPAGE_GLOBAL_enum glob"
  "vmsav7_build_largepage phy mem acc glob xn AND 0x8000 = VMSAv7_LARGEPAGE_EXECUTE_enum xn"
  unfolding vmsav7_build_largepage_at
  by (simp_all add: VMSAv7_LARGEPAGE_masks VMSAv7_LARGEPAGE_masks [THEN outside_mask]
    VMSAv7_LARGEPAGE_BASEADDR_def VMSAv7_LARGEPAGE_BITS_def and.assoc)

section \<open>small page.h: a small page\<close>

definition VMSAv7_SMALLPAGE_BITS :: u32 where "VMSAv7_SMALLPAGE_BITS = push_bit 1 1"

definition VMSAv7_SMALLPAGE_BASEADDR :: "u32 \<Rightarrow> u32" where "VMSAv7_SMALLPAGE_BASEADDR base = base AND
    0xfffff000"

definition VMSAv7_SMALLPAGE_XN :: "u32 \<Rightarrow> u32" where "VMSAv7_SMALLPAGE_XN x = push_bit 0 x"
definition VMSAv7_SMALLPAGE_S :: "u32 \<Rightarrow> u32" where "VMSAv7_SMALLPAGE_S x = push_bit 10 x"
definition VMSAv7_SMALLPAGE_nG :: "u32 \<Rightarrow> u32" where "VMSAv7_SMALLPAGE_nG x = push_bit 11 x"
definition VMSAv7_SMALLPAGE_AP :: "u32 \<Rightarrow> u32" where "VMSAv7_SMALLPAGE_AP x = push_bit 4 x"
definition VMSAv7_SMALLPAGE_APX :: "u32 \<Rightarrow> u32" where "VMSAv7_SMALLPAGE_APX x = push_bit 9 x"
definition VMSAv7_SMALLPAGE_B :: "u32 \<Rightarrow> u32" where "VMSAv7_SMALLPAGE_B x = push_bit 2 x"
definition VMSAv7_SMALLPAGE_C :: "u32 \<Rightarrow> u32" where "VMSAv7_SMALLPAGE_C x = push_bit 3 x"
definition VMSAv7_SMALLPAGE_TEX :: "u32 \<Rightarrow> u32" where "VMSAv7_SMALLPAGE_TEX x = push_bit 6 x"

definition VMSAv7_SMALLPAGE_ACCESS :: "access_permission \<Rightarrow> u32" where
  "VMSAv7_SMALLPAGE_ACCESS a = (case access_fields a of (apx, ap) \<Rightarrow> VMSAv7_SMALLPAGE_APX apx OR
    VMSAv7_SMALLPAGE_AP ap)"

definition VMSAv7_SMALLPAGE_MEMTYPE :: "memtype \<Rightarrow> u32" where
  "VMSAv7_SMALLPAGE_MEMTYPE m = (case memtype_fields m of (tex, c, b, s) \<Rightarrow>
     VMSAv7_SMALLPAGE_TEX tex OR VMSAv7_SMALLPAGE_C c OR VMSAv7_SMALLPAGE_B b OR VMSAv7_SMALLPAGE_S s)"

definition VMSAv7_SMALLPAGE_GLOBAL_enum :: "global_flag \<Rightarrow> u32" where "VMSAv7_SMALLPAGE_GLOBAL_enum g
    = VMSAv7_SMALLPAGE_nG (global_field g)"
definition VMSAv7_SMALLPAGE_EXECUTE_enum :: "execute_never \<Rightarrow> u32" where
    "VMSAv7_SMALLPAGE_EXECUTE_enum x = VMSAv7_SMALLPAGE_XN (execute_field x)"

definition vmsav7_build_smallpage ::
  "u32 \<Rightarrow> memtype \<Rightarrow> access_permission \<Rightarrow> global_flag \<Rightarrow>
    execute_never \<Rightarrow> u32" where
  "vmsav7_build_smallpage phy mem acc glob xn =
     VMSAv7_SMALLPAGE_BITS OR VMSAv7_SMALLPAGE_BASEADDR phy OR VMSAv7_SMALLPAGE_MEMTYPE mem OR
       VMSAv7_SMALLPAGE_ACCESS acc OR VMSAv7_SMALLPAGE_GLOBAL_enum glob OR VMSAv7_SMALLPAGE_EXECUTE_enum xn"

lemmas VMSAv7_SMALLPAGE_defs =
  VMSAv7_SMALLPAGE_XN_def VMSAv7_SMALLPAGE_S_def VMSAv7_SMALLPAGE_nG_def VMSAv7_SMALLPAGE_AP_def
    VMSAv7_SMALLPAGE_APX_def VMSAv7_SMALLPAGE_B_def VMSAv7_SMALLPAGE_C_def VMSAv7_SMALLPAGE_TEX_def
  VMSAv7_SMALLPAGE_MEMTYPE_def VMSAv7_SMALLPAGE_ACCESS_def VMSAv7_SMALLPAGE_GLOBAL_enum_def
    VMSAv7_SMALLPAGE_EXECUTE_enum_def
  VMSAv7_SMALLPAGE_BITS_def

lemma VMSAv7_SMALLPAGE_MEMTYPE_mask: "VMSAv7_SMALLPAGE_MEMTYPE mem AND 0x5cc = VMSAv7_SMALLPAGE_MEMTYPE mem"
  by (cases mem) (simp_all add: VMSAv7_SMALLPAGE_defs)

lemma VMSAv7_SMALLPAGE_ACCESS_mask: "VMSAv7_SMALLPAGE_ACCESS acc AND 0x230 = VMSAv7_SMALLPAGE_ACCESS acc"
  by (cases acc) (simp_all add: VMSAv7_SMALLPAGE_defs)

lemma VMSAv7_SMALLPAGE_GLOBAL_enum_mask: "VMSAv7_SMALLPAGE_GLOBAL_enum glob AND 0x800 =
    VMSAv7_SMALLPAGE_GLOBAL_enum glob"
  by (cases glob) (simp_all add: VMSAv7_SMALLPAGE_defs)

lemma VMSAv7_SMALLPAGE_EXECUTE_enum_mask: "VMSAv7_SMALLPAGE_EXECUTE_enum xn AND 0x1 =
    VMSAv7_SMALLPAGE_EXECUTE_enum xn"
  by (cases xn) (simp_all add: VMSAv7_SMALLPAGE_defs)

lemmas VMSAv7_SMALLPAGE_masks = VMSAv7_SMALLPAGE_MEMTYPE_mask VMSAv7_SMALLPAGE_ACCESS_mask
    VMSAv7_SMALLPAGE_GLOBAL_enum_mask VMSAv7_SMALLPAGE_EXECUTE_enum_mask

text \<open>The attributes, read back from their fields.\<close>

definition vmsav7_smallpage_fields :: "u32 \<Rightarrow> memtype option \<times> access_permission option
    \<times> global_flag option \<times> execute_never option" where
  "vmsav7_smallpage_fields v =
     (decode_by VMSAv7_SMALLPAGE_MEMTYPE all_memtypes (v AND 0x5cc),
      decode_by VMSAv7_SMALLPAGE_ACCESS all_accesses (v AND 0x230),
      decode_by VMSAv7_SMALLPAGE_GLOBAL_enum [GLOBAL, NOTGLOBAL] (v AND 0x800),
      decode_by VMSAv7_SMALLPAGE_EXECUTE_enum [EXECUTE, EXECUTENEVER] (v AND 0x1))"

lemma VMSAv7_SMALLPAGE_MEMTYPE_inj: "distinct (map VMSAv7_SMALLPAGE_MEMTYPE all_memtypes)"
  by (simp add: VMSAv7_SMALLPAGE_defs all_memtypes_def)

lemma VMSAv7_SMALLPAGE_ACCESS_inj: "distinct (map VMSAv7_SMALLPAGE_ACCESS all_accesses)"
  by (simp add: VMSAv7_SMALLPAGE_defs all_accesses_def)

lemma VMSAv7_SMALLPAGE_GLOBAL_enum_inj: "distinct (map VMSAv7_SMALLPAGE_GLOBAL_enum [GLOBAL, NOTGLOBAL])"
  by (simp add: VMSAv7_SMALLPAGE_defs)

lemma VMSAv7_SMALLPAGE_EXECUTE_enum_inj: "distinct (map VMSAv7_SMALLPAGE_EXECUTE_enum [EXECUTE, EXECUTENEVER])"
  by (simp add: VMSAv7_SMALLPAGE_defs)

lemma vmsav7_build_smallpage_at: "vmsav7_build_smallpage phy mem acc glob xn AND n =
    (VMSAv7_SMALLPAGE_BITS AND n) OR (VMSAv7_SMALLPAGE_BASEADDR phy AND n) OR (VMSAv7_SMALLPAGE_MEMTYPE mem AND
      n) OR (VMSAv7_SMALLPAGE_ACCESS acc AND n) OR (VMSAv7_SMALLPAGE_GLOBAL_enum glob AND n) OR
      (VMSAv7_SMALLPAGE_EXECUTE_enum xn AND n)"
  by (simp add: vmsav7_build_smallpage_def bit.conj_disj_distrib2)

lemma vmsav7_build_smallpage_parts:
  "vmsav7_build_smallpage phy mem acc glob xn AND 0xfffff000 = phy AND 0xfffff000"
  "vmsav7_build_smallpage phy mem acc glob xn AND 2 = 2"
  "vmsav7_build_smallpage phy mem acc glob xn AND 0x5cc = VMSAv7_SMALLPAGE_MEMTYPE mem"
  "vmsav7_build_smallpage phy mem acc glob xn AND 0x230 = VMSAv7_SMALLPAGE_ACCESS acc"
  "vmsav7_build_smallpage phy mem acc glob xn AND 0x800 = VMSAv7_SMALLPAGE_GLOBAL_enum glob"
  "vmsav7_build_smallpage phy mem acc glob xn AND 0x1 = VMSAv7_SMALLPAGE_EXECUTE_enum xn"
  unfolding vmsav7_build_smallpage_at
  by (simp_all add: VMSAv7_SMALLPAGE_masks VMSAv7_SMALLPAGE_masks [THEN outside_mask]
    VMSAv7_SMALLPAGE_BASEADDR_def VMSAv7_SMALLPAGE_BITS_def and.assoc)

section \<open>pagetable.h: a page table\<close>

definition VMSAv7_PAGETABLE_BITS :: u32 where "VMSAv7_PAGETABLE_BITS = 1"

definition VMSAv7_PAGETABLE_BASEADDR :: "u32 \<Rightarrow> u32" where "VMSAv7_PAGETABLE_BASEADDR base = base AND
    0xfffffc00"

definition VMSAv7_PAGETABLE_DOMAIN :: "u32 \<Rightarrow> u32" where "VMSAv7_PAGETABLE_DOMAIN x = push_bit 5 x"
definition VMSAv7_PAGETABLE_NS :: "u32 \<Rightarrow> u32" where "VMSAv7_PAGETABLE_NS x = push_bit 3 x"
definition VMSAv7_PAGETABLE_PXN :: "u32 \<Rightarrow> u32" where "VMSAv7_PAGETABLE_PXN x = push_bit 2 x"

definition VMSAv7_PAGETABLE_DOMAIN_enum :: "domain \<Rightarrow> u32" where
  "VMSAv7_PAGETABLE_DOMAIN_enum d = VMSAv7_PAGETABLE_DOMAIN (domain_number d)"

definition VMSAv7_PAGETABLE_PRIVILEGED_enum :: "privileged_execute_never \<Rightarrow> u32" where
    "VMSAv7_PAGETABLE_PRIVILEGED_enum x = VMSAv7_PAGETABLE_PXN (privileged_field x)"
definition VMSAv7_PAGETABLE_SECURE_enum :: "non_secure \<Rightarrow> u32" where "VMSAv7_PAGETABLE_SECURE_enum x
    = VMSAv7_PAGETABLE_NS (secure_field x)"

definition vmsav7_build_pagetable ::
  "u32 \<Rightarrow> domain \<Rightarrow> privileged_execute_never \<Rightarrow> non_secure \<Rightarrow> u32" where
  "vmsav7_build_pagetable phy d pxn ns =
     VMSAv7_PAGETABLE_BITS OR VMSAv7_PAGETABLE_BASEADDR phy OR VMSAv7_PAGETABLE_DOMAIN_enum d OR
       VMSAv7_PAGETABLE_PRIVILEGED_enum pxn OR VMSAv7_PAGETABLE_SECURE_enum ns"

lemmas VMSAv7_PAGETABLE_defs =
  VMSAv7_PAGETABLE_DOMAIN_def VMSAv7_PAGETABLE_NS_def VMSAv7_PAGETABLE_PXN_def
  VMSAv7_PAGETABLE_DOMAIN_enum_def VMSAv7_PAGETABLE_PRIVILEGED_enum_def VMSAv7_PAGETABLE_SECURE_enum_def
  VMSAv7_PAGETABLE_BITS_def

lemma VMSAv7_PAGETABLE_DOMAIN_enum_mask: "VMSAv7_PAGETABLE_DOMAIN_enum d AND 0x1e0 = VMSAv7_PAGETABLE_DOMAIN_enum d"
  by (cases d) (simp_all add: VMSAv7_PAGETABLE_defs)

lemma VMSAv7_PAGETABLE_PRIVILEGED_enum_mask: "VMSAv7_PAGETABLE_PRIVILEGED_enum pxn AND 0x4 =
    VMSAv7_PAGETABLE_PRIVILEGED_enum pxn"
  by (cases pxn) (simp_all add: VMSAv7_PAGETABLE_defs)

lemma VMSAv7_PAGETABLE_SECURE_enum_mask: "VMSAv7_PAGETABLE_SECURE_enum ns AND 0x8 = VMSAv7_PAGETABLE_SECURE_enum ns"
  by (cases ns) (simp_all add: VMSAv7_PAGETABLE_defs)

lemmas VMSAv7_PAGETABLE_masks = VMSAv7_PAGETABLE_DOMAIN_enum_mask VMSAv7_PAGETABLE_PRIVILEGED_enum_mask
    VMSAv7_PAGETABLE_SECURE_enum_mask

text \<open>The attributes, read back from their fields.\<close>

definition vmsav7_pagetable_fields :: "u32 \<Rightarrow> domain option \<times> privileged_execute_never option
    \<times> non_secure option" where
  "vmsav7_pagetable_fields v =
     (decode_by VMSAv7_PAGETABLE_DOMAIN_enum all_domains (v AND 0x1e0),
      decode_by VMSAv7_PAGETABLE_PRIVILEGED_enum [PRIVILEGED_EXECUTE, PRIVILEGED_EXECUTENEVER] (v AND 0x4),
      decode_by VMSAv7_PAGETABLE_SECURE_enum [SECURE, NON_SECURE] (v AND 0x8))"

lemma VMSAv7_PAGETABLE_DOMAIN_enum_inj: "distinct (map VMSAv7_PAGETABLE_DOMAIN_enum all_domains)"
  by (simp add: VMSAv7_PAGETABLE_defs all_domains_def)

lemma VMSAv7_PAGETABLE_PRIVILEGED_enum_inj: "distinct (map VMSAv7_PAGETABLE_PRIVILEGED_enum [PRIVILEGED_EXECUTE,
    PRIVILEGED_EXECUTENEVER])"
  by (simp add: VMSAv7_PAGETABLE_defs)

lemma VMSAv7_PAGETABLE_SECURE_enum_inj: "distinct (map VMSAv7_PAGETABLE_SECURE_enum [SECURE, NON_SECURE])"
  by (simp add: VMSAv7_PAGETABLE_defs)

lemma vmsav7_build_pagetable_at: "vmsav7_build_pagetable phy d pxn ns AND n =
    (VMSAv7_PAGETABLE_BITS AND n) OR (VMSAv7_PAGETABLE_BASEADDR phy AND n) OR (VMSAv7_PAGETABLE_DOMAIN_enum d
      AND n) OR (VMSAv7_PAGETABLE_PRIVILEGED_enum pxn AND n) OR (VMSAv7_PAGETABLE_SECURE_enum ns AND n)"
  by (simp add: vmsav7_build_pagetable_def bit.conj_disj_distrib2)

lemma vmsav7_build_pagetable_parts:
  "vmsav7_build_pagetable phy d pxn ns AND 0xfffffc00 = phy AND 0xfffffc00"
  "vmsav7_build_pagetable phy d pxn ns AND 3 = 1"
  "vmsav7_build_pagetable phy d pxn ns AND 0x1e0 = VMSAv7_PAGETABLE_DOMAIN_enum d"
  "vmsav7_build_pagetable phy d pxn ns AND 0x4 = VMSAv7_PAGETABLE_PRIVILEGED_enum pxn"
  "vmsav7_build_pagetable phy d pxn ns AND 0x8 = VMSAv7_PAGETABLE_SECURE_enum ns"
  unfolding vmsav7_build_pagetable_at
  by (simp_all add: VMSAv7_PAGETABLE_masks VMSAv7_PAGETABLE_masks [THEN outside_mask]
    VMSAv7_PAGETABLE_BASEADDR_def VMSAv7_PAGETABLE_BITS_def and.assoc)

end
