(* ===== verification/VMSAv6.thy ===== *)
theory VMSAv6
  imports VMSAv7
begin

text \<open>
  The builders of \<open>src/kernel/arch/arm_a/mm/VMSAv6\<close>: \<open>section.h\<close>,
    \<open>supersection.h\<close>, \<open>large_page.h\<close>,
  \<open>extended_small_page.h\<close> and \<open>coarse_page_table.h\<close>, and that they build the
    descriptors of the ones
  for VMSAv7 with the fields that VMSAv6 does not have left 0.
\<close>

section \<open>section.h: a section\<close>

definition VMSAv6_SECTION_BITS :: u32 where "VMSAv6_SECTION_BITS = push_bit 18 0 OR push_bit 1 1"

definition VMSAv6_SECTION_BASEADDR :: "u32 \<Rightarrow> u32" where "VMSAv6_SECTION_BASEADDR base = base AND
    0xfff00000"

definition VMSAv6_SECTION_XN :: "u32 \<Rightarrow> u32" where "VMSAv6_SECTION_XN x = push_bit 4 x"
definition VMSAv6_SECTION_S :: "u32 \<Rightarrow> u32" where "VMSAv6_SECTION_S x = push_bit 16 x"
definition VMSAv6_SECTION_nG :: "u32 \<Rightarrow> u32" where "VMSAv6_SECTION_nG x = push_bit 17 x"
definition VMSAv6_SECTION_AP :: "u32 \<Rightarrow> u32" where "VMSAv6_SECTION_AP x = push_bit 10 x"
definition VMSAv6_SECTION_APX :: "u32 \<Rightarrow> u32" where "VMSAv6_SECTION_APX x = push_bit 15 x"
definition VMSAv6_SECTION_DOMAIN :: "u32 \<Rightarrow> u32" where "VMSAv6_SECTION_DOMAIN x = push_bit 5 x"
definition VMSAv6_SECTION_B :: "u32 \<Rightarrow> u32" where "VMSAv6_SECTION_B x = push_bit 2 x"
definition VMSAv6_SECTION_C :: "u32 \<Rightarrow> u32" where "VMSAv6_SECTION_C x = push_bit 3 x"
definition VMSAv6_SECTION_TEX :: "u32 \<Rightarrow> u32" where "VMSAv6_SECTION_TEX x = push_bit 12 x"

definition VMSAv6_SECTION_ACCESS :: "access_permission \<Rightarrow> u32" where
  "VMSAv6_SECTION_ACCESS a = (case access_fields a of (apx, ap) \<Rightarrow> VMSAv6_SECTION_APX apx OR
    VMSAv6_SECTION_AP ap)"

definition VMSAv6_SECTION_DOMAIN_enum :: "domain \<Rightarrow> u32" where
  "VMSAv6_SECTION_DOMAIN_enum d = VMSAv6_SECTION_DOMAIN (domain_number d)"

definition VMSAv6_SECTION_MEMTYPE :: "memtype \<Rightarrow> u32" where
  "VMSAv6_SECTION_MEMTYPE m = (case memtype_fields m of (tex, c, b, s) \<Rightarrow>
     VMSAv6_SECTION_TEX tex OR VMSAv6_SECTION_C c OR VMSAv6_SECTION_B b OR VMSAv6_SECTION_S s)"

definition VMSAv6_SECTION_GLOBAL_enum :: "global_flag \<Rightarrow> u32" where "VMSAv6_SECTION_GLOBAL_enum g =
    VMSAv6_SECTION_nG (global_field g)"
definition VMSAv6_SECTION_EXECUTE_enum :: "execute_never \<Rightarrow> u32" where "VMSAv6_SECTION_EXECUTE_enum x
    = VMSAv6_SECTION_XN (execute_field x)"

definition vmsav6_build_section ::
  "u32 \<Rightarrow> memtype \<Rightarrow> domain \<Rightarrow> access_permission \<Rightarrow> global_flag
    \<Rightarrow> execute_never \<Rightarrow> u32" where
  "vmsav6_build_section phy mem d acc glob xn =
     VMSAv6_SECTION_BITS OR VMSAv6_SECTION_BASEADDR phy OR VMSAv6_SECTION_MEMTYPE mem OR
       VMSAv6_SECTION_DOMAIN_enum d OR VMSAv6_SECTION_ACCESS acc OR VMSAv6_SECTION_GLOBAL_enum glob OR
       VMSAv6_SECTION_EXECUTE_enum xn"

lemmas VMSAv6_SECTION_defs =
  VMSAv6_SECTION_XN_def VMSAv6_SECTION_S_def VMSAv6_SECTION_nG_def VMSAv6_SECTION_AP_def VMSAv6_SECTION_APX_def
    VMSAv6_SECTION_DOMAIN_def VMSAv6_SECTION_B_def VMSAv6_SECTION_C_def VMSAv6_SECTION_TEX_def
  VMSAv6_SECTION_MEMTYPE_def VMSAv6_SECTION_DOMAIN_enum_def VMSAv6_SECTION_ACCESS_def
    VMSAv6_SECTION_GLOBAL_enum_def VMSAv6_SECTION_EXECUTE_enum_def
  VMSAv6_SECTION_BITS_def

section \<open>supersection.h: a supersection\<close>

definition VMSAv6_SUPERSECTION_BITS :: u32 where "VMSAv6_SUPERSECTION_BITS = push_bit 18 1 OR push_bit 1 1"

definition VMSAv6_SUPERSECTION_BASEADDR_32 :: "u32 \<Rightarrow> u32" where "VMSAv6_SUPERSECTION_BASEADDR_32
    base = base AND 0xff000000"

definition VMSAv6_SUPERSECTION_BASEADDR_40 :: "u64 \<Rightarrow> u64" where
  "VMSAv6_SUPERSECTION_BASEADDR_40 base = drop_bit 0 (base AND 0x00ff000000) OR drop_bit 12 (base AND 0x0f00000000) OR
     drop_bit 31 (base AND 0xf000000000)"

definition VMSAv6_SUPERSECTION_XN :: "u32 \<Rightarrow> u32" where "VMSAv6_SUPERSECTION_XN x = push_bit 4 x"
definition VMSAv6_SUPERSECTION_S :: "u32 \<Rightarrow> u32" where "VMSAv6_SUPERSECTION_S x = push_bit 16 x"
definition VMSAv6_SUPERSECTION_nG :: "u32 \<Rightarrow> u32" where "VMSAv6_SUPERSECTION_nG x = push_bit 17 x"
definition VMSAv6_SUPERSECTION_AP :: "u32 \<Rightarrow> u32" where "VMSAv6_SUPERSECTION_AP x = push_bit 10 x"
definition VMSAv6_SUPERSECTION_APX :: "u32 \<Rightarrow> u32" where "VMSAv6_SUPERSECTION_APX x = push_bit 15 x"
definition VMSAv6_SUPERSECTION_B :: "u32 \<Rightarrow> u32" where "VMSAv6_SUPERSECTION_B x = push_bit 2 x"
definition VMSAv6_SUPERSECTION_C :: "u32 \<Rightarrow> u32" where "VMSAv6_SUPERSECTION_C x = push_bit 3 x"
definition VMSAv6_SUPERSECTION_TEX :: "u32 \<Rightarrow> u32" where "VMSAv6_SUPERSECTION_TEX x = push_bit 12 x"

definition VMSAv6_SUPERSECTION_ACCESS :: "access_permission \<Rightarrow> u32" where
  "VMSAv6_SUPERSECTION_ACCESS a = (case access_fields a of (apx, ap) \<Rightarrow> VMSAv6_SUPERSECTION_APX apx
    OR VMSAv6_SUPERSECTION_AP ap)"

definition VMSAv6_SUPERSECTION_MEMTYPE :: "memtype \<Rightarrow> u32" where
  "VMSAv6_SUPERSECTION_MEMTYPE m = (case memtype_fields m of (tex, c, b, s) \<Rightarrow>
     VMSAv6_SUPERSECTION_TEX tex OR VMSAv6_SUPERSECTION_C c OR VMSAv6_SUPERSECTION_B b OR VMSAv6_SUPERSECTION_S s)"

definition VMSAv6_SUPERSECTION_GLOBAL_enum :: "global_flag \<Rightarrow> u32" where
    "VMSAv6_SUPERSECTION_GLOBAL_enum g = VMSAv6_SUPERSECTION_nG (global_field g)"
definition VMSAv6_SUPERSECTION_EXECUTE_enum :: "execute_never \<Rightarrow> u32" where
    "VMSAv6_SUPERSECTION_EXECUTE_enum x = VMSAv6_SUPERSECTION_XN (execute_field x)"

definition vmsav6_build_supersection32 ::
  "u32 \<Rightarrow> memtype \<Rightarrow> access_permission \<Rightarrow> global_flag \<Rightarrow>
    execute_never \<Rightarrow> u32" where
  "vmsav6_build_supersection32 phy mem acc glob xn =
     VMSAv6_SUPERSECTION_BITS OR VMSAv6_SUPERSECTION_BASEADDR_32 phy OR VMSAv6_SUPERSECTION_MEMTYPE mem OR
       VMSAv6_SUPERSECTION_ACCESS acc OR VMSAv6_SUPERSECTION_GLOBAL_enum glob OR
       VMSAv6_SUPERSECTION_EXECUTE_enum xn"

definition vmsav6_build_supersection40 ::
  "u64 \<Rightarrow> memtype \<Rightarrow> access_permission \<Rightarrow> global_flag \<Rightarrow>
    execute_never \<Rightarrow> u32" where
  "vmsav6_build_supersection40 phy mem acc glob xn =
     VMSAv6_SUPERSECTION_BITS OR ucast (VMSAv6_SUPERSECTION_BASEADDR_40 phy) OR VMSAv6_SUPERSECTION_MEMTYPE mem
       OR VMSAv6_SUPERSECTION_ACCESS acc OR VMSAv6_SUPERSECTION_GLOBAL_enum glob OR
       VMSAv6_SUPERSECTION_EXECUTE_enum xn"

lemmas VMSAv6_SUPERSECTION_defs =
  VMSAv6_SUPERSECTION_XN_def VMSAv6_SUPERSECTION_S_def VMSAv6_SUPERSECTION_nG_def VMSAv6_SUPERSECTION_AP_def
    VMSAv6_SUPERSECTION_APX_def VMSAv6_SUPERSECTION_B_def VMSAv6_SUPERSECTION_C_def VMSAv6_SUPERSECTION_TEX_def
  VMSAv6_SUPERSECTION_MEMTYPE_def VMSAv6_SUPERSECTION_ACCESS_def VMSAv6_SUPERSECTION_GLOBAL_enum_def
    VMSAv6_SUPERSECTION_EXECUTE_enum_def
  VMSAv6_SUPERSECTION_BITS_def

section \<open>large page.h: a large page\<close>

definition VMSAv6_LARGEPAGE_BITS :: u32 where "VMSAv6_LARGEPAGE_BITS = push_bit 0 1"

definition VMSAv6_LARGEPAGE_BASEADDR :: "u32 \<Rightarrow> u32" where "VMSAv6_LARGEPAGE_BASEADDR base = base AND
    0xffff0000"

definition VMSAv6_LARGEPAGE_XN :: "u32 \<Rightarrow> u32" where "VMSAv6_LARGEPAGE_XN x = push_bit 15 x"
definition VMSAv6_LARGEPAGE_S :: "u32 \<Rightarrow> u32" where "VMSAv6_LARGEPAGE_S x = push_bit 10 x"
definition VMSAv6_LARGEPAGE_nG :: "u32 \<Rightarrow> u32" where "VMSAv6_LARGEPAGE_nG x = push_bit 11 x"
definition VMSAv6_LARGEPAGE_AP :: "u32 \<Rightarrow> u32" where "VMSAv6_LARGEPAGE_AP x = push_bit 4 x"
definition VMSAv6_LARGEPAGE_APX :: "u32 \<Rightarrow> u32" where "VMSAv6_LARGEPAGE_APX x = push_bit 9 x"
definition VMSAv6_LARGEPAGE_B :: "u32 \<Rightarrow> u32" where "VMSAv6_LARGEPAGE_B x = push_bit 2 x"
definition VMSAv6_LARGEPAGE_C :: "u32 \<Rightarrow> u32" where "VMSAv6_LARGEPAGE_C x = push_bit 3 x"
definition VMSAv6_LARGEPAGE_TEX :: "u32 \<Rightarrow> u32" where "VMSAv6_LARGEPAGE_TEX x = push_bit 12 x"

definition VMSAv6_LARGEPAGE_ACCESS :: "access_permission \<Rightarrow> u32" where
  "VMSAv6_LARGEPAGE_ACCESS a = (case access_fields a of (apx, ap) \<Rightarrow> VMSAv6_LARGEPAGE_APX apx OR
    VMSAv6_LARGEPAGE_AP ap)"

definition VMSAv6_LARGEPAGE_MEMTYPE :: "memtype \<Rightarrow> u32" where
  "VMSAv6_LARGEPAGE_MEMTYPE m = (case memtype_fields m of (tex, c, b, s) \<Rightarrow>
     VMSAv6_LARGEPAGE_TEX tex OR VMSAv6_LARGEPAGE_C c OR VMSAv6_LARGEPAGE_B b OR VMSAv6_LARGEPAGE_S s)"

definition VMSAv6_LARGEPAGE_GLOBAL_enum :: "global_flag \<Rightarrow> u32" where "VMSAv6_LARGEPAGE_GLOBAL_enum g
    = VMSAv6_LARGEPAGE_nG (global_field g)"
definition VMSAv6_LARGEPAGE_EXECUTE_enum :: "execute_never \<Rightarrow> u32" where
    "VMSAv6_LARGEPAGE_EXECUTE_enum x = VMSAv6_LARGEPAGE_XN (execute_field x)"

definition vmsav6_build_largepage ::
  "u32 \<Rightarrow> memtype \<Rightarrow> access_permission \<Rightarrow> global_flag \<Rightarrow>
    execute_never \<Rightarrow> u32" where
  "vmsav6_build_largepage phy mem acc glob xn =
     VMSAv6_LARGEPAGE_BITS OR VMSAv6_LARGEPAGE_BASEADDR phy OR VMSAv6_LARGEPAGE_MEMTYPE mem OR
       VMSAv6_LARGEPAGE_ACCESS acc OR VMSAv6_LARGEPAGE_GLOBAL_enum glob OR VMSAv6_LARGEPAGE_EXECUTE_enum xn"

lemmas VMSAv6_LARGEPAGE_defs =
  VMSAv6_LARGEPAGE_XN_def VMSAv6_LARGEPAGE_S_def VMSAv6_LARGEPAGE_nG_def VMSAv6_LARGEPAGE_AP_def
    VMSAv6_LARGEPAGE_APX_def VMSAv6_LARGEPAGE_B_def VMSAv6_LARGEPAGE_C_def VMSAv6_LARGEPAGE_TEX_def
  VMSAv6_LARGEPAGE_MEMTYPE_def VMSAv6_LARGEPAGE_ACCESS_def VMSAv6_LARGEPAGE_GLOBAL_enum_def
    VMSAv6_LARGEPAGE_EXECUTE_enum_def
  VMSAv6_LARGEPAGE_BITS_def

section \<open>extended small page.h: an extended small page\<close>

definition VMSAv6_EXTENDEDSMALLPAGE_BITS :: u32 where "VMSAv6_EXTENDEDSMALLPAGE_BITS = push_bit 1 1"

definition VMSAv6_EXTENDEDSMALLPAGE_BASEADDR :: "u32 \<Rightarrow> u32" where "VMSAv6_EXTENDEDSMALLPAGE_BASEADDR
    base = base AND 0xfffff000"

definition VMSAv6_EXTENDEDSMALLPAGE_XN :: "u32 \<Rightarrow> u32" where "VMSAv6_EXTENDEDSMALLPAGE_XN x = push_bit 0 x"
definition VMSAv6_EXTENDEDSMALLPAGE_S :: "u32 \<Rightarrow> u32" where "VMSAv6_EXTENDEDSMALLPAGE_S x = push_bit 10 x"
definition VMSAv6_EXTENDEDSMALLPAGE_nG :: "u32 \<Rightarrow> u32" where "VMSAv6_EXTENDEDSMALLPAGE_nG x =
    push_bit 11 x"
definition VMSAv6_EXTENDEDSMALLPAGE_AP :: "u32 \<Rightarrow> u32" where "VMSAv6_EXTENDEDSMALLPAGE_AP x = push_bit 4 x"
definition VMSAv6_EXTENDEDSMALLPAGE_APX :: "u32 \<Rightarrow> u32" where "VMSAv6_EXTENDEDSMALLPAGE_APX x =
    push_bit 9 x"
definition VMSAv6_EXTENDEDSMALLPAGE_B :: "u32 \<Rightarrow> u32" where "VMSAv6_EXTENDEDSMALLPAGE_B x = push_bit 2 x"
definition VMSAv6_EXTENDEDSMALLPAGE_C :: "u32 \<Rightarrow> u32" where "VMSAv6_EXTENDEDSMALLPAGE_C x = push_bit 3 x"
definition VMSAv6_EXTENDEDSMALLPAGE_TEX :: "u32 \<Rightarrow> u32" where "VMSAv6_EXTENDEDSMALLPAGE_TEX x =
    push_bit 6 x"

definition VMSAv6_EXTENDEDSMALLPAGE_ACCESS :: "access_permission \<Rightarrow> u32" where
  "VMSAv6_EXTENDEDSMALLPAGE_ACCESS a = (case access_fields a of (apx, ap) \<Rightarrow>
    VMSAv6_EXTENDEDSMALLPAGE_APX apx OR VMSAv6_EXTENDEDSMALLPAGE_AP ap)"

definition VMSAv6_EXTENDEDSMALLPAGE_MEMTYPE :: "memtype \<Rightarrow> u32" where
  "VMSAv6_EXTENDEDSMALLPAGE_MEMTYPE m = (case memtype_fields m of (tex, c, b, s) \<Rightarrow>
     VMSAv6_EXTENDEDSMALLPAGE_TEX tex OR VMSAv6_EXTENDEDSMALLPAGE_C c OR VMSAv6_EXTENDEDSMALLPAGE_B b OR
       VMSAv6_EXTENDEDSMALLPAGE_S s)"

definition VMSAv6_EXTENDEDSMALLPAGE_GLOBAL_enum :: "global_flag \<Rightarrow> u32" where
    "VMSAv6_EXTENDEDSMALLPAGE_GLOBAL_enum g = VMSAv6_EXTENDEDSMALLPAGE_nG (global_field g)"
definition VMSAv6_EXTENDEDSMALLPAGE_EXECUTE_enum :: "execute_never \<Rightarrow> u32" where
    "VMSAv6_EXTENDEDSMALLPAGE_EXECUTE_enum x = VMSAv6_EXTENDEDSMALLPAGE_XN (execute_field x)"

definition vmsav6_build_extendedsmallpage ::
  "u32 \<Rightarrow> memtype \<Rightarrow> access_permission \<Rightarrow> global_flag \<Rightarrow>
    execute_never \<Rightarrow> u32" where
  "vmsav6_build_extendedsmallpage phy mem acc glob xn =
     VMSAv6_EXTENDEDSMALLPAGE_BITS OR VMSAv6_EXTENDEDSMALLPAGE_BASEADDR phy OR VMSAv6_EXTENDEDSMALLPAGE_MEMTYPE
       mem OR VMSAv6_EXTENDEDSMALLPAGE_ACCESS acc OR VMSAv6_EXTENDEDSMALLPAGE_GLOBAL_enum glob OR
       VMSAv6_EXTENDEDSMALLPAGE_EXECUTE_enum xn"

lemmas VMSAv6_EXTENDEDSMALLPAGE_defs =
  VMSAv6_EXTENDEDSMALLPAGE_XN_def VMSAv6_EXTENDEDSMALLPAGE_S_def VMSAv6_EXTENDEDSMALLPAGE_nG_def
    VMSAv6_EXTENDEDSMALLPAGE_AP_def VMSAv6_EXTENDEDSMALLPAGE_APX_def VMSAv6_EXTENDEDSMALLPAGE_B_def
    VMSAv6_EXTENDEDSMALLPAGE_C_def VMSAv6_EXTENDEDSMALLPAGE_TEX_def
  VMSAv6_EXTENDEDSMALLPAGE_MEMTYPE_def VMSAv6_EXTENDEDSMALLPAGE_ACCESS_def
    VMSAv6_EXTENDEDSMALLPAGE_GLOBAL_enum_def VMSAv6_EXTENDEDSMALLPAGE_EXECUTE_enum_def
  VMSAv6_EXTENDEDSMALLPAGE_BITS_def

section \<open>coarse page table.h: a coarse page table\<close>

definition VMSAv6_COARSE_PT_BITS :: u32 where "VMSAv6_COARSE_PT_BITS = 1"

definition VMSAv6_COARSE_PT_BASEADDR :: "u32 \<Rightarrow> u32" where "VMSAv6_COARSE_PT_BASEADDR base = base AND
    0xfffffc00"

definition VMSAv6_COARSE_PT_DOMAIN :: "u32 \<Rightarrow> u32" where "VMSAv6_COARSE_PT_DOMAIN x = push_bit 5 x"

definition VMSAv6_COARSE_PT_DOMAIN_enum :: "domain \<Rightarrow> u32" where
  "VMSAv6_COARSE_PT_DOMAIN_enum d = VMSAv6_COARSE_PT_DOMAIN (domain_number d)"


definition vmsav6_build_coarse_pt ::
  "u32 \<Rightarrow> domain \<Rightarrow> u32" where
  "vmsav6_build_coarse_pt phy d =
     VMSAv6_COARSE_PT_BITS OR VMSAv6_COARSE_PT_BASEADDR phy OR VMSAv6_SECTION_DOMAIN_enum d"

lemmas VMSAv6_COARSE_PT_defs =
  VMSAv6_COARSE_PT_DOMAIN_def
  VMSAv6_COARSE_PT_DOMAIN_enum_def
  VMSAv6_COARSE_PT_BITS_def

section \<open>The same descriptors as for VMSAv7\<close>

lemma section_v6_v7:
  "vmsav6_build_section phy mem d acc glob xn = vmsav7_build_section phy mem d acc glob xn PRIVILEGED_EXECUTE SECURE"
  by (simp add: vmsav6_build_section_def vmsav7_build_section_def VMSAv6_SECTION_defs VMSAv7_SECTION_defs
      VMSAv6_SECTION_BASEADDR_def VMSAv7_SECTION_BASEADDR_def split: prod.split)

lemma supersection_v6_v7:
  "vmsav6_build_supersection32 phy mem acc glob xn = vmsav7_build_supersection32 phy mem acc glob xn
    PRIVILEGED_EXECUTE SECURE"
  "vmsav6_build_supersection40 phy40 mem acc glob xn = vmsav7_build_supersection40 phy40 mem acc glob xn
    PRIVILEGED_EXECUTE SECURE"
  by (simp_all add: vmsav6_build_supersection32_def vmsav7_build_supersection32_def vmsav6_build_supersection40_def
      vmsav7_build_supersection40_def VMSAv6_SUPERSECTION_defs VMSAv7_SUPERSECTION_defs
        VMSAv6_SUPERSECTION_BASEADDR_32_def
      VMSAv7_SUPERSECTION_BASEADDR_32_def VMSAv6_SUPERSECTION_BASEADDR_40_def VMSAv7_SUPERSECTION_BASEADDR_40_def
      split: prod.split)

lemma largepage_v6_v7:
  "vmsav6_build_largepage phy mem acc glob xn = vmsav7_build_largepage phy mem acc glob xn"
  by (simp add: vmsav6_build_largepage_def vmsav7_build_largepage_def VMSAv6_LARGEPAGE_defs VMSAv7_LARGEPAGE_defs
      VMSAv6_LARGEPAGE_BASEADDR_def VMSAv7_LARGEPAGE_BASEADDR_def split: prod.split)

lemma smallpage_v6_v7:
  "vmsav6_build_extendedsmallpage phy mem acc glob xn = vmsav7_build_smallpage phy mem acc glob xn"
  by (simp add: vmsav6_build_extendedsmallpage_def vmsav7_build_smallpage_def VMSAv6_EXTENDEDSMALLPAGE_defs
      VMSAv7_SMALLPAGE_defs VMSAv6_EXTENDEDSMALLPAGE_BASEADDR_def VMSAv7_SMALLPAGE_BASEADDR_def split: prod.split)

lemma coarse_pt_v6_v7:
  "vmsav6_build_coarse_pt phy d = vmsav7_build_pagetable phy d PRIVILEGED_EXECUTE SECURE"
  by (simp add: vmsav6_build_coarse_pt_def vmsav7_build_pagetable_def VMSAv6_COARSE_PT_defs VMSAv7_PAGETABLE_defs
      VMSAv6_SECTION_defs VMSAv6_COARSE_PT_BASEADDR_def VMSAv7_PAGETABLE_BASEADDR_def)


end
