(* ===== verification/Translation.thy ===== *)
theory Translation
  imports VMSAv7
begin

text \<open>
  Reading the descriptors back, and the translation of addresses that the memory management unit
  does with them: the walk from the translation table base over a first-level entry (a section, a
  supersection or a page table) to a second-level entry (a large or a small page). The walk is the
  specification for the page tables of \<open>page_tables.c\<close> and \<open>init_page_tables.c\<close>.
\<close>

section \<open>Round trips\<close>

lemmas decode_members = decode_by_enc [OF VMSAv7_SECTION_MEMTYPE_inj all_memtypes] decode_by_enc [OF VMSAv7_SECTION_ACCESS_inj all_accesses]
  decode_by_enc [OF VMSAv7_SECTION_DOMAIN_enum_inj all_domains]
  decode_by_enc [OF VMSAv7_SUPERSECTION_MEMTYPE_inj all_memtypes] decode_by_enc [OF VMSAv7_SUPERSECTION_ACCESS_inj all_accesses]
  decode_by_enc [OF VMSAv7_LARGEPAGE_MEMTYPE_inj all_memtypes] decode_by_enc [OF VMSAv7_LARGEPAGE_ACCESS_inj all_accesses]
  decode_by_enc [OF VMSAv7_SMALLPAGE_MEMTYPE_inj all_memtypes] decode_by_enc [OF VMSAv7_SMALLPAGE_ACCESS_inj all_accesses]
  decode_by_enc [OF VMSAv7_PAGETABLE_DOMAIN_enum_inj all_domains]

lemma all_flags:
  "g \<in> set [GLOBAL, NOTGLOBAL]" "x \<in> set [EXECUTE, EXECUTENEVER]"
  "p \<in> set [PRIVILEGED_EXECUTE, PRIVILEGED_EXECUTENEVER]" "s \<in> set [SECURE, NON_SECURE]"
  using global_flag.nchotomy execute_never.nchotomy privileged_execute_never.nchotomy non_secure.nchotomy by auto

lemmas decode_flags =
  decode_by_enc [OF VMSAv7_SECTION_GLOBAL_enum_inj all_flags(1)] decode_by_enc [OF VMSAv7_SECTION_EXECUTE_enum_inj all_flags(2)]
  decode_by_enc [OF VMSAv7_SECTION_PRIVILEGED_enum_inj all_flags(3)] decode_by_enc [OF VMSAv7_SECTION_SECURE_enum_inj all_flags(4)]
  decode_by_enc [OF VMSAv7_SUPERSECTION_GLOBAL_enum_inj all_flags(1)] decode_by_enc [OF VMSAv7_SUPERSECTION_EXECUTE_enum_inj all_flags(2)]
  decode_by_enc [OF VMSAv7_SUPERSECTION_PRIVILEGED_enum_inj all_flags(3)] decode_by_enc [OF VMSAv7_SUPERSECTION_SECURE_enum_inj all_flags(4)]
  decode_by_enc [OF VMSAv7_LARGEPAGE_GLOBAL_enum_inj all_flags(1)] decode_by_enc [OF VMSAv7_LARGEPAGE_EXECUTE_enum_inj all_flags(2)]
  decode_by_enc [OF VMSAv7_SMALLPAGE_GLOBAL_enum_inj all_flags(1)] decode_by_enc [OF VMSAv7_SMALLPAGE_EXECUTE_enum_inj all_flags(2)]
  decode_by_enc [OF VMSAv7_PAGETABLE_PRIVILEGED_enum_inj all_flags(3)] decode_by_enc [OF VMSAv7_PAGETABLE_SECURE_enum_inj all_flags(4)]

lemma section_fields_build:
  "vmsav7_section_fields (vmsav7_build_section phy mem d acc glob xn pxn ns) =
    (Some mem, Some d, Some acc, Some glob, Some xn, Some pxn, Some ns)"
  by (simp only: vmsav7_section_fields_def vmsav7_build_section_parts decode_members decode_flags)

lemma supersection_fields_build:
  "vmsav7_supersection_fields (vmsav7_build_supersection32 phy mem acc glob xn pxn ns) =
    (Some mem, Some acc, Some glob, Some xn, Some pxn, Some ns)"
  by (simp only: vmsav7_supersection_fields_def vmsav7_build_supersection32_parts decode_members decode_flags)

lemma largepage_fields_build:
  "vmsav7_largepage_fields (vmsav7_build_largepage phy mem acc glob xn) = (Some mem, Some acc, Some glob, Some xn)"
  by (simp only: vmsav7_largepage_fields_def vmsav7_build_largepage_parts decode_members decode_flags)

lemma smallpage_fields_build:
  "vmsav7_smallpage_fields (vmsav7_build_smallpage phy mem acc glob xn) = (Some mem, Some acc, Some glob, Some xn)"
  by (simp only: vmsav7_smallpage_fields_def vmsav7_build_smallpage_parts decode_members decode_flags)

lemma pagetable_fields_build:
  "vmsav7_pagetable_fields (vmsav7_build_pagetable phy d pxn ns) = (Some d, Some pxn, Some ns)"
  by (simp only: vmsav7_pagetable_fields_def vmsav7_build_pagetable_parts decode_members decode_flags)

text \<open>A section descriptor and a supersection descriptor are marked as such and give back the base
  address and every attribute they were built from.\<close>

theorem vmsav7_section_roundtrip:
  "vmsav7_section_fields (vmsav7_build_section phy mem d acc glob xn pxn ns) =
     (Some mem, Some d, Some acc, Some glob, Some xn, Some pxn, Some ns) \<and>
   vmsav7_build_section phy mem d acc glob xn pxn ns AND 0xfff00000 = phy AND 0xfff00000 \<and>
   vmsav7_build_section phy mem d acc glob xn pxn ns AND 0x40002 = 2 \<and>
   vmsav7_supersection_fields (vmsav7_build_supersection32 phy mem acc glob xn pxn ns) =
     (Some mem, Some acc, Some glob, Some xn, Some pxn, Some ns) \<and>
   vmsav7_build_supersection32 phy mem acc glob xn pxn ns AND 0xff000000 = phy AND 0xff000000 \<and>
   vmsav7_build_supersection32 phy mem acc glob xn pxn ns AND 0x40002 = 0x40002"
  by (intro conjI section_fields_build supersection_fields_build vmsav7_build_section_parts(1, 2)
      vmsav7_build_supersection32_parts(1, 2))

text \<open>A page descriptor, large or small, and a page table descriptor are marked as such and give back
  the base address and every attribute they were built from.\<close>

theorem vmsav7_page_roundtrip:
  "vmsav7_largepage_fields (vmsav7_build_largepage phy mem acc glob xn) = (Some mem, Some acc, Some glob, Some xn) \<and>
   vmsav7_build_largepage phy mem acc glob xn AND 0xffff0000 = phy AND 0xffff0000 \<and>
   vmsav7_build_largepage phy mem acc glob xn AND 3 = 1 \<and>
   vmsav7_smallpage_fields (vmsav7_build_smallpage phy mem acc glob xn) = (Some mem, Some acc, Some glob, Some xn) \<and>
   vmsav7_build_smallpage phy mem acc glob xn AND 0xfffff000 = phy AND 0xfffff000 \<and>
   vmsav7_build_smallpage phy mem acc glob xn AND 2 = 2 \<and>
   vmsav7_pagetable_fields (vmsav7_build_pagetable phy d pxn ns) = (Some d, Some pxn, Some ns) \<and>
   vmsav7_build_pagetable phy d pxn ns AND 0xfffffc00 = phy AND 0xfffffc00 \<and>
   vmsav7_build_pagetable phy d pxn ns AND 3 = 1"
  by (intro conjI largepage_fields_build smallpage_fields_build pagetable_fields_build
      vmsav7_build_largepage_parts(1, 2) vmsav7_build_smallpage_parts(1, 2) vmsav7_build_pagetable_parts(1, 2))

end
