(* ===== verification/Page_Tables.thy ===== *)
theory Page_Tables
  imports Translation Boot_Pages Kmalloc
begin

text \<open>
  The page tables of \<open>src/kernel/arch/arm_a/mm/VMSAv7\<close>: \<open>init_page_tables.c\<close>, which maps the memory of
  the board before the page allocator is up, and \<open>page_tables.c\<close>, whose \<open>vm_map\<close> adds pages later on
  with tables from \<open>kmalloc\<close>. Tables are words of the byte-addressed memory. The coprocessor
  registers the code writes are a record; cache and barrier operations have no effect in the model.
\<close>

section \<open>Words in memory\<close>

definition load32 :: "memory \<Rightarrow> u32 \<Rightarrow> u32" where
  "load32 m a = ucast (m a) OR push_bit 8 (ucast (m (a + 1))) OR push_bit 16 (ucast (m (a + 2))) OR
     push_bit 24 (ucast (m (a + 3)))"

definition store32 :: "memory \<Rightarrow> u32 \<Rightarrow> u32 \<Rightarrow> memory" where
  "store32 m a v = m(a := ucast v, a + 1 := ucast (drop_bit 8 v), a + 2 := ucast (drop_bit 16 v), a + 3 := ucast (drop_bit 24 v))"

text \<open>The entry for an address in a first-level table and in a second-level table.\<close>

definition l1_entry :: "u32 \<Rightarrow> u32 \<Rightarrow> u32" where
  "l1_entry root va = root + 4 * drop_bit 20 (va AND 0xFFF00000)"

definition l2_entry :: "u32 \<Rightarrow> u32 \<Rightarrow> u32" where
  "l2_entry sp va = sp + 4 * drop_bit 12 (va AND 0xFF000)"

section \<open>Initialising the tables\<close>

definition SCTLR_M :: u32 where "SCTLR_M = BIT 0"
definition SCTLR_C :: u32 where "SCTLR_C = BIT 2"
definition SCTLR_Z :: u32 where "SCTLR_Z = BIT 11"
definition SCTLR_I :: u32 where "SCTLR_I = BIT 12"

record cp15 =
  SCTLR :: u32
  TTBR0 :: u32
  TTBCR :: u32

text \<open>The static variables of \<open>_get_free_l2\<close>: the next table of 256 entries and how many are left.\<close>

record l2_tables =
  l2_p :: u32
  l2_n :: u32

definition get_free_l2 :: "board \<Rightarrow> l2_tables \<Rightarrow> boot \<Rightarrow> (u32 \<times> l2_tables \<times> boot) run" where
  "get_free_l2 cfg t s =
     (let refilled =
        (if l2_n t = 0 then
           let pages = (if PAGE_SIZE cfg \<ge> 256 * 4 then 1 else (256 * 4) div PAGE_SIZE cfg)
           in case get_boot_pages cfg pages (GFP_KERNEL OR GFP_ZERO) s of
                Inl b \<Rightarrow> Inl b
              | Inr (p, s') \<Rightarrow>
                  Inr (t\<lparr>l2_p := p, l2_n := (if p \<noteq> 0 then (PAGE_SIZE cfg * pages) div (256 * 4) else l2_n t)\<rparr>, s')
         else Inr (t, s))
      in case refilled of
           Inl b \<Rightarrow> Inl b
         | Inr (t', s') \<Rightarrow>
             if l2_n t' \<noteq> 0 then Inr (l2_p t', t'\<lparr>l2_n := l2_n t' - 1, l2_p := l2_p t' + 256 * 4\<rparr>, s')
             else Inr (0, t', s'))"

text \<open>The loop over the entries of the first-level table from \<open>begin\<close> to \<open>end\<close>; -1 when there is no table.\<close>

partial_function (option) init_l1 ::
  "board \<Rightarrow> u32 \<Rightarrow> u32 \<Rightarrow> l2_tables \<Rightarrow> boot \<Rightarrow> (int \<times> l2_tables \<times> boot) run option" where
  "init_l1 cfg itor e t s =
     (if itor = e then Some (Inr (0, t, s))
      else case get_free_l2 cfg t s of
        Inl b \<Rightarrow> Some (Inl b)
      | Inr (l2, t', s') \<Rightarrow>
          if l2 = 0 then Some (Inr (-1, t', s'))
          else init_l1 cfg (itor + 4) e t'
            (s'\<lparr>boot_mem := store32 (boot_mem s') itor (vmsav7_build_pagetable l2 DOMAIN_0 PRIVILEGED_EXECUTE SECURE)\<rparr>))"

partial_function (option) init_page_tables_l2 :: "board \<Rightarrow> u32 \<Rightarrow> u32 \<Rightarrow> u32 \<Rightarrow> u32 \<Rightarrow> memory \<Rightarrow> memory option" where
  "init_page_tables_l2 cfg root phy virt len m =
     (if len = 0 then Some m
      else
        let sp = load32 m (l1_entry root virt) AND 0xfffffc00
        in init_page_tables_l2 cfg root (phy + PAGE_SIZE cfg) (virt + PAGE_SIZE cfg) (len - PAGE_SIZE cfg)
             (store32 m (l2_entry sp virt)
               (vmsav7_build_smallpage phy MEMTYPE_SHARED_NORMAL_WRITEBACK ACCESS_PRIVILEGED_FULL GLOBAL EXECUTE)))"

definition init_page_tables ::
  "board \<Rightarrow> u32 \<Rightarrow> u32 \<Rightarrow> u32 \<Rightarrow> l2_tables \<Rightarrow> cp15 \<Rightarrow> boot \<Rightarrow> (int \<times> l2_tables \<times> cp15 \<times> boot) run option" where
  "init_page_tables cfg phy virt len t cp s =
     (case get_aligned_boot_pages cfg (16 * 1024) 4 (GFP_KERNEL OR GFP_ZERO) s of
        None \<Rightarrow> None
      | Some (Inl b) \<Rightarrow> Some (Inl b)
      | Some (Inr (root, s1)) \<Rightarrow>
          let last = virt + len - 1
          in case init_l1 cfg (l1_entry root virt) (l1_entry root last + 4) t s1 of
               None \<Rightarrow> None
             | Some (Inl b) \<Rightarrow> Some (Inl b)
             | Some (Inr (e, t', s2)) \<Rightarrow>
                 if e \<noteq> 0 then Some (Inr (e, t', cp, s2))
                 else case init_page_tables_l2 cfg root phy virt len (boot_mem s2) of
                   None \<Rightarrow> None
                 | Some m \<Rightarrow>
                     Some (Inr (0, t', cp\<lparr>TTBR0 := root, TTBCR := 0, SCTLR := SCTLR cp OR SCTLR_M OR SCTLR_C OR SCTLR_Z OR SCTLR_I\<rparr>,
                                s2\<lparr>boot_mem := m\<rparr>)))"

section \<open>Mapping pages\<close>

definition MMU_NOACCESS :: u32 where "MMU_NOACCESS = 0"
definition MMU_RAM :: u32 where "MMU_RAM = BIT 0"
definition MMU_DEVICE :: u32 where "MMU_DEVICE = BIT 1"

definition virt_to_phy :: "board \<Rightarrow> u32 \<Rightarrow> u32" where
  "virt_to_phy cfg virt =
     (let offset = VIRTUAL_MEMORY_BASE_ADDRESS cfg - PHYSICAL_MEMORY_BASE_ADDRESS cfg in virt - offset)"

text \<open>The statements behind the second \<open>return\<close> are never reached.\<close>

definition get_memtype :: "u32 \<Rightarrow> memtype" where
  "get_memtype fl = (if fl AND MMU_DEVICE \<noteq> 0 then MEMTYPE_SHARED_DEVICE else MEMTYPE_SHARED_STRONGLY_ORDERED)"

definition get_access :: "u32 \<Rightarrow> access_permission" where
  "get_access fl = (if fl = MMU_NOACCESS then ACCESS_NONE else ACCESS_FULL)"

definition get_execute :: "u32 \<Rightarrow> execute_never" where
  "get_execute fl = (if fl AND MMU_DEVICE \<noteq> 0 then EXECUTENEVER else EXECUTE)"

definition build_pagetable :: "board \<Rightarrow> u32 \<Rightarrow> u32 \<Rightarrow> u32" where
  "build_pagetable cfg virt fl = vmsav7_build_pagetable (virt_to_phy cfg virt) DOMAIN_0 PRIVILEGED_EXECUTE SECURE"

definition build_smallpage :: "u32 \<Rightarrow> u32 \<Rightarrow> u32" where
  "build_smallpage phy fl = vmsav7_build_smallpage phy (get_memtype fl) (get_access fl) GLOBAL (get_execute fl)"

abbreviation vm_mem :: "pages kheap \<Rightarrow> memory" where
  "vm_mem H \<equiv> pages_mem (kh_pages H)"

definition put32 :: "u32 \<Rightarrow> u32 \<Rightarrow> pages kheap \<Rightarrow> pages kheap" where
  "put32 a v H = H\<lparr>kh_pages := (kh_pages H)\<lparr>pages_mem := store32 (vm_mem H) a v\<rparr>\<rparr>"

text \<open>The table of the current entry, or a new one.\<close>

definition vm_table :: "board \<Rightarrow> u32 \<Rightarrow> u32 \<Rightarrow> pages kheap \<Rightarrow> (u32 \<times> pages kheap) run" where
  "vm_table cfg pt gf H =
     (let sp = load32 (vm_mem H) pt AND 0xfffffc00
      in if sp = 0
         then kmalloc cfg (get_free_pages cfg) (free_pages2 cfg) clear_pages 1024 (gf OR GFP_ZERO) H
         else Inr (sp, H))"

partial_function (option) vm_map_loop ::
  "board \<Rightarrow> u32 \<Rightarrow> u32 \<Rightarrow> u32 \<Rightarrow> u32 \<Rightarrow> u32 \<Rightarrow> u32 \<Rightarrow> pages kheap \<Rightarrow> (int \<times> pages kheap) run option" where
  "vm_map_loop cfg root virt phy len fl gf H =
     (if len = 0 then Some (Inr (0, H))
      else let pt = l1_entry root virt
        in case vm_table cfg pt gf H of
             Inl b \<Rightarrow> Some (Inl b)
           | Inr (sp, H1) \<Rightarrow>
               if sp = 0 then Some (Inr (-1, H1))
               else let H2 = put32 pt (build_pagetable cfg sp fl) (put32 (l2_entry sp virt) (build_smallpage phy fl) H1)
                 in if len > PAGE_SIZE cfg
                    then vm_map_loop cfg root (virt + PAGE_SIZE cfg) (phy + PAGE_SIZE cfg) (len - PAGE_SIZE cfg) fl gf H2
                    else Some (Inr (0, H2)))"

definition vm_map ::
  "board \<Rightarrow> u32 \<Rightarrow> u32 \<Rightarrow> u32 \<Rightarrow> u32 \<Rightarrow> u32 \<Rightarrow> u32 \<Rightarrow> pages kheap \<Rightarrow> (int \<times> pages kheap) run option" where
  "vm_map cfg ttbr0 virt phy len fl gf H =
     (if ttbr0 < PHYSICAL_MEMORY_BASE_ADDRESS cfg \<or> ttbr0 \<ge> PHYSICAL_MEMORY_BASE_ADDRESS cfg + PHYSICAL_MEMORY_LENGTH cfg
      then Some (Inr (0, H))
      else vm_map_loop cfg (ttbr0 AND NOT (0x4000 - 1)) virt phy len fl gf H)"

definition vm_unmap :: "board \<Rightarrow> u32 \<Rightarrow> u32 \<Rightarrow> u32 \<Rightarrow> pages kheap \<Rightarrow> (int \<times> pages kheap) run option" where
  "vm_unmap cfg ttbr0 virt len H = vm_map cfg ttbr0 virt 0 len MMU_NOACCESS 0 H"

text \<open>\<open>vm_map_device_regions\<close> of \<open>drivers.c\<close> over the linker's list of regions; results are ignored.\<close>

fun vm_map_device_regions :: "board \<Rightarrow> u32 \<Rightarrow> (u32 \<times> u32) list \<Rightarrow> pages kheap \<Rightarrow> (pages kheap) run option" where
  "vm_map_device_regions cfg ttbr0 [] H = Some (Inr H)"
| "vm_map_device_regions cfg ttbr0 ((a, n) # rs) H =
     (case vm_map cfg ttbr0 a a n MMU_DEVICE GFP_KERNEL H of
        None \<Rightarrow> None
      | Some (Inl b) \<Rightarrow> Some (Inl b)
      | Some (Inr (e, H')) \<Rightarrow> vm_map_device_regions cfg ttbr0 rs H')"

section \<open>What the memory management unit sees\<close>

text \<open>
  The translation of an address: the physical address and the memory type, the permissions, the
  global flag and the execute-never flag of its page or section, or \<open>None\<close> for a translation fault.
\<close>

type_synonym view = "u32 \<times> memtype option \<times> access_permission option \<times> global_flag option \<times> execute_never option"

definition mmu_walk :: "memory \<Rightarrow> u32 \<Rightarrow> u32 \<Rightarrow> view option" where
  "mmu_walk m ttbr va =
     (let l1 = load32 m (l1_entry (ttbr AND NOT 0x3fff) va)
      in if l1 AND 3 = 0 then None
         else if l1 AND 3 = 1 then
           let l2 = load32 m (l2_entry (l1 AND 0xfffffc00) va)
           in if l2 AND 3 = 0 then None
              else if l2 AND 3 = 1 then Some ((l2 AND 0xffff0000) OR (va AND 0xffff), vmsav7_largepage_fields l2)
              else Some ((l2 AND 0xfffff000) OR (va AND 0xfff), vmsav7_smallpage_fields l2)
         else if l1 AND 0x40000 \<noteq> 0 then
           (case vmsav7_supersection_fields l1 of (mem, acc, glob, xn, pxn, ns) \<Rightarrow>
              Some ((l1 AND 0xff000000) OR (va AND 0xffffff), mem, acc, glob, xn))
         else
           (case vmsav7_section_fields l1 of (mem, d, acc, glob, xn, pxn, ns) \<Rightarrow>
              Some ((l1 AND 0xfff00000) OR (va AND 0xfffff), mem, acc, glob, xn)))"

end
