(* ===== verification/Page_Tables_Init.thy ===== *)
theory Page_Tables_Init
  imports Page_Tables
begin

text \<open>
  What \<open>init_page_tables\<close> builds: seen through the walk of the memory management unit it maps exactly
  the memory of the board, each page to its place. The tables are one block of words, first the
  first-level table and behind it the second-level tables in the order of the addresses they map.
\<close>

section \<open>Tables as arrays of words\<close>

definition word_at :: "memory \<Rightarrow> u32 \<Rightarrow> nat \<Rightarrow> u32" where
  "word_at m root r = load32 m (root + 4 * word_of_nat r)"

lemma load32_store32_same [simp]: "load32 (store32 m a v) a = v"
proof (rule bit_word_eqI)
  fix n assume "n < LENGTH(32)"
  then show "bit (load32 (store32 m a v) a) n = bit v n"
    by (cases "n < 8"; cases "n < 16"; cases "n < 24") (auto simp: load32_def store32_def bit_simps)
qed

lemma load32_store32_other:
  assumes "4 \<le> unat (b - a)" and "4 \<le> unat (a - b)"
  shows "load32 (store32 m a v) b = load32 m b"
proof -
  have ne: "b + i \<noteq> a + j" if "i \<in> {0, 1, 2, 3}" "j \<in> {0, 1, 2, 3}" for i j
  proof
    assume e: "b + i = a + j"
    then have "b - a = j - i" "a - b = i - j" by (simp_all add: algebra_simps)
    then show False using assms that by auto
  qed
  have "store32 m a v (b + i) = m (b + i)" if "i \<in> {0, 1, 2, 3}" for i
    using ne [OF that, of 0] ne [OF that, of 1] ne [OF that, of 2] ne [OF that, of 3] by (simp add: store32_def)
  from this [of 0] this [of 1] this [of 2] this [of 3] show ?thesis by (simp add: load32_def)
qed

lemma unat_small: "n < 2 ^ 32 \<Longrightarrow> unat (word_of_nat n :: u32) = n"
  by (simp add: unat_of_nat)

lemma unat_4: "r < 2 ^ 30 \<Longrightarrow> unat (4 * word_of_nat r :: u32) = 4 * r"
  by (subst unat_mult_u32) (simp_all add: unat_of_nat)

lemma word_at_store:
  assumes "r < 2 ^ 30" and "s < 2 ^ 30"
  shows "word_at (store32 m (root + 4 * word_of_nat r) v) root s = (if s = r then v else word_at m root s)"
proof (cases "s = r")
  case False
  let ?a = "4 * word_of_nat r :: u32" and ?b = "4 * word_of_nat s :: u32"
  have u: "unat ?a = 4 * r" "unat ?b = 4 * s" using unat_4 assms by simp_all
  have "4 \<le> unat (?b - ?a)" "4 \<le> unat (?a - ?b)"
    using u assms False unfolding unat_sub_if_size word_size by (simp, arith)+
  then show ?thesis using False by (simp add: word_at_def load32_store32_other)
qed (simp add: word_at_def)

lemma load32_zero: "m a = 0 \<Longrightarrow> m (a + 1) = 0 \<Longrightarrow> m (a + 2) = 0 \<Longrightarrow> m (a + 3) = 0 \<Longrightarrow> load32 m a = 0"
  by (simp add: load32_def)

section \<open>Where the entries are\<close>

lemma drop_mask: "drop_bit n (va :: u32) AND mask k = word_of_nat (unat va div 2 ^ n mod 2 ^ k)"
proof -
  have "unat (take_bit k (drop_bit n va)) = unat va div 2 ^ n mod 2 ^ k"
    unfolding unsigned_take_bit_eq unat_shift_right by (simp only: take_bit_eq_mod)
  then have "word_of_nat (unat (drop_bit n va AND mask k)) = (word_of_nat (unat va div 2 ^ n mod 2 ^ k) :: u32)"
    by (simp only: take_bit_eq_mask)
  moreover have "word_of_nat (unat w) = w" for w :: u32 by simp
  ultimately show ?thesis by (simp only:)
qed

lemma l1_entry_at: "l1_entry root va = root + 4 * word_of_nat (unat va div 2 ^ 20)"
  
proof -
  have "drop_bit 20 (va AND 0xFFF00000) = drop_bit 20 va AND mask 12" by (simp add: drop_bit_and mask_numeral)
  moreover have "unat va div 2 ^ 20 mod 2 ^ 12 = unat va div 2 ^ 20" by (simp add: less_mult_imp_div_less)
  ultimately show ?thesis by (simp only: l1_entry_def drop_mask)
qed

lemma l2_entry_at: "l2_entry sp va = sp + 4 * word_of_nat (unat va div 4096 mod 256)"
  
proof -
  have "drop_bit 12 (va AND 0xFF000) = drop_bit 12 va AND mask 8" by (simp add: drop_bit_and mask_numeral)
  then show ?thesis unfolding l2_entry_def drop_mask by simp
qed

section \<open>The first-level table\<close>

text \<open>The first-level entry for the \<open>j\<close>th megabyte and the second-level entry for the \<open>p\<close>th page.\<close>

definition table_entry :: "u32 \<Rightarrow> nat \<Rightarrow> u32" where
  "table_entry root j = vmsav7_build_pagetable (root + 4 * word_of_nat (0x1000 + 256 * j)) DOMAIN_0 PRIVILEGED_EXECUTE SECURE"

definition page_entry :: "u32 \<Rightarrow> nat \<Rightarrow> u32" where
  "page_entry phy p = vmsav7_build_smallpage (phy + 4096 * word_of_nat p) MEMTYPE_SHARED_NORMAL_WRITEBACK
     ACCESS_PRIVILEGED_FULL GLOBAL EXECUTE"

text \<open>\<open>k\<close> tables have been taken, \<open>b\<close> is the first megabyte.\<close>

definition l2_state :: "board \<Rightarrow> u32 \<Rightarrow> nat \<Rightarrow> l2_tables \<Rightarrow> boot \<Rightarrow> bool" where
  "l2_state cfg root k t s \<longleftrightarrow>
     (let A = root + 4 * word_of_nat (0x1000 + 256 * k); W = HEAP_BEGIN cfg + boot_pages s * PAGE_SIZE cfg
      in if l2_n t = 0 then W = A else l2_p t = A \<and> W = A + 1024 * l2_n t \<and> unat (l2_n t) \<le> 4)"

definition l1_state :: "u32 \<Rightarrow> nat \<Rightarrow> nat \<Rightarrow> l2_tables \<Rightarrow> boot \<Rightarrow> bool" where
  "l1_state root b k t s \<longleftrightarrow>
     (\<forall>r < 0x1000 + 256 * (k + unat (l2_n t)). word_at (boot_mem s) root r =
        (if b \<le> r \<and> r < b + k then table_entry root (r - b) else 0))"

lemma words_cleared:
  assumes "\<And>x. m' x = (if off (root + 4 * word_of_nat w) x < 4 * c then 0 else m x)" and "w < 2 ^ 28" and "r < w + c" and "c \<le> 2 ^ 28"
  shows "word_at m' root r = (if w \<le> r then 0 else word_at m root r)"
proof -
  have at: "off (root + 4 * word_of_nat w) (root + 4 * word_of_nat r + word_of_nat i) =
      (if w \<le> r then 4 * (r - w) + i else 2 ^ 32 + 4 * r + i - 4 * w)" if "i < 4" for i
  proof -
    have "root + 4 * word_of_nat r + word_of_nat i - (root + 4 * word_of_nat w) =
        (word_of_nat (4 * r + i) :: u32) - word_of_nat (4 * w)" by simp
    moreover have "unat (word_of_nat (4 * r + i) :: u32) = 4 * r + i" "unat (word_of_nat (4 * w) :: u32) = 4 * w"
      by (rule unat_small, use assms(2-4) that in simp)+
    ultimately show ?thesis
      unfolding off_def using that assms(2-4) by (simp add: unat_sub_if_size word_size del: of_nat_add of_nat_mult) arith
  qed
  have "m' (root + 4 * word_of_nat r + word_of_nat i) = (if w \<le> r then 0 else m (root + 4 * word_of_nat r + word_of_nat i))"
    if "i < 4" for i
    using at [OF that] assms(2-4) that by (auto simp: assms(1))
  from this [of 0] this [of 1] this [of 2] this [of 3] show ?thesis by (simp add: word_at_def load32_def)
qed

lemma get_free_l2_ok:
  assumes ps: "PAGE_SIZE cfg = 4096" and st: "l2_state cfg root k t s" and w: "l1_state root b k t s" and k: "b + k < 0x1000"
    and got: "get_free_l2 cfg t s = Inr (l2, t', s')" and ok: "l2 \<noteq> 0"
  shows "l2 = root + 4 * word_of_nat (0x1000 + 256 * k)" and "l2_state cfg root (Suc k) t' s'"
    and "\<forall>r < 0x1000 + 256 * (Suc k + unat (l2_n t')). word_at (boot_mem s') root r =
        (if b \<le> r \<and> r < b + k then table_entry root (r - b) else 0)"
proof -
  define A where "A = root + 4 * word_of_nat (0x1000 + 256 * k)"
  have A': "root + 4 * word_of_nat (0x1000 + 256 * Suc k) = A + 1024" by (simp add: A_def)
  note st = st [unfolded l2_state_def A_def [symmetric] Let_def ps]
  have "l2 = A \<and> l2_state cfg root (Suc k) t' s' \<and>
    (\<forall>r < 0x1000 + 256 * (Suc k + unat (l2_n t')). word_at (boot_mem s') root r =
        (if b \<le> r \<and> r < b + k then table_entry root (r - b) else 0))"
  proof (cases "l2_n t = 0")
    case True
    then have W: "HEAP_BEGIN cfg + boot_pages s * 4096 = A" using st by simp
    obtain p where b1: "get_boot_pages cfg 1 (GFP_KERNEL OR GFP_ZERO) s = Inr (p, s')" and p: "p \<noteq> 0"
      and t': "l2 = p" "t' = \<lparr>l2_p = p + 1024, l2_n = 3\<rparr>"
    proof (cases "get_boot_pages cfg 1 (GFP_KERNEL OR GFP_ZERO) s")
      case (Inl h)
      then show thesis using got True by (simp add: get_free_l2_def ps)
    next
      case (Inr x)
      obtain p s1 where x: "x = (p, s1)" by (metis surj_pair)
      have "p \<noteq> 0" using got True ok Inr x by (auto simp: get_free_l2_def ps)
      then have "l2 = p \<and> t' = \<lparr>l2_p = p + 1024, l2_n = 3\<rparr> \<and> s' = s1"
        using got True Inr x by (cases t) (auto simp: get_free_l2_def ps)
      then show thesis using that [of p] Inr x \<open>p \<noteq> 0\<close> by simp
    qed
    have pA: "p = A" using get_boot_pages_Inr(1) [OF b1] unfolding ps W .
    have "boot_pages s' = boot_pages s + 1" using get_boot_pages_Inr(2) [OF b1] .
    then have "HEAP_BEGIN cfg + boot_pages s' * 4096 = HEAP_BEGIN cfg + boot_pages s * 4096 + 4096" by (simp only: distrib_right) simp
    then have "HEAP_BEGIN cfg + boot_pages s' * 4096 = A + 4096" unfolding W .
    then have "l2_state cfg root (Suc k) t' s'" unfolding l2_state_def Let_def A' ps t'(2) pA by simp
    moreover have clear: "boot_mem s' x = (if off A x < 4096 then 0 else boot_mem s x)" for x
      using get_boot_pages_mem [OF b1, of x] by (simp add: pA gfp_defs ps)
    have "word_at (boot_mem s') root r = (if b \<le> r \<and> r < b + k then table_entry root (r - b) else 0)"
      if r: "r < 0x1000 + 256 * (Suc k + unat (l2_n t'))" for r
    proof -
      have "word_at (boot_mem s') root r = (if 0x1000 + 256 * k \<le> r then 0 else word_at (boot_mem s) root r)"
        by (rule words_cleared [where c = 1024]) (use clear k r in \<open>simp_all add: t' A_def\<close>)
      then show ?thesis using w k True by (auto simp: l1_state_def)
    qed
    ultimately show ?thesis using t'(1) pA by blast
  next
    case False
    then have t': "l2 = l2_p t" "t' = t\<lparr>l2_n := l2_n t - 1, l2_p := l2_p t + 1024\<rparr>" "s' = s"
      using got by (auto simp: get_free_l2_def)
    have A: "l2_p t = A" "HEAP_BEGIN cfg + boot_pages s * 4096 = A + 1024 * l2_n t" "unat (l2_n t) \<le> 4"
      using st False by simp_all
    have n: "unat (l2_n t') = unat (l2_n t) - 1" "0 < unat (l2_n t)" using False by (simp_all add: t'(2) unat_minus_one unat_gt_0)
    have "l2_n t' = 0 \<Longrightarrow> l2_n t = 1" by (simp add: t'(2))
    then have "l2_state cfg root (Suc k) t' s'"
      using A n unfolding l2_state_def Let_def A' ps t'(2, 3) by (auto simp: algebra_simps)
    moreover have "Suc k + unat (l2_n t') = k + unat (l2_n t)" using n by simp
    ultimately show ?thesis using w A(1) by (simp add: l1_state_def t'(1, 3))
  qed
  then show "l2 = A" "l2_state cfg root (Suc k) t' s'"
    "\<forall>r < 0x1000 + 256 * (Suc k + unat (l2_n t')). word_at (boot_mem s') root r =
        (if b \<le> r \<and> r < b + k then table_entry root (r - b) else 0)" by (elim conjE; simp only: A_def)+
qed

lemma l2_state_mem: "l2_state cfg root k t (s\<lparr>boot_mem := m\<rparr>) = l2_state cfg root k t s"
  by (simp add: l2_state_def)

lemma unat_table_entries: "l2_state cfg root k t s \<Longrightarrow> unat (l2_n t) \<le> 4"
  by (cases "l2_n t = 0") (simp_all add: l2_state_def Let_def)

text \<open>The loop ends; when it has found all its tables, they are as they should be.\<close>

lemma init_l1_ok:
  assumes ps: "PAGE_SIZE cfg = 4096" and st: "l2_state cfg root k t s" and w: "l1_state root b k t s"
    and K: "k \<le> K" "b + K \<le> 0x1000"
  shows "\<exists>res. init_l1 cfg (root + 4 * word_of_nat (b + k)) (root + 4 * word_of_nat (b + K)) t s = Some res \<and>
    (\<forall>e t' s'. res = Inr (e, t', s') \<longrightarrow> e = -1 \<or> e = 0 \<and> l2_state cfg root K t' s' \<and> l1_state root b K t' s')"
  using st w K(1)
proof (induction "K - k" arbitrary: k t s)
  case 0
  then have "k = K" by simp
  then show ?case using 0 by (subst init_l1.simps) simp
next
  case (Suc n)
  then have kK: "k < K" by simp
  have ne: "root + 4 * word_of_nat (b + k) \<noteq> root + 4 * (word_of_nat (b + K) :: u32)"
  proof
    assume "root + 4 * word_of_nat (b + k) = root + 4 * (word_of_nat (b + K) :: u32)"
    then have "unat (4 * word_of_nat (b + k) :: u32) = unat (4 * word_of_nat (b + K) :: u32)" by simp
    then show False using unat_4 [of "b + k"] unat_4 [of "b + K"] kK K(2) by simp
  qed
  show ?case
  proof (cases "get_free_l2 cfg t s")
    case (Inl h)
    then show ?thesis using ne by (subst init_l1.simps) simp
  next
    case (Inr x)
    obtain l2 t1 s1 where x: "x = (l2, t1, s1)" by (metis prod_cases3)
    note got = Inr [unfolded x]
    show ?thesis
    proof (cases "l2 = 0")
      case True
      then show ?thesis using ne got by (subst init_l1.simps) simp
    next
      case False
      note l = get_free_l2_ok [OF ps Suc.prems(1, 2) _ got False]
      have bk: "b + k < 0x1000" using kK K(2) by linarith
      let ?s = "s1\<lparr>boot_mem := store32 (boot_mem s1) (root + 4 * word_of_nat (b + k))
        (vmsav7_build_pagetable l2 DOMAIN_0 PRIVILEGED_EXECUTE SECURE)\<rparr>"
      have e: "vmsav7_build_pagetable l2 DOMAIN_0 PRIVILEGED_EXECUTE SECURE = table_entry root k"
        by (simp add: table_entry_def l(1) [OF bk])
      have w1: "l1_state root b (Suc k) t1 ?s"
        unfolding l1_state_def
      proof (intro allI impI)
        fix r assume r: "r < 0x1000 + 256 * (Suc k + unat (l2_n t1))"
        have "unat (l2_n t1) \<le> 4" using l(2) [OF bk] by (rule unat_table_entries)
        then have r30: "r < 2 ^ 30" using r bk by simp
        have "word_at (boot_mem ?s) root r = (if r = b + k then table_entry root k else word_at (boot_mem s1) root r)"
          using word_at_store [of "b + k" r "boot_mem s1" root "table_entry root k"] r30 bk by (simp add: e)
        then show "word_at (boot_mem ?s) root r = (if b \<le> r \<and> r < b + Suc k then table_entry root (r - b) else 0)"
          using l(3) [OF bk] r by auto
      qed
      have "init_l1 cfg (root + 4 * word_of_nat (b + k)) (root + 4 * word_of_nat (b + K)) t s =
          init_l1 cfg (root + 4 * word_of_nat (b + Suc k)) (root + 4 * word_of_nat (b + K)) t1 ?s"
        using ne got False by (subst init_l1.simps) (simp add: algebra_simps)
      moreover note Suc.hyps(1) [of "Suc k" t1 ?s]
      ultimately show ?thesis using Suc.hyps(2) kK l(2) [OF bk] w1 by (simp add: l2_state_mem)
    qed
  qed
qed

section \<open>The second-level tables\<close>

lemma page_address: "v < 2 ^ 20 \<Longrightarrow> unat (4096 * word_of_nat v :: u32) = 4096 * v"
  by (subst unat_mult_u32) (simp_all add: unat_small)

lemma page_word:
  assumes "4096 dvd unat (w :: u32)"
  shows "w = 4096 * word_of_nat (unat w div 4096)"
proof -
  have "word_of_nat (4096 * (unat w div 4096)) = w" unfolding dvd_mult_div_cancel [OF assms] by simp
  then show ?thesis by simp
qed

lemma clear_low_bits:
  assumes "take_bit 10 w = 0"
  shows "w AND 0xfffffc00 = (w :: u32)"
proof (rule bit_word_eqI)
  fix n assume "n < LENGTH(32)"
  have e: "(0xfffffc00 :: u32) = NOT (mask 10)" by (simp add: mask_eq_exp_minus_1)
  have "\<not> bit w n" if "n < 10" using assms that by (metis bit_0_eq bit_take_bit_iff bot_apply bot_bool_def)
  then show "bit (w AND 0xfffffc00) n = bit w n" using \<open>n < LENGTH(32)\<close> unfolding e by (auto simp: bit_simps)
qed

lemma take_bit_dvd: "take_bit k (w :: u32) = 0 \<longleftrightarrow> 2 ^ k dvd unat w"
proof -
  have "unat (take_bit k w) = unat w mod 2 ^ k" unfolding unsigned_take_bit_eq by (simp add: take_bit_eq_mod)
  then show ?thesis by (metis dvd_eq_mod_eq_0 unat_eq_zero)
qed

lemma table_base:
  assumes "root AND 0x3fff = 0"
  shows "table_entry root j AND 0xfffffc00 = root + 4 * word_of_nat (0x1000 + 256 * j)"
proof -
  have "(0x3fff :: u32) = mask 14" by (simp add: mask_numeral)
  then have "take_bit 14 root = 0" using assms by (simp only: take_bit_eq_mask)
  moreover have "take_bit 10 (take_bit 14 root) = take_bit 10 root" by simp
  ultimately have r: "take_bit 10 root = 0" by simp
  have "4 * word_of_nat (0x1000 + 256 * j) = push_bit 10 (word_of_nat (16 + j) :: u32)" by (simp add: push_bit_eq_mult)
  then have e: "take_bit 10 (4 * word_of_nat (0x1000 + 256 * j) :: u32) = 0" by (simp only: take_bit_push_bit) simp
  have "take_bit 10 (root + 4 * word_of_nat (0x1000 + 256 * j)) = 0"
    using r e unfolding take_bit_dvd unat_word_ariths(1) by (intro dvd_mod dvd_add) simp_all
  then show ?thesis unfolding table_entry_def vmsav7_build_pagetable_parts(1) by (rule clear_low_bits)
qed

text \<open>Page \<open>v\<close> has the word \<open>0x1000 + v - 256 * b\<close>: the second-level tables lie one behind the other.\<close>

lemma page_slot:
  assumes "root AND 0x3fff = 0" and "b \<le> v div 256" and "v < 2 ^ 20"
    and "word_at m root (v div 256) = table_entry root (v div 256 - b)"
  shows "load32 m (l1_entry root (4096 * word_of_nat v)) = table_entry root (v div 256 - b)"
    and "l2_entry (table_entry root (v div 256 - b) AND 0xfffffc00) (4096 * word_of_nat v) =
      root + 4 * word_of_nat (0x1000 + v - 256 * b)"
proof -
  have v: "unat (4096 * word_of_nat v :: u32) = 4096 * v" using assms(3) by (rule page_address)
  have "4096 * v div 2 ^ 20 = v div 256" by simp
  then show "load32 m (l1_entry root (4096 * word_of_nat v)) = table_entry root (v div 256 - b)"
    using assms(4) unfolding l1_entry_at v word_at_def by simp
  have "0x1000 + 256 * (v div 256 - b) + v mod 256 = 0x1000 + (256 * (v div 256) + v mod 256) - 256 * b"
    using assms(2) by (simp add: diff_mult_distrib2)
  then have "0x1000 + 256 * (v div 256 - b) + v mod 256 = 0x1000 + v - 256 * b" by (simp only: mult_div_mod_eq)
  then have "root + 4 * word_of_nat (0x1000 + 256 * (v div 256 - b)) + 4 * word_of_nat (v mod 256) =
      root + 4 * (word_of_nat (0x1000 + v - 256 * b) :: u32)" 
    by (simp only: add.assoc distrib_left [symmetric] of_nat_add [symmetric])
  then show "l2_entry (table_entry root (v div 256 - b) AND 0xfffffc00) (4096 * word_of_nat v) =
      root + 4 * word_of_nat (0x1000 + v - 256 * b)"
    unfolding l2_entry_at v table_base [OF assms(1)] by simp
qed

lemma init_page_tables_l2_ok:
  assumes ps: "PAGE_SIZE cfg = 4096" and root: "root AND 0x3fff = 0"
    and tabs: "\<forall>r. b \<le> r \<and> r < b + K \<longrightarrow> word_at m root r = table_entry root (r - b)"
    and v: "b \<le> v div 256" "v + n \<le> 256 * (b + K)" "b + K \<le> 0x1000" and n: "n < 2 ^ 20"
  shows "\<exists>m'. init_page_tables_l2 cfg root phy (4096 * word_of_nat v) (4096 * word_of_nat n) m = Some m' \<and>
    (\<forall>r < 2 ^ 30. word_at m' root r =
      (if 0x1000 + v - 256 * b \<le> r \<and> r < 0x1000 + v - 256 * b + n
       then page_entry phy (r - (0x1000 + v - 256 * b)) else word_at m root r))"
  using tabs v n
proof (induction n arbitrary: phy v m)
  case 0
  then show ?case by (subst init_page_tables_l2.simps) auto
next
  case (Suc n)
  let ?w = "0x1000 + v - 256 * b"
  have v: "v < 2 ^ 20" "v div 256 < b + K" using Suc.prems(3, 4) by simp_all
  note slot = page_slot [OF root Suc.prems(2) v(1), of m]
  have e: "word_at m root (v div 256) = table_entry root (v div 256 - b)" using Suc.prems(1, 2) v(2) by blast
  let ?m = "store32 m (root + 4 * word_of_nat ?w) (page_entry phy 0)"
  have ne: "4096 * word_of_nat (Suc n) \<noteq> (0 :: u32)" using page_address [OF Suc.prems(5)] by auto
  have step: "init_page_tables_l2 cfg root phy (4096 * word_of_nat v) (4096 * word_of_nat (Suc n)) m =
      init_page_tables_l2 cfg root (phy + 4096) (4096 * word_of_nat (Suc v)) (4096 * word_of_nat n) ?m"
  proof -
    have "4096 * word_of_nat v + 4096 = (4096 * word_of_nat (Suc v) :: u32)" by (simp add: distrib_left)
    moreover have "4096 * word_of_nat (Suc n) - 4096 = (4096 * word_of_nat n :: u32)" by (simp add: distrib_left)
    moreover have "page_entry phy 0 = vmsav7_build_smallpage phy MEMTYPE_SHARED_NORMAL_WRITEBACK ACCESS_PRIVILEGED_FULL GLOBAL EXECUTE"
      by (simp add: page_entry_def)
    ultimately show ?thesis
      by (subst init_page_tables_l2.simps) (simp only: if_not_P [OF ne] ps Let_def slot(1) [OF e] slot(2) [OF e])
  qed
  have w: "?w < 2 ^ 30" "b + K \<le> ?w" using v(1) Suc.prems(2, 4) by auto
  have at: "word_at ?m root r = (if r = ?w then page_entry phy 0 else word_at m root r)" if "r < 2 ^ 30" for r
    using word_at_store [OF w(1) that] .
  have "\<exists>m'. init_page_tables_l2 cfg root (phy + 4096) (4096 * word_of_nat (Suc v)) (4096 * word_of_nat n) ?m = Some m' \<and>
    (\<forall>r < 2 ^ 30. word_at m' root r =
      (if 0x1000 + Suc v - 256 * b \<le> r \<and> r < 0x1000 + Suc v - 256 * b + n
       then page_entry (phy + 4096) (r - (0x1000 + Suc v - 256 * b)) else word_at ?m root r))"
  proof (rule Suc.IH)
    show "\<forall>r. b \<le> r \<and> r < b + K \<longrightarrow> word_at ?m root r = table_entry root (r - b)"
      using Suc.prems(1) at w Suc.prems(4) by auto
    show "b \<le> Suc v div 256" using Suc.prems(2) by (rule order_trans) (rule div_le_mono, simp)
  qed (use Suc.prems in simp_all)
  then obtain m' where m': "init_page_tables_l2 cfg root (phy + 4096) (4096 * word_of_nat (Suc v)) (4096 * word_of_nat n) ?m = Some m'"
    "\<And>r. r < 2 ^ 30 \<Longrightarrow> word_at m' root r =
      (if 0x1000 + Suc v - 256 * b \<le> r \<and> r < 0x1000 + Suc v - 256 * b + n
       then page_entry (phy + 4096) (r - (0x1000 + Suc v - 256 * b)) else word_at ?m root r)" by blast
  have up: "0x1000 + Suc v - 256 * b = Suc ?w" using Suc.prems(2) by (simp add: less_eq_div_iff_mult_less_eq)
  have shift: "page_entry (phy + 4096) (r - Suc ?w) = page_entry phy (r - ?w)" if "Suc ?w \<le> r" for r
  proof -
    have "word_of_nat (r - ?w) = (1 :: u32) + word_of_nat (r - Suc ?w)" using that by (metis Suc_diff_le diff_Suc_Suc of_nat_Suc)
    then show ?thesis unfolding page_entry_def by (simp add: algebra_simps)
  qed
  show ?case
  proof (intro exI conjI allI impI)
    show "init_page_tables_l2 cfg root phy (4096 * word_of_nat v) (4096 * word_of_nat (Suc n)) m = Some m'" using step m'(1) by simp
    fix r :: nat assume r: "r < 2 ^ 30"
    show "word_at m' root r = (if ?w \<le> r \<and> r < ?w + Suc n then page_entry phy (r - ?w) else word_at m root r)"
    proof (cases "r < ?w")
      case True
      then show ?thesis using m'(2) [OF r] at [OF r] unfolding up by simp
    next
      case False
      then show ?thesis using m'(2) [OF r] at [OF r] shift [of r] unfolding up by (cases "r = ?w") simp_all
    qed
  qed
qed

section \<open>The walk\<close>

lemma page_bits:
  assumes "4096 dvd unat (w :: u32)"
  shows "(w AND 0xfffff000) OR (x AND 0xfff) = w + x mod 4096"
proof -
  have "take_bit 12 w = 0"
    using assms by (simp add: take_bit_dvd)
  then have low: "\<not> bit w n" if "n < 12" for n using that by (metis bit_0_eq bit_take_bit_iff bot_apply bot_bool_def)
  have e: "(0xfffff000 :: u32) = NOT (mask 12)" "(0xfff :: u32) = mask 12" by (simp_all add: mask_eq_exp_minus_1)
  have "w AND 0xfffff000 = w" unfolding e by (rule bit_word_eqI) (use low in \<open>auto simp: bit_simps\<close>)
  moreover have "w OR (x AND 0xfff) = w + (x AND 0xfff)"
    unfolding e by (rule disjunctive_add [symmetric]) (use low in \<open>auto simp: bit_simps\<close>)
  moreover have "x AND 0xfff = x mod 4096" unfolding e by (simp flip: take_bit_eq_mask add: take_bit_eq_mod)
  ultimately show ?thesis by simp
qed

lemma page_entry_parts:
  "page_entry phy p AND 3 \<noteq> 0" "page_entry phy p AND 3 \<noteq> 1"
  "vmsav7_smallpage_fields (page_entry phy p) =
    (Some MEMTYPE_SHARED_NORMAL_WRITEBACK, Some ACCESS_PRIVILEGED_FULL, Some GLOBAL, Some EXECUTE)"
proof -
  have two: "page_entry phy p AND 2 = 2" unfolding page_entry_def by (rule vmsav7_build_smallpage_parts(2))
  have "page_entry phy p AND 2 = (page_entry phy p AND 3) AND 2" by (simp add: and.assoc)
  then show "page_entry phy p AND 3 \<noteq> 0" "page_entry phy p AND 3 \<noteq> 1" using two by auto
  show "vmsav7_smallpage_fields (page_entry phy p) =
    (Some MEMTYPE_SHARED_NORMAL_WRITEBACK, Some ACCESS_PRIVILEGED_FULL, Some GLOBAL, Some EXECUTE)"
    unfolding page_entry_def by (rule smallpage_fields_build)
qed

lemma page_entry_base:
  assumes "4096 dvd unat phy"
  shows "(page_entry phy p AND 0xfffff000) OR (va AND 0xfff) = phy + 4096 * word_of_nat p + va mod 4096"
proof -
  have "4096 dvd unat (4096 * word_of_nat p :: u32)" unfolding unat_word_ariths by (intro dvd_mod dvd_mult2) simp_all
  then have "4096 dvd unat (phy + 4096 * word_of_nat p)" using assms unfolding unat_word_ariths(1) by (intro dvd_mod dvd_add) simp_all
  then have "((phy + 4096 * word_of_nat p) AND 0xfffff000) OR (va AND 0xfff) = phy + 4096 * word_of_nat p + va mod 4096"
    by (rule page_bits)
  then show ?thesis unfolding page_entry_def vmsav7_build_smallpage_parts(1) .
qed

text \<open>Tables built for \<open>n\<close> pages from page \<open>v0\<close> on translate exactly those pages.\<close>

lemma walk_tables:
  assumes root: "root AND 0x3fff = 0" and phy: "4096 dvd unat phy" and n: "0 < n" "v0 + n \<le> 2 ^ 20"
    and K: "K = (v0 + n - 1) div 256 + 1 - v0 div 256"
    and tabs: "\<forall>r < 0x1000 + 256 * K. word_at m root r =
      (if 0x1000 + v0 - 256 * (v0 div 256) \<le> r \<and> r < 0x1000 + v0 - 256 * (v0 div 256) + n
       then page_entry phy (r - (0x1000 + v0 - 256 * (v0 div 256)))
       else if v0 div 256 \<le> r \<and> r < v0 div 256 + K then table_entry root (r - v0 div 256) else 0)"
  shows "mmu_walk m root va =
    (if v0 \<le> unat va div 4096 \<and> unat va div 4096 < v0 + n
     then Some (phy + (va - 4096 * word_of_nat v0), Some MEMTYPE_SHARED_NORMAL_WRITEBACK, Some ACCESS_PRIVILEGED_FULL,
       Some GLOBAL, Some EXECUTE)
     else None)"
proof -
  define b where "b = v0 div 256"
  define v where "v = unat va div 4096"
  have bK: "b + K = (v0 + n - 1) div 256 + 1" and bv: "256 * b \<le> v0"
    using K n(1) div_le_mono [of v0 "v0 + n - 1" 256] by (auto simp: b_def)
  then have bK4: "b + K \<le> 0x1000" using n by (simp add: div_le_mono)
  have r0: "root AND NOT 0x3fff = root"
  proof -
    have "root = root AND (0x3fff OR NOT 0x3fff)" by (simp only: bit.disj_cancel_right and.right_neutral)
    also have "\<dots> = root AND NOT 0x3fff" unfolding bit.conj_disj_distrib root by (simp only: or.left_neutral)
    finally show ?thesis by simp
  qed
  have vi: "unat va div 2 ^ 20 = v div 256" by (simp add: v_def div_mult2_eq [symmetric])
  have v20: "v < 2 ^ 20" using unat_u32_less [of va] by (simp add: v_def less_mult_imp_div_less)
  have l1: "load32 m (l1_entry root va) = word_at m root (v div 256)" unfolding l1_entry_at vi word_at_def ..
  have "v div 256 < 0x1000" using v20 by (simp add: less_mult_imp_div_less)
  moreover have "0x1000 \<le> 0x1000 + v0 - 256 * b" using bv by simp
  ultimately have w1: "word_at m root (v div 256) = (if b \<le> v div 256 \<and> v div 256 < b + K then table_entry root (v div 256 - b) else 0)"
    using tabs unfolding b_def by simp
  show ?thesis
  proof (cases "b \<le> v div 256 \<and> v div 256 < b + K")
    case False
    have "\<not> (v0 \<le> v \<and> v < v0 + n)"
    proof
      assume "v0 \<le> v \<and> v < v0 + n"
      then have "v0 div 256 \<le> v div 256" "v div 256 \<le> (v0 + n - 1) div 256" by (auto intro!: div_le_mono)
      then show False using False bK by (auto simp: b_def)
    qed
    then show ?thesis using False w1 unfolding mmu_walk_def r0 l1 Let_def v_def [symmetric] by (simp only: if_False) simp
  next
    case True
    define x where "x = load32 m (l2_entry (table_entry root (v div 256 - b) AND 0xfffffc00) va)"
    have t: "table_entry root (v div 256 - b) AND 3 = 1" unfolding table_entry_def by (rule vmsav7_build_pagetable_parts(2))
    have walk: "mmu_walk m root va = (if x AND 3 = 0 then None
        else if x AND 3 = 1 then Some ((x AND 0xffff0000) OR (va AND 0xffff), vmsav7_largepage_fields x)
        else Some ((x AND 0xfffff000) OR (va AND 0xfff), vmsav7_smallpage_fields x))"
      using True w1 t unfolding mmu_walk_def r0 l1 Let_def x_def by simp
    have "0x1000 + 256 * (v div 256 - b) + v mod 256 = 0x1000 + (256 * (v div 256) + v mod 256) - 256 * b"
      using True by (simp add: diff_mult_distrib2)
    then have i: "0x1000 + 256 * (v div 256 - b) + v mod 256 = 0x1000 + v - 256 * b" by (simp only: mult_div_mod_eq)
    have "l2_entry (table_entry root (v div 256 - b) AND 0xfffffc00) va =
        root + 4 * (word_of_nat (0x1000 + 256 * (v div 256 - b)) + word_of_nat (v mod 256))"
      unfolding l2_entry_at table_base [OF root] v_def by (simp only: distrib_left add.assoc)
    also have "\<dots> = root + 4 * word_of_nat (0x1000 + v - 256 * b)" by (simp only: of_nat_add [symmetric] i)
    finally have xw: "x = word_at m root (0x1000 + v - 256 * b)" by (simp add: x_def word_at_def)
    have vb: "256 * b \<le> v" using True by (simp add: less_eq_div_iff_mult_less_eq)
    have "v < 256 * (b + K)" using True by (simp add: div_less_iff_less_mult)
    then have "0x1000 + v - 256 * b < 0x1000 + 256 * K" using vb by simp
    moreover have "\<not> (0x1000 + v - 256 * b < b + K)" using bK4 vb by simp
    moreover have "0x1000 + v0 - 256 * b \<le> 0x1000 + v - 256 * b \<and> 0x1000 + v - 256 * b < 0x1000 + v0 - 256 * b + n \<longleftrightarrow>
        v0 \<le> v \<and> v < v0 + n" using vb bv by linarith
    moreover have "0x1000 + v - 256 * b - (0x1000 + v0 - 256 * b) = v - v0" using bv by simp
    ultimately have x: "x = (if v0 \<le> v \<and> v < v0 + n then page_entry phy (v - v0) else 0)"
      using tabs unfolding xw b_def [symmetric] by simp
    have pa: "phy + 4096 * word_of_nat (v - v0) + va mod 4096 = phy + (va - 4096 * word_of_nat v0)" if "v0 \<le> v"
    proof -
      have "va = word_of_nat (4096 * v + unat va mod 4096)" by (simp add: v_def)
      also have "\<dots> = 4096 * word_of_nat v + va mod 4096" by (simp only: of_nat_add of_nat_mult) (simp add: word_arith_nat_mod)
      finally have "va - 4096 * word_of_nat v0 = (4096 * word_of_nat v + va mod 4096) - 4096 * word_of_nat v0"
        by (rule arg_cong)
      also have "\<dots> = 4096 * word_of_nat (v - v0) + va mod 4096" using that by (simp add: of_nat_diff right_diff_distrib)
      finally show ?thesis by (simp only: add.assoc)
    qed
    show ?thesis
      using page_entry_parts [of phy "v - v0"] page_entry_base [OF phy, of "v - v0" va] pa unfolding walk v_def [symmetric] x
      by simp
  qed
qed

section \<open>Properties\<close>

lemma init_l1_returns:
  assumes "k \<le> K"
  shows "\<exists>res. init_l1 cfg (a + 4 * word_of_nat k) (a + 4 * word_of_nat K) t s = Some res"
  using assms
proof (induction "K - k" arbitrary: k t s)
  case 0
  then show ?case by (subst init_l1.simps) simp
next
  case (Suc n)
  have e: "a + 4 * word_of_nat k + 4 = a + 4 * word_of_nat (Suc k)" by (simp add: distrib_left)
  have "\<exists>res. init_l1 cfg (a + 4 * word_of_nat k + 4) (a + 4 * word_of_nat K) t' s' = Some res" for t' s'
    unfolding e by (rule Suc.hyps(1)) (use Suc in simp_all)
  then show ?case by (subst init_l1.simps) (simp split: sum.split prod.split)
qed

lemma init_l2_returns:
  assumes "PAGE_SIZE cfg = 4096"
  shows "\<exists>m'. init_page_tables_l2 cfg root phy virt (4096 * word_of_nat n) m = Some m'"
proof (induction n arbitrary: phy virt m)
  case 0
  then show ?case by (subst init_page_tables_l2.simps) simp
next
  case (Suc n)
  have "4096 * word_of_nat (Suc n) - 4096 = (4096 * word_of_nat n :: u32)" by (simp add: distrib_left)
  then show ?case using Suc.IH assms by (subst init_page_tables_l2.simps) (simp only: Let_def split: if_split, blast)
qed

lemma get_free_l2_mono:
  assumes got: "get_free_l2 cfg t s = Inr (l2, t', s')" and ps: "PAGE_SIZE cfg = 4096" and le: "boot_pages s \<le> heap_pages cfg"
  shows "boot_pages s \<le> boot_pages s' \<and> boot_pages s' \<le> heap_pages cfg"
proof (cases "l2_n t = 0")
  case True
  then obtain p where b: "get_boot_pages cfg 1 (GFP_KERNEL OR GFP_ZERO) s = Inr (p, s')"
    using got ps by (auto simp: get_free_l2_def Let_def split: sum.splits prod.splits if_splits)
  have "unat (heap_pages cfg) < 2 ^ 31" by (rule heap_pages_bound) (simp add: ps)
  then have "unat (boot_pages s + 1) = unat (boot_pages s) + 1"
    using le by (subst unat_add_u32) (simp_all add: word_le_nat_alt)
  then show ?thesis using get_boot_pages_Inr(2, 3) [OF b] by (simp add: word_le_nat_alt)
next
  case False
  then show ?thesis using got le by (auto simp: get_free_l2_def)
qed

lemma init_l1_mono:
  "init_l1 cfg itor fin t s = Some res \<Longrightarrow> PAGE_SIZE cfg = 4096 \<Longrightarrow> boot_pages s \<le> heap_pages cfg \<Longrightarrow>
    res = Inr (e, t', s') \<Longrightarrow> boot_pages s \<le> boot_pages s'"
proof (induction cfg itor fin t s res rule: init_l1.raw_induct [rotated, consumes 1])
  case (1 f cfg itor fin t s res)
  show ?case
  proof (cases "itor = fin")
    case True
    then show ?thesis using 1 by simp
  next
    case False
    obtain l2 t1 s1 where got: "get_free_l2 cfg t s = Inr (l2, t1, s1)"
      using 1(2, 5) False by (auto split: sum.splits prod.splits)
    note mono = get_free_l2_mono [OF got 1(3, 4)]
    show ?thesis
    proof (cases "l2 = 0")
      case True
      then show ?thesis using 1(2, 5) False got mono by simp
    next
      case nz: False
      have "f cfg (itor + 4) fin t1 (s1\<lparr>boot_mem := store32 (boot_mem s1) itor
          (vmsav7_build_pagetable l2 DOMAIN_0 PRIVILEGED_EXECUTE SECURE)\<rparr>) = Some res"
        using 1(2) False got nz by simp
      from 1(1) [OF this 1(3) _ 1(5)] mono show ?thesis by (auto intro: order_trans)
    qed
  qed
qed

text \<open>What stands in memory, and where, when the tables for \<open>n\<close> pages from page \<open>v0\<close> on are built.\<close>

definition tables_built :: "board \<Rightarrow> u32 \<Rightarrow> nat \<Rightarrow> nat \<Rightarrow> u32 \<Rightarrow> l2_tables \<Rightarrow> boot \<Rightarrow> bool" where
  "tables_built cfg phy v0 n root t s \<longleftrightarrow>
     (let b = v0 div 256; K = (v0 + n - 1) div 256 + 1 - v0 div 256
      in root AND 0x3fff = 0 \<and> b + K \<le> 0x1000 \<and> l2_state cfg root K t s \<and>
        (\<exists>k. root = HEAP_BEGIN cfg + k * PAGE_SIZE cfg \<and> unat k + 4 \<le> unat (boot_pages s)) \<and>
        (\<forall>r < 0x1000 + 256 * K. word_at (boot_mem s) root r =
          (if 0x1000 + v0 - 256 * b \<le> r \<and> r < 0x1000 + v0 - 256 * b + n then page_entry phy (r - (0x1000 + v0 - 256 * b))
           else if b \<le> r \<and> r < b + K then table_entry root (r - b) else 0)))"

lemma init_page_tables_built:
  assumes ps: "PAGE_SIZE cfg = 4096" and phy: "4096 dvd unat phy" and n: "0 < n" "v0 + n \<le> 2 ^ 20" "n < 2 ^ 20" and t: "l2_n t = 0"
    and room: "unat (boot_pages s) + 4 \<le> unat (heap_pages cfg)"
  shows "\<exists>res. init_page_tables cfg phy (4096 * word_of_nat v0) (4096 * word_of_nat n) t cp s = Some res \<and>
    (\<forall>t' cp' s'. res = Inr (0, t', cp', s') \<and> TTBR0 cp' \<noteq> 0 \<longrightarrow> tables_built cfg phy v0 n (TTBR0 cp') t' s')"
proof -
  let ?virt = "4096 * word_of_nat v0 :: u32" and ?len = "4096 * word_of_nat n :: u32"
  define b where "b = v0 div 256"
  define K where "K = (v0 + n - 1) div 256 + 1 - v0 div 256"
  have bK: "b + K = (v0 + n - 1) div 256 + 1" using n(1) div_le_mono [of v0 "v0 + n - 1" 256] by (auto simp: b_def K_def)
  have bK4: "b + K \<le> 0x1000"
  proof -
    have "(v0 + n - 1) div 256 < 0x1000" using n by (simp add: div_less_iff_less_mult)
    then show ?thesis using bK by simp
  qed
  obtain root s1 where al: "get_aligned_boot_pages cfg (16 * 1024) 4 (GFP_KERNEL OR GFP_ZERO) s = Some (Inr (root, s1))"
    and at: "root \<noteq> 0 \<Longrightarrow> root AND (16 * 1024 - 1) = 0 \<and>
      (\<exists>s0. unat (boot_pages s0) + 4 \<le> unat (heap_pages cfg) \<and> get_boot_pages cfg 4 (GFP_KERNEL OR GFP_ZERO) s0 = Inr (root, s1))"
    using get_aligned_boot_pages_ok [of s 4 cfg "16 * 1024" "GFP_KERNEL OR GFP_ZERO"] room ps by auto
  have begin_at: "l1_entry root ?virt = root + 4 * word_of_nat (b + 0)" unfolding l1_entry_at
    using page_address [of v0] n by (simp add: b_def div_mult2_eq [symmetric])
  have end_at: "l1_entry root (?virt + ?len - 1) + 4 = root + 4 * word_of_nat (b + K)"
  proof -
    have "?virt + ?len - 1 = word_of_nat (4096 * (v0 + n) - 1)" using n(1) by (simp add: of_nat_diff distrib_left)
    moreover have "4096 * (v0 + n) - 1 < 2 ^ 32" using n by simp
    ultimately have "unat (?virt + ?len - 1) = 4096 * (v0 + n) - 1" by (simp only: unat_small)
    moreover have "(4096 * (v0 + n) - 1) div 2 ^ 20 = (v0 + n - 1) div 256"
    proof -
      have "(4096 * (v0 + n) - 1) div 4096 = v0 + n - 1" using n(1) by (auto simp: div_eq_dividend_iff intro!: div_nat_eqI)
      then show ?thesis by (simp add: div_mult2_eq [of _ 4096 256, simplified])
    qed
    ultimately show ?thesis unfolding l1_entry_at bK by (simp add: distrib_left)
  qed
  obtain r1 where l1: "init_l1 cfg (l1_entry root ?virt) (l1_entry root (?virt + ?len - 1) + 4) t s1 = Some r1"
    unfolding begin_at end_at using init_l1_returns [of 0 K cfg "root + 4 * word_of_nat b" t s1] by (auto simp: distrib_left add.assoc)
  note run = init_page_tables_def [of cfg phy ?virt ?len t cp s, unfolded al option.case sum.case prod.case Let_def l1]
  show ?thesis
  proof (cases r1)
    case (Inl h)
    then show ?thesis by (simp add: run)
  next
    case (Inr y)
    obtain e t2 s2 where y: "y = (e, t2, s2)" by (metis prod_cases3)
    obtain m where m: "init_page_tables_l2 cfg root phy ?virt ?len (boot_mem s2) = Some m" using init_l2_returns [OF ps] by blast
    let ?cp = "cp\<lparr>TTBR0 := root, TTBCR := 0, SCTLR := SCTLR cp OR SCTLR_M OR SCTLR_C OR SCTLR_Z OR SCTLR_I\<rparr>"
    have res: "init_page_tables cfg phy ?virt ?len t cp s =
        Some (if e \<noteq> 0 then Inr (e, t2, cp, s2) else Inr (0, t2, ?cp, s2\<lparr>boot_mem := m\<rparr>))"
      using Inr y m by (simp add: run)
    have "tables_built cfg phy v0 n root t2 (s2\<lparr>boot_mem := m\<rparr>)" if e: "e = 0" and root: "root \<noteq> 0"
    proof -
      obtain s0 where g: "get_boot_pages cfg 4 (GFP_KERNEL OR GFP_ZERO) s0 = Inr (root, s1)" and r: "root AND 0x3fff = 0"
        and s0: "unat (boot_pages s0) + 4 \<le> unat (heap_pages cfg)" using at [OF root] by auto
      have "l2_state cfg root 0 t s1" using get_boot_pages_Inr(1, 2) [OF g] t ps by (simp add: l2_state_def Let_def distrib_right)
      moreover have "word_at (boot_mem s1) root w = 0" if "w < 0x1000" for w
      proof -
        have "boot_mem s1 x = (if off (root + 4 * word_of_nat 0) x < 4 * 0x1000 then 0 else boot_mem s0 x)" for x
          using get_boot_pages_mem [OF g, of x] by (simp add: ps gfp_defs)
        then have "word_at (boot_mem s1) root w = (if 0 \<le> w then 0 else word_at (boot_mem s0) root w)"
          by (rule words_cleared) (use that in simp_all)
        then show ?thesis by simp
      qed
      then have "l1_state root b 0 t s1" by (auto simp: l1_state_def t)
      ultimately have st: "l1_state root b K t2 s2" "l2_state cfg root K t2 s2"
        using init_l1_ok [OF ps, of root 0 t s1 b K] bK4 l1 Inr y e unfolding begin_at end_at by auto
      then have w1: "\<forall>r < 0x1000 + 256 * K. word_at (boot_mem s2) root r = (if b \<le> r \<and> r < b + K then table_entry root (r - b) else 0)"
        using st(1) by (simp add: l1_state_def)
      have "\<forall>r. b \<le> r \<and> r < b + K \<longrightarrow> word_at (boot_mem s2) root r = table_entry root (r - b)" using w1 bK4 by auto
      note tabs = this
      have top: "v0 + n \<le> 256 * (b + K)" unfolding bK using n(1) by (simp add: Suc_le_eq div_less_iff_less_mult [symmetric])
      have b0: "b \<le> v0 div 256" by (simp add: b_def)
      have w2: "\<forall>r < 2 ^ 30. word_at m root r = (if 0x1000 + v0 - 256 * b \<le> r \<and> r < 0x1000 + v0 - 256 * b + n
          then page_entry phy (r - (0x1000 + v0 - 256 * b)) else word_at (boot_mem s2) root r)"
        using init_page_tables_l2_ok [OF ps r tabs b0 top bK4 n(3), of phy] unfolding m option.inject by blast
      have "unat (boot_pages s0 + 4) = unat (boot_pages s0) + 4"
        using s0 heap_pages_bound [of cfg] ps by (subst unat_add_u32) simp_all
      then have bp: "unat (boot_pages s1) = unat (boot_pages s0) + 4" "boot_pages s1 \<le> heap_pages cfg"
        using get_boot_pages_Inr(2) [OF g] s0 by (simp_all add: word_le_nat_alt)
      then have "unat (boot_pages s0) + 4 \<le> unat (boot_pages s2)"
        using init_l1_mono [OF _ ps bp(2) refl, of _ _ t 0 t2 s2] l1 Inr y e bp(1) by (simp add: word_le_nat_alt)
      moreover have "root = HEAP_BEGIN cfg + boot_pages s0 * PAGE_SIZE cfg" by (rule get_boot_pages_Inr(1) [OF g])
      moreover have "\<forall>r < 0x1000 + 256 * K. word_at m root r =
          (if 0x1000 + v0 - 256 * b \<le> r \<and> r < 0x1000 + v0 - 256 * b + n then page_entry phy (r - (0x1000 + v0 - 256 * b))
           else if b \<le> r \<and> r < b + K then table_entry root (r - b) else 0)" using w1 w2 bK4 by simp
      ultimately show ?thesis
        unfolding tables_built_def Let_def K_def [symmetric] unfolding b_def [symmetric] using r bK4 st(2)
        by (auto simp: l2_state_mem)
    qed
    then show ?thesis unfolding res by auto
  qed
qed

lemma walk_built:
  assumes "tables_built cfg phy v0 n root t s" and phy: "4096 dvd unat phy" and n: "0 < n" "v0 + n \<le> 2 ^ 20"
  shows "mmu_walk (boot_mem s) root va =
      (if v0 \<le> unat va div 4096 \<and> unat va div 4096 < v0 + n
       then Some (phy + (va - 4096 * word_of_nat v0), Some MEMTYPE_SHARED_NORMAL_WRITEBACK, Some ACCESS_PRIVILEGED_FULL,
         Some GLOBAL, Some EXECUTE)
       else None)"
  by (rule walk_tables [OF _ phy n refl]) (use assms(1) in \<open>simp_all add: tables_built_def Let_def\<close>)

lemma init_page_tables_ok:
  assumes ps: "PAGE_SIZE cfg = 4096" and phy: "4096 dvd unat phy" and n: "0 < n" "v0 + n \<le> 2 ^ 20" "n < 2 ^ 20" and t: "l2_n t = 0"
    and room: "unat (boot_pages s) + 4 \<le> unat (heap_pages cfg)"
  shows "\<exists>res. init_page_tables cfg phy (4096 * word_of_nat v0) (4096 * word_of_nat n) t cp s = Some res \<and>
    (\<forall>t' cp' s'. res = Inr (0, t', cp', s') \<and> TTBR0 cp' \<noteq> 0 \<longrightarrow> (\<forall>va. mmu_walk (boot_mem s') (TTBR0 cp') va =
      (if v0 \<le> unat va div 4096 \<and> unat va div 4096 < v0 + n
       then Some (phy + (va - 4096 * word_of_nat v0), Some MEMTYPE_SHARED_NORMAL_WRITEBACK, Some ACCESS_PRIVILEGED_FULL,
         Some GLOBAL, Some EXECUTE)
       else None)))"
  using init_page_tables_built [OF assms, of cp] walk_built [OF _ phy n(1, 2)] by blast

text \<open>C23: \<open>init_page_tables\<close> returns, and when it reports success with a table that was allocated, the memory
  management unit translates every address of the range it was asked to map to its place, as
  cached memory for privileged code, and faults on every other address.\<close>

theorem init_page_tables_maps:
  assumes "PAGE_SIZE cfg = 4096" and "4096 dvd unat phy" and "4096 dvd unat virt" and "4096 dvd unat len"
    and "len \<noteq> 0" and "unat virt + unat len \<le> 2 ^ 32" and "l2_n t = 0"
    and "unat (boot_pages s) + 4 \<le> unat (heap_pages cfg)"
  shows "\<exists>res. init_page_tables cfg phy virt len t cp s = Some res \<and>
    (\<forall>t' cp' s'. res = Inr (0, t', cp', s') \<and> TTBR0 cp' \<noteq> 0 \<longrightarrow> (\<forall>va. mmu_walk (boot_mem s') (TTBR0 cp') va =
      (if unat virt \<le> unat va \<and> unat va < unat virt + unat len
       then Some (phy + (va - virt), Some MEMTYPE_SHARED_NORMAL_WRITEBACK, Some ACCESS_PRIVILEGED_FULL,
         Some GLOBAL, Some EXECUTE)
       else None)))"
proof -
  let ?v = "unat virt div 4096" and ?n = "unat len div 4096"
  note v = page_word [OF assms(3)] and n = page_word [OF assms(4)]
  have u: "unat virt = 4096 * ?v" "unat len = 4096 * ?n" using assms(3, 4) by simp_all
  have pos: "0 < ?n" using assms(5) u(2) by (metis bot_nat_0.not_eq_extremum mult_0_right unat_eq_zero)
  have le: "?v + ?n \<le> 2 ^ 20" using assms(6) u by simp
  have n20: "?n < 2 ^ 20" using unat_u32_less [of len] by (simp add: div_less_iff_less_mult)
  have range: "?v \<le> unat va div 4096 \<and> unat va div 4096 < ?v + ?n \<longleftrightarrow> unat virt \<le> unat va \<and> unat va < unat virt + unat len" for va :: u32
    using u by (auto simp: less_eq_div_iff_mult_less_eq div_less_iff_less_mult algebra_simps)
  show ?thesis using init_page_tables_ok [OF assms(1, 2) pos le n20 assms(7, 8), of cp] unfolding v [symmetric] n [symmetric] range .
qed

text \<open>A BeagleBoard with 72 kilobytes of memory, and an image of 16 kilobytes.\<close>

definition small_board :: board where
  "small_board = \<lparr>PAGE_SIZE = 4096, PHYSICAL_MEMORY_BASE_ADDRESS = 0x80200000, VIRTUAL_MEMORY_BASE_ADDRESS = 0x80200000,
     PHYSICAL_MEMORY_LENGTH = 0x12000, HEAP_BEGIN = 0x80204000\<rparr>"

definition small_start :: "memory \<Rightarrow> boot" where
  "small_start m = \<lparr>boot_pages = 0, boot_mem = m\<rparr>"

lemma small_tables:
  "\<exists>t' cp' m'. init_page_tables small_board 0x80200000 0x80200000 0x12000 \<lparr>l2_p = 0, l2_n = 0\<rparr>
     \<lparr>SCTLR = 0, TTBR0 = 0, TTBCR = 0\<rparr> (small_start m) = Some (Inr (0, t', cp', \<lparr>boot_pages = 5, boot_mem = m'\<rparr>)) \<and> TTBR0 cp' = 0x80204000"
proof -
  let ?cfg = small_board
  have al: "get_aligned_boot_pages ?cfg (16 * 1024) 4 (GFP_KERNEL OR GFP_ZERO) (small_start m) =
      Some (Inr (0x80204000, \<lparr>boot_pages = 4, boot_mem = memset m 0x80204000 0 0x4000\<rparr>))"
    by (simp add: get_aligned_boot_pages.simps eval_boot small_board_def small_start_def)
  have ends: "l1_entry 0x80204000 0x80200000 = 0x80206008" "l1_entry 0x80204000 (0x80200000 + 0x12000 - 1) + 4 = 0x8020600C"
    by (simp_all add: l1_entry_def)
  have l2: "\<exists>m2. get_free_l2 ?cfg \<lparr>l2_p = 0, l2_n = 0\<rparr> \<lparr>boot_pages = 4, boot_mem = m1\<rparr> =
      Inr (0x80208000, \<lparr>l2_p = 0x80208400, l2_n = 3\<rparr>, \<lparr>boot_pages = 5, boot_mem = m2\<rparr>)" for m1
    by (simp add: get_free_l2_def eval_boot small_board_def)
  have l1: "\<exists>t2 m2. init_l1 ?cfg 0x80206008 0x8020600C \<lparr>l2_p = 0, l2_n = 0\<rparr> \<lparr>boot_pages = 4, boot_mem = m1\<rparr> =
      Some (Inr (0, t2, \<lparr>boot_pages = 5, boot_mem = m2\<rparr>))" for m1
  proof -
    have "init_l1 ?cfg 0x8020600C 0x8020600C t s = Some (Inr (0, t, s))" for t s by (subst init_l1.simps) simp
    then show ?thesis using l2 [of m1] by (subst init_l1.simps) auto
  qed
  have pages: "\<exists>m'. init_page_tables_l2 ?cfg 0x80204000 0x80200000 0x80200000 0x12000 m1 = Some m'" for m1
    using init_l2_returns [of ?cfg "0x80204000" "0x80200000" "0x80200000" 18 m1] by (simp add: small_board_def)
  obtain t2 m2 where "init_l1 ?cfg 0x80206008 0x8020600C \<lparr>l2_p = 0, l2_n = 0\<rparr>
      \<lparr>boot_pages = 4, boot_mem = memset m 0x80204000 0 0x4000\<rparr> = Some (Inr (0, t2, \<lparr>boot_pages = 5, boot_mem = m2\<rparr>))" using l1 by blast
  moreover obtain m' where "init_page_tables_l2 ?cfg 0x80204000 0x80200000 0x80200000 0x12000 m2 = Some m'" using pages by blast
  ultimately show ?thesis unfolding init_page_tables_def al option.case sum.case prod.case Let_def ends by simp
qed

lemma init_page_tables_maps_witness:
  "\<exists>t' cp' s'. init_page_tables small_board 0x80200000 0x80200000 0x12000 \<lparr>l2_p = 0, l2_n = 0\<rparr>
     \<lparr>SCTLR = 0, TTBR0 = 0, TTBCR = 0\<rparr> (small_start (\<lambda>a. 0xFF)) = Some (Inr (0, t', cp', s')) \<and>
   mmu_walk (boot_mem s') (TTBR0 cp') 0x80200123 = Some (0x80200123, Some MEMTYPE_SHARED_NORMAL_WRITEBACK,
     Some ACCESS_PRIVILEGED_FULL, Some GLOBAL, Some EXECUTE) \<and>
   mmu_walk (boot_mem s') (TTBR0 cp') 0x80212000 = None"
proof -
  let ?s = "small_start (\<lambda>a. 0xFF)"
  obtain t' cp' s' where r: "init_page_tables small_board 0x80200000 0x80200000 0x12000 \<lparr>l2_p = 0, l2_n = 0\<rparr>
     \<lparr>SCTLR = 0, TTBR0 = 0, TTBCR = 0\<rparr> ?s = Some (Inr (0, t', cp', s'))"
    and root: "TTBR0 cp' = 0x80204000" using small_tables [of "\<lambda>a. 0xFF"] by blast
  have "unat (boot_pages ?s) + 4 \<le> unat (heap_pages small_board)" by (simp add: eval_boot small_board_def small_start_def)
  then have walk: "mmu_walk (boot_mem s') (TTBR0 cp') va =
      (if unat (0x80200000 :: u32) \<le> unat va \<and> unat va < unat (0x80200000 :: u32) + unat (0x12000 :: u32)
       then Some (0x80200000 + (va - 0x80200000), Some MEMTYPE_SHARED_NORMAL_WRITEBACK, Some ACCESS_PRIVILEGED_FULL,
         Some GLOBAL, Some EXECUTE) else None)" for va
    using init_page_tables_maps [of small_board "0x80200000" "0x80200000" "0x12000" "\<lparr>l2_p = 0, l2_n = 0\<rparr>"
        ?s "\<lparr>SCTLR = 0, TTBR0 = 0, TTBCR = 0\<rparr>"] r root
    by (simp add: small_board_def)
  show ?thesis using r walk [of "0x80200123"] walk [of "0x80212000"] by simp
qed

end
