(* ===== verification/Kmalloc_Memory.thy ===== *)
theory Kmalloc_Memory
  imports Kmalloc Stack
begin

text \<open>
  What \<open>kmalloc\<close> does to memory: it clears the block it returns when asked to, and changes no byte of any
  block that is outstanding and none below the heap. Blocks lie in the heap, at multiples of their size.
\<close>

section \<open>The page allocator\<close>

text \<open>
  The state of the page allocator while somebody else allocates: the regions \<open>B\<close> stay allocated, and their bytes and all below
  the heap stay as they were.
\<close>

definition untouched :: "u32 \<Rightarrow> region set \<Rightarrow> memory \<Rightarrow> memory \<Rightarrow> bool" where
  "untouched hb B m m' \<longleftrightarrow> (\<forall>x. unat x < unat hb \<or> (\<exists>r \<in> B. unat x \<in> region_bytes r) \<longrightarrow> m' x = m x)"

definition quiet :: "board \<Rightarrow> region set \<Rightarrow> u32 \<Rightarrow> memory \<Rightarrow> pages \<Rightarrow> bool" where
  "quiet cfg B hb m s \<longleftrightarrow> (\<exists>R. page_regions cfg s R \<and> B \<subseteq> R) \<and> heap_base (buddies_of s) = hb \<and>
     untouched hb B m (pages_mem s)"

lemma regions_in_heap:
  assumes "page_regions cfg s R" and "(p, len) \<in> R"
  shows "unat (heap_base (buddies_of s)) \<le> unat p"
proof -
  obtain live k n where live: "pages_inv cfg s live" "(k, n) \<in> live" "p = block_addr cfg s (k, n)"
    using assms by (auto simp: page_regions_def block_region_def)
  show ?thesis using block_addr_unat [OF live(1) pages_inv_range [OF live(1,2)]] live(3) by simp
qed

lemma off_in_region:
  assumes "off p x < n" and "unat p + n \<le> 2 ^ 32"
  shows "unat x \<in> region_bytes (p, n)"
proof -
  have "unat (p + (x - p)) = unat p + unat (x - p)"
    using assms by (subst unat_add_u32) (simp_all add: off_def)
  then show ?thesis using assms(1) by (simp add: region_bytes_def off_def)
qed

lemma quiet_get:
  assumes Q: "quiet cfg B hb m s"
  shows "quiet cfg B hb m (snd (get_free_pages cfg n fl s))"
proof -
  obtain R where R: "page_regions cfg s R" "B \<subseteq> R" using Q by (auto simp: quiet_def)
  obtain live where inv: "pages_inv cfg s live" using R(1) by (auto simp: page_regions_def)
  obtain p s' where got: "get_free_pages cfg n fl s = (p, s')" by (metis surj_pair)
  from inv got show ?thesis
  proof (cases rule: get_free_pages_cases)
    case failed
    then show ?thesis using Q got by simp
  next
    case (found k)
    from pg.get_some [OF R(1) TrueI got found(1)] obtain len where len: "unat n * unat (PAGE_SIZE cfg) \<le> len"
      "\<forall>r \<in> R. region_bytes r \<inter> region_bytes (p, len) = {}" "page_regions cfg s' (insert (p, len) R)" by blast
    have top: "unat p + len < 2 ^ 32" using page_region_facts(2) [OF len(3)] by blast
    have sz: "unat (n * PAGE_SIZE cfg) \<le> len"
      using len(1) unat_mult_u32 [of n "PAGE_SIZE cfg"] top by (metis add_lessD1 add.commute le_less_trans)
    have hb': "heap_base (buddies_of s') = heap_base (buddies_of s)"
      using found(7) [of "(0, 0)"] by (simp add: block_region_def block_addr_def)
    have low: "unat (heap_base (buddies_of s)) \<le> unat p" using regions_in_heap [OF len(3), of p len] hb' by simp
    have "pages_mem s' x = pages_mem s x" if "unat x < unat hb \<or> (\<exists>r \<in> B. unat x \<in> region_bytes r)" for x
    proof -
      have "unat x \<notin> region_bytes (p, len)"
        using that len(2) R(2) low Q by (fastforce simp: quiet_def region_bytes_def)
      moreover have "unat x \<in> region_bytes (p, len)" if "off p x < unat (n * PAGE_SIZE cfg)"
        by (rule off_in_region) (use that sz top in simp_all)
      ultimately show ?thesis using found(8) by auto
    qed
    then show ?thesis
      using Q len(3) R(2) hb' unfolding quiet_def got by (auto simp: untouched_def)
  qed
qed

section \<open>The slab allocator\<close>

lemma mem_cache_alloc_quiet:
  assumes got: "mem_cache_alloc cfg get free clear mc s = Inr (p, mc', s')" and P: "P s"
    and get: "\<And>n fl s. P s \<Longrightarrow> P (snd (get n fl s))" and zero: "gfp_flags mc AND GFP_ZERO = 0"
  shows "P s' \<and> gfp_flags mc' = gfp_flags mc"
proof -
  obtain mc1 s1 where r: "refill cfg get free mc s = (mc1, s1)" by (metis surj_pair)
  obtain q t where q: "get 1 (gfp_flags mc OR GFP_ZERO) s = (q, t)" by (metis surj_pair)
  have one: "P s1 \<and> gfp_flags mc1 = gfp_flags mc"
    using r more_slabs_one [of cfg get free "gfp_flags mc" s] q P get [OF P, of 1 "gfp_flags mc OR GFP_ZERO"]
    by (auto simp: refill_def split: if_splits)
  obtain mc2 s2 where m2: "(if partial_slabs mc1 = [] then pluck_free get mc1 s1 else (mc1, s1)) = (mc2, s2)"
    by (metis surj_pair)
  obtain pg s3 where g: "get (pages_per_slab mc1) (gfp_flags mc1) s1 = (pg, s3)" by (metis surj_pair)
  have "P s3" using get [of s1 "pages_per_slab mc1" "gfp_flags mc1"] one g by simp
  then have two: "P s2 \<and> gfp_flags mc2 = gfp_flags mc"
    using m2 one g by (auto simp: pluck_free_def split: list.splits prod.splits if_splits)
  show ?thesis
    using got one two zero unfolding mem_cache_alloc_def r prod.case m2
    by (auto simp: Let_def split: if_splits prod.splits option.splits)
qed

section \<open>kmalloc\<close>

text \<open>The caches of the pools do not clear memory; \<open>kmalloc\<close> does.\<close>

definition pools_plain :: "'s kheap \<Rightarrow> bool" where
  "pools_plain H \<longleftrightarrow> (\<forall>i < 7. \<forall>mc. pool_cache H i = Some mc \<longrightarrow> gfp_flags mc AND GFP_ZERO = 0)"

lemma pool_flags: "i < 7 \<Longrightarrow> pool_gfp_flags (pools ! i) = GFP_KERNEL"
proof -
  assume "i < 7"
  then have "i \<in> {0, 1, 2, 3, 4, 5, 6}" by auto
  then show ?thesis by (auto simp: pools_def)
qed

lemma ensure_pool_plain:
  assumes t: "table_ok H" and i: "i < 7" and plain: "pools_plain H" and e: "ensure_pool cfg i H = Inr (err, H1)"
  shows "pools_plain H1 \<and> kh_pages H1 = kh_pages H"
proof (cases "kh_pools H ! i")
  case (Some c)
  then show ?thesis using e plain by (simp add: ensure_pool_def)
next
  case None
  let ?root = "kh_root H"
  have kern: "GFP_KERNEL AND GFP_ZERO = 0" by (simp add: gfp_defs)
  show ?thesis
  proof (cases "H1 = H")
    case False
    then have H1: "H1 = H\<lparr>kh_root := ?root\<lparr>caches := caches ?root @ [empty_cache i]\<rparr>, kh_pools := (kh_pools H)[i := Some (length (caches ?root))]\<rparr>"
      using e None by (auto simp: ensure_pool_def mem_cache_new_def empty_cache_def split: if_splits)
    have "gfp_flags mc AND GFP_ZERO = 0" if jm: "j < 7" "pool_cache H1 j = Some mc" for j mc
    proof (cases "j = i")
      case True
      then show ?thesis
        using that t i kern by (auto simp: pool_cache_def H1 table_ok_def empty_cache_def pool_flags)
    next
      case False
      then obtain d where d: "kh_pools H ! j = Some d" "mc = (caches ?root @ [empty_cache i]) ! d"
        using jm(2) by (auto simp: pool_cache_def H1)
      then have "d < length (caches ?root)" using t jm(1) unfolding table_ok_def by blast
      then have "pool_cache H j = Some mc" using d by (simp add: pool_cache_def nth_append)
      then show ?thesis using plain jm(1) unfolding pools_plain_def by blast
    qed
    then show ?thesis by (simp add: pools_plain_def H1)
  qed (use plain in simp)
qed

text \<open>A block lies at a multiple of its size, in the heap.\<close>

lemma block_place:
  assumes H: "heap_ok cfg R0 H Q" and r: "(a, len) \<in> Q"
  shows "len dvd unat a" and "unat (heap_base (buddies_of (kh_pages H))) \<le> unat a" and "unat a + len < 2 ^ 32"
    and "a \<noteq> 0" and "\<exists>j. len = 2 ^ j"
proof -
  have size: "PAGE_SIZE cfg = 4096" and Q: "Q = pool_regions cfg H" using H by (simp_all add: kmalloc_ok_def)
  obtain R Ms where own: "owns (page_regions cfg) 4096 R0 (kh_pages H) R" and hold: "pools_hold cfg H Ms R"
    using H by (auto simp: kmalloc_ok_def)
  obtain i mc where i: "i < 7" "pool_cache H i = Some mc" "a \<in> allocated cfg mc" "len = unat (chunk_sz mc)"
    using r unfolding Q pool_regions_def by blast
  have ok: "cache_ok cfg mc (Ms i)" "Ms i \<subseteq> R" using hold i(1,2) unfolding pools_hold_def pool_ok_def by blast+
  obtain X where X: "page_regions cfg (kh_pages H) (R0 \<union> X)" "covered 4096 R X" using own by (rule ownsE)
  have h: "held (unat (PAGE_SIZE cfg)) R" using apg.owns_held [of cfg R0 "kh_pages H" R] own size by simp
  obtain sl j where sl: "sl \<in> set (cache_slabs mc)" "slab_page sl \<noteq> 0" "j < nchunks cfg mc" "a = chunk_addr mc sl j"
    using i(3) by (rule allocatedD [OF ok(1)])
  have p: "(slab_page sl, pages_per_slab mc) \<in> R" using cache_okD(7) [OF ok(1) sl(1,2)] ok(2) by blast
  have u: "unat a = unat (slab_page sl) + j * unat (chunk_sz mc)"
    using chunk_addr_unat(1) [OF cache_okD(1) [OF ok(1)] h p sl(3)] sl(4) by simp
  have "unat (PAGE_SIZE cfg) dvd unat (slab_page sl)" using h p unfolding held_def by blast
  then have "len dvd unat (slab_page sl)"
    using geometryD(3) [OF cache_okD(1) [OF ok(1)]] i(4) dvd_trans by blast
  then show "len dvd unat a" using u i(4) by simp
  obtain l where l: "(slab_page sl, l) \<in> X" using coveredD(1) [OF X(2) p] by blast
  have "unat (heap_base (buddies_of (kh_pages H))) \<le> unat (slab_page sl)"
    by (rule regions_in_heap [OF X(1), of _ l]) (use l in blast)
  then show "unat (heap_base (buddies_of (kh_pages H))) \<le> unat a" using u by simp
  obtain q where q: "(q, pages_per_slab mc) \<in> Ms i"
    "region_bytes (a, unat (chunk_sz mc)) \<subseteq> region_bytes (q, unat (pages_per_slab mc) * unat (PAGE_SIZE cfg))"
    using allocated_region [OF ok(1) h ok(2) i(3)] .
  have "unat q + unat (pages_per_slab mc) * unat (PAGE_SIZE cfg) < 2 ^ 32" using h q(1) ok(2) unfolding held_def by blast
  moreover have "unat a + unat (chunk_sz mc) \<le> unat q + unat (pages_per_slab mc) * unat (PAGE_SIZE cfg)"
    using q(2) geometryD(1) [OF cache_okD(1) [OF ok(1)]] by (auto simp: region_bytes_def)
  ultimately show "unat a + len < 2 ^ 32" using i(4) by simp
  show "a \<noteq> 0" using allocated_not_null [OF ok(1) h ok(2) i(3)] .
  have "chunk_sz mc = pool_chunk_size (pools ! i)" using hold i(1,2) unfolding pools_hold_def pool_ok_def by blast
  moreover obtain j where "j < 12" "pool_chunk_size (pools ! i) = 2 ^ j" using pool_sizes(2) [OF i(1)] by blast
  ultimately show "\<exists>j. len = 2 ^ j" using i(4) by (intro exI [of _ j]) simp
qed

lemma block_in_pages:
  assumes H: "heap_ok cfg R0 H Q"
  obtains X where "page_regions cfg (kh_pages H) (R0 \<union> X)"
    and "\<forall>r \<in> Q. \<exists>x \<in> X. region_bytes r \<subseteq> region_bytes x"
proof -
  have size: "PAGE_SIZE cfg = 4096" and Q: "Q = pool_regions cfg H" using H by (simp_all add: kmalloc_ok_def)
  obtain R Ms where own: "owns (page_regions cfg) 4096 R0 (kh_pages H) R" and hold: "pools_hold cfg H Ms R"
    using H by (auto simp: kmalloc_ok_def)
  obtain X where X: "page_regions cfg (kh_pages H) (R0 \<union> X)" "covered 4096 R X" using own by (rule ownsE)
  have h: "held (unat (PAGE_SIZE cfg)) R" using apg.owns_held [of cfg R0 "kh_pages H" R] own size by simp
  have "\<exists>x \<in> X. region_bytes r \<subseteq> region_bytes x" if rQ: "r \<in> Q" for r
  proof -
    obtain a mc i where r: "r = (a, unat (chunk_sz mc))" "i < 7" "pool_cache H i = Some mc" "a \<in> allocated cfg mc"
      using rQ unfolding Q pool_regions_def by blast
    have ok: "cache_ok cfg mc (Ms i)" "Ms i \<subseteq> R" using hold r(2,3) unfolding pools_hold_def pool_ok_def by blast+
    obtain q where q: "(q, pages_per_slab mc) \<in> Ms i"
      "region_bytes (a, unat (chunk_sz mc)) \<subseteq> region_bytes (q, unat (pages_per_slab mc) * unat (PAGE_SIZE cfg))"
      using allocated_region [OF ok(1) h ok(2) r(4)] .
    obtain l where "(q, l) \<in> X" "unat (pages_per_slab mc) * 4096 \<le> l"
      using coveredD(1) [OF X(2), of q "pages_per_slab mc"] q(1) ok(2) by blast
    then show ?thesis using q(2) size unfolding r(1) by (intro bexI [of _ "(q, l)"]) (auto simp: region_bytes_def)
  qed
  with X(1) that show thesis by blast
qed

text \<open>An allocation touches no byte below the heap and none of another block.\<close>

lemma kmalloc_memory:
  assumes H: "heap_ok cfg R H Q" and plain: "pools_plain H"
    and got: "kmalloc cfg (get_free_pages cfg) (free_pages2 cfg) clear_pages n fl H = Inr (p, H')"
  shows "pools_plain H'" and "heap_base (buddies_of (kh_pages H')) = heap_base (buddies_of (kh_pages H))"
    and "\<And>x. unat x < unat (heap_base (buddies_of (kh_pages H))) \<or> (\<exists>r \<in> Q. unat x \<in> region_bytes r) \<Longrightarrow>
      pages_mem (kh_pages H') x = pages_mem (kh_pages H) x"
    and "p \<noteq> 0 \<Longrightarrow> fl AND GFP_ZERO \<noteq> 0 \<Longrightarrow> off p x < unat n \<Longrightarrow> pages_mem (kh_pages H') x = 0"
proof -
  let ?hb = "heap_base (buddies_of (kh_pages H))" and ?m = "pages_mem (kh_pages H)"
  obtain X where X: "page_regions cfg (kh_pages H) (R \<union> X)" "\<forall>r \<in> Q. \<exists>x \<in> X. region_bytes r \<subseteq> region_bytes x"
    using block_in_pages [OF H] .
  let ?P = "quiet cfg (R \<union> X) ?hb ?m"
  have start: "?P (kh_pages H)" using X(1) by (auto simp: quiet_def untouched_def)
  have calm: "heap_base (buddies_of s) = ?hb \<and> (\<forall>x. unat x < unat ?hb \<or> (\<exists>r \<in> Q. unat x \<in> region_bytes r) \<longrightarrow> pages_mem s x = ?m x)"
    if "?P s" for s using that X(2) unfolding quiet_def untouched_def by blast
  have "pools_plain H' \<and> (\<exists>s. ?P s \<and> kh_pages H' = (if p \<noteq> 0 \<and> fl AND GFP_ZERO \<noteq> 0 then clear_pages p n s else s))"
  proof (cases "find (pool_matches n fl) [0..<length pools]")
    case None
    then have "H' = H" "p = 0" using got by (simp_all add: kmalloc_def)
    then show ?thesis using plain start by auto
  next
    case (Some i)
    then have i: "i < 7" by (auto simp: find_Some_iff)
    obtain err H1 where e: "ensure_pool cfg i H = Inr (err, H1)" and H1: "heap_ok cfg R H1 Q"
      and made: "err = 0 \<Longrightarrow> kh_pools H1 ! i \<noteq> None" using ensure_pool_ok [OF H i] by metis
    have t: "table_ok H" "table_ok H1" using H H1 by (simp_all add: kmalloc_ok_def)
    note pl = ensure_pool_plain [OF t(1) i plain e]
    show ?thesis
    proof (cases "err = 0")
      case False
      then have "H' = H1" "p = 0" using got Some e by (simp_all add: kmalloc_def)
      then show ?thesis using pl start by auto
    next
      case True
      obtain c where c: "kh_pools H1 ! i = Some c" using made [OF True] by blast
      let ?mc = "caches (kh_root H1) ! c"
      have zero: "gfp_flags ?mc AND GFP_ZERO = 0" using pl i c unfolding pools_plain_def by (auto simp: pool_cache_def)
      obtain mc' s where a: "mem_cache_alloc cfg (get_free_pages cfg) (free_pages2 cfg) clear_pages ?mc (kh_pages H1) = Inr (p, mc', s)"
        and H': "H' = set_pool_cache c mc' (if p \<noteq> 0 \<and> fl AND GFP_ZERO \<noteq> 0 then clear_pages p n s else s) H1"
        using got Some e True c by (auto simp: kmalloc_def Let_def split: sum.splits prod.splits)
      have "?P (kh_pages H1)" using start pl by simp
      from mem_cache_alloc_quiet [OF a this quiet_get zero] have s: "?P s" "gfp_flags mc' = gfp_flags ?mc" by simp_all
      have "pools_plain H'"
        using pl zero s(2) pool_cache_set(1) [OF t(2) i c] unfolding H' pools_plain_def by (auto split: if_splits)
      moreover have "kh_pages H' = (if p \<noteq> 0 \<and> fl AND GFP_ZERO \<noteq> 0 then clear_pages p n s else s)"
        unfolding H' by (rule pool_cache_set(3) [OF t(2) i c i])
      ultimately show ?thesis using s(1) by blast
    qed
  qed
  then obtain s where s: "pools_plain H'" "?P s"
    "kh_pages H' = (if p \<noteq> 0 \<and> fl AND GFP_ZERO \<noteq> 0 then clear_pages p n s else s)" by blast
  show "pools_plain H'" by (rule s(1))
  show "heap_base (buddies_of (kh_pages H')) = ?hb" using calm [OF s(2)] s(3) by (simp add: clear_pages_def)
  show "pages_mem (kh_pages H') x = 0" if "p \<noteq> 0" "fl AND GFP_ZERO \<noteq> 0" "off p x < unat n"
    using that s(3) by (simp add: clear_pages_def memset_at)
  show "pages_mem (kh_pages H') x = ?m x" if x: "unat x < unat ?hb \<or> (\<exists>r \<in> Q. unat x \<in> region_bytes r)" for x
  proof (cases "p \<noteq> 0 \<and> fl AND GFP_ZERO \<noteq> 0")
    case True
    obtain len where len: "unat n \<le> len" "\<forall>r \<in> Q. region_bytes r \<inter> region_bytes (p, len) = {}" "heap_ok cfg R H' (insert (p, len) Q)"
      using kmalloc_safe [OF H, of n fl] got True by auto
    note b = block_place [OF len(3), of p len, simplified]
    have "unat ?hb \<le> unat p" using b(2) s(3) True calm [OF s(2)] by (simp add: clear_pages_def)
    then have "unat x \<notin> region_bytes (p, len)" using x len(2) by (auto simp: region_bytes_def)
    moreover have "unat x \<in> region_bytes (p, len)" if "off p x < unat n"
      by (rule off_in_region) (use that len(1) b(3) in simp_all)
    ultimately show ?thesis using calm [OF s(2)] x s(3) True by (auto simp: clear_pages_def memset_at)
  next
    case False
    then show ?thesis using calm [OF s(2)] x s(3) by auto
  qed
qed

end
