(* ===== verification/Vm_Map.thy ===== *)
theory Vm_Map
  imports Page_Tables_Init Kmalloc_Memory Kmalloc_Examples
begin

text \<open>
  What \<open>vm_map\<close> of \<open>page_tables.c\<close> does to the translation of addresses, seen through the walk of the memory
  management unit, with the second-level tables coming from \<open>kmalloc\<close>: the tables stay apart from each
  other, from the first-level table and from everything else that is allocated.
\<close>

section \<open>Words apart\<close>

lemma word_top: "4 dvd unat (a :: u32) \<Longrightarrow> unat a + 4 \<le> 2 ^ 32"
proof (elim dvdE)
  fix k assume k: "unat a = 4 * k"
  then have "4 * k < 4 * 2 ^ 30" using unat_u32_less [of a] by simp
  then show "unat a + 4 \<le> 2 ^ 32" using k by simp
qed

lemma load32_cong:
  fixes a :: u32
  assumes "4 dvd unat a" and "\<And>x. unat a \<le> unat x \<Longrightarrow> unat x < unat a + 4 \<Longrightarrow> m' x = m x"
  shows "load32 m' a = load32 m a"
proof -
  note top = word_top [OF assms(1)]
  have "m' (a + word_of_nat i) = m (a + word_of_nat i)" if "i < 4" for i
  proof (rule assms(2))
    have "unat (a + word_of_nat i) = unat a + i" using top that by (subst unat_add_u32) (simp_all add: unat_small)
    then show "unat a \<le> unat (a + word_of_nat i)" "unat (a + word_of_nat i) < unat a + 4" using that by simp_all
  qed
  from this [of 0] this [of 1] this [of 2] this [of 3] show ?thesis by (simp add: load32_def)
qed

lemma load32_other_word:
  fixes a b :: u32
  assumes "4 dvd unat a" and "4 dvd unat b" and "a \<noteq> b"
  shows "load32 (store32 m a v) b = load32 m b"
proof (rule load32_cong [OF assms(2)])
  fix x :: u32 assume x: "unat b \<le> unat x" "unat x < unat b + 4"
  obtain i j where ij: "unat a = 4 * i" "unat b = 4 * j" using assms(1, 2) by blast
  have "unat a \<noteq> unat b" using assms(3) by (simp add: word_unat_eq_iff)
  then have far: "unat x < unat a \<or> unat a + 4 \<le> unat x" using x unfolding ij by presburger
  note top = word_top [OF assms(1)]
  have "x \<noteq> a + word_of_nat k" if "k < 4" for k
  proof -
    have "unat (a + word_of_nat k) = unat a + k" using top that by (subst unat_add_u32) (simp_all add: unat_small)
    then show ?thesis using far that by auto
  qed
  from this [of 0] this [of 1] this [of 2] this [of 3] show "store32 m a v x = m x" by (simp add: store32_def)
qed

text \<open>The words of a table, which does not wrap around.\<close>

lemma word_place:
  fixes T :: u32
  assumes "1024 dvd unat T" and "i < 256"
  shows "unat (T + 4 * word_of_nat i) = unat T + 4 * i" and "4 dvd unat (T + 4 * word_of_nat i)"
proof -
  obtain k where k: "unat T = 1024 * k" using assms(1) by blast
  then have "1024 * k < 1024 * 2 ^ 22" using unat_u32_less [of T] by simp
  then have "unat T + 1024 \<le> 2 ^ 32" using k by simp
  then show e: "unat (T + 4 * word_of_nat i) = unat T + 4 * i"
    using assms(2) unat_4 [of i] by (subst unat_add_u32) simp_all
  show "4 dvd unat (T + 4 * word_of_nat i)" unfolding e k by (intro dvd_add dvd_mult2) simp_all
qed

lemma root_place:
  fixes root :: u32
  assumes "root AND 0x3fff = 0" and "e < 0x1000"
  shows "unat (root + 4 * word_of_nat e) = unat root + 4 * e" and "4 dvd unat (root + 4 * word_of_nat e)"
    and "root AND NOT 0x3fff = root"
proof -
  have m: "(0x3fff :: u32) = mask 14" by (simp add: mask_numeral)
  have "take_bit 14 root = 0" using assms(1) by (simp only: take_bit_eq_mask m)
  then have "2 ^ 14 dvd unat root" by (simp only: take_bit_dvd)
  then obtain k where k: "unat root = 16384 * k" by auto
  then have "16384 * k < 16384 * 2 ^ 18" using unat_u32_less [of root] by simp
  then have "unat root + 16384 \<le> 2 ^ 32" using k by simp
  then show e: "unat (root + 4 * word_of_nat e) = unat root + 4 * e"
    using assms(2) unat_4 [of e] by (subst unat_add_u32) simp_all
  show "4 dvd unat (root + 4 * word_of_nat e)" unfolding e k by (intro dvd_add dvd_mult2) simp_all
  have "root = root AND (0x3fff OR NOT 0x3fff)" by (simp only: bit.disj_cancel_right and.right_neutral)
  also have "\<dots> = root AND NOT 0x3fff" unfolding bit.conj_disj_distrib assms(1) by (simp only: or.left_neutral)
  finally show "root AND NOT 0x3fff = root" by simp
qed

lemma table_aligned: "1024 dvd unat (w AND 0xfffffc00 :: u32)"
proof -
  have e: "(0xfffffc00 :: u32) = NOT (mask 10)" by (simp add: mask_eq_exp_minus_1)
  have "take_bit 10 (w AND NOT (mask 10)) = 0" by (rule bit_word_eqI) (auto simp: bit_simps)
  then show ?thesis unfolding e take_bit_dvd by simp
qed

lemma tables_apart:
  fixes T T' :: u32
  assumes "1024 dvd unat T" and "1024 dvd unat T'" and "i < 256" and "j < 256"
  shows "T + 4 * word_of_nat i = T' + 4 * word_of_nat j \<longleftrightarrow> T = T' \<and> i = j"
proof
  assume "T + 4 * word_of_nat i = T' + 4 * word_of_nat j"
  then have e: "unat T + 4 * i = unat T' + 4 * j" using word_place(1) assms by metis
  obtain k l where k: "unat T = 1024 * k" "unat T' = 1024 * l" using assms(1, 2) by blast
  have "k = (1024 * k + 4 * i) div 1024" "l = (1024 * l + 4 * j) div 1024" using assms(3, 4) by simp_all
  then have "k = l \<and> i = j" using e unfolding k by simp
  then have "unat T = unat T' \<and> i = j" using k by simp
  then show "T = T' \<and> i = j" by (simp add: word_unat_eq_iff)
qed simp

section \<open>The invariant of the page tables\<close>

definition table_of :: "memory \<Rightarrow> u32 \<Rightarrow> nat \<Rightarrow> u32" where
  "table_of m root e = word_at m root e AND 0xfffffc00"

text \<open>
  A second-level table lies below the heap, where the boot code put it, and apart from the first-level table, or it is a
  block of \<open>kmalloc\<close>.
\<close>

definition table_place :: "region set \<Rightarrow> u32 \<Rightarrow> u32 \<Rightarrow> u32 \<Rightarrow> bool" where
  "table_place Q hb root T \<longleftrightarrow> T \<noteq> 0 \<and> 1024 dvd unat T \<and>
     (unat T + 1024 \<le> unat hb \<and> (unat T + 1024 \<le> unat root \<or> unat root + 0x4000 \<le> unat T) \<or>
      (\<exists>len \<ge> 1024. (T, len) \<in> Q) \<and> unat hb \<le> unat T)"

definition vm_ok :: "u32 \<Rightarrow> u32 \<Rightarrow> region set \<Rightarrow> memory \<Rightarrow> bool" where
  "vm_ok root hb Q m \<longleftrightarrow> root AND 0x3fff = 0 \<and> unat root + 0x4000 \<le> unat hb \<and>
     (\<forall>e < 0x1000. word_at m root e \<noteq> 0 \<longrightarrow> word_at m root e AND 3 = 1 \<and> table_place Q hb root (table_of m root e)) \<and>
     (\<forall>e < 0x1000. \<forall>e' < 0x1000. e \<noteq> e' \<longrightarrow> word_at m root e \<noteq> 0 \<longrightarrow> word_at m root e' \<noteq> 0 \<longrightarrow>
        table_of m root e \<noteq> table_of m root e')"

definition page_view :: "u32 \<Rightarrow> u32 \<Rightarrow> view option" where
  "page_view w va = (if w AND 3 = 0 then None
     else if w AND 3 = 1 then Some ((w AND 0xffff0000) OR (va AND 0xffff), vmsav7_largepage_fields w)
     else Some ((w AND 0xfffff000) OR (va AND 0xfff), vmsav7_smallpage_fields w))"

abbreviation megabyte :: "u32 \<Rightarrow> nat" where "megabyte va \<equiv> unat va div 2 ^ 20"
abbreviation page_in :: "u32 \<Rightarrow> nat" where "page_in va \<equiv> unat va div 4096 mod 256"

lemma megabyte_less: "megabyte va < 0x1000"
  using unat_u32_less [of va] by (simp add: less_mult_imp_div_less)

lemma same_page: "megabyte va = megabyte vb \<and> page_in va = page_in vb \<longleftrightarrow> unat va div 4096 = unat vb div 4096"
proof -
  have "unat w div 2 ^ 20 = unat w div 4096 div 256" for w :: u32 by (simp add: div_mult2_eq [symmetric])
  then show ?thesis by (metis div_mult_mod_eq)
qed

lemma walk_vm:
  assumes "vm_ok root hb Q m"
  shows "mmu_walk m root va = (if word_at m root (megabyte va) = 0 then None
    else page_view (word_at m (table_of m root (megabyte va)) (page_in va)) va)"
proof -
  have r: "root AND NOT 0x3fff = root" using assms root_place(3) [of root 0] by (simp add: vm_ok_def)
  have one: "word_at m root (megabyte va) AND 3 = 1" if "word_at m root (megabyte va) \<noteq> 0"
    using that assms megabyte_less [of va] unfolding vm_ok_def by blast
  show ?thesis
    using one unfolding mmu_walk_def r l1_entry_at l2_entry_at word_at_def [symmetric] table_of_def page_view_def Let_def by simp
qed

lemma place_mono: "table_place Q hb root T \<Longrightarrow> Q \<subseteq> Q' \<Longrightarrow> table_place Q' hb root T"
  unfolding table_place_def by blast

lemma place_root:
  assumes "table_place Q hb root T" and "root AND 0x3fff = 0" and "unat root + 0x4000 \<le> unat hb" and "i < 256" and "e < 0x1000"
  shows "T + 4 * word_of_nat i \<noteq> root + 4 * word_of_nat e"
proof
  assume "T + 4 * word_of_nat i = root + 4 * word_of_nat e"
  then have "unat T + 4 * i = unat root + 4 * e"
    using word_place(1) [of T i] root_place(1) [OF assms(2, 5)] assms(1, 4) by (simp add: table_place_def)
  then show False using assms by (auto simp: table_place_def)
qed

section \<open>One more page\<close>

text \<open>
  The table \<open>sp\<close> is the one of megabyte \<open>e\<close>, or an empty one that the megabyte is about to get.
\<close>

definition table_for :: "memory \<Rightarrow> u32 \<Rightarrow> nat \<Rightarrow> u32 \<Rightarrow> bool" where
  "table_for m root e sp \<longleftrightarrow>
     (if word_at m root e = 0 then \<forall>i < 256. word_at m sp i = 0 else table_of m root e = sp) \<and>
     (\<forall>e' < 0x1000. e' \<noteq> e \<longrightarrow> word_at m root e' \<noteq> 0 \<longrightarrow> table_of m root e' \<noteq> sp)"

lemma words_after:
  assumes ok: "vm_ok root hb Q m" and sp: "table_place Q hb root sp" and e0: "e0 < 0x1000" and i0: "i0 < 256"
    and m2: "m2 = store32 (store32 m (sp + 4 * word_of_nat i0) w) (root + 4 * word_of_nat e0) d"
  shows "e < 0x1000 \<Longrightarrow> word_at m2 root e = (if e = e0 then d else word_at m root e)"
    and "table_place Q hb root T \<Longrightarrow> i < 256 \<Longrightarrow> word_at m2 T i = (if T = sp \<and> i = i0 then w else word_at m T i)"
proof -
  have r: "root AND 0x3fff = 0" "unat root + 0x4000 \<le> unat hb" using ok by (simp_all add: vm_ok_def)
  have a: "1024 dvd unat sp" using sp by (simp add: table_place_def)
  note e0w = root_place(1, 2) [OF r(1) e0] and spw = word_place(2) [OF a i0]
  show "word_at m2 root e = (if e = e0 then d else word_at m root e)" if e: "e < 0x1000"
  proof (cases "e = e0")
    case False
    have "unat (root + 4 * word_of_nat e) \<noteq> unat (root + 4 * word_of_nat e0)"
      unfolding root_place(1) [OF r(1) e] e0w(1) using False by simp
    then have "root + 4 * word_of_nat e0 \<noteq> root + 4 * word_of_nat e" by metis
    then show ?thesis
      using False load32_other_word [OF e0w(2) root_place(2) [OF r(1) e]]
        load32_other_word [OF spw root_place(2) [OF r(1) e] place_root [OF sp r i0 e]] by (simp add: m2 word_at_def)
  qed (simp add: m2 word_at_def)
  show "word_at m2 T i = (if T = sp \<and> i = i0 then w else word_at m T i)" if T: "table_place Q hb root T" and i: "i < 256"
  proof -
    have b: "1024 dvd unat T" using T by (simp add: table_place_def)
    have "word_at m2 T i = load32 (store32 m (sp + 4 * word_of_nat i0) w) (T + 4 * word_of_nat i)"
      unfolding m2 word_at_def using load32_other_word [OF e0w(2) word_place(2) [OF b i]] place_root [OF T r i e0] by metis
    also have "\<dots> = (if T = sp \<and> i = i0 then w else word_at m T i)"
      using load32_other_word [OF spw word_place(2) [OF b i]] tables_apart [OF a b i0 i]
      by (cases "T = sp \<and> i = i0") (auto simp: word_at_def)
    finally show ?thesis .
  qed
qed

lemma enter_page:
  assumes ok: "vm_ok root hb Q m" and sp: "table_place Q hb root sp" and tab: "table_for m root (megabyte virt) sp"
    and d: "d AND 0xfffffc00 = sp" "d AND 3 = 1"
    and m2: "m2 = store32 (store32 m (l2_entry sp virt) w) (l1_entry root virt) d"
  shows "vm_ok root hb Q m2"
    and "mmu_walk m2 root va = (if unat va div 4096 = unat virt div 4096 then page_view w va else mmu_walk m root va)"
proof -
  let ?e = "megabyte virt" and ?i = "page_in virt"
  have i: "page_in va < 256" for va :: u32 by simp
  have m2': "m2 = store32 (store32 m (sp + 4 * word_of_nat ?i) w) (root + 4 * word_of_nat ?e) d"
    unfolding m2 l1_entry_at l2_entry_at ..
  note l1 = words_after(1) [OF ok sp megabyte_less i m2'] and l2 = words_after(2) [OF ok sp megabyte_less i m2']
  have nz: "d \<noteq> 0" using d(2) by auto
  have place: "table_place Q hb root (table_of m root e)" if "e < 0x1000" "word_at m root e \<noteq> 0" for e
    using ok that unfolding vm_ok_def by blast
  have tab2: "table_of m2 root e = (if e = ?e then sp else table_of m root e)" if "e < 0x1000" for e
    using l1 [OF that] d(1) by (simp add: table_of_def)
  have apart: "table_of m root e \<noteq> sp" if "e < 0x1000" "e \<noteq> ?e" "word_at m root e \<noteq> 0" for e
    using tab that unfolding table_for_def by blast
  show ok2: "vm_ok root hb Q m2"
    unfolding vm_ok_def
  proof (intro conjI allI impI)
    show "root AND 0x3fff = 0" "unat root + 0x4000 \<le> unat hb" using ok by (simp_all add: vm_ok_def)
    fix e :: nat assume e: "e < 0x1000"
    { assume n: "word_at m2 root e \<noteq> 0"
      show "word_at m2 root e AND 3 = 1" using ok e n l1 [OF e] d(2) by (auto simp: vm_ok_def split: if_splits)
      show "table_place Q hb root (table_of m2 root e)" using place [OF e] n l1 [OF e] sp tab2 [OF e] by (auto split: if_splits)
    }
    fix e' :: nat assume e': "e' < 0x1000" and ne: "e \<noteq> e'" and n: "word_at m2 root e \<noteq> 0" "word_at m2 root e' \<noteq> 0"
    have "table_of m root e \<noteq> table_of m root e'" if "word_at m root e \<noteq> 0" "word_at m root e' \<noteq> 0"
      using ok e e' ne that unfolding vm_ok_def by blast
    then show "table_of m2 root e \<noteq> table_of m2 root e'"
      using n l1 [OF e] l1 [OF e'] tab2 [OF e] tab2 [OF e'] apart [OF e] apart [OF e'] ne by (auto split: if_splits)
  qed
  note e = megabyte_less [of va]
  show "mmu_walk m2 root va = (if unat va div 4096 = unat virt div 4096 then page_view w va else mmu_walk m root va)"
  proof (cases "megabyte va = ?e")
    case True
    have new: "mmu_walk m2 root va = page_view (if page_in va = ?i then w else word_at m sp (page_in va)) va"
      unfolding walk_vm [OF ok2] using l1 [OF e] tab2 [OF e] l2 [OF sp i] True nz by simp
    have old: "mmu_walk m root va = page_view (word_at m sp (page_in va)) va"
      unfolding walk_vm [OF ok] using tab True by (auto simp: table_for_def page_view_def)
    show ?thesis using new old same_page [of va virt] True by auto
  next
    case False
    have "word_at m2 (table_of m root (megabyte va)) (page_in va) = word_at m (table_of m root (megabyte va)) (page_in va)"
      if "word_at m root (megabyte va) \<noteq> 0"
      using l2 [OF place [OF e that] i] apart [OF e False that] by simp
    then show ?thesis
      unfolding walk_vm [OF ok2] walk_vm [OF ok] using l1 [OF e] tab2 [OF e] False same_page [of va virt] by auto
  qed
qed

section \<open>The table of a page\<close>

lemma words_kept:
  assumes ok: "vm_ok root hb Q m" and kept: "\<And>x. unat x < unat hb \<or> (\<exists>r \<in> Q. unat x \<in> region_bytes r) \<Longrightarrow> m' x = m x"
    and Q: "Q \<subseteq> Q'"
  shows "e < 0x1000 \<Longrightarrow> word_at m' root e = word_at m root e" and "vm_ok root hb Q' m'"
    and "mmu_walk m' root va = mmu_walk m root va"
proof -
  have r: "root AND 0x3fff = 0" "unat root + 0x4000 \<le> unat hb" using ok by (simp_all add: vm_ok_def)
  have l1: "word_at m' root e = word_at m root e" if "e < 0x1000" for e
    unfolding word_at_def
  proof (rule load32_cong [OF root_place(2) [OF r(1) that]])
    fix x :: u32 assume "unat (root + 4 * word_of_nat e) \<le> unat x" "unat x < unat (root + 4 * word_of_nat e) + 4"
    then show "m' x = m x" using that r(2) unfolding root_place(1) [OF r(1) that] by (intro kept) simp
  qed
  then show "e < 0x1000 \<Longrightarrow> word_at m' root e = word_at m root e" by blast
  have l2: "word_at m' T i = word_at m T i" if T: "table_place Q hb root T" and i: "i < 256" for T i
    unfolding word_at_def
  proof (rule load32_cong)
    have a: "1024 dvd unat T" using T by (simp add: table_place_def)
    show "4 dvd unat (T + 4 * word_of_nat i)" by (rule word_place(2) [OF a i])
    fix x :: u32 assume "unat (T + 4 * word_of_nat i) \<le> unat x" "unat x < unat (T + 4 * word_of_nat i) + 4"
    then have x: "unat T \<le> unat x" "unat x < unat T + 1024" using i unfolding word_place(1) [OF a i] by simp_all
    have "unat x < unat hb \<or> (\<exists>len. (T, len) \<in> Q \<and> unat x \<in> region_bytes (T, len))"
      using T x by (fastforce simp: table_place_def region_bytes_def)
    then show "m' x = m x" by (intro kept) blast
  qed
  have tab: "table_of m' root e = table_of m root e" if "e < 0x1000" for e using l1 [OF that] by (simp add: table_of_def)
  show ok': "vm_ok root hb Q' m'"
    using ok l1 tab place_mono [OF _ Q] unfolding vm_ok_def by simp
  show "mmu_walk m' root va = mmu_walk m root va"
  proof (cases "word_at m root (megabyte va) = 0")
    case False
    then have "table_place Q hb root (table_of m root (megabyte va))" using ok megabyte_less [of va] unfolding vm_ok_def by blast
    then show ?thesis using l1 [OF megabyte_less] tab [OF megabyte_less] l2 unfolding walk_vm [OF ok] walk_vm [OF ok'] by simp
  qed (use l1 [OF megabyte_less, of va] in \<open>simp add: walk_vm [OF ok] walk_vm [OF ok']\<close>)
qed

lemma block_cleared:
  assumes "\<And>x. off p x < 1024 \<Longrightarrow> m x = 0" and "i < 256"
  shows "word_at m p i = 0"
proof -
  have "m (p + 4 * word_of_nat i + word_of_nat j) = 0" if "j < 4" for j
  proof (rule assms(1))
    have "p + 4 * word_of_nat i + word_of_nat j = p + word_of_nat (4 * i + j)" by simp
    then have "off p (p + 4 * word_of_nat i + word_of_nat j) = 4 * i + j"
      using assms(2) that by (simp only:) (rule off_add, simp)
    then show "off p (p + 4 * word_of_nat i + word_of_nat j) < 1024" using assms(2) that by simp
  qed
  from this [of 0] this [of 1] this [of 2] this [of 3] show ?thesis by (simp add: word_at_def load32_def)
qed

abbreviation vm_heap :: "pages kheap \<Rightarrow> u32" where
  "vm_heap H \<equiv> heap_base (buddies_of (kh_pages H))"

lemma vm_table_ok:
  assumes H: "heap_ok cfg R H Q" and plain: "pools_plain H" and ok: "vm_ok root (vm_heap H) Q (vm_mem H)"
  obtains sp H1 Q1 where "vm_table cfg (l1_entry root virt) gf H = Inr (sp, H1)"
    and "heap_ok cfg R H1 Q1" and "Q \<subseteq> Q1" and "pools_plain H1" and "vm_heap H1 = vm_heap H"
    and "vm_ok root (vm_heap H) Q1 (vm_mem H1)" and "\<forall>va. mmu_walk (vm_mem H1) root va = mmu_walk (vm_mem H) root va"
    and "sp \<noteq> 0 \<longrightarrow> table_place Q1 (vm_heap H) root sp \<and> table_for (vm_mem H1) root (megabyte virt) sp"
proof -
  let ?m = "vm_mem H" and ?e = "megabyte virt" and ?hb = "vm_heap H"
  have at: "load32 ?m (l1_entry root virt) AND 0xfffffc00 = table_of ?m root ?e" by (simp add: l1_entry_at table_of_def word_at_def)
  note e = megabyte_less [of virt]
  show thesis
  proof (cases "table_of ?m root ?e = 0")
    case False
    then have nz: "word_at ?m root ?e \<noteq> 0" by (auto simp: table_of_def)
    have "table_place Q ?hb root (table_of ?m root ?e)" using ok e nz unfolding vm_ok_def by blast
    moreover have "table_for ?m root ?e (table_of ?m root ?e)" using ok e nz unfolding vm_ok_def table_for_def by simp
    moreover have "vm_table cfg (l1_entry root virt) gf H = Inr (table_of ?m root ?e, H)"
      using False by (simp add: vm_table_def at)
    ultimately show thesis using H plain ok by (intro that [of "table_of ?m root ?e" H Q]) simp_all
  next
    case True
    have zero: "word_at ?m root ?e = 0"
    proof (rule ccontr)
      assume "word_at ?m root ?e \<noteq> 0"
      then have "table_place Q ?hb root (table_of ?m root ?e)" using ok e unfolding vm_ok_def by blast
      then show False using True by (simp add: table_place_def)
    qed
    obtain sp H1 where k: "kmalloc cfg (get_free_pages cfg) (free_pages2 cfg) clear_pages 1024 (gf OR GFP_ZERO) H = Inr (sp, H1)"
      and new: "if sp = 0 then heap_ok cfg R H1 Q else \<exists>len. 0 < len \<and> unat (1024 :: u32) \<le> len \<and>
        (\<forall>r \<in> Q. region_bytes r \<inter> region_bytes (sp, len) = {}) \<and> heap_ok cfg R H1 (insert (sp, len) Q)"
      using kmalloc_safe [OF H, of 1024 "gf OR GFP_ZERO"] by blast
    have t: "vm_table cfg (l1_entry root virt) gf H = Inr (sp, H1)" using True k by (simp add: vm_table_def at)
    note mem = kmalloc_memory [OF H plain k]
    show thesis
    proof (cases "sp = 0")
      case True
      then show thesis using new words_kept [OF ok mem(3) order.refl] mem(1, 2) t by (intro that [of sp H1 Q]) auto
    next
      case False
      obtain len where len: "1024 \<le> len" "\<forall>r \<in> Q. region_bytes r \<inter> region_bytes (sp, len) = {}" "heap_ok cfg R H1 (insert (sp, len) Q)"
        using new False by auto
      let ?Q1 = "insert (sp, len) Q"
      note kept = words_kept [OF ok mem(3) subset_insertI [of Q "(sp, len)"]]
      note b = block_place [OF len(3), of sp len, simplified]
      obtain j where j: "len = 2 ^ j" using b(5) by blast
      have "10 \<le> j" by (rule power_le_imp_le_exp [of "2 :: nat"]) (use len(1) j in simp_all)
      then have "2 ^ 10 dvd len" unfolding j by (rule le_imp_power_dvd)
      then have "1024 dvd unat sp" using dvd_trans [OF _ b(1), of "2 ^ 10"] by simp
      then have place: "table_place ?Q1 ?hb root sp" using False len(1) b(2) mem(2) by (auto simp: table_place_def)
      have apart: "table_of ?m root e' \<noteq> sp" if "e' < 0x1000" "word_at ?m root e' \<noteq> 0" for e'
      proof
        assume eq: "table_of ?m root e' = sp"
        have "table_place Q ?hb root (table_of ?m root e')" using ok that unfolding vm_ok_def by blast
        then have "\<exists>l \<ge> 1024. (sp, l) \<in> Q" using b(2) mem(2) unfolding eq table_place_def by auto
        then obtain l where "(sp, l) \<in> Q" "0 < l" by auto
        then show False using len(1, 2) region_start [of l sp] region_start [of len sp] by auto
      qed
      have "word_at (vm_mem H1) sp i = 0" if "i < 256" for i
        by (rule block_cleared [OF mem(4) that]) (use False in \<open>simp_all add: gfp_defs\<close>)
      then have "table_for (vm_mem H1) root ?e sp"
        using zero apart kept(1) e by (auto simp: table_for_def table_of_def)
      then show thesis using t len(3) mem(1, 2) kept place by (intro that [of sp H1 ?Q1]) auto
    qed
  qed
qed

section \<open>The loop over the pages\<close>

text \<open>
  The heap and the tables while the kernel runs: \<open>R\<close> are the pages in use elsewhere, \<open>Q\<close> the blocks of \<open>kmalloc\<close>,
  which clears a block only when its caller asks for it.
\<close>

definition vm_state :: "board \<Rightarrow> region set \<Rightarrow> u32 \<Rightarrow> region set \<Rightarrow> pages kheap \<Rightarrow> bool" where
  "vm_state cfg R root Q H \<longleftrightarrow> heap_ok cfg R H Q \<and> pools_plain H \<and> vm_ok root (vm_heap H) Q (vm_mem H)"

text \<open>What the memory management unit makes of an address in a range mapped at \<open>virt\<close>.\<close>

definition mapped_view :: "u32 \<Rightarrow> u32 \<Rightarrow> u32 \<Rightarrow> u32 \<Rightarrow> view option" where
  "mapped_view fl virt phy va =
     Some (phy + (va - virt), Some (get_memtype fl), Some (get_access fl), Some GLOBAL, Some (get_execute fl))"

lemma page_offset:
  assumes "unat va div 4096 = v"
  shows "va mod 4096 = va - 4096 * (word_of_nat v :: u32)"
proof -
  have "va = word_of_nat (4096 * v + unat va mod 4096)" by (simp add: assms [symmetric])
  also have "\<dots> = 4096 * word_of_nat v + va mod 4096" by (simp only: of_nat_add of_nat_mult) (simp add: word_arith_nat_mod)
  finally show ?thesis by (simp add: algebra_simps)
qed

lemma new_page_view:
  assumes phy: "4096 dvd unat phy" and va: "unat va div 4096 = v"
  shows "page_view (build_smallpage phy fl) va = mapped_view fl (4096 * word_of_nat v) phy va"
proof -
  let ?w = "build_smallpage phy fl"
  have two: "?w AND 2 = 2" unfolding build_smallpage_def by (rule vmsav7_build_smallpage_parts(2))
  have "?w AND 2 = (?w AND 3) AND 2" by (simp add: and.assoc)
  then have low: "?w AND 3 \<noteq> 0" "?w AND 3 \<noteq> 1" using two by auto
  have "?w AND 0xfffff000 = phy AND 0xfffff000" unfolding build_smallpage_def by (rule vmsav7_build_smallpage_parts(1))
  then have base: "(?w AND 0xfffff000) OR (va AND 0xfff) = phy + (va - 4096 * word_of_nat v)"
    using page_bits [OF phy, of va] page_offset [OF va] by simp
  have "vmsav7_smallpage_fields ?w = (Some (get_memtype fl), Some (get_access fl), Some GLOBAL, Some (get_execute fl))"
    unfolding build_smallpage_def by (rule smallpage_fields_build)
  then show ?thesis using low base by (simp add: page_view_def mapped_view_def)
qed

lemma mem_put32: "vm_mem (put32 a w H) = store32 (vm_mem H) a w" "vm_heap (put32 a w H) = vm_heap H"
  "pools_plain (put32 a w H) = pools_plain H"
  by (simp_all add: put32_def pools_plain_def pool_cache_def)

lemma heap_put32: "heap_ok cfg R H Q \<Longrightarrow> heap_ok cfg R (put32 a w H) Q"
  unfolding put32_def
  by (simp add: kmalloc_ok_def table_ok_def pool_regions_def pool_cache_def pools_hold_def owns_def)

text \<open>One turn of the loop.\<close>

lemma map_page:
  assumes st: "vm_state cfg R root Q H" and same: "VIRTUAL_MEMORY_BASE_ADDRESS cfg = PHYSICAL_MEMORY_BASE_ADDRESS cfg"
    and phy: "4096 dvd unat phy" and v: "v < 2 ^ 20" and virt: "virt = 4096 * word_of_nat v"
  obtains sp H1 Q1 where "vm_table cfg (l1_entry root virt) gf H = Inr (sp, H1)" and "Q \<subseteq> Q1"
    and "sp = 0 \<longrightarrow> vm_state cfg R root Q1 H1 \<and> (\<forall>va. mmu_walk (vm_mem H1) root va = mmu_walk (vm_mem H) root va)"
    and "sp \<noteq> 0 \<longrightarrow> (\<forall>H2. H2 = put32 (l1_entry root virt) (build_pagetable cfg sp fl) (put32 (l2_entry sp virt) (build_smallpage phy fl) H1) \<longrightarrow>
      vm_state cfg R root Q1 H2 \<and> (\<forall>va. mmu_walk (vm_mem H2) root va =
        (if unat va div 4096 = v then mapped_view fl virt phy va else mmu_walk (vm_mem H) root va)))"
proof -
  have H: "heap_ok cfg R H Q" "pools_plain H" "vm_ok root (vm_heap H) Q (vm_mem H)" using st by (simp_all add: vm_state_def)
  obtain sp H1 Q1 where t: "vm_table cfg (l1_entry root virt) gf H = Inr (sp, H1)"
    "heap_ok cfg R H1 Q1" "Q \<subseteq> Q1" "pools_plain H1" "vm_heap H1 = vm_heap H"
    "vm_ok root (vm_heap H) Q1 (vm_mem H1)" "\<forall>va. mmu_walk (vm_mem H1) root va = mmu_walk (vm_mem H) root va"
    "sp \<noteq> 0 \<longrightarrow> table_place Q1 (vm_heap H) root sp \<and> table_for (vm_mem H1) root (megabyte virt) sp"
    using vm_table_ok [OF H] .
  have at: "unat virt div 4096 = v" using page_address [OF v] by (simp add: virt)
  show thesis
  proof (rule that [OF t(1, 3)]; intro impI allI)
    assume "sp = 0"
    then show "vm_state cfg R root Q1 H1 \<and> (\<forall>va. mmu_walk (vm_mem H1) root va = mmu_walk (vm_mem H) root va)"
      using t by (simp add: vm_state_def)
  next
    fix H2 assume sp: "sp \<noteq> 0"
      and H2: "H2 = put32 (l1_entry root virt) (build_pagetable cfg sp fl) (put32 (l2_entry sp virt) (build_smallpage phy fl) H1)"
    have place: "table_place Q1 (vm_heap H) root sp" and tab: "table_for (vm_mem H1) root (megabyte virt) sp" using t(8) sp by simp_all
    have "sp AND 0xfffffc00 = sp" by (rule clear_low_bits) (use place in \<open>simp add: take_bit_dvd table_place_def\<close>)
    then have d: "build_pagetable cfg sp fl AND 0xfffffc00 = sp" "build_pagetable cfg sp fl AND 3 = 1"
      using same by (simp_all add: build_pagetable_def virt_to_phy_def vmsav7_build_pagetable_parts)
    have m2: "vm_mem H2 = store32 (store32 (vm_mem H1) (l2_entry sp virt) (build_smallpage phy fl)) (l1_entry root virt) (build_pagetable cfg sp fl)"
      by (simp add: H2 mem_put32)
    note en = enter_page [OF t(6) place tab d m2]
    have "vm_state cfg R root Q1 H2"
      using en(1) t(2, 4, 5) unfolding vm_state_def by (simp add: H2 mem_put32 heap_put32)
    then show "vm_state cfg R root Q1 H2 \<and> (\<forall>va. mmu_walk (vm_mem H2) root va =
        (if unat va div 4096 = v then mapped_view fl virt phy va else mmu_walk (vm_mem H) root va))"
      using en(2) t(7) new_page_view [OF phy, of _ v fl] at virt by simp
  qed
qed

lemma vm_map_loop_ok:
  assumes same: "VIRTUAL_MEMORY_BASE_ADDRESS cfg = PHYSICAL_MEMORY_BASE_ADDRESS cfg"
  shows "vm_state cfg R root Q H \<Longrightarrow> 4096 dvd unat phy \<Longrightarrow> unat len \<le> 4096 * n \<Longrightarrow> 4096 * n < unat len + 4096 \<Longrightarrow>
    v + n \<le> 2 ^ 20 \<Longrightarrow> virt = 4096 * word_of_nat v \<Longrightarrow>
    \<exists>e H' Q' k. vm_map_loop cfg root virt phy len fl gf H = Some (Inr (e, H')) \<and> vm_state cfg R root Q' H' \<and> Q \<subseteq> Q' \<and>
      (e = 0 \<and> k = n \<or> e = -1 \<and> k < n) \<and> (\<forall>va. mmu_walk (vm_mem H') root va =
        (if v \<le> unat va div 4096 \<and> unat va div 4096 < v + k then mapped_view fl virt phy va else mmu_walk (vm_mem H) root va))"
proof (induction n arbitrary: virt phy len v H Q)
  case 0
  then have "len = 0" by (simp add: unat_eq_zero)
  then show ?case using 0 by (subst vm_map_loop.simps) auto
next
  case (Suc n)
  have size: "PAGE_SIZE cfg = 4096" using Suc.prems(1) by (simp add: vm_state_def kmalloc_ok_def)
  have ne: "len \<noteq> 0" using Suc.prems(4) by auto
  have v: "v < 2 ^ 20" using Suc.prems(5) by simp
  obtain sp H1 Q1 where t: "vm_table cfg (l1_entry root virt) gf H = Inr (sp, H1)" "Q \<subseteq> Q1"
    and none: "sp = 0 \<longrightarrow> vm_state cfg R root Q1 H1 \<and> (\<forall>va. mmu_walk (vm_mem H1) root va = mmu_walk (vm_mem H) root va)"
    and some: "sp \<noteq> 0 \<longrightarrow> (\<forall>H2. H2 = put32 (l1_entry root virt) (build_pagetable cfg sp fl) (put32 (l2_entry sp virt) (build_smallpage phy fl) H1) \<longrightarrow>
      vm_state cfg R root Q1 H2 \<and> (\<forall>va. mmu_walk (vm_mem H2) root va =
        (if unat va div 4096 = v then mapped_view fl virt phy va else mmu_walk (vm_mem H) root va)))"
    using map_page [OF Suc.prems(1) same Suc.prems(2) v Suc.prems(6)] .
  note run = vm_map_loop.simps [of cfg root virt phy len fl gf H, unfolded if_not_P [OF ne] Let_def t(1) sum.case prod.case size]
  show ?case
  proof (cases "sp = 0")
    case True
    then have "vm_map_loop cfg root virt phy len fl gf H = Some (Inr (-1, H1))" unfolding run by simp
    then show ?thesis using none True t(2) by (intro exI [of _ "-1"] exI [of _ H1] exI [of _ Q1] exI [of _ 0]) auto
  next
    case False
    define H2 where "H2 = put32 (l1_entry root virt) (build_pagetable cfg sp fl) (put32 (l2_entry sp virt) (build_smallpage phy fl) H1)"
    have H2: "vm_state cfg R root Q1 H2" "\<And>va. mmu_walk (vm_mem H2) root va =
        (if unat va div 4096 = v then mapped_view fl virt phy va else mmu_walk (vm_mem H) root va)"
      using some False H2_def by blast+
    show ?thesis
    proof (cases "len > 4096")
      case True
      have "4096 < unat len" using True by (simp add: word_less_nat_alt)
      then have len: "unat (len - 4096) = unat len - 4096" by (simp add: unat_sub_if_size word_le_nat_alt)
      have next_virt: "virt + 4096 = 4096 * word_of_nat (Suc v)" by (simp add: Suc.prems(6) distrib_left)
      have next_phy: "4096 dvd unat (phy + 4096)" using Suc.prems(2) unfolding unat_word_ariths(1) by (intro dvd_mod dvd_add) simp_all
      have n: "unat (len - 4096) \<le> 4096 * n" "4096 * n < unat (len - 4096) + 4096" "Suc v + n \<le> 2 ^ 20"
        using Suc.prems(3-5) \<open>4096 < unat len\<close> by (simp_all add: len)
      obtain e H' Q' k where r: "vm_map_loop cfg root (virt + 4096) (phy + 4096) (len - 4096) fl gf H2 = Some (Inr (e, H'))"
        "vm_state cfg R root Q' H'" "Q1 \<subseteq> Q'" "e = 0 \<and> k = n \<or> e = -1 \<and> k < n"
        and w: "\<And>va. mmu_walk (vm_mem H') root va = (if Suc v \<le> unat va div 4096 \<and> unat va div 4096 < Suc v + k
          then mapped_view fl (virt + 4096) (phy + 4096) va else mmu_walk (vm_mem H2) root va)"
        using Suc.IH [OF H2(1) next_phy n next_virt] by blast
      have "vm_map_loop cfg root virt phy len fl gf H = Some (Inr (e, H'))"
        unfolding run using False True r(1) by (simp add: H2_def)
      moreover have "mapped_view fl (virt + 4096) (phy + 4096) va = mapped_view fl virt phy va" for va
        by (simp add: mapped_view_def)
      ultimately show ?thesis using r(2-4) t(2) w H2(2)
        by (intro exI [of _ e] exI [of _ H'] exI [of _ Q'] exI [of _ "Suc k"]) auto
    next
      case le: False
      then have n: "n = 0" using Suc.prems(4) by (simp add: word_less_nat_alt)
      have "vm_map_loop cfg root virt phy len fl gf H = Some (Inr (0, H2))"
        unfolding run using False le by (simp add: H2_def)
      then show ?thesis using H2 t(2) n
        by (intro exI [of _ 0] exI [of _ H2] exI [of _ Q1] exI [of _ 1]) auto
    qed
  qed
qed

lemma vm_map_ok:
  assumes "vm_state cfg R (ttbr0 AND NOT 0x3fff) Q H"
    and "VIRTUAL_MEMORY_BASE_ADDRESS cfg = PHYSICAL_MEMORY_BASE_ADDRESS cfg"
    and "PHYSICAL_MEMORY_BASE_ADDRESS cfg \<le> ttbr0" and "ttbr0 < PHYSICAL_MEMORY_BASE_ADDRESS cfg + PHYSICAL_MEMORY_LENGTH cfg"
    and "4096 dvd unat virt" and "4096 dvd unat phy" and "4096 dvd unat len" and "unat virt + unat len \<le> 2 ^ 32"
  shows "\<exists>e H' Q' n. vm_map cfg ttbr0 virt phy len fl gf H = Some (Inr (e, H')) \<and>
    vm_state cfg R (ttbr0 AND NOT 0x3fff) Q' H' \<and> Q \<subseteq> Q' \<and> (e = 0 \<and> n = unat len \<or> e = -1 \<and> n < unat len) \<and>
    (\<forall>va. mmu_walk (vm_mem H') ttbr0 va =
      (if unat virt \<le> unat va \<and> unat va < unat virt + n
       then Some (phy + (va - virt), Some (get_memtype fl), Some (get_access fl), Some GLOBAL, Some (get_execute fl))
       else mmu_walk (vm_mem H) ttbr0 va))"
proof -
  let ?root = "ttbr0 AND NOT 0x3fff" and ?v = "unat virt div 4096" and ?n = "unat len div 4096"
  have u: "unat virt = 4096 * ?v" "unat len = 4096 * ?n" using assms(5, 7) by simp_all
  note virt = page_word [OF assms(5)]
  have le: "?v + ?n \<le> 2 ^ 20" using assms(8) u by simp
  have n: "unat len \<le> 4096 * ?n" "4096 * ?n < unat len + 4096" using u(2) by linarith+
  obtain e H' Q' k where r: "vm_map_loop cfg ?root virt phy len fl gf H = Some (Inr (e, H'))" "vm_state cfg R ?root Q' H'" "Q \<subseteq> Q'"
    "e = 0 \<and> k = ?n \<or> e = -1 \<and> k < ?n"
    and w: "\<And>va. mmu_walk (vm_mem H') ?root va = (if ?v \<le> unat va div 4096 \<and> unat va div 4096 < ?v + k
        then mapped_view fl virt phy va else mmu_walk (vm_mem H) ?root va)"
    using vm_map_loop_ok [OF assms(2, 1, 6) n le virt, of fl gf] by blast
  have range: "?v \<le> unat va div 4096 \<and> unat va div 4096 < ?v + k \<longleftrightarrow> unat virt \<le> unat va \<and> unat va < unat virt + 4096 * k" for va :: u32
    using u(1) by (auto simp: less_eq_div_iff_mult_less_eq div_less_iff_less_mult algebra_simps)
  have root: "mmu_walk m ?root va = mmu_walk m ttbr0 va" for m va by (simp add: mmu_walk_def and.assoc)
  have "vm_map cfg ttbr0 virt phy len fl gf H = Some (Inr (e, H'))"
  proof -
    have "\<not> (ttbr0 < PHYSICAL_MEMORY_BASE_ADDRESS cfg \<or> ttbr0 \<ge> PHYSICAL_MEMORY_BASE_ADDRESS cfg + PHYSICAL_MEMORY_LENGTH cfg)"
      using assms(3, 4) by (simp add: not_less not_le)
    then show ?thesis using r(1) by (simp add: vm_map_def)
  qed
  moreover have "e = 0 \<and> 4096 * k = unat len \<or> e = -1 \<and> 4096 * k < unat len" using r(4) u(2) by auto
  ultimately show ?thesis using r(2, 3) w unfolding range root mapped_view_def by blast
qed

section \<open>Properties\<close>

text \<open>C24: \<open>vm_map\<close> returns, and it changes the translation of no address outside the range it is given. When it
  reports success, every address of the range is translated to its place with the attributes asked for; when
  a table could not be had, it has mapped the pages before that one and left the others alone. The page tables
  and the heap stay consistent, so that it can be called again.\<close>

theorem vm_map_exact:
  assumes "vm_state cfg R (ttbr0 AND NOT 0x3fff) Q H"
    and "VIRTUAL_MEMORY_BASE_ADDRESS cfg = PHYSICAL_MEMORY_BASE_ADDRESS cfg"
    and "PHYSICAL_MEMORY_BASE_ADDRESS cfg \<le> ttbr0" and "ttbr0 < PHYSICAL_MEMORY_BASE_ADDRESS cfg + PHYSICAL_MEMORY_LENGTH cfg"
    and "4096 dvd unat virt" and "4096 dvd unat phy" and "4096 dvd unat len" and "unat virt + unat len \<le> 2 ^ 32"
  shows "\<exists>e H' Q' n. vm_map cfg ttbr0 virt phy len fl gf H = Some (Inr (e, H')) \<and>
    vm_state cfg R (ttbr0 AND NOT 0x3fff) Q' H' \<and> Q \<subseteq> Q' \<and> (e = 0 \<and> n = unat len \<or> e = -1 \<and> n < unat len) \<and>
    (\<forall>va. mmu_walk (vm_mem H') ttbr0 va =
      (if unat virt \<le> unat va \<and> unat va < unat virt + n
       then Some (phy + (va - virt), Some (get_memtype fl), Some (get_access fl), Some GLOBAL, Some (get_execute fl))
       else mmu_walk (vm_mem H) ttbr0 va))"
  using assms by (rule vm_map_ok)

text \<open>The first page of a device on a BeagleBoard, with empty tables.\<close>

lemma vm_state4k: "\<exists>R. vm_state board4k R 0x80200000 {} (heap4k (\<lambda>_. 0))"
proof -
  obtain R where H: "heap_ok board4k R (heap4k (\<lambda>_. 0)) {}" using heap4k_start by blast
  have "pool_cache (heap4k (\<lambda>_. 0)) i = None" if "i < 7" for i using that by (simp add: pool_cache_def heap4k_def)
  then have "pools_plain (heap4k (\<lambda>_. 0))" by (simp add: pools_plain_def)
  moreover have "vm_mem (heap4k (\<lambda>_. 0)) = (\<lambda>_. 0)" "vm_heap (heap4k (\<lambda>_. 0)) = 0x80301000"
    by (simp_all add: heap4k_def pages4k_def)
  moreover have "word_at (\<lambda>_. 0) root e = 0" for root e by (simp add: word_at_def load32_def)
  ultimately have "vm_state board4k R 0x80200000 {} (heap4k (\<lambda>_. 0))" using H by (simp add: vm_state_def vm_ok_def)
  then show ?thesis by blast
qed

lemma vm_map_exact_witness:
  "\<exists>H'. vm_map board4k 0x80200000 0x48000000 0x49000000 4096 MMU_DEVICE GFP_KERNEL (heap4k (\<lambda>_. 0)) = Some (Inr (0, H')) \<and>
    mmu_walk (vm_mem H') 0x80200000 0x48000123 =
      Some (0x49000123, Some MEMTYPE_SHARED_DEVICE, Some ACCESS_FULL, Some GLOBAL, Some EXECUTENEVER) \<and>
    mmu_walk (vm_mem H') 0x80200000 0x48001000 = None"
proof -
  let ?H = "heap4k (\<lambda>_. 0)"
  have root: "(0x80200000 :: u32) AND NOT 0x3fff = 0x80200000" by simp
  obtain R where st: "vm_state board4k R (0x80200000 AND NOT 0x3fff) {} ?H" using vm_state4k unfolding root by blast
  have m: "vm_mem ?H = (\<lambda>_. 0)" by (simp add: heap4k_def pages4k_def)
  have board: "VIRTUAL_MEMORY_BASE_ADDRESS board4k = PHYSICAL_MEMORY_BASE_ADDRESS board4k"
    "PHYSICAL_MEMORY_BASE_ADDRESS board4k \<le> 0x80200000"
    "0x80200000 < PHYSICAL_MEMORY_BASE_ADDRESS board4k + PHYSICAL_MEMORY_LENGTH board4k" "PAGE_SIZE board4k = 4096"
    by (simp_all add: board4k_def beaglexm_def)
  obtain H1 where k: "kmalloc board4k (get_free_pages board4k) (free_pages2 board4k) clear_pages 1024 (GFP_KERNEL OR GFP_ZERO) ?H = Inr (0x80303000, H1)"
    using first_table by blast
  have "load32 (vm_mem ?H) a = 0" for a unfolding m by (simp add: load32_def)
  then have "vm_table board4k a GFP_KERNEL ?H = Inr (0x80303000, H1)" for a using k by (simp add: vm_table_def)
  then have ok: "\<exists>H'. vm_map board4k 0x80200000 0x48000000 0x49000000 4096 MMU_DEVICE GFP_KERNEL ?H = Some (Inr (0, H'))"
    using board by (simp add: vm_map_def vm_map_loop.simps Let_def)
  have none: "mmu_walk (vm_mem ?H) 0x80200000 va = None" for va unfolding m by (simp add: mmu_walk_def load32_def)
  obtain e H' n where r: "vm_map board4k 0x80200000 0x48000000 0x49000000 4096 MMU_DEVICE GFP_KERNEL ?H = Some (Inr (e, H'))"
    "e = 0 \<and> n = unat (4096 :: u32) \<or> e = -1 \<and> n < unat (4096 :: u32)"
    and w: "\<And>va. mmu_walk (vm_mem H') 0x80200000 va =
      (if unat (0x48000000 :: u32) \<le> unat va \<and> unat va < unat (0x48000000 :: u32) + n
       then Some (0x49000000 + (va - 0x48000000), Some (get_memtype MMU_DEVICE), Some (get_access MMU_DEVICE), Some GLOBAL, Some (get_execute MMU_DEVICE))
       else mmu_walk (vm_mem ?H) 0x80200000 va)"
    using vm_map_exact [OF st board(1-3), of "0x48000000" "0x49000000" 4096 MMU_DEVICE GFP_KERNEL] by auto
  have "e = 0" using ok r(1) by auto
  then have "n = 4096" using r(2) by simp
  then show ?thesis
    using \<open>e = 0\<close> r(1) w [of "0x48000123"] w [of "0x48001000"] none
    by (simp add: get_memtype_def get_access_def get_execute_def MMU_DEVICE_def MMU_NOACCESS_def BIT_def)
qed

end
