(* ===== verification/Startup.thy ===== *)
theory Startup
  imports Vm_Map
begin

text \<open>
  Starting the kernel: \<open>setup_memory\<close> of \<open>memory/memory.c\<close>, which brings up the page tables, the page
  allocator, the slab allocator and \<open>kmalloc\<close> one after the other, \<open>_init_ram\<close> and \<open>register_drivers\<close> of
  \<open>arm.c\<close>, and the first frame of a thread on ARM-M (\<open>arch/arm_m/cpu_state.c\<close>).
\<close>

section \<open>Memory\<close>

text \<open>
  The calls of \<open>setup_memory\<close> ignore what the ones before have answered. \<open>rs\<close> are the device regions of the linker;
  \<open>mmu\<close> says whether the kernel is built without \<open>CONFIG_NOMMU\<close>.
\<close>

definition kmalloc_start :: "root_mem_cache \<Rightarrow> pages \<Rightarrow> pages kheap" where
  "kmalloc_start root s = \<lparr>kh_root = root, kh_pools = replicate 7 None, kh_pages = s\<rparr>"

definition setup_memory ::
  "board \<Rightarrow> bool \<Rightarrow> (u32 \<times> u32) list \<Rightarrow> l2_tables \<Rightarrow> cp15 \<Rightarrow> buddies \<Rightarrow> boot \<Rightarrow> (cp15 \<times> pages kheap) run option" where
  "setup_memory cfg mmu rs t cp b s =
     (case (if mmu
            then init_page_tables cfg (PHYSICAL_MEMORY_BASE_ADDRESS cfg) (VIRTUAL_MEMORY_BASE_ADDRESS cfg) (PHYSICAL_MEMORY_LENGTH cfg) t cp s
            else Some (Inr (0, t, cp, s))) of
        None \<Rightarrow> None
      | Some (Inl h) \<Rightarrow> Some (Inl h)
      | Some (Inr (e, t1, cp1, s1)) \<Rightarrow>
          (case get_free_page_setup cfg b s1 of
             Inl h \<Rightarrow> Some (Inl h)
           | Inr (e2, b2, s2) \<Rightarrow>
               (case mem_cache_setup cfg (get_free_pages cfg) \<lparr>root_page = 0, caches_total = 0, caches = []\<rparr>
                    \<lparr>buddies_of = b2, pages_mem = boot_mem s2\<rparr> of
                  (e3, root, s3) \<Rightarrow>
                    (case (if mmu then vm_map_device_regions cfg (TTBR0 cp1) rs (kmalloc_start root s3)
                           else Some (Inr (kmalloc_start root s3))) of
                       None \<Rightarrow> None
                     | Some (Inl h) \<Rightarrow> Some (Inl h)
                     | Some (Inr H) \<Rightarrow> Some (Inr (cp1, H))))))"

text \<open>The tables of \<open>init_page_tables\<close> lie behind the image of the kernel and below the watermark.\<close>

lemma built_place:
  assumes tab: "tables_built cfg phy v0 n root t s" and ready: "setup_ready cfg 12 b s"
  defines "K \<equiv> (v0 + n - 1) div 256 + 1 - v0 div 256"
  shows "unat (HEAP_BEGIN cfg) \<le> unat root" and "unat root + 0x4000 + 1024 * K \<le> watermark cfg s"
proof -
  note R = setup_ready_facts [OF ready]
  have ps: "PAGE_SIZE cfg = 4096" using R(1) by simp
  have t: "v0 div 256 + K \<le> 0x1000" "l2_state cfg root K t s" "\<exists>k. root = HEAP_BEGIN cfg + k * PAGE_SIZE cfg \<and> unat k + 4 \<le> unat (boot_pages s)"
    using tab unfolding tables_built_def Let_def K_def by blast+
  obtain k where k: "root = HEAP_BEGIN cfg + k * 4096" "unat k + 4 \<le> unat (boot_pages s)" using t(3) ps by auto
  have top: "watermark cfg s < 2 ^ 32" using R(5, 7) by simp
  have wm: "watermark cfg s = unat (HEAP_BEGIN cfg) + unat (boot_pages s) * 4096" by (simp add: watermark_def ps)
  have root: "unat root = unat (HEAP_BEGIN cfg) + unat k * 4096"
  proof -
    have "unat k * 4096 < 2 ^ 32" using k(2) top wm by linarith
    then have "unat (k * 4096) = unat k * 4096" by (subst unat_mult_u32) simp_all
    then show ?thesis using k(2) top wm unfolding k(1) by (subst unat_add_u32) simp_all
  qed
  then show "unat (HEAP_BEGIN cfg) \<le> unat root" by simp
  have low: "unat root + 0x4000 \<le> watermark cfg s" using root k(2) wm by linarith
  obtain c where c: "c \<le> 4096" "HEAP_BEGIN cfg + boot_pages s * PAGE_SIZE cfg = root + word_of_nat (0x4000 + 1024 * K + c)"
  proof (cases "l2_n t = 0")
    case True
    then show thesis using t(2) by (intro that [of 0]) (simp_all add: l2_state_def Let_def)
  next
    case False
    then have W: "HEAP_BEGIN cfg + boot_pages s * PAGE_SIZE cfg = root + 4 * word_of_nat (0x1000 + 256 * K) + 1024 * l2_n t"
      and le: "unat (l2_n t) \<le> 4" using t(2) by (simp_all add: l2_state_def Let_def)
    have "word_of_nat (0x4000 + 1024 * K + 1024 * unat (l2_n t)) = 4 * word_of_nat (0x1000 + 256 * K) + (1024 * l2_n t)"
      by (simp add: distrib_left)
    then have "HEAP_BEGIN cfg + boot_pages s * PAGE_SIZE cfg = root + word_of_nat (0x4000 + 1024 * K + 1024 * unat (l2_n t))"
      unfolding W by (simp only: add.assoc)
    then show thesis using le by (intro that [of "1024 * unat (l2_n t)"]) simp_all
  qed
  let ?x = "0x4000 + 1024 * K + c"
  have x: "?x < 2 ^ 23" using t(1) c(1) by simp
  have W: "unat (root + word_of_nat ?x) = watermark cfg s" using watermark_word(1) [OF ready] unfolding c(2) .
  have ux: "unat (word_of_nat ?x :: u32) = ?x" by (rule unat_small) (use x in simp)
  have "unat (root + word_of_nat ?x) = (unat root + ?x) mod 2 ^ 32" unfolding unat_word_ariths(1) ux by simp
  moreover have "(unat root + ?x) mod 2 ^ 32 = unat root + ?x"
  proof (rule ccontr)
    assume "(unat root + ?x) mod 2 ^ 32 \<noteq> unat root + ?x"
    then have ge: "2 ^ 32 \<le> unat root + ?x" by (metis mod_less not_le)
    then have "(unat root + ?x) mod 2 ^ 32 = (unat root + ?x - 2 ^ 32) mod 2 ^ 32" by (rule le_mod_geq)
    also have "\<dots> \<le> unat root + ?x - 2 ^ 32" by simp
    finally have "watermark cfg s + 2 ^ 32 \<le> unat root + ?x"
      using W ge unfolding unat_word_ariths(1) ux by simp
    then show False using low x by simp
  qed
  ultimately show "unat root + 0x4000 + 1024 * K \<le> watermark cfg s" using W by simp
qed

lemma built_vm_ok:
  assumes tab: "tables_built cfg phy v0 n root t s" and ready: "setup_ready cfg 12 b s" and hb: "watermark cfg s \<le> unat hb"
  shows "vm_ok root hb Q (boot_mem s)"
proof -
  define b0 where "b0 = v0 div 256"
  define K where "K = (v0 + n - 1) div 256 + 1 - v0 div 256"
  have t: "root AND 0x3fff = 0" "b0 + K \<le> 0x1000"
    and words: "\<forall>r < 0x1000 + 256 * K. word_at (boot_mem s) root r =
          (if 0x1000 + v0 - 256 * b0 \<le> r \<and> r < 0x1000 + v0 - 256 * b0 + n then page_entry phy (r - (0x1000 + v0 - 256 * b0))
           else if b0 \<le> r \<and> r < b0 + K then table_entry root (r - b0) else 0)"
    using tab unfolding tables_built_def Let_def K_def b0_def by blast+
  have place: "unat root + 0x4000 + 1024 * K \<le> unat hb" using built_place(2) [OF tab ready] hb unfolding K_def by linarith
  have w: "word_at (boot_mem s) root e = (if b0 \<le> e \<and> e < b0 + K then table_entry root (e - b0) else 0)" if "e < 0x1000" for e
  proof -
    have "256 * b0 \<le> v0" by (simp add: b0_def)
    then have "\<not> 0x1000 + v0 - 256 * b0 \<le> e" "e < 0x1000 + 256 * K" using that by linarith+
    then show ?thesis using words by simp
  qed
  have entry: "table_entry root j AND 3 = 1" for j unfolding table_entry_def by (rule vmsav7_build_pagetable_parts(2))
  have T: "table_of (boot_mem s) root e = root + 4 * word_of_nat (0x1000 + 256 * (e - b0)) \<and>
      unat (table_of (boot_mem s) root e) = unat root + 0x4000 + 1024 * (e - b0) \<and> e - b0 < K"
    if "e < 0x1000" "word_at (boot_mem s) root e \<noteq> 0" for e
  proof -
    have e: "b0 \<le> e" "e < b0 + K" using w [OF that(1)] that(2) by (auto split: if_splits)
    have eq: "table_of (boot_mem s) root e = root + 4 * word_of_nat (0x1000 + 256 * (e - b0))"
      using w [OF that(1)] e by (simp add: table_of_def table_base [OF t(1)])
    have "e - b0 < K" using e by simp
    have "unat hb < 4294967296" by simp
    moreover have "4 * (0x1000 + 256 * (e - b0)) = 0x4000 + 1024 * (e - b0)" "1024 * (e - b0) < 1024 * K"
      using \<open>e - b0 < K\<close> by simp_all
    ultimately have "unat root + 4 * (0x1000 + 256 * (e - b0)) < 4294967296" using place by linarith
    moreover have "0x1000 + 256 * (e - b0) < 2 ^ 30" using \<open>e - b0 < K\<close> t(2) by simp
    ultimately have "unat (root + 4 * word_of_nat (0x1000 + 256 * (e - b0))) = unat root + 4 * (0x1000 + 256 * (e - b0))"
      using unat_4 [of "0x1000 + 256 * (e - b0)"] by (subst unat_add_u32) simp_all
    then show ?thesis using eq \<open>e - b0 < K\<close> by simp
  qed
  show ?thesis
    unfolding vm_ok_def
  proof (intro conjI allI impI)
    show "root AND 0x3fff = 0" "unat root + 0x4000 \<le> unat hb" using t(1) place by simp_all
    fix e :: nat assume e: "e < 0x1000"
    { assume n: "word_at (boot_mem s) root e \<noteq> 0"
      show "word_at (boot_mem s) root e AND 3 = 1" using n w [OF e] entry by (auto split: if_splits)
      have u: "unat (table_of (boot_mem s) root e) = unat root + 0x4000 + 1024 * (e - b0)" "e - b0 < K" using T [OF e n] by blast+
      then have "unat (table_of (boot_mem s) root e) \<noteq> 0" by simp
      then have "table_of (boot_mem s) root e \<noteq> 0" by auto
      then show "table_place Q hb root (table_of (boot_mem s) root e)"
        using u place table_aligned [of "word_at (boot_mem s) root e"] by (auto simp: table_place_def table_of_def)
    }
    fix e' :: nat assume e': "e' < 0x1000" and ne: "e \<noteq> e'"
      and n: "word_at (boot_mem s) root e \<noteq> 0" "word_at (boot_mem s) root e' \<noteq> 0"
    have "b0 \<le> e" "b0 \<le> e'" using w [OF e] w [OF e'] n by (auto split: if_splits)
    then have "unat (table_of (boot_mem s) root e) \<noteq> unat (table_of (boot_mem s) root e')"
      using T [OF e n(1), THEN conjunct2, THEN conjunct1] T [OF e' n(2), THEN conjunct2, THEN conjunct1] ne by linarith
    then show "table_of (boot_mem s) root e \<noteq> table_of (boot_mem s) root e'" by metis
  qed
qed

text \<open>The first cache page, and \<open>kmalloc\<close> with nothing allocated.\<close>

lemma setup_boot_mem:
  assumes "get_free_page_setup cfg b s = Inr (err, b', s')"
  shows "boot_mem s' = boot_mem s"
proof -
  have calm: "boot_mem s2 = boot_mem s1" if "get_boot_pages cfg n GFP_KERNEL s1 = Inr (a, s2)" for n a s1 s2
    using get_boot_pages_mem [OF that] by (auto simp: gfp_defs)
  obtain l where "buddy_alloc_data cfg b l (get_boot_pages cfg) GFP_KERNEL s = Inr (err, b', s')"
    using assms remaining_same_state unfolding get_free_page_setup_def by (fastforce split: sum.splits)
  then show ?thesis
    by (auto simp: buddy_alloc_data_def buddy_data_alloc_def end_boot_pages_def Let_def dest!: calm split: sum.splits prod.splits if_splits)
qed

lemma kmalloc_starts:
  assumes inv: "pages_inv cfg s {}" and ps: "PAGE_SIZE cfg = 4096"
    and run: "mem_cache_setup cfg (get_free_pages cfg) r0 s = (0, root, s')" and none: "caches r0 = []"
  shows "\<exists>R. heap_ok cfg R (kmalloc_start root s') {}" and "pools_plain (kmalloc_start root s')"
    and "quiet cfg {} (heap_base (buddies_of s)) (pages_mem s) s'"
proof -
  obtain p where got: "get_free_pages cfg 1 GFP_KERNEL s = (p, s')" and p: "p \<noteq> 0" and root: "root_page root = p"
    using run by (auto simp: mem_cache_setup_def split: prod.splits if_splits)
  have st: "page_regions cfg s {}" using inv by (auto simp: page_regions_def)
  obtain len where len: "page_regions cfg s' {(p, len)}" using pg.get_some [OF st TrueI got p] by auto
  let ?H = "kmalloc_start root s'"
  have none: "pool_cache ?H i = None" if "i < 7" for i using that by (simp add: pool_cache_def kmalloc_start_def)
  have "owns (page_regions cfg) 4096 {(p, len)} (kh_pages ?H) {}"
    using pg.owns_start [of cfg, OF len] ps by (simp add: kmalloc_start_def)
  moreover have "pools_hold cfg ?H (\<lambda>_. {}) {}" "pool_regions cfg ?H = {}"
    using none by (auto simp: pools_hold_def pool_regions_def)
  moreover have "table_ok ?H" using p root by (simp add: table_ok_def kmalloc_start_def)
  ultimately show "\<exists>R. heap_ok cfg R ?H {}" using ps unfolding kmalloc_ok_def by blast
  show "pools_plain ?H" using none by (simp add: pools_plain_def)
  have "quiet cfg {} (heap_base (buddies_of s)) (pages_mem s) s" using st by (auto simp: quiet_def untouched_def)
  from quiet_get [OF this, of 1 GFP_KERNEL] got show "quiet cfg {} (heap_base (buddies_of s)) (pages_mem s) s'" by simp
qed

text \<open>Without a memory management unit the steps on the tables are left out.\<close>

lemma setup_memory_nommu:
  assumes "setup_ready cfg 12 b s" and "get_free_page_setup cfg b s = Inr (err, b2, s2)"
    and "0 < pages_of b2" and "no_spill (pages_of b2) (top_of b2)"
    and slabs: "mem_cache_setup cfg (get_free_pages cfg) \<lparr>root_page = 0, caches_total = 0, caches = []\<rparr>
      \<lparr>buddies_of = b2, pages_mem = boot_mem s2\<rparr> = (0, root, s3)"
  shows "\<exists>H R. setup_memory cfg False rs t cp b s = Some (Inr (cp, H)) \<and> heap_ok cfg R H {}"
proof -
  note R = setup_ready_facts [OF assms(1)]
  have ps: "PAGE_SIZE cfg = 4096" using R(1) by simp
  have "pages_inv cfg \<lparr>buddies_of = b2, pages_mem = boot_mem s2\<rparr> {}"
    using page_setup_facts [OF assms(1-4)] R by (simp add: pages_inv_def)
  from kmalloc_starts(1) [OF this ps slabs] show ?thesis using assms(2) slabs by (simp add: setup_memory_def)
qed

lemma device_regions_ok:
  assumes same: "VIRTUAL_MEMORY_BASE_ADDRESS cfg = PHYSICAL_MEMORY_BASE_ADDRESS cfg"
    and ram: "PHYSICAL_MEMORY_BASE_ADDRESS cfg \<le> ttbr0" "ttbr0 < PHYSICAL_MEMORY_BASE_ADDRESS cfg + PHYSICAL_MEMORY_LENGTH cfg"
  shows "vm_state cfg R (ttbr0 AND NOT 0x3fff) Q H \<Longrightarrow>
    \<forall>(a, n) \<in> set rs. 4096 dvd unat a \<and> 4096 dvd unat n \<and> unat a + unat n \<le> 2 ^ 32 \<Longrightarrow>
    \<exists>H' Q'. vm_map_device_regions cfg ttbr0 rs H = Some (Inr H') \<and> vm_state cfg R (ttbr0 AND NOT 0x3fff) Q' H' \<and>
      (\<forall>va. mmu_walk (vm_mem H') ttbr0 va = mmu_walk (vm_mem H) ttbr0 va \<or>
        (\<exists>(a, n) \<in> set rs. unat a \<le> unat va \<and> unat va < unat a + unat n) \<and>
        mmu_walk (vm_mem H') ttbr0 va = mapped_view MMU_DEVICE 0 0 va)"
proof (induction rs arbitrary: H Q)
  case (Cons r rs)
  obtain a n where r: "r = (a, n)" by (metis surj_pair)
  then have an: "4096 dvd unat a" "4096 dvd unat n" "unat a + unat n \<le> 2 ^ 32" using Cons.prems(2) by simp_all
  obtain e H1 Q1 k where v: "vm_map cfg ttbr0 a a n MMU_DEVICE GFP_KERNEL H = Some (Inr (e, H1))"
    "vm_state cfg R (ttbr0 AND NOT 0x3fff) Q1 H1" "e = 0 \<and> k = unat n \<or> e = -1 \<and> k < unat n"
    and w: "\<And>va. mmu_walk (vm_mem H1) ttbr0 va = (if unat a \<le> unat va \<and> unat va < unat a + k
       then Some (a + (va - a), Some (get_memtype MMU_DEVICE), Some (get_access MMU_DEVICE), Some GLOBAL, Some (get_execute MMU_DEVICE))
       else mmu_walk (vm_mem H) ttbr0 va)"
    using vm_map_ok [OF Cons.prems(1) same ram an(1, 1, 2, 3), of MMU_DEVICE GFP_KERNEL] by blast
  obtain H' Q' where H': "vm_map_device_regions cfg ttbr0 rs H1 = Some (Inr H')" "vm_state cfg R (ttbr0 AND NOT 0x3fff) Q' H'"
    and w': "\<And>va. mmu_walk (vm_mem H') ttbr0 va = mmu_walk (vm_mem H1) ttbr0 va \<or>
        (\<exists>(a, n) \<in> set rs. unat a \<le> unat va \<and> unat va < unat a + unat n) \<and>
        mmu_walk (vm_mem H') ttbr0 va = mapped_view MMU_DEVICE 0 0 va"
    using Cons.IH [OF v(2)] Cons.prems(2) by (meson list.set_intros(2))
  have "mmu_walk (vm_mem H') ttbr0 va = mmu_walk (vm_mem H) ttbr0 va \<or>
        (\<exists>(a, n) \<in> set (r # rs). unat a \<le> unat va \<and> unat va < unat a + unat n) \<and>
        mmu_walk (vm_mem H') ttbr0 va = mapped_view MMU_DEVICE 0 0 va" for va
  proof (cases "unat a \<le> unat va \<and> unat va < unat a + k")
    case True
    then have "mmu_walk (vm_mem H1) ttbr0 va = mapped_view MMU_DEVICE 0 0 va" using w [of va] by (simp add: mapped_view_def)
    moreover have "unat va < unat a + unat n" using True v(3) by auto
    ultimately show ?thesis using w' [of va] True r by auto
  next
    case False
    then show ?thesis using w' [of va] w [of va] by auto
  qed
  then show ?case using v(1) H' r by auto
qed auto

section \<open>The image in memory\<close>

text \<open>\<open>_init_ram\<close>, the same for both architectures: the linker's symbols are arguments.\<close>

definition init_ram :: "u32 \<Rightarrow> u32 \<Rightarrow> u32 \<Rightarrow> u32 \<Rightarrow> u32 \<Rightarrow> memory \<Rightarrow> memory" where
  "init_ram bss_begin bss_end source_data data_begin data_end m =
     memcpy (memset m bss_begin 0 (bss_end - bss_begin)) data_begin source_data (data_end - data_begin)"

lemma init_ram_ok:
  assumes "\<And>i. i < unat (data_end - data_begin) \<Longrightarrow> unat (bss_end - bss_begin) \<le> off bss_begin (source_data + word_of_nat i)"
    and "unat (data_end - data_begin) \<le> off source_data data_begin"
  shows "off data_begin a < unat (data_end - data_begin) \<Longrightarrow>
      init_ram bss_begin bss_end source_data data_begin data_end m a = m (source_data + word_of_nat (off data_begin a))"
    and "off bss_begin a < unat (bss_end - bss_begin) \<Longrightarrow> unat (data_end - data_begin) \<le> off data_begin a \<Longrightarrow>
      init_ram bss_begin bss_end source_data data_begin data_end m a = 0"
    and "unat (bss_end - bss_begin) \<le> off bss_begin a \<Longrightarrow> unat (data_end - data_begin) \<le> off data_begin a \<Longrightarrow>
      init_ram bss_begin bss_end source_data data_begin data_end m a = m a"
proof -
  let ?m = "memset m bss_begin 0 (bss_end - bss_begin)"
  have c: "init_ram bss_begin bss_end source_data data_begin data_end m a =
      (if off data_begin a < unat (data_end - data_begin) then ?m (source_data + word_of_nat (off data_begin a)) else ?m a)"
    unfolding init_ram_def using assms(2) by (intro memcpy_at) simp
  show "init_ram bss_begin bss_end source_data data_begin data_end m a = m (source_data + word_of_nat (off data_begin a))"
    if "off data_begin a < unat (data_end - data_begin)" using assms(1) [OF that] that c by (simp add: memset_at)
  show "init_ram bss_begin bss_end source_data data_begin data_end m a = 0"
    if "off bss_begin a < unat (bss_end - bss_begin)" "unat (data_end - data_begin) \<le> off data_begin a"
    using that c by (simp add: memset_at)
  show "init_ram bss_begin bss_end source_data data_begin data_end m a = m a"
    if "unat (bss_end - bss_begin) \<le> off bss_begin a" "unat (data_end - data_begin) \<le> off data_begin a"
    using that c by (simp add: memset_at)
qed

text \<open>\<open>register_drivers\<close>: the functions of the linker's list, one after the other.\<close>

fun register_drivers :: "('s \<Rightarrow> 's) list \<Rightarrow> 's \<Rightarrow> 's" where
  "register_drivers [] s = s"
| "register_drivers (f # fs) s = register_drivers fs (f s)"

section \<open>The first frame of a thread on ARM-M\<close>

text \<open>
  The frame is two structures on the stack, one above the other: \<open>struct task_state_struct\<close>, nine words, and
  \<open>struct exception_frame\<close>, eight. The result is the saved stack pointer, all there is of \<open>struct cpu_state_struct\<close>.
\<close>

definition cpu_state_build_m :: "u32 \<Rightarrow> u32 \<Rightarrow> u32 \<Rightarrow> u32 \<Rightarrow> memory \<Rightarrow> (u32 \<times> memory) run" where
  "cpu_state_build_m start args stack_p fin m =
     (let ef_size = 8 * 4; ts_size = 9 * 4;
          sp = stack_p - (ef_size + ts_size);
          ts = sp;
          ef = sp + ts_size
      in if ef AND 7 \<noteq> 0 then Inl BUG
         else
           let m1 = store32 m (ef + 6 * 4) start;
               m2 = store32 m1 (ef + 5 * 4) fin;
               m3 = store32 m2 ef args;
               m4 = store32 m3 (ef + 7 * 4) (push_bit 24 1);
               m5 = store32 m4 (ts + 8 * 4) 0xFFFFFFF9
           in Inr (sp, m5))"

text \<open>
  The way back from an interrupt, \<open>_IRQ_TAIL\<close> of \<open>context.S\<close>: the stack pointer is popped first, then nine words from where it points, the last one
  into the program counter. It is an exception return, on which the processor pops the exception frame, and with it
  one more word when bit 9 of the saved \<open>xPSR\<close> is set.
\<close>

record arm_m_regs =
  m_low :: "u32 list"
  m_mid :: "u32 list"
  m_high :: "u32 list"
  m_R12 :: u32
  m_LR :: u32
  m_PC :: u32
  m_xPSR :: u32
  m_SP :: u32

definition irq_tail :: "memory \<Rightarrow> u32 \<Rightarrow> u32 \<times> arm_m_regs" where
  "irq_tail m sp =
     (let w = (\<lambda>i. load32 m (sp + 4 * word_of_nat i))
      in (w 8, \<lparr>m_low = [w 9, w 10, w 11, w 12], m_mid = [w 4, w 5, w 6, w 7], m_high = [w 0, w 1, w 2, w 3],
        m_R12 = w 13, m_LR = w 14, m_PC = w 15, m_xPSR = w 16,
        m_SP = sp + 4 * 17 + (if bit (w 16) 9 then 4 else 0)\<rparr>))"

text \<open>A thread that is switched to for the first time starts at its function, in Thumb mode, with its argument in
  the first register, \<open>fin\<close> to return to and its whole stack free; nothing but the top 68 bytes of the stack has
  been written.\<close>

theorem thread_starts_m:
  assumes "stack_p AND 7 = 0" and "68 \<le> unat stack_p"
  shows "\<exists>sp m' r. cpu_state_build_m start args stack_p fin m = Inr (sp, m') \<and> irq_tail m' sp = (0xFFFFFFF9, r) \<and>
    m_PC r = start \<and> m_LR r = fin \<and> hd (m_low r) = args \<and> m_xPSR r = push_bit 24 1 \<and> m_SP r = stack_p \<and>
    (\<forall>a. \<not> (unat stack_p - 68 \<le> unat a \<and> unat a < unat stack_p) \<longrightarrow> m' a = m a)"
proof -
  define sp where "sp = stack_p - 68"
  have usp: "unat sp = unat stack_p - 68" using assms(2) by (simp add: sp_def unat_sub_u32 word_le_nat_alt)
  define st where "st m k v = store32 m (sp + 4 * word_of_nat k) v" for m k v
  let ?m = "st (st (st (st (st m 15 start) 14 fin) 9 args) 16 (push_bit 24 1)) 8 0xFFFFFFF9"
  have seven: "w AND 7 = 0 \<longleftrightarrow> 8 dvd unat w" for w :: u32
    using take_bit_dvd [of 3 w] by (simp add: take_bit_eq_mask mask_numeral)
  have "unat (sp + 36) = unat stack_p - 32" using assms(2) usp by (subst unat_add_u32) (simp_all add: less_imp_diff_less)
  then have "(sp + 36) AND 7 = 0" using assms(1) unfolding seven by (simp add: dvd_diff_nat)
  then have run: "cpu_state_build_m start args stack_p fin m = Inr (sp, ?m)"
    by (simp add: cpu_state_build_m_def Let_def sp_def st_def algebra_simps)
  have w: "word_at (st m k v) sp i = (if i = k then v else word_at m sp i)" if "i < 17" "k < 17" for m i k v
    unfolding st_def using that by (intro word_at_store) simp_all
  have tail: "irq_tail ?m sp = (0xFFFFFFF9, \<lparr>m_low = [args, word_at m sp 10, word_at m sp 11, word_at m sp 12],
      m_mid = [word_at m sp 4, word_at m sp 5, word_at m sp 6, word_at m sp 7],
      m_high = [word_at m sp 0, word_at m sp 1, word_at m sp 2, word_at m sp 3], m_R12 = word_at m sp 13,
      m_LR = fin, m_PC = start, m_xPSR = push_bit 24 1, m_SP = stack_p\<rparr>)"
    unfolding irq_tail_def word_at_def [symmetric] Let_def by (simp add: w) (simp add: sp_def bit_simps)
  have keep: "st m' k v a = m' a" if "k < 17" "\<not> (unat stack_p - 68 \<le> unat a \<and> unat a < unat stack_p)" for m' k v a
  proof -
    have "a \<noteq> sp + word_of_nat (4 * k + i)" if "i < 4" for i
    proof -
      have n: "4 * k + i < 68" using \<open>k < 17\<close> that by simp
      have x: "unat (word_of_nat (4 * k + i) :: u32) = 4 * k + i" by (rule unat_small) (use n in simp)
      have "unat stack_p < 4294967296" by simp
      then have "unat sp + (4 * k + i) < 4294967296" using n usp assms(2) by linarith
      then have "unat (sp + word_of_nat (4 * k + i)) = unat sp + (4 * k + i)"
        using unat_add_u32 [of sp "word_of_nat (4 * k + i)"] unfolding x by simp
      then show ?thesis using usp assms(2) \<open>k < 17\<close> \<open>\<not> _\<close> that by auto
    qed
    from this [of 0] this [of 1] this [of 2] this [of 3] show ?thesis by (simp add: st_def store32_def ac_simps)
  qed
  show ?thesis using run tail keep by (intro exI conjI) (auto)
qed

section \<open>Properties\<close>


lemma small_setup:
  "get_free_page_setup small_board no_buddies \<lparr>boot_pages = 5, boot_mem = m\<rparr> =
     Inr (0, eight_pages\<lparr>heap_base := 0x8020A000\<rparr>, end_boot_pages small_board \<lparr>boot_pages = 6, boot_mem = m\<rparr>)"
proof -
  have r: "get_boot_pages_remaining small_board \<lparr>boot_pages = 5, boot_mem = m\<rparr> = Inr (0x9000, \<lparr>boot_pages = 5, boot_mem = m\<rparr>)"
    by (simp add: boot_defs small_board_def eval_pages)
  have g: "get_boot_pages small_board 1 2 \<lparr>boot_pages = 5, boot_mem = m\<rparr> = Inr (0x80209000, \<lparr>boot_pages = 6, boot_mem = m\<rparr>)"
    by (simp add: boot_defs small_board_def eval_pages)
  have ps: "PAGE_SIZE small_board = 4096" by (simp add: small_board_def)
  show ?thesis
    by (simp add: get_free_page_setup_def r buddy_alloc_data_def configure_geometry_def
        no_buddies_def buddy_data_alloc_def g ps determine_buddy_data_size_def determine_buddy_order_ptr_size_def
        determine_buddy_order_size_def eval_pages) (simp add: eight_pages_def fun_eq_iff)
qed

lemma small_slabs:
  "\<exists>root s3. mem_cache_setup small_board (get_free_pages small_board) \<lparr>root_page = 0, caches_total = 0, caches = []\<rparr>
     \<lparr>buddies_of = eight_pages\<lparr>heap_base := 0x8020A000\<rparr>, pages_mem = m\<rparr> = (0, root, s3)"
  by (simp add: mem_cache_setup_def sizeof_mem_cache_def eval_alloc small_board_def eight_pages_def set_word_def fun_eq_iff)


end
