(* ===== verification/Printf.thy ===== *)
theory Printf
  imports Stdlib "HOL-Library.Signed_Division"
begin

text \<open>
  \<open>src/kernel/stdlib/fprintf.c\<close>: formatted output. A file is what its \<open>write\<close> does to the state
  of the machine; the early console writes through \<open>_debug_out\<close> and needs no file. Lengths are
  32-bit integers that wrap. The variadic arguments are the list of what \<open>va_arg\<close> finds, and
  reading one of another size, or one too many, which C leaves undefined, is a fault of its own.
\<close>

section \<open>Files and characters\<close>

datatype 's file_itf = File_null | File_early "string \<Rightarrow> 's \<Rightarrow> 's" | File_open "string \<Rightarrow> 's \<Rightarrow> u32 \<times> 's"

definition puts :: "'s file_itf \<Rightarrow> string \<Rightarrow> 's \<Rightarrow> u32 \<times> 's" where
  "puts file str s =
     (case file of
        File_early debug_out \<Rightarrow> (word_of_nat (length str), debug_out str s)
      | File_open write \<Rightarrow> write str s
      | File_null \<Rightarrow> (0, s))"

definition putc :: "'s file_itf \<Rightarrow> char \<Rightarrow> 's \<Rightarrow> u32 \<times> 's" where
  "putc file c s =
     (case file of
        File_early debug_out \<Rightarrow> puts file (if c = CHR 0x00 then [] else [c]) s
      | File_open write \<Rightarrow> write [c] s
      | File_null \<Rightarrow> (0, s))"

lemma sdiv_smaller:
  assumes "0 < (n::int) sdiv b" and "1 < b"
  shows "0 < n" and "nat (n sdiv b) < nat n"
proof -
  show n: "0 < n"
  proof (rule ccontr)
    assume "\<not> 0 < n"
    then have "n sdiv b \<le> 0"
      using assms(2) by (auto simp: signed_divide_int_def sgn_if pos_imp_zdiv_nonneg_iff)
    with assms(1) show False by simp
  qed
  have "n sdiv b = n div b" using n assms(2) by (simp add: signed_divide_int_def sgn_if)
  then show "nat (n sdiv b) < nat n" using n assms by (simp add: int_div_less_self)
qed

lemma word_div_10:
  assumes "(d::'a::len word) \<ge> 1"
  shows "unat (d div 10) < unat d"
proof -
  have "unat (10 :: 'a word) = 10 mod 2 ^ LENGTH('a)"
    by (metis unat_numeral take_bit_eq_mod unsigned_numeral)
  moreover have "10 mod 2 ^ n \<noteq> Suc 0" for n :: nat
  proof (cases n)
    case (Suc m)
    have "even (10 mod (2 ^ n) :: nat)" by (rule dvd_mod) (simp_all add: Suc)
    then show ?thesis by auto
  qed simp
  ultimately have "unat (10 :: 'a word) \<noteq> 1" by simp
  moreover have "0 < unat d" using assms by (simp add: word_le_nat_alt)
  ultimately show ?thesis by (cases "unat (10 :: 'a word) = 0") (auto simp: unat_div_distrib)
qed

text \<open>
  The length a number takes. The number is negated first when it is negative, which does nothing to
  the most negative one; the loop divides the way C does. The callers pass 10 and 16 for the base,
  the guard on it is there for termination only.
\<close>

function nstrlen_loop :: "int \<Rightarrow> int \<Rightarrow> u32 \<Rightarrow> u32" where
  "nstrlen_loop n base ret =
     (let n' = n sdiv base in if 1 < base \<and> 0 < n' then nstrlen_loop n' base (ret + 1) else ret)"
  by pat_completeness auto
termination
  by (relation "measure (\<lambda>(n, base, ret). nat n)") (auto dest: sdiv_smaller)

definition nstrlen32 :: "u32 \<Rightarrow> int \<Rightarrow> u32" where
  "nstrlen32 n base =
     (if sint n < 0 then nstrlen_loop (sint (- n)) base 2 else nstrlen_loop (sint n) base 1)"

definition nstrlen64 :: "u64 \<Rightarrow> int \<Rightarrow> u32" where
  "nstrlen64 n base =
     (if sint n < 0 then nstrlen_loop (sint (- n)) base 2 else nstrlen_loop (sint n) base 1)"

text \<open>\<open>while(pad-- > 0) l += _putc(file, padchar)\<close>.\<close>

fun pad_loop :: "'s file_itf \<Rightarrow> char \<Rightarrow> nat \<Rightarrow> u32 \<Rightarrow> 's \<Rightarrow> u32 \<times> 's" where
  "pad_loop file padchar 0 l s = (l, s)"
| "pad_loop file padchar (Suc pad) l s =
     (case putc file padchar s of (k, s') \<Rightarrow> pad_loop file padchar pad (l + k) s')"

definition padn32 :: "'s file_itf \<Rightarrow> u32 \<Rightarrow> int \<Rightarrow> u32 \<Rightarrow> bool \<Rightarrow> bool \<Rightarrow> 's \<Rightarrow> u32 \<times> 's" where
  "padn32 file n base pad zlead leftalign s =
     (if \<not> leftalign then
        pad_loop file (if zlead then CHR ''0'' else CHR '' '') (nat (sint (pad - nstrlen32 n base))) 0 s
      else (0, s))"

definition padn64 :: "'s file_itf \<Rightarrow> u64 \<Rightarrow> int \<Rightarrow> u32 \<Rightarrow> bool \<Rightarrow> bool \<Rightarrow> 's \<Rightarrow> u32 \<times> 's" where
  "padn64 file n base pad zlead leftalign s =
     (if \<not> leftalign then
        pad_loop file (if zlead then CHR ''0'' else CHR '' '') (nat (sint (pad - nstrlen64 n base))) 0 s
      else (0, s))"

definition padc :: "'s file_itf \<Rightarrow> u32 \<Rightarrow> bool \<Rightarrow> 's \<Rightarrow> u32 \<times> 's" where
  "padc file pad leftalign s =
     (if \<not> leftalign then pad_loop file (CHR '' '') (nat (sint (pad - 1))) 0 s else (0, s))"

definition pads :: "'s file_itf \<Rightarrow> string \<Rightarrow> u32 \<Rightarrow> bool \<Rightarrow> 's \<Rightarrow> u32 \<times> 's" where
  "pads file str pad leftalign s =
     (if \<not> leftalign then pad_loop file (CHR '' '') (nat (sint (pad - word_of_nat (length str)))) 0 s
      else (0, s))"

section \<open>Numbers\<close>

text \<open>The loop over the shifts, for 32 and for 64 bits.\<close>

fun putxX_loop :: "'s file_itf \<Rightarrow> 'a::len word \<Rightarrow> char \<Rightarrow> nat list \<Rightarrow> u32 \<Rightarrow> 's \<Rightarrow> u32 \<times> 's" where
  "putxX_loop file n a [] l s = (l, s)"
| "putxX_loop file n a (sh # shs) l s =
     (let x = unat (drop_bit sh n AND 15)
      in if x \<noteq> 0 \<or> l \<noteq> 0 \<or> sh = 0 then
           (case putc file (char_of (x + (if x < 10 then char_code (CHR ''0'') else char_code a - 10))) s of
              (k, s') \<Rightarrow> putxX_loop file n a shs (l + k) s')
         else putxX_loop file n a shs l s)"

definition putxX :: "'s file_itf \<Rightarrow> u32 \<Rightarrow> char \<Rightarrow> 's \<Rightarrow> u32 \<times> 's" where
  "putxX file n a s = putxX_loop file n a [28, 24, 20, 16, 12, 8, 4, 0] 0 s"

definition putx :: "'s file_itf \<Rightarrow> u32 \<Rightarrow> 's \<Rightarrow> u32 \<times> 's" where
  "putx file n s = putxX file n (CHR ''a'') s"

definition putX :: "'s file_itf \<Rightarrow> u32 \<Rightarrow> 's \<Rightarrow> u32 \<times> 's" where
  "putX file n s = putxX file n (CHR ''A'') s"

definition putlxX :: "'s file_itf \<Rightarrow> u64 \<Rightarrow> char \<Rightarrow> 's \<Rightarrow> u32 \<times> 's" where
  "putlxX file n a s =
     putxX_loop file n a [60, 56, 52, 48, 44, 40, 36, 32, 28, 24, 20, 16, 12, 8, 4, 0] 0 s"

definition putlx :: "'s file_itf \<Rightarrow> u64 \<Rightarrow> 's \<Rightarrow> u32 \<times> 's" where
  "putlx file n s = putlxX file n (CHR ''a'') s"

definition putlX :: "'s file_itf \<Rightarrow> u64 \<Rightarrow> 's \<Rightarrow> u32 \<times> 's" where
  "putlX file n s = putlxX file n (CHR ''A'') s"

text \<open>The loop over the divisors, for 32 and for 64 bits; the length is counted, not summed up.\<close>

function putu_loop :: "'s file_itf \<Rightarrow> 'a::len word \<Rightarrow> 'a word \<Rightarrow> nat \<Rightarrow> 's \<Rightarrow> nat \<times> 's" where
  "putu_loop file n d l s =
     (if d \<ge> 1 then
        let h = (n div d) mod 10
        in if h \<noteq> 0 \<or> l \<noteq> 0 \<or> d \<le> 1
           then putu_loop file n (d div 10) (l + 1) (snd (putc file (char_of (char_code (CHR ''0'') + unat h)) s))
           else putu_loop file n (d div 10) l s
      else (l, s))"
  by pat_completeness auto

termination
  by (relation "measure (\<lambda>(file, n, d, l, s). unat d)") (auto intro: word_div_10)

declare nstrlen_loop.simps [simp del] putu_loop.simps [simp del]

definition putu :: "'s file_itf \<Rightarrow> u32 \<Rightarrow> 's \<Rightarrow> u32 \<times> 's" where
  "putu file n s = (case putu_loop file n 1000000000 0 s of (l, s') \<Rightarrow> (word_of_nat l, s'))"

text \<open>A negative number is printed as a minus sign and its negation, by a call of itself.\<close>

partial_function (option) putd :: "'s file_itf \<Rightarrow> u32 \<Rightarrow> 's \<Rightarrow> (u32 \<times> 's) option" where
  "putd file n s =
     (if sint n \<ge> 0 then Some (putu file n s)
      else case putc file (CHR ''-'') s of
        (l, s') \<Rightarrow> Option.bind (putd file (- n) s') (\<lambda>(k, s''). Some (l + k, s'')))"

declare putd.simps [code]

definition putlu :: "'s file_itf \<Rightarrow> u64 \<Rightarrow> 's \<Rightarrow> u32 \<times> 's" where
  "putlu file n s =
     (case putu_loop file n (1000000000 * 1000000000) 0 s of (l, s') \<Rightarrow> (word_of_nat l, s'))"

definition putll :: "'s file_itf \<Rightarrow> u64 \<Rightarrow> 's \<Rightarrow> u32 \<times> 's" where
  "putll file n s =
     (if sint n \<ge> 0 then putlu file n s
      else case putc file (CHR ''-'') s of
        (l, s') \<Rightarrow> (case putlu file (- n) s' of (k, s'') \<Rightarrow> (l + k, s'')))"

section \<open>Directives\<close>

datatype va_arg = Va32 u32 | Va64 u64 | Va_str string

record pad_spec =
  leftalign :: bool
  zlead :: bool
  pad :: u32

text \<open>
  The flags, the width and the alignment between the percent sign and the letter. The digits of a
  width are skipped after \<open>atoi\<close> has read them. \<open>None\<close> is a \<open>*\<close> without an argument.
\<close>

function parse_spec :: "string \<Rightarrow> va_arg list \<Rightarrow> pad_spec \<Rightarrow> (string \<times> va_arg list \<times> pad_spec) option" where
  "parse_spec [] va sp = Some ([], va, sp)"
| "parse_spec (c # format) va sp =
     (if c = CHR ''0'' then parse_spec format va (sp\<lparr>zlead := True\<rparr>)
      else if c = CHR ''-'' then parse_spec format va (sp\<lparr>leftalign := True\<rparr>)
      else if c = CHR ''*'' then
        (case va of
           Va32 p # va' \<Rightarrow>
             parse_spec format va' (if sint p < 0 then sp\<lparr>pad := - p, leftalign := True\<rparr> else sp\<lparr>pad := p\<rparr>)
         | _ \<Rightarrow> None)
      else if isdigit c then parse_spec (dropWhile isdigit format) va (sp\<lparr>pad := atoi (c # format)\<rparr>)
      else Some (c # format, va, sp))"
  by pat_completeness auto
termination
  by (relation "measure (\<lambda>(format, va, sp). length format)") (auto simp: le_imp_less_Suc length_dropWhile_le)

text \<open>
  What a directive comes to: an argument that is not there, a letter that is not known (\<open>err = 1\<close>),
  or its length and the arguments that are left.
\<close>

datatype 's printed = Va_fault | Format_error 's | Printed u32 "va_arg list" 's

text \<open>The three writes of a directive: the padding before, the value, the padding after.\<close>

definition around :: "('s \<Rightarrow> u32 \<times> 's) \<Rightarrow> ('s \<Rightarrow> (u32 \<times> 's) option) \<Rightarrow> ('s \<Rightarrow> u32 \<times> 's) \<Rightarrow> va_arg list \<Rightarrow> 's
    \<Rightarrow> 's printed option" where
  "around padl put padr va s =
     (case padl s of (l1, s1) \<Rightarrow>
        map_option (\<lambda>(l2, s2). case padr s2 of (l3, s3) \<Rightarrow> Printed (l1 + l2 + l3) va s3) (put s1))"

definition print_int32 :: "'s file_itf \<Rightarrow> pad_spec \<Rightarrow> int \<Rightarrow> (u32 \<Rightarrow> 's \<Rightarrow> (u32 \<times> 's) option) \<Rightarrow> va_arg list \<Rightarrow> 's
    \<Rightarrow> 's printed option" where
  "print_int32 file sp base put va s =
     (case va of
        Va32 arg # va' \<Rightarrow>
          around (padn32 file arg base (pad sp) (zlead sp) (leftalign sp)) (put arg)
            (padn32 file arg base (pad sp) (zlead sp) (\<not> leftalign sp)) va' s
      | _ \<Rightarrow> Some Va_fault)"

text \<open>Without \<open>__WITH_64BIT_MATH\<close> a 64-bit directive prints nothing and leaves its argument where it is.\<close>

definition print_int64 :: "bool \<Rightarrow> 's file_itf \<Rightarrow> pad_spec \<Rightarrow> int \<Rightarrow> (u64 \<Rightarrow> 's \<Rightarrow> u32 \<times> 's) \<Rightarrow> va_arg list \<Rightarrow> 's
    \<Rightarrow> 's printed option" where
  "print_int64 with_64bit file sp base put va s =
     (if with_64bit then
        case va of
          Va64 arg # va' \<Rightarrow>
            around (padn64 file arg base (pad sp) (zlead sp) (leftalign sp)) (\<lambda>s. Some (put arg s))
              (padn64 file arg base (pad sp) (zlead sp) (\<not> leftalign sp)) va' s
        | _ \<Rightarrow> Some Va_fault
      else Some (Printed 0 va s))"

definition directive :: "'s file_itf \<Rightarrow> pad_spec \<Rightarrow> char \<Rightarrow> va_arg list \<Rightarrow> 's \<Rightarrow> 's printed option" where
  "directive file sp c va s =
     (if c = CHR ''%'' then (case putc file (CHR ''%'') s of (l, s') \<Rightarrow> Some (Printed l va s'))
      else if c = CHR ''c'' then
        (case va of
           Va32 arg # va' \<Rightarrow>
             around (padc file (pad sp) (leftalign sp)) (\<lambda>s. Some (putc file (char_of (unat arg)) s))
               (padc file (pad sp) (\<not> leftalign sp)) va' s
         | _ \<Rightarrow> Some Va_fault)
      else if c = CHR ''u'' then print_int32 file sp 10 (\<lambda>n s. Some (putu file n s)) va s
      else if c = CHR ''i'' \<or> c = CHR ''d'' then print_int32 file sp 10 (putd file) va s
      else if c = CHR ''p'' \<or> c = CHR ''x'' then print_int32 file sp 16 (\<lambda>n s. Some (putx file n s)) va s
      else if c = CHR ''X'' then print_int32 file sp 16 (\<lambda>n s. Some (putX file n s)) va s
      else if c = CHR ''s'' then
        (case va of
           Va_str str # va' \<Rightarrow>
             around (pads file str (pad sp) (leftalign sp)) (\<lambda>s. Some (puts file str s))
               (pads file str (pad sp) (\<not> leftalign sp)) va' s
         | _ \<Rightarrow> Some Va_fault)
      else Some (Format_error s))"

definition directive_l :: "bool \<Rightarrow> 's file_itf \<Rightarrow> pad_spec \<Rightarrow> char \<Rightarrow> va_arg list \<Rightarrow> 's \<Rightarrow> 's printed option" where
  "directive_l with_64bit file sp c va s =
     (if c = CHR ''l'' \<or> c = CHR ''d'' then print_int64 with_64bit file sp 10 (putll file) va s
      else if c = CHR ''u'' then print_int64 with_64bit file sp 10 (putlu file) va s
      else if c = CHR ''x'' then print_int64 with_64bit file sp 16 (putlx file) va s
      else if c = CHR ''X'' then print_int64 with_64bit file sp 16 (putlX file) va s
      else Some (Format_error s))"

text \<open>Everything after a percent sign, with the format that is left.\<close>

definition directives :: "bool \<Rightarrow> 's file_itf \<Rightarrow> string \<Rightarrow> va_arg list \<Rightarrow> 's \<Rightarrow> (string \<times> 's printed) option" where
  "directives with_64bit file format va s =
     (case parse_spec format va \<lparr>leftalign = False, zlead = False, pad = 0\<rparr> of
        None \<Rightarrow> Some (format, Va_fault)
      | Some (format', va', sp) \<Rightarrow>
          let sp' = (if leftalign sp then sp\<lparr>zlead := False\<rparr> else sp)
          in case format' of
               [] \<Rightarrow> Some ([], Format_error s)
             | c # rest \<Rightarrow>
                 if c = CHR ''l'' then
                   case rest of
                     [] \<Rightarrow> Some ([], Format_error s)
                   | d # rest' \<Rightarrow> map_option (Pair rest') (directive_l with_64bit file sp' d va' s)
                 else map_option (Pair rest) (directive file sp' c va' s))"

lemma parse_spec_shorter: "parse_spec format va sp = Some (rest, va', sp') \<Longrightarrow> length rest \<le> length format"
proof (induction format va sp rule: parse_spec.induct)
  case (2 c format va sp)
  have "length (dropWhile isdigit format) \<le> length format" by (rule length_dropWhile_le)
  with 2 show ?case by (fastforce split: if_splits list.splits va_arg.splits)
qed simp

lemma directives_shorter:
  "directives with_64bit file format va s = Some (rest, Printed k va' s') \<Longrightarrow> length rest \<le> length format"
  by (fastforce simp: directives_def Let_def dest: parse_spec_shorter split: option.splits list.splits if_splits)

text \<open>\<open>None\<close> is a call that does not return, \<open>Some None\<close> a fault in the arguments.\<close>

function vfprintf_loop :: "bool \<Rightarrow> 's file_itf \<Rightarrow> string \<Rightarrow> va_arg list \<Rightarrow> u32 \<Rightarrow> 's \<Rightarrow> (u32 \<times> 's) option option" where
  "vfprintf_loop with_64bit file [] va l s = Some (Some (l, s))"
| "vfprintf_loop with_64bit file (c # format) va l s =
     (if c = CHR ''%'' then
        case directives with_64bit file format va s of
          None \<Rightarrow> None
        | Some (rest, Va_fault) \<Rightarrow> Some None
        | Some (rest, Format_error s') \<Rightarrow> Some (Some (- 1, s'))
        | Some (rest, Printed k va' s') \<Rightarrow> vfprintf_loop with_64bit file rest va' (l + k) s'
      else case putc file c s of (k, s') \<Rightarrow> vfprintf_loop with_64bit file format va (l + k) s')"
  by pat_completeness auto
termination
  by (relation "measure (\<lambda>(with_64bit, file, format, va, l, s). length format)")
    (auto dest: directives_shorter)

definition vfprintf :: "bool \<Rightarrow> 's file_itf \<Rightarrow> string \<Rightarrow> va_arg list \<Rightarrow> 's \<Rightarrow> (u32 \<times> 's) option option" where
  "vfprintf with_64bit file format va s = vfprintf_loop with_64bit file format va 0 s"

definition fprintf :: "bool \<Rightarrow> 's file_itf \<Rightarrow> string \<Rightarrow> va_arg list \<Rightarrow> 's \<Rightarrow> (u32 \<times> 's) option option" where
  "fprintf with_64bit file format va s = vfprintf with_64bit file format va s"

end
