(* ===== verification/Printf_Spec.thy ===== *)
theory Printf_Spec
  imports Printf
begin

text \<open>
  What formatted output prints: the digits of a number in its base, the field of a directive with
  its padding, and the text of a whole format. The specification knows nothing of words, divisors or
  lengths; the routines of \<open>Printf\<close> are shown to print it on every file that takes all it is given.
\<close>

section \<open>Digits\<close>

fun radix :: "nat \<Rightarrow> nat \<Rightarrow> nat list" where
  "radix B n = (if B < 2 \<or> n < B then [n] else radix B (n div B) @ [n mod B])"

declare radix.simps [simp del]

definition decimal :: "nat \<Rightarrow> string" where
  "decimal n = map (\<lambda>d. char_of (48 + d)) (radix 10 n)"

definition hex_char :: "nat \<Rightarrow> nat \<Rightarrow> char" where
  "hex_char a d = char_of (d + (if d < 10 then 48 else a - 10))"

definition hexadecimal :: "nat \<Rightarrow> nat \<Rightarrow> string" where
  "hexadecimal a n = map (hex_char a) (radix 16 n)"

text \<open>Both loops print the digits from the highest place down and leave out leading zeros.\<close>

fun emit :: "nat \<Rightarrow> nat \<Rightarrow> nat \<Rightarrow> bool \<Rightarrow> nat list" where
  "emit B n 0 started = [n mod B]"
| "emit B n (Suc k) started =
     (let h = n div B ^ Suc k mod B
      in if h \<noteq> 0 \<or> started then h # emit B n k True else emit B n k False)"

lemma emit_started:
  assumes "2 \<le> B" and "0 < n div B ^ Suc k"
  shows "radix B (n div B ^ Suc k) @ emit B n k True = radix B n"
  using assms(2)
proof (induction k)
  case 0
  then have "\<not> n < B" using assms(1) by (auto simp: div_eq_0_iff)
  then show ?case using assms(1) by (subst (2) radix.simps) simp
next
  case (Suc k)
  let ?m = "n div B ^ Suc k"
  have m: "?m div B = n div B ^ Suc (Suc k)"
    by (simp only: div_mult2_eq [symmetric]) (simp add: mult.commute mult.left_commute)
  then have "\<not> ?m < B" using Suc.prems by (metis div_less less_irrefl)
  then have "radix B ?m = radix B (n div B ^ Suc (Suc k)) @ [?m mod B]"
    using assms(1) m by (subst radix.simps) simp
  moreover have "0 < ?m" using \<open>\<not> ?m < B\<close> assms(1) by linarith
  ultimately show ?case using Suc.IH by (simp add: Let_def)
qed

lemma emit_radix: "2 \<le> B \<Longrightarrow> n < B ^ Suc k \<Longrightarrow> emit B n k False = radix B n"
proof (induction k)
  case 0
  then show ?case by (simp add: radix.simps [of B n])
next
  case (Suc k)
  let ?h = "n div B ^ Suc k"
  have h: "?h < B" using Suc.prems by (simp add: less_mult_imp_div_less mult.commute)
  show ?case
  proof (cases "?h = 0")
    case True
    then have "n < B ^ Suc k" using Suc.prems(1) by (simp add: div_eq_0_iff)
    then show ?thesis using Suc True by (simp add: Let_def)
  next
    case False
    then have "radix B ?h @ emit B n k True = radix B n" using Suc.prems(1) by (intro emit_started) auto
    moreover have "radix B ?h = [?h]" using h by (subst radix.simps) (simp del: power_Suc)
    ultimately show ?thesis using False h by (simp add: Let_def)
  qed
qed

lemma radix_digits: "2 \<le> B \<Longrightarrow> \<forall>d \<in> set (radix B n). d < B"
  by (induction B n rule: radix.induct) (subst radix.simps, auto)

lemma radix_nonempty [simp]: "radix B n \<noteq> []"
  by (subst radix.simps) simp

lemma radix_length_bound: "2 \<le> B \<Longrightarrow> n < B ^ Suc k \<Longrightarrow> length (radix B n) \<le> Suc k"
proof (induction k arbitrary: n)
  case 0
  then show ?case by (simp add: radix.simps [of B n])
next
  case (Suc k)
  have "n div B < B ^ Suc k" using Suc.prems by (simp add: less_mult_imp_div_less mult.commute)
  then show ?case using Suc by (subst radix.simps) simp
qed

lemma rev_value_digits:
  "\<forall>d \<in> set ds. d < 10 \<Longrightarrow> rev_value (map (\<lambda>d. char_of (48 + d)) ds) = foldr (\<lambda>d v. d + 10 * v) ds 0"
  by (induction ds) (auto simp: digit_def char_code_def)

lemma radix_value: "2 \<le> B \<Longrightarrow> foldr (\<lambda>d v. d + B * v) (rev (radix B n)) 0 = n"
proof (induction B n rule: radix.induct)
  case (1 B n)
  then show ?case by (subst radix.simps) simp
qed

lemma dec_value_decimal [simp]: "dec_value (decimal n) = n"
  using rev_value_digits [of "rev (radix 10 n)"] radix_value [of 10 n] radix_digits [of 10 n]
  by (simp add: dec_value_def decimal_def rev_map)

lemma isnum_digit: "d < 10 \<Longrightarrow> isnum (char_of (48 + d :: nat))"
  by (simp add: isnum_def char_code_def)

lemma decimal_digits: "list_all isnum (decimal n)" "decimal n \<noteq> []"
  using radix_digits [of 10 n] by (auto simp: decimal_def list_all_iff intro: isnum_digit)
section \<open>Files that take all they are given\<close>

text \<open>
  \<open>ok\<close> is what has to hold of the state for the file to work, \<open>out\<close> what has been written so far.
  A routine \<open>f\<close> prints a string when it adds it to the text and answers its length.
\<close>

definition text_sink :: "('s \<Rightarrow> bool) \<Rightarrow> ('s \<Rightarrow> string) \<Rightarrow> 's file_itf \<Rightarrow> bool" where
  "text_sink ok out file \<longleftrightarrow>
     (\<forall>str s. ok s \<and> CHR 0x00 \<notin> set str \<longrightarrow>
        fst (puts file str s) = word_of_nat (length str) \<and> ok (snd (puts file str s)) \<and>
        out (snd (puts file str s)) = out s @ str)"

definition prints :: "('s \<Rightarrow> bool) \<Rightarrow> ('s \<Rightarrow> string) \<Rightarrow> ('s \<Rightarrow> u32 \<times> 's) \<Rightarrow> string \<Rightarrow> bool" where
  "prints ok out f str \<longleftrightarrow>
     (\<forall>s. ok s \<longrightarrow> fst (f s) = word_of_nat (length str) \<and> ok (snd (f s)) \<and> out (snd (f s)) = out s @ str)"

lemma printsI:
  "(\<And>s. ok s \<Longrightarrow> fst (f s) = word_of_nat (length str) \<and> ok (snd (f s)) \<and> out (snd (f s)) = out s @ str)
   \<Longrightarrow> prints ok out f str"
  by (simp add: prints_def)

lemma printsD:
  assumes "prints ok out f str" and "ok s" and "f s = (l, s')"
  shows "l = word_of_nat (length str)" and "ok s'" and "out s' = out s @ str"
  using assms by (auto simp: prints_def)

lemma prints_nothing [simp]: "prints ok out (Pair 0) []"
  by (simp add: prints_def)

lemma sink_puts: "text_sink ok out file \<Longrightarrow> CHR 0x00 \<notin> set str \<Longrightarrow> prints ok out (puts file str) str"
  by (simp add: text_sink_def prints_def)

lemma sink_putc:
  assumes "text_sink ok out file" and "c \<noteq> CHR 0x00"
  shows "prints ok out (putc file c) [c]"
proof -
  have "putc file c = puts file [c]"
    using assms(2) by (intro ext) (simp add: putc_def puts_def split: file_itf.split)
  then show ?thesis using sink_puts [OF assms(1), of "[c]"] assms(2) by simp
qed

lemma sink_pad_loop:
  assumes "text_sink ok out file" and "c \<noteq> CHR 0x00" and "ok s"
  shows "fst (pad_loop file c n l s) = l + word_of_nat n \<and> ok (snd (pad_loop file c n l s)) \<and>
    out (snd (pad_loop file c n l s)) = out s @ replicate n c"
  using assms(3)
proof (induction n arbitrary: l s)
  case (Suc n)
  obtain k s' where p: "putc file c s = (k, s')" by (cases "putc file c s")
  note c = printsD [OF sink_putc [OF assms(1,2)] Suc.prems p]
  show ?case using Suc.IH [OF c(2), of "l + k"] c p by (simp add: algebra_simps)
qed simp

lemma prints_pad: "text_sink ok out file \<Longrightarrow> c \<noteq> CHR 0x00 \<Longrightarrow> prints ok out (pad_loop file c n 0) (replicate n c)"
  using sink_pad_loop [of ok out "file" c _ n 0] by (auto intro!: printsI)

section \<open>Numbers\<close>

lemma char_of_nonzero:
  assumes "0 < n" and "n < 256"
  shows "char_of (n :: nat) \<noteq> CHR 0x00"
proof
  assume "char_of n = CHR 0x00"
  then have "of_char (char_of n) = (0 :: nat)" by simp
  then show False using assms by simp
qed

lemma putu_loop_emit:
  assumes "unat (10 :: 'a word) = 10" and "unat (d :: 'a::len word) = 10 ^ k"
  shows "putu_loop file n d l s =
    (let ds = emit 10 (unat n) k (l \<noteq> 0)
     in (l + length ds, fold (\<lambda>d s. snd (putc file (char_of (48 + d)) s)) ds s))"
  using assms(2)
proof (induction k arbitrary: d l s)
  case 0
  then have d: "d = 1" by (metis power_0 unat_1 word_unat_eq_iff)
  then have "d div 10 = 0" using assms(1) by (simp add: word_arith_nat_div)
  then have "putu_loop file n (d div 10) l' s' = (l', s')" for l' s' by (simp add: putu_loop.simps [of "file" n 0])
  then show ?case using d assms(1)
    by (subst putu_loop.simps) (simp add: unat_mod_distrib unat_div_distrib char_code_def)
next
  case (Suc k)
  have d': "unat (d div 10) = 10 ^ k" using Suc.prems assms(1) by (simp add: unat_div_distrib)
  have h: "unat ((n div d) mod 10) = unat n div 10 ^ Suc k mod 10"
    using Suc.prems assms(1) by (simp add: unat_mod_distrib unat_div_distrib)
  then have h0: "(n div d) mod 10 = 0 \<longleftrightarrow> unat n div 10 ^ Suc k mod 10 = 0"
    by (metis unat_eq_0)
  have "Suc 0 < 10 * 10 ^ k" by (rule less_le_trans [of _ "10 * 1"]) simp_all
  then have "d \<ge> 1" "\<not> d \<le> 1" using Suc.prems by (simp_all add: word_le_nat_alt)
  then show ?case using Suc.IH [OF d'] h h0
    by (subst putu_loop.simps) (simp add: Let_def char_code_def)
qed
lemma sink_fold:
  assumes "text_sink ok out file" and "\<forall>c \<in> set cs. c \<noteq> CHR 0x00" and "ok s"
  shows "ok (fold (\<lambda>c s. snd (putc file c s)) cs s) \<and> out (fold (\<lambda>c s. snd (putc file c s)) cs s) = out s @ cs"
  using assms(2,3)
proof (induction cs arbitrary: s)
  case (Cons c cs)
  obtain k s' where p: "putc file c s = (k, s')" by (cases "putc file c s")
  show ?case
    using Cons.IH [of s'] Cons.prems p printsD [OF sink_putc [OF assms(1)] Cons.prems(2) p] by simp
qed simp

lemma decimal_chars: "\<forall>c \<in> set (decimal n). c \<noteq> CHR 0x00"
proof
  fix c assume "c \<in> set (decimal n)"
  then obtain d :: nat where "c = char_of (48 + d)" "d < 10"
    using radix_digits [of 10 n] by (auto simp: decimal_def)
  then show "c \<noteq> CHR 0x00" using char_of_nonzero [of "48 + d"] by simp
qed

lemma putu_loop_prints:
  assumes "text_sink ok out file" and "unat (10 :: 'a word) = 10" and "unat (d :: 'a::len word) = 10 ^ k"
    and "unat n < 10 ^ Suc k" and "ok s" and "putu_loop file n d 0 s = (l, s')"
  shows "l = length (decimal (unat n)) \<and> ok s' \<and> out s' = out s @ decimal (unat n)"
proof -
  have "putu_loop file n d 0 s = (length (decimal (unat n)),
      fold (\<lambda>c s. snd (putc file c s)) (decimal (unat n)) s)"
    using putu_loop_emit [OF assms(2,3), of "file" n 0 s] emit_radix [of 10 "unat n" k] assms(4)
    by (simp add: Let_def decimal_def fold_map comp_def)
  then show ?thesis using sink_fold [OF assms(1) decimal_chars assms(5)] assms(6) by simp
qed

lemma prints_putu:
  assumes "text_sink ok out file"
  shows "prints ok out (putu file n) (decimal (unat n))"
proof (rule printsI)
  fix s assume s: "ok s"
  obtain l s' where p: "putu_loop file n 1000000000 0 s = (l, s')" by (cases "putu_loop file n 1000000000 0 s")
  show "fst (putu file n s) = word_of_nat (length (decimal (unat n))) \<and> ok (snd (putu file n s)) \<and>
      out (snd (putu file n s)) = out s @ decimal (unat n)"
    using putu_loop_prints [OF assms _ _ _ s p, of 9] less_trans [OF unat_u32_less [of n]] p
    by (simp add: putu_def)
qed

lemma prints_putlu:
  assumes "text_sink ok out file" and "unat n < 10 ^ 19"
  shows "prints ok out (putlu file n) (decimal (unat n))"
proof (rule printsI)
  fix s assume s: "ok s"
  obtain l s' where p: "putu_loop file n (1000000000 * 1000000000) 0 s = (l, s')"
    by (cases "putu_loop file n (1000000000 * 1000000000) 0 s")
  show "fst (putlu file n s) = word_of_nat (length (decimal (unat n))) \<and> ok (snd (putlu file n s)) \<and>
      out (snd (putlu file n s)) = out s @ decimal (unat n)"
    using putu_loop_prints [OF assms(1) _ _ _ s p, of 18] assms(2) p
    by (simp add: putlu_def)
qed

text \<open>The hexadecimal loop sums up what the writes answer; on a sink that is 1 for every digit.\<close>

lemma hex_nibble: "unat (drop_bit (4 * k) n AND 15) = unat n div 16 ^ k mod 16"
proof -
  have "drop_bit (4 * k) n AND (15 :: 'a::len word) = take_bit 4 (drop_bit (4 * k) n)"
    by (simp add: take_bit_eq_mask mask_eq_exp_minus_1)
  then have "unat (drop_bit (4 * k) n AND 15) = take_bit 4 (drop_bit (4 * k) (unat n))"
    by (simp only: unsigned_take_bit_eq unat_drop_bit_eq)
  also have "\<dots> = unat n div 16 ^ k mod 16"
    by (simp add: take_bit_eq_mod drop_bit_eq_div power_mult)
  finally show ?thesis .
qed

lemma hex_char_nonzero: "d < 16 \<Longrightarrow> 17 \<le> a \<Longrightarrow> a < 240 \<Longrightarrow> hex_char a d \<noteq> CHR 0x00"
  unfolding hex_char_def by (rule char_of_nonzero) auto

lemma putxX_loop_step:
  "putxX_loop file n a (4 * k # shs) l s =
     (let x = unat n div 16 ^ k mod 16
      in if x \<noteq> 0 \<or> l \<noteq> 0 \<or> k = 0 then
           (case putc file (hex_char (char_code a) x) s of (j, s') \<Rightarrow> putxX_loop file n a shs (l + j) s')
         else putxX_loop file n a shs l s)"
  by (simp add: hex_nibble hex_char_def char_code_def Let_def)

declare putxX_loop.simps(2) [simp del]

lemma putxX_loop_emit:
  assumes "text_sink ok out file" and "ok s" and "j + Suc k < 2 ^ 32"
    and "17 \<le> char_code a" and "char_code a < 240"
  shows "\<exists>s'. putxX_loop file n a (map ((*) 4) (rev [0..<Suc k])) (word_of_nat j) s =
      (word_of_nat (j + length (emit 16 (unat n) k (j \<noteq> 0))), s') \<and> ok s' \<and>
    out s' = out s @ map (hex_char (char_code a)) (emit 16 (unat n) k (j \<noteq> 0))"
  using assms(2,3)
proof (induction k arbitrary: j s)
  case 0
  let ?c = "hex_char (char_code a) (unat n mod 16)"
  have c: "?c \<noteq> CHR 0x00" using assms(4,5) by (intro hex_char_nonzero) auto
  obtain l s' where p: "putc file ?c s = (l, s')" by (cases "putc file ?c s")
  then show ?case
    using printsD [OF sink_putc [OF assms(1) c] 0(1) p] putxX_loop_step [of "file" n a 0 "[]" "word_of_nat j" s]
    by (simp add: Let_def)
next
  case (Suc k)
  let ?d = "unat n div 16 ^ Suc k mod 16"
  let ?c = "hex_char (char_code a) ?d"
  have c: "?c \<noteq> CHR 0x00" using assms(4,5) by (intro hex_char_nonzero) auto
  obtain l s' where p: "putc file ?c s = (l, s')" by (cases "putc file ?c s")
  note put = printsD [OF sink_putc [OF assms(1) c] Suc.prems(1) p]
  have "(word_of_nat j :: u32) = 0 \<longleftrightarrow> j = 0"
    using Suc.prems(2) by (auto simp: word_of_nat_eq_0_iff dest: nat_dvd_not_less)
  moreover have "word_of_nat j + 1 = (word_of_nat (Suc j) :: u32)" by simp
  moreover have "map ((*) 4) (rev [0..<Suc (Suc k)]) = 4 * Suc k # map ((*) 4) (rev [0..<Suc k])" by simp
  ultimately show ?case
    using p put Suc.IH [of s j] Suc.IH [OF put(2), of "Suc j"] Suc.prems
    by (simp only: putxX_loop_step) (auto simp: Let_def add.commute add.left_commute)
qed
lemma prints_putxX:
  assumes "text_sink ok out file" and "17 \<le> char_code a" and "char_code a < 240"
  shows "prints ok out (putxX file n a) (hexadecimal (char_code a) (unat n))"
proof (rule printsI)
  fix s assume "ok s"
  moreover have "[28, 24, 20, 16, 12, 8, 4, 0] = map ((*) 4) (rev [0..<Suc 7])"
    by (simp add: upt_rec)
  moreover have "emit 16 (unat n) 7 False = radix 16 (unat n)"
    using unat_u32_less [of n] by (intro emit_radix) simp_all
  ultimately show "fst (putxX file n a s) = word_of_nat (length (hexadecimal (char_code a) (unat n))) \<and>
      ok (snd (putxX file n a s)) \<and> out (snd (putxX file n a s)) = out s @ hexadecimal (char_code a) (unat n)"
    using putxX_loop_emit [OF assms(1) _ _ assms(2,3), of s 0 7 n] by (auto simp: putxX_def hexadecimal_def)
qed

text \<open>A signed number that is not the most negative one.\<close>

definition signed_decimal :: "u32 \<Rightarrow> string" where
  "signed_decimal n = (if sint n \<ge> 0 then decimal (unat n) else CHR ''-'' # decimal (unat (- n)))"

definition putd_total :: "'s file_itf \<Rightarrow> u32 \<Rightarrow> 's \<Rightarrow> u32 \<times> 's" where
  "putd_total file n s =
     (if sint n \<ge> 0 then putu file n s
      else case putc file (CHR ''-'') s of (l, s') \<Rightarrow> (case putu file (- n) s' of (k, s'') \<Rightarrow> (l + k, s'')))"

lemma putd_eq: "n \<noteq> 0x80000000 \<Longrightarrow> putd file n s = Some (putd_total file n s)"
  using sint_minus_nonneg [of n]
  by (auto simp: putd_total_def putd.simps [of "file" n] putd.simps [of "file" "- n"] split: prod.split)

lemma prints_putd:
  assumes "text_sink ok out file"
  shows "prints ok out (putd_total file n) (signed_decimal n)"
proof (rule printsI)
  fix s assume s: "ok s"
  obtain l s' where p: "putc file (CHR ''-'') s = (l, s')" by (cases "putc file (CHR ''-'') s")
  note minus = printsD [OF sink_putc [OF assms] s p]
  obtain k s'' where q: "putu file (- n) s' = (k, s'')" by (cases "putu file (- n) s'")
  obtain k' t where r: "putu file n s = (k', t)" by (cases "putu file n s")
  show "fst (putd_total file n s) = word_of_nat (length (signed_decimal n)) \<and> ok (snd (putd_total file n s)) \<and>
      out (snd (putd_total file n s)) = out s @ signed_decimal n"
    using minus p q r printsD [OF prints_putu [OF assms] minus(2) q] printsD [OF prints_putu [OF assms] s r]
    by (auto simp: putd_total_def signed_decimal_def)
qed

section \<open>Fields\<close>

text \<open>The length the padding counts with is the number of characters a number takes.\<close>

lemma nstrlen_loop_radix:
  assumes "1 < B"
  shows "nstrlen_loop (int n) (int B) ret + 1 = ret + word_of_nat (length (radix B n))"
  using assms
proof (induction B n arbitrary: ret rule: radix.induct)
  case (1 B n)
  have "int n sdiv int B = int (n div B)" using 1(2) by (simp add: signed_divide_int_def zdiv_int sgn_if)
  moreover have "0 < n div B \<longleftrightarrow> \<not> n < B" using 1(2) by (auto simp: div_greater_zero_iff)
  ultimately show ?case
    using 1 by (subst nstrlen_loop.simps, subst radix.simps) (auto simp: Let_def algebra_simps)
qed

lemma nstrlen32_nonneg:
  assumes "0 \<le> sint n" and "1 < B"
  shows "nstrlen32 n (int B) = word_of_nat (length (radix B (unat n)))"
proof -
  have "sint n = int (unat n)" using assms(1) by (rule sint_nonneg_u32)
  then show ?thesis
    using assms nstrlen_loop_radix [OF assms(2), of "unat n" 1] by (simp add: nstrlen32_def algebra_simps)
qed

lemma nstrlen32_neg:
  assumes "sint n < 0" and "n \<noteq> 0x80000000" and "1 < B"
  shows "nstrlen32 n (int B) = word_of_nat (Suc (length (radix B (unat (- n)))))"
proof -
  have "sint (- n) = int (unat (- n))"
    using sint_minus_nonneg [OF assms(1,2)] by (rule sint_nonneg_u32)
  then show ?thesis
    using assms nstrlen_loop_radix [OF assms(3), of "unat (- n)" 2] by (simp add: nstrlen32_def algebra_simps)
qed
lemma nstrlen32_small:
  assumes "1 < B"
  shows "\<exists>k < 2 ^ 31. nstrlen32 n (int B) = word_of_nat k"
proof -
  have short: "length (radix B m) < 2 ^ 31 - 1" if "m < 2 ^ 32" for m
  proof -
    have "2 ^ 32 \<le> B ^ 32" using assms by (intro power_mono) auto
    then have "length (radix B m) \<le> Suc 31"
      using assms that by (intro radix_length_bound) auto
    then show ?thesis by simp
  qed
  have n: "unat n < 2 ^ 32" "unat (- n) < 2 ^ 32" by simp_all
  consider "0 \<le> sint n" | "n = 0x80000000" | "sint n < 0" "n \<noteq> 0x80000000" by linarith
  then show ?thesis
  proof cases
    case 1
    then show ?thesis using nstrlen32_nonneg [OF 1 assms] short [OF n(1)] by (intro exI [of _ "length (radix B (unat n))"]) simp
  next
    case 2
    have "\<not> 0 < sint (0x80000000 :: u32) sdiv int B"
      using assms by (simp add: signed_divide_int_def sgn_if not_less pos_imp_zdiv_nonneg_iff)
    then have "nstrlen32 n (int B) = word_of_nat 2"
      using 2 by (simp add: nstrlen32_def nstrlen_loop.simps)
    then show ?thesis by (intro exI [of _ 2]) simp
  next
    case 3
    then show ?thesis using nstrlen32_neg [OF 3 assms] short [OF n(2)]
      by (intro exI [of _ "Suc (length (radix B (unat (- n))))"]) simp
  qed
qed

definition padding :: "nat \<Rightarrow> char \<Rightarrow> string \<Rightarrow> string" where
  "padding w c body = replicate (w - length body) c"

text \<open>What the three writes of a directive come to: the padding before the body or behind it.\<close>

definition padded :: "bool \<Rightarrow> bool \<Rightarrow> nat \<Rightarrow> string \<Rightarrow> string" where
  "padded left zero w body =
     (if left then body @ padding w (CHR '' '') body
      else padding w (if zero then CHR ''0'' else CHR '' '') body @ body)"

lemma prints_padn32:
  assumes "text_sink ok out file" and "1 < B" and "w < 2 ^ 31" and "length body < 2 ^ 31"
    and "w = 0 \<or> nstrlen32 n (int B) = word_of_nat (length body)"
  shows "prints ok out (padn32 file n (int B) (word_of_nat w) zero left)
    (if left then [] else padding w (if zero then CHR ''0'' else CHR '' '') body)"
proof -
  obtain k where k: "k < 2 ^ 31" "nstrlen32 n (int B) = word_of_nat k" "w - k = w - length body"
    using assms(4,5) nstrlen32_small [OF assms(2), of n] by auto
  then have "nat (sint (word_of_nat w - nstrlen32 n (int B))) = w - length body"
    using nat_sint_diff_u32 [OF assms(3) k(1)] by simp
  moreover have "(if zero then CHR ''0'' else CHR '' '') \<noteq> CHR 0x00" by simp
  ultimately show ?thesis
    using prints_pad [OF assms(1), of "if zero then CHR ''0'' else CHR '' ''" "w - length body"]
    by (auto simp: padn32_def padding_def prints_def)
qed

lemma prints_pads:
  assumes "text_sink ok out file" and "w < 2 ^ 31" and "length str < 2 ^ 31"
  shows "prints ok out (pads file str (word_of_nat w) left) (if left then [] else padding w (CHR '' '') str)"
  using prints_pad [OF assms(1), of "CHR '' ''" "w - length str"] nat_sint_diff_u32 [OF assms(2,3)]
  by (auto simp: pads_def padding_def prints_def)

lemma prints_padc:
  assumes "text_sink ok out file" and "w < 2 ^ 31"
  shows "prints ok out (padc file (word_of_nat w) left) (if left then [] else padding w (CHR '' '') [c])"
  using prints_pad [OF assms(1), of "CHR '' ''" "w - 1"] nat_sint_diff_u32 [OF assms(2), of 1]
  by (auto simp: padc_def padding_def prints_def)

lemma around_prints:
  assumes "prints ok out f a" and "prints ok out g b" and "prints ok out h c" and "ok s"
  shows "\<exists>s'. around f (\<lambda>s. Some (g s)) h va s = Some (Printed (word_of_nat (length (a @ b @ c))) va s') \<and>
    ok s' \<and> out s' = out s @ a @ b @ c"
proof -
  obtain l1 s1 where 1: "f s = (l1, s1)" by (cases "f s")
  obtain l2 s2 where 2: "g s1 = (l2, s2)" by (cases "g s1")
  obtain l3 s3 where 3: "h s2 = (l3, s3)" by (cases "h s2")
  note p = printsD [OF assms(1,4) 1]
  note q = printsD [OF assms(2) p(2) 2]
  note r = printsD [OF assms(3) q(2) 3]
  show ?thesis using 1 2 3 p q r by (simp add: around_def)
qed

lemma print_int32_field:
  assumes "text_sink ok out file" and "prints ok out g body" and "put arg = (\<lambda>s. Some (g s))"
    and "1 < B" and "w < 2 ^ 31" and "length body < 2 ^ 31"
    and "w = 0 \<or> nstrlen32 arg (int B) = word_of_nat (length body)" and "ok s" and "\<not> (left \<and> zero)"
  shows "\<exists>s'. print_int32 file \<lparr>leftalign = left, zlead = zero, pad = word_of_nat w\<rparr> (int B) put (Va32 arg # va) s =
      Some (Printed (word_of_nat (length (padded left zero w body))) va s') \<and>
    ok s' \<and> out s' = out s @ padded left zero w body"
  using around_prints [OF prints_padn32 [OF assms(1,4-7), of zero left] assms(2)
      prints_padn32 [OF assms(1,4-7), of zero "\<not> left"] assms(8), of va] assms(3,9)
  by (cases left) (simp_all add: print_int32_def padded_def)
section \<open>Formats\<close>

text \<open>A format is a list of literal characters, percent signs and values with their flags and width.\<close>

datatype printable = Unsigned u32 | Signed u32 | Hex u32 | HEX u32 | Text string | Letter char

datatype item = Literal char | Percent | Directive bool bool nat printable

fun letter :: "printable \<Rightarrow> char" where
  "letter (Unsigned n) = CHR ''u''"
| "letter (Signed n) = CHR ''d''"
| "letter (Hex n) = CHR ''x''"
| "letter (HEX n) = CHR ''X''"
| "letter (Text str) = CHR ''s''"
| "letter (Letter c) = CHR ''c''"

fun argument :: "printable \<Rightarrow> va_arg" where
  "argument (Unsigned n) = Va32 n"
| "argument (Signed n) = Va32 n"
| "argument (Hex n) = Va32 n"
| "argument (HEX n) = Va32 n"
| "argument (Text str) = Va_str str"
| "argument (Letter c) = Va32 (word_of_nat (char_code c))"

fun value_sign :: "printable \<Rightarrow> string" where
  "value_sign (Signed n) = (if sint n < 0 then ''-'' else [])"
| "value_sign _ = []"

fun value_digits :: "printable \<Rightarrow> string" where
  "value_digits (Unsigned n) = decimal (unat n)"
| "value_digits (Signed n) = decimal (nat \<bar>sint n\<bar>)"
| "value_digits (Hex n) = hexadecimal 97 (unat n)"
| "value_digits (HEX n) = hexadecimal 65 (unat n)"
| "value_digits (Text str) = str"
| "value_digits (Letter c) = [c]"

definition printed_value :: "printable \<Rightarrow> string" where
  "printed_value v = value_sign v @ value_digits v"

fun numeric :: "printable \<Rightarrow> bool" where
  "numeric (Text str) = False"
| "numeric (Letter c) = False"
| "numeric _ = True"

fun item_format :: "item \<Rightarrow> string" where
  "item_format (Literal c) = [c]"
| "item_format Percent = ''%%''"
| "item_format (Directive left zero w v) =
     ''%'' @ (if left then ''-'' else []) @ (if zero then ''0'' else []) @
       (if w = 0 then [] else decimal w) @ [letter v]"

fun item_args :: "item \<Rightarrow> va_arg list" where
  "item_args (Directive left zero w v) = [argument v]"
| "item_args _ = []"

text \<open>
  The field of the C standard: spaces on the right, zeros between the sign and the digits, or spaces on the left,
  until the width is reached.
\<close>

definition field :: "bool \<Rightarrow> bool \<Rightarrow> nat \<Rightarrow> printable \<Rightarrow> string" where
  "field left zero w v =
     (let gap = w - length (printed_value v)
      in if left then printed_value v @ replicate gap (CHR '' '')
         else if zero then value_sign v @ replicate gap (CHR ''0'') @ value_digits v
         else replicate gap (CHR '' '') @ printed_value v)"

fun item_text :: "item \<Rightarrow> string" where
  "item_text (Literal c) = [c]"
| "item_text Percent = ''%''"
| "item_text (Directive left zero w v) = field left (zero \<and> \<not> left \<and> numeric v) w v"

text \<open>
  What an item needs to come out right: no null characters, widths of at most five digits, which \<open>atoi\<close> can read, not the most
  negative number, no width for an unsigned number that the padding takes for negative, and no zeros to be put
  in front of a negative number. The lemmas at the end of the theory show what comes out in the last two cases.
\<close>

fun value_ok :: "nat \<Rightarrow> printable \<Rightarrow> bool" where
  "value_ok w (Unsigned n) = (w = 0 \<or> unat n < 2 ^ 31)"
| "value_ok w (Signed n) = (n \<noteq> 0x80000000)"
| "value_ok w (Hex n) = (w = 0 \<or> unat n < 2 ^ 31)"
| "value_ok w (HEX n) = (w = 0 \<or> unat n < 2 ^ 31)"
| "value_ok w (Text str) = (CHR 0x00 \<notin> set str \<and> length str < 2 ^ 31)"
| "value_ok w (Letter c) = (c \<noteq> CHR 0x00)"

fun item_ok :: "item \<Rightarrow> bool" where
  "item_ok (Literal c) = (c \<noteq> CHR ''%'' \<and> c \<noteq> CHR 0x00)"
| "item_ok Percent = True"
| "item_ok (Directive left zero w v) =
     (w < 100000 \<and> value_ok w v \<and> (left \<or> \<not> zero \<or> value_sign v = [] \<or> w \<le> length (printed_value v)))"

lemma printed_value_simps [simp]:
  "printed_value (Unsigned n) = decimal (unat n)" "printed_value (Signed n) = signed_decimal n"
  "printed_value (Hex n) = hexadecimal 97 (unat n)" "printed_value (HEX n) = hexadecimal 65 (unat n)"
  "printed_value (Text str) = str" "printed_value (Letter c) = [c]"
proof -
  have "nat \<bar>sint n\<bar> = (if 0 \<le> sint n then unat n else unat (- n))"
  proof (cases "0 \<le> sint n")
    case True
    then show ?thesis using sint_nonneg_u32 [OF True] by simp
  next
    case False
    then have n: "sint n = int (unat n) - 2 ^ 32" "n \<noteq> 0" by (auto simp: sint_u32 split: if_splits)
    then have "unat (- n) = 2 ^ 32 - unat n" by (intro unat_minus_u32)
    moreover have "sint n = int (unat n) - 4294967296" using n(1) by (simp only: power_numeral) simp
    then have "nat \<bar>sint n\<bar> = 4294967296 - unat n" using unat_u32_less [of n] by arith
    ultimately show ?thesis using False by simp
  qed
  then show "printed_value (Signed n) = signed_decimal n"
    by (simp add: printed_value_def signed_decimal_def)
qed (simp_all add: printed_value_def)

text \<open>Then the routines write what the standard wants.\<close>

lemma padded_field:
  assumes "left \<or> \<not> zero \<or> value_sign v = [] \<or> w \<le> length (printed_value v)"
  shows "padded left (zero \<and> \<not> left \<and> numeric v) w (printed_value v) = field left (zero \<and> \<not> left \<and> numeric v) w v"
  using assms by (auto simp: padded_def field_def padding_def Let_def) (auto simp: printed_value_def)

lemma decimal_length: "n < 10 ^ Suc k \<Longrightarrow> length (decimal n) \<le> Suc k"
  using radix_length_bound [of 10 n k] by (simp add: decimal_def)

lemma nstrlen32_unsigned:
  "unat n < 2 ^ 31 \<Longrightarrow> 1 < B \<Longrightarrow> nstrlen32 n (int B) = word_of_nat (length (radix B (unat n)))"
  using sint_u32 [of n] by (intro nstrlen32_nonneg) simp_all

lemma nstrlen32_signed:
  "n \<noteq> 0x80000000 \<Longrightarrow> nstrlen32 n 10 = word_of_nat (length (signed_decimal n))"
  using nstrlen32_nonneg [of n 10] nstrlen32_neg [of n 10]
  by (auto simp: signed_decimal_def decimal_def)

lemma radix_u32_length: "2 \<le> B \<Longrightarrow> length (radix B (unat (n::u32))) \<le> 32"
proof -
  assume B: "2 \<le> B"
  then have "2 ^ 32 \<le> B ^ 32" by (intro power_mono) auto
  then have "unat n < B ^ Suc 31" using less_le_trans [OF unat_u32_less [of n]] by simp
  with B radix_length_bound [of B "unat n" 31] show ?thesis by simp
qed

lemma printed_value_short: "value_ok w v \<Longrightarrow> length (printed_value v) < 2 ^ 31"
  using radix_u32_length [of 10] radix_u32_length [of 16]
  by (cases v) (auto simp: decimal_def hexadecimal_def signed_decimal_def
      intro: le_less_trans [of _ 32] le_less_trans [of _ 33])

lemma directive_field:
  assumes "text_sink ok out file" and "value_ok w v" and "w < 2 ^ 31" and "ok s" and "\<not> (left \<and> zero)"
  shows "\<exists>s'. directive file \<lparr>leftalign = left, zlead = zero, pad = word_of_nat w\<rparr> (letter v) (argument v # va) s =
      Some (Printed (word_of_nat (length (padded left (zero \<and> numeric v) w (printed_value v)))) va s') \<and>
    ok s' \<and> out s' = out s @ padded left (zero \<and> numeric v) w (printed_value v)"
proof (cases v)
  case (Unsigned n)
  show ?thesis
    using print_int32_field [where put = "\<lambda>n s. Some (putu file n s)" and arg = n and g = "putu file n",
        OF assms(1) prints_putu [OF assms(1)] refl, of 10 w] assms Unsigned
      nstrlen32_unsigned [of n 10] printed_value_short [OF assms(2)]
    by (auto simp: directive_def decimal_def)
next
  case (Signed n)
  then have "putd file n = (\<lambda>s. Some (putd_total file n s))"
    using assms(2) by (intro ext putd_eq) simp
  then show ?thesis
    using print_int32_field [OF assms(1) prints_putd [OF assms(1), of n], of "putd file" n 10 w] assms Signed
      nstrlen32_signed [of n] printed_value_short [OF assms(2)]
    by (auto simp: directive_def)
next
  case (Hex n)
  have "prints ok out (putx file n) (hexadecimal 97 (unat n))"
    using prints_putxX [OF assms(1), of "CHR ''a''" n] by (simp add: char_code_def putx_def [abs_def])
  from print_int32_field [where put = "\<lambda>n s. Some (putx file n s)" and arg = n, OF assms(1) this refl, of 16 w] show ?thesis
    using assms Hex nstrlen32_unsigned [of n 16] printed_value_short [OF assms(2)]
    by (auto simp: directive_def hexadecimal_def)
next
  case (HEX n)
  have "prints ok out (putX file n) (hexadecimal 65 (unat n))"
    using prints_putxX [OF assms(1), of "CHR ''A''" n] by (simp add: char_code_def putX_def [abs_def])
  from print_int32_field [where put = "\<lambda>n s. Some (putX file n s)" and arg = n, OF assms(1) this refl, of 16 w] show ?thesis
    using assms HEX nstrlen32_unsigned [of n 16] printed_value_short [OF assms(2)]
    by (auto simp: directive_def hexadecimal_def)
next
  case (Text str)
  then have str: "CHR 0x00 \<notin> set str" "length str < 2 ^ 31" using assms(2) by simp_all
  show ?thesis
    using around_prints [OF prints_pads [OF assms(1,3) str(2), of left] sink_puts [OF assms(1) str(1)]
        prints_pads [OF assms(1,3) str(2), of "\<not> left"] assms(4), of va] Text
    by (cases left) (simp_all add: directive_def padded_def)
next
  case (Letter c)
  then have c: "c \<noteq> CHR 0x00" using assms(2) by simp
  have "char_of (unat (word_of_nat (char_code c) :: u32)) = c"
    using less_trans [OF nat_of_char_less_256 [of c], of 4294967296] by (simp add: char_code_def unat_of_nat)
  then show ?thesis
    using around_prints [OF prints_padc [OF assms(1,3), of left] sink_putc [OF assms(1) c]
        prints_padc [OF assms(1,3), of "\<not> left"] assms(4), of va] Letter
    by (cases left) (simp_all add: directive_def padded_def)
qed
text \<open>Reading the flags and the width back.\<close>

lemma atoi_decimal_rest:
  assumes "w < 100000" and "rest = [] \<or> \<not> isnum (hd rest)"
  shows "atoi (decimal w @ rest) = word_of_nat w"
proof -
  have "length (decimal w) \<le> 5" using decimal_length [of w 4] assms(1) by simp
  then have "unat (atoi (decimal w @ rest)) = w"
    using atoi_digits [OF decimal_digits _ assms(2)] by simp
  then show ?thesis by (metis of_nat_unat ucast_id)
qed

lemma radix_hd: "2 \<le> B \<Longrightarrow> 0 < n \<Longrightarrow> hd (radix B n) \<noteq> 0"
proof (induction B n rule: radix.induct)
  case (1 B n)
  then show ?case by (subst radix.simps) (auto simp: div_greater_zero_iff hd_append)
qed

lemma decimal_head:
  assumes "0 < w"
  obtains d ds where "decimal w = d # ds" and "isnum d" and "d \<noteq> CHR ''0''" and "list_all isnum ds"
proof -
  obtain x xs where x: "radix 10 w = x # xs" by (cases "radix 10 w") auto
  then have "x \<noteq> 0" "x < 10" using radix_hd [of 10 w] radix_digits [of 10 w] assms by auto
  have "char_of (48 + x) \<noteq> CHR ''0''"
  proof
    assume "char_of (48 + x) = CHR ''0''"
    then have "of_char (char_of (48 + x)) = (48 :: nat)" by simp
    then show False using \<open>x \<noteq> 0\<close> \<open>x < 10\<close> by simp
  qed
  then show ?thesis using that decimal_digits [of w] x by (simp add: decimal_def)
qed

lemma parse_spec_stop:
  "\<not> isdigit c \<Longrightarrow> c \<noteq> CHR ''-'' \<Longrightarrow> c \<noteq> CHR ''*'' \<Longrightarrow> parse_spec (c # rest) va sp = Some (c # rest, va, sp)"
  by (auto simp: isdigit_def isnum_def char_code_def)

lemma parse_spec_width:
  assumes "w < 100000" and "\<not> isdigit c" and "c \<noteq> CHR ''-''" and "c \<noteq> CHR ''*''"
  shows "parse_spec ((if w = 0 then [] else decimal w) @ c # rest) va (sp\<lparr>pad := 0\<rparr>) =
    Some (c # rest, va, sp\<lparr>pad := word_of_nat w\<rparr>)"
proof (cases "w = 0")
  case True
  then show ?thesis using parse_spec_stop [OF assms(2-4)] by simp
next
  case False
  then obtain d ds where d: "decimal w = d # ds" "isnum d" "d \<noteq> CHR ''0''" "list_all isnum ds"
    using decimal_head [of w] by auto
  then have "d \<noteq> CHR ''-''" "d \<noteq> CHR ''*''" by (auto simp: isnum_def char_code_def)
  moreover have "dropWhile isdigit (ds @ c # rest) = c # rest"
    using d(4) assms(2) by (simp add: dropWhile_append2 list_all_iff isdigit_def)
  moreover have "atoi (d # ds @ c # rest) = word_of_nat w"
    using atoi_decimal_rest [OF assms(1), of "c # rest"] d(1) assms(2) by (simp add: isdigit_def)
  ultimately show ?thesis
    using d False parse_spec_stop [OF assms(2-4)] by (simp add: isdigit_def)
qed

lemma letter_plain: "\<not> isdigit (letter v)" "letter v \<noteq> CHR ''-''" "letter v \<noteq> CHR ''*''" "letter v \<noteq> CHR ''l''"
  by (cases v; simp add: isdigit_def isnum_def char_code_def)+

lemma parse_spec_flags:
  "parse_spec ((if left then ''-'' else []) @ (if zero then ''0'' else []) @ format) va
      \<lparr>leftalign = False, zlead = False, pad = 0\<rparr> =
    parse_spec format va \<lparr>leftalign = left, zlead = zero, pad = 0\<rparr>"
  by (cases left; cases zero) simp_all

lemma parse_spec_item:
  assumes "w < 100000"
  shows "parse_spec ((if left then ''-'' else []) @ (if zero then ''0'' else []) @
      (if w = 0 then [] else decimal w) @ letter v # rest) va \<lparr>leftalign = False, zlead = False, pad = 0\<rparr> =
    Some (letter v # rest, va, \<lparr>leftalign = left, zlead = zero, pad = word_of_nat w\<rparr>)"
  using parse_spec_width [OF assms letter_plain(1-3), of v rest va "\<lparr>leftalign = left, zlead = zero, pad = 0\<rparr>"]
  unfolding parse_spec_flags by (simp only: pad_spec.simps)

lemma directives_item:
  assumes "text_sink ok out file" and "item_ok (Directive left zero w v)" and "ok s"
  shows "\<exists>s'. directives with_64bit file (tl (item_format (Directive left zero w v)) @ rest) (argument v # va) s =
      Some (rest, Printed (word_of_nat (length (item_text (Directive left zero w v)))) va s') \<and>
    ok s' \<and> out s' = out s @ item_text (Directive left zero w v)"
proof -
  have w: "w < 100000" "w < 2 ^ 31" "value_ok w v" using assms(2) by simp_all
  show ?thesis
    using directive_field [OF assms(1) w(3,2) assms(3), of left "zero \<and> \<not> left" va]
      parse_spec_item [OF w(1), of left zero v rest "argument v # va"] letter_plain [of v] padded_field [of left zero v w] assms(2)
    by (auto simp: directives_def Let_def)
qed

lemma vfprintf_loop_item:
  assumes "text_sink ok out file" and "item_ok i" and "ok s"
  shows "\<exists>s'. vfprintf_loop with_64bit file (item_format i @ format) (item_args i @ va) l s =
      vfprintf_loop with_64bit file format va (l + word_of_nat (length (item_text i))) s' \<and>
    ok s' \<and> out s' = out s @ item_text i"
proof (cases i)
  case (Literal c)
  obtain k s' where p: "putc file c s = (k, s')" by (cases "putc file c s")
  have "c \<noteq> CHR 0x00" "c \<noteq> CHR ''%''" using assms(2) Literal by simp_all
  then show ?thesis using printsD [OF sink_putc [OF assms(1)] assms(3) p] p Literal by auto
next
  case Percent
  obtain k s' where p: "putc file (CHR ''%'') s = (k, s')" by (cases "putc file (CHR ''%'') s")
  then show ?thesis
    using printsD [OF sink_putc [OF assms(1)] assms(3) p] parse_spec_stop [of "CHR ''%''" format va] Percent
    by (auto simp: directives_def directive_def isdigit_def isnum_def char_code_def)
next
  case (Directive left zero w v)
  define fmt where "fmt = tl (item_format (Directive left zero w v))"
  have i: "item_format i = CHR ''%'' # fmt" "item_args i = [argument v]" "item_text i = item_text (Directive left zero w v)"
    using Directive by (simp_all add: fmt_def)
  obtain s' where "directives with_64bit file (fmt @ format) (argument v # va) s =
      Some (format, Printed (word_of_nat (length (item_text i))) va s')" "ok s'" "out s' = out s @ item_text i"
    using directives_item [OF assms(1) assms(2) [unfolded Directive] assms(3), of with_64bit format va]
    unfolding i(3) fmt_def by blast
  then show ?thesis unfolding i(1,2) by (auto simp del: item_text.simps)
qed

lemma vfprintf_items:
  assumes "text_sink ok out file" and "list_all item_ok items" and "ok s"
  shows "\<exists>s'. vfprintf with_64bit file (concat (map item_format items)) (concat (map item_args items)) s =
      Some (Some (word_of_nat (length (concat (map item_text items))), s')) \<and>
    ok s' \<and> out s' = out s @ concat (map item_text items)"
proof -
  have "\<exists>s'. vfprintf_loop with_64bit file (concat (map item_format items)) (concat (map item_args items)) l s =
      Some (Some (l + word_of_nat (length (concat (map item_text items))), s')) \<and>
    ok s' \<and> out s' = out s @ concat (map item_text items)" for l
    using assms(2,3)
  proof (induction items arbitrary: l s)
    case (Cons i items)
    let ?fmt = "concat (map item_format items)" and ?va = "concat (map item_args items)"
    have ok: "item_ok i" and oks: "list_all item_ok items" using Cons.prems by simp_all
    have "\<exists>s'. vfprintf_loop with_64bit file (item_format i @ ?fmt) (item_args i @ ?va) l s =
        vfprintf_loop with_64bit file ?fmt ?va (l + word_of_nat (length (item_text i))) s' \<and>
      ok s' \<and> out s' = out s @ item_text i"
      using vfprintf_loop_item [OF assms(1) ok Cons.prems(2)] .
    then obtain s1 where 1: "vfprintf_loop with_64bit file (item_format i @ ?fmt) (item_args i @ ?va) l s =
        vfprintf_loop with_64bit file ?fmt ?va (l + word_of_nat (length (item_text i))) s1"
      "ok s1" "out s1 = out s @ item_text i" by blast
    show ?case
      using 1 Cons.IH [OF oks 1(2), of "l + word_of_nat (length (item_text i))"] by (auto simp: algebra_simps)
  qed simp
  from this [of 0] show ?thesis by (simp add: vfprintf_def)
qed



lemma putd_Some:
  assumes "putd file n s = Some r"
  shows "n \<noteq> 0x80000000"
proof (rule putd.raw_induct [where P = "\<lambda>f n s r. n \<noteq> 0x80000000", OF _ assms])
  fix putd f n s r
  assume IH: "\<And>f n s r. putd f n s = Some r \<Longrightarrow> n \<noteq> 0x80000000"
    and r: "(if sint n \<ge> 0 then Some (putu f n s) else case putc f (CHR ''-'') s of
      (l, s') \<Rightarrow> Option.bind (putd f (- n) s') (\<lambda>(k, s''). Some (l + k, s''))) = Some r"
  show "n \<noteq> 0x80000000"
  proof
    assume "n = 0x80000000"
    then have "- n = 0x80000000" "sint n < 0" by simp_all
    with r show False by (auto simp: bind_eq_Some_conv split: prod.splits dest: IH)
  qed
qed

text \<open>C28: \<open>%d\<close> returns for every number but the most negative one, whose negation is itself: there it
  prints minus signs without end.\<close>

theorem putd_returns: "putd file n s \<noteq> None \<longleftrightarrow> n \<noteq> 0x80000000"
  using putd_eq [of n "file" s] putd_Some [of "file" n s] by (cases "putd file n s") auto
text \<open>What \<open>%u\<close> prints \<open>atoi\<close> reads back, up to five digits.\<close>

theorem print_read_roundtrip:
  assumes "text_sink ok out file" and "ok s" and "unat n < 100000"
  shows "\<exists>str s'. vfprintf with_64bit file ''%u'' [Va32 n] s = Some (Some (word_of_nat (length str), s')) \<and>
    out s' = out s @ str \<and> atoi str = n"
proof -
  have "atoi (decimal (unat n)) = n"
    using atoi_decimal_rest [OF assms(3), of "[]"] by (simp add: of_nat_unat)
  then show ?thesis
    using vfprintf_items [OF assms(1) _ assms(2), of "[Directive False False 0 (Unsigned n)]" with_64bit]
    by (auto simp: field_def Let_def)
qed

lemma print_read_roundtrip_witness:
  "\<exists>str s'. vfprintf False (File_open (\<lambda>str s. (word_of_nat (length str), s @ str))) ''%u'' [Va32 1234] ''x'' =
     Some (Some (word_of_nat (length str), s')) \<and> s' = ''x'' @ str \<and> atoi str = 1234"
proof -
  have "text_sink (\<lambda>_. True) (\<lambda>s. s) (File_open (\<lambda>str s. (word_of_nat (length str), s @ str)))"
    by (simp add: text_sink_def puts_def)
  then show ?thesis by (rule print_read_roundtrip) simp_all
qed

text \<open>
  The divisor of \<open>_putlu\<close> starts at 10 to the 18th, one place short for the largest numbers; and
  zeros for padding come before the sign.
\<close>

lemma putlu_drops_a_digit:
  "snd (putlu (File_open (\<lambda>str s. (word_of_nat (length str), s @ str))) 10000000000000000001 []) = ''1''"
  by code_simp

text \<open>A file that takes all it is given, for the examples.\<close>

definition text_file :: "string file_itf" where
  "text_file = File_open (\<lambda>str s. (word_of_nat (length str), s @ str))"

lemma text_file_sink: "text_sink (\<lambda>_. True) id text_file"
  by (simp add: text_sink_def puts_def text_file_def)

lemma putc_text_file [simp]: "putc text_file c s = (1, s @ [c])"
  by (simp add: putc_def text_file_def)

lemma spec_05: "parse_spec ''05d'' va \<lparr>leftalign = False, zlead = False, pad = 0\<rparr> =
  Some (''d'', va, \<lparr>leftalign = False, zlead = True, pad = 5\<rparr>)"
  by code_simp

lemma spec_08: "parse_spec ''08x'' va \<lparr>leftalign = False, zlead = False, pad = 0\<rparr> =
  Some (''x'', va, \<lparr>leftalign = False, zlead = True, pad = 8\<rparr>)"
  by code_simp

lemma pad_loop_text: "pad_loop text_file c n l s = (l + word_of_nat n, s @ replicate n c)"
  by (induction n arbitrary: l s) (simp_all add: algebra_simps)

lemma zeros_before_sign:
  "vfprintf with_64bit text_file ''%05d'' [Va32 (- 42)] [] = Some (Some (5, ''00-42''))"
  "item_text (Directive False True 5 (Signed (- 42))) = ''-0042''"
proof -
  have "signed_decimal (- 42) = ''-42''" by code_simp
  then have "padded False True 5 (printed_value (Signed (- 42))) = ''00-42''" by (simp add: padded_def padding_def eval_nat_numeral)
  then show "vfprintf with_64bit text_file ''%05d'' [Va32 (- 42)] [] = Some (Some (5, ''00-42''))"
    using directive_field [OF text_file_sink, where w = 5 and v = "Signed (- 42)" and s = "[]" and left = False and zero = True and va = "[]"]
    by (auto simp: vfprintf_def directives_def spec_05 Let_def simp del: parse_spec.simps)
  show "item_text (Directive False True 5 (Signed (- 42))) = ''-0042''" by code_simp
qed

text \<open>\<open>_nstrlen32\<close> takes a number from 2 to the 31st on for a negative one: the padding is computed for another length.\<close>

lemma unsigned_mispadded:
  "vfprintf with_64bit text_file ''%08x'' [Va32 0xFFFFFFFF] [] = Some (Some (14, ''000000ffffffff''))"
  "item_text (Directive False True 8 (Hex 0xFFFFFFFF)) = ''ffffffff''"
proof -
  have hex: "hexadecimal 97 4294967295 = ''ffffffff''" by (simp add: hexadecimal_def radix.simps hex_char_def char_of_eq_iff)
  have "nstrlen32 0xFFFFFFFF 16 = 2" by (simp add: nstrlen32_def nstrlen_loop.simps signed_divide_int_def Let_def)
  then have "padn32 text_file 0xFFFFFFFF 16 8 True False [] = (6, ''000000'')"
    "padn32 text_file 0xFFFFFFFF 16 8 True True s = (0, s)" for s
    by (simp_all add: padn32_def pad_loop_text eval_nat_numeral)
  moreover have "putx text_file 0xFFFFFFFF s = (8, s @ ''ffffffff'')" for s
  proof -
    have "unat (0xFFFFFFFF :: u32) = 4294967295" by simp
    then show ?thesis
      using prints_putxX [OF text_file_sink, of "CHR ''a''" "0xFFFFFFFF"]
      by (simp add: putx_def prints_def char_code_def prod_eq_iff hex)
  qed
  ultimately show "vfprintf with_64bit text_file ''%08x'' [Va32 0xFFFFFFFF] [] = Some (Some (14, ''000000ffffffff''))"
    by (simp add: vfprintf_def directives_def spec_08 Let_def directive_def print_int32_def around_def del: parse_spec.simps)
  show "item_text (Directive False True 8 (Hex 0xFFFFFFFF)) = ''ffffffff''"
    by (simp add: field_def hex)
qed

end
