(* ===== verification/Interrupts.thy ===== *)
theory Interrupts
  imports Sched
begin

text \<open>
  Masking interrupts, and the spin locks that are built on it on the single-core boards: the status
  register of the ARM-A targets (\<open>src/kernel/arch/arm_a/special/cpsr.h\<close>, \<open>exceptions.c\<close>,
  \<open>concurrency/spinlock.h\<close>), the PRIMASK of the ARM-M targets (\<open>src/kernel/arch/arm_m\<close>), and the first
  stack frame of a thread on ARM-M (\<open>cpu_state.c\<close>). A lock stores the interrupt mask it found.
\<close>

section \<open>ARM-A: the CPSR\<close>

definition PSR_F :: "u32 \<Rightarrow> u32" where "PSR_F f1 = push_bit 6 f1"
definition PSR_I :: "u32 \<Rightarrow> u32" where "PSR_I i1 = push_bit 7 i1"

definition PSR_MODE_fiq :: u32 where "PSR_MODE_fiq = 17"
definition PSR_MODE_irq :: u32 where "PSR_MODE_irq = 18"
definition PSR_MODE_abt :: u32 where "PSR_MODE_abt = 23"
definition PSR_MODE_und :: u32 where "PSR_MODE_und = 27"
definition PSR_MODE_MASK :: u32 where "PSR_MODE_MASK = push_bit 5 1 - 1"

text \<open>The routines that write the register return what the caller keeps, and the new register.\<close>

definition arm_disable_interrupts :: "u32 \<Rightarrow> u32 \<times> u32" where
  "arm_disable_interrupts cpsr = (cpsr AND (PSR_I 1 OR PSR_F 1), cpsr OR PSR_I 1 OR PSR_F 1)"

definition arm_enable_interrupts :: "u32 \<Rightarrow> u32 \<times> u32" where
  "arm_enable_interrupts cpsr = (cpsr AND (PSR_I 1 OR PSR_F 1), cpsr AND NOT (PSR_I 1 OR PSR_F 1))"

definition arm_restore_interrupts :: "u32 \<Rightarrow> u32 \<Rightarrow> u32" where
  "arm_restore_interrupts flags cpsr = (cpsr AND NOT (PSR_I 1 OR PSR_F 1)) OR flags"

definition in_interrupt :: "u32 \<Rightarrow> bool" where
  "in_interrupt cpsr =
     (let mode = cpsr AND PSR_MODE_MASK
      in mode = PSR_MODE_fiq \<or> mode = PSR_MODE_irq \<or> mode = PSR_MODE_abt \<or> mode = PSR_MODE_und)"

section \<open>ARM-A: spin locks\<close>

text \<open>The locks of the kernel, by address, and the status register.\<close>

record arm_a =
  cpsr :: u32
  spinlocks :: "u32 \<Rightarrow> u32"

definition spinlock_init :: "u32 \<Rightarrow> arm_a \<Rightarrow> arm_a" where
  "spinlock_init lock s = s\<lparr>spinlocks := (spinlocks s)(lock := 0)\<rparr>"

definition spinlock_lock_irqsave :: "u32 \<Rightarrow> arm_a \<Rightarrow> arm_a" where
  "spinlock_lock_irqsave lock s =
     (if \<not> in_interrupt (cpsr s) then
        case arm_disable_interrupts (cpsr s) of
          (flags, c) \<Rightarrow> s\<lparr>spinlocks := (spinlocks s)(lock := flags), cpsr := c\<rparr>
      else s)"

definition spinlock_unlock_irqrestore :: "u32 \<Rightarrow> arm_a \<Rightarrow> arm_a" where
  "spinlock_unlock_irqrestore lock s =
     (if \<not> in_interrupt (cpsr s) then s\<lparr>cpsr := arm_restore_interrupts (spinlocks s lock) (cpsr s)\<rparr> else s)"

definition spinlock_lock :: "u32 \<Rightarrow> arm_a \<Rightarrow> arm_a" where
  "spinlock_lock lock s = spinlock_lock_irqsave lock s"

definition spinlock_unlock :: "u32 \<Rightarrow> arm_a \<Rightarrow> arm_a" where
  "spinlock_unlock lock s = spinlock_unlock_irqrestore lock s"

section \<open>ARM-M: PRIMASK\<close>

definition IPSR_EXCEPTION_NUMBER :: u32 where "IPSR_EXCEPTION_NUMBER = 0x3f"

record arm_m =
  primask :: u32
  ipsr :: u32
  spinlocks_m :: "u32 \<Rightarrow> u32"

definition armm_cpsid :: "arm_m \<Rightarrow> u32 \<times> arm_m" where
  "armm_cpsid s = (if primask s AND 1 = 0 then (0, s\<lparr>primask := primask s OR 1\<rparr>) else (1, s))"

definition armm_cpsie :: "arm_m \<Rightarrow> u32 \<times> arm_m" where
  "armm_cpsie s = (primask s AND 1, s\<lparr>primask := primask s AND NOT 1\<rparr>)"

definition armm_cps_restore :: "u32 \<Rightarrow> arm_m \<Rightarrow> arm_m" where
  "armm_cps_restore flags s =
     (if flags AND 1 \<noteq> 0 then s\<lparr>primask := primask s OR 1\<rparr> else s\<lparr>primask := primask s AND NOT 1\<rparr>)"

definition in_interrupt_m :: "arm_m \<Rightarrow> bool" where
  "in_interrupt_m s \<longleftrightarrow> ipsr s AND IPSR_EXCEPTION_NUMBER \<noteq> 0"

definition spinlock_lock_irqsave_m :: "u32 \<Rightarrow> arm_m \<Rightarrow> arm_m" where
  "spinlock_lock_irqsave_m lock s =
     (if \<not> in_interrupt_m s then
        case armm_cpsid s of (flags, s') \<Rightarrow> s'\<lparr>spinlocks_m := (spinlocks_m s')(lock := flags)\<rparr>
      else s)"

definition spinlock_unlock_irqrestore_m :: "u32 \<Rightarrow> arm_m \<Rightarrow> arm_m" where
  "spinlock_unlock_irqrestore_m lock s =
     (if \<not> in_interrupt_m s then armm_cps_restore (spinlocks_m s lock) s else s)"

section \<open>Critical sections\<close>

text \<open>
  The contract of a lock over a mask: locking masks interrupts, unlocking brings back what the lock
  found, and both leave other locks alone. Critical sections nest like brackets.
\<close>

datatype critical = Critical u32 "critical list"

locale irq_locks =
  fixes lock :: "u32 \<Rightarrow> 's \<Rightarrow> 's"
    and unlock :: "u32 \<Rightarrow> 's \<Rightarrow> 's"
    and mask :: "'s \<Rightarrow> 'm"
    and saved :: "'s \<Rightarrow> u32 \<Rightarrow> 'm"
    and masked :: "'m \<Rightarrow> bool"
    and thread :: "'s \<Rightarrow> bool"
  assumes lock_masks: "thread s \<Longrightarrow> masked (mask (lock l s)) \<and> thread (lock l s) \<and> saved (lock l s) = (saved s)(l := mask s)"
    and unlock_restores: "thread s \<Longrightarrow> mask (unlock l s) = saved s l \<and> thread (unlock l s) \<and> saved (unlock l s) = saved s"

text \<open>A walk through nested sections, with every state on the way inside the outermost one.\<close>

fun run_critical :: "(u32 \<Rightarrow> 's \<Rightarrow> 's) \<Rightarrow> (u32 \<Rightarrow> 's \<Rightarrow> 's) \<Rightarrow> critical \<Rightarrow> 's \<Rightarrow> 's list \<times> 's"
  and run_criticals :: "(u32 \<Rightarrow> 's \<Rightarrow> 's) \<Rightarrow> (u32 \<Rightarrow> 's \<Rightarrow> 's) \<Rightarrow> critical list \<Rightarrow> 's \<Rightarrow> 's list \<times> 's" where
  "run_critical lock unlock (Critical l cs) s =
     (case run_criticals lock unlock cs (lock l s) of (seen, s') \<Rightarrow> (lock l s # seen, unlock l s'))"
| "run_criticals lock unlock [] s = ([], s)"
| "run_criticals lock unlock (c # cs) s =
     (case run_critical lock unlock c s of (seen, s') \<Rightarrow>
        case run_criticals lock unlock cs s' of (seen', s'') \<Rightarrow> (seen @ s' # seen', s''))"

fun locks_of :: "critical \<Rightarrow> u32 set" where
  "locks_of (Critical l cs) = insert l (\<Union> (set (map locks_of cs)))"

text \<open>No lock is taken again while it is held: the second time it would store the mask it has set itself.\<close>

fun nests_well :: "critical \<Rightarrow> bool" where
  "nests_well (Critical l cs) \<longleftrightarrow> list_all (\<lambda>c. l \<notin> locks_of c) cs \<and> list_all nests_well cs"

context irq_locks
begin

definition restores :: "critical \<Rightarrow> bool" where
  "restores c \<longleftrightarrow> (\<forall>s seen s'. thread s \<and> run_critical lock unlock c s = (seen, s') \<longrightarrow>
     thread s' \<and> mask s' = mask s \<and> (\<forall>l. l \<notin> locks_of c \<longrightarrow> saved s' l = saved s l) \<and>
     (\<forall>t \<in> set seen. masked (mask t)))"

lemma restoresD:
  assumes "restores c" and "thread s" and "run_critical lock unlock c s = (seen, s')"
  shows "thread s'" and "mask s' = mask s" and "l \<notin> locks_of c \<Longrightarrow> saved s' l = saved s l"
    and "\<forall>t \<in> set seen. masked (mask t)"
  using assms unfolding restores_def by blast+

lemma criticals_restore:
  assumes "list_all restores cs" and "thread s" and "masked (mask s)"
    and "run_criticals lock unlock cs s = (seen, s')"
  shows "thread s' \<and> mask s' = mask s \<and> (\<forall>l. list_all (\<lambda>c. l \<notin> locks_of c) cs \<longrightarrow> saved s' l = saved s l) \<and>
    (\<forall>t \<in> set seen. masked (mask t))"
  using assms
proof (induction cs arbitrary: s seen s')
  case (Cons c cs)
  obtain seen1 s1 where 1: "run_critical lock unlock c s = (seen1, s1)" by (cases "run_critical lock unlock c s")
  obtain seen2 s2 where 2: "run_criticals lock unlock cs s1 = (seen2, s2)" by (cases "run_criticals lock unlock cs s1")
  have "restores c" using Cons.prems(1) by simp
  note c = restoresD [OF this Cons.prems(2) 1]
  then have m: "masked (mask s1)" using Cons.prems(3) by simp
  note cs = Cons.IH [OF _ c(1) m 2]
  show ?case using 1 2 c cs m Cons.prems by auto
qed simp

lemma critical_restores: "nests_well c \<Longrightarrow> restores c"
proof (induction c)
  case (Critical l cs)
  then have all: "list_all restores cs" by (auto simp: list_all_iff)
  show ?case
    unfolding restores_def
  proof (intro allI impI)
    fix s seen s' assume run: "thread s \<and> run_critical lock unlock (Critical l cs) s = (seen, s')"
    then have lk: "masked (mask (lock l s))" "thread (lock l s)" "saved (lock l s) = (saved s)(l := mask s)"
      using lock_masks by auto
    obtain seen1 s1 where 1: "run_criticals lock unlock cs (lock l s) = (seen1, s1)"
      by (cases "run_criticals lock unlock cs (lock l s)")
    note in_s1 = criticals_restore [OF all lk(2,1) 1]
    have "saved s1 l = mask s" using in_s1 Critical.prems lk(3) by simp
    moreover have "saved s1 k = saved s k" if "k \<notin> locks_of (Critical l cs)" for k
      using in_s1 lk(3) that by (auto simp: list_all_iff)
    ultimately show "thread s' \<and> mask s' = mask s \<and> (\<forall>k. k \<notin> locks_of (Critical l cs) \<longrightarrow> saved s' k = saved s k) \<and>
        (\<forall>t \<in> set seen. masked (mask t))"
      using run 1 in_s1 lk unlock_restores [of s1 l] by auto
  qed
qed

end

section \<open>The locks of both architectures\<close>

definition irq_bits :: u32 where "irq_bits = PSR_I 1 OR PSR_F 1"

text \<open>Code of a thread: not in an interrupt, and every lock holds a mask.\<close>

definition thread_a :: "arm_a \<Rightarrow> bool" where
  "thread_a s \<longleftrightarrow> \<not> in_interrupt (cpsr s) \<and> (\<forall>l. spinlocks s l AND NOT irq_bits = 0)"

definition thread_m :: "arm_m \<Rightarrow> bool" where
  "thread_m s \<longleftrightarrow> \<not> in_interrupt_m s"

lemma irq_bits_eq: "irq_bits = 0xC0"
  by (simp add: irq_bits_def PSR_I_def PSR_F_def)

lemma only_irq_bits:
  assumes "f AND NOT irq_bits = 0"
  shows "f AND irq_bits = f" and "f AND PSR_MODE_MASK = 0"
proof -
  have "f AND irq_bits = (f AND irq_bits) OR (f AND NOT irq_bits)" using assms by simp
  also have "\<dots> = f" by (simp flip: bit.conj_disj_distrib)
  finally show f: "f AND irq_bits = f" .
  have "f AND PSR_MODE_MASK = f AND (irq_bits AND PSR_MODE_MASK)"
    using f by (simp add: and.assoc [symmetric])
  then show "f AND PSR_MODE_MASK = 0" by (simp add: irq_bits_eq PSR_MODE_MASK_def)
qed

lemma mode_kept:
  assumes "f AND NOT irq_bits = 0"
  shows "(c OR f) AND PSR_MODE_MASK = c AND PSR_MODE_MASK"
    and "((c AND NOT irq_bits) OR f) AND PSR_MODE_MASK = c AND PSR_MODE_MASK"
proof -
  have f: "f AND PSR_MODE_MASK = 0" using only_irq_bits [OF assms] by simp
  then show "(c OR f) AND PSR_MODE_MASK = c AND PSR_MODE_MASK" by (simp add: bit.conj_disj_distrib2)
  have "NOT irq_bits AND PSR_MODE_MASK = PSR_MODE_MASK" by (simp add: irq_bits_eq PSR_MODE_MASK_def)
  with f show "((c AND NOT irq_bits) OR f) AND PSR_MODE_MASK = c AND PSR_MODE_MASK"
    by (simp add: bit.conj_disj_distrib2 and.assoc)
qed

interpretation arm_a_locks: irq_locks spinlock_lock_irqsave spinlock_unlock_irqrestore
  "\<lambda>s. cpsr s AND irq_bits" spinlocks "\<lambda>m. m = irq_bits" thread_a
proof
  fix s l assume t: "thread_a s"
  then have i: "\<not> in_interrupt (cpsr s)" by (simp add: thread_a_def)
  have "irq_bits AND NOT irq_bits = 0" by simp
  then have "\<not> in_interrupt (cpsr s OR irq_bits)" using i mode_kept(1) by (simp add: in_interrupt_def Let_def)
  moreover have "(cpsr s OR irq_bits) AND irq_bits = irq_bits" by (simp add: bit.conj_disj_distrib2)
  moreover have "(cpsr s AND irq_bits) AND NOT irq_bits = 0" by (simp add: and.assoc)
  moreover have "spinlock_lock_irqsave l s = s\<lparr>spinlocks := (spinlocks s)(l := cpsr s AND irq_bits), cpsr := cpsr s OR irq_bits\<rparr>"
    using i by (simp add: spinlock_lock_irqsave_def arm_disable_interrupts_def irq_bits_def or.assoc)
  ultimately show "cpsr (spinlock_lock_irqsave l s) AND irq_bits = irq_bits \<and> thread_a (spinlock_lock_irqsave l s) \<and>
      spinlocks (spinlock_lock_irqsave l s) = (spinlocks s)(l := cpsr s AND irq_bits)"
    using t by (simp add: thread_a_def)
  have f: "spinlocks s l AND NOT irq_bits = 0" using t by (simp add: thread_a_def)
  have u: "spinlock_unlock_irqrestore l s = s\<lparr>cpsr := (cpsr s AND NOT irq_bits) OR spinlocks s l\<rparr>"
    using i by (simp add: spinlock_unlock_irqrestore_def arm_restore_interrupts_def irq_bits_def)
  have "((cpsr s AND NOT irq_bits) OR spinlocks s l) AND irq_bits = spinlocks s l"
    using only_irq_bits(1) [OF f] by (simp add: bit.conj_disj_distrib2 and.assoc)
  moreover have "\<not> in_interrupt ((cpsr s AND NOT irq_bits) OR spinlocks s l)"
    using i mode_kept(2) [OF f] by (simp add: in_interrupt_def Let_def)
  ultimately show "cpsr (spinlock_unlock_irqrestore l s) AND irq_bits = spinlocks s l \<and>
      thread_a (spinlock_unlock_irqrestore l s) \<and> spinlocks (spinlock_unlock_irqrestore l s) = spinlocks s"
    using t u by (simp add: thread_a_def)
qed

lemma low_bit: "x AND (1 :: u32) = 0 \<or> x AND 1 = 1"
  by (simp add: and_one_eq mod_2_eq_odd)

interpretation arm_m_locks: irq_locks spinlock_lock_irqsave_m spinlock_unlock_irqrestore_m
  "\<lambda>s. primask s AND 1" "\<lambda>s l. spinlocks_m s l AND 1" "\<lambda>m. m = 1" thread_m
proof
  fix s l assume t: "thread_m s"
  have or_1: "(p OR 1) AND (1 :: u32) = 1" for p by (simp add: bit.conj_disj_distrib2)
  have not_1: "(p AND NOT 1) AND (1 :: u32) = 0" for p by (simp add: and.assoc)
  show "primask (spinlock_lock_irqsave_m l s) AND 1 = 1 \<and> thread_m (spinlock_lock_irqsave_m l s) \<and>
      (\<lambda>k. spinlocks_m (spinlock_lock_irqsave_m l s) k AND 1) = (\<lambda>k. spinlocks_m s k AND 1)(l := primask s AND 1)"
    using t low_bit [of "primask s"] or_1
    by (auto simp: thread_m_def spinlock_lock_irqsave_m_def armm_cpsid_def in_interrupt_m_def fun_eq_iff)
  show "primask (spinlock_unlock_irqrestore_m l s) AND 1 = spinlocks_m s l AND 1 \<and>
      thread_m (spinlock_unlock_irqrestore_m l s) \<and>
      (\<lambda>k. spinlocks_m (spinlock_unlock_irqrestore_m l s) k AND 1) = (\<lambda>k. spinlocks_m s k AND 1)"
    using t low_bit [of "spinlocks_m s l"] or_1 not_1
    by (auto simp: thread_m_def spinlock_unlock_irqrestore_m_def armm_cps_restore_def in_interrupt_m_def)
qed

text \<open>C29: Locks that nest like brackets keep interrupts masked from the first to the last and then bring
  back the mask there was before, on ARM-A and on ARM-M.\<close>

theorem critical_sections_restore:
  assumes "nests_well c"
    and "thread_a s" and "run_critical spinlock_lock_irqsave spinlock_unlock_irqrestore c s = (seen, s')"
    and "thread_m sm" and "run_critical spinlock_lock_irqsave_m spinlock_unlock_irqrestore_m c sm = (seen_m, sm')"
  shows "cpsr s' AND irq_bits = cpsr s AND irq_bits \<and> (\<forall>t \<in> set seen. cpsr t AND irq_bits = irq_bits) \<and>
    primask sm' AND 1 = primask sm AND 1 \<and> (\<forall>t \<in> set seen_m. primask t AND 1 = 1)"
proof -
  note a = arm_a_locks.critical_restores [OF assms(1)] and m = arm_m_locks.critical_restores [OF assms(1)]
  show ?thesis
    using arm_a_locks.restoresD(2,4) [OF a assms(2,3)] arm_m_locks.restoresD(2,4) [OF m assms(4,5)] by simp
qed

lemma critical_sections_restore_witness:
  "\<exists>s' sm'. snd (run_critical spinlock_lock_irqsave spinlock_unlock_irqrestore
       (Critical 0x100 [Critical 0x200 []]) \<lparr>cpsr = 0x53, spinlocks = \<lambda>_. 0\<rparr>) = s' \<and> cpsr s' AND irq_bits = 0x40 \<and>
     snd (run_critical spinlock_lock_irqsave_m spinlock_unlock_irqrestore_m
       (Critical 0x100 [Critical 0x200 []]) \<lparr>primask = 0, ipsr = 0, spinlocks_m = \<lambda>_. 0\<rparr>) = sm' \<and> primask sm' AND 1 = 0"
proof -
  let ?c = "Critical 0x100 [Critical 0x200 []]"
  let ?s = "\<lparr>cpsr = 0x53, spinlocks = \<lambda>_. 0\<rparr>" and ?sm = "\<lparr>primask = 0, ipsr = 0, spinlocks_m = \<lambda>_. 0\<rparr>"
  obtain seen s' where s: "run_critical spinlock_lock_irqsave spinlock_unlock_irqrestore ?c ?s = (seen, s')"
    by (metis surj_pair)
  obtain seen_m sm' where m: "run_critical spinlock_lock_irqsave_m spinlock_unlock_irqrestore_m ?c ?sm = (seen_m, sm')"
    by (metis surj_pair)
  have "nests_well ?c" by simp
  moreover have "thread_a ?s"
    by (simp add: thread_a_def in_interrupt_def PSR_MODE_MASK_def PSR_MODE_fiq_def PSR_MODE_irq_def
        PSR_MODE_abt_def PSR_MODE_und_def)
  moreover have "thread_m ?sm" by (simp add: thread_m_def in_interrupt_m_def)
  ultimately show ?thesis
    using critical_sections_restore [OF _ _ s _ m] s m by (simp add: irq_bits_eq)
qed

end
