(* ===== verification/Devices.thy ===== *)
theory Devices
  imports Prelude
begin

text \<open>
  The registries of the drivers: character devices by major and minor number
  (\<open>src/kernel/chardevice/devices.c\<close>), timers by index (\<open>timer/devices.c\<close>), and the single sync timer,
  GPIO block and interrupt controller (\<open>timer/sync_timer.c\<close>, \<open>gpio/gpio.c\<close>,
  \<open>interrupt_controller/controller.c\<close>). A driver is what its open function does; a null pointer in a
  table is \<open>None\<close>.
\<close>

section \<open>Character devices\<close>

definition CHRD_MAJOR_MAX :: u32 where "CHRD_MAJOR_MAX = 15"
definition CHRD_MINOR_MAX :: u32 where "CHRD_MINOR_MAX = 15"

definition CHRD_UART_MAJOR :: u32 where "CHRD_UART_MAJOR = 2"
definition CHRD_UART_MINOR_MIN :: u32 where "CHRD_UART_MINOR_MIN = 0"
definition CHRD_UART_MINOR_MAX :: u32 where "CHRD_UART_MINOR_MAX = 5"
definition CHRD_SERIAL_CONSOLE_MAJOR :: u32 where "CHRD_SERIAL_CONSOLE_MAJOR = 3"
definition CHRD_SERIAL_CONSOLE_MINOR :: u32 where "CHRD_SERIAL_CONSOLE_MINOR = 0"
definition CHRD_DEV_CONSOLE_MAJOR :: u32 where "CHRD_DEV_CONSOLE_MAJOR = 4"
definition CHRD_DEV_CONSOLE_MINOR :: u32 where "CHRD_DEV_CONSOLE_MINOR = 0"
definition CHRD_BLERAW_MAJOR :: u32 where "CHRD_BLERAW_MAJOR = 7"
definition CHRD_BLERAW_MINOR :: u32 where "CHRD_BLERAW_MINOR = 0"

lemmas chrd_numbers = CHRD_MAJOR_MAX_def CHRD_MINOR_MAX_def CHRD_UART_MAJOR_def CHRD_UART_MINOR_MIN_def
  CHRD_UART_MINOR_MAX_def CHRD_SERIAL_CONSOLE_MAJOR_def CHRD_SERIAL_CONSOLE_MINOR_def
  CHRD_DEV_CONSOLE_MAJOR_def CHRD_DEV_CONSOLE_MINOR_def CHRD_BLERAW_MAJOR_def CHRD_BLERAW_MINOR_def

text \<open>The table, row by row.\<close>

type_synonym 'd chrdev_table = "'d option list list"

definition no_chrdevs :: "'d chrdev_table" where
  "no_chrdevs = replicate (unat CHRD_MAJOR_MAX + 1) (replicate (unat CHRD_MINOR_MAX + 1) None)"

definition bcheck :: "u32 \<Rightarrow> u32 \<Rightarrow> int" where
  "bcheck major minor = (if major > CHRD_MAJOR_MAX then -1 else if minor > CHRD_MINOR_MAX then -1 else 0)"

definition chrd_install_ptr :: "'d option \<Rightarrow> u32 \<Rightarrow> u32 \<Rightarrow> 'd chrdev_table \<Rightarrow> int \<times> 'd chrdev_table" where
  "chrd_install_ptr open_func major minor t =
     (if bcheck major minor \<noteq> 0 then (-1, t)
      else (0, t[unat major := (t ! unat major)[unat minor := open_func]]))"

definition chrd_install :: "'d \<Rightarrow> u32 \<Rightarrow> u32 \<Rightarrow> 'd chrdev_table \<Rightarrow> int \<times> 'd chrdev_table" where
  "chrd_install open_func major minor t = chrd_install_ptr (Some open_func) major minor t"

definition chrd_uninstall :: "u32 \<Rightarrow> u32 \<Rightarrow> 'd chrdev_table \<Rightarrow> int \<times> 'd chrdev_table" where
  "chrd_uninstall major minor t = chrd_install_ptr None major minor t"

text \<open>The driver \<open>chrd_open\<close> calls, or \<open>None\<close> where it answers -1 itself.\<close>

definition chrd_driver :: "u32 \<Rightarrow> u32 \<Rightarrow> 'd chrdev_table \<Rightarrow> 'd option" where
  "chrd_driver major minor t = (if bcheck major minor \<noteq> 0 then None else t ! unat major ! unat minor)"

definition chrd_open :: "u32 \<Rightarrow> u32 \<Rightarrow> (u32 \<Rightarrow> u32 \<Rightarrow> 's \<Rightarrow> int \<times> 's) chrdev_table \<Rightarrow> 's \<Rightarrow> int \<times> 's" where
  "chrd_open major minor t s =
     (case chrd_driver major minor t of
        Some open_func \<Rightarrow> open_func major minor s
      | None \<Rightarrow> (-1, s))"

section \<open>Timers\<close>

definition TIMERS_MAX :: nat where "TIMERS_MAX = 16"

text \<open>Only the upper bound of an index is checked: one below 0 is an access in front of the array.\<close>

definition timer_driver :: "int \<Rightarrow> 'd option list \<Rightarrow> 'd option run" where
  "timer_driver index t =
     (if index \<ge> int TIMERS_MAX then Inr None
      else if index < 0 then Inl FAULT
      else Inr (t ! nat index))"

definition timer_open :: "int \<Rightarrow> (int \<Rightarrow> 's \<Rightarrow> int \<times> 's) option list \<Rightarrow> 's \<Rightarrow> (int \<times> 's) run" where
  "timer_open index t s =
     (case timer_driver index t of
        Inl e \<Rightarrow> Inl e
      | Inr None \<Rightarrow> Inr (-1, s)
      | Inr (Some func) \<Rightarrow> Inr (func index s))"

definition timer_install :: "'d option \<Rightarrow> int \<Rightarrow> 'd option list \<Rightarrow> (int \<times> 'd option list) run" where
  "timer_install open_func index t =
     (if index \<ge> int TIMERS_MAX then Inr (-1, t)
      else if index < 0 then Inl FAULT
      else Inr (0, t[nat index := open_func]))"

definition timer_uninstall :: "int \<Rightarrow> 'd option list \<Rightarrow> (int \<times> 'd option list) run" where
  "timer_uninstall index t = timer_install None index t"

section \<open>The single devices\<close>

definition sync_timer_open :: "('s \<Rightarrow> int \<times> 's) option \<Rightarrow> 's \<Rightarrow> int \<times> 's" where
  "sync_timer_open sync_timer s = (case sync_timer of Some func \<Rightarrow> func s | None \<Rightarrow> (-1, s))"

definition sync_timer_install :: "'d option \<Rightarrow> 'd option \<Rightarrow> int \<times> 'd option" where
  "sync_timer_install open_func sync_timer = (0, open_func)"

definition sync_timer_uninstall :: "'d option \<Rightarrow> int \<times> 'd option" where
  "sync_timer_uninstall sync_timer = sync_timer_install None sync_timer"

definition gpio_open :: "('s \<Rightarrow> int \<times> 's) option \<Rightarrow> 's \<Rightarrow> int \<times> 's" where
  "gpio_open gpio s = (case gpio of Some func \<Rightarrow> func s | None \<Rightarrow> (-1, s))"

definition gpio_install :: "'d option \<Rightarrow> 'd option \<Rightarrow> int \<times> 'd option" where
  "gpio_install open_func gpio = (0, open_func)"

text \<open>The interrupt controller: its open function, which gives an interface, and the one that is open.\<close>

record ('i, 's) intc_registry =
  open_func :: "('s \<Rightarrow> int \<times> 'i \<times> 's) option"
  intc_itf :: "'i option"

definition interrupt_controller_open ::
  "('i, 's) intc_registry \<Rightarrow> 's \<Rightarrow> int \<times> 'i option \<times> ('i, 's) intc_registry \<times> 's" where
  "interrupt_controller_open r s =
     (case open_func r of
        Some f \<Rightarrow>
          (case f s of
             (i, self, s') \<Rightarrow> if i = 0 then (i, Some self, r\<lparr>intc_itf := Some self\<rparr>, s') else (-1, None, r, s'))
      | None \<Rightarrow> (-1, None, r, s))"

definition interrupt_controller :: "('i, 's) intc_registry \<Rightarrow> int \<times> 'i option" where
  "interrupt_controller r = (case intc_itf r of Some i \<Rightarrow> (0, Some i) | None \<Rightarrow> (-1, None))"

definition interrupt_controller_install ::
  "('s \<Rightarrow> int \<times> 'i \<times> 's) option \<Rightarrow> ('i, 's) intc_registry \<Rightarrow> int \<times> ('i, 's) intc_registry" where
  "interrupt_controller_install f r =
     (if open_func r = None \<and> f \<noteq> None then (0, r\<lparr>open_func := f\<rparr>) else (-1, r))"

section \<open>The contract of a registry\<close>

locale registry =
  fixes install :: "'d option \<Rightarrow> 'k \<Rightarrow> 't \<Rightarrow> int \<times> 't"
    and driver :: "'k \<Rightarrow> 't \<Rightarrow> 'd option"
    and valid :: "'k \<Rightarrow> bool"
    and inv :: "'t \<Rightarrow> bool"
  assumes installed: "inv t \<Longrightarrow> valid k \<Longrightarrow> \<exists>t'. install d k t = (0, t') \<and> inv t' \<and> driver k t' = d \<and>
      (\<forall>k'. valid k' \<and> k' \<noteq> k \<longrightarrow> driver k' t' = driver k' t)"
    and refused: "inv t \<Longrightarrow> \<not> valid k \<Longrightarrow> install d k t = (-1, t) \<and> driver k t = None"

text \<open>The last of a sequence of installations and removals for a number decides what it opens.\<close>

fun install_all :: "('d option \<Rightarrow> 'k \<Rightarrow> 't \<Rightarrow> int \<times> 't) \<Rightarrow> ('k \<times> 'd option) list \<Rightarrow> 't \<Rightarrow> 't" where
  "install_all install [] t = t"
| "install_all install ((k, d) # ds) t = install_all install ds (snd (install d k t))"

context registry
begin

lemma install_all_driver:
  "inv t \<Longrightarrow> inv (install_all install ds t) \<and>
     driver k (install_all install ds t) =
       (if valid k then case map_of (rev ds) k of Some d \<Rightarrow> d | None \<Rightarrow> driver k t else None)"
proof (induction ds arbitrary: t)
  case Nil
  then show ?case using refused by auto
next
  case (Cons p ds)
  obtain k' d where p: "p = (k', d)" by (cases p)
  show ?case
  proof (cases "valid k'")
    case True
    then obtain t' where t': "install d k' t = (0, t')" "inv t'" "driver k' t' = d"
      "\<forall>k. valid k \<and> k \<noteq> k' \<longrightarrow> driver k t' = driver k t" using installed [OF Cons.prems True] by blast
    show ?thesis using Cons.IH [OF t'(2)] t' p
      by (auto simp: map_add_def split: option.splits)
  next
    case False
    then have "install d k' t = (-1, t)" using refused [OF Cons.prems] by blast
    then show ?thesis using Cons.IH [OF Cons.prems] False p
      by (auto simp: map_add_def split: option.splits)
  qed
qed

end

definition chrdevs_ok :: "'d chrdev_table \<Rightarrow> bool" where
  "chrdevs_ok t \<longleftrightarrow> length t = 16 \<and> list_all (\<lambda>r. length r = 16) t"

interpretation chrdevs: registry "\<lambda>d (major, minor). chrd_install_ptr d major minor"
  "\<lambda>(major, minor). chrd_driver major minor" "\<lambda>(major, minor). major \<le> 15 \<and> minor \<le> 15" chrdevs_ok
proof
  fix t :: "'d chrdev_table" and k :: "u32 \<times> u32" and d
  assume t: "chrdevs_ok t"
  obtain a b where k: "k = (a, b)" by (cases k)
  {
    assume "case k of (major, minor) \<Rightarrow> major \<le> 15 \<and> minor \<le> 15"
    then have v: "a \<le> 15" "b \<le> 15" by (simp_all add: k)
    then have ab: "unat a < 16" "unat b < 16" by (simp_all add: word_le_nat_alt)
    have row: "length (t ! unat a) = 16" using t ab(1) by (simp add: chrdevs_ok_def list_all_length)
    let ?t = "t[unat a := (t ! unat a)[unat b := d]]"
    have "chrdevs_ok ?t"
      using t ab row by (auto simp: chrdevs_ok_def list_all_length nth_list_update)
    moreover have "chrd_driver c e ?t = (if (c, e) = (a, b) then d else chrd_driver c e t)"
      if "c \<le> 15" "e \<le> 15" for c e
    proof -
      have ce: "unat c < 16" "unat e < 16" using that by (simp_all add: word_le_nat_alt)
      show ?thesis using t ab row ce that
        by (auto simp: chrd_driver_def bcheck_def CHRD_MAJOR_MAX_def CHRD_MINOR_MAX_def chrdevs_ok_def nth_list_update
            word_unat_eq_iff)
    qed
    moreover have "chrd_install_ptr d a b t = (0, ?t)"
      using v by (simp add: chrd_install_ptr_def bcheck_def CHRD_MAJOR_MAX_def CHRD_MINOR_MAX_def not_less)
    ultimately show "\<exists>t'. (case k of (major, minor) \<Rightarrow> chrd_install_ptr d major minor) t = (0, t') \<and> chrdevs_ok t' \<and>
        (case k of (major, minor) \<Rightarrow> chrd_driver major minor) t' = d \<and>
        (\<forall>k'. (case k' of (major, minor) \<Rightarrow> major \<le> 15 \<and> minor \<le> 15) \<and> k' \<noteq> k \<longrightarrow>
          (case k' of (major, minor) \<Rightarrow> chrd_driver major minor) t' =
          (case k' of (major, minor) \<Rightarrow> chrd_driver major minor) t)"
      using v by (auto simp: k)
  next
    assume "\<not> (case k of (major, minor) \<Rightarrow> major \<le> 15 \<and> minor \<le> 15)"
    then show "(case k of (major, minor) \<Rightarrow> chrd_install_ptr d major minor) t = (-1, t) \<and>
        (case k of (major, minor) \<Rightarrow> chrd_driver major minor) t = None"
      by (auto simp: k chrd_install_ptr_def chrd_driver_def bcheck_def CHRD_MAJOR_MAX_def CHRD_MINOR_MAX_def)
  }
qed

text \<open>Whatever drivers are installed and removed, a character device opens with the driver that was
  installed last for its numbers, and numbers outside the table are refused.\<close>

theorem chrd_open_last_installed:
  "chrdevs_ok t \<Longrightarrow> chrd_driver major minor (install_all (\<lambda>d (major, minor). chrd_install_ptr d major minor) ds t) =
     (if major \<le> 15 \<and> minor \<le> 15 then case map_of (rev ds) (major, minor) of Some d \<Rightarrow> d | None \<Rightarrow> chrd_driver major minor t
      else None)"
  using chrdevs.install_all_driver [of t ds "(major, minor)"] by (simp split: option.split)

lemma chrd_open_last_installed_witness:
  "chrd_driver 2 1 (install_all (\<lambda>d (major, minor). chrd_install_ptr d major minor)
     [((2, 1), Some ''a''), ((2, 16), Some ''c''), ((2, 1), Some ''b'')] no_chrdevs) = Some ''b''"
proof -
  have "chrdevs_ok (no_chrdevs :: string chrdev_table)"
    by (simp add: chrdevs_ok_def no_chrdevs_def CHRD_MAJOR_MAX_def CHRD_MINOR_MAX_def list_all_iff)
  from chrd_open_last_installed [OF this, of 2 1 "[((2, 1), Some ''a''), ((2, 16), Some ''c''), ((2, 1), Some ''b'')]"]
  show ?thesis by (simp del: install_all.simps)
qed

end
