(* ===== verification/Uart.thy ===== *)
theory Uart
  imports Fifo_Buffer Page_Tables Devices
begin

text \<open>
  \<open>src/kernel/drivers/ti/omap/uart/uart.c\<close>: the serial driver of the OMAP boards, with its interrupt
  handler. The registers are reached through a bus, an argument: what a volatile read answers and
  what reads and writes do to the device. What other threads and the interrupts do while a thread
  yields is an argument too. Spin locks mask interrupts on the one core, so what is done under the lock is one step.
\<close>

section \<open>Registers\<close>

text \<open>The registers of \<open>regs.h\<close> the driver uses; \<open>THR\<close> and \<open>RHR\<close> are one address, written and read.\<close>

datatype uart_reg = THR | RHR | IER | IIR | FCR | TLR | SCR | SSR | LSR

record 'h uart_bus =
  reg_read :: "uart_reg \<Rightarrow> 'h \<Rightarrow> u32 \<times> 'h"
  reg_write :: "uart_reg \<Rightarrow> u32 \<Rightarrow> 'h \<Rightarrow> 'h"

definition TX_SR_E :: u32 where "TX_SR_E = BIT 6"
definition RX_FIFO_E :: u32 where "RX_FIFO_E = BIT 0"
definition TX_FIFO_FULL :: u32 where "TX_FIFO_FULL = BIT 0"
definition FIFO_EN :: u32 where "FIFO_EN = BIT 0"
definition RHR_IT :: u32 where "RHR_IT = BIT 0"
definition THR_IT :: u32 where "THR_IT = BIT 1"
definition IT_TYPE_MASK :: u32 where "IT_TYPE_MASK = 0x3e"
definition IT_TYPE_THR :: u32 where "IT_TYPE_THR = 2"
definition IT_TYPE_RHR :: u32 where "IT_TYPE_RHR = 4"

definition MK_RX_FIFO_TRIG :: "u32 \<Rightarrow> u32" where "MK_RX_FIFO_TRIG rt2 = push_bit 6 rt2"
definition MK_TX_FIFO_TRIG :: "u32 \<Rightarrow> u32" where "MK_TX_FIFO_TRIG tt2 = push_bit 4 tt2"
definition MK_TX_FIFO_TRIG_DMA :: "u32 \<Rightarrow> u32" where "MK_TX_FIFO_TRIG_DMA l = l AND 0xf"
definition MK_RX_FIFO_TRIG_DMA :: "u32 \<Rightarrow> u32" where "MK_RX_FIFO_TRIG_DMA l = push_bit 4 (l AND 0xf)"

text \<open>The bases and interrupt numbers of the two chips, by version.\<close>

definition uart_base :: "nat \<Rightarrow> u32 list" where
  "uart_base TI_OMAP_MAJOR_VER =
     (if TI_OMAP_MAJOR_VER = 3 then [0x4806A000, 0x4806C000, 0x49020000, 0x49042000]
      else if TI_OMAP_MAJOR_VER = 5 then [0x4806A000, 0x4806C000, 0x48020000, 0x4806E000, 0x48066000, 0x48068000]
      else [])"

definition irq_numbers :: "nat \<Rightarrow> u32 list" where
  "irq_numbers TI_OMAP_MAJOR_VER =
     (if TI_OMAP_MAJOR_VER = 3 then [72, 73, 74, 80]
      else if TI_OMAP_MAJOR_VER = 5 then [72, 73, 74, 70, 105, 106]
      else [])"

section \<open>Bypassing the driver\<close>

text \<open>\<open>while(count)\<close> polling \<open>SSR\<close>: a full transmit FIFO is waited for.\<close>

partial_function (option) debug_loop :: "'h uart_bus \<Rightarrow> u8 list \<Rightarrow> 'h \<Rightarrow> 'h option" where
  "debug_loop bus bs h =
     (case bs of
        [] \<Rightarrow> Some h
      | b # bs' \<Rightarrow>
          case reg_read bus SSR h of
            (ssr, h1) \<Rightarrow>
              if ssr AND TX_FIFO_FULL = 0 then debug_loop bus bs' (reg_write bus THR (ucast b) h1)
              else debug_loop bus bs h1)"

partial_function (option) flush_loop :: "'h uart_bus \<Rightarrow> 'h \<Rightarrow> 'h option" where
  "flush_loop bus h =
     (case reg_read bus LSR h of
        (lsr, h1) \<Rightarrow> if lsr AND TX_SR_E = 0 then flush_loop bus h1 else Some h1)"

definition bytes_of :: "string \<Rightarrow> u8 list" where
  "bytes_of str = map (\<lambda>c. word_of_nat (char_code c)) str"

text \<open>\<open>__debug\<close> answers the number of bytes, all of them.\<close>

definition uart_debug :: "'h uart_bus \<Rightarrow> u8 list \<Rightarrow> 'h \<Rightarrow> (u32 \<times> 'h) option" where
  "uart_debug bus bs h = Option.bind (debug_loop bus bs h) (\<lambda>h'. Some (word_of_nat (length bs), h'))"

definition debug_out :: "'h uart_bus \<Rightarrow> string \<Rightarrow> 'h \<Rightarrow> (u32 \<times> 'h) option" where
  "debug_out bus str h =
     Option.bind (uart_debug bus (bytes_of str) h)
       (\<lambda>(ret, h1). Option.bind (flush_loop bus h1) (\<lambda>h2. Some (ret, h2)))"

definition hex_digit :: "u32 \<Rightarrow> nat \<Rightarrow> u8" where
  "hex_digit i sh = bytes_of ''0123456789ABCDEF'' ! unat (drop_bit sh i AND 0xF)"

definition debug_out_uint :: "'h uart_bus \<Rightarrow> u32 \<Rightarrow> 'h \<Rightarrow> (u32 \<times> 'h) option" where
  "debug_out_uint bus i h =
     Option.bind (debug_loop bus (map (hex_digit i) [28, 24, 20, 16, 12, 8, 4, 0]) h)
       (\<lambda>h1. Option.bind (flush_loop bus h1) (\<lambda>h2. Some (1, h2)))"

section \<open>The driver\<close>

definition UART_NONBLOCK :: u32 where "UART_NONBLOCK = BIT 0"
definition UART_CONSOLE :: u32 where "UART_CONSOLE = BIT 1"
definition UART_DEV :: u32 where "UART_DEV = BIT 2"

record uart_context =
  uc_regs :: u32
  read_buffer :: fifo_buffer
  write_buffer :: fifo_buffer
  uc_flags :: u32
  irq_number :: u32

record 'h uart =
  ctx :: uart_context
  umem :: memory
  hw :: 'h

text \<open>The inner loop of \<open>_write\<close>: bytes go into the buffer until there are none left or it is full.\<close>

fun put_bytes :: "u8 list \<Rightarrow> fifo_buffer \<Rightarrow> memory \<Rightarrow> u8 list \<times> fifo_buffer \<times> memory" where
  "put_bytes [] fb m = ([], fb, m)"
| "put_bytes (b # bs) fb m =
     (case fifo_buffer_putb fb b m of
        (r, fb', m') \<Rightarrow> if r = FIFO_BUFFER_PUT_SUCCESS then put_bytes bs fb' m' else (b # bs, fb', m'))"

text \<open>What \<open>_write\<close> does under the lock, and the bytes that did not fit.\<close>

definition write_chunk :: "'h uart_bus \<Rightarrow> u8 list \<Rightarrow> 'h uart \<Rightarrow> u8 list \<times> 'h uart" where
  "write_chunk bus bs u =
     (case reg_read bus IER (hw u) of
        (ier, h1) \<Rightarrow>
          let h2 = reg_write bus IER (ier OR THR_IT) h1
          in case put_bytes bs (write_buffer (ctx u)) (umem u) of
               (bs', fb, m) \<Rightarrow> (bs', u\<lparr>ctx := (ctx u)\<lparr>write_buffer := fb\<rparr>, umem := m, hw := h2\<rparr>))"

partial_function (option) write_loop ::
  "'h uart_bus \<Rightarrow> ('h uart \<Rightarrow> 'h uart) \<Rightarrow> bool \<Rightarrow> u8 list \<Rightarrow> 'h uart \<Rightarrow> (u8 list \<times> 'h uart) option" where
  "write_loop bus yield nonblock bs u =
     (if bs = [] then Some ([], u)
      else case write_chunk bus bs u of
        (bs', u1) \<Rightarrow> if bs' \<noteq> [] \<and> \<not> nonblock then write_loop bus yield nonblock bs' (yield u1)
                      else Some (bs', u1))"

definition uart_write ::
  "'h uart_bus \<Rightarrow> ('h uart \<Rightarrow> 'h uart) \<Rightarrow> bool \<Rightarrow> u8 list \<Rightarrow> 'h uart \<Rightarrow> (u32 \<times> 'h uart) option" where
  "uart_write bus yield in_irq bs u =
     (let fl = (if in_irq then uc_flags (ctx u) OR UART_NONBLOCK else uc_flags (ctx u))
      in if fl AND UART_DEV \<noteq> 0 then
           Option.bind (debug_loop bus bs (hw u)) (\<lambda>h1. Option.bind (flush_loop bus h1)
             (\<lambda>h2. Some (word_of_nat (length bs), u\<lparr>hw := h2\<rparr>)))
         else Option.bind (write_loop bus yield (fl AND UART_NONBLOCK \<noteq> 0) bs u)
           (\<lambda>(rest, u'). Some (word_of_nat (length bs - length rest), u')))"

text \<open>The inner loop of \<open>_read\<close>.\<close>

fun get_bytes :: "nat \<Rightarrow> fifo_buffer \<Rightarrow> memory \<Rightarrow> u8 list \<times> fifo_buffer" where
  "get_bytes 0 fb m = ([], fb)"
| "get_bytes (Suc n) fb m =
     (case fifo_buffer_getb fb m of
        (r, Some b, fb') \<Rightarrow> (case get_bytes n fb' m of (bs, fb'') \<Rightarrow> (b # bs, fb''))
      | (r, None, fb') \<Rightarrow> ([], fb'))"

partial_function (option) read_loop ::
  "('h uart \<Rightarrow> 'h uart) \<Rightarrow> bool \<Rightarrow> nat \<Rightarrow> u8 list \<Rightarrow> 'h uart \<Rightarrow> (u8 list \<times> 'h uart) option" where
  "read_loop yield nonblock count acc u =
     (case get_bytes count (read_buffer (ctx u)) (umem u) of
        (bs, fb) \<Rightarrow>
          let u1 = u\<lparr>ctx := (ctx u)\<lparr>read_buffer := fb\<rparr>\<rparr>; left = count - length bs
          in if left \<noteq> 0 \<and> \<not> nonblock then read_loop yield nonblock left (acc @ bs) (yield u1)
             else Some (acc @ bs, u1))"

text \<open>Polling reads of the development console.\<close>

partial_function (option) dev_read_loop :: "'h uart_bus \<Rightarrow> nat \<Rightarrow> u8 list \<Rightarrow> 'h \<Rightarrow> (u8 list \<times> 'h) option" where
  "dev_read_loop bus count acc h =
     (if count = 0 then Some (acc, h)
      else case reg_read bus LSR h of
        (lsr, h1) \<Rightarrow>
          if lsr AND RX_FIFO_E \<noteq> 0
          then (case reg_read bus RHR h1 of (b, h2) \<Rightarrow> dev_read_loop bus (count - 1) (acc @ [ucast b]) h2)
          else dev_read_loop bus count acc h1)"

definition uart_read ::
  "'h uart_bus \<Rightarrow> ('h uart \<Rightarrow> 'h uart) \<Rightarrow> bool \<Rightarrow> nat \<Rightarrow> 'h uart \<Rightarrow> (u8 list \<times> 'h uart) option" where
  "uart_read bus yield in_irq count u =
     (let fl = (if in_irq then uc_flags (ctx u) OR UART_NONBLOCK else uc_flags (ctx u))
      in if fl AND UART_DEV \<noteq> 0
         then Option.bind (dev_read_loop bus count [] (hw u)) (\<lambda>(bs, h1). Some (bs, u\<lparr>hw := h1\<rparr>))
         else read_loop yield (fl AND UART_NONBLOCK \<noteq> 0) count [] u)"

definition uart_get_irq_number :: "uart_context \<Rightarrow> u32" where
  "uart_get_irq_number c = irq_number c"

section \<open>The interrupt\<close>

text \<open>
  The transmit loop ends at the latest when the buffer is empty, the receive loop when it is full,
  whatever the device answers. A byte that does not fit is lost.
\<close>

function irq_tx_loop :: "'h uart_bus \<Rightarrow> memory \<Rightarrow> fifo_buffer \<Rightarrow> 'h \<Rightarrow> fifo_buffer \<times> 'h" where
  "irq_tx_loop bus m fb h =
     (case reg_read bus SSR h of
        (ssr, h1) \<Rightarrow>
          if ssr AND TX_FIFO_FULL = 0 then
            case fifo_buffer_getb fb m of
              (r, Some b, fb') \<Rightarrow> irq_tx_loop bus m fb' (reg_write bus THR (ucast b) h1)
            | (r, None, fb') \<Rightarrow>
                (case reg_read bus IER h1 of (ier, h2) \<Rightarrow> (fb', reg_write bus IER (ier AND NOT THR_IT) h2))
          else (fb, h1))"
  by pat_completeness auto
termination
proof (relation "measure (\<lambda>(bus, m, fb, h). unat (rsz fb))", goal_cases)
  case (2 bus m fb h)
  then show ?case
    by (auto simp: fifo_buffer_getb_def Let_def unat_u16_pred unat_u16_pos split: if_splits)
qed simp

function irq_rx_loop :: "'h uart_bus \<Rightarrow> memory \<Rightarrow> fifo_buffer \<Rightarrow> 'h \<Rightarrow> memory \<times> fifo_buffer \<times> 'h" where
  "irq_rx_loop bus m fb h =
     (case reg_read bus LSR h of
        (lsr, h1) \<Rightarrow>
          if lsr AND RX_FIFO_E \<noteq> 0 then
            case reg_read bus RHR h1 of
              (b, h2) \<Rightarrow>
                (case fifo_buffer_putb fb (ucast b) m of
                   (r, fb', m') \<Rightarrow>
                     if r = FIFO_BUFFER_PUT_SUCCESS then irq_rx_loop bus m' fb' h2 else (m', fb', h2))
          else (m, fb, h1))"
  by pat_completeness auto
termination
proof (relation "measure (\<lambda>(bus, m, fb, h). unat (wsz fb))", goal_cases)
  case (2 bus m fb h)
  then show ?case
    by (auto simp: fifo_buffer_putb_def Let_def unat_u16_pred unat_u16_pos fifo_codes split: if_splits)
qed simp

declare irq_tx_loop.simps [simp del] irq_rx_loop.simps [simp del]

definition uart_IRQ :: "'h uart_bus \<Rightarrow> 'h uart \<Rightarrow> int \<times> 'h uart" where
  "uart_IRQ bus u =
     (case reg_read bus IIR (hw u) of
        (iir, h1) \<Rightarrow>
          let u1 = (if iir AND IT_TYPE_MASK = IT_TYPE_THR
                    then case irq_tx_loop bus (umem u) (write_buffer (ctx u)) h1 of
                           (fb, h2) \<Rightarrow> u\<lparr>ctx := (ctx u)\<lparr>write_buffer := fb\<rparr>, hw := h2\<rparr>
                    else u\<lparr>hw := h1\<rparr>);
              u2 = (if iir AND IT_TYPE_MASK = IT_TYPE_RHR
                    then case irq_rx_loop bus (umem u1) (read_buffer (ctx u1)) (hw u1) of
                           (m, fb, h2) \<Rightarrow> u1\<lparr>ctx := (ctx u1)\<lparr>read_buffer := fb\<rparr>, umem := m, hw := h2\<rparr>
                    else u1)
          in (0, u2))"
section \<open>Opening and closing\<close>

definition configure_fifo_interrupt_mode :: "'h uart_bus \<Rightarrow> 'h \<Rightarrow> 'h" where
  "configure_fifo_interrupt_mode bus h =
     reg_write bus IER RHR_IT
       (reg_write bus TLR (MK_TX_FIFO_TRIG_DMA 0 OR MK_RX_FIFO_TRIG_DMA 0)
         (reg_write bus SCR 0
           (reg_write bus FCR (FIFO_EN OR MK_TX_FIFO_TRIG 0 OR MK_RX_FIFO_TRIG 0) h)))"

text \<open>The numbers of a console stand for the third UART.\<close>

definition uart_numbers :: "u32 \<Rightarrow> u32 \<Rightarrow> u32 \<times> u32 \<times> bool \<times> bool" where
  "uart_numbers major minor =
     (if CHRD_SERIAL_CONSOLE_MAJOR = major \<and> CHRD_SERIAL_CONSOLE_MINOR = minor
      then (CHRD_UART_MAJOR, CHRD_UART_MINOR_MIN + 2, True, False)
      else if CHRD_DEV_CONSOLE_MAJOR = major \<and> CHRD_DEV_CONSOLE_MINOR = minor
      then (CHRD_UART_MAJOR, CHRD_UART_MINOR_MIN + 2, True, True)
      else (major, minor, False, False))"

definition zero_fifo :: fifo_buffer where
  "zero_fifo = \<lparr>bp = 0, ri = 0, wi = 0, sz = 0, rsz = 0, wsz = 0\<rparr>"

text \<open>Five file operations and a pointer, two interrupt operations and a pointer, the lock, the registers,
  two buffers of 16 bytes, the flags and the interrupt number.\<close>

definition sizeof_uart_context :: u32 where
  "sizeof_uart_context = 24 + 12 + 4 + 4 + 2 * 16 + 4 + 4"

definition uart_kmalloc :: "board \<Rightarrow> u32 \<Rightarrow> u32 \<Rightarrow> pages kheap \<Rightarrow> (u32 \<times> pages kheap) run" where
  "uart_kmalloc cfg nbytes fl H = kmalloc cfg (get_free_pages cfg) (free_pages2 cfg) clear_pages nbytes fl H"

definition uart_kfree :: "board \<Rightarrow> u32 \<Rightarrow> pages kheap \<Rightarrow> pages kheap" where
  "uart_kfree cfg a H = snd (kfree cfg (free_pages2 cfg) a H)"

definition uart_fifo :: "board \<Rightarrow> pages kheap \<Rightarrow> int \<times> fifo_buffer \<times> pages kheap" where
  "uart_fifo cfg H =
     (case fifo_buffer_create cfg zero_fifo (PAGE_SIZE cfg) (kh_pages H) of
        (r, fb, s) \<Rightarrow> (r, fb, H\<lparr>kh_pages := s\<rparr>))"

text \<open>\<open>None\<close> for a context means that the file and the interrupt interface are not given.\<close>

definition uart_open ::
  "board \<Rightarrow> nat \<Rightarrow> u32 \<Rightarrow> 'h uart_bus \<Rightarrow> u32 \<Rightarrow> u32 \<Rightarrow> pages kheap \<Rightarrow> 'h
    \<Rightarrow> (int \<times> (u32 \<times> uart_context) option \<times> pages kheap \<times> 'h) run option" where
  "uart_open cfg ver ttbr0 bus major minor H h =
     (case uart_numbers major minor of
        (major', minor', is_console, is_dev) \<Rightarrow>
          let uart = minor' - CHRD_UART_MINOR_MIN
          in if unat uart \<ge> length (uart_base ver) then Some (Inr (-1, None, H, h))
             else case vm_map cfg ttbr0 (uart_base ver ! unat uart) (uart_base ver ! unat uart) (PAGE_SIZE cfg)
                 MMU_DEVICE GFP_KERNEL H of
               None \<Rightarrow> None
             | Some (Inl e) \<Rightarrow> Some (Inl e)
             | Some (Inr (err, H1)) \<Rightarrow>
                 if err \<noteq> 0 then Some (Inr (-1, None, H1, h))
                 else case uart_kmalloc cfg sizeof_uart_context (GFP_KERNEL OR GFP_ZERO) H1 of
                   Inl e \<Rightarrow> Some (Inl e)
                 | Inr (a, H2) \<Rightarrow>
                     if a = 0 then Some (Inr (-1, None, H2, h))
                     else case uart_fifo cfg H2 of
                       (r, rb, H3) \<Rightarrow>
                         if r \<noteq> 0 then Some (Inr (-1, None, uart_kfree cfg a H3, h))
                         else case uart_fifo cfg H3 of
                           (w, wb, H4) \<Rightarrow>
                             if w \<noteq> 0
                             then Some (Inr (-1, None, uart_kfree cfg a
                                    (H4\<lparr>kh_pages := fifo_buffer_destroy cfg rb (kh_pages H4)\<rparr>), h))
                             else
                               let c = \<lparr>uc_regs = uart_base ver ! unat uart, read_buffer = rb, write_buffer = wb,
                                        uc_flags = (if is_console then UART_CONSOLE else 0) OR
                                          (if is_dev then UART_DEV else 0),
                                        irq_number = irq_numbers ver ! unat uart\<rparr>;
                                   h' = (if \<not> is_dev then configure_fifo_interrupt_mode bus h else h)
                               in Some (Inr (0, Some (a, c), H4, h')))"

text \<open>The buffers are not given back.\<close>

definition uart_close ::
  "board \<Rightarrow> u32 \<Rightarrow> (u32 \<times> uart_context) option \<Rightarrow> pages kheap \<Rightarrow> (int \<times> pages kheap) run option" where
  "uart_close cfg ttbr0 itf H =
     (case itf of
        None \<Rightarrow> Some (Inr (-1, H))
      | Some (a, c) \<Rightarrow>
          (case vm_unmap cfg ttbr0 (uc_regs c) (PAGE_SIZE cfg) H of
             None \<Rightarrow> None
           | Some (Inl e) \<Rightarrow> Some (Inl e)
           | Some (Inr (_, H1)) \<Rightarrow> Some (Inr (0, uart_kfree cfg a H1))))"

fun uart_install_loop :: "'d \<Rightarrow> u32 list \<Rightarrow> int \<Rightarrow> 'd chrdev_table \<Rightarrow> int \<times> 'd chrdev_table" where
  "uart_install_loop drv [] e t = (e, t)"
| "uart_install_loop drv (i # is) e t =
     (case chrd_install drv CHRD_UART_MAJOR i t of
        (r, t') \<Rightarrow> uart_install_loop drv is (if r \<noteq> 0 then -1 else e) t')"

definition uart_install :: "'d \<Rightarrow> 'd chrdev_table \<Rightarrow> int \<times> 'd chrdev_table" where
  "uart_install drv t =
     (case uart_install_loop drv [0, 1, 2, 3, 4, 5] 0 t of
        (e, t1) \<Rightarrow>
          (case chrd_install drv CHRD_SERIAL_CONSOLE_MAJOR CHRD_SERIAL_CONSOLE_MINOR t1 of
             (r1, t2) \<Rightarrow>
               (case chrd_install drv CHRD_DEV_CONSOLE_MAJOR CHRD_DEV_CONSOLE_MINOR t2 of
                  (r2, t3) \<Rightarrow> (if r1 \<noteq> 0 \<or> r2 \<noteq> 0 then -1 else e, t3))))"

end
