(* ===== verification/Uart_Spec.thy ===== *)
theory Uart_Spec
  imports Uart "HOL-Library.Sublist"
begin

text \<open>
  What the serial driver promises: whatever writers, readers, interrupts and the device do, and in
  whatever order, the bytes accepted from the writers go to the transmitter in order, none lost or
  doubled, and the readers get the received bytes in order. The device is what its manual says.
\<close>

section \<open>The device\<close>

text \<open>
  \<open>sent h\<close> is what has been handed to the transmitter and \<open>taken h\<close> what has been read from the
  receiver so far. Writing \<open>THR\<close> sends a byte when \<open>SSR\<close> has just shown room, reading \<open>RHR\<close> takes one, and
  nothing else does either.
\<close>

definition uart_device :: "'h uart_bus \<Rightarrow> ('h \<Rightarrow> u8 list) \<Rightarrow> ('h \<Rightarrow> u8 list) \<Rightarrow> bool" where
  "uart_device bus sent taken \<longleftrightarrow>
     (\<forall>r h. sent (snd (reg_read bus r h)) = sent h) \<and>
     (\<forall>r h. r \<noteq> RHR \<longrightarrow> taken (snd (reg_read bus r h)) = taken h) \<and>
     (\<forall>h. taken (snd (reg_read bus RHR h)) = taken h @ [ucast (fst (reg_read bus RHR h))]) \<and>
     (\<forall>r v h. taken (reg_write bus r v h) = taken h) \<and>
     (\<forall>r v h. r \<noteq> THR \<longrightarrow> sent (reg_write bus r v h) = sent h) \<and>
     (\<forall>v h. fst (reg_read bus SSR h) AND TX_FIFO_FULL = 0 \<longrightarrow>
        sent (reg_write bus THR v (snd (reg_read bus SSR h))) = sent h @ [ucast v])"

lemma device_read:
  assumes "uart_device bus sent taken" and "reg_read bus r h = (v, h')"
  shows "sent h' = sent h" and "taken h' = (if r = RHR then taken h @ [ucast v] else taken h)"
  using assms unfolding uart_device_def by (metis snd_conv, metis fst_conv snd_conv)

lemma device_write:
  assumes "uart_device bus sent taken"
  shows "taken (reg_write bus r v h) = taken h" and "r \<noteq> THR \<Longrightarrow> sent (reg_write bus r v h) = sent h"
  using assms unfolding uart_device_def by blast+

lemma device_send:
  assumes "uart_device bus sent taken" and "reg_read bus SSR h = (s, h')" and "s AND TX_FIFO_FULL = 0"
  shows "sent (reg_write bus THR v h') = sent h @ [ucast v]"
  using assms unfolding uart_device_def by (metis fst_conv snd_conv)

section \<open>The two buffers\<close>

definition fifos_apart :: "fifo_buffer \<Rightarrow> fifo_buffer \<Rightarrow> bool" where
  "fifos_apart a b \<longleftrightarrow>
     (\<forall>i < unat (sz a). \<forall>j < unat (sz b). bp a + word_of_nat i \<noteq> bp b + (word_of_nat j :: u32))"

lemma fifos_apart_sym: "fifos_apart a b \<Longrightarrow> fifos_apart b a"
  unfolding fifos_apart_def by metis

lemma fifos_apart_same:
  "bp a' = bp a \<Longrightarrow> sz a' = sz a \<Longrightarrow> fifos_apart a b \<Longrightarrow> fifos_apart a' b"
  by (simp add: fifos_apart_def)

lemma fifo_bytes_cong:
  assumes "fifo_ok b" and "\<And>i. i < unat (sz b) \<Longrightarrow> m (bp b + word_of_nat i) = m' (bp b + word_of_nat i)"
  shows "fifo_bytes (b, m) = fifo_bytes (b, m')"
proof -
  have "0 < unat (sz b)" using assms(1) by (auto simp: fifo_ok_def)
  then show ?thesis using assms(2) by (auto simp: fifo_bytes_def ring_list_def slot_def)
qed

text \<open>The operations of one buffer, with what they mean for the bytes of another.\<close>

lemma putb_cases:
  assumes ok: "fifo_ok b" and put: "fifo_buffer_putb b x m = (r, b', m')"
  obtains "r = FIFO_BUFFER_PUT_SUCCESS" and "fifo_ok b'" and "bp b' = bp b" and "sz b' = sz b"
      and "fifo_bytes (b', m') = fifo_bytes (b, m) @ [x]"
      and "\<And>c. fifo_ok c \<Longrightarrow> fifos_apart b c \<Longrightarrow> fifo_bytes (c, m') = fifo_bytes (c, m)"
      and "unat (rsz b') = unat (rsz b) + 1"
    | "r \<noteq> FIFO_BUFFER_PUT_SUCCESS" and "b' = b" and "m' = m" and "unat (rsz b) = unat (sz b)"
proof (cases "wsz b = 0")
  case True
  then have "unat (rsz b) = unat (sz b)" using ok by (simp add: fifo_ok_def)
  then show ?thesis using that(2) put True by (simp add: fifo_buffer_putb_def fifo_codes)
next
  case False
  then obtain b1 where b1: "fifo_buffer_putb b x m = (0, b1, m(bp b + word_of_nat (unat (wi b)) := x))"
    "fifo_ok b1" "bp b1 = bp b" "sz b1 = sz b" "ri b1 = ri b" "unat (rsz b1) = unat (rsz b) + 1"
    using putb_steps [OF ok] by metis
  have eq: "r = 0" "b' = b1" "m' = m(bp b + word_of_nat (unat (wi b)) := x)" using b1(1) put by simp_all
  have room: "unat (rsz b) < unat (sz b)" using ok unat_u16_pos [OF False] by (auto simp: fifo_ok_def)
  have w: "unat (wi b) < unat (sz b)" using ok room by (simp add: fifo_ok_def)
  have "fifo_bytes (c, m') = fifo_bytes (c, m)" if c: "fifo_ok c" "fifos_apart b c" for c
  proof (rule fifo_bytes_cong [OF c(1)])
    fix i assume "i < unat (sz c)"
    then have "bp b + word_of_nat (unat (wi b)) \<noteq> bp c + word_of_nat i"
      using c(2) w unfolding fifos_apart_def by blast
    then show "m' (bp c + word_of_nat i) = m (bp c + word_of_nat i)" unfolding eq(3) by (metis fun_upd_other)
  qed
  then show ?thesis
    using that(1) b1 eq fifo_bytes_put [OF ok room b1(3-6), of m x] by (simp add: fifo_codes)
qed

lemma getb_cases:
  assumes ok: "fifo_ok b" and got: "fifo_buffer_getb b m = (r, x, b')"
  obtains y where "x = Some y" and "fifo_ok b'" and "bp b' = bp b" and "sz b' = sz b"
      and "fifo_bytes (b, m) = y # fifo_bytes (b', m)"
    | "x = None" and "b' = b" and "fifo_bytes (b, m) = []"
proof (cases "rsz b = 0")
  case True
  then show ?thesis using that(2) got by (simp add: fifo_buffer_getb_def fifo_bytes_def)
next
  case False
  then obtain b1 where b1: "fifo_buffer_getb b m = (0, Some (slot b m (unat (ri b))), b1)" "fifo_ok b1"
    "bp b1 = bp b" "sz b1 = sz b" "unat (ri b1) = (unat (ri b) + 1) mod unat (sz b)"
    "unat (rsz b1) = unat (rsz b) - 1"
    using getb_steps [OF ok] by metis
  have n: "0 < unat (rsz b)" using False unat_u16_pos by blast
  have "unat (ri b) < unat (sz b)" using ok by (simp add: fifo_ok_def)
  note pop = ring_pop [OF n this, of "slot b m"]
  have "slot b1 m = slot b m" by (simp add: slot_def fun_eq_iff b1(3))
  then have "fifo_bytes (b, m) = slot b m (unat (ri b)) # fifo_bytes (b1, m)"
    using pop b1(4-6) by (simp add: fifo_bytes_def)
  then show ?thesis using that(1) b1(1-4) got by simp
qed

text \<open>The driver's invariant, and the bytes on their way out and in.\<close>

definition uart_ok :: "'h uart \<Rightarrow> bool" where
  "uart_ok u \<longleftrightarrow> fifo_ok (read_buffer (ctx u)) \<and> fifo_ok (write_buffer (ctx u)) \<and>
     fifos_apart (read_buffer (ctx u)) (write_buffer (ctx u))"

definition outgoing :: "'h uart \<Rightarrow> u8 list" where
  "outgoing u = fifo_bytes (write_buffer (ctx u), umem u)"

definition incoming :: "'h uart \<Rightarrow> u8 list" where
  "incoming u = fifo_bytes (read_buffer (ctx u), umem u)"
section \<open>The loops\<close>

lemma byte_round_trip [simp]: "ucast (ucast (y :: u8) :: u32) = y"
  by (rule bit_word_eqI) (auto simp: bit_simps)

lemma put_bytes_ok:
  assumes "fifo_ok fb" and "put_bytes bs fb m = (rest, fb', m')"
  shows "\<exists>done. bs = done @ rest \<and> fifo_ok fb' \<and> bp fb' = bp fb \<and> sz fb' = sz fb \<and>
    fifo_bytes (fb', m') = fifo_bytes (fb, m) @ done \<and>
    (\<forall>c. fifo_ok c \<and> fifos_apart fb c \<longrightarrow> fifo_bytes (c, m') = fifo_bytes (c, m))"
  using assms
proof (induction bs arbitrary: fb m)
  case (Cons b bs)
  obtain r fb1 m1 where p: "fifo_buffer_putb fb b m = (r, fb1, m1)" by (metis surj_pair)
  show ?case
  proof (cases rule: putb_cases [OF Cons.prems(1) p])
    case room: 1
    then have "put_bytes bs fb1 m1 = (rest, fb', m')" using Cons.prems(2) p by simp
    from Cons.IH [OF room(2) this] obtain dn where dn: "bs = dn @ rest" "fifo_ok fb'" "bp fb' = bp fb1"
      "sz fb' = sz fb1" "fifo_bytes (fb', m') = fifo_bytes (fb1, m1) @ dn"
      "\<forall>c. fifo_ok c \<and> fifos_apart fb1 c \<longrightarrow> fifo_bytes (c, m') = fifo_bytes (c, m1)" by blast
    have "fifo_bytes (c, m') = fifo_bytes (c, m)" if "fifo_ok c" "fifos_apart fb c" for c
      using dn(6) room(6) that fifos_apart_same [OF room(3,4) that(2)] by metis
    then show ?thesis using dn room(3-5) by (intro exI [of _ "b # dn"]) simp
  next
    case 2
    then show ?thesis using Cons.prems p by (intro exI [of _ "[]"]) auto
  qed
qed simp

lemma get_bytes_ok:
  assumes "fifo_ok fb" and "get_bytes n fb m = (bs, fb')"
  shows "fifo_ok fb' \<and> bp fb' = bp fb \<and> sz fb' = sz fb \<and> fifo_bytes (fb, m) = bs @ fifo_bytes (fb', m) \<and> length bs \<le> n"
  using assms
proof (induction n arbitrary: fb bs)
  case (Suc n)
  obtain r x fb1 where g: "fifo_buffer_getb fb m = (r, x, fb1)" by (metis surj_pair)
  show ?case
  proof (cases rule: getb_cases [OF Suc.prems(1) g])
    case (1 y)
    obtain bs1 fb2 where "get_bytes n fb1 m = (bs1, fb2)" by (metis surj_pair)
    then show ?thesis using Suc.IH [OF 1(2)] Suc.prems(2) g 1 by auto
  next
    case 2
    then show ?thesis using Suc.prems g by auto
  qed
qed simp

lemma irq_tx_loop_ok:
  assumes "uart_device bus sent taken" and "fifo_ok fb" and "irq_tx_loop bus m fb h = (fb', h')"
  shows "fifo_ok fb' \<and> bp fb' = bp fb \<and> sz fb' = sz fb \<and> taken h' = taken h \<and>
    sent h' @ fifo_bytes (fb', m) = sent h @ fifo_bytes (fb, m)"
  using assms(2,3)
proof (induction "unat (rsz fb)" arbitrary: fb h rule: less_induct)
  case less
  obtain s h1 where s: "reg_read bus SSR h = (s, h1)" by (cases "reg_read bus SSR h")
  obtain r x fb1 where g: "fifo_buffer_getb fb m = (r, x, fb1)" by (metis surj_pair)
  note rd = device_read [OF assms(1) s]
  show ?case
  proof (cases "s AND TX_FIFO_FULL = 0")
    case room: True
    show ?thesis
    proof (cases rule: getb_cases [OF less.prems(1) g])
      case (1 y)
      let ?h2 = "reg_write bus THR (ucast y) h1"
      have "irq_tx_loop bus m fb1 ?h2 = (fb', h')"
        using less.prems(2) s g 1(1) room by (subst (asm) irq_tx_loop.simps) simp
      moreover have "length (fifo_bytes (fb, m)) = Suc (length (fifo_bytes (fb1, m)))" using 1(5) by simp
      then have "unat (rsz fb1) < unat (rsz fb)" by (simp add: fifo_bytes_length)
      moreover have "sent ?h2 = sent h @ [y]" using device_send [OF assms(1) s room, of "ucast y"] by simp
      ultimately show ?thesis
        using less.hyps [of fb1 ?h2] 1 rd device_write(1) [OF assms(1), of THR "ucast y" h1] by simp
    next
      case 2
      obtain i h2 where i: "reg_read bus IER h1 = (i, h2)" by (cases "reg_read bus IER h1")
      then have "fb' = fb" "h' = reg_write bus IER (i AND NOT THR_IT) h2"
        using less.prems(2) s g 2 room by (subst (asm) irq_tx_loop.simps, simp)+
      then show ?thesis
        using less.prems(1) rd device_read [OF assms(1) i] device_write [OF assms(1), of IER] by simp
    qed
  next
    case False
    then have "fb' = fb" "h' = h1" using less.prems(2) s by (subst (asm) irq_tx_loop.simps, simp)+
    then show ?thesis using less.prems(1) rd by simp
  qed
qed

text \<open>At most one received byte is lost at an interrupt, and only when the buffer is full.\<close>

lemma irq_rx_loop_ok:
  assumes "uart_device bus sent taken" and "fifo_ok fb" and "irq_rx_loop bus m fb h = (m', fb', h')"
  shows "\<exists>kept lost. fifo_ok fb' \<and> bp fb' = bp fb \<and> sz fb' = sz fb \<and> sent h' = sent h \<and>
    taken h' = taken h @ kept @ lost \<and> fifo_bytes (fb', m') = fifo_bytes (fb, m) @ kept \<and>
    length lost \<le> 1 \<and> (lost \<noteq> [] \<longrightarrow> unat (rsz fb') = unat (sz fb')) \<and>
    (\<forall>c. fifo_ok c \<and> fifos_apart fb c \<longrightarrow> fifo_bytes (c, m') = fifo_bytes (c, m))"
  using assms(2,3)
proof (induction "unat (sz fb) - unat (rsz fb)" arbitrary: fb h m rule: less_induct)
  case less
  obtain s h1 where s: "reg_read bus LSR h = (s, h1)" by (cases "reg_read bus LSR h")
  note rd = device_read [OF assms(1) s]
  show ?case
  proof (cases "s AND RX_FIFO_E = 0")
    case True
    then have "m' = m" "fb' = fb" "h' = h1" using less.prems(2) s by (subst (asm) irq_rx_loop.simps, simp)+
    then show ?thesis using less.prems(1) rd by (intro exI [of _ "[]"]) simp
  next
    case data: False
    obtain b h2 where b: "reg_read bus RHR h1 = (b, h2)" by (cases "reg_read bus RHR h1")
    note rb = device_read [OF assms(1) b]
    obtain r fb1 m1 where p: "fifo_buffer_putb fb (ucast b) m = (r, fb1, m1)" by (metis surj_pair)
    show ?thesis
    proof (cases rule: putb_cases [OF less.prems(1) p])
      case room: 1
      have loop: "irq_rx_loop bus m1 fb1 h2 = (m', fb', h')"
        using less.prems(2) s b p room(1) data by (subst (asm) irq_rx_loop.simps) simp
      have "unat (sz fb1) - unat (rsz fb1) < unat (sz fb) - unat (rsz fb)"
        using room(2,4,7) by (auto simp: fifo_ok_def)
      from less.hyps [OF this room(2) loop] obtain kept lost where k: "fifo_ok fb'" "bp fb' = bp fb1" "sz fb' = sz fb1"
        "sent h' = sent h2" "taken h' = taken h2 @ kept @ lost" "fifo_bytes (fb', m') = fifo_bytes (fb1, m1) @ kept"
        "length lost \<le> 1" "lost \<noteq> [] \<longrightarrow> unat (rsz fb') = unat (sz fb')"
        "\<forall>c. fifo_ok c \<and> fifos_apart fb1 c \<longrightarrow> fifo_bytes (c, m') = fifo_bytes (c, m1)" by blast
      have "fifo_bytes (c, m') = fifo_bytes (c, m)" if "fifo_ok c" "fifos_apart fb c" for c
        using k(9) room(6) that fifos_apart_same [OF room(3,4) that(2)] by metis
      then show ?thesis using k room(3-5) rd rb by (intro exI [of _ "ucast b # kept"] exI [of _ lost]) simp
    next
      case full: 2
      then have "m' = m" "fb' = fb" "h' = h2"
        using less.prems(2) s b p data by (subst (asm) irq_rx_loop.simps, simp)+
      then show ?thesis using less.prems(1) full rd rb by (intro exI [of _ "[]"] exI [of _ "[ucast b]"]) simp
    qed
  qed
qed
section \<open>Runs\<close>

text \<open>
  Writers and readers, each step under the lock, interrupts, the device on its own, and the rest of
  the kernel, which leaves the buffers alone; with what was accepted and delivered since the start.
\<close>

inductive uart_run :: "'h uart_bus \<Rightarrow> ('h \<Rightarrow> u8 list) \<Rightarrow> ('h \<Rightarrow> u8 list) \<Rightarrow> 'h uart \<Rightarrow> u8 list \<Rightarrow> u8 list \<Rightarrow> 'h uart \<Rightarrow> bool"
  for bus sent taken u where
  run_start: "uart_run bus sent taken u [] [] u"
| run_write: "uart_run bus sent taken u acc del u1 \<Longrightarrow> write_chunk bus bs u1 = (rest, u2) \<Longrightarrow>
    uart_run bus sent taken u (acc @ take (length bs - length rest) bs) del u2"
| run_read: "uart_run bus sent taken u acc del u1 \<Longrightarrow>
    get_bytes n (read_buffer (ctx u1)) (umem u1) = (bs, fb) \<Longrightarrow>
    uart_run bus sent taken u acc (del @ bs) (u1\<lparr>ctx := (ctx u1)\<lparr>read_buffer := fb\<rparr>\<rparr>)"
| run_irq: "uart_run bus sent taken u acc del u1 \<Longrightarrow> uart_IRQ bus u1 = (r, u2) \<Longrightarrow>
    uart_run bus sent taken u acc del u2"
| run_device: "uart_run bus sent taken u acc del u1 \<Longrightarrow> sent h = sent (hw u1) \<Longrightarrow> taken h = taken (hw u1) \<Longrightarrow>
    uart_run bus sent taken u acc del (u1\<lparr>hw := h\<rparr>)"
| run_other: "uart_run bus sent taken u acc del u1 \<Longrightarrow>
    (\<And>b i. b \<in> {read_buffer (ctx u1), write_buffer (ctx u1)} \<Longrightarrow> i < unat (sz b) \<Longrightarrow>
       m (bp b + word_of_nat i) = umem u1 (bp b + word_of_nat i)) \<Longrightarrow>
    uart_run bus sent taken u acc del (u1\<lparr>umem := m\<rparr>)"

lemma uart_run_trans:
  assumes "uart_run bus sent taken u acc del u1" and "uart_run bus sent taken u1 acc' del' u2"
  shows "uart_run bus sent taken u (acc @ acc') (del @ del') u2"
  using assms(2,1)
proof (induction rule: uart_run.induct)
  case (run_write acc1 del1 u2 bs rest u3)
  then show ?case using uart_run.run_write [of bus sent taken u "acc @ acc1" "del @ del1" u2 bs rest u3] by simp
next
  case (run_read acc1 del1 u2 n bs fb)
  then show ?case using uart_run.run_read [of bus sent taken u "acc @ acc1" "del @ del1" u2 n bs fb] by simp
qed (auto intro: uart_run.intros)

lemma write_chunk_ok:
  assumes "uart_device bus sent taken" and "uart_ok u" and "write_chunk bus bs u = (rest, u')"
  shows "\<exists>done. bs = done @ rest \<and> uart_ok u' \<and> outgoing u' = outgoing u @ done \<and> incoming u' = incoming u \<and>
    sent (hw u') = sent (hw u) \<and> taken (hw u') = taken (hw u)"
proof -
  obtain i h1 where i: "reg_read bus IER (hw u) = (i, h1)" by (cases "reg_read bus IER (hw u)")
  obtain rest' fb m where p: "put_bytes bs (write_buffer (ctx u)) (umem u) = (rest', fb, m)" by (metis surj_pair)
  have u': "rest' = rest" "u' = u\<lparr>ctx := (ctx u)\<lparr>write_buffer := fb\<rparr>, umem := m, hw := reg_write bus IER (i OR THR_IT) h1\<rparr>"
    using assms(3) i p by (simp_all add: write_chunk_def)
  have ok: "fifo_ok (read_buffer (ctx u))" "fifo_ok (write_buffer (ctx u))"
    "fifos_apart (read_buffer (ctx u)) (write_buffer (ctx u))" using assms(2) by (simp_all add: uart_ok_def)
  from put_bytes_ok [OF ok(2) p] obtain dn where dn: "bs = dn @ rest'" "fifo_ok fb" "bp fb = bp (write_buffer (ctx u))"
    "sz fb = sz (write_buffer (ctx u))" "fifo_bytes (fb, m) = outgoing u @ dn"
    "fifo_bytes (read_buffer (ctx u), m) = incoming u"
    using ok(1) fifos_apart_sym [OF ok(3)] by (auto simp: outgoing_def incoming_def)
  moreover have "fifos_apart (read_buffer (ctx u)) fb"
    using fifos_apart_sym [OF fifos_apart_same [OF dn(3,4) fifos_apart_sym [OF ok(3)]]] .
  ultimately show ?thesis
    using u' ok(1) device_read [OF assms(1) i] device_write [OF assms(1), of IER]
    by (intro exI [of _ dn]) (simp add: uart_ok_def outgoing_def incoming_def)
qed

lemma read_step_ok:
  assumes "uart_ok u" and "get_bytes n (read_buffer (ctx u)) (umem u) = (bs, fb)"
    and "u' = u\<lparr>ctx := (ctx u)\<lparr>read_buffer := fb\<rparr>\<rparr>"
  shows "uart_ok u' \<and> outgoing u' = outgoing u \<and> incoming u = bs @ incoming u' \<and> hw u' = hw u"
  using assms get_bytes_ok [OF _ assms(2)] fifos_apart_same [of fb "read_buffer (ctx u)" "write_buffer (ctx u)"]
  by (auto simp: uart_ok_def outgoing_def incoming_def)

lemma uart_IRQ_ok:
  assumes "uart_device bus sent taken" and "uart_ok u" and "uart_IRQ bus u = (r, u')"
  shows "\<exists>kept lost. uart_ok u' \<and> sent (hw u') @ outgoing u' = sent (hw u) @ outgoing u \<and>
    taken (hw u') = taken (hw u) @ kept @ lost \<and> incoming u' = incoming u @ kept \<and> length lost \<le> 1"
proof -
  obtain i h1 where i: "reg_read bus IIR (hw u) = (i, h1)" by (cases "reg_read bus IIR (hw u)")
  note rd = device_read [OF assms(1) i]
  have ok: "fifo_ok (read_buffer (ctx u))" "fifo_ok (write_buffer (ctx u))"
    "fifos_apart (read_buffer (ctx u)) (write_buffer (ctx u))" using assms(2) by (simp_all add: uart_ok_def)
  consider (tx) "i AND IT_TYPE_MASK = IT_TYPE_THR" | (rx) "i AND IT_TYPE_MASK = IT_TYPE_RHR"
    | (none) "i AND IT_TYPE_MASK \<noteq> IT_TYPE_THR" "i AND IT_TYPE_MASK \<noteq> IT_TYPE_RHR" by blast
  then show ?thesis
  proof cases
    case tx
    obtain fb h2 where l: "irq_tx_loop bus (umem u) (write_buffer (ctx u)) h1 = (fb, h2)"
      by (cases "irq_tx_loop bus (umem u) (write_buffer (ctx u)) h1")
    have "IT_TYPE_THR \<noteq> IT_TYPE_RHR" by (simp add: IT_TYPE_THR_def IT_TYPE_RHR_def)
    then have u': "u' = u\<lparr>ctx := (ctx u)\<lparr>write_buffer := fb\<rparr>, hw := h2\<rparr>"
      using assms(3) i tx l by (simp add: uart_IRQ_def Let_def)
    note fb = irq_tx_loop_ok [OF assms(1) ok(2) l]
    then have "fifos_apart (read_buffer (ctx u)) fb"
      using fifos_apart_sym [OF fifos_apart_same [OF _ _ fifos_apart_sym [OF ok(3)]]] by blast
    then show ?thesis
      using u' fb ok rd by (intro exI [of _ "[]"]) (simp add: uart_ok_def outgoing_def incoming_def)
  next
    case rx
    obtain m fb h2 where l: "irq_rx_loop bus (umem u) (read_buffer (ctx u)) h1 = (m, fb, h2)" by (metis surj_pair)
    have "IT_TYPE_THR \<noteq> IT_TYPE_RHR" by (simp add: IT_TYPE_THR_def IT_TYPE_RHR_def)
    then have u': "u' = u\<lparr>ctx := (ctx u)\<lparr>read_buffer := fb\<rparr>, umem := m, hw := h2\<rparr>"
      using assms(3) i rx l by (simp add: uart_IRQ_def Let_def)
    from irq_rx_loop_ok [OF assms(1) ok(1) l] obtain kept lost where k: "fifo_ok fb" "bp fb = bp (read_buffer (ctx u))"
      "sz fb = sz (read_buffer (ctx u))" "sent h2 = sent h1" "taken h2 = taken h1 @ kept @ lost"
      "fifo_bytes (fb, m) = fifo_bytes (read_buffer (ctx u), umem u) @ kept" "length lost \<le> 1"
      "fifo_bytes (write_buffer (ctx u), m) = fifo_bytes (write_buffer (ctx u), umem u)" using ok(2,3) by blast
    then show ?thesis
      using u' ok rd fifos_apart_same [OF k(2,3) ok(3)]
      by (intro exI [of _ kept] exI [of _ lost]) (simp add: uart_ok_def outgoing_def incoming_def)
  next
    case none
    then have "u' = u\<lparr>hw := h1\<rparr>" using assms(3) i by (simp add: uart_IRQ_def Let_def)
    then show ?thesis
      using assms(2) rd by (intro exI [of _ "[]"]) (simp add: uart_ok_def outgoing_def incoming_def)
  qed
qed

text \<open>C30: However writers, readers, interrupts and the device take turns, every byte the driver has accepted
  is sent or waiting, in the order of acceptance, and the readers get received bytes in order.\<close>

theorem uart_bytes_in_order:
  assumes "uart_device bus sent taken" and "uart_ok u" and "uart_run bus sent taken u acc del u'"
  shows "uart_ok u' \<and> sent (hw u') @ outgoing u' = sent (hw u) @ outgoing u @ acc \<and>
    (\<exists>new. taken (hw u') = taken (hw u) @ new \<and> subseq (del @ incoming u') (incoming u @ new))"
  using assms(3)
proof (induction rule: uart_run.induct)
  case run_start
  then show ?case using assms(2) by simp
next
  case (run_write acc del u1 bs rest u2)
  then obtain dn where "bs = dn @ rest" "uart_ok u2" "outgoing u2 = outgoing u1 @ dn" "incoming u2 = incoming u1"
    "sent (hw u2) = sent (hw u1)" "taken (hw u2) = taken (hw u1)"
    using write_chunk_ok [OF assms(1)] by blast
  then show ?case using run_write.IH by auto
next
  case (run_read acc del u1 n bs fb)
  then show ?case using read_step_ok [OF _ run_read(2) refl] by auto
next
  case (run_irq acc del u1 r u2)
  then obtain new where new: "taken (hw u1) = taken (hw u) @ new" "subseq (del @ incoming u1) (incoming u @ new)"
    by blast
  from run_irq obtain kept lost where k: "uart_ok u2" "sent (hw u2) @ outgoing u2 = sent (hw u1) @ outgoing u1"
    "taken (hw u2) = taken (hw u1) @ kept @ lost" "incoming u2 = incoming u1 @ kept"
    using uart_IRQ_ok [OF assms(1)] by blast
  have "subseq ((del @ incoming u1) @ kept @ []) ((incoming u @ new) @ kept @ lost)"
    by (rule list_emb_append_mono [OF new(2)], rule list_emb_append_mono) simp_all
  then show ?case using k new run_irq.IH by (intro conjI exI [of _ "new @ kept @ lost"]) auto
next
  case (run_device acc del u1 h)
  then show ?case by (simp add: uart_ok_def outgoing_def incoming_def)
next
  case (run_other acc del u1 m)
  have "fifo_bytes (b, m) = fifo_bytes (b, umem u1)"
    if "b \<in> {read_buffer (ctx u1), write_buffer (ctx u1)}" "fifo_ok b" for b
    using run_other(2) that by (intro fifo_bytes_cong) auto
  then show ?case using run_other by (simp add: uart_ok_def outgoing_def incoming_def)
qed
text \<open>
  A device for the examples: it sends what it is given, always has room, and receives the byte 7 for
  ever. It is what has been sent and taken so far, and the \<open>IER\<close>.
\<close>

definition demo_bus :: "(u8 list \<times> u8 list \<times> u32) uart_bus" where
  "demo_bus = \<lparr>reg_read = \<lambda>r (s, t, ier).
       (if r = RHR then (7, s, t @ [7], ier)
        else (if r = IER then ier else if r = IIR then IT_TYPE_THR else if r = LSR then TX_SR_E else 0, s, t, ier)),
     reg_write = \<lambda>r v (s, t, ier).
       (if r = THR then (s @ [ucast v], t, ier) else if r = IER then (s, t, v) else (s, t, ier))\<rparr>"

definition demo_uart :: "(u8 list \<times> u8 list \<times> u32) uart" where
  "demo_uart = \<lparr>ctx = \<lparr>uc_regs = 0x49020000,
       read_buffer = \<lparr>bp = 0x80010000, ri = 0, wi = 0, sz = 4, rsz = 0, wsz = 4\<rparr>,
       write_buffer = \<lparr>bp = 0x80011000, ri = 0, wi = 0, sz = 4, rsz = 0, wsz = 4\<rparr>,
       uc_flags = UART_CONSOLE, irq_number = 74\<rparr>, umem = (\<lambda>_. 0), hw = ([], [], 0)\<rparr>"

lemma demo_device: "uart_device demo_bus fst (\<lambda>h. fst (snd h))"
  by (simp add: uart_device_def demo_bus_def split: prod.splits)

lemma unat_4_u16: "unat (4 :: u16) = 4" by simp

lemma demo_uart_ok: "uart_ok demo_uart"
proof -
  have "(0x80010000 + word_of_nat i :: u32) \<noteq> 0x80011000 + word_of_nat j" if "i < 4" "j < 4" for i j
  proof -
    have "i \<in> {0, 1, 2, 3}" "j \<in> {0, 1, 2, 3}" using that by auto
    then show ?thesis by auto
  qed
  then show ?thesis
    by (simp add: uart_ok_def demo_uart_def fifo_ok_def fifos_apart_def)
qed

lemma uart_bytes_in_order_witness:
  "\<exists>u u'. write_chunk demo_bus [65, 66] demo_uart = ([], u) \<and> uart_IRQ demo_bus u = (0, u') \<and>
     fst (hw u') @ outgoing u' = [65, 66]"
proof -
  obtain rest u where w: "write_chunk demo_bus [65, 66] demo_uart = (rest, u)" by (metis surj_pair)
  then have "rest = []"
    by (auto simp: write_chunk_def demo_bus_def demo_uart_def fifo_buffer_putb_def fifo_codes Let_def)
  obtain r u' where i: "uart_IRQ demo_bus u = (r, u')" by (metis surj_pair)
  then have "r = 0" by (auto simp: uart_IRQ_def Let_def split: prod.splits)
  have "uart_run demo_bus fst (\<lambda>h. fst (snd h)) demo_uart ([] @ take (length [65, 66 :: u8] - length rest) [65, 66]) [] u'"
    by (rule run_irq [OF run_write [OF run_start w] i])
  from uart_bytes_in_order [OF demo_device demo_uart_ok this] show ?thesis
    using w i \<open>rest = []\<close> \<open>r = 0\<close> by (simp add: demo_uart_def outgoing_def fifo_bytes_def)
qed

section \<open>Blocking writes\<close>

lemma put_bytes_progress:
  assumes "fifo_ok fb" and "unat (rsz fb) < unat (sz fb)" and "bs \<noteq> []" and "put_bytes bs fb m = (rest, fb', m')"
  shows "length rest < length bs"
proof -
  obtain b bs1 where bs: "bs = b # bs1" using assms(3) by (cases bs) auto
  obtain r fb1 m1 where p: "fifo_buffer_putb fb b m = (r, fb1, m1)" by (metis surj_pair)
  show ?thesis
  proof (cases rule: putb_cases [OF assms(1) p])
    case 1
    then have "put_bytes bs1 fb1 m1 = (rest, fb', m')" using assms(4) p bs by simp
    from put_bytes_ok [OF 1(2) this] show ?thesis using bs by auto
  next
    case 2
    then show ?thesis using assms(2) by simp
  qed
qed

lemma write_chunk_progress:
  assumes "uart_ok u" and "unat (rsz (write_buffer (ctx u))) < unat (sz (write_buffer (ctx u)))" and "bs \<noteq> []"
    and "write_chunk bus bs u = (rest, u')"
  shows "length rest < length bs"
  using put_bytes_progress [of "write_buffer (ctx u)" bs "umem u"] assms
  by (auto simp: write_chunk_def uart_ok_def Let_def split: prod.splits)

text \<open>\<open>IER\<close> keeps what is written to it, as seen by \<open>ier\<close>, and nothing else changes it.\<close>

definition ier_device :: "'h uart_bus \<Rightarrow> ('h \<Rightarrow> u32) \<Rightarrow> bool" where
  "ier_device bus ier \<longleftrightarrow>
     (\<forall>r h. ier (snd (reg_read bus r h)) = ier h) \<and> (\<forall>h. fst (reg_read bus IER h) = ier h) \<and>
     (\<forall>r v h. ier (reg_write bus r v h) = (if r = IER then v else ier h))"

lemma write_chunk_enables:
  assumes "ier_device bus ier" and "write_chunk bus bs u = (rest, u')"
  shows "ier (hw u') AND THR_IT \<noteq> 0"
proof -
  have "bit ((v OR THR_IT) AND THR_IT) 1" for v by (simp add: THR_IT_def bit_simps)
  then have on: "(v OR THR_IT) AND THR_IT \<noteq> 0" for v by fastforce
  obtain v h1 where v: "reg_read bus IER (hw u) = (v, h1)" by (metis surj_pair)
  obtain bs' fb m where p: "put_bytes bs (write_buffer (ctx u)) (umem u) = (bs', fb, m)" by (metis surj_pair)
  have "hw u' = reg_write bus IER (v OR THR_IT) h1" using assms(2) v p by (simp add: write_chunk_def Let_def) auto
  then have "ier (hw u') = v OR THR_IT" using assms(1) unfolding ier_device_def by simp
  then show ?thesis using on by simp
qed

lemma write_loop_room:
  assumes "uart_device bus sent taken" and ier: "ier_device bus ier" and "uart_ok u"
    and room: "unat (rsz (write_buffer (ctx u))) < unat (sz (write_buffer (ctx u)))"
    and yields: "\<And>u1. uart_ok u1 \<Longrightarrow> ier (hw u1) AND THR_IT \<noteq> 0 \<Longrightarrow> uart_ok (yield u1) \<and> (\<exists>acc del. uart_run bus sent taken u1 acc del (yield u1)) \<and>
      unat (rsz (write_buffer (ctx (yield u1)))) < unat (sz (write_buffer (ctx (yield u1))))"
  shows "\<exists>u' acc del. write_loop bus yield False bs u = Some ([], u') \<and>
    uart_run bus sent taken u acc del u' \<and> subseq bs acc"
  using assms(3) room
proof (induction "length bs" arbitrary: bs u rule: less_induct)
  case less
  show ?case
  proof (cases "bs = []")
    case True
    then show ?thesis
      by (subst write_loop.simps) (auto intro: run_start)
  next
    case False
    obtain rest u1 where w: "write_chunk bus bs u = (rest, u1)" by (cases "write_chunk bus bs u")
    from write_chunk_ok [OF assms(1) less.prems(1) w] obtain dn where dn: "bs = dn @ rest" "uart_ok u1" by blast
    have "uart_run bus sent taken u ([] @ take (length bs - length rest) bs) [] u1"
      by (rule run_write [OF run_start w])
    then have r1: "uart_run bus sent taken u dn [] u1" using dn(1) by simp
    show ?thesis
    proof (cases "rest = []")
      case True
      then show ?thesis using False w r1 dn(1) by (subst write_loop.simps) auto
    next
      case more: False
      note y = yields [OF dn(2) write_chunk_enables [OF ier w]]
      then obtain acc1 del1 where r2: "uart_run bus sent taken u1 acc1 del1 (yield u1)" by blast
      have "length rest < length bs" using write_chunk_progress [OF less.prems False w] .
      from less.hyps [OF this] y obtain u' acc2 del2 where l: "write_loop bus yield False rest (yield u1) = Some ([], u')"
        "uart_run bus sent taken (yield u1) acc2 del2 u'" "subseq rest acc2" by blast
      have "uart_run bus sent taken u (dn @ acc1 @ acc2) (del1 @ del2) u'"
        using uart_run_trans [OF r1 uart_run_trans [OF r2 l(2)]] by simp
      moreover have "subseq bs (dn @ acc1 @ acc2)"
        unfolding dn(1) by (rule list_emb_append_mono [OF _ list_emb_append2 [OF l(3)]]) simp
      moreover have "write_loop bus yield False bs u = Some ([], u')"
        using l(1) w False more by (subst write_loop.simps) simp
      ultimately show ?thesis by blast
    qed
  qed
qed

text \<open>A buffer that is full at first costs one round more.\<close>

lemma write_loop_all:
  assumes dev: "uart_device bus sent taken" and ier: "ier_device bus ier" and ok: "uart_ok u"
    and yields: "\<And>u1. uart_ok u1 \<Longrightarrow> ier (hw u1) AND THR_IT \<noteq> 0 \<Longrightarrow> uart_ok (yield u1) \<and>
      (\<exists>acc del. uart_run bus sent taken u1 acc del (yield u1)) \<and>
      unat (rsz (write_buffer (ctx (yield u1)))) < unat (sz (write_buffer (ctx (yield u1))))"
  shows "\<exists>u' acc del. write_loop bus yield False bs u = Some ([], u') \<and>
    uart_run bus sent taken u acc del u' \<and> subseq bs acc"
proof (cases "bs = []")
  case True
  then show ?thesis by (subst write_loop.simps) (auto intro: run_start)
next
  case False
  obtain rest u1 where w: "write_chunk bus bs u = (rest, u1)" by (cases "write_chunk bus bs u")
  from write_chunk_ok [OF dev ok w] obtain dn where dn: "bs = dn @ rest" "uart_ok u1" by blast
  have "uart_run bus sent taken u ([] @ take (length bs - length rest) bs) [] u1"
    by (rule run_write [OF run_start w])
  then have r1: "uart_run bus sent taken u dn [] u1" using dn(1) by simp
  show ?thesis
  proof (cases "rest = []")
    case True
    then show ?thesis using False w r1 dn(1) by (subst write_loop.simps) auto
  next
    case more: False
    note y = yields [OF dn(2) write_chunk_enables [OF ier w]]
    then obtain acc1 del1 where r2: "uart_run bus sent taken u1 acc1 del1 (yield u1)" by blast
    obtain u' acc2 del2 where l: "write_loop bus yield False rest (yield u1) = Some ([], u')"
      "uart_run bus sent taken (yield u1) acc2 del2 u'" "subseq rest acc2"
      using write_loop_room [OF dev ier conjunct1 [OF y] _ yields, of rest] y by blast
    have "uart_run bus sent taken u (dn @ acc1 @ acc2) (del1 @ del2) u'"
      using uart_run_trans [OF r1 uart_run_trans [OF r2 l(2)]] by simp
    moreover have "subseq bs (dn @ acc1 @ acc2)"
      unfolding dn(1) by (rule list_emb_append_mono [OF _ list_emb_append2 [OF l(3)]]) simp
    moreover have "write_loop bus yield False bs u = Some ([], u')"
      using l(1) w False more by (subst write_loop.simps) simp
    ultimately show ?thesis by blast
  qed
qed

text \<open>C31: A blocking write on the serial console accepts every byte, in order, and returns, also when it finds the buffer
  full: provided that whenever a writer yields with the transmit interrupt enabled, which it sees to
  itself, the interrupts have made room in the buffer before it runs again. The file is neither opened as the
  development console nor for non-blocking writes, and the call is not in an interrupt.\<close>

theorem uart_write_accepts_all:
  assumes "uart_device bus sent taken" and "ier_device bus ier" and "uart_ok u"
    and "uc_flags (ctx u) AND (UART_DEV OR UART_NONBLOCK) = 0"
    and yields: "\<And>u1. uart_ok u1 \<Longrightarrow> ier (hw u1) AND THR_IT \<noteq> 0 \<Longrightarrow> uart_ok (yield u1) \<and>
      (\<exists>acc del. uart_run bus sent taken u1 acc del (yield u1)) \<and>
      unat (rsz (write_buffer (ctx (yield u1)))) < unat (sz (write_buffer (ctx (yield u1))))"
  shows "\<exists>u' acc del. uart_write bus yield False bs u = Some (word_of_nat (length bs), u') \<and>
    uart_run bus sent taken u acc del u' \<and> subseq bs acc"
proof -
  have "uc_flags (ctx u) AND UART_DEV = 0" "uc_flags (ctx u) AND UART_NONBLOCK = 0"
    using assms(4) by (simp_all add: bit.conj_disj_distrib or_eq_0_iff)
  moreover obtain u' acc del where "write_loop bus yield False bs u = Some ([], u')"
    "uart_run bus sent taken u acc del u'" "subseq bs acc"
    using write_loop_all [OF assms(1,2,3) yields, of bs] by blast
  ultimately have "uart_write bus yield False bs u = Some (word_of_nat (length bs), u')"
    by (simp add: uart_write_def)
  then show ?thesis using \<open>uart_run bus sent taken u acc del u'\<close> \<open>subseq bs acc\<close> by blast
qed

text \<open>Example: the interrupt empties the buffer of the example device.\<close>

lemma demo_drains:
  "fifo_ok fb \<Longrightarrow> irq_tx_loop demo_bus m fb h = (fb', h') \<Longrightarrow> rsz fb' = 0"
proof (induction "unat (rsz fb)" arbitrary: fb h rule: less_induct)
  case less
  obtain r x fb1 where g: "fifo_buffer_getb fb m = (r, x, fb1)" by (metis surj_pair)
  have s: "reg_read demo_bus SSR h = (0, h)" by (simp add: demo_bus_def split: prod.splits)
  show ?case
  proof (cases rule: getb_cases [OF less.prems(1) g])
    case (1 y)
    have "length (fifo_bytes (fb, m)) = Suc (length (fifo_bytes (fb1, m)))" using 1(5) by simp
    then have "unat (rsz fb1) < unat (rsz fb)" by (simp add: fifo_bytes_length)
    moreover have "irq_tx_loop demo_bus m fb1 (reg_write demo_bus THR (ucast y) h) = (fb', h')"
      using less.prems(2) s g 1(1) by (subst (asm) irq_tx_loop.simps) simp
    ultimately show ?thesis using less.hyps 1(2) by blast
  next
    case 2
    then have "fb' = fb"
      using less.prems(2) s g by (subst (asm) irq_tx_loop.simps) (simp split: prod.splits)
    moreover have "unat (rsz fb) = 0" using 2(3) fifo_bytes_length [of fb m] by simp
    ultimately show ?thesis by (simp add: unsigned_eq_0_iff)
  qed
qed

lemma demo_irq:
  assumes "uart_ok u"
  shows "uart_ok (snd (uart_IRQ demo_bus u)) \<and>
    (\<exists>acc del. uart_run demo_bus fst (\<lambda>h. fst (snd h)) u acc del (snd (uart_IRQ demo_bus u))) \<and>
    unat (rsz (write_buffer (ctx (snd (uart_IRQ demo_bus u))))) <
      unat (sz (write_buffer (ctx (snd (uart_IRQ demo_bus u)))))"
proof -
  obtain r u' where i: "uart_IRQ demo_bus u = (r, u')" by (metis surj_pair)
  have ok: "uart_ok u'" using uart_IRQ_ok [OF demo_device assms i] by blast
  have "reg_read demo_bus IIR (hw u) = (IT_TYPE_THR, hw u)" by (simp add: demo_bus_def split: prod.splits)
  moreover have "IT_TYPE_THR AND IT_TYPE_MASK = IT_TYPE_THR" "IT_TYPE_THR \<noteq> IT_TYPE_RHR"
    by (simp_all add: IT_TYPE_THR_def IT_TYPE_MASK_def IT_TYPE_RHR_def)
  ultimately obtain h where l: "irq_tx_loop demo_bus (umem u) (write_buffer (ctx u)) (hw u) = (write_buffer (ctx u'), h)"
    using i by (auto simp: uart_IRQ_def Let_def split: prod.splits)
  then have "rsz (write_buffer (ctx u')) = 0" using demo_drains [OF _ l] assms by (simp add: uart_ok_def)
  moreover have "0 < unat (sz (write_buffer (ctx u')))" using ok by (auto simp: uart_ok_def fifo_ok_def)
  moreover have "uart_run demo_bus fst (\<lambda>h. fst (snd h)) u [] [] u'" by (rule run_irq [OF run_start i])
  ultimately show ?thesis using ok i by auto
qed

text \<open>A writer of six bytes that finds a buffer of four bytes full: three rounds.\<close>

definition full_uart :: "(u8 list \<times> u8 list \<times> u32) uart" where
  "full_uart = demo_uart\<lparr>ctx := (ctx demo_uart)\<lparr>write_buffer :=
     \<lparr>bp = 0x80011000, ri = 0, wi = 0, sz = 4, rsz = 4, wsz = 0\<rparr>\<rparr>\<rparr>"

lemma uart_write_accepts_all_witness:
  "\<exists>u' acc del. uart_write demo_bus (\<lambda>u. snd (uart_IRQ demo_bus u)) False [1, 2, 3, 4, 5, 6] full_uart = Some (6, u') \<and>
     uart_run demo_bus fst (\<lambda>h. fst (snd h)) full_uart acc del u' \<and> subseq [1, 2, 3, 4, 5, 6] acc"
proof -
  have "uc_flags (ctx full_uart) AND (UART_DEV OR UART_NONBLOCK) = 0"
    by (simp add: full_uart_def demo_uart_def UART_CONSOLE_def UART_DEV_def UART_NONBLOCK_def BIT_def)
  moreover have "ier_device demo_bus (\<lambda>h. snd (snd h))"
    by (simp add: ier_device_def demo_bus_def split: prod.splits)
  moreover have "uart_ok full_uart"
    using demo_uart_ok by (simp add: uart_ok_def full_uart_def demo_uart_def fifo_ok_def fifos_apart_def)
  ultimately show ?thesis
    using uart_write_accepts_all [OF demo_device _ _ _ demo_irq, of "\<lambda>h. snd (snd h)" full_uart "[1, 2, 3, 4, 5, 6]"] by auto
qed

end
