(* ===== verification/Console.thy ===== *)
theory Console
  imports Uart_Spec Printf_Spec
begin

text \<open>
  \<open>src/kernel/console/console.c\<close>: the kernel's console. Until a serial driver is open \<open>kprintf\<close> prints
  through \<open>_debug_out\<close>, which polls the UART; afterwards through the \<open>write\<close> of the driver.
\<close>

section \<open>The console\<close>

record ('s, 'i) console =
  console_file :: "'s file_itf option"
  console_irq :: "'i option"

definition no_console :: "('s, 'i) console" where
  "no_console = \<lparr>console_file = None, console_irq = None\<rparr>"

text \<open>
  \<open>console_setup\<close>: what opening the serial console answers is an argument, and so are the interrupt
  controller, if there is one, and its operations.
\<close>

definition console_setup ::
  "(u32 \<Rightarrow> u32 \<Rightarrow> 's \<Rightarrow> int \<times> 's file_itf option \<times> 'i option \<times> 's) \<Rightarrow> 'c option
    \<Rightarrow> ('c \<Rightarrow> 'i \<Rightarrow> 's \<Rightarrow> 's) \<Rightarrow> ('c \<Rightarrow> 'i \<Rightarrow> 's \<Rightarrow> 's) \<Rightarrow> ('s, 'i) console \<Rightarrow> 's \<Rightarrow> ('s, 'i) console \<times> 's" where
  "console_setup opens intc register_handler unmask c s =
     (case opens CHRD_SERIAL_CONSOLE_MAJOR CHRD_SERIAL_CONSOLE_MINOR s of
        (r, f, i, s1) \<Rightarrow>
          if r = 0 then
            let c' = c\<lparr>console_file := f, console_irq := i\<rparr>
            in case (i, intc) of
                 (Some irq, Some ic) \<Rightarrow> (c', unmask ic irq (register_handler ic irq s1))
               | _ \<Rightarrow> (c', s1)
          else (c, s1))"

definition console_panic :: "('s, 'i) console \<Rightarrow> ('s, 'i) console" where
  "console_panic c = c\<lparr>console_file := None\<rparr>"

definition console_teardown :: "('s, 'i) console \<Rightarrow> ('s, 'i) console" where
  "console_teardown c = c\<lparr>console_file := None\<rparr>"

definition kprintf :: "bool \<Rightarrow> (string \<Rightarrow> 's \<Rightarrow> 's) \<Rightarrow> ('s, 'i) console \<Rightarrow> string \<Rightarrow> va_arg list \<Rightarrow> 's
    \<Rightarrow> (u32 \<times> 's) option option" where
  "kprintf with_64bit dbg c format va s =
     vfprintf with_64bit (case console_file c of Some f \<Rightarrow> f | None \<Rightarrow> File_early dbg) format va s"

definition kgets :: "('s, 'i) console \<Rightarrow> nat \<Rightarrow> read_event list \<Rightarrow> (string option \<times> read_event list) option" where
  "kgets c nchars evs = (if console_file c \<noteq> None then fgets nchars evs else Some (None, evs))"

definition kgetchar :: "('s, 'i) console \<Rightarrow> read_event list \<Rightarrow> (char \<times> read_event list) option" where
  "kgetchar c evs =
     (case kgets c 2 evs of
        None \<Rightarrow> None
      | Some (Some (ch # _), evs') \<Rightarrow> Some (ch, evs')
      | Some (_, evs') \<Rightarrow> Some (CHR 0x00, evs'))"

section \<open>The early console\<close>

text \<open>\<open>_debug_out\<close> as the early console of \<open>fprintf.c\<close> calls it; \<open>None\<close> is a machine that polls for ever.\<close>

definition early_out :: "'h uart_bus \<Rightarrow> string \<Rightarrow> 'h option \<Rightarrow> 'h option" where
  "early_out bus str so = Option.bind so (\<lambda>h. map_option snd (debug_out bus str h))"

text \<open>A transmitter that gets on with its work: polling it comes nearer to room, and to its end.\<close>

definition uart_drains :: "'h uart_bus \<Rightarrow> ('h \<Rightarrow> nat) \<Rightarrow> bool" where
  "uart_drains bus busy \<longleftrightarrow>
     (\<forall>h. (fst (reg_read bus SSR h) AND TX_FIFO_FULL \<noteq> 0 \<longrightarrow> busy (snd (reg_read bus SSR h)) < busy h) \<and>
          (fst (reg_read bus LSR h) AND TX_SR_E = 0 \<longrightarrow> busy (snd (reg_read bus LSR h)) < busy h))"

lemma debug_loop_sends:
  assumes "uart_device bus sent taken" and "uart_drains bus busy"
  shows "\<exists>h'. debug_loop bus bs h = Some h' \<and> sent h' = sent h @ bs"
proof (induction bs arbitrary: h)
  case Nil
  then show ?case by (subst debug_loop.simps) simp
next
  case (Cons b bs)
  show ?case
  proof (induction "busy h" arbitrary: h rule: less_induct)
    case less
    obtain s h1 where s: "reg_read bus SSR h = (s, h1)" by (cases "reg_read bus SSR h")
    show ?case
    proof (cases "s AND TX_FIFO_FULL = 0")
      case True
      obtain h' where "debug_loop bus bs (reg_write bus THR (ucast b) h1) = Some h'"
        "sent h' = sent (reg_write bus THR (ucast b) h1) @ bs" using Cons.IH by blast
      then show ?thesis
        using s True device_send [OF assms(1) s True, of "ucast b"] by (subst debug_loop.simps) simp
    next
      case False
      then have "busy h1 < busy h" using assms(2) s unfolding uart_drains_def by (metis fst_conv snd_conv)
      from less [OF this] show ?thesis
        using s False device_read(1) [OF assms(1) s] by (subst debug_loop.simps) simp
    qed
  qed
qed

text \<open>
  What has left the transmitter: \<open>wire\<close> falls behind \<open>sent\<close>, which counts what was handed to it, until the transmitter
  reports that its buffer and its shift register are empty.
\<close>

definition uart_wire :: "'h uart_bus \<Rightarrow> ('h \<Rightarrow> u8 list) \<Rightarrow> ('h \<Rightarrow> u8 list) \<Rightarrow> bool" where
  "uart_wire bus sent wire \<longleftrightarrow>
     (\<forall>h. fst (reg_read bus LSR h) AND TX_SR_E \<noteq> 0 \<longrightarrow>
        wire (snd (reg_read bus LSR h)) = sent (snd (reg_read bus LSR h)))"

lemma flush_ends:
  assumes "uart_device bus sent taken" and "uart_drains bus busy" and "uart_wire bus sent wire"
  shows "\<exists>h'. flush_loop bus h = Some h' \<and> sent h' = sent h \<and> wire h' = sent h"
proof (induction "busy h" arbitrary: h rule: less_induct)
  case less
  obtain s h1 where s: "reg_read bus LSR h = (s, h1)" by (cases "reg_read bus LSR h")
  show ?case
  proof (cases "s AND TX_SR_E = 0")
    case True
    then have "busy h1 < busy h" using assms(2) s unfolding uart_drains_def by (metis fst_conv snd_conv)
    from less [OF this] show ?thesis
      using s True device_read(1) [OF assms(1) s] by (subst flush_loop.simps) simp
  next
    case False
    then have "wire h1 = sent h1" using assms(3) s unfolding uart_wire_def by (metis fst_conv snd_conv)
    then show ?thesis using s False device_read(1) [OF assms(1) s] by (subst flush_loop.simps) simp
  qed
qed

definition sent_text :: "('h \<Rightarrow> u8 list) \<Rightarrow> 'h option \<Rightarrow> string" where
  "sent_text sent so = map (\<lambda>b. char_of (unat b)) (sent (the so))"

lemma char_of_byte [simp]: "char_of (unat (word_of_nat (char_code c) :: u8)) = c"
  using nat_of_char_less_256 [of c] by (simp add: char_code_def unat_of_nat)

text \<open>The state of the early console: nothing has been printed since \<open>h0\<close>, or all that was handed over is on the wire.\<close>

definition early_state :: "('h \<Rightarrow> u8 list) \<Rightarrow> ('h \<Rightarrow> u8 list) \<Rightarrow> 'h \<Rightarrow> 'h option \<Rightarrow> bool" where
  "early_state sent wire h0 so \<longleftrightarrow> (case so of None \<Rightarrow> False | Some h \<Rightarrow> h = h0 \<or> wire h = sent h)"

lemma early_console_sink:
  assumes "uart_device bus sent taken" and "uart_drains bus busy" and "uart_wire bus sent wire"
  shows "text_sink (early_state sent wire h0) (sent_text sent) (File_early (early_out bus))"
  unfolding text_sink_def
proof (intro allI impI)
  fix str :: string and so :: "'a option" assume "early_state sent wire h0 so \<and> CHR 0x00 \<notin> set str"
  then obtain h where h: "so = Some h" by (auto simp: early_state_def split: option.splits)
  obtain h1 where 1: "debug_loop bus (bytes_of str) h = Some h1" "sent h1 = sent h @ bytes_of str"
    using debug_loop_sends [OF assms(1,2)] by blast
  obtain h2 where 2: "flush_loop bus h1 = Some h2" "sent h2 = sent h1" "wire h2 = sent h1" using flush_ends [OF assms] by blast
  have "early_out bus str so = Some h2" using h 1 2 by (simp add: early_out_def debug_out_def uart_debug_def)
  then show "fst (puts (File_early (early_out bus)) str so) = word_of_nat (length str) \<and>
      early_state sent wire h0 (snd (puts (File_early (early_out bus)) str so)) \<and>
      sent_text sent (snd (puts (File_early (early_out bus)) str so)) = sent_text sent so @ str"
    using 1 2 h by (simp add: puts_def early_state_def sent_text_def bytes_of_def comp_def)
qed


text \<open>A transmitter that is slow, for the example: what is on the wire, what waits behind it, and what was received.\<close>

definition slow_bus :: "(u8 list \<times> u8 list \<times> u8 list) uart_bus" where
  "slow_bus = \<lparr>reg_read = \<lambda>r (w, q, t).
       (if r = RHR then (7, w, q, t @ [7])
        else if r = LSR then (if q = [] then (TX_SR_E, w, q, t) else (0, w @ [hd q], tl q, t))
        else (0, w, q, t)),
     reg_write = \<lambda>r v (w, q, t). (if r = THR then (w, q @ [ucast v], t) else (w, q, t))\<rparr>"

lemma slow_device: "uart_device slow_bus (\<lambda>(w, q, t). w @ q) (\<lambda>(w, q, t). t)"
  by (simp add: uart_device_def slow_bus_def split: prod.splits)


end
