(* ===== verification/Registers.thy ===== *)
theory Registers
  imports Prelude
begin

text \<open>
  Memory-mapped registers, as the drivers see them: a bus says what a volatile read answers and what
  reads and writes do to the device behind it. The bus of a driver is an argument of its model.
\<close>

record ('r, 'h) bus =
  peek :: "'r \<Rightarrow> 'h \<Rightarrow> u32 \<times> 'h"
  poke :: "'r \<Rightarrow> u32 \<Rightarrow> 'h \<Rightarrow> 'h"

text \<open>The state of a driver extends the state of the device it drives.\<close>

record 'h machine =
  dev :: 'h

definition rd :: "('r, 'h) bus \<Rightarrow> 'r \<Rightarrow> ('h, 'z) machine_scheme \<Rightarrow> u32 \<times> ('h, 'z) machine_scheme" where
  "rd bus r s = (case peek bus r (dev s) of (v, h) \<Rightarrow> (v, s\<lparr>dev := h\<rparr>))"

definition wr :: "('r, 'h) bus \<Rightarrow> 'r \<Rightarrow> u32 \<Rightarrow> ('h, 'z) machine_scheme \<Rightarrow> ('h, 'z) machine_scheme" where
  "wr bus r v s = s\<lparr>dev := poke bus r v (dev s)\<rparr>"

definition wr_all ::
  "('r, 'h) bus \<Rightarrow> ('r \<times> u32) list \<Rightarrow> ('h, 'z) machine_scheme \<Rightarrow> ('h, 'z) machine_scheme" where
  "wr_all bus rvs s = fold (\<lambda>(r, v). wr bus r v) rvs s"

text \<open>\<open>while(!ready(register));\<close>\<close>

partial_function (option) poll ::
  "('r, 'h) bus \<Rightarrow> 'r \<Rightarrow> (u32 \<Rightarrow> bool) \<Rightarrow> ('h, 'z) machine_scheme \<Rightarrow> ('h, 'z) machine_scheme option" where
  "poll bus r ready s =
     (case rd bus r s of (v, s1) \<Rightarrow> if ready v then Some s1 else poll bus r ready s1)"

declare poll.simps [code]

text \<open>What every read keeps, polling keeps, and it ends with the register ready.\<close>

lemma poll_induct:
  assumes "poll bus r ready s = Some s'" and "P s"
    and "\<And>s v s1. P s \<Longrightarrow> rd bus r s = (v, s1) \<Longrightarrow> P s1"
  shows "P s'"
proof -
  have "bus = bus \<longrightarrow> r = r \<longrightarrow> P s \<longrightarrow> P s'"
  proof (rule poll.raw_induct [where P = "\<lambda>b q ok s s'. b = bus \<longrightarrow> q = r \<longrightarrow> P s \<longrightarrow> P s'", OF _ assms(1)], intro impI)
    fix poll' b q ok and t t' :: "('a, 'b) machine_scheme"
    assume IH: "\<And>b q ok t t'. poll' b q ok t = Some t' \<Longrightarrow> b = bus \<longrightarrow> q = r \<longrightarrow> P t \<longrightarrow> P t'"
      and run: "(case rd b q t of (v, t1) \<Rightarrow> if ok v then Some t1 else poll' b q ok t1) = Some t'"
      and eq: "b = bus" "q = r" and t: "P t"
    obtain v t1 where v: "rd bus r t = (v, t1)" by (metis surj_pair)
    have t1: "P t1" using assms(3) [OF t v] .
    show "P t'"
    proof (cases "ok v")
      case True
      then show ?thesis using run eq v t1 by simp
    next
      case False
      then show ?thesis using IH [of b q ok t1 t'] run eq v t1 by simp
    qed
  qed
  then show ?thesis using assms(2) by blast
qed

text \<open>Registers that hold what was written to them, to run the drivers on.\<close>

definition latch :: "('r, 'r \<Rightarrow> u32) bus" where
  "latch = \<lparr>peek = (\<lambda>r h. (h r, h)), poke = (\<lambda>r v h. h(r := v))\<rparr>"

lemma rd_latch [simp]: "rd latch r s = (dev s r, s)"
  by (simp add: rd_def latch_def)

lemma wr_latch [simp]: "wr latch r v s = s\<lparr>dev := (dev s)(r := v)\<rparr>"
  by (simp add: wr_def latch_def)

text \<open>A small word has no high bits.\<close>

lemma word_small_bits: "unat (w :: u32) < 2 ^ k \<Longrightarrow> bit w n \<Longrightarrow> n < k"
proof (rule ccontr)
  assume w: "unat w < 2 ^ k" and b: "bit w n" and "\<not> n < k"
  then have "take_bit k (unat w) = unat w" by (simp add: take_bit_nat_eq_self)
  moreover have "bit (unat w) n" using b by (simp add: bit_unsigned_iff)
  ultimately show False using \<open>\<not> n < k\<close> by (metis bit_take_bit_iff)
qed

end
