(* ===== verification/Radio.thy ===== *)
theory Radio
  imports Packet_Fifo Registers
begin

text \<open>
  \<open>src/kernel/drivers/ns/nRF51822/radio/\<close>: the 2.4 GHz radio of the micro:bit, as a character
  device that receives packets by DMA into a packet ring. Registers are behind a bus; spin locks mask
  interrupts on the one core, so what is done under the lock is one step. What interrupts and other
  threads do between two such steps is an argument of the loops.
\<close>

section \<open>Registers\<close>

text \<open>The registers of \<open>regs.h\<close> the driver uses, tasks, events and the factory data included.\<close>

datatype radio_reg =
  TXEN | RXEN | START | DISABLE
  | READY | PAYLOAD | END | DISABLED
  | INTENSET | INTENCLR | CRCSTATUS | PACKETPTR | FREQUENCY | MODE | PCNF0 | PCNF1
  | BASE0 | BASE1 | PREFIX0 | TXADDRESS | RXADDRESSES | CRCCNF | CRCPOLY | CRCINIT
  | STATE | DATAWHITEIV | OVERRIDE0 | OVERRIDE1 | OVERRIDE2 | OVERRIDE3 | OVERRIDE4 | POWER
  | OVERRIDEEN | BLE_1MBIT0 | BLE_1MBIT1 | BLE_1MBIT2 | BLE_1MBIT3 | BLE_1MBIT4

definition RADIO_BASE :: u32 where "RADIO_BASE = 0x40001000"
definition FICR_BASE :: u32 where "FICR_BASE = 0x10000000"

definition task_offsets :: "(radio_reg \<times> u32) list" where
  "task_offsets = [(TXEN, 0x000), (RXEN, 0x004), (START, 0x008), (DISABLE, 0x010)]"

definition event_offsets :: "(radio_reg \<times> u32) list" where
  "event_offsets = [(READY, 0x100), (PAYLOAD, 0x108), (END, 0x10C), (DISABLED, 0x110)]"

definition register_offsets :: "(radio_reg \<times> u32) list" where
  "register_offsets =
     [(INTENSET, 0x304), (INTENCLR, 0x308), (CRCSTATUS, 0x400), (PACKETPTR, 0x504), (FREQUENCY, 0x508),
      (MODE, 0x510), (PCNF0, 0x514), (PCNF1, 0x518), (BASE0, 0x51C), (BASE1, 0x520), (PREFIX0, 0x524),
      (TXADDRESS, 0x52C), (RXADDRESSES, 0x530), (CRCCNF, 0x534), (CRCPOLY, 0x538), (CRCINIT, 0x53C),
      (STATE, 0x550), (DATAWHITEIV, 0x554)]"

definition override_offsets :: "(radio_reg \<times> u32) list" where
  "override_offsets =
     [(OVERRIDE0, 0x724), (OVERRIDE1, 0x728), (OVERRIDE2, 0x72C), (OVERRIDE3, 0x730), (OVERRIDE4, 0x734),
      (POWER, 0xFFC)]"

definition ficr_offsets :: "(radio_reg \<times> u32) list" where
  "ficr_offsets = [(OVERRIDEEN, 0x0AC), (BLE_1MBIT0, 0x0EC), (BLE_1MBIT1, 0x0F0), (BLE_1MBIT2, 0x0F4),
                   (BLE_1MBIT3, 0x0F8), (BLE_1MBIT4, 0x0FC)]"

definition radio_addresses :: "(radio_reg \<times> u32) list" where
  "radio_addresses =
     map (\<lambda>(r, n). (r, n + RADIO_BASE)) (task_offsets @ event_offsets @ register_offsets @ override_offsets) @
     map (\<lambda>(r, n). (r, n + FICR_BASE)) ficr_offsets"

text \<open>Every register is somewhere, and no two are in the same place.\<close>

lemma radio_addresses_distinct:
  "map fst radio_addresses = [TXEN, RXEN, START, DISABLE, READY, PAYLOAD, END, DISABLED, INTENSET, INTENCLR,
     CRCSTATUS, PACKETPTR, FREQUENCY, MODE, PCNF0, PCNF1, BASE0, BASE1, PREFIX0, TXADDRESS, RXADDRESSES, CRCCNF,
     CRCPOLY, CRCINIT, STATE, DATAWHITEIV, OVERRIDE0, OVERRIDE1, OVERRIDE2, OVERRIDE3, OVERRIDE4, POWER, OVERRIDEEN,
     BLE_1MBIT0, BLE_1MBIT1, BLE_1MBIT2, BLE_1MBIT3, BLE_1MBIT4] \<and> distinct (map snd radio_addresses)"
  by code_simp

definition INTEN_READY :: u32 where "INTEN_READY = BIT 0"
definition INTEN_PAYLOAD :: u32 where "INTEN_PAYLOAD = BIT 2"
definition INTEN_END :: u32 where "INTEN_END = BIT 3"
definition INTEN_DISABLED :: u32 where "INTEN_DISABLED = BIT 4"

definition MODE_BLE_1MBIT :: u32 where "MODE_BLE_1MBIT = 3"

definition STATUS_DISABLED :: u32 where "STATUS_DISABLED = 0"
definition STATUS_RXRU :: u32 where "STATUS_RXRU = 1"
definition STATUS_RXIDLE :: u32 where "STATUS_RXIDLE = 2"
definition STATUS_RX :: u32 where "STATUS_RX = 3"
definition STATUS_RXDISABLE :: u32 where "STATUS_RXDISABLE = 4"
definition STATUS_TXRU :: u32 where "STATUS_TXRU = 9"
definition STATUS_TXIDLE :: u32 where "STATUS_TXIDLE = 10"
definition STATUS_TX :: u32 where "STATUS_TX = 11"
definition STATUS_TXDISABLE :: u32 where "STATUS_TXDISABLE = 12"

lemmas status_defs = STATUS_DISABLED_def STATUS_RXRU_def STATUS_RXIDLE_def STATUS_RX_def STATUS_RXDISABLE_def
  STATUS_TXRU_def STATUS_TXIDLE_def STATUS_TX_def STATUS_TXDISABLE_def

definition OVERRIDE4_ENABLE :: u32 where "OVERRIDE4_ENABLE = BIT 31"
definition OVERRIDEEN_BLE_1MBIT :: u32 where "OVERRIDEEN_BLE_1MBIT = BIT 3"

definition PCNF0_LFLEN_BITS :: "u32 \<Rightarrow> u32" where "PCNF0_LFLEN_BITS b = b"
definition PCNF0_S0LEN_BYTES :: "u32 \<Rightarrow> u32" where "PCNF0_S0LEN_BYTES b = push_bit 8 b"
definition PCNF0_S1LEN_BITS :: "u32 \<Rightarrow> u32" where "PCNF0_S1LEN_BITS b = push_bit 16 b"

definition PCNF1_MAXLEN :: "u32 \<Rightarrow> u32" where "PCNF1_MAXLEN b = b"
definition PCNF1_STATLEN :: "u32 \<Rightarrow> u32" where "PCNF1_STATLEN b = push_bit 8 b"
definition PCNF1_BALEN :: "u32 \<Rightarrow> u32" where "PCNF1_BALEN b = push_bit 16 b"
definition PCNF1_ENDIAN :: "u32 \<Rightarrow> u32" where "PCNF1_ENDIAN b = push_bit 24 b"
definition PCNF1_WHITEEN :: "u32 \<Rightarrow> u32" where "PCNF1_WHITEEN w1 = push_bit 25 w1"

definition CRCCNF_LEN :: "u32 \<Rightarrow> u32" where "CRCCNF_LEN l = l"
definition CRCCNF_SKIPADDR :: "u32 \<Rightarrow> u32" where "CRCCNF_SKIPADDR s1 = BIT 8"

section \<open>The context\<close>

definition TARGET_STATE_OFF :: u8 where "TARGET_STATE_OFF = 0"
definition TARGET_STATE_RX :: u8 where "TARGET_STATE_RX = 1"
definition TARGET_STATE_TX :: u8 where "TARGET_STATE_TX = 2"

lemmas target_defs = TARGET_STATE_OFF_def TARGET_STATE_RX_def TARGET_STATE_TX_def

definition BUFFER_RECV_PACKETS :: u32 where "BUFFER_RECV_PACKETS = 1"
definition BUFFER_SEND_PACKETS :: u32 where "BUFFER_SEND_PACKETS = 1"
definition PAYLOAD_SIZE :: u32 where "PAYLOAD_SIZE = 39"

record radio_context =
  rx_ring :: packet_fifo
  tx_ring :: packet_fifo
  rc_error :: u32
  rx_address :: u32
  tx_address :: u32
  channel :: u8
  target_state :: u8

text \<open>The driver: the device, the one context of the driver and the memory the packets lie in.\<close>

record 'h radio = "'h machine" +
  rctx :: radio_context
  rmem :: memory

definition set_rx :: "packet_fifo \<Rightarrow> 'h radio \<Rightarrow> 'h radio" where
  "set_rx b s = s\<lparr>rctx := (rctx s)\<lparr>rx_ring := b\<rparr>\<rparr>"

definition set_error :: "int \<Rightarrow> 'h radio \<Rightarrow> 'h radio" where
  "set_error e s = s\<lparr>rctx := (rctx s)\<lparr>rc_error := word_of_int e\<rparr>\<rparr>"

type_synonym 'h radio_bus = "(radio_reg, 'h) bus"

section \<open>util.h\<close>

definition cancel_rx :: "'h radio_bus \<Rightarrow> 'h radio \<Rightarrow> int \<times> 'h radio" where
  "cancel_rx bus s =
     (case rd bus STATE s of (st, s1) \<Rightarrow> if st = STATUS_RX then (0, wr bus DISABLE 1 s1) else (0, s1))"

definition channel_to_freq :: "u8 \<Rightarrow> u32" where
  "channel_to_freq ch =
     (if ch = 37 then 2 else if ch = 38 then 26 else if ch = 39 then 80
      else if ch \<le> 10 then 4 + ucast ch * 2 else 6 + ucast ch * 2)"

definition configure_channel :: "'h radio_bus \<Rightarrow> u8 \<Rightarrow> 'h radio \<Rightarrow> 'h radio" where
  "configure_channel bus ch s = wr bus DATAWHITEIV (ucast ch) (wr bus FREQUENCY (channel_to_freq ch) s)"

definition wrong_channel :: "'h radio_bus \<Rightarrow> 'h radio \<Rightarrow> bool \<times> 'h radio" where
  "wrong_channel bus s =
     (case rd bus FREQUENCY s of (f, s1) \<Rightarrow> (f \<noteq> channel_to_freq (channel (rctx s)), s1))"

definition should_txidle :: "'h radio_bus \<Rightarrow> 'h radio \<Rightarrow> bool \<times> 'h radio" where
  "should_txidle bus s =
     (case wrong_channel bus s of (wrong, s1) \<Rightarrow>
        (\<not> wrong \<and> (target_state (rctx s1) = TARGET_STATE_TX \<or> packet_fifo_size (tx_ring (rctx s1)) \<noteq> 0), s1))"

definition should_rxidle :: "'h radio_bus \<Rightarrow> 'h radio \<Rightarrow> bool \<times> 'h radio" where
  "should_rxidle bus s =
     (case wrong_channel bus s of (wrong, s1) \<Rightarrow>
        (\<not> wrong \<and> target_state (rctx s1) = TARGET_STATE_RX \<and> packet_fifo_size (tx_ring (rctx s1)) = 0, s1))"

definition should_rx :: "'h radio_bus \<Rightarrow> 'h radio \<Rightarrow> bool \<times> 'h radio" where
  "should_rx bus s =
     (case should_rxidle bus s of (idle, s1) \<Rightarrow>
        (idle \<and> packet_fifo_size (rx_ring (rctx s1)) < int (unat BUFFER_RECV_PACKETS), s1))"

definition configure_tx_address :: "'h radio_bus \<Rightarrow> u32 \<Rightarrow> 'h radio \<Rightarrow> 'h radio" where
  "configure_tx_address bus addr s =
     (case rd bus PREFIX0 s of (prefix0, s1) \<Rightarrow>
        wr_all bus [(BASE0, push_bit 8 addr),
                    (PREFIX0, (prefix0 AND 0xFFFFFF00) OR drop_bit 24 addr),
                    (TXADDRESS, 0)] s1)"

definition configure_rx_address :: "'h radio_bus \<Rightarrow> u32 \<Rightarrow> 'h radio \<Rightarrow> 'h radio" where
  "configure_rx_address bus addr s =
     (case rd bus PREFIX0 s of (prefix0, s1) \<Rightarrow>
        wr_all bus [(BASE1, push_bit 8 addr),
                    (PREFIX0, (prefix0 AND 0xFFFF00FF) OR push_bit 8 (drop_bit 24 addr)),
                    (RXADDRESSES, BIT 1)] s1)"

text \<open>The trim values of the factory data, each read just before it is written.\<close>

definition copy_reg :: "'h radio_bus \<Rightarrow> radio_reg \<Rightarrow> radio_reg \<Rightarrow> u32 \<Rightarrow> 'h radio \<Rightarrow> 'h radio" where
  "copy_reg bus src dst bits s = (case rd bus src s of (v, s1) \<Rightarrow> wr bus dst (v OR bits) s1)"

definition configure_ble :: "'h radio_bus \<Rightarrow> 'h radio \<Rightarrow> 'h radio" where
  "configure_ble bus s =
     (case rd bus OVERRIDEEN (wr bus MODE MODE_BLE_1MBIT s) of (en, s1) \<Rightarrow>
        let s2 = (if en AND OVERRIDEEN_BLE_1MBIT \<noteq> 0 then
                    copy_reg bus BLE_1MBIT4 OVERRIDE4 OVERRIDE4_ENABLE
                      (copy_reg bus BLE_1MBIT4 OVERRIDE4 0
                        (copy_reg bus BLE_1MBIT3 OVERRIDE3 0
                          (copy_reg bus BLE_1MBIT2 OVERRIDE2 0
                            (copy_reg bus BLE_1MBIT1 OVERRIDE1 0
                              (copy_reg bus BLE_1MBIT0 OVERRIDE0 0 s1)))))
                  else s1)
        in wr_all bus [(PCNF0, PCNF0_LFLEN_BITS 6 OR PCNF0_S0LEN_BYTES 1 OR PCNF0_S1LEN_BITS 2),
                       (PCNF1, PCNF1_MAXLEN 37 OR PCNF1_STATLEN 0 OR PCNF1_BALEN 3 OR PCNF1_ENDIAN 0 OR
                               PCNF1_WHITEEN 1),
                       (CRCCNF, CRCCNF_LEN 3 OR CRCCNF_SKIPADDR 1),
                       (CRCPOLY, 0x0000065B), (CRCINIT, 0x00555555)] s2)"

definition power_up :: "'h radio_bus \<Rightarrow> 'h radio \<Rightarrow> 'h radio option" where
  "power_up bus s =
     (case rd bus POWER s of (p, s1) \<Rightarrow>
        if p \<noteq> 0 then Some s1
        else let s2 = configure_ble bus (wr bus POWER 1 s1);
                 s3 = wr bus RXEN 1 (configure_channel bus (channel (rctx s2)) s2)
             in Option.bind (poll bus READY (\<lambda>v. v \<noteq> 0) s3)
                  (\<lambda>s4. poll bus DISABLED (\<lambda>v. v \<noteq> 0) (wr bus DISABLE 1 (wr bus READY 0 s4))))"

section \<open>irq.h\<close>

definition irq_rxidle :: "'h radio_bus \<Rightarrow> 'h radio \<Rightarrow> int \<times> 'h radio" where
  "irq_rxidle bus s =
     (let s1 = set_rx (snd (packet_fifo_write_cancel (rx_ring (rctx s)))) s
      in case should_rx bus s1 of (start, s2) \<Rightarrow>
           (case (if start then packet_fifo_write_lock (rx_ring (rctx s2))
                  else (FIFO_PACKET_FAILURE, None, rx_ring (rctx s2))) of
              (_, Some packet, b) \<Rightarrow>
                let s3 = wr_all bus [(READY, 0), (END, 0), (PACKETPTR, packet),
                                     (INTENSET, INTEN_PAYLOAD OR INTEN_END)] (set_rx b s2)
                in (0, wr bus START 1 (configure_rx_address bus (rx_address (rctx s3)) s3))
            | (_, None, b) \<Rightarrow>
                (case should_rxidle bus (set_rx b s2) of (idle, s3) \<Rightarrow>
                   if idle then (0, wr bus INTENCLR (INTEN_READY OR INTEN_END) s3)
                   else (0, wr_all bus [(READY, 0), (END, 0), (DISABLE, 1)] s3))))"

definition irq_txidle :: "'h radio_bus \<Rightarrow> 'h radio \<Rightarrow> int \<times> 'h radio" where
  "irq_txidle bus s = (-1, configure_tx_address bus (tx_address (rctx s)) s)"

definition xxidle_error :: "u32 \<Rightarrow> int" where
  "xxidle_error st =
     (if st = STATUS_RX then -100 else if st = STATUS_TX then -101 else if st = STATUS_DISABLED then -102
      else if st = STATUS_RXRU then -103 else if st = STATUS_RXDISABLE then -104
      else if st = STATUS_TXRU then -105 else if st = STATUS_TXDISABLE then -106 else -107)"

definition irq_xxidle :: "'h radio_bus \<Rightarrow> 'h radio \<Rightarrow> int \<times> 'h radio" where
  "irq_xxidle bus s =
     (case rd bus STATE s of (st, s1) \<Rightarrow>
        if st = STATUS_RXIDLE then irq_rxidle bus s1
        else if st = STATUS_TXIDLE then irq_txidle bus s1
        else (-1, wr bus POWER 0 (set_error (xxidle_error st) s1)))"

definition irq_end :: "'h radio_bus \<Rightarrow> 'h radio \<Rightarrow> int \<times> 'h radio" where
  "irq_end bus s = irq_xxidle bus s"

definition irq_payload_rx :: "'h radio_bus \<Rightarrow> 'h radio \<Rightarrow> int \<times> 'h radio" where
  "irq_payload_rx bus s =
     (case rd bus CRCSTATUS s of (crc, s1) \<Rightarrow>
        if crc \<noteq> 0 then
          (case packet_fifo_write_release (rx_ring (rctx s1)) of (r, b) \<Rightarrow>
             if r \<noteq> FIFO_PACKET_SUCCESS then (-1, set_error (-2) (set_rx b s1)) else (0, set_rx b s1))
        else (0, set_rx (snd (packet_fifo_write_cancel (rx_ring (rctx s1)))) s1))"

definition irq_payload_tx :: int where
  "irq_payload_tx = -1"

definition payload_error :: "u32 \<Rightarrow> int" where
  "payload_error st =
     (if st = STATUS_TXIDLE then -201 else if st = STATUS_DISABLED then -202 else if st = STATUS_RXRU then -203
      else if st = STATUS_RXDISABLE then -204 else if st = STATUS_TXRU then -205
      else if st = STATUS_TXDISABLE then -206 else -207)"

definition irq_payload :: "'h radio_bus \<Rightarrow> 'h radio \<Rightarrow> int \<times> 'h radio" where
  "irq_payload bus s =
     (case rd bus STATE (wr bus PAYLOAD 0 s) of (st, s1) \<Rightarrow>
        if st = STATUS_RX \<or> st = STATUS_RXIDLE then irq_payload_rx bus s1
        else if st = STATUS_TX then (irq_payload_tx, s1)
        else let s2 = set_error (payload_error st) s1 in (sint (rc_error (rctx s2)), s2))"

definition irq_ready :: "'h radio_bus \<Rightarrow> 'h radio \<Rightarrow> int \<times> 'h radio" where
  "irq_ready bus s = irq_xxidle bus s"

definition irq_disabled :: "'h radio_bus \<Rightarrow> 'h radio \<Rightarrow> int \<times> 'h radio" where
  "irq_disabled bus s =
     (case wrong_channel bus s of (wrong, s1) \<Rightarrow>
        case should_txidle bus (if wrong then configure_channel bus (channel (rctx s1)) s1 else s1) of (tx, s2) \<Rightarrow>
          if tx then (0, wr_all bus [(INTENSET, INTEN_READY), (DISABLED, 0), (TXEN, 1)] s2)
          else case should_rxidle bus s2 of (rx, s3) \<Rightarrow>
            if rx then (0, wr_all bus [(INTENSET, INTEN_READY), (DISABLED, 0), (RXEN, 1)] s3)
            else if target_state (rctx s3) = TARGET_STATE_OFF then (0, wr bus POWER 0 s3)
            else (-1, wr bus INTENCLR INTEN_DISABLED s3))"

definition radio_get_irq_number :: u32 where
  "radio_get_irq_number = 1 + 16"

definition radio_irq :: "'h radio_bus \<Rightarrow> 'h radio \<Rightarrow> int \<times> 'h radio" where
  "radio_irq bus s =
     (case rd bus PAYLOAD s of (v, s1) \<Rightarrow> if v \<noteq> 0 then irq_payload bus s1
      else case rd bus END s1 of (v, s2) \<Rightarrow> if v \<noteq> 0 then irq_end bus s2
      else case rd bus READY s2 of (v, s3) \<Rightarrow> if v \<noteq> 0 then irq_ready bus s3
      else case rd bus DISABLED s3 of (v, s4) \<Rightarrow> if v \<noteq> 0 then irq_disabled bus s4
      else (-1, s4))"

section \<open>read.h, write.h, flush.h\<close>

definition radio_interrupts :: u32 where
  "radio_interrupts = INTEN_READY OR INTEN_END OR INTEN_DISABLED"

text \<open>The loop of \<open>_read\<close> is gone through once at most. The bytes are those copied to the caller,
  who gets the error code and not their number when there has been an error.\<close>

definition radio_read :: "'h radio_bus \<Rightarrow> u32 \<Rightarrow> 'h radio \<Rightarrow> int \<times> u8 list \<times> 'h radio" where
  "radio_read bus count s =
     (let n = min count PAYLOAD_SIZE;
          (got, s') =
            (if n = 0 then ([], s)
             else case packet_fifo_read_lock (rx_ring (rctx s)) of
                    (_, Some packet, b) \<Rightarrow>
                      (packet_data (rmem s) (unat n) packet, set_rx (snd (packet_fifo_read_release b)) s)
                  | (_, None, b) \<Rightarrow> ([], wr bus INTENSET radio_interrupts (set_rx b s)))
      in (if rc_error (rctx s') \<noteq> 0 then sint (rc_error (rctx s')) else int (length got), got, s'))"

text \<open>What \<open>_write\<close> does under the lock, and the bytes that are still to be written.\<close>

definition radio_write_step :: "'h radio_bus \<Rightarrow> u8 list \<Rightarrow> 'h radio \<Rightarrow> (u8 list \<times> 'h radio) option" where
  "radio_write_step bus bs s =
     (let (rest, s1) =
            (case packet_fifo_write_lock (tx_ring (rctx s)) of
               (_, Some packet, b) \<Rightarrow>
                 ([], s\<lparr>rmem := write_bytes (rmem s) packet bs,
                        rctx := (rctx s)\<lparr>tx_ring := snd (packet_fifo_write_release b)\<rparr>\<rparr>)
             | (_, None, b) \<Rightarrow> (bs, s\<lparr>rctx := (rctx s)\<lparr>tx_ring := b\<rparr>\<rparr>))
      in Option.bind (power_up bus s1)
           (\<lambda>s2. Some (rest, wr bus INTENSET radio_interrupts (snd (cancel_rx bus s2)))))"

text \<open>\<open>yield\<close> is what happens in the yield, \<open>between\<close> what happens between two rounds of the loop:
  the loop does not yield while it waits.\<close>

partial_function (option) radio_write_loop ::
  "'h radio_bus \<Rightarrow> ('h radio \<Rightarrow> 'h radio) \<Rightarrow> ('h radio \<Rightarrow> 'h radio) \<Rightarrow> u8 list \<Rightarrow> 'h radio \<Rightarrow> 'h radio option" where
  "radio_write_loop bus yield between bs s =
     (if bs = [] then Some s
      else Option.bind (radio_write_step bus bs s)
        (\<lambda>(rest, s1). radio_write_loop bus yield between rest (if rest = [] then yield s1 else between s1)))"

definition radio_write ::
  "'h radio_bus \<Rightarrow> ('h radio \<Rightarrow> 'h radio) \<Rightarrow> ('h radio \<Rightarrow> 'h radio) \<Rightarrow> u8 list \<Rightarrow> 'h radio \<Rightarrow> (int \<times> 'h radio) option"
  where
  "radio_write bus yield between bs s =
     (let bs' = take (unat PAYLOAD_SIZE) bs
      in Option.bind (radio_write_loop bus yield between bs' s) (\<lambda>s'. Some (int (length bs'), s')))"

partial_function (option) radio_fflush :: "('h radio \<Rightarrow> 'h radio) \<Rightarrow> 'h radio \<Rightarrow> (int \<times> 'h radio) option" where
  "radio_fflush yield s =
     (let n = packet_fifo_size (tx_ring (rctx s)); s' = yield s
      in if n \<noteq> 0 then radio_fflush yield s' else Some (n, s'))"

section \<open>ioctl.h\<close>

definition IOCTL_BLE_CMD_BASE :: u32 where "IOCTL_BLE_CMD_BASE = 0x1000"
definition IOCTL_BLE_CMD_SET_CHANNEL :: u32 where "IOCTL_BLE_CMD_SET_CHANNEL = IOCTL_BLE_CMD_BASE + 0"
definition IOCTL_BLE_CMD_SET_RX :: u32 where "IOCTL_BLE_CMD_SET_RX = IOCTL_BLE_CMD_BASE + 1"
definition IOCTL_BLE_CMD_SET_TX :: u32 where "IOCTL_BLE_CMD_SET_TX = IOCTL_BLE_CMD_BASE + 2"
definition IOCTL_BLE_CMD_SET_OFF :: u32 where "IOCTL_BLE_CMD_SET_OFF = IOCTL_BLE_CMD_BASE + 3"
definition IOCTL_BLE_CMD_SET_SRC_ADDR :: u32 where "IOCTL_BLE_CMD_SET_SRC_ADDR = IOCTL_BLE_CMD_BASE + 4"
definition IOCTL_BLE_CMD_SET_DST_ADDR :: u32 where "IOCTL_BLE_CMD_SET_DST_ADDR = IOCTL_BLE_CMD_BASE + 5"

text \<open>Sets the state to keep to, powers the radio up and has the interrupt do the rest.\<close>

definition ioctl_target :: "'h radio_bus \<Rightarrow> u8 \<Rightarrow> 'h radio \<Rightarrow> (int \<times> 'h radio) option" where
  "ioctl_target bus target s =
     Option.bind (power_up bus (s\<lparr>rctx := (rctx s)\<lparr>target_state := target\<rparr>\<rparr>))
       (\<lambda>s1. Some (0, snd (cancel_rx bus (wr bus INTENSET INTEN_DISABLED s1))))"

definition radio_ioctl :: "'h radio_bus \<Rightarrow> u32 \<Rightarrow> u32 \<Rightarrow> 'h radio \<Rightarrow> (int \<times> 'h radio) option" where
  "radio_ioctl bus cmd arg s =
     (if cmd = IOCTL_BLE_CMD_SET_CHANNEL then Some (0, s\<lparr>rctx := (rctx s)\<lparr>channel := ucast arg\<rparr>\<rparr>)
      else if cmd = IOCTL_BLE_CMD_SET_RX then ioctl_target bus TARGET_STATE_RX s
      else if cmd = IOCTL_BLE_CMD_SET_TX then ioctl_target bus TARGET_STATE_TX s
      else if cmd = IOCTL_BLE_CMD_SET_OFF then
        Some (0, snd (cancel_rx bus (wr bus INTENSET INTEN_DISABLED
                   (s\<lparr>rctx := (rctx s)\<lparr>target_state := TARGET_STATE_OFF\<rparr>\<rparr>))))
      else if cmd = IOCTL_BLE_CMD_SET_SRC_ADDR then
        Some (0, snd (cancel_rx bus (s\<lparr>rctx := (rctx s)\<lparr>rx_address := arg\<rparr>\<rparr>)))
      else if cmd = IOCTL_BLE_CMD_SET_DST_ADDR then Some (0, s\<lparr>rctx := (rctx s)\<lparr>tx_address := arg\<rparr>\<rparr>)
      else Some (-1, s))"

section \<open>radio.c\<close>

definition empty_ring :: packet_fifo where
  "empty_ring = \<lparr>bp = 0, slots = [], flags = 0, ri = 0, wi = 0, sz = 0, rsz = 0, wsz = 0, plen = 0\<rparr>"

definition empty_context :: radio_context where
  "empty_context = \<lparr>rx_ring = empty_ring, tx_ring = empty_ring, rc_error = 0, rx_address = 0, tx_address = 0,
                    channel = 0, target_state = 0\<rparr>"

text \<open>The allocator keeps its own state.\<close>

definition radio_open ::
  "'h radio_bus \<Rightarrow> 'a kmalloc_fun \<Rightarrow> 'a kfree_fun \<Rightarrow> 'a \<Rightarrow> 'h radio \<Rightarrow> int \<times> 'a \<times> 'h radio" where
  "radio_open bus kmalloc kfree al s =
     (let s1 = (wr bus POWER 0 s)\<lparr>rctx := empty_context\<rparr>
      in case packet_fifo_create kmalloc kfree (rx_ring (rctx s1)) PAYLOAD_SIZE BUFFER_RECV_PACKETS al of
           (r, rb, al1) \<Rightarrow>
             let s2 = s1\<lparr>rctx := (rctx s1)\<lparr>rx_ring := rb\<rparr>\<rparr>
             in if r \<noteq> FIFO_PACKET_SUCCESS then (-1, al1, s2)
                else case packet_fifo_create kmalloc kfree (tx_ring (rctx s2)) PAYLOAD_SIZE BUFFER_SEND_PACKETS al1 of
                       (r', wb, al2) \<Rightarrow>
                         let s3 = s2\<lparr>rctx := (rctx s2)\<lparr>tx_ring := wb\<rparr>\<rparr>
                         in if r' \<noteq> FIFO_PACKET_SUCCESS then
                              (-1, packet_fifo_destroy kfree (rx_ring (rctx s3)) al2, s3)
                            else (0, al2, s3))"

definition radio_close ::
  "'h radio_bus \<Rightarrow> ('h radio \<Rightarrow> 'h radio) \<Rightarrow> 'a kfree_fun \<Rightarrow> 'a \<Rightarrow> 'h radio \<Rightarrow> (int \<times> 'a \<times> 'h radio) option" where
  "radio_close bus yield kfree al s =
     Option.bind (radio_fflush yield s)
       (\<lambda>(_, s1). Some (0, packet_fifo_destroy kfree (tx_ring (rctx s1))
                             (packet_fifo_destroy kfree (rx_ring (rctx s1)) al), wr bus POWER 0 s1))"

end
