(* ===== verification/Radio_Spec.thy ===== *)
theory Radio_Spec
  imports Radio "HOL-Library.Sublist"
begin

text \<open>
  What the radio driver promises: whatever interrupts, readers, writers, control requests and the
  radio do, and in whatever order, the packets that arrive with a good checksum come out whole and in
  order, the radio writes into no packet a reader may get, and the context stays well-formed. And what it
  does not promise: a packet that is written is never sent, so flushing never ends.
\<close>

section \<open>Steps that only touch the device\<close>

definition moved :: "('h \<Rightarrow> 'h \<Rightarrow> bool) \<Rightarrow> 'h radio \<Rightarrow> 'h radio \<Rightarrow> bool" where
  "moved R s s' \<longleftrightarrow> rctx s' = rctx s \<and> rmem s' = rmem s \<and> R (dev s) (dev s')"

text \<open>Registers whose writing neither starts a reception nor ends the report of one.\<close>

definition quiet :: "radio_reg \<Rightarrow> bool" where
  "quiet r \<longleftrightarrow> r \<notin> {START, PACKETPTR, PAYLOAD, POWER}"

definition quiet_rel :: "'h radio_bus \<Rightarrow> ('h \<Rightarrow> 'h \<Rightarrow> bool) \<Rightarrow> bool" where
  "quiet_rel bus R \<longleftrightarrow> (\<forall>h. R h h) \<and> (\<forall>a b c. R a b \<longrightarrow> R b c \<longrightarrow> R a c) \<and>
     (\<forall>r h. R h (snd (peek bus r h))) \<and> (\<forall>r v h. quiet r \<longrightarrow> R h (poke bus r v h))"

named_theorems moved_intros

lemma moved_refl [moved_intros]: "quiet_rel bus R \<Longrightarrow> moved R s s"
  by (simp add: moved_def quiet_rel_def)

lemma moved_trans: "quiet_rel bus R \<Longrightarrow> moved R s s1 \<Longrightarrow> moved R s1 s2 \<Longrightarrow> moved R s s2"
  unfolding moved_def quiet_rel_def by metis

lemma moved_rd: "quiet_rel bus R \<Longrightarrow> rd bus r s = (v, s1) \<Longrightarrow> moved R s s1"
  by (auto simp: moved_def quiet_rel_def rd_def split: prod.splits) (metis snd_conv)

lemma moved_wr: "quiet_rel bus R \<Longrightarrow> quiet r \<Longrightarrow> moved R s (wr bus r v s)"
  by (simp add: moved_def quiet_rel_def wr_def)

lemma moved_wr_all:
  assumes "quiet_rel bus R" and "\<forall>(r, v) \<in> set rvs. quiet r"
  shows "moved R s (wr_all bus rvs s)"
  using assms(2)
proof (induction rvs arbitrary: s)
  case Nil
  then show ?case by (simp add: wr_all_def moved_refl [OF assms(1)])
next
  case (Cons rv rvs)
  obtain r v where rv: "rv = (r, v)" by (metis surj_pair)
  have "moved R (wr bus r v s) (wr_all bus rvs (wr bus r v s))" using Cons by simp
  moreover have "moved R s (wr bus r v s)" using Cons.prems by (simp add: rv moved_wr [OF assms(1)])
  ultimately show ?case using moved_trans [OF assms(1)] by (simp add: wr_all_def rv)
qed

lemma moved_cancel_rx:
  assumes "quiet_rel bus R"
  shows "moved R s (snd (cancel_rx bus s))"
proof -
  obtain st s1 where st: "rd bus STATE s = (st, s1)" by (metis surj_pair)
  have "quiet DISABLE" by (simp add: quiet_def)
  then show ?thesis
    using moved_rd [OF assms st] moved_trans [OF assms moved_rd [OF assms st] moved_wr [OF assms]]
    by (simp add: cancel_rx_def st)
qed

lemma moved_configure_channel: "quiet_rel bus R \<Longrightarrow> moved R s (configure_channel bus ch s)"
  unfolding configure_channel_def by (rule moved_trans [OF _ moved_wr moved_wr]) (simp_all add: quiet_def)

lemma moved_wrong_channel: "quiet_rel bus R \<Longrightarrow> wrong_channel bus s = (w, s1) \<Longrightarrow> moved R s s1"
  by (auto simp: wrong_channel_def split: prod.splits dest: moved_rd)

lemma moved_should_txidle: "quiet_rel bus R \<Longrightarrow> should_txidle bus s = (w, s1) \<Longrightarrow> moved R s s1"
  by (auto simp: should_txidle_def split: prod.splits dest: moved_wrong_channel)

lemma moved_should_rxidle: "quiet_rel bus R \<Longrightarrow> should_rxidle bus s = (w, s1) \<Longrightarrow> moved R s s1"
  by (auto simp: should_rxidle_def split: prod.splits dest: moved_wrong_channel)

lemma moved_should_rx: "quiet_rel bus R \<Longrightarrow> should_rx bus s = (w, s1) \<Longrightarrow> moved R s s1"
  by (auto simp: should_rx_def split: prod.splits dest: moved_should_rxidle)

lemma moved_configure_tx_address: "quiet_rel bus R \<Longrightarrow> moved R s (configure_tx_address bus addr s)"
  by (auto simp: configure_tx_address_def quiet_def split: prod.splits
      intro!: moved_trans [OF _ moved_rd moved_wr_all])

lemma moved_configure_rx_address: "quiet_rel bus R \<Longrightarrow> moved R s (configure_rx_address bus addr s)"
  by (auto simp: configure_rx_address_def quiet_def split: prod.splits
      intro!: moved_trans [OF _ moved_rd moved_wr_all])

lemma moved_copy_reg: "quiet_rel bus R \<Longrightarrow> quiet d \<Longrightarrow> moved R s (copy_reg bus src d bits s)"
  by (auto simp: copy_reg_def split: prod.splits intro: moved_trans [OF _ moved_rd moved_wr])

lemma moved_configure_ble:
  assumes R: "quiet_rel bus R"
  shows "moved R s (configure_ble bus s)"
proof -
  obtain en s1 where en: "rd bus OVERRIDEEN (wr bus MODE MODE_BLE_1MBIT s) = (en, s1)" by (metis surj_pair)
  have s1: "moved R s s1"
    by (rule moved_trans [OF R moved_wr [OF R] moved_rd [OF R en]]) (simp add: quiet_def)
  have trims: "moved R s1 (copy_reg bus BLE_1MBIT4 OVERRIDE4 OVERRIDE4_ENABLE
      (copy_reg bus BLE_1MBIT4 OVERRIDE4 0 (copy_reg bus BLE_1MBIT3 OVERRIDE3 0
        (copy_reg bus BLE_1MBIT2 OVERRIDE2 0 (copy_reg bus BLE_1MBIT1 OVERRIDE1 0
          (copy_reg bus BLE_1MBIT0 OVERRIDE0 0 s1))))))"
    by (intro moved_trans [OF R _ moved_copy_reg [OF R]] moved_refl [OF R]) (simp_all add: quiet_def)
  show ?thesis
    unfolding configure_ble_def en prod.case Let_def
    by (intro moved_trans [OF R _ moved_wr_all [OF R]])
       (use s1 moved_trans [OF R s1 trims] in \<open>auto simp: quiet_def\<close>)
qed

lemma moved_poll:
  assumes "quiet_rel bus R" and "poll bus r ok s = Some s'"
  shows "moved R s s'"
  by (rule poll_induct [OF assms(2), of "moved R s"])
     (use assms(1) in \<open>auto intro: moved_refl moved_trans moved_rd\<close>)

lemma moved_power_up:
  assumes R: "quiet_rel bus R"
    and on: "\<And>h h1. peek bus POWER h = (0, h1) \<Longrightarrow> R h1 (poke bus POWER 1 h1)"
    and up: "power_up bus s = Some s'"
  shows "moved R s s'"
proof -
  obtain p s1 where p: "rd bus POWER s = (p, s1)" by (metis surj_pair)
  note s1 = moved_rd [OF R p]
  show ?thesis
  proof (cases "p = 0")
    case False
    then show ?thesis using up s1 p by (simp add: power_up_def)
  next
    case True
    let ?s2 = "configure_ble bus (wr bus POWER 1 s1)"
    let ?s3 = "wr bus RXEN 1 (configure_channel bus (channel (rctx ?s2)) ?s2)"
    have "moved R s1 (wr bus POWER 1 s1)"
      using on [of "dev s" "dev s1"] p True by (auto simp: moved_def wr_def rd_def split: prod.splits)
    then have "moved R s ?s2" using moved_trans [OF R] s1 moved_configure_ble [OF R] by blast
    then have "moved R s (configure_channel bus (channel (rctx ?s2)) ?s2)"
      using moved_trans [OF R] moved_configure_channel [OF R] by blast
    then have s3: "moved R s ?s3" by (rule moved_trans [OF R _ moved_wr [OF R]]) (simp add: quiet_def)
    obtain s4 where s4: "poll bus READY (\<lambda>v. v \<noteq> 0) ?s3 = Some s4"
      and s': "poll bus DISABLED (\<lambda>v. v \<noteq> 0) (wr bus DISABLE 1 (wr bus READY 0 s4)) = Some s'"
      using up p True by (auto simp: power_up_def Let_def bind_eq_Some_conv)
    have "moved R s4 (wr bus DISABLE 1 (wr bus READY 0 s4))"
      by (rule moved_trans [OF R moved_wr [OF R] moved_wr [OF R]]) (simp_all add: quiet_def)
    then show ?thesis using s3 moved_poll [OF R s4] moved_poll [OF R s'] moved_trans [OF R] by blast
  qed
qed

section \<open>The radio\<close>

text \<open>
  What matters of the state of the radio: \<open>armed\<close>, it may receive into the packet at \<open>dma\<close>; \<open>pending\<close>, it
  has received one and the event is not cleared yet; \<open>crc_good\<close>, the checksum of the last one.
\<close>

record radio_view =
  armed :: bool
  pending :: bool
  crc_good :: bool
  dma :: u32

text \<open>A step of the device that neither begins a reception nor completes one.\<close>

definition calmer :: "radio_view \<Rightarrow> radio_view \<Rightarrow> bool" where
  "calmer o1 o2 \<longleftrightarrow> (armed o2 \<longrightarrow> armed o1) \<and> (pending o2 \<longleftrightarrow> pending o1) \<and>
     (armed o2 \<or> pending o2 \<longrightarrow> dma o2 = dma o1 \<and> crc_good o2 = crc_good o1)"

text \<open>
  The manual of the nRF51: reading changes nothing of this; the event register shows a reception, \<open>CRCSTATUS\<close> its
  checksum, until they are overwritten; in \<open>RXIDLE\<close> and without power there is no reception going on;
  \<open>START\<close> begins one, to where \<open>PACKETPTR\<close> points. The driver never starts a
  transmission, so the event of a reception never meets one.
\<close>

definition radio_device :: "'h radio_bus \<Rightarrow> ('h \<Rightarrow> radio_view) \<Rightarrow> bool" where
  "radio_device bus view \<longleftrightarrow>
     (\<forall>r h. view (snd (peek bus r h)) = view h) \<and>
     (\<forall>h. fst (peek bus PAYLOAD h) \<noteq> 0 \<longleftrightarrow> pending (view h)) \<and>
     (\<forall>h. fst (peek bus CRCSTATUS h) \<noteq> 0 \<longleftrightarrow> crc_good (view h)) \<and>
     (\<forall>h. fst (peek bus STATE h) = STATUS_RXIDLE \<longrightarrow> \<not> armed (view h)) \<and>
     (\<forall>h. fst (peek bus STATE (poke bus PAYLOAD 0 h)) = STATUS_TX \<longrightarrow> \<not> pending (view h)) \<and>
     (\<forall>h. fst (peek bus POWER h) = 0 \<longrightarrow> \<not> armed (view h) \<and> \<not> pending (view h)) \<and>
     (\<forall>r v h. quiet r \<longrightarrow> calmer (view h) (view (poke bus r v h)) \<and> dma (view (poke bus r v h)) = dma (view h)) \<and>
     (\<forall>v h. view (poke bus PACKETPTR v h) = (view h)\<lparr>dma := v\<rparr>) \<and>
     (\<forall>h. view (poke bus PAYLOAD 0 h) = (view h)\<lparr>pending := False\<rparr>) \<and>
     (\<forall>h. view (poke bus START 1 h) \<in> {view h, (view h)\<lparr>armed := True\<rparr>}) \<and>
     (\<forall>v h. \<not> pending (view h) \<and> (v = 0 \<or> \<not> armed (view h)) \<longrightarrow>
        \<not> armed (view (poke bus POWER v h)) \<and> \<not> pending (view (poke bus POWER v h)))"

lemma calmer_trans: "calmer a b \<Longrightarrow> calmer b c \<Longrightarrow> calmer a c"
  by (auto simp: calmer_def)

lemma calmer_idle: "\<not> armed b \<Longrightarrow> \<not> pending a \<Longrightarrow> \<not> pending b \<Longrightarrow> calmer a b"
  by (simp add: calmer_def)

abbreviation calm :: "('h \<Rightarrow> radio_view) \<Rightarrow> 'h \<Rightarrow> 'h \<Rightarrow> bool" where
  "calm view h h' \<equiv> calmer (view h) (view h')"

abbreviation calm_aimed :: "('h \<Rightarrow> radio_view) \<Rightarrow> 'h \<Rightarrow> 'h \<Rightarrow> bool" where
  "calm_aimed view h h' \<equiv> calmer (view h) (view h') \<and> dma (view h') = dma (view h)"

lemma device_quiet:
  assumes "radio_device bus view"
  shows "quiet_rel bus (calm view)" and "quiet_rel bus (calm_aimed view)"
  using assms unfolding radio_device_def quiet_rel_def by (auto simp: calmer_def)

lemma device_rd:
  assumes "radio_device bus view" and "rd bus r s = (v, s1)"
  shows "view (dev s1) = view (dev s)" and "rctx s1 = rctx s" and "rmem s1 = rmem s" and "v = fst (peek bus r (dev s))"
  using assms unfolding radio_device_def rd_def by (auto split: prod.splits) (metis snd_conv)

lemma device_power_on:
  assumes "radio_device bus view" and "peek bus POWER h = (0, h1)"
  shows "calm view h1 (poke bus POWER 1 h1)"
proof -
  have "view h1 = view h" and "\<not> armed (view h) \<and> \<not> pending (view h)"
    using assms unfolding radio_device_def by (metis snd_conv, metis fst_conv)
  then show ?thesis using assms(1) unfolding radio_device_def by (intro calmer_idle) metis+
qed

lemma moved_power_off:
  assumes "radio_device bus view" and "\<not> pending (view (dev s))"
  shows "moved (calm view) s (wr bus POWER 0 s)"
  using assms unfolding radio_device_def by (auto simp: moved_def wr_def intro!: calmer_idle)

section \<open>The invariant\<close>

abbreviation locked :: "packet_fifo \<Rightarrow> bool" where
  "locked b \<equiv> flags b AND LOCKED \<noteq> 0"

definition rings_ok :: "'h radio \<Rightarrow> bool" where
  "rings_ok s \<longleftrightarrow> (let rb = rx_ring (rctx s); tb = tx_ring (rctx s) in
     ring_ok rb \<and> plen rb = ucast PAYLOAD_SIZE \<and> distinct (slots rb) \<and> (locked rb \<longrightarrow> wsz rb \<noteq> 0) \<and>
     ring_ok tb \<and> unlocked tb \<and>
     (\<forall>p \<in> set (slots tb). \<forall>q \<in> set (slots rb). \<forall>x < 39. 39 \<le> off p (q + word_of_nat x)))"

text \<open>A reception goes to the free packet that is locked for it.\<close>

definition dma_ok :: "('h \<Rightarrow> radio_view) \<Rightarrow> 'h radio \<Rightarrow> bool" where
  "dma_ok view s \<longleftrightarrow> (let b = rx_ring (rctx s); o1 = view (dev s) in
     \<not> (armed o1 \<and> pending o1) \<and> (armed o1 \<or> pending o1 \<longrightarrow> locked b \<and> dma o1 = slots b ! unat (wi b)))"

text \<open>The packets readers can still get: those in the ring, and one the interrupt has yet to put there.\<close>

definition waiting :: "('h \<Rightarrow> radio_view) \<Rightarrow> 'h radio \<Rightarrow> u8 list list" where
  "waiting view s = map (packet_data (rmem s) 39) (queued (rx_ring (rctx s))) @
     (if pending (view (dev s)) \<and> crc_good (view (dev s)) then [packet_data (rmem s) 39 (dma (view (dev s)))] else [])"

definition good_packets :: "(bool \<times> u8 list) list \<Rightarrow> u8 list list" where
  "good_packets air = map snd (filter fst air)"

definition delivered :: "('h \<Rightarrow> radio_view) \<Rightarrow> (bool \<times> u8 list) list \<Rightarrow> u8 list list \<Rightarrow> 'h radio \<Rightarrow> bool" where
  "delivered view air out s \<longleftrightarrow>
     (\<exists>ps. list_all2 prefix out ps \<and> good_packets air = ps @ waiting view s)"

definition radio_inv :: "('h \<Rightarrow> radio_view) \<Rightarrow> (bool \<times> u8 list) list \<Rightarrow> u8 list list \<Rightarrow> 'h radio \<Rightarrow> bool" where
  "radio_inv view air out s \<longleftrightarrow> rings_ok s \<and> dma_ok view s \<and> (rc_error (rctx s) = 0 \<longrightarrow> delivered view air out s)"

lemma inv_calm:
  assumes "radio_inv view air out s" and "rx_ring (rctx s') = rx_ring (rctx s)" and "tx_ring (rctx s') = tx_ring (rctx s)"
    and "rc_error (rctx s') = rc_error (rctx s)" and "rmem s' = rmem s" and "calmer (view (dev s)) (view (dev s'))"
  shows "radio_inv view air out s'"
  using assms by (auto simp: radio_inv_def rings_ok_def dma_ok_def delivered_def waiting_def Let_def calmer_def)

lemma inv_moved: "radio_inv view air out s \<Longrightarrow> moved (calm view) s s' \<Longrightarrow> radio_inv view air out s'"
  by (erule inv_calm) (simp_all add: moved_def)

text \<open>The error code is never cleared, so nothing is promised from an error on but the form of the state.\<close>

lemma inv_error:
  assumes "radio_inv view air out s" and "word_of_int e \<noteq> (0 :: u32)"
  shows "radio_inv view air out (set_error e s)"
  using assms by (auto simp: radio_inv_def rings_ok_def dma_ok_def set_error_def Let_def)

section \<open>The ring of the receiver\<close>

lemma slot_flags [simp]: "slot (b\<lparr>flags := f\<rparr>) = slot b"
  by (simp add: slot_def fun_eq_iff)

lemma queued_flags [simp]: "queued (b\<lparr>flags := f\<rparr>) = queued b"
  by (simp add: queued_def)

lemma ring_ok_flags [simp]: "ring_ok (b\<lparr>flags := f\<rparr>) = ring_ok b"
  by (simp add: ring_ok_def)

lemma set_rx_simps [simp]:
  "rx_ring (rctx (set_rx b s)) = b" "tx_ring (rctx (set_rx b s)) = tx_ring (rctx s)"
  "rc_error (rctx (set_rx b s)) = rc_error (rctx s)" "rmem (set_rx b s) = rmem s" "dev (set_rx b s) = dev s"
  "target_state (rctx (set_rx b s)) = target_state (rctx s)"
  by (simp_all add: set_rx_def)

lemma inv_cancel:
  assumes "radio_inv view air out s" and "\<not> armed (view (dev s))" and "\<not> pending (view (dev s))"
  shows "radio_inv view air out (set_rx (snd (packet_fifo_write_cancel (rx_ring (rctx s)))) s)"
  using assms
  by (simp add: radio_inv_def rings_ok_def dma_ok_def delivered_def waiting_def Let_def packet_fifo_write_cancel_def
      unlock_bit)

lemma write_lock_cases:
  assumes "packet_fifo_write_lock b = (r, p, b')"
  obtains "p = None" and "b' = b"
    | "p = Some (slots b ! unat (wi b))" and "b' = b\<lparr>flags := flags b OR LOCKED\<rparr>" and "wsz b \<noteq> 0" and "unlocked b"
proof (cases "flags b AND LOCKED = 0 \<and> wsz b \<noteq> 0")
  case True
  then show ?thesis using assms that(2) by (simp add: packet_fifo_write_lock_def unlocked_def)
next
  case False
  then show ?thesis using assms that(1) by (simp only: packet_fifo_write_lock_def if_False prod.inject)
qed

lemma LOCKED_nonzero [simp]: "LOCKED \<noteq> 0"
  by (simp add: LOCKED_def)

lemma inv_lock:
  assumes "radio_inv view air out s" and "wsz (rx_ring (rctx s)) \<noteq> 0"
  shows "radio_inv view air out (set_rx ((rx_ring (rctx s))\<lparr>flags := flags (rx_ring (rctx s)) OR LOCKED\<rparr>) s)"
  using assms by (auto simp: radio_inv_def rings_ok_def dma_ok_def delivered_def waiting_def Let_def)

text \<open>Pointing the radio at the packet, and starting it.\<close>

lemma inv_aim:
  assumes dev: "radio_device bus view" and "radio_inv view air out s"
    and "\<not> armed (view (dev s))" and "\<not> pending (view (dev s))"
  shows "radio_inv view air out (wr bus PACKETPTR p s)" and "dma (view (dev (wr bus PACKETPTR p s))) = p"
    and "\<not> armed (view (dev (wr bus PACKETPTR p s)))" and "\<not> pending (view (dev (wr bus PACKETPTR p s)))"
proof -
  have "view (dev (wr bus PACKETPTR p s)) = (view (dev s))\<lparr>dma := p\<rparr>"
    using dev by (simp add: radio_device_def wr_def)
  then show "dma (view (dev (wr bus PACKETPTR p s))) = p"
    and "\<not> armed (view (dev (wr bus PACKETPTR p s)))" "\<not> pending (view (dev (wr bus PACKETPTR p s)))"
    using assms(3,4) by simp_all
  then show "radio_inv view air out (wr bus PACKETPTR p s)"
    by (intro inv_calm [OF assms(2)]) (simp_all add: wr_def calmer_idle assms(3,4))
qed

lemma inv_start:
  assumes dev: "radio_device bus view" and inv: "radio_inv view air out s"
    and b: "locked (rx_ring (rctx s))" "dma (view (dev s)) = slots (rx_ring (rctx s)) ! unat (wi (rx_ring (rctx s)))"
    and "\<not> pending (view (dev s))"
  shows "radio_inv view air out (wr bus START 1 s)"
proof -
  have "view (dev (wr bus START 1 s)) \<in> {view (dev s), (view (dev s))\<lparr>armed := True\<rparr>}"
    using dev by (simp add: radio_device_def wr_def)
  moreover have "rctx (wr bus START 1 s) = rctx s" "rmem (wr bus START 1 s) = rmem s" by (simp_all add: wr_def)
  ultimately show ?thesis
    using inv b assms(5) by (auto simp: radio_inv_def rings_ok_def dma_ok_def delivered_def waiting_def Let_def)
qed

text \<open>A packet with a good checksum goes into the ring when the event is cleared.\<close>

lemma inv_release:
  assumes inv: "radio_inv view air out s" and "pending (view (dev s))" and good: "crc_good (view (dev s))"
    and s1: "rctx s1 = rctx s" "rmem s1 = rmem s" "view (dev s1) = (view (dev s))\<lparr>pending := False\<rparr>"
    and r: "packet_fifo_write_release (rx_ring (rctx s1)) = (r, b)"
  shows "r = FIFO_PACKET_SUCCESS" and "radio_inv view air out (set_rx b s1)"
proof -
  let ?b = "rx_ring (rctx s)"
  have ok: "ring_ok ?b" "wsz ?b \<noteq> 0" and aim: "dma (view (dev s)) = slots ?b ! unat (wi ?b)"
    and idle: "\<not> armed (view (dev s))"
    using inv assms(2) by (auto simp: radio_inv_def rings_ok_def dma_ok_def Let_def)
  obtain b' where b': "packet_fifo_write_release ?b = (0, b')" "ring_ok b'" "unlocked b'"
    "queued b' = queued ?b @ [slots ?b ! unat (wi ?b)]" "slots b' = slots ?b" "sz b' = sz ?b" "plen b' = plen ?b"
    using write_release_steps [OF ok] by metis
  then show "r = FIFO_PACKET_SUCCESS" using r s1 by (simp add: packet_codes)
  have b: "b = b'" using r s1 b'(1) by simp
  have "waiting view (set_rx b s1) = waiting view s"
    using b' assms(2,3) aim s1 by (simp add: waiting_def b)
  then show "radio_inv view air out (set_rx b s1)"
    using inv b' s1 idle by (auto simp: radio_inv_def rings_ok_def dma_ok_def delivered_def Let_def b unlocked_def)
qed

lemma inv_reject:
  assumes inv: "radio_inv view air out s" and "pending (view (dev s))" and bad: "\<not> crc_good (view (dev s))"
    and s1: "rctx s1 = rctx s" "rmem s1 = rmem s" "view (dev s1) = (view (dev s))\<lparr>pending := False\<rparr>"
  shows "radio_inv view air out (set_rx (snd (packet_fifo_write_cancel (rx_ring (rctx s1)))) s1)"
proof -
  have "\<not> armed (view (dev s))" using inv assms(2) by (auto simp: radio_inv_def dma_ok_def Let_def)
  moreover have "radio_inv view air out s1"
    using inv bad s1 \<open>\<not> armed _\<close> by (auto simp: radio_inv_def rings_ok_def dma_ok_def delivered_def waiting_def Let_def)
  ultimately show ?thesis by (intro inv_cancel) (simp_all add: s1)
qed

section \<open>Interrupts\<close>

lemma irq_rxidle_inv:
  assumes dev: "radio_device bus view" and inv: "radio_inv view air out s"
    and idle: "\<not> armed (view (dev s))" "\<not> pending (view (dev s))" and irq: "irq_rxidle bus s = (r, s')"
  shows "radio_inv view air out s'"
proof -
  note R = device_quiet [OF dev]
  let ?s1 = "set_rx (snd (packet_fifo_write_cancel (rx_ring (rctx s)))) s"
  obtain go s2 where go: "should_rx bus ?s1 = (go, s2)" by (metis surj_pair)
  note m = moved_should_rx [OF R(1) go]
  have inv2: "radio_inv view air out s2" using inv_moved [OF inv_cancel [OF inv idle] m] .
  have idle2: "\<not> armed (view (dev s2))" "\<not> pending (view (dev s2))"
    using m idle by (auto simp: moved_def calmer_def)
  obtain c p b where lock: "(if go then packet_fifo_write_lock (rx_ring (rctx s2))
      else (FIFO_PACKET_FAILURE, None, rx_ring (rctx s2))) = (c, p, b)" by (metis prod_cases3)
  show ?thesis
  proof (cases p)
    case None
    then have b: "set_rx b s2 = s2"
      using lock by (auto simp: set_rx_def split: if_splits elim: write_lock_cases)
    obtain stay s3 where stay: "should_rxidle bus s2 = (stay, s3)" by (metis surj_pair)
    have "s' = wr bus INTENCLR (INTEN_READY OR INTEN_END) s3 \<or>
          s' = wr_all bus [(READY, 0), (END, 0), (DISABLE, 1)] s3"
      using irq go lock None b stay by (auto simp: irq_rxidle_def Let_def split: if_splits)
    then have "moved (calm view) s3 s'"
      using moved_wr [OF R(1)] moved_wr_all [OF R(1)] by (auto simp: quiet_def)
    then show ?thesis
      using inv_moved [OF inv2] moved_trans [OF R(1) moved_should_rxidle [OF R(1) stay]] by blast
  next
    case (Some q)
    then have q: "q = slots (rx_ring (rctx s2)) ! unat (wi (rx_ring (rctx s2)))"
      and b: "b = (rx_ring (rctx s2))\<lparr>flags := flags (rx_ring (rctx s2)) OR LOCKED\<rparr>"
      and room: "wsz (rx_ring (rctx s2)) \<noteq> 0"
      using lock by (auto split: if_splits elim: write_lock_cases)
    let ?a = "wr_all bus [(READY, 0), (END, 0)] (set_rx b s2)"
    let ?s3 = "wr bus INTENSET (INTEN_PAYLOAD OR INTEN_END) (wr bus PACKETPTR q ?a)"
    let ?s4 = "configure_rx_address bus (rx_address (rctx ?s3)) ?s3"
    have a: "moved (calm view) (set_rx b s2) ?a" by (rule moved_wr_all [OF R(1)]) (simp add: quiet_def)
    have inva: "radio_inv view air out ?a" using inv_moved [OF inv_lock [OF inv2 room] a [unfolded b]] by (simp add: b)
    have idlea: "\<not> armed (view (dev ?a))" "\<not> pending (view (dev ?a))"
      using a idle2 by (auto simp: moved_def calmer_def)
    note aim = inv_aim [OF dev inva idlea, of q]
    have m4: "moved (calm_aimed view) (wr bus PACKETPTR q ?a) ?s4"
      by (rule moved_trans [OF R(2) moved_wr [OF R(2)] moved_configure_rx_address [OF R(2)]]) (simp add: quiet_def)
    then have "radio_inv view air out ?s4" by (intro inv_moved [OF aim(1)]) (simp add: moved_def)
    moreover have "rx_ring (rctx ?s4) = b" using m4 a by (simp add: moved_def wr_def)
    moreover have "dma (view (dev ?s4)) = q" "\<not> pending (view (dev ?s4))"
      using m4 aim by (auto simp: moved_def calmer_def)
    ultimately have "radio_inv view air out (wr bus START 1 ?s4)"
      by (intro inv_start [OF dev]) (simp_all add: b q)
    moreover have "s' = wr bus START 1 ?s4"
      using irq go lock Some by (simp add: irq_rxidle_def Let_def wr_all_def)
    ultimately show ?thesis by simp
  qed
qed

lemma irq_xxidle_inv:
  assumes dev: "radio_device bus view" and inv: "radio_inv view air out s"
    and idle: "\<not> pending (view (dev s))" and irq: "irq_xxidle bus s = (r, s')"
  shows "radio_inv view air out s'"
proof -
  note R = device_quiet [OF dev]
  obtain st s1 where st: "rd bus STATE s = (st, s1)" by (metis surj_pair)
  note s1 = device_rd [OF dev st]
  have inv1: "radio_inv view air out s1" using inv_moved [OF inv moved_rd [OF R(1) st]] .
  consider "st = STATUS_RXIDLE" | "st = STATUS_TXIDLE" | "st \<noteq> STATUS_RXIDLE" "st \<noteq> STATUS_TXIDLE" by blast
  then show ?thesis
  proof cases
    case 1
    then have "\<not> armed (view (dev s1))" using dev s1 by (auto simp: radio_device_def)
    then show ?thesis
      using irq_rxidle_inv [OF dev inv1] irq st 1 idle s1 by (simp add: irq_xxidle_def)
  next
    case 2
    then have "s' = configure_tx_address bus (tx_address (rctx s1)) s1"
      using irq st by (simp add: irq_xxidle_def irq_txidle_def status_defs)
    then show ?thesis using inv_moved [OF inv1 moved_configure_tx_address [OF R(1)]] by simp
  next
    case 3
    then have s': "s' = wr bus POWER 0 (set_error (xxidle_error st) s1)" using irq st by (simp add: irq_xxidle_def)
    have "radio_inv view air out (set_error (xxidle_error st) s1)"
      by (rule inv_error [OF inv1]) (simp add: xxidle_error_def)
    then show ?thesis
      unfolding s' by (rule inv_moved) (rule moved_power_off [OF dev], use idle s1 in \<open>simp add: set_error_def\<close>)
  qed
qed

lemma irq_payload_inv:
  assumes dev: "radio_device bus view" and inv: "radio_inv view air out s"
    and pend: "pending (view (dev s))" and irq: "irq_payload bus s = (r, s')"
  shows "radio_inv view air out s'"
proof -
  obtain st s1 where st: "rd bus STATE (wr bus PAYLOAD 0 s) = (st, s1)" by (metis surj_pair)
  have s1: "rctx s1 = rctx s" "rmem s1 = rmem s" "view (dev s1) = (view (dev s))\<lparr>pending := False\<rparr>"
    using device_rd [OF dev st] dev by (simp_all add: wr_def radio_device_def)
  have no_tx: "st \<noteq> STATUS_TX"
    using dev device_rd(4) [OF dev st] pend by (auto simp: radio_device_def wr_def)
  show ?thesis
  proof (cases "st = STATUS_RX \<or> st = STATUS_RXIDLE")
    case True
    obtain crc s2 where crc: "rd bus CRCSTATUS s1 = (crc, s2)" by (metis surj_pair)
    have s2: "rctx s2 = rctx s" "rmem s2 = rmem s" "view (dev s2) = (view (dev s))\<lparr>pending := False\<rparr>"
      and good: "crc \<noteq> 0 \<longleftrightarrow> crc_good (view (dev s))"
      using device_rd [OF dev crc] s1 dev by (auto simp: radio_device_def)
    have irq2: "irq_payload_rx bus s1 = (r, s')" using irq st True by (simp add: irq_payload_def)
    show ?thesis
    proof (cases "crc = 0")
      case True
      then show ?thesis using inv_reject [OF inv pend _ s2] good irq2 crc by (simp add: irq_payload_rx_def)
    next
      case False
      obtain c b where "packet_fifo_write_release (rx_ring (rctx s2)) = (c, b)" by (metis surj_pair)
      then show ?thesis
        using inv_release [OF inv pend _ s2] good irq2 crc False by (simp add: irq_payload_rx_def)
    qed
  next
    case False
    then have s': "s' = set_error (payload_error st) s1" using irq st no_tx by (simp add: irq_payload_def Let_def)
    have "word_of_int (payload_error st) \<noteq> (0 :: u32)" by (simp add: payload_error_def)
    moreover have "rings_ok s1 \<and> dma_ok view s1"
      using inv s1 pend by (auto simp: radio_inv_def rings_ok_def dma_ok_def Let_def)
    ultimately show ?thesis by (auto simp: s' radio_inv_def rings_ok_def dma_ok_def set_error_def Let_def)
  qed
qed

lemma irq_disabled_inv:
  assumes dev: "radio_device bus view" and inv: "radio_inv view air out s"
    and idle: "\<not> pending (view (dev s))" and irq: "irq_disabled bus s = (r, s')"
  shows "radio_inv view air out s'"
proof -
  note R = device_quiet [OF dev]
  note tr = moved_trans [OF R(1)]
  obtain w s1 where w: "wrong_channel bus s = (w, s1)" by (metis surj_pair)
  let ?s1 = "if w then configure_channel bus (channel (rctx s1)) s1 else s1"
  obtain t s2 where t: "should_txidle bus ?s1 = (t, s2)" by (metis surj_pair)
  obtain i s3 where i: "should_rxidle bus s2 = (i, s3)" by (metis surj_pair)
  have s2: "moved (calm view) s s2"
  proof (rule tr [OF moved_wrong_channel [OF R(1) w] tr [OF _ moved_should_txidle [OF R(1) t]]])
    show "moved (calm view) s1 ?s1"
      by (simp add: moved_configure_channel [OF R(1)] moved_refl [OF R(1)])
  qed
  have s3: "moved (calm view) s s3" using tr [OF s2 moved_should_rxidle [OF R(1) i]] .
  have wrs: "moved (calm view) s2 (wr_all bus [(INTENSET, INTEN_READY), (DISABLED, 0), (TXEN, 1)] s2)"
    "moved (calm view) s3 (wr_all bus [(INTENSET, INTEN_READY), (DISABLED, 0), (RXEN, 1)] s3)"
    "moved (calm view) s3 (wr bus INTENCLR INTEN_DISABLED s3)"
    using moved_wr_all [OF R(1)] moved_wr [OF R(1)] by (simp_all add: quiet_def)
  have off: "moved (calm view) s3 (wr bus POWER 0 s3)"
    using moved_power_off [OF dev] s3 idle by (simp add: moved_def calmer_def)
  have "moved (calm view) s s'"
    using irq w t i tr [OF s2 wrs(1)] tr [OF s3 wrs(2)] tr [OF s3 wrs(3)] tr [OF s3 off]
    by (auto simp: irq_disabled_def split: if_splits)
  then show ?thesis using inv_moved [OF inv] by blast
qed

lemma radio_irq_inv:
  assumes dev: "radio_device bus view" and inv: "radio_inv view air out s" and irq: "radio_irq bus s = (r, s')"
  shows "radio_inv view air out s'"
proof -
  note R = device_quiet [OF dev]
  obtain p s1 where p: "rd bus PAYLOAD s = (p, s1)" by (metis surj_pair)
  obtain e s2 where e: "rd bus END s1 = (e, s2)" by (metis surj_pair)
  obtain y s3 where y: "rd bus READY s2 = (y, s3)" by (metis surj_pair)
  obtain d s4 where d: "rd bus DISABLED s3 = (d, s4)" by (metis surj_pair)
  note inv1 = inv_moved [OF inv moved_rd [OF R(1) p]]
  note inv2 = inv_moved [OF inv1 moved_rd [OF R(1) e]]
  note inv3 = inv_moved [OF inv2 moved_rd [OF R(1) y]]
  note inv4 = inv_moved [OF inv3 moved_rd [OF R(1) d]]
  have v: "view (dev s1) = view (dev s)" "view (dev s2) = view (dev s)" "view (dev s3) = view (dev s)"
    "view (dev s4) = view (dev s)"
    using device_rd [OF dev p] device_rd [OF dev e] device_rd [OF dev y] device_rd [OF dev d] by simp_all
  have pend: "p \<noteq> 0 \<longleftrightarrow> pending (view (dev s))"
    using device_rd [OF dev p] dev by (simp add: radio_device_def)
  show ?thesis
  proof (cases "p = 0")
    case False
    then show ?thesis using irq_payload_inv [OF dev inv1] irq p v pend by (simp add: radio_irq_def)
  next
    case True
    then have "\<not> pending (view (dev s))" using pend by simp
    then show ?thesis
      using irq p e y d True v inv4 irq_xxidle_inv [OF dev inv2] irq_xxidle_inv [OF dev inv3]
        irq_disabled_inv [OF dev inv4]
      by (auto simp: radio_irq_def irq_end_def irq_ready_def split: if_splits)
  qed
qed

section \<open>Readers, writers, control requests\<close>

lemma unlocked_idle: "radio_inv view air out s \<Longrightarrow> unlocked (rx_ring (rctx s)) \<Longrightarrow>
    \<not> armed (view (dev s)) \<and> \<not> pending (view (dev s))"
  by (auto simp: radio_inv_def dma_ok_def Let_def unlocked_def)

lemma packet_data_take: "n \<le> k \<Longrightarrow> prefix (packet_data m n p) (packet_data m k p)"
  by (metis packet_data_def le_add_diff_inverse map_append upt_add_eq_append prefixI zero_le)

lemma read_release_unlock [simp]:
  "packet_fifo_read_release (b\<lparr>flags := flags b OR LOCKED\<rparr>) = packet_fifo_read_release b"
proof -
  have "(flags b OR LOCKED) AND NOT LOCKED = flags b AND NOT LOCKED"
    by (rule bit_eqI) (auto simp: bit_simps)
  then show ?thesis by (simp add: packet_fifo_read_release_def Let_def)
qed

lemma write_release_unlock [simp]:
  "packet_fifo_write_release (b\<lparr>flags := flags b OR LOCKED\<rparr>) = packet_fifo_write_release b"
proof -
  have "(flags b OR LOCKED) AND NOT LOCKED = flags b AND NOT LOCKED"
    by (rule bit_eqI) (auto simp: bit_simps)
  then show ?thesis by (simp add: packet_fifo_write_release_def Let_def)
qed

lemma read_lock_cases:
  assumes "packet_fifo_read_lock b = (r, p, b')"
  obtains "p = None" and "b' = b"
    | "p = Some (slots b ! unat (ri b))" and "b' = b\<lparr>flags := flags b OR LOCKED\<rparr>" and "rsz b \<noteq> 0" and "unlocked b"
proof (cases "flags b AND LOCKED = 0 \<and> rsz b \<noteq> 0")
  case True
  then show ?thesis using assms that(2) by (simp add: packet_fifo_read_lock_def unlocked_def)
next
  case False
  then show ?thesis using assms that(1) by (simp only: packet_fifo_read_lock_def if_False prod.inject)
qed

lemma delivered_got:
  assumes "waiting view s = x # waiting view s'" and "prefix got x" and "delivered view air out s"
  shows "delivered view air (out @ [got]) s'"
proof -
  obtain ps where "list_all2 prefix out ps" "good_packets air = ps @ waiting view s"
    using assms(3) by (auto simp: delivered_def)
  then show ?thesis
    unfolding delivered_def using assms(1,2) by (intro exI [of _ "ps @ [x]"]) (auto intro: list_all2_appendI)
qed

text \<open>A read gives the front part of the oldest packet, or nothing.\<close>

lemma radio_read_inv:
  assumes dev: "radio_device bus view" and inv: "radio_inv view air out s" and rd1: "radio_read bus count s = (r, got, s')"
  shows "radio_inv view air (if got = [] then out else out @ [got]) s'"
proof -
  note R = device_quiet [OF dev]
  let ?n = "min count PAYLOAD_SIZE"
  obtain c p b where lock: "packet_fifo_read_lock (rx_ring (rctx s)) = (c, p, b)" by (metis prod_cases3)
  consider "?n = 0" | "?n \<noteq> 0" "p = None" | q where "?n \<noteq> 0" "p = Some q" by (cases p) auto
  then show ?thesis
  proof cases
    case 1
    then show ?thesis using rd1 inv by (simp add: radio_read_def Let_def)
  next
    case 2
    then have "set_rx b s = s" using lock by (auto simp: set_rx_def elim: read_lock_cases)
    then have "got = []" "s' = wr bus INTENSET radio_interrupts s"
      using rd1 2 lock by (simp_all add: radio_read_def Let_def)
    then show ?thesis using inv_moved [OF inv moved_wr [OF R(1)]] by (simp add: quiet_def)
  next
    case 3
    let ?b = "rx_ring (rctx s)"
    have q: "q = slots ?b ! unat (ri ?b)" and b: "b = ?b\<lparr>flags := flags ?b OR LOCKED\<rparr>" and some: "rsz ?b \<noteq> 0"
      and un: "unlocked ?b"
      using lock 3 by (auto elim: read_lock_cases)
    have ok: "ring_ok ?b" using inv by (simp add: radio_inv_def rings_ok_def Let_def)
    obtain b' where b': "packet_fifo_read_release ?b = (0, b')" "ring_ok b'" "unlocked b'"
      "queued ?b = slots ?b ! unat (ri ?b) # queued b'" "slots b' = slots ?b" "sz b' = sz ?b" "plen b' = plen ?b"
      using read_release_steps [OF ok some] by metis
    have got: "got = packet_data (rmem s) (unat ?n) q" and s': "s' = set_rx b' s"
      using rd1 3 lock b' by (simp_all add: radio_read_def Let_def b)
    have n: "0 < unat ?n" "unat ?n \<le> 39"
      using 3 by (simp add: unat_gt_0, simp add: min_def word_le_nat_alt PAYLOAD_SIZE_def split: if_splits)
    then have got_ne: "got \<noteq> []" by (metis got length_packet_data less_irrefl list.size(3))
    have idle: "\<not> armed (view (dev s))" "\<not> pending (view (dev s))" using unlocked_idle [OF inv un] by simp_all
    have "waiting view s = packet_data (rmem s) 39 q # waiting view s'"
      using b'(4) q idle by (simp add: waiting_def s')
    moreover have "prefix got (packet_data (rmem s) 39 q)" unfolding got using n(2) by (rule packet_data_take)
    ultimately have "delivered view air (out @ [got]) s'" if "delivered view air out s"
      using that by (rule delivered_got)
    then show ?thesis
      using inv b' got_ne idle by (auto simp: radio_inv_def rings_ok_def dma_ok_def s' Let_def unlocked_def)
  qed
qed

lemma ring_members:
  assumes "ring_ok b"
  shows "slots b ! unat (ri b) \<in> set (slots b)" and "slots b ! unat (wi b) \<in> set (slots b)"
    and "set (queued b) \<subseteq> set (slots b)"
proof -
  have "0 < unat (sz b)" "unat (ri b) < length (slots b)" "unat (wi b) < length (slots b)"
    using assms by (auto simp: ring_ok_def)
  then show "slots b ! unat (ri b) \<in> set (slots b)" "slots b ! unat (wi b) \<in> set (slots b)" by simp_all
  show "set (queued b) \<subseteq> set (slots b)"
    using assms \<open>0 < unat (sz b)\<close> by (auto simp: queued_def ring_list_def slot_def ring_ok_def)
qed

lemma free_not_queued:
  assumes "ring_ok b" and "wsz b \<noteq> 0" and "distinct (slots b)"
  shows "slots b ! unat (wi b) \<notin> set (queued b)"
proof
  assume "slots b ! unat (wi b) \<in> set (queued b)"
  then obtain i where "i < unat (sz b)" "i \<noteq> unat (wi b)" "slots b ! unat (wi b) = slots b ! i"
    using queued_slots [OF assms(1,2)] by (metis slot_def)
  moreover have "length (slots b) = unat (sz b)" "unat (wi b) < unat (sz b)"
    using assms(1) by (auto simp: ring_ok_def intro: mod_less_divisor)
  ultimately show False using assms(3) by (metis nth_eq_iff_index_eq)
qed

text \<open>Memory may change everywhere but in the packets, and in the packet that is being received.\<close>

definition packets_kept :: "('h \<Rightarrow> radio_view) \<Rightarrow> 'h radio \<Rightarrow> memory \<Rightarrow> bool" where
  "packets_kept view s m \<longleftrightarrow> (\<forall>p \<in> set (slots (rx_ring (rctx s))).
     \<not> (armed (view (dev s)) \<and> p = dma (view (dev s))) \<longrightarrow> packet_data m 39 p = packet_data (rmem s) 39 p)"

lemma queued_kept:
  assumes inv: "radio_inv view air out s" and m: "packets_kept view s m"
  shows "map (packet_data m 39) (queued (rx_ring (rctx s))) = map (packet_data (rmem s) 39) (queued (rx_ring (rctx s)))"
proof (rule map_cong [OF refl])
  fix p assume p: "p \<in> set (queued (rx_ring (rctx s)))"
  have ok: "ring_ok (rx_ring (rctx s))" using inv by (simp add: radio_inv_def rings_ok_def Let_def)
  have "p \<noteq> dma (view (dev s))" if "armed (view (dev s))"
    using inv that p free_not_queued [OF ok] by (auto simp: radio_inv_def rings_ok_def dma_ok_def Let_def)
  then show "packet_data m 39 p = packet_data (rmem s) 39 p"
    using m p ring_members(3) [OF ok] by (auto simp: packets_kept_def)
qed

lemma inv_memory:
  assumes inv: "radio_inv view air out s" and m: "packets_kept view s m"
  shows "radio_inv view air out (s\<lparr>rmem := m\<rparr>)"
proof -
  have ok: "ring_ok (rx_ring (rctx s))" using inv by (simp add: radio_inv_def rings_ok_def Let_def)
  have "packet_data m 39 (dma (view (dev s))) = packet_data (rmem s) 39 (dma (view (dev s)))" if "pending (view (dev s))"
    using inv that m ring_members(2) [OF ok] by (auto simp: radio_inv_def dma_ok_def Let_def packets_kept_def)
  then have "waiting view (s\<lparr>rmem := m\<rparr>) = waiting view s"
    using queued_kept [OF inv m] by (simp add: waiting_def)
  then show ?thesis using inv by (simp add: radio_inv_def rings_ok_def dma_ok_def delivered_def)
qed

lemma moved_on:
  assumes "radio_device bus view" and "power_up bus s = Some s'"
  shows "moved (calm view) s s'"
  by (rule moved_power_up [OF device_quiet(1) [OF assms(1)] device_power_on [OF assms(1)] assms(2)])

lemma radio_write_inv:
  assumes dev: "radio_device bus view" and inv: "radio_inv view air out s" and len: "length bs \<le> 39"
    and wr1: "radio_write_step bus bs s = Some (rest, s')"
  shows "radio_inv view air out s'"
proof -
  note R = device_quiet [OF dev]
  let ?tb = "tx_ring (rctx s)"
  obtain c p b where lock: "packet_fifo_write_lock ?tb = (c, p, b)" by (metis prod_cases3)
  let ?s1 = "case p of Some q \<Rightarrow> s\<lparr>rmem := write_bytes (rmem s) q bs,
                                 rctx := (rctx s)\<lparr>tx_ring := snd (packet_fifo_write_release b)\<rparr>\<rparr>
                     | None \<Rightarrow> s\<lparr>rctx := (rctx s)\<lparr>tx_ring := b\<rparr>\<rparr>"
  obtain s2 where up: "power_up bus ?s1 = Some s2" and s': "s' = wr bus INTENSET radio_interrupts (snd (cancel_rx bus s2))"
    using wr1 by (cases p) (auto simp: radio_write_step_def lock Let_def bind_eq_Some_conv)
  have "moved (calm view) ?s1 s'"
    unfolding s' by (rule moved_trans [OF R(1) moved_on [OF dev up]], rule moved_trans [OF R(1) moved_cancel_rx [OF R(1)]
          moved_wr [OF R(1)]]) (simp add: quiet_def)
  moreover have "radio_inv view air out ?s1"
  proof (cases p)
    case None
    then have "b = ?tb" using lock by (auto elim: write_lock_cases)
    then show ?thesis using inv None by simp
  next
    case (Some q)
    then have q: "q = slots ?tb ! unat (wi ?tb)" and b: "b = ?tb\<lparr>flags := flags ?tb OR LOCKED\<rparr>" and room: "wsz ?tb \<noteq> 0"
      using lock by (auto elim: write_lock_cases)
    have ok: "ring_ok ?tb" using inv by (simp add: radio_inv_def rings_ok_def Let_def)
    obtain tb where tb: "packet_fifo_write_release ?tb = (0, tb)" "ring_ok tb" "unlocked tb" "slots tb = slots ?tb"
      using write_release_steps [OF ok room] by metis
    have "packet_data (write_bytes (rmem s) q bs) 39 p' = packet_data (rmem s) 39 p'"
      if "p' \<in> set (slots (rx_ring (rctx s)))" for p'
    proof (rule packet_data_other)
      fix x :: nat assume "x < 39"
      then have "39 \<le> off q (p' + word_of_nat x)"
        using inv that ring_members(2) [OF ok] by (auto simp: radio_inv_def rings_ok_def Let_def q)
      then show "length bs \<le> off q (p' + word_of_nat x)" using len by simp
    qed
    then have "radio_inv view air out (s\<lparr>rmem := write_bytes (rmem s) q bs\<rparr>)"
      by (intro inv_memory [OF inv]) (simp add: packets_kept_def)
    then have "radio_inv view air out (s\<lparr>rmem := write_bytes (rmem s) q bs, rctx := (rctx s)\<lparr>tx_ring := tb\<rparr>\<rparr>)"
      using tb by (auto simp: radio_inv_def rings_ok_def dma_ok_def delivered_def waiting_def Let_def)
    then show ?thesis using tb(1) Some by (simp add: b)
  qed
  ultimately show ?thesis using inv_moved by blast
qed

lemma radio_ioctl_inv:
  assumes dev: "radio_device bus view" and inv: "radio_inv view air out s" and io: "radio_ioctl bus cmd arg s = Some (r, s')"
  shows "radio_inv view air out s'"
proof -
  note R = device_quiet [OF dev]
  have ctx: "radio_inv view air out (s\<lparr>rctx := c\<rparr>)" if "rx_ring c = rx_ring (rctx s)" "tx_ring c = tx_ring (rctx s)"
    "rc_error c = rc_error (rctx s)" for c
    by (rule inv_calm [OF inv]) (simp_all add: that calmer_def)
  have target: "radio_inv view air out s'" if go: "ioctl_target bus t s = Some (r, s')" for t
  proof -
    obtain s1 where up: "power_up bus (s\<lparr>rctx := (rctx s)\<lparr>target_state := t\<rparr>\<rparr>) = Some s1"
      and s': "s' = snd (cancel_rx bus (wr bus INTENSET INTEN_DISABLED s1))"
      using go by (auto simp: ioctl_target_def bind_eq_Some_conv)
    have "moved (calm view) s1 s'"
      unfolding s' by (rule moved_trans [OF R(1) moved_wr [OF R(1)] moved_cancel_rx [OF R(1)]]) (simp add: quiet_def)
    then show ?thesis
      using inv_moved [OF inv_moved [OF ctx moved_on [OF dev up]]] by simp
  qed
  have "radio_inv view air out (snd (cancel_rx bus (wr bus INTENSET INTEN_DISABLED (s\<lparr>rctx := c\<rparr>))))"
    "radio_inv view air out (snd (cancel_rx bus (s\<lparr>rctx := c\<rparr>)))"
    if "rx_ring c = rx_ring (rctx s)" "tx_ring c = tx_ring (rctx s)" "rc_error c = rc_error (rctx s)" for c
    using inv_moved [OF inv_moved [OF ctx [OF that] moved_wr [OF R(1)]] moved_cancel_rx [OF R(1)]]
      inv_moved [OF ctx [OF that] moved_cancel_rx [OF R(1)]] by (simp_all add: quiet_def)
  then show ?thesis
    using io inv ctx target by (auto simp: radio_ioctl_def split: if_splits)
qed

section \<open>Runs\<close>

text \<open>
  \<open>radio_run bus view s air out s'\<close>: from \<open>s\<close> interrupts, readers, writers, control requests and the device bring the
  driver to \<open>s'\<close>; \<open>air\<close> is what was received, with the checksum's verdict, and \<open>out\<close> what readers got.
\<close>

inductive radio_run ::
  "'h radio_bus \<Rightarrow> ('h \<Rightarrow> radio_view) \<Rightarrow> 'h radio \<Rightarrow> (bool \<times> u8 list) list \<Rightarrow> u8 list list \<Rightarrow> 'h radio \<Rightarrow> bool"
  for bus :: "'h radio_bus" and view :: "'h \<Rightarrow> radio_view" and s :: "'h radio" where
  run_start: "radio_run bus view s [] [] s"
| run_irq: "radio_run bus view s air out s1 \<Longrightarrow> radio_irq bus s1 = (r, s2) \<Longrightarrow> radio_run bus view s air out s2"
| run_read: "radio_run bus view s air out s1 \<Longrightarrow> radio_read bus count s1 = (r, got, s2) \<Longrightarrow>
    radio_run bus view s air (if got = [] then out else out @ [got]) s2"
| run_write: "radio_run bus view s air out s1 \<Longrightarrow> length bs \<le> 39 \<Longrightarrow> radio_write_step bus bs s1 = Some (rest, s2) \<Longrightarrow>
    radio_run bus view s air out s2"
| run_ioctl: "radio_run bus view s air out s1 \<Longrightarrow> radio_ioctl bus cmd arg s1 = Some (r, s2) \<Longrightarrow>
    radio_run bus view s air out s2"
| run_device: "radio_run bus view s air out s1 \<Longrightarrow> calm view (dev s1) h \<Longrightarrow> packets_kept view s1 m \<Longrightarrow>
    radio_run bus view s air out (s1\<lparr>dev := h, rmem := m\<rparr>)"
| run_receive: "radio_run bus view s air out s1 \<Longrightarrow> armed (view (dev s1)) \<Longrightarrow>
    \<not> armed (view h) \<Longrightarrow> pending (view h) \<Longrightarrow> dma (view h) = dma (view (dev s1)) \<Longrightarrow> packets_kept view s1 m \<Longrightarrow>
    radio_run bus view s (air @ [(crc_good (view h), packet_data m 39 (dma (view h)))]) out (s1\<lparr>dev := h, rmem := m\<rparr>)"

inductive_cases radio_run_nonempty: "radio_run bus view s (a # air) out s'"

definition radio_fresh :: "('h \<Rightarrow> radio_view) \<Rightarrow> 'h radio \<Rightarrow> bool" where
  "radio_fresh view s \<longleftrightarrow> rings_ok s \<and> unlocked (rx_ring (rctx s)) \<and> rsz (rx_ring (rctx s)) = 0 \<and>
     \<not> armed (view (dev s)) \<and> \<not> pending (view (dev s))"

lemma fresh_inv: "radio_fresh view s \<Longrightarrow> radio_inv view [] [] s"
  by (simp add: radio_fresh_def radio_inv_def dma_ok_def delivered_def waiting_def good_packets_def queued_def
      ring_list_def Let_def)

lemma inv_receive:
  assumes inv: "radio_inv view air out s" and arm: "armed (view (dev s))"
    and h: "\<not> armed (view h)" "pending (view h)" "dma (view h) = dma (view (dev s))" and m: "packets_kept view s m"
  shows "radio_inv view (air @ [(crc_good (view h), packet_data m 39 (dma (view h)))]) out (s\<lparr>dev := h, rmem := m\<rparr>)"
proof -
  have idle: "\<not> pending (view (dev s))" using inv arm by (simp add: radio_inv_def dma_ok_def Let_def)
  show ?thesis
    using inv arm idle h queued_kept [OF inv m]
    by (auto simp: radio_inv_def rings_ok_def dma_ok_def delivered_def waiting_def good_packets_def Let_def)
qed

lemma radio_run_inv:
  assumes "radio_device bus view" and "radio_run bus view s air out s'" and "radio_fresh view s"
  shows "radio_inv view air out s'"
  using assms(2)
proof (induction rule: radio_run.induct)
  case run_start
  then show ?case using fresh_inv [OF assms(3)] .
next
  case (run_device air out s1 h m)
  show ?case
    by (rule inv_calm [OF inv_memory [OF run_device.IH run_device.hyps(3)]]) (simp_all add: run_device.hyps(2))
next
  case (run_receive air out s1 h m)
  then show ?case by (intro inv_receive)
qed (use assms(1) in \<open>blast intro: radio_irq_inv radio_read_inv radio_write_inv radio_ioctl_inv\<close>)+

section \<open>Nothing is ever sent\<close>

text \<open>The ring of the sender only fills up.\<close>

definition tx_grows :: "'h radio \<Rightarrow> 'h radio \<Rightarrow> bool" where
  "tx_grows s s' \<longleftrightarrow> (let b = tx_ring (rctx s); b' = tx_ring (rctx s') in ring_ok b \<and> unlocked b \<longrightarrow>
     ring_ok b' \<and> unlocked b' \<and> unat (rsz b) \<le> unat (rsz b') \<and> sz b' = sz b)"

lemma tx_same: "tx_ring (rctx s') = tx_ring (rctx s) \<Longrightarrow> tx_grows s s'"
  by (simp add: tx_grows_def)

lemma tx_trans: "tx_grows a b \<Longrightarrow> tx_grows b c \<Longrightarrow> tx_grows a c"
  by (auto simp: tx_grows_def Let_def)

lemma quiet_any: "quiet_rel bus (\<lambda>_ _. True)"
  by (simp add: quiet_rel_def)

lemma rctx_wr [simp]: "rctx (wr bus r v s) = rctx s"
  by (simp add: wr_def)

lemma rctx_wr_all [simp]: "rctx (wr_all bus rvs s) = rctx s"
  by (induction rvs arbitrary: s) (auto simp: wr_all_def)

lemma rctx_rd: "rd bus r s = (v, s1) \<Longrightarrow> rctx s1 = rctx s"
  by (auto simp: rd_def split: prod.splits)

lemmas moved_any = moved_cancel_rx [OF quiet_any] moved_configure_channel [OF quiet_any]
  moved_configure_tx_address [OF quiet_any] moved_configure_rx_address [OF quiet_any]

lemma rctx_helpers [simp]:
  "rctx (snd (cancel_rx bus s)) = rctx s" "rctx (configure_channel bus ch s) = rctx s"
  "rctx (configure_tx_address bus a s) = rctx s" "rctx (configure_rx_address bus a s) = rctx s"
  by (simp_all add: moved_any [unfolded moved_def])

lemma rctx_asks:
  "wrong_channel bus s = (w, s1) \<Longrightarrow> rctx s1 = rctx s" "should_txidle bus s = (w, s1) \<Longrightarrow> rctx s1 = rctx s"
  "should_rxidle bus s = (w, s1) \<Longrightarrow> rctx s1 = rctx s" "should_rx bus s = (w, s1) \<Longrightarrow> rctx s1 = rctx s"
  "power_up bus s = Some s1 \<Longrightarrow> rctx s1 = rctx s"
  using moved_wrong_channel [OF quiet_any, of bus s w s1] moved_should_txidle [OF quiet_any, of bus s w s1]
    moved_should_rxidle [OF quiet_any, of bus s w s1] moved_should_rx [OF quiet_any, of bus s w s1]
    moved_power_up [OF quiet_any, of bus s s1] by (simp_all add: moved_def)

lemma irq_rxidle_tx: "irq_rxidle bus s = (r, s') \<Longrightarrow> tx_ring (rctx s') = tx_ring (rctx s)"
  by (auto simp: irq_rxidle_def Let_def split: prod.splits option.splits if_splits dest!: rctx_asks)

lemma irq_xxidle_tx: "irq_xxidle bus s = (r, s') \<Longrightarrow> tx_ring (rctx s') = tx_ring (rctx s)"
  by (auto simp: irq_xxidle_def irq_txidle_def set_error_def split: prod.splits if_splits
      dest!: rctx_rd irq_rxidle_tx)

lemma irq_payload_tx_ring: "irq_payload bus s = (r, s') \<Longrightarrow> tx_ring (rctx s') = tx_ring (rctx s)"
  by (auto simp: irq_payload_def irq_payload_rx_def set_error_def Let_def split: prod.splits if_splits dest!: rctx_rd)

lemma irq_disabled_tx: "irq_disabled bus s = (r, s') \<Longrightarrow> tx_ring (rctx s') = tx_ring (rctx s)"
  by (auto simp: irq_disabled_def split: prod.splits if_splits dest!: rctx_asks)

lemma radio_irq_tx: "radio_irq bus s = (r, s') \<Longrightarrow> tx_ring (rctx s') = tx_ring (rctx s)"
  by (auto simp: radio_irq_def irq_end_def irq_ready_def split: prod.splits if_splits
      dest!: rctx_rd irq_xxidle_tx irq_payload_tx_ring irq_disabled_tx)

lemma radio_read_tx: "radio_read bus count s = (r, got, s') \<Longrightarrow> tx_ring (rctx s') = tx_ring (rctx s)"
  by (auto simp: radio_read_def Let_def split: prod.splits option.splits if_splits)

lemma radio_ioctl_tx: "radio_ioctl bus cmd arg s = Some (r, s') \<Longrightarrow> tx_ring (rctx s') = tx_ring (rctx s)"
  by (auto simp: radio_ioctl_def ioctl_target_def bind_eq_Some_conv split: if_splits dest!: rctx_asks(5))

lemma radio_write_tx:
  assumes "radio_write_step bus bs s = Some (rest, s')"
  shows "tx_grows s s'" and "wsz (tx_ring (rctx s)) = 0 \<Longrightarrow> rest = bs"
proof -
  let ?b = "tx_ring (rctx s)"
  obtain c p b where lock: "packet_fifo_write_lock ?b = (c, p, b)" by (metis prod_cases3)
  have "tx_grows s s' \<and> (wsz ?b = 0 \<longrightarrow> rest = bs)"
  proof (cases p)
    case None
    then have "b = ?b" using lock by (auto elim: write_lock_cases)
    then show ?thesis
      using assms lock None
      by (auto simp: radio_write_step_def bind_eq_Some_conv intro!: tx_same dest!: rctx_asks(5))
  next
    case (Some q)
    then have b: "b = ?b\<lparr>flags := flags ?b OR LOCKED\<rparr>" and room: "wsz ?b \<noteq> 0"
      using lock by (auto elim: write_lock_cases)
    have s': "tx_ring (rctx s') = snd (packet_fifo_write_release ?b)"
      using assms lock Some by (auto simp: radio_write_step_def bind_eq_Some_conv b dest!: rctx_asks(5))
    have "ring_ok (tx_ring (rctx s')) \<and> unlocked (tx_ring (rctx s')) \<and> unat (rsz ?b) \<le> unat (rsz (tx_ring (rctx s'))) \<and>
        sz (tx_ring (rctx s')) = sz ?b" if ok: "ring_ok ?b"
    proof -
      obtain tb where tb: "packet_fifo_write_release ?b = (0, tb)" "ring_ok tb" "unlocked tb" "sz tb = sz ?b"
        "queued tb = queued ?b @ [slots ?b ! unat (wi ?b)]"
        using write_release_steps [OF ok room] by metis
      then have "unat (rsz tb) = unat (rsz ?b) + 1" by (metis length_append_singleton length_queued Suc_eq_plus1)
      then show ?thesis using tb s' by simp
    qed
    then show ?thesis using room by (simp add: tx_grows_def Let_def)
  qed
  then show "tx_grows s s'" and "wsz (tx_ring (rctx s)) = 0 \<Longrightarrow> rest = bs" by simp_all
qed

lemma radio_run_tx: "radio_run bus view s air out s' \<Longrightarrow> tx_grows s s'"
proof (induction rule: radio_run.induct)
  case run_start
  then show ?case by (rule tx_same) (rule refl)
next
  case (run_irq air out s1 r s2)
  then show ?case using tx_trans [OF _ tx_same] radio_irq_tx by blast
next
  case (run_read air out s1 count r got s2)
  then show ?case using tx_trans [OF _ tx_same] radio_read_tx by blast
next
  case (run_write air out s1 bs rest s2)
  then show ?case using tx_trans radio_write_tx(1) by blast
next
  case (run_ioctl air out s1 cmd arg r s2)
  then show ?case using tx_trans [OF _ tx_same] radio_ioctl_tx by blast
next
  case (run_device air out s1 h m)
  then show ?case using tx_trans [OF _ tx_same, of s s1 "s1\<lparr>dev := h, rmem := m\<rparr>"] by simp
next
  case (run_receive air out s1 h m)
  then show ?case using tx_trans [OF _ tx_same, of s s1 "s1\<lparr>dev := h, rmem := m\<rparr>"] by simp
qed

definition driver_steps :: "'h radio_bus \<Rightarrow> ('h radio \<Rightarrow> 'h radio) \<Rightarrow> bool" where
  "driver_steps bus f \<longleftrightarrow> (\<forall>u. \<exists>view air out. radio_run bus view u air out (f u))"

text \<open>At least one packet waits to be sent, or no more fits.\<close>

definition tx_holds :: "'h radio \<Rightarrow> bool" where
  "tx_holds s \<longleftrightarrow> (let b = tx_ring (rctx s) in ring_ok b \<and> unlocked b \<and> rsz b \<noteq> 0)"

definition tx_full :: "'h radio \<Rightarrow> bool" where
  "tx_full s \<longleftrightarrow> (let b = tx_ring (rctx s) in ring_ok b \<and> unlocked b \<and> wsz b = 0)"

lemma tx_holds_grows: "tx_grows s s' \<Longrightarrow> tx_holds s \<Longrightarrow> tx_holds s'"
  by (auto simp: tx_grows_def tx_holds_def Let_def unat_eq_0)

lemma tx_full_grows:
  assumes "tx_grows s s'" and "tx_full s"
  shows "tx_full s'"
proof -
  have "unat (wsz (tx_ring (rctx s'))) = 0"
    using assms by (auto simp: tx_grows_def tx_full_def Let_def ring_ok_def)
  then show ?thesis using assms by (auto simp: tx_grows_def tx_full_def Let_def unat_eq_0)
qed

lemma steps_grow: "driver_steps bus f \<Longrightarrow> tx_grows u (f u)"
  unfolding driver_steps_def using radio_run_tx by blast

lemma fflush_hangs:
  assumes yield: "driver_steps bus yield" and "tx_holds s"
  shows "radio_fflush yield s = None"
proof -
  have "tx_holds s \<longrightarrow> False" if "radio_fflush yield s = Some r" for r
  proof (rule radio_fflush.raw_induct [where P = "\<lambda>y s r. y = yield \<longrightarrow> tx_holds s \<longrightarrow> False", OF _ that,
        THEN mp, OF _ refl], intro impI)
    fix loop y s r
    assume IH: "\<And>y s r. loop y s = Some r \<Longrightarrow> y = yield \<longrightarrow> tx_holds s \<longrightarrow> False" and holds: "tx_holds s" and y: "y = yield"
      and run: "(let n = packet_fifo_size (tx_ring (rctx s)); s' = y s in if n \<noteq> 0 then loop y s' else Some (n, s')) = Some r"
    have "packet_fifo_size (tx_ring (rctx s)) \<noteq> 0"
      using holds by (simp add: tx_holds_def packet_fifo_size_def Let_def uint_0_iff)
    then show False using IH [of yield "yield s" r] run y tx_holds_grows [OF steps_grow [OF yield] holds] by (simp add: Let_def)
  qed
  then show ?thesis using assms(2) by (cases "radio_fflush yield s") auto
qed

lemma write_hangs:
  assumes between: "driver_steps bus between" and "tx_full s" and "bs \<noteq> []"
  shows "radio_write_loop bus yield between bs s = None"
proof -
  have "bs \<noteq> [] \<longrightarrow> tx_full s \<longrightarrow> False" if "radio_write_loop bus yield between bs s = Some r" for r
  proof (rule radio_write_loop.raw_induct
      [where P = "\<lambda>b y w bs s r. b = bus \<longrightarrow> w = between \<longrightarrow> bs \<noteq> [] \<longrightarrow> tx_full s \<longrightarrow> False", OF _ that,
       THEN mp, THEN mp, OF _ refl refl], intro impI)
    fix loop b y w and bs :: "u8 list" and s r
    assume IH: "\<And>b y w bs s r. loop b y w bs s = Some r \<Longrightarrow>
        b = bus \<longrightarrow> w = between \<longrightarrow> bs \<noteq> [] \<longrightarrow> tx_full s \<longrightarrow> False"
      and run: "(if bs = [] then Some s else Option.bind (radio_write_step b bs s)
          (\<lambda>(rest, s1). loop b y w rest (if rest = [] then y s1 else w s1))) = Some r"
      and eq: "b = bus" "w = between" and bs: "bs \<noteq> []" and full: "tx_full s"
    obtain rest s1 where step: "radio_write_step bus bs s = Some (rest, s1)"
      and next1: "loop bus y between rest (if rest = [] then y s1 else between s1) = Some r"
      using run bs eq by (auto simp: bind_eq_Some_conv)
    have "rest = bs" using radio_write_tx(2) [OF step] full by (simp add: tx_full_def Let_def)
    moreover have "tx_full (between s1)"
      using tx_full_grows [OF steps_grow [OF between] tx_full_grows [OF radio_write_tx(1) [OF step] full]] .
    ultimately show False using IH [OF next1] bs by simp
  qed
  then show ?thesis using assms(2,3) by (cases "radio_write_loop bus yield between bs s") auto
qed

section \<open>Properties\<close>


text \<open>C34: In every state the driver gets to, its rings are well-formed, and while the radio may write into memory it is a
  packet of the ring, locked, and no reader gets it or any other one.\<close>

theorem radio_dma_safe:
  assumes "radio_device bus view" and "radio_fresh view s" and "radio_run bus view s air out s'"
  shows "rings_ok s' \<and>
    (armed (view (dev s')) \<longrightarrow>
       dma (view (dev s')) \<in> set (slots (rx_ring (rctx s'))) - set (queued (rx_ring (rctx s'))) \<and>
       (\<forall>count. fst (snd (radio_read bus count s')) = []))"
proof -
  have inv: "radio_inv view air out s'" using radio_run_inv [OF assms(1,3,2)] .
  let ?b = "rx_ring (rctx s')"
  have ok: "rings_ok s'" "ring_ok ?b" "distinct (slots ?b)" and wsz: "locked ?b \<Longrightarrow> wsz ?b \<noteq> 0"
    using inv by (auto simp: radio_inv_def rings_ok_def Let_def)
  have "dma (view (dev s')) \<in> set (slots ?b) - set (queued ?b) \<and> (\<forall>count. fst (snd (radio_read bus count s')) = [])"
    if "armed (view (dev s'))"
  proof -
    have b: "locked ?b" "dma (view (dev s')) = slots ?b ! unat (wi ?b)"
      using inv that by (auto simp: radio_inv_def dma_ok_def Let_def)
    then have "packet_fifo_read_lock ?b = (FIFO_PACKET_FAILURE, None, ?b)" by (simp add: packet_fifo_read_lock_def)
    then show ?thesis
      using b ring_members(2) [OF ok(2)] free_not_queued [OF ok(2) wsz ok(3)] by (simp add: radio_read_def Let_def)
  qed
  then show ?thesis using ok(1) by blast
qed

text \<open>C35: A packet that is written is never sent: once one waits, flushing and closing never return, and once the ring of the
  sender is full a write never does, whatever else the driver does meanwhile.\<close>

theorem radio_never_sends:
  assumes "driver_steps bus yield" and "driver_steps bus between"
  shows "(tx_holds s \<longrightarrow> radio_fflush yield s = None \<and> radio_close bus yield kfree al s = None) \<and>
    (tx_full s \<longrightarrow> bs \<noteq> [] \<longrightarrow> radio_write bus yield between bs s = None)"
proof -
  have "take (unat PAYLOAD_SIZE) bs \<noteq> []" if "bs \<noteq> []" using that by (simp add: PAYLOAD_SIZE_def)
  then show ?thesis
    using fflush_hangs [OF assms(1)] write_hangs [OF assms(2)] by (simp add: radio_close_def radio_write_def Let_def)
qed

section \<open>A reception, step by step\<close>

text \<open>A radio that is always powered, in \<open>RXIDLE\<close> when it is not receiving.\<close>

definition demo_radio :: "(radio_reg, (radio_reg \<Rightarrow> u32) \<times> radio_view) bus" where
  "demo_radio = \<lparr>
     peek = (\<lambda>r h. (case r of
               PAYLOAD \<Rightarrow> if pending (snd h) then 1 else 0
             | CRCSTATUS \<Rightarrow> if crc_good (snd h) then 1 else 0
             | STATE \<Rightarrow> if armed (snd h) then STATUS_RX else STATUS_RXIDLE
             | POWER \<Rightarrow> 1
             | _ \<Rightarrow> fst h r, h)),
     poke = (\<lambda>r v h. ((fst h)(r := v), case r of
               START \<Rightarrow> (snd h)\<lparr>armed := True\<rparr>
             | PACKETPTR \<Rightarrow> (snd h)\<lparr>dma := v\<rparr>
             | PAYLOAD \<Rightarrow> (snd h)\<lparr>pending := False\<rparr>
             | POWER \<Rightarrow> (snd h)\<lparr>armed := False, pending := False\<rparr>
             | _ \<Rightarrow> snd h))\<rparr>"

lemma demo_radio_ok: "radio_device demo_radio snd"
proof -
  have "calmer o1 o1" for o1 by (simp add: calmer_def)
  then show ?thesis
    by (auto simp: radio_device_def demo_radio_def quiet_def status_defs split: radio_reg.splits)
qed

definition demo_ring :: "u32 \<Rightarrow> packet_fifo" where
  "demo_ring p = \<lparr>bp = 64, slots = [p], flags = 0, ri = 0, wi = 0, sz = 1, rsz = 0, wsz = 1, plen = 39\<rparr>"

definition demo0 :: "((radio_reg \<Rightarrow> u32) \<times> radio_view) radio" where
  "demo0 = \<lparr>dev = ((\<lambda>_. 0)(END := 1, FREQUENCY := 4),
                   \<lparr>armed = False, pending = False, crc_good = False, dma = 0\<rparr>),
            rctx = empty_context\<lparr>rx_ring := demo_ring 256, tx_ring := demo_ring 512, target_state := TARGET_STATE_RX\<rparr>,
            rmem = (\<lambda>_. 0)\<rparr>"

definition demo1 :: "((radio_reg \<Rightarrow> u32) \<times> radio_view) radio" where
  "demo1 = snd (radio_irq demo_radio demo0)"

definition demo2 :: "((radio_reg \<Rightarrow> u32) \<times> radio_view) radio" where
  "demo2 = demo1\<lparr>dev := (fst (dev demo1), (snd (dev demo1))\<lparr>armed := False, pending := True, crc_good := True\<rparr>),
                  rmem := (\<lambda>a. ucast a)\<rparr>"

definition demo3 :: "((radio_reg \<Rightarrow> u32) \<times> radio_view) radio" where
  "demo3 = snd (radio_irq demo_radio demo2)"

lemma demo_fresh: "radio_fresh snd demo0"
proof -
  have "39 \<le> off 512 (256 + word_of_nat x)" if "x < 39" for x
    using that by (simp add: off_def unat_sub_if_size unat_of_nat word_size)
  then show ?thesis
    by (simp add: radio_fresh_def rings_ok_def ring_ok_def unlocked_def demo0_def demo_ring_def empty_context_def
        PAYLOAD_SIZE_def)
qed

lemma demo_run:
  assumes "radio_read demo_radio 39 demo3 = (r, got, s')" and "got \<noteq> []"
  shows "radio_run demo_radio snd demo0 [(True, packet_data (\<lambda>a. ucast a) 39 256)] [got] s'"
proof -
  let ?r1 = "radio_run demo_radio snd demo0 [] []"
  have "?r1 demo1" unfolding demo1_def by (rule run_irq [OF run_start]) (rule surjective_pairing)
  moreover have d: "armed (snd (dev demo1))" "dma (snd (dev demo1)) = 256" "slots (rx_ring (rctx demo1)) = [256]"
    by code_simp+
  ultimately have "radio_run demo_radio snd demo0 [(True, packet_data (\<lambda>a. ucast a) 39 256)] [] demo2"
    using run_receive [of demo_radio snd demo0 "[]" "[]" demo1
        "(fst (dev demo1), (snd (dev demo1))\<lparr>armed := False, pending := True, crc_good := True\<rparr>)" "\<lambda>a. ucast a"]
    by (simp add: demo2_def packets_kept_def)
  then have "radio_run demo_radio snd demo0 [(True, packet_data (\<lambda>a. ucast a) 39 256)] [] demo3"
    unfolding demo3_def by (rule run_irq) (rule surjective_pairing)
  from run_read [OF this assms(1)] show ?thesis using assms(2) by simp
qed


lemma radio_dma_safe_witness:
  "radio_run demo_radio snd demo0 [] [] demo1 \<and> armed (snd (dev demo1)) \<and> rings_ok demo1 \<and>
   (\<forall>count. fst (snd (radio_read demo_radio count demo1)) = [])"
proof -
  have run: "radio_run demo_radio snd demo0 [] [] demo1"
    unfolding demo1_def by (rule run_irq [OF run_start]) (rule surjective_pairing)
  have "armed (snd (dev demo1))" by code_simp
  then show ?thesis using radio_dma_safe [OF demo_radio_ok demo_fresh run] run by blast
qed

definition demo_waiting :: "((radio_reg \<Rightarrow> u32) \<times> radio_view) radio" where
  "demo_waiting = demo0\<lparr>rctx := (rctx demo0)\<lparr>tx_ring := (demo_ring 512)\<lparr>rsz := 1, wsz := 0\<rparr>\<rparr>\<rparr>"

lemma radio_never_sends_witness:
  "radio_fflush (\<lambda>u. snd (radio_irq demo_radio u)) demo_waiting = None \<and>
   radio_write demo_radio (\<lambda>u. u) (\<lambda>u. snd (radio_irq demo_radio u)) [1] demo_waiting = None"
proof -
  have irqs: "driver_steps demo_radio (\<lambda>u. snd (radio_irq demo_radio u))"
    unfolding driver_steps_def using run_irq [OF run_start surjective_pairing] by blast
  have ids: "driver_steps demo_radio (\<lambda>u. u)" unfolding driver_steps_def using run_start by blast
  have "tx_holds demo_waiting" "tx_full demo_waiting"
    by (simp_all add: tx_holds_def tx_full_def demo_waiting_def demo_ring_def ring_ok_def unlocked_def)
  then show ?thesis
    using radio_never_sends [OF irqs irqs, where s = demo_waiting and kfree = "\<lambda>_ (a :: unit). a"]
      radio_never_sends [OF ids irqs, where s = demo_waiting and bs = "[1]" and kfree = "\<lambda>_ (a :: unit). a"]
    by simp
qed

text \<open>
  A reception whose event meets a receiver that is being switched off, by a control request, records an error that stays:
  a read still copies its bytes and answers the code.
\<close>

lemma late_payload_poisons_reads:
  assumes "peek bus PAYLOAD (dev s) = (1, h1)" and "peek bus STATE (poke bus PAYLOAD 0 h1) = (STATUS_RXDISABLE, h2)"
    and "radio_irq bus s = (r, s')"
  shows "r = -204" and "fst (radio_read bus count s') = -204"
proof -
  have s': "r = -204 \<and> rc_error (rctx s') = word_of_int (-204)"
    using assms by (auto simp: radio_irq_def irq_payload_def rd_def wr_def status_defs payload_error_def set_error_def Let_def)
  then show "r = -204" by simp
  have "rc_error (rctx (snd (snd (radio_read bus count s')))) = rc_error (rctx s')"
    by (simp add: radio_read_def Let_def set_rx_def split: prod.splits option.splits)
  moreover have "fst (radio_read bus count s') = (if rc_error (rctx (snd (snd (radio_read bus count s')))) \<noteq> 0
      then sint (rc_error (rctx (snd (snd (radio_read bus count s'))))) else int (length (fst (snd (radio_read bus count s')))))"
    by (simp add: radio_read_def Let_def split: prod.splits)
  ultimately show "fst (radio_read bus count s') = -204" using s' by simp
qed

end
