(* ===== verification/Cache.thy ===== *)
theory Cache
  imports Registers
begin

unbundle bit_operations_syntax

text \<open>
  \<open>src/kernel/arch/arm_a/mm/VMSAv7/cache.c\<close>: maintenance of the data caches by set and way. The registers of the
  coprocessor are behind a bus; barriers order what is done here in order anyway.
\<close>

section \<open>The code\<close>

datatype cp_reg = CSSELR | CCSIDR | CLIDR | DCCSW | DCISW | DCCISW | ICIALLU | BPIALL

function log2_loop :: "u32 \<Rightarrow> nat \<Rightarrow> nat" where
  "log2_loop l r = (let l' = drop_bit 1 l in if l' \<noteq> 0 then log2_loop l' (r + 1) else r)"
  by pat_completeness auto

termination
  by (relation "measure (\<lambda>(l, r). unat l)") (auto simp: unat_shift_right unat_eq_0 [symmetric])

definition log2 :: "u32 \<Rightarrow> nat" where
  "log2 l = log2_loop l 0"

definition log2_roundup :: "u32 \<Rightarrow> nat" where
  "log2_roundup l = (let r = log2 l in if BIT r < l then r + 1 else r)"

text \<open>In C the shift of the way is undefined for \<open>A = 0\<close>, a direct-mapped cache; ARM shifts out everything.\<close>

definition encode_set_way :: "u32 \<Rightarrow> u32 \<Rightarrow> nat \<Rightarrow> u32 \<Rightarrow> u32 \<Rightarrow> u32" where
  "encode_set_way cache_level associativity lineword set1 way =
     (let A = log2_roundup associativity
      in push_bit (32 - A) way OR push_bit lineword set1 OR push_bit 1 cache_level)"

datatype dcache_op = DCACHE_CLEAN | DCACHE_INVALIDATE | DCACHE_CLEAN_INVALIDATE

fun dcache_op_reg :: "dcache_op \<Rightarrow> cp_reg" where
  "dcache_op_reg DCACHE_CLEAN = DCCSW"
| "dcache_op_reg DCACHE_INVALIDATE = DCISW"
| "dcache_op_reg DCACHE_CLEAN_INVALIDATE = DCCISW"

definition nsets_of :: "u32 \<Rightarrow> nat" where
  "nsets_of ccsidr = 1 + unat (drop_bit 13 (ccsidr AND 0x0FFFE000))"

definition associativity_of :: "u32 \<Rightarrow> nat" where
  "associativity_of ccsidr = 1 + unat (drop_bit 3 (ccsidr AND 0x00001FF8))"

definition lineword_of :: "u32 \<Rightarrow> nat" where
  "lineword_of ccsidr = 4 + unat (ccsidr AND 7)"

definition dcache_do_level ::
  "(cp_reg, 'h) bus \<Rightarrow> dcache_op \<Rightarrow> u32 \<Rightarrow> ('h, 'z) machine_scheme \<Rightarrow> ('h, 'z) machine_scheme" where
  "dcache_do_level bus opn level s =
     (case rd bus CCSIDR (wr bus CSSELR (push_bit 1 level) s) of (ccsidr, s1) \<Rightarrow>
        fold (\<lambda>way. fold (\<lambda>set1. wr bus (dcache_op_reg opn)
                    (encode_set_way level (word_of_nat (associativity_of ccsidr)) (lineword_of ccsidr)
                       (word_of_nat set1) (word_of_nat way)))
               [0..<nsets_of ccsidr])
          [0..<associativity_of ccsidr] s1)"

definition ctype_of :: "u32 \<Rightarrow> nat \<Rightarrow> u32" where
  "ctype_of clidr index = drop_bit (index * 3) clidr AND 7"

definition dcache_do_all ::
  "(cp_reg, 'h) bus \<Rightarrow> dcache_op \<Rightarrow> ('h, 'z) machine_scheme \<Rightarrow> ('h, 'z) machine_scheme" where
  "dcache_do_all bus opn s =
     (case rd bus CLIDR s of (clidr, s1) \<Rightarrow>
        fold (\<lambda>index s. if ctype_of clidr index \<in> {2, 3, 4} then dcache_do_level bus opn (word_of_nat index) s else s)
          [0..<7] s1)"

definition dcache_clean :: "(cp_reg, 'h) bus \<Rightarrow> ('h, 'z) machine_scheme \<Rightarrow> ('h, 'z) machine_scheme" where
  "dcache_clean bus = dcache_do_all bus DCACHE_CLEAN"

definition dcache_invalidate :: "(cp_reg, 'h) bus \<Rightarrow> ('h, 'z) machine_scheme \<Rightarrow> ('h, 'z) machine_scheme" where
  "dcache_invalidate bus = dcache_do_all bus DCACHE_INVALIDATE"

definition dcache_clean_invalidate :: "(cp_reg, 'h) bus \<Rightarrow> ('h, 'z) machine_scheme \<Rightarrow> ('h, 'z) machine_scheme" where
  "dcache_clean_invalidate bus = dcache_do_all bus DCACHE_CLEAN_INVALIDATE"

text \<open>The operations on the instruction cache ignore the value that is written.\<close>

definition icache_invalidate :: "(cp_reg, 'h) bus \<Rightarrow> ('h, 'z) machine_scheme \<Rightarrow> ('h, 'z) machine_scheme" where
  "icache_invalidate bus s = wr_all bus [(ICIALLU, 0), (BPIALL, 0)] s"

section \<open>Logarithms\<close>

declare log2_loop.simps [simp del]

lemma log2_loop_bounds: "0 < unat l \<Longrightarrow> \<exists>k. log2_loop l r = r + k \<and> 2 ^ k \<le> unat l \<and> unat l < 2 ^ (k + 1)"
proof (induction l r rule: log2_loop.induct)
  case (1 l r)
  let ?l = "drop_bit 1 l"
  have half: "unat ?l = unat l div 2" by (simp add: unat_shift_right)
  show ?case
  proof (cases "?l = 0")
    case True
    then have "unat l div 2 = 0" using half by simp
    then have "unat l = 1" using 1(2) by simp
    then show ?thesis using True by (subst log2_loop.simps) (auto intro: exI [of _ 0])
  next
    case False
    then have "0 < unat ?l" by (simp add: unat_gt_0)
    then obtain k where k: "log2_loop ?l (r + 1) = (r + 1) + k" "2 ^ k \<le> unat ?l" "unat ?l < 2 ^ (k + 1)"
      using 1(1) [OF refl False] by blast
    have "2 ^ (k + 1) \<le> unat l" "unat l < 2 ^ (k + 1 + 1)" using k(2,3) unfolding half by simp_all
    moreover have "log2_loop l r = r + (k + 1)" using False k(1) by (subst log2_loop.simps) (simp add: Let_def)
    ultimately show ?thesis by blast
  qed
qed

text \<open>\<open>_log2_roundup\<close> is the least number of bits that can count to its argument.\<close>

lemma log2_roundup_least:
  assumes "0 < unat l" and "unat l \<le> 2 ^ 31"
  shows "unat l \<le> 2 ^ log2_roundup l" and "log2_roundup l = 0 \<or> 2 ^ (log2_roundup l - 1) < unat l"
    and "log2_roundup l \<le> 31"
proof -
  obtain k where k: "log2 l = k" "2 ^ k \<le> unat l" "unat l < 2 ^ (k + 1)"
    using log2_loop_bounds [OF assms(1), of 0] by (auto simp: log2_def)
  have "2 ^ k \<le> (2 :: nat) ^ 31" using k(2) assms(2) by (rule le_trans)
  then have k31: "k \<le> 31" by (rule power_le_imp_le_exp [rotated]) simp
  then have b: "BIT k < l \<longleftrightarrow> 2 ^ k < unat l" by (simp add: word_less_nat_alt)
  show "unat l \<le> 2 ^ log2_roundup l"
    using k b by (auto simp: log2_roundup_def Let_def)
  show "log2_roundup l = 0 \<or> 2 ^ (log2_roundup l - 1) < unat l"
  proof (cases "2 ^ k < unat l")
    case True
    then show ?thesis using k b by (simp add: log2_roundup_def)
  next
    case False
    then have "unat l = 2 ^ k" using k(2) by simp
    then show ?thesis using k b by (cases k) (auto simp: log2_roundup_def)
  qed
  show "log2_roundup l \<le> 31"
  proof (cases "2 ^ k < unat l")
    case True
    then have "2 ^ k < (2 :: nat) ^ 31" using assms(2) by simp
    then have "k < 31" by (rule power_less_imp_less_exp [rotated]) simp
    then show ?thesis using k b True by (simp add: log2_roundup_def)
  next
    case False
    then show ?thesis using k b k31 by (simp add: log2_roundup_def)
  qed
qed

section \<open>Set and way\<close>

text \<open>What a set/way argument means to the processor, by the architecture manual.\<close>

definition decode_set_way :: "nat \<Rightarrow> nat \<Rightarrow> u32 \<Rightarrow> nat \<times> nat" where
  "decode_set_way A L v = (unat (drop_bit (32 - A) v), unat (drop_bit L (take_bit (32 - A) v)))"

definition decode_level :: "u32 \<Rightarrow> nat" where
  "decode_level v = unat (drop_bit 1 v AND 7)"

lemma bit_of_small: "m < 2 ^ k \<Longrightarrow> k \<le> 32 \<Longrightarrow> bit (word_of_nat m :: u32) n \<Longrightarrow> n < k"
proof -
  assume m: "m < 2 ^ k" and k: "k \<le> 32" and b: "bit (word_of_nat m :: u32) n"
  have "m < 2 ^ 32" using m k by (meson less_le_trans one_le_numeral power_increasing)
  then have "unat (word_of_nat m :: u32) < 2 ^ k" using m by (simp add: unat_of_nat)
  then show "n < k" using b by (rule word_small_bits)
qed

lemma encode_decode:
  fixes lv way set1 :: nat
  assumes A: "log2_roundup assoc = A" "A \<le> 31" and way: "way < 2 ^ A" and L: "4 \<le> L" "L \<le> 32 - A"
    and set1: "set1 < 2 ^ (32 - A - L)" and lv: "lv < 7"
  defines "v \<equiv> encode_set_way (word_of_nat lv) assoc L (word_of_nat set1) (word_of_nat way)"
  shows "decode_set_way A L v = (way, set1)" and "decode_level v = lv"
proof -
  let ?w = "word_of_nat way :: u32" and ?s = "word_of_nat set1 :: u32" and ?l = "word_of_nat lv :: u32"
  define l2 where "l2 = push_bit 1 ?l"
  have l2: "bit l2 m \<longleftrightarrow> 1 \<le> m \<and> m < 32 \<and> bit ?l (m - 1)" for m
    unfolding l2_def by (auto simp only: bit_push_bit_iff) (auto dest: bit_imp_le_length)
  have v: "v = push_bit (32 - A) ?w OR push_bit L ?s OR l2"
    by (simp add: v_def encode_set_way_def A Let_def l2_def)
  have wb: "n < A" if "bit ?w n" for n using bit_of_small [OF way _ that] A by simp
  have sb: "n < 32 - A - L" if "bit ?s n" for n using bit_of_small [OF set1 _ that] by simp
  have lb: "n < 3" if "bit ?l n" for n using bit_of_small [of lv 3 n] lv that by simp
  have "drop_bit (32 - A) v = ?w"
  proof (rule bit_word_eqI)
    fix n assume "n < LENGTH(32)"
    then show "bit (drop_bit (32 - A) v) n = bit ?w n"
      using sb [of "32 - A + n - L"] lb [of "32 - A + n - 1"] L A wb [of n]
      by (auto simp: v bit_simps l2)
  qed
  moreover have "drop_bit L (take_bit (32 - A) v) = ?s"
  proof (rule bit_word_eqI)
    fix n assume "n < LENGTH(32)"
    then show "bit (drop_bit L (take_bit (32 - A) v)) n = bit ?s n"
      using sb [of n] lb [of "L + n - 1"] L A by (auto simp: v bit_simps l2)
  qed
  moreover have "drop_bit 1 v AND 7 = ?l"
  proof (rule bit_word_eqI)
    fix n assume "n < LENGTH(32)"
    have "bit (7 :: u32) n \<longleftrightarrow> n < 3"
      using bit_mask_iff [of 3 n, where 'a = "32 word"] by (auto simp: mask_eq_exp_minus_1)
    then show "bit (drop_bit 1 v AND 7) n = bit ?l n"
      using lb [of n] L A wb [of "1 + n - (32 - A)"] by (auto simp: v bit_simps l2)
  qed
  moreover have "unat ?w = way" "unat ?s = set1" "unat ?l = lv"
  proof -
    have "(2 :: nat) ^ A \<le> 2 ^ 31" using A by (intro power_increasing) auto
    moreover have "(2 :: nat) ^ (32 - A - L) \<le> 2 ^ 32" by (intro power_increasing) auto
    ultimately show "unat ?w = way" "unat ?s = set1" "unat ?l = lv"
      using way set1 lv by (simp_all add: unat_of_nat)
  qed
  ultimately show "decode_set_way A L v = (way, set1)" and "decode_level v = lv"
    by (simp_all add: decode_set_way_def decode_level_def)
qed

section \<open>Every line once\<close>

text \<open>
  The registers as the architecture manual gives them, read without the code's masks and without its
  logarithm: \<open>CLIDR\<close> has three bits a level, which are 2 for a data cache, 3 for separate caches and 4
  for a unified one; \<open>CCSIDR\<close> has the logarithm of the words of a line less two in bits 0 to 2, the ways less
  one in bits 3 to 12 and the sets less one in bits 13 to 27. The way stands in the least number of bits that
  counts all the ways, at the top of the argument.
\<close>

definition has_data :: "u32 \<Rightarrow> nat \<Rightarrow> bool" where
  "has_data clidr l \<longleftrightarrow> unat (take_bit 3 (drop_bit (3 * l) clidr)) \<in> {2, 3, 4}"

definition line_bits :: "u32 \<Rightarrow> nat" where
  "line_bits cc = 2 + (unat (take_bit 3 cc) + 2)"

definition ways_of :: "u32 \<Rightarrow> nat" where
  "ways_of cc = unat (take_bit 10 (drop_bit 3 cc)) + 1"

definition sets_of :: "u32 \<Rightarrow> nat" where
  "sets_of cc = unat (take_bit 15 (drop_bit 13 cc)) + 1"

definition ways_bits :: "u32 \<Rightarrow> nat" where
  "ways_bits cc = the (find (\<lambda>n. ways_of cc \<le> 2 ^ n) [0..<11])"

text \<open>
  The processor: \<open>CCSIDR\<close> describes the cache that \<open>CSSELR\<close> selects, and \<open>done h\<close> is the
  maintenance that was asked for so far.
\<close>

definition cache_device ::
  "(cp_reg, 'h) bus \<Rightarrow> ('h \<Rightarrow> u32) \<Rightarrow> ('h \<Rightarrow> (dcache_op \<times> u32) list) \<Rightarrow> u32 \<Rightarrow> (u32 \<Rightarrow> u32) \<Rightarrow> bool" where
  "cache_device bus sel done1 clidr ccsidr \<longleftrightarrow>
     (\<forall>r h. sel (snd (peek bus r h)) = sel h \<and> done1 (snd (peek bus r h)) = done1 h) \<and>
     (\<forall>h. fst (peek bus CLIDR h) = clidr) \<and> (\<forall>h. fst (peek bus CCSIDR h) = ccsidr (sel h)) \<and>
     (\<forall>v h. sel (poke bus CSSELR v h) = v \<and> done1 (poke bus CSSELR v h) = done1 h) \<and>
     (\<forall>opn v h. done1 (poke bus (dcache_op_reg opn) v h) = done1 h @ [(opn, v)])"

definition level_ccsidr :: "(u32 \<Rightarrow> u32) \<Rightarrow> nat \<Rightarrow> u32" where
  "level_ccsidr ccsidr l = ccsidr (push_bit 1 (word_of_nat l))"

text \<open>Way, set and line together fill the 32 bits of the argument at most.\<close>

definition cache_fits :: "u32 \<Rightarrow> bool" where
  "cache_fits cc \<longleftrightarrow> line_bits cc + ways_bits cc \<le> 32 \<and> sets_of cc \<le> 2 ^ (32 - ways_bits cc - line_bits cc)"

definition cache_line :: "(u32 \<Rightarrow> u32) \<Rightarrow> u32 \<Rightarrow> nat \<times> nat \<times> nat" where
  "cache_line ccsidr v =
     (let l = decode_level v; cc = level_ccsidr ccsidr l in (l, decode_set_way (ways_bits cc) (line_bits cc) v))"

definition lines_of_level :: "(u32 \<Rightarrow> u32) \<Rightarrow> nat \<Rightarrow> (nat \<times> nat \<times> nat) list" where
  "lines_of_level ccsidr l =
     (let cc = level_ccsidr ccsidr l
      in concat (map (\<lambda>way. map (\<lambda>set1. (l, way, set1)) [0..<sets_of cc]) [0..<ways_of cc]))"

definition data_lines :: "u32 \<Rightarrow> (u32 \<Rightarrow> u32) \<Rightarrow> (nat \<times> nat \<times> nat) list" where
  "data_lines clidr ccsidr = concat (map (lines_of_level ccsidr) (filter (has_data clidr) [0..<7]))"

lemma mask_take_bit:
  fixes w :: u32
  shows "w AND 7 = take_bit 3 w" "w AND 0x1FF8 = push_bit 3 (take_bit 10 (drop_bit 3 w))"
    "w AND 0x0FFFE000 = push_bit 13 (take_bit 15 (drop_bit 13 w))"
proof -
  have "(7 :: u32) = mask 3" "(0x1FF8 :: u32) = push_bit 3 (mask 10)" "(0x0FFFE000 :: u32) = push_bit 13 (mask 15)"
    by (simp_all add: mask_eq_exp_minus_1)
  then show "w AND 7 = take_bit 3 w" "w AND 0x1FF8 = push_bit 3 (take_bit 10 (drop_bit 3 w))"
    "w AND 0x0FFFE000 = push_bit 13 (take_bit 15 (drop_bit 13 w))"
    by (simp_all only: take_bit_eq_mask) (auto simp only: bit_simps comp_apply le_add_diff_inverse intro!: bit_word_eqI)
qed

lemma drop_push_take: "k + n \<le> 32 \<Longrightarrow> drop_bit n (push_bit n (take_bit k w)) = take_bit k w" for w :: u32
  by (rule bit_word_eqI) (auto simp: bit_simps)

text \<open>The code reads the fields as the manual defines them.\<close>

lemma fields_read [simp]:
  shows "lineword_of cc = line_bits cc" and "associativity_of cc = ways_of cc" and "nsets_of cc = sets_of cc"
  by (simp_all add: lineword_of_def line_bits_def associativity_of_def ways_of_def nsets_of_def sets_of_def
      mask_take_bit drop_push_take)

lemma ctype_read: "ctype_of clidr l \<in> {2, 3, 4} \<longleftrightarrow> has_data clidr l"
proof -
  have "w \<in> {2, 3, 4} \<longleftrightarrow> unat w \<in> {2, 3, 4}" for w :: u32
    by (auto simp: word_unat_eq_iff)
  then show ?thesis
    by (simp only: ctype_of_def has_data_def mask_take_bit mult.commute)
qed

lemma field_bounds:
  shows "0 < ways_of cc" "ways_of cc \<le> 2 ^ 10" and "4 \<le> line_bits cc"
proof -
  have "unat (take_bit 10 (drop_bit 3 cc)) < 2 ^ 10"
    using take_bit_nat_less_exp [of 10 "unat (drop_bit 3 cc)"] by (simp only: unsigned_take_bit_eq)
  then show "0 < ways_of cc" "ways_of cc \<le> 2 ^ 10" "4 \<le> line_bits cc" by (simp_all add: ways_of_def line_bits_def)
qed

lemma ways_bits_least:
  shows "ways_of cc \<le> 2 ^ ways_bits cc" and "m < ways_bits cc \<Longrightarrow> 2 ^ m < ways_of cc" and "ways_bits cc \<le> 10"
proof -
  have "find (\<lambda>n. ways_of cc \<le> 2 ^ n) [0..<11] \<noteq> None"
    unfolding find_None_iff using field_bounds(2) [of cc] by (auto intro!: exI [of _ 10])
  then obtain n where n: "find (\<lambda>n. ways_of cc \<le> 2 ^ n) [0..<11] = Some n" by blast
  then obtain i where i: "i < 11" "n = i" "ways_of cc \<le> 2 ^ i" "\<forall>j < i. \<not> ways_of cc \<le> 2 ^ j"
    unfolding find_Some_iff by (auto simp: nth_upt simp del: upt_Suc upt_rec_numeral)
  then show "ways_of cc \<le> 2 ^ ways_bits cc" "m < ways_bits cc \<Longrightarrow> 2 ^ m < ways_of cc" "ways_bits cc \<le> 10"
    using n by (auto simp: ways_bits_def)
qed

text \<open>\<open>_log2_roundup\<close> puts the way where the architecture wants it.\<close>

lemma log2_roundup_ways: "log2_roundup (word_of_nat (ways_of cc)) = ways_bits cc"
proof -
  let ?l = "word_of_nat (ways_of cc) :: u32"
  have n: "unat ?l = ways_of cc" using field_bounds(2) [of cc] by (simp add: unat_of_nat)
  have le: "ways_of cc \<le> 2 ^ log2_roundup ?l" and least: "log2_roundup ?l = 0 \<or> 2 ^ (log2_roundup ?l - 1) < ways_of cc"
    using log2_roundup_least [of ?l] field_bounds(1,2) [of cc] unfolding n by simp_all
  have "\<not> log2_roundup ?l < ways_bits cc" using ways_bits_least(2) [of "log2_roundup ?l" cc] le by auto
  moreover have "\<not> ways_bits cc < log2_roundup ?l"
  proof
    assume lt: "ways_bits cc < log2_roundup ?l"
    then have "(2 :: nat) ^ ways_bits cc \<le> 2 ^ (log2_roundup ?l - 1)" by (intro power_increasing) auto
    then show False using least lt ways_bits_least(1) [of cc] by linarith
  qed
  ultimately show ?thesis by simp
qed

lemma done_writes:
  assumes "cache_device bus sel done1 clidr ccsidr"
  shows "done1 (dev (fold (\<lambda>x. wr bus (dcache_op_reg opn) (f x)) xs s)) = done1 (dev s) @ map (\<lambda>x. (opn, f x)) xs"
  using assms by (induction xs arbitrary: s) (simp_all add: cache_device_def wr_def)

lemma done_nested_writes:
  assumes "cache_device bus sel done1 clidr ccsidr"
  shows "done1 (dev (fold (\<lambda>w. fold (\<lambda>i. wr bus (dcache_op_reg opn) (f w i)) is1) ws s)) =
    done1 (dev s) @ concat (map (\<lambda>w. map (\<lambda>i. (opn, f w i)) is1) ws)"
  by (induction ws arbitrary: s) (simp_all add: done_writes [OF assms])

lemma level_done:
  assumes dev: "cache_device bus sel done1 clidr ccsidr" and l: "l < 7" and fits: "cache_fits (level_ccsidr ccsidr l)"
  shows "\<exists>vs. done1 (dev (dcache_do_level bus opn (word_of_nat l) s)) = done1 (dev s) @ map (Pair opn) vs \<and>
    map (cache_line ccsidr) vs = lines_of_level ccsidr l"
proof -
  obtain cc s1 where cc: "rd bus CCSIDR (wr bus CSSELR (push_bit 1 (word_of_nat l)) s) = (cc, s1)" by (metis surj_pair)
  have s1: "done1 (dev s1) = done1 (dev s)" and cc': "cc = level_ccsidr ccsidr l"
    using cc dev by (auto simp: rd_def wr_def cache_device_def level_ccsidr_def split: prod.splits) (metis fst_conv snd_conv)+
  let ?enc = "\<lambda>w i. encode_set_way (word_of_nat l) (word_of_nat (ways_of cc)) (line_bits cc)
      (word_of_nat i) (word_of_nat w)"
  let ?vs = "concat (map (\<lambda>w. map (?enc w) [0..<sets_of cc]) [0..<ways_of cc])"
  have "done1 (dev (dcache_do_level bus opn (word_of_nat l) s)) =
      done1 (dev s1) @ concat (map (\<lambda>w. map (\<lambda>i. (opn, ?enc w i)) [0..<sets_of cc]) [0..<ways_of cc])"
    unfolding dcache_do_level_def cc prod.case fields_read by (rule done_nested_writes [OF dev])
  also have "\<dots> = done1 (dev s) @ map (Pair opn) ?vs" by (simp add: s1 map_concat comp_def)
  finally have 1: "done1 (dev (dcache_do_level bus opn (word_of_nat l) s)) = done1 (dev s) @ map (Pair opn) ?vs" .
  have line: "cache_line ccsidr (?enc w i) = (l, w, i)" if w: "w < ways_of cc" and i: "i < sets_of cc" for w i
  proof -
    have A: "ways_of cc \<le> 2 ^ ways_bits cc" "ways_bits cc \<le> 31"
      using ways_bits_least(1,3) [of cc] by simp_all
    have f: "line_bits cc + ways_bits cc \<le> 32" "sets_of cc \<le> 2 ^ (32 - ways_bits cc - line_bits cc)"
      using fits unfolding cc' cache_fits_def by simp_all
    have "line_bits cc \<le> 32 - ways_bits cc" using f(1) by simp
    note d = encode_decode [OF log2_roundup_ways A(2) _ field_bounds(3) this _ l, of w i]
    show ?thesis using d w i A f(2) by (simp add: cache_line_def Let_def cc' [symmetric])
  qed
  have "map (cache_line ccsidr) ?vs = lines_of_level ccsidr l"
    unfolding lines_of_level_def Let_def cc' [symmetric] map_concat
    by (auto simp: comp_def line intro!: arg_cong [where f = concat])
  with 1 show ?thesis by blast
qed

lemma dcache_do_all_lines:
  assumes dev: "cache_device bus sel done1 clidr ccsidr"
    and fits: "\<forall>l < 7. has_data clidr l \<longrightarrow> cache_fits (level_ccsidr ccsidr l)"
  shows "\<exists>vs. done1 (dev (dcache_do_all bus opn s)) = done1 (dev s) @ map (Pair opn) vs \<and>
    map (cache_line ccsidr) vs = data_lines clidr ccsidr"
proof -
  obtain c s1 where c: "rd bus CLIDR s = (c, s1)" by (metis surj_pair)
  have s1: "done1 (dev s1) = done1 (dev s)" "c = clidr"
    using c dev by (auto simp: rd_def cache_device_def split: prod.splits) (metis fst_conv snd_conv)+
  let ?step = "\<lambda>index s. if has_data clidr index then dcache_do_level bus opn (word_of_nat index) s else s"
  have all: "\<exists>vs. done1 (dev (fold ?step ls s)) = done1 (dev s) @ map (Pair opn) vs \<and>
      map (cache_line ccsidr) vs = concat (map (lines_of_level ccsidr) (filter (has_data clidr) ls))"
    if "\<forall>l \<in> set ls. l < 7" for ls s
    using that
  proof (induction ls arbitrary: s)
    case Nil
    then show ?case by simp
  next
    case (Cons l ls)
    obtain vs1 where vs1: "done1 (dev (?step l s)) = done1 (dev s) @ map (Pair opn) vs1"
      "map (cache_line ccsidr) vs1 = (if has_data clidr l then lines_of_level ccsidr l else [])"
    proof (cases "has_data clidr l")
      case True
      then show ?thesis using level_done [OF dev, of l opn s] fits Cons.prems that by auto
    next
      case False
      then show ?thesis using that [of "[]"] by simp
    qed
    obtain vs2 where vs2: "done1 (dev (fold ?step ls (?step l s))) = done1 (dev (?step l s)) @ map (Pair opn) vs2"
      "map (cache_line ccsidr) vs2 = concat (map (lines_of_level ccsidr) (filter (has_data clidr) ls))"
      using Cons.IH [of "?step l s"] Cons.prems by auto
    show ?case
      using vs1 vs2 by (intro exI [of _ "vs1 @ vs2"]) simp
  qed
  have "\<forall>l \<in> set [0..<7 :: nat]. l < 7" by (simp only: set_upt) simp
  from all [OF this, of s1] show ?thesis
    by (simp only: dcache_do_all_def c data_lines_def prod.case ctype_read s1)
qed

lemma data_lines_distinct: "distinct (data_lines clidr ccsidr)"
proof -
  have sets: "(\<forall>x. \<not> x < sets_of cc) \<longleftrightarrow> False" for cc by (auto simp: sets_of_def)
  have level: "distinct (lines_of_level ccsidr l)" for l
    by (auto simp: lines_of_level_def Let_def distinct_map inj_on_def sets intro!: distinct_concat)
  show ?thesis
    unfolding data_lines_def
  proof (rule distinct_concat)
    have "fst (hd (lines_of_level ccsidr l)) = l" for l
    proof -
      have "lines_of_level ccsidr l \<noteq> []"
        using field_bounds(1) by (auto simp: lines_of_level_def Let_def sets_of_def)
      then have "hd (lines_of_level ccsidr l) \<in> set (lines_of_level ccsidr l)" by simp
      then show ?thesis by (auto simp: lines_of_level_def Let_def)
    qed
    then have "inj (lines_of_level ccsidr)" by (metis injI)
    then show "distinct (map (lines_of_level ccsidr) (filter (has_data clidr) [0..<7]))"
      by (auto simp: distinct_map intro: inj_on_subset)
  next
    fix ys assume "ys \<in> set (map (lines_of_level ccsidr) (filter (has_data clidr) [0..<7]))"
    then show "distinct ys" using level by auto
  next
    fix ys zs assume "ys \<in> set (map (lines_of_level ccsidr) (filter (has_data clidr) [0..<7]))"
      "zs \<in> set (map (lines_of_level ccsidr) (filter (has_data clidr) [0..<7]))" "ys \<noteq> zs"
    then show "set ys \<inter> set zs = {}" by (auto simp: lines_of_level_def Let_def)
  qed
qed

text \<open>C37: Maintaining all data caches reaches every line of every one of them, level, way and set, exactly once. The
  registers and the operand are read by the architecture's own definitions, not by the code's; the premise is that way, set
  and line fit the 32 bits of an operand, as they do in every cache that can be maintained so.\<close>

theorem dcache_every_line_once:
  assumes "cache_device bus sel done1 clidr ccsidr"
    and "\<forall>l < 7. has_data clidr l \<longrightarrow> cache_fits (level_ccsidr ccsidr l)"
  shows "\<exists>vs. done1 (dev (dcache_do_all bus opn s)) = done1 (dev s) @ map (Pair opn) vs \<and>
    distinct (map (cache_line ccsidr) vs) \<and>
    set (map (cache_line ccsidr) vs) =
      {(l, way, set1). l < 7 \<and> has_data clidr l \<and> way < ways_of (level_ccsidr ccsidr l) \<and>
                       set1 < sets_of (level_ccsidr ccsidr l)}"
proof -
  have "(l', w, i) \<in> set (lines_of_level ccsidr l) \<longleftrightarrow>
      l' = l \<and> w < ways_of (level_ccsidr ccsidr l) \<and> i < sets_of (level_ccsidr ccsidr l)" for l l' w i
    by (force simp: lines_of_level_def Let_def)
  then have set: "set (data_lines clidr ccsidr) = {(l, way, set1). l < 7 \<and> has_data clidr l \<and>
      way < ways_of (level_ccsidr ccsidr l) \<and> set1 < sets_of (level_ccsidr ccsidr l)}"
    by (auto simp: data_lines_def)
  obtain vs where vs: "done1 (dev (dcache_do_all bus opn s)) = done1 (dev s) @ map (Pair opn) vs"
    "map (cache_line ccsidr) vs = data_lines clidr ccsidr"
    using dcache_do_all_lines [OF assms] by blast
  show ?thesis
    by (rule exI [of _ vs], unfold vs(2) set) (simp add: vs(1) data_lines_distinct)
qed

text \<open>A processor with one data cache of two ways of two sets.\<close>

definition demo_cache :: "(cp_reg, u32 \<times> (dcache_op \<times> u32) list) bus" where
  "demo_cache = \<lparr>
     peek = (\<lambda>r h. (if r = CLIDR then 3 else if r = CCSIDR \<and> fst h = 0 then 0x2008 else 0, h)),
     poke = (\<lambda>r v h. case r of
               CSSELR \<Rightarrow> (v, snd h)
             | DCCSW \<Rightarrow> (fst h, snd h @ [(DCACHE_CLEAN, v)])
             | DCISW \<Rightarrow> (fst h, snd h @ [(DCACHE_INVALIDATE, v)])
             | DCCISW \<Rightarrow> (fst h, snd h @ [(DCACHE_CLEAN_INVALIDATE, v)])
             | _ \<Rightarrow> h)\<rparr>"

lemma demo_cache_device: "cache_device demo_cache fst snd 3 (\<lambda>v. if v = 0 then 0x2008 else 0)"
proof -
  have "snd (poke demo_cache (dcache_op_reg opn) v h) = snd h @ [(opn, v)]" for opn v h
    by (cases opn) (simp_all add: demo_cache_def)
  then show ?thesis by (simp add: cache_device_def demo_cache_def)
qed

lemma demo_cache_fits:
  "\<forall>l < 7. has_data 3 l \<longrightarrow> cache_fits (level_ccsidr (\<lambda>v. if v = 0 then 0x2008 else 0) l)"
proof (intro allI impI)
  fix l :: nat assume l: "l < 7" and d: "has_data 3 l"
  have "l \<in> set [0..<7]" using l by simp
  moreover have "\<forall>l \<in> set [0..<7]. has_data 3 l \<longrightarrow> l = 0" by code_simp
  ultimately have "l = 0" using d by blast
  moreover have "line_bits 0x2008 = 4" "ways_bits 0x2008 = 1" "sets_of 0x2008 = 2" by code_simp+
  ultimately show "cache_fits (level_ccsidr (\<lambda>v. if v = 0 then 0x2008 else 0) l)"
    by (simp add: level_ccsidr_def cache_fits_def)
qed

lemma dcache_every_line_once_witness:
  "\<exists>vs. snd (dev (dcache_clean demo_cache \<lparr>dev = (0, [])\<rparr>)) = map (Pair DCACHE_CLEAN) vs \<and> distinct vs \<and> length vs = 4"
proof -
  obtain vs where vs: "snd (dev (dcache_do_all demo_cache DCACHE_CLEAN \<lparr>dev = (0, [])\<rparr>)) = map (Pair DCACHE_CLEAN) vs"
    "distinct (map (cache_line (\<lambda>v. if v = 0 then 0x2008 else 0)) vs)"
    using dcache_every_line_once [OF demo_cache_device demo_cache_fits, of DCACHE_CLEAN "\<lparr>dev = (0, [])\<rparr>"] by auto
  have "length (snd (dev (dcache_do_all demo_cache DCACHE_CLEAN \<lparr>dev = (0, [])\<rparr>))) = 4" by code_simp
  then have "length vs = 4" using vs(1) by simp
  then show ?thesis using vs by (intro exI [of _ vs]) (simp add: dcache_clean_def distinct_map)
qed

end
