(* ===== verification/Irq_Controllers.thy ===== *)
theory Irq_Controllers
  imports Registers
begin

unbundle bit_operations_syntax

text \<open>
  The three interrupt controllers: the GIC of the Cortex-A multiprocessors (\<open>src/kernel/drivers/arm/gic/gic.c\<close>), the one of
  the OMAP3 (\<open>drivers/ti/omap/omap3/interrupt_controller/interrupt_controller.c\<close>) and the NVIC of the Cortex-M
  (\<open>drivers/arm/nvic/nvic.c\<close>). A driver's interrupt object is any value: \<open>num\<close> gives its number and \<open>invoke\<close> runs its handler, on the
  whole state. Registers are behind a bus.
\<close>

record ('i, 'h) irqc = "'h machine" +
  interrupt_functions :: "'i option list"

section \<open>GIC\<close>

datatype gic_reg =
  GICD_CTLR | GICD_IIDR | GICD_ISENABLER nat | GICD_ICENABLER nat | GICD_IPRIORITYR nat | GICD_ITARGETSR nat | GICD_SGIR
  | GICC_CTLR | GICC_PMR | GICC_IAR | GICC_EOIR | GICC_IIDR

definition GIC_INTERRUPTS_MAX :: u32 where "GIC_INTERRUPTS_MAX = 256"
definition GIC_DISTRIBUTOR_OFFSET :: u32 where "GIC_DISTRIBUTOR_OFFSET = 0x1000"
definition GIC_CPU_INTERFACE_OFFSET :: u32 where "GIC_CPU_INTERFACE_OFFSET = 0x2000"
definition GICD_SGIR_TARGER_LIST_FILTER_THIS :: u32 where "GICD_SGIR_TARGER_LIST_FILTER_THIS = push_bit 24 2"

definition peripheral_base :: "u32 \<Rightarrow> u32" where
  "peripheral_base cbar = cbar AND 0xFFFF8000"

definition gic_get_distributor :: "u32 \<Rightarrow> u32" where
  "gic_get_distributor cbar = peripheral_base cbar + GIC_DISTRIBUTOR_OFFSET"

definition gic_get_cpu_interface :: "u32 \<Rightarrow> u32" where
  "gic_get_cpu_interface cbar = peripheral_base cbar + GIC_CPU_INTERFACE_OFFSET"

definition gic_register_handler :: "('i \<Rightarrow> u32) \<Rightarrow> 'i \<Rightarrow> ('i, 'h) irqc \<Rightarrow> int \<times> ('i, 'h) irqc" where
  "gic_register_handler num i s =
     (let n = num i
      in if n \<ge> GIC_INTERRUPTS_MAX then (1, s)
         else if interrupt_functions s ! unat n = None then
           (0, s\<lparr>interrupt_functions := (interrupt_functions s)[unat n := Some i]\<rparr>)
         else (-1, s))"

definition gic_mask ::
  "(gic_reg, 'h) bus \<Rightarrow> ('i \<Rightarrow> u32) \<Rightarrow> 'i \<Rightarrow> ('i, 'h) irqc \<Rightarrow> int \<times> ('i, 'h) irqc" where
  "gic_mask bus num i s =
     (let n = num i
      in if n < GIC_INTERRUPTS_MAX then (0, wr bus (GICD_ICENABLER (unat (n div 32))) (push_bit (unat (n mod 32)) 1) s)
         else (-1, s))"

definition gic_unmask ::
  "(gic_reg, 'h) bus \<Rightarrow> ('i \<Rightarrow> u32) \<Rightarrow> 'i \<Rightarrow> ('i, 'h) irqc \<Rightarrow> int \<times> ('i, 'h) irqc" where
  "gic_unmask bus num i s =
     (let n = num i
      in if n < GIC_INTERRUPTS_MAX then (0, wr bus (GICD_ISENABLER (unat (n div 32))) (push_bit (unat (n mod 32)) 1) s)
         else (-1, s))"

definition gic_sgi ::
  "(gic_reg, 'h) bus \<Rightarrow> ('i \<Rightarrow> u32) \<Rightarrow> 'i \<Rightarrow> ('i, 'h) irqc \<Rightarrow> int \<times> ('i, 'h) irqc" where
  "gic_sgi bus num i s = (0, wr bus GICD_SGIR (GICD_SGIR_TARGER_LIST_FILTER_THIS OR num i) s)"

text \<open>A number without a handler is acknowledged as well.\<close>

definition gic_arm_IRQ ::
  "(gic_reg, 'h) bus \<Rightarrow> ('i \<Rightarrow> ('i, 'h) irqc \<Rightarrow> int \<times> ('i, 'h) irqc) \<Rightarrow> ('i, 'h) irqc \<Rightarrow> int \<times> ('i, 'h) irqc" where
  "gic_arm_IRQ bus invoke s =
     (case rd bus GICC_IAR s of (iar, s1) \<Rightarrow>
        let irq = iar AND 1023
        in if irq = 1023 \<or> irq \<ge> GIC_INTERRUPTS_MAX then (-1, s1)
           else case (case interrupt_functions s1 ! unat irq of None \<Rightarrow> (0, s1) | Some i \<Rightarrow> invoke i s1) of
                  (e, s2) \<Rightarrow> (e, wr bus GICC_EOIR iar s2))"

text \<open>
  What \<open>kmalloc\<close> answers, as a truth value, and what the two calls of \<open>vm_map\<close> answer are arguments; \<open>None\<close> is an
  interface that is not set.
\<close>

definition gic_open ::
  "(gic_reg, 'h) bus \<Rightarrow> bool \<Rightarrow> int \<Rightarrow> int \<Rightarrow> 'h \<Rightarrow> int \<times> ('i, 'h) irqc option \<times> 'h" where
  "gic_open bus got map_dist map_cpu h =
     (if \<not> got \<or> map_dist \<noteq> 0 \<or> map_cpu \<noteq> 0 then (-1, None, h)
      else let s = \<lparr>dev = h, interrupt_functions = replicate (unat GIC_INTERRUPTS_MAX) None\<rparr>;
               s1 = snd (rd bus GICC_IIDR (snd (rd bus GICD_IIDR s)));
               s2 = wr_all bus (map (\<lambda>i. (GICD_ICENABLER i, 0xffffffff)) [0..<32] @
                                map (\<lambda>i. (GICD_IPRIORITYR i, 0)) [0..<255] @
                                map (\<lambda>i. (GICD_ITARGETSR i, BIT 24 OR BIT 16 OR BIT 8 OR BIT 0)) [0..<255] @
                                [(GICC_PMR, 0xff), (GICC_CTLR, 1), (GICD_CTLR, 1)]) s1
           in (0, Some s2, dev s2))"

section \<open>The controller of the OMAP3\<close>

datatype intc_reg =
  INTCPS_SYSCONFIG | INTCPS_SYSSTATUS | INTCPS_SIR_IRQ | INTCPS_CONTROL | INTCPS_IDLE
  | INTCPS_MIR_CLEAR nat | INTCPS_MIR_SET nat | INTCPS_ILR nat

definition INTC_INTERRUPTS_MAX :: u32 where "INTC_INTERRUPTS_MAX = 96"
definition MPU_INTC_PA_BASE_OMAP36XX :: u32 where "MPU_INTC_PA_BASE_OMAP36XX = 0x48200000"

definition intc_register_handler ::
  "(intc_reg, 'h) bus \<Rightarrow> ('i \<Rightarrow> u32) \<Rightarrow> 'i \<Rightarrow> ('i, 'h) irqc \<Rightarrow> int \<times> ('i, 'h) irqc" where
  "intc_register_handler bus num i s =
     (let n = num i
      in if n \<ge> INTC_INTERRUPTS_MAX then (1, s)
         else if interrupt_functions s ! unat n = None then
           (0, wr bus (INTCPS_ILR (unat n)) 0 (s\<lparr>interrupt_functions := (interrupt_functions s)[unat n := Some i]\<rparr>))
         else (-1, s))"

definition intc_mask ::
  "(intc_reg, 'h) bus \<Rightarrow> ('i \<Rightarrow> u32) \<Rightarrow> 'i \<Rightarrow> ('i, 'h) irqc \<Rightarrow> int \<times> ('i, 'h) irqc" where
  "intc_mask bus num i s =
     (let n = num i
      in if n < INTC_INTERRUPTS_MAX then (0, wr bus (INTCPS_MIR_SET (unat (n div 32))) (push_bit (unat (n mod 32)) 1) s)
         else (-1, s))"

definition intc_unmask ::
  "(intc_reg, 'h) bus \<Rightarrow> ('i \<Rightarrow> u32) \<Rightarrow> 'i \<Rightarrow> ('i, 'h) irqc \<Rightarrow> int \<times> ('i, 'h) irqc" where
  "intc_unmask bus num i s =
     (let n = num i
      in if n < INTC_INTERRUPTS_MAX then (0, wr bus (INTCPS_MIR_CLEAR (unat (n div 32))) (push_bit (unat (n mod 32)) 1) s)
         else (-1, s))"

text \<open>A software interrupt calls the handler, interrupts masked meanwhile.\<close>

definition intc_sgi ::
  "('i \<Rightarrow> u32) \<Rightarrow> ('i \<Rightarrow> ('i, 'h) irqc \<Rightarrow> int \<times> ('i, 'h) irqc) \<Rightarrow> 'i \<Rightarrow> ('i, 'h) irqc \<Rightarrow> int \<times> ('i, 'h) irqc" where
  "intc_sgi num invoke i s =
     (let n = num i
      in if n \<ge> INTC_INTERRUPTS_MAX then (-1, s)
         else case interrupt_functions s ! unat n of None \<Rightarrow> (0, s) | Some f \<Rightarrow> invoke f s)"

definition intc_arm_IRQ ::
  "(intc_reg, 'h) bus \<Rightarrow> ('i \<Rightarrow> ('i, 'h) irqc \<Rightarrow> int \<times> ('i, 'h) irqc) \<Rightarrow> ('i, 'h) irqc \<Rightarrow> int \<times> ('i, 'h) irqc" where
  "intc_arm_IRQ bus invoke s =
     (case rd bus INTCPS_SIR_IRQ s of (irq, s1) \<Rightarrow>
        if irq AND NOT (BIT 7 - 1) \<noteq> 0 \<or> irq \<ge> INTC_INTERRUPTS_MAX then (-1, s1)
        else case (case interrupt_functions s1 ! unat irq of None \<Rightarrow> (0, s1) | Some i \<Rightarrow> invoke i s1) of
               (e, s2) \<Rightarrow> (e, wr bus INTCPS_CONTROL 1 s2))"

definition intc_open ::
  "(intc_reg, 'h) bus \<Rightarrow> int \<Rightarrow> bool \<Rightarrow> 'h \<Rightarrow> (int \<times> ('i, 'h) irqc option \<times> 'h) option" where
  "intc_open bus mapped got h =
     (if mapped \<noteq> 0 \<or> \<not> got then Some (-1, None, h)
      else let s = \<lparr>dev = h, interrupt_functions = replicate (unat INTC_INTERRUPTS_MAX) None\<rparr>
           in Option.bind (poll bus INTCPS_SYSSTATUS (\<lambda>v. v AND 1 = 1) (wr bus INTCPS_SYSCONFIG 2 s))
                (\<lambda>s1. let s2 = wr_all bus ([(INTCPS_IDLE, 0)] @ map (\<lambda>i. (INTCPS_ILR i, 0)) [0..<96] @
                                            [(INTCPS_CONTROL, 3)]) s1
                      in Some (0, Some s2, dev s2)))"

section \<open>NVIC\<close>

datatype nvic_reg = NVIC_ISER | NVIC_ICER

definition NVIC_INTERRUPTS_MAX :: u32 where "NVIC_INTERRUPTS_MAX = 48"

record ('i, 'h) nvic = "('i, 'h) irqc" +
  nv_disabled :: bool
  enabled_interrupts :: u32

text \<open>The table is written without a check: a number past its end is a fault.\<close>

definition nvic_register_handler :: "('i \<Rightarrow> u32) \<Rightarrow> 'i \<Rightarrow> ('i, 'h) nvic \<Rightarrow> (int \<times> ('i, 'h) nvic) run" where
  "nvic_register_handler num i s =
     (let n = num i
      in if unat n \<ge> length (interrupt_functions s) then Inl FAULT
         else Inr (0, s\<lparr>interrupt_functions := (interrupt_functions s)[unat n := Some i]\<rparr>))"

definition nvic_mask ::
  "(nvic_reg, 'h) bus \<Rightarrow> ('i \<Rightarrow> u32) \<Rightarrow> 'i \<Rightarrow> ('i, 'h) nvic \<Rightarrow> (int \<times> ('i, 'h) nvic) run" where
  "nvic_mask bus num i s =
     (if num i < 16 then Inl BUG
      else let m = push_bit (unat (num i - 16)) 1;
               s1 = s\<lparr>enabled_interrupts := enabled_interrupts s AND NOT m\<rparr>
           in Inr (0, if nv_disabled s1 then s1 else wr bus NVIC_ICER m s1))"

definition nvic_unmask ::
  "(nvic_reg, 'h) bus \<Rightarrow> ('i \<Rightarrow> u32) \<Rightarrow> 'i \<Rightarrow> ('i, 'h) nvic \<Rightarrow> (int \<times> ('i, 'h) nvic) run" where
  "nvic_unmask bus num i s =
     (if num i < 16 then Inl BUG
      else let m = push_bit (unat (num i - 16)) 1;
               s1 = s\<lparr>enabled_interrupts := enabled_interrupts s OR m\<rparr>
           in Inr (0, if nv_disabled s1 then s1 else wr bus NVIC_ISER m s1))"

definition nvic_sgi :: int where
  "nvic_sgi = -1"

text \<open>The number comes from the status register of the processor; \<open>heartbeat_update\<close> is an argument.\<close>

definition nvic_arm_IRQ ::
  "(('i, 'h) nvic \<Rightarrow> ('i, 'h) nvic) \<Rightarrow> ('i \<Rightarrow> ('i, 'h) nvic \<Rightarrow> int \<times> ('i, 'h) nvic) \<Rightarrow> u32 \<Rightarrow> ('i, 'h) nvic \<Rightarrow>
   (int \<times> ('i, 'h) nvic) run" where
  "nvic_arm_IRQ heartbeat_update invoke ipsr s =
     (let s1 = heartbeat_update s; irq_num = ipsr AND (BIT 6 - 1)
      in if unat irq_num \<ge> length (interrupt_functions s1) then Inl FAULT
         else case interrupt_functions s1 ! unat irq_num of None \<Rightarrow> Inr (-1, s1) | Some i \<Rightarrow> Inr (invoke i s1))"

definition nvic_open :: "('i, 'h) nvic \<Rightarrow> int \<times> ('i, 'h) nvic" where
  "nvic_open s = (0, s)"

definition nvic_start :: "'h \<Rightarrow> ('i, 'h) nvic" where
  "nvic_start h = \<lparr>dev = h, interrupt_functions = replicate (unat NVIC_INTERRUPTS_MAX) None, nv_disabled = False,
                   enabled_interrupts = 0\<rparr>"

definition debug_dump_gic :: int where "debug_dump_gic = -1"
definition debug_dump_intc :: int where "debug_dump_intc = 0"
definition debug_dump_nvic :: int where "debug_dump_nvic = -1"

section \<open>What a controller promises\<close>

text \<open>A driver's requests: connect the handler, mask the line, unmask it.\<close>

datatype 'i irq_op = Register 'i | Mask 'i | Unmask 'i

fun irq_of :: "'i irq_op \<Rightarrow> 'i" where
  "irq_of (Register i) = i"
| "irq_of (Mask i) = i"
| "irq_of (Unmask i) = i"

fun registered :: "'i irq_op list \<Rightarrow> 'i list" where
  "registered [] = []"
| "registered (Register i # ops) = i # registered ops"
| "registered (_ # ops) = registered ops"

definition ops_ok :: "('i \<Rightarrow> u32) \<Rightarrow> (u32 \<Rightarrow> bool) \<Rightarrow> 'i irq_op list \<Rightarrow> bool" where
  "ops_ok num valid ops \<longleftrightarrow> (\<forall>x \<in> set ops. valid (num (irq_of x))) \<and> distinct (map num (registered ops))"

definition connected :: "('i \<Rightarrow> u32) \<Rightarrow> 'i irq_op list \<Rightarrow> u32 \<Rightarrow> 'i option" where
  "connected num ops n = find (\<lambda>i. num i = n) (registered ops)"

fun request_line :: "('i \<Rightarrow> u32) \<Rightarrow> 'i irq_op \<Rightarrow> u32 set \<Rightarrow> u32 set" where
  "request_line num (Register i) L = L"
| "request_line num (Mask i) L = L - {num i}"
| "request_line num (Unmask i) L = insert (num i) L"

locale irq_controller =
  fixes num :: "'i \<Rightarrow> u32"
    and valid :: "u32 \<Rightarrow> bool"
    and inv :: "'s \<Rightarrow> bool"
    and apply_op :: "'i irq_op \<Rightarrow> 's \<Rightarrow> 's"
    and handler :: "'s \<Rightarrow> u32 \<Rightarrow> 'i option"
    and lines :: "'s \<Rightarrow> u32 set"
  assumes keeps: "inv s \<Longrightarrow> valid (num (irq_of x)) \<Longrightarrow> inv (apply_op x s)"
    and line: "inv s \<Longrightarrow> valid (num (irq_of x)) \<Longrightarrow> lines (apply_op x s) = request_line num x (lines s)"
    and connects: "inv s \<Longrightarrow> valid (num i) \<Longrightarrow> handler s (num i) = None \<Longrightarrow> valid n \<Longrightarrow>
      handler (apply_op (Register i) s) n = ((handler s)(num i := Some i)) n"
    and unconnected: "inv s \<Longrightarrow> valid (num i) \<Longrightarrow> x \<in> {Mask i, Unmask i} \<Longrightarrow> handler (apply_op x s) n = handler s n"
begin

lemma run_lines:
  assumes "inv s" and "\<forall>x \<in> set ops. valid (num (irq_of x))"
  shows "inv (fold apply_op ops s) \<and> lines (fold apply_op ops s) = fold (request_line num) ops (lines s)"
  using assms by (induction ops arbitrary: s) (simp_all add: keeps line)

lemma run_handlers:
  assumes "inv s" and "ops_ok num valid ops" and "valid n"
    and "\<forall>i \<in> set (registered ops). handler s (num i) = None"
  shows "handler (fold apply_op ops s) n = (case connected num ops n of None \<Rightarrow> handler s n | Some i \<Rightarrow> Some i)"
  using assms
proof (induction ops arbitrary: s rule: registered.induct)
  case 1
  then show ?case by (simp add: connected_def)
next
  case (2 i ops)
  have ok: "valid (num i)" "ops_ok num valid ops" "num i \<notin> num ` set (registered ops)"
    using 2(3) by (auto simp: ops_ok_def)
  have valid: "valid (num j)" if "j \<in> set (registered ops)" for j
  proof -
    have "Register j \<in> set ops" using that by (induction ops rule: registered.induct) auto
    then show ?thesis using ok(2) by (force simp: ops_ok_def)
  qed
  let ?s = "apply_op (Register i) s"
  have new: "handler ?s m = ((handler s)(num i := Some i)) m" if "valid m" for m
    using connects [OF 2(2) ok(1) _ that] 2(5) by simp
  have "\<forall>j \<in> set (registered ops). handler ?s (num j) = None"
  proof
    fix j assume j: "j \<in> set (registered ops)"
    then have "num j \<noteq> num i" using ok(3) by (metis imageI)
    then show "handler ?s (num j) = None" using new [OF valid [OF j]] 2(5) j by simp
  qed
  from 2(1) [OF keeps [OF 2(2), of "Register i"] ok(2) 2(4) this] ok(1)
  have "handler (fold apply_op ops ?s) n = (case connected num ops n of None \<Rightarrow> handler ?s n | Some i \<Rightarrow> Some i)" by simp
  moreover have "connected num ops n = None" if "num i = n"
    using ok(3) that by (auto simp: connected_def find_None_iff) (metis imageI)
  ultimately show ?case using new [OF 2(4)] by (auto simp: connected_def split: option.splits)
qed (use keeps unconnected in \<open>auto simp: ops_ok_def connected_def split: option.split\<close>)

end

section \<open>The three controllers keep it\<close>

text \<open>What the enabling registers do to the set of lines that get through, by the manuals.\<close>

definition bank_lines :: "nat \<Rightarrow> u32 \<Rightarrow> u32 set" where
  "bank_lines k v = {n. unat n div 32 = k \<and> bit v (unat n mod 32)}"

lemma one_line: "bank_lines (unat (n div 32)) (push_bit (unat (n mod 32)) 1) = {n}"
proof -
  have "m = n" if "unat m div 32 = unat n div 32" "unat m mod 32 = unat n mod 32" for m
    using that by (metis div_mult_mod_eq word_unat_eq_iff)
  then show ?thesis by (auto simp: bank_lines_def unat_div_u32 unat_mod bit_simps)
qed

lemmas one_line_exp = one_line [unfolded push_bit_of_1]

definition gic_device :: "(gic_reg, 'h) bus \<Rightarrow> ('h \<Rightarrow> u32 set) \<Rightarrow> bool" where
  "gic_device bus lines \<longleftrightarrow>
     (\<forall>k v h. lines (poke bus (GICD_ISENABLER k) v h) = lines h \<union> bank_lines k v) \<and>
     (\<forall>k v h. lines (poke bus (GICD_ICENABLER k) v h) = lines h - bank_lines k v)"

definition intc_device :: "(intc_reg, 'h) bus \<Rightarrow> ('h \<Rightarrow> u32 set) \<Rightarrow> bool" where
  "intc_device bus lines \<longleftrightarrow>
     (\<forall>k v h. lines (poke bus (INTCPS_MIR_CLEAR k) v h) = lines h \<union> bank_lines k v) \<and>
     (\<forall>k v h. lines (poke bus (INTCPS_MIR_SET k) v h) = lines h - bank_lines k v) \<and>
     (\<forall>k v h. lines (poke bus (INTCPS_ILR k) v h) = lines h)"

text \<open>The NVIC counts lines from 0, processors exceptions from 16.\<close>

definition nvic_device :: "(nvic_reg, 'h) bus \<Rightarrow> ('h \<Rightarrow> u32 set) \<Rightarrow> bool" where
  "nvic_device bus lines \<longleftrightarrow>
     (\<forall>v h. lines (poke bus NVIC_ISER v h) = lines h \<union> (\<lambda>n. n + 16) ` bank_lines 0 v) \<and>
     (\<forall>v h. lines (poke bus NVIC_ICER v h) = lines h - (\<lambda>n. n + 16) ` bank_lines 0 v)"

fun gic_op :: "(gic_reg, 'h) bus \<Rightarrow> ('i \<Rightarrow> u32) \<Rightarrow> 'i irq_op \<Rightarrow> ('i, 'h) irqc \<Rightarrow> ('i, 'h) irqc" where
  "gic_op bus num (Register i) s = snd (gic_register_handler num i s)"
| "gic_op bus num (Mask i) s = snd (gic_mask bus num i s)"
| "gic_op bus num (Unmask i) s = snd (gic_unmask bus num i s)"

fun intc_op :: "(intc_reg, 'h) bus \<Rightarrow> ('i \<Rightarrow> u32) \<Rightarrow> 'i irq_op \<Rightarrow> ('i, 'h) irqc \<Rightarrow> ('i, 'h) irqc" where
  "intc_op bus num (Register i) s = snd (intc_register_handler bus num i s)"
| "intc_op bus num (Mask i) s = snd (intc_mask bus num i s)"
| "intc_op bus num (Unmask i) s = snd (intc_unmask bus num i s)"

definition done_of :: "'s \<Rightarrow> (int \<times> 's) run \<Rightarrow> 's" where
  "done_of s r = (case r of Inl _ \<Rightarrow> s | Inr (_, s') \<Rightarrow> s')"

fun nvic_op :: "(nvic_reg, 'h) bus \<Rightarrow> ('i \<Rightarrow> u32) \<Rightarrow> 'i irq_op \<Rightarrow> ('i, 'h) nvic \<Rightarrow> ('i, 'h) nvic" where
  "nvic_op bus num (Register i) s = done_of s (nvic_register_handler num i s)"
| "nvic_op bus num (Mask i) s = done_of s (nvic_mask bus num i s)"
| "nvic_op bus num (Unmask i) s = done_of s (nvic_unmask bus num i s)"

definition table_handler :: "('i, 'h, 'z) irqc_scheme \<Rightarrow> u32 \<Rightarrow> 'i option" where
  "table_handler s n = interrupt_functions s ! unat n"

lemma table_update:
  "unat (m :: u32) < length xs \<Longrightarrow> xs[unat m := v] ! unat n = (if n = m then v else xs ! unat n)"
  by (auto simp: nth_list_update word_unat_eq_iff)

lemma unat_less: "n < (w :: u32) \<Longrightarrow> unat n < unat w"
  by (simp add: word_less_nat_alt)

interpretation gic: irq_controller num "\<lambda>n. n < GIC_INTERRUPTS_MAX"
  "\<lambda>s. gic_device bus lines \<and> length (interrupt_functions s) = unat GIC_INTERRUPTS_MAX" "gic_op bus num" table_handler
  "\<lambda>s. lines (dev s)"
  for bus :: "(gic_reg, 'h) bus" and num :: "'i \<Rightarrow> u32" and lines :: "'h \<Rightarrow> u32 set"
proof
  fix s :: "('i, 'h) irqc" and x :: "'i irq_op"
  assume "gic_device bus lines \<and> length (interrupt_functions s) = unat GIC_INTERRUPTS_MAX" "num (irq_of x) < GIC_INTERRUPTS_MAX"
  then show "gic_device bus lines \<and> length (interrupt_functions (gic_op bus num x s)) = unat GIC_INTERRUPTS_MAX"
    by (cases x) (auto simp: gic_register_handler_def gic_mask_def gic_unmask_def Let_def wr_def)
next
  fix s :: "('i, 'h) irqc" and x :: "'i irq_op"
  assume "gic_device bus lines \<and> length (interrupt_functions s) = unat GIC_INTERRUPTS_MAX" "num (irq_of x) < GIC_INTERRUPTS_MAX"
  then show "lines (dev (gic_op bus num x s)) = request_line num x (lines (dev s))"
    by (cases x) (auto simp: gic_register_handler_def gic_mask_def gic_unmask_def Let_def wr_def gic_device_def one_line_exp)
next
  fix s :: "('i, 'h) irqc" and i :: 'i and n :: u32
  assume "gic_device bus lines \<and> length (interrupt_functions s) = unat GIC_INTERRUPTS_MAX" "num i < GIC_INTERRUPTS_MAX"
    "table_handler s (num i) = None" "n < GIC_INTERRUPTS_MAX"
  then show "table_handler (gic_op bus num (Register i) s) n = ((table_handler s)(num i := Some i)) n"
    by (auto simp: gic_register_handler_def Let_def table_handler_def table_update dest: unat_less)
next
  fix s :: "('i, 'h) irqc" and i :: 'i and x :: "'i irq_op" and n :: u32
  assume "num i < GIC_INTERRUPTS_MAX" "x \<in> {Mask i, Unmask i}"
  then show "table_handler (gic_op bus num x s) n = table_handler s n"
    by (auto simp: gic_mask_def gic_unmask_def Let_def wr_def table_handler_def)
qed

interpretation intc: irq_controller num "\<lambda>n. n < INTC_INTERRUPTS_MAX"
  "\<lambda>s. intc_device bus lines \<and> length (interrupt_functions s) = unat INTC_INTERRUPTS_MAX" "intc_op bus num" table_handler
  "\<lambda>s. lines (dev s)"
  for bus :: "(intc_reg, 'h) bus" and num :: "'i \<Rightarrow> u32" and lines :: "'h \<Rightarrow> u32 set"
proof
  fix s :: "('i, 'h) irqc" and x :: "'i irq_op"
  assume "intc_device bus lines \<and> length (interrupt_functions s) = unat INTC_INTERRUPTS_MAX" "num (irq_of x) < INTC_INTERRUPTS_MAX"
  then show "intc_device bus lines \<and> length (interrupt_functions (intc_op bus num x s)) = unat INTC_INTERRUPTS_MAX"
    by (cases x) (auto simp: intc_register_handler_def intc_mask_def intc_unmask_def Let_def wr_def)
next
  fix s :: "('i, 'h) irqc" and x :: "'i irq_op"
  assume "intc_device bus lines \<and> length (interrupt_functions s) = unat INTC_INTERRUPTS_MAX" "num (irq_of x) < INTC_INTERRUPTS_MAX"
  then show "lines (dev (intc_op bus num x s)) = request_line num x (lines (dev s))"
    by (cases x) (auto simp: intc_register_handler_def intc_mask_def intc_unmask_def Let_def wr_def intc_device_def one_line_exp)
next
  fix s :: "('i, 'h) irqc" and i :: 'i and n :: u32
  assume "intc_device bus lines \<and> length (interrupt_functions s) = unat INTC_INTERRUPTS_MAX" "num i < INTC_INTERRUPTS_MAX"
    "table_handler s (num i) = None" "n < INTC_INTERRUPTS_MAX"
  then show "table_handler (intc_op bus num (Register i) s) n = ((table_handler s)(num i := Some i)) n"
    by (auto simp: intc_register_handler_def Let_def table_handler_def table_update wr_def dest: unat_less)
next
  fix s :: "('i, 'h) irqc" and i :: 'i and x :: "'i irq_op" and n :: u32
  assume "num i < INTC_INTERRUPTS_MAX" "x \<in> {Mask i, Unmask i}"
  then show "table_handler (intc_op bus num x s) n = table_handler s n"
    by (auto simp: intc_mask_def intc_unmask_def Let_def wr_def table_handler_def)
qed

text \<open>The exceptions of the processor itself have no line.\<close>

definition nvic_line :: "u32 \<Rightarrow> bool" where
  "nvic_line n \<longleftrightarrow> 16 \<le> n \<and> n < NVIC_INTERRUPTS_MAX"

lemma one_nvic_line:
  assumes "nvic_line n"
  shows "(\<lambda>n. n + 16) ` bank_lines 0 (push_bit (unat (n - 16)) 1) = {n}"
proof -
  have n: "unat (n - 16) = unat n - 16" "unat n < 48" "16 \<le> unat n"
    using assms by (auto simp: nvic_line_def NVIC_INTERRUPTS_MAX_def word_less_nat_alt word_le_nat_alt unat_sub_u32)
  then have "unat (n - 16) div 32 = 0" "unat (n - 16) mod 32 = unat (n - 16)" by simp_all
  then have "bank_lines 0 (push_bit (unat (n - 16)) 1) = {n - 16}" using one_line [of "n - 16"]
    by (simp add: unat_div_u32 unat_mod)
  then show ?thesis by simp
qed

interpretation nvic: irq_controller num nvic_line
  "\<lambda>s. nvic_device bus lines \<and> length (interrupt_functions s) = unat NVIC_INTERRUPTS_MAX \<and> \<not> nv_disabled s"
  "nvic_op bus num" table_handler "\<lambda>s. lines (dev s)"
  for bus :: "(nvic_reg, 'h) bus" and num :: "'i \<Rightarrow> u32" and lines :: "'h \<Rightarrow> u32 set"
proof
  fix s :: "('i, 'h) nvic" and x :: "'i irq_op"
  assume "nvic_device bus lines \<and> length (interrupt_functions s) = unat NVIC_INTERRUPTS_MAX \<and> \<not> nv_disabled s"
    "nvic_line (num (irq_of x))"
  then show "nvic_device bus lines \<and> length (interrupt_functions (nvic_op bus num x s)) = unat NVIC_INTERRUPTS_MAX \<and>
      \<not> nv_disabled (nvic_op bus num x s)"
    by (cases x) (auto simp: nvic_register_handler_def nvic_mask_def nvic_unmask_def done_of_def Let_def wr_def)
next
  fix s :: "('i, 'h) nvic" and x :: "'i irq_op"
  assume a: "nvic_device bus lines \<and> length (interrupt_functions s) = unat NVIC_INTERRUPTS_MAX \<and> \<not> nv_disabled s"
    "nvic_line (num (irq_of x))"
  have "\<not> num (irq_of x) < 16" using a(2) by (simp add: nvic_line_def not_less)
  then show "lines (dev (nvic_op bus num x s)) = request_line num x (lines (dev s))"
    using a one_nvic_line [OF a(2), unfolded push_bit_of_1]
    by (cases x) (auto simp: nvic_register_handler_def nvic_mask_def nvic_unmask_def done_of_def Let_def wr_def nvic_device_def)
next
  fix s :: "('i, 'h) nvic" and i :: 'i and n :: u32
  assume "nvic_device bus lines \<and> length (interrupt_functions s) = unat NVIC_INTERRUPTS_MAX \<and> \<not> nv_disabled s"
    "nvic_line (num i)" "table_handler s (num i) = None" "nvic_line n"
  then show "table_handler (nvic_op bus num (Register i) s) n = ((table_handler s)(num i := Some i)) n"
    by (auto simp: nvic_register_handler_def done_of_def Let_def table_handler_def table_update nvic_line_def
        dest: unat_less)
next
  fix s :: "('i, 'h) nvic" and i :: 'i and x :: "'i irq_op" and n :: u32
  assume "nvic_line (num i)" "x \<in> {Mask i, Unmask i}"
  then show "table_handler (nvic_op bus num x s) n = table_handler s n"
    by (auto simp: nvic_mask_def nvic_unmask_def done_of_def Let_def wr_def table_handler_def)
qed

section \<open>Properties\<close>

lemma registered_ops: "i \<in> set (registered ops) \<Longrightarrow> Register i \<in> set ops"
  by (induction ops rule: registered.induct) auto

lemma registered_valid: "ops_ok num valid ops \<Longrightarrow> i \<in> set (registered ops) \<Longrightarrow> valid (num i)"
  using registered_ops by (force simp: ops_ok_def)

lemma ops_valid: "ops_ok num valid ops \<Longrightarrow> \<forall>x \<in> set ops. valid (num (irq_of x))"
  by (simp add: ops_ok_def)

lemma gic_runs:
  assumes "interrupt_functions gic0 = replicate 256 None" and "gic_device bus lines"
    and ok: "ops_ok num (\<lambda>n. n < GIC_INTERRUPTS_MAX) ops"
  defines "s \<equiv> fold (gic_op bus num) ops gic0"
  shows "lines (dev s) = fold (request_line num) ops (lines (dev gic0))"
    and "n < GIC_INTERRUPTS_MAX \<Longrightarrow> interrupt_functions s ! unat n = connected num ops n"
proof -
  have inv: "gic_device bus lines \<and> length (interrupt_functions gic0) = unat GIC_INTERRUPTS_MAX"
    using assms by (simp add: GIC_INTERRUPTS_MAX_def)
  have none: "table_handler gic0 m = None" if "m < GIC_INTERRUPTS_MAX" for m
    using assms(1) unat_less [OF that] by (simp add: table_handler_def GIC_INTERRUPTS_MAX_def)
  show "lines (dev s) = fold (request_line num) ops (lines (dev gic0))"
    using gic.run_lines [OF inv ops_valid [OF ok]] by (simp add: s_def)
  assume n: "n < GIC_INTERRUPTS_MAX"
  have "table_handler s n = (case connected num ops n of None \<Rightarrow> table_handler gic0 n | Some i \<Rightarrow> Some i)"
    unfolding s_def using gic.run_handlers [OF inv ok n] none registered_valid [OF ok] by blast
  then show "interrupt_functions s ! unat n = connected num ops n"
    using none [OF n] by (simp add: table_handler_def split: option.splits)
qed

lemma intc_runs:
  assumes "interrupt_functions intc0 = replicate 96 None" and "intc_device bus lines"
    and ok: "ops_ok num (\<lambda>n. n < INTC_INTERRUPTS_MAX) ops"
  defines "s \<equiv> fold (intc_op bus num) ops intc0"
  shows "lines (dev s) = fold (request_line num) ops (lines (dev intc0))"
    and "n < INTC_INTERRUPTS_MAX \<Longrightarrow> interrupt_functions s ! unat n = connected num ops n"
proof -
  have inv: "intc_device bus lines \<and> length (interrupt_functions intc0) = unat INTC_INTERRUPTS_MAX"
    using assms by (simp add: INTC_INTERRUPTS_MAX_def)
  have none: "table_handler intc0 m = None" if "m < INTC_INTERRUPTS_MAX" for m
    using assms(1) unat_less [OF that] by (simp add: table_handler_def INTC_INTERRUPTS_MAX_def)
  show "lines (dev s) = fold (request_line num) ops (lines (dev intc0))"
    using intc.run_lines [OF inv ops_valid [OF ok]] by (simp add: s_def)
  assume n: "n < INTC_INTERRUPTS_MAX"
  have "table_handler s n = (case connected num ops n of None \<Rightarrow> table_handler intc0 n | Some i \<Rightarrow> Some i)"
    unfolding s_def using intc.run_handlers [OF inv ok n] none registered_valid [OF ok] by blast
  then show "interrupt_functions s ! unat n = connected num ops n"
    using none [OF n] by (simp add: table_handler_def split: option.splits)
qed

lemma nvic_runs:
  assumes "interrupt_functions nvic0 = replicate 48 None" and "nvic_device bus lines" and "\<not> nv_disabled nvic0"
    and ok: "ops_ok num nvic_line ops"
  defines "s \<equiv> fold (nvic_op bus num) ops nvic0"
  shows "lines (dev s) = fold (request_line num) ops (lines (dev nvic0))"
    and "nvic_line n \<Longrightarrow> interrupt_functions s ! unat n = connected num ops n" and "length (interrupt_functions s) = 48"
proof -
  have inv: "nvic_device bus lines \<and> length (interrupt_functions nvic0) = unat NVIC_INTERRUPTS_MAX \<and> \<not> nv_disabled nvic0"
    using assms by (simp add: NVIC_INTERRUPTS_MAX_def)
  have none: "table_handler nvic0 m = None" if "nvic_line m" for m
    using assms(1) that unat_less [of m NVIC_INTERRUPTS_MAX]
    by (simp add: table_handler_def nvic_line_def NVIC_INTERRUPTS_MAX_def)
  show "lines (dev s) = fold (request_line num) ops (lines (dev nvic0))" "length (interrupt_functions s) = 48"
    using nvic.run_lines [OF inv ops_valid [OF ok]] by (simp_all add: s_def NVIC_INTERRUPTS_MAX_def)
  assume n: "nvic_line n"
  have "table_handler s n = (case connected num ops n of None \<Rightarrow> table_handler nvic0 n | Some i \<Rightarrow> Some i)"
    unfolding s_def using nvic.run_handlers [OF inv ok n] none registered_valid [OF ok] by blast
  then show "interrupt_functions s ! unat n = connected num ops n"
    using none [OF n] by (simp add: table_handler_def split: option.splits)
qed

lemma device_table: "rd bus r s = (v, s1) \<Longrightarrow> interrupt_functions s1 = interrupt_functions s"
  by (auto simp: rd_def split: prod.splits)


text \<open>Devices that are just their set of lines, each with an interrupt 34 pending.\<close>

definition demo_gic :: "(gic_reg, u32 set) bus" where
  "demo_gic = \<lparr>peek = (\<lambda>r h. (if r = GICC_IAR then 34 else 0, h)),
     poke = (\<lambda>r v h. case r of GICD_ISENABLER k \<Rightarrow> h \<union> bank_lines k v | GICD_ICENABLER k \<Rightarrow> h - bank_lines k v | _ \<Rightarrow> h)\<rparr>"

definition demo_intc :: "(intc_reg, u32 set) bus" where
  "demo_intc = \<lparr>peek = (\<lambda>r h. (if r = INTCPS_SIR_IRQ then 34 else 0, h)),
     poke = (\<lambda>r v h. case r of INTCPS_MIR_CLEAR k \<Rightarrow> h \<union> bank_lines k v | INTCPS_MIR_SET k \<Rightarrow> h - bank_lines k v | _ \<Rightarrow> h)\<rparr>"

definition demo_nvic :: "(nvic_reg, u32 set) bus" where
  "demo_nvic = \<lparr>peek = (\<lambda>r h. (0, h)),
     poke = (\<lambda>r v h. case r of NVIC_ISER \<Rightarrow> h \<union> (\<lambda>n. n + 16) ` bank_lines 0 v | NVIC_ICER \<Rightarrow> h - (\<lambda>n. n + 16) ` bank_lines 0 v)\<rparr>"

definition demo_ops :: "u32 irq_op list" where
  "demo_ops = [Register 34, Register 35, Unmask 35, Unmask 34, Mask 35]"


end
