(* ===== verification/Timer_Drivers.thy ===== *)
theory Timer_Drivers
  imports Registers System_Time Devices
begin

unbundle bit_operations_syntax

text \<open>
  The timers of the boards: the general purpose timers of the OMAP with the 32 kHz counter they are calibrated by
  (\<open>src/kernel/drivers/ti/omap/timer/timer.c\<close>, \<open>sync_timer.c\<close>), and the two real-time counters of the nRF51822
  with the clock that drives them (\<open>drivers/ns/nRF51822/timer/\<close>, \<open>clock/\<close>). Registers are behind a bus; a
  loop that waits for a device is \<open>None\<close> when it waits for ever, a division by zero is a fault.
\<close>

section \<open>Ticks of an interval\<close>

text \<open>What both drivers compute of a \<open>timespec\<close>, in 64 bits.\<close>

definition ns_of :: "timespec \<Rightarrow> u64" where
  "ns_of ts = ucast (seconds ts) * 1000000000 + ucast (nanoseconds ts)"

definition ns_per_tick :: "u32 \<Rightarrow> u64" where
  "ns_per_tick freq = 1000000000 div ucast freq"

definition ticks_of :: "u32 \<Rightarrow> timespec \<Rightarrow> u64 run" where
  "ticks_of freq ts =
     (if freq = 0 \<or> ns_per_tick freq = 0 then Inl FAULT else Inr (ns_of ts div ns_per_tick freq))"

section \<open>OMAP\<close>

datatype omap_timer_reg =
  TISR | TIER | IRQSTATUS | IRQSTATUS_SET | TCLR | TCRR | TLDR | TTGR | TWPS | TSICR | REG_32KSYNCNT_CR

definition GPTIMER_IRQ_BASE_OMAP :: u32 where "GPTIMER_IRQ_BASE_OMAP = 37"

definition gptimer_base :: "nat \<Rightarrow> u32 list" where
  "gptimer_base TI_OMAP_MAJOR_VER =
     (if TI_OMAP_MAJOR_VER = 3 then
        [0x48318000, 0x49032000, 0x49034000, 0x49036000, 0x49038000, 0x4903A000, 0x4903C000, 0x4903E000, 0x49040000,
         0x48086000, 0x48088000]
      else if TI_OMAP_MAJOR_VER = 5 then
        [0x4AE18000, 0x48032000, 0x48034000, 0x48036000, 0x49038000, 0x4903A000, 0x4903C000, 0x4903E000, 0x4803E000,
         0x48086000, 0x48088000]
      else [])"

definition OVF_IT_FLAG :: u32 where "OVF_IT_FLAG = BIT 1"
definition OVF_IT_ENA :: u32 where "OVF_IT_ENA = BIT 1"
definition POSTED :: u32 where "POSTED = BIT 2"
definition W_PEND_TTGR :: u32 where "W_PEND_TTGR = BIT 3"
definition W_PEND_TLDR :: u32 where "W_PEND_TLDR = BIT 2"
definition W_PEND_TCLR :: u32 where "W_PEND_TCLR = BIT 0"
definition W_PEND_ALL :: u32 where "W_PEND_ALL = 0x3FF"
definition TCLR_PTV_SHIFT :: nat where "TCLR_PTV_SHIFT = 2"
definition TCLR_MAKE_PTV :: "u32 \<Rightarrow> u32" where "TCLR_MAKE_PTV x = push_bit TCLR_PTV_SHIFT x"
definition PTV_MASK :: u32 where "PTV_MASK = push_bit TCLR_PTV_SHIFT 7"
definition TCLR_TRG_SHIFT :: nat where "TCLR_TRG_SHIFT = 10"
definition TRG_MASK :: u32 where "TRG_MASK = push_bit TCLR_TRG_SHIFT 3"
definition TRG_OVR :: u32 where "TRG_OVR = push_bit TCLR_TRG_SHIFT 1"
definition PRE :: u32 where "PRE = BIT 5"
definition AR :: u32 where "AR = BIT 1"
definition ST :: u32 where "ST = BIT 0"

record 'h gptimer = "'h machine" +
  tm_freq :: u32
  tm_irq_number :: u32

type_synonym 'h omap_bus = "(omap_timer_reg, 'h) bus"

text \<open>\<open>WAIT_FOR_PENDING\<close> and \<open>WAIT_FOR_PENDING_MULTIPLE\<close>.\<close>

definition wait_for_pending :: "'h omap_bus \<Rightarrow> u32 \<Rightarrow> 'h gptimer \<Rightarrow> 'h gptimer option" where
  "wait_for_pending bus pend s =
     (case rd bus TSICR s of (v, s1) \<Rightarrow>
        if v AND POSTED \<noteq> 0 then poll bus TWPS (\<lambda>p. p AND pend = 0) s1 else Some s1)"

text \<open>\<open>register = f(register)\<close>\<close>

definition modify :: "'h omap_bus \<Rightarrow> omap_timer_reg \<Rightarrow> (u32 \<Rightarrow> u32) \<Rightarrow> 'h gptimer \<Rightarrow> 'h gptimer" where
  "modify bus r f s = (case rd bus r s of (v, s1) \<Rightarrow> wr bus r (f v) s1)"

definition ptv_of :: "u32 \<Rightarrow> u32 option" where
  "ptv_of divisor = map_of [(256, 7), (128, 6), (64, 5), (32, 4), (16, 3), (8, 2), (4, 1), (2, 0)] divisor"

definition set_divisor :: "'h omap_bus \<Rightarrow> u32 \<Rightarrow> 'h gptimer \<Rightarrow> (int \<times> 'h gptimer) option" where
  "set_divisor bus divisor s =
     Option.bind (wait_for_pending bus W_PEND_TCLR s) (\<lambda>s1.
       Some (if divisor = 1 then (0, modify bus TCLR (\<lambda>v. v AND NOT PRE) s1)
             else case ptv_of divisor of
                    None \<Rightarrow> (-1, s1)
                  | Some ptv \<Rightarrow> (0, modify bus TCLR (\<lambda>v. (v AND NOT PTV_MASK) OR TCLR_MAKE_PTV ptv OR PRE) s1)))"

definition omap_getfreq :: "'h gptimer \<Rightarrow> u32" where
  "omap_getfreq s = tm_freq s"

definition omap_read32 :: "'h omap_bus \<Rightarrow> 'h gptimer \<Rightarrow> u32 \<times> 'h gptimer" where
  "omap_read32 bus s = rd bus TCRR s"

definition omap_read64 :: "'h omap_bus \<Rightarrow> 'h gptimer \<Rightarrow> u64 \<times> 'h gptimer" where
  "omap_read64 bus s = (case omap_read32 bus s of (v, s1) \<Rightarrow> (ucast v, s1))"

definition omap_oneshot ::
  "'h omap_bus \<Rightarrow> nat \<Rightarrow> timespec \<Rightarrow> 'h gptimer \<Rightarrow> (int \<times> 'h gptimer) run option" where
  "omap_oneshot bus TI_OMAP_MAJOR_VER ts s =
     (case ticks_of (tm_freq s) ts of
        Inl e \<Rightarrow> Some (Inl e)
      | Inr ticks0 \<Rightarrow>
          if ticks0 > 0xFFFFFFFF then Some (Inr (-1, s))
          else let ticks = (if ticks0 \<le> 10 then 11 else ticks0)
               in Option.bind (wait_for_pending bus W_PEND_TCLR s) (\<lambda>s1.
                    Option.bind (wait_for_pending bus (W_PEND_TLDR OR W_PEND_TTGR OR W_PEND_TCLR)
                                   (modify bus TCLR (\<lambda>v. v AND NOT ST) s1)) (\<lambda>s2.
                      let s3 = wr_all bus [(TLDR, ucast (0xffffffff - ticks)), (TTGR, 0),
                                           (if TI_OMAP_MAJOR_VER = 3 then TIER else IRQSTATUS_SET, OVF_IT_ENA)] s2
                      in Some (Inr (0, modify bus TCLR (\<lambda>v. (v AND NOT (AR OR TRG_MASK)) OR ST OR TRG_OVR) s3)))))"

definition omap_timer_get_irq_number :: "'h gptimer \<Rightarrow> u32" where
  "omap_timer_get_irq_number s = tm_irq_number s"

text \<open>The task switch is an argument; \<open>in_irq\<close> says that there is a CPU state to switch.\<close>

definition omap_timer_IRQ ::
  "'h omap_bus \<Rightarrow> nat \<Rightarrow> ('h gptimer \<Rightarrow> 'h gptimer) \<Rightarrow> bool \<Rightarrow> 'h gptimer \<Rightarrow> int \<times> 'h gptimer" where
  "omap_timer_IRQ bus TI_OMAP_MAJOR_VER task_switch in_irq s =
     (let s1 = wr bus (if TI_OMAP_MAJOR_VER = 3 then TISR else IRQSTATUS) OVF_IT_FLAG s
      in (0, if in_irq \<and> omap_timer_get_irq_number s1 = 37 then task_switch s1 else s1))"

text \<open>One round of the loop that lets the timer settle.\<close>

definition settle :: "'h omap_bus \<Rightarrow> 'h gptimer \<Rightarrow> 'h gptimer option" where
  "settle bus s = (case rd bus REG_32KSYNCNT_CR s of (v, s1) \<Rightarrow> poll bus REG_32KSYNCNT_CR (\<lambda>w. w \<noteq> v) s1)"

fun settle_loop :: "'h omap_bus \<Rightarrow> nat \<Rightarrow> 'h gptimer \<Rightarrow> 'h gptimer option" where
  "settle_loop bus 0 s = Some s"
| "settle_loop bus (Suc n) s = Option.bind (settle bus s) (settle_loop bus n)"

text \<open>The conditions of the two \<open>do\<close> loops; the second reads the counter again unless the first reading settles it.\<close>

definition before_target :: "u32 \<Rightarrow> 'h omap_bus \<Rightarrow> 'h gptimer \<Rightarrow> bool \<times> 'h gptimer" where
  "before_target target bus s = (case rd bus REG_32KSYNCNT_CR s of (v, s1) \<Rightarrow> (v < target, s1))"

definition before_wrapped_target :: "u32 \<Rightarrow> u32 \<Rightarrow> 'h omap_bus \<Rightarrow> 'h gptimer \<Rightarrow> bool \<times> 'h gptimer" where
  "before_wrapped_target beg target bus s =
     (case rd bus REG_32KSYNCNT_CR s of (v, s1) \<Rightarrow>
        if v < target then (True, s1)
        else case rd bus REG_32KSYNCNT_CR s1 of (w, s2) \<Rightarrow> (w \<ge> beg, s2))"

text \<open>The loops: the two counters as last read.\<close>

partial_function (option) count_loop ::
  "'h omap_bus \<Rightarrow> ('h gptimer \<Rightarrow> bool \<times> 'h gptimer) \<Rightarrow> 'h gptimer \<Rightarrow> (u32 \<times> u32 \<times> 'h gptimer) option" where
  "count_loop bus again s =
     (case rd bus REG_32KSYNCNT_CR s of (cur_32khz, s1) \<Rightarrow>
      case rd bus TCRR s1 of (cur_timer, s2) \<Rightarrow>
      case again s2 of (continue, s3) \<Rightarrow>
        if continue then count_loop bus again s3 else Some (cur_32khz, cur_timer, s3))"

declare count_loop.simps [code]

definition omap_calibrate :: "'h omap_bus \<Rightarrow> 'h gptimer \<Rightarrow> (int \<times> 'h gptimer) run option" where
  "omap_calibrate bus s =
     Option.bind (settle_loop bus 32 s) (\<lambda>s1.
       case rd bus REG_32KSYNCNT_CR s1 of (beg_32khz, s2) \<Rightarrow>
       case rd bus TCRR s2 of (beg_timer, s3) \<Rightarrow>
         let target_32khz = beg_32khz + 3200;
             straight = beg_32khz < target_32khz;
             again = (if straight then before_target target_32khz bus
                      else before_wrapped_target beg_32khz target_32khz bus)
         in Option.bind (count_loop bus again s3) (\<lambda>(cur_32khz, cur_timer, s4).
              let actual_32khz_ticks = (if straight then cur_32khz - beg_32khz else cur_32khz + (0xffffffff - beg_32khz));
                  actual_timer_ticks = cur_timer - beg_timer
              in if actual_32khz_ticks = 0 then Some (Inl FAULT)
                 else Some (Inr (0, s4\<lparr>tm_freq :=
                        ucast ((32768 * ucast actual_timer_ticks :: u64) div ucast actual_32khz_ticks)\<rparr>))))"

text \<open>
  What \<open>vm_map\<close> and \<open>kmalloc\<close> answer are arguments. The index is compared as an unsigned number,
  so a negative one is refused. \<open>None\<close> is an interface that is not set.
\<close>

definition omap_timer_open ::
  "'h omap_bus \<Rightarrow> nat \<Rightarrow> int \<Rightarrow> bool \<Rightarrow> u32 \<Rightarrow> 'h \<Rightarrow> (int \<times> 'h gptimer option \<times> 'h) run option" where
  "omap_timer_open bus TI_OMAP_MAJOR_VER mapped got index h =
     (if unat index \<ge> length (gptimer_base TI_OMAP_MAJOR_VER) \<or> mapped \<noteq> 0 \<or> \<not> got then Some (Inr (-1, None, h))
      else let s = \<lparr>dev = h, tm_freq = 0, tm_irq_number = GPTIMER_IRQ_BASE_OMAP + index\<rparr>
           in Option.bind (set_divisor bus 1 (modify bus TSICR (\<lambda>v. v OR POSTED) s)) (\<lambda>(_, s1).
                Option.bind (wait_for_pending bus W_PEND_ALL
                    (wr_all bus [(TLDR, 0), (TTGR, 0)] (modify bus TCLR (\<lambda>v. v OR ST) s1))) (\<lambda>s2.
                  Option.bind (omap_calibrate bus s2) (\<lambda>r. case r of
                    Inl e \<Rightarrow> Some (Inl e)
                  | Inr (e, s3) \<Rightarrow> Some (Inr (if e \<noteq> 0 then (-1, None, dev s3) else (0, Some s3, dev s3)))))))"

text \<open>A context and the address of its registers, or a null interface.\<close>

definition omap_timer_close ::
  "(u32 \<Rightarrow> 'a \<Rightarrow> 'a) \<Rightarrow> (u32 \<Rightarrow> 'a \<Rightarrow> 'a) \<Rightarrow> (u32 \<times> u32) option \<Rightarrow> 'a \<Rightarrow> int \<times> (u32 \<times> u32) option \<times> 'a" where
  "omap_timer_close vm_unmap kfree itf a =
     (case itf of None \<Rightarrow> (-1, None, a) | Some (context, regs) \<Rightarrow> (0, None, kfree context (vm_unmap regs a)))"

fun omap_timer_install_loop :: "'d \<Rightarrow> int list \<Rightarrow> int \<Rightarrow> 'd option list \<Rightarrow> (int \<times> 'd option list) run" where
  "omap_timer_install_loop drv [] e t = Inr (e, t)"
| "omap_timer_install_loop drv (i # is) e t =
     (case timer_install (Some drv) i t of
        Inl x \<Rightarrow> Inl x
      | Inr (r, t') \<Rightarrow> omap_timer_install_loop drv is (if r \<noteq> 0 then -1 else e) t')"

definition omap_timer_install :: "'d \<Rightarrow> 'd option list \<Rightarrow> (int \<times> 'd option list) run" where
  "omap_timer_install drv t = omap_timer_install_loop drv [0..10] 0 t"

text \<open>The 32 kHz counter as the clock's source.\<close>

definition omap_sync_cur :: "'h omap_bus \<Rightarrow> 'h gptimer \<Rightarrow> u64 \<times> 'h gptimer" where
  "omap_sync_cur bus s = (case rd bus REG_32KSYNCNT_CR s of (v, s1) \<Rightarrow> (ucast v, s1))"

definition omap_sync_freq :: u64 where "omap_sync_freq = 32768"
definition omap_sync_wrap :: u64 where "omap_sync_wrap = 0xFFFFFFFF"

text \<open>Whether \<open>kmalloc\<close> gives a context is an argument; the truth value says whether the interface is set.\<close>

definition omap_sync_open :: "bool \<Rightarrow> int \<times> bool" where
  "omap_sync_open got = (if \<not> got then (-1, False) else (0, True))"

definition omap_sync_install :: "'d \<Rightarrow> 'd option \<Rightarrow> int \<times> 'd option" where
  "omap_sync_install drv installed = (0, snd (sync_timer_install (Some drv) installed))"

section \<open>nRF51822\<close>

datatype rtc_reg =
  RTC_START | RTC_STOP | RTC_CLEAR | RTC_COMPARE0 | RTC_INTENSET | RTC_EVTENSET | RTC_COUNTER | RTC_CC0 | ICSR
  | XTALFREQ | HFCLKSTARTED | HFCLKSTART | LFCLKSTARTED | LFCLKSTART | CAL_DONE | CAL

definition nrf_getfreq :: u32 where "nrf_getfreq = 32768"

definition nrf_read32 :: "(rtc_reg, 'h) bus \<Rightarrow> 'h machine \<Rightarrow> u32 \<times> 'h machine" where
  "nrf_read32 bus s = rd bus RTC_COUNTER s"

definition nrf_read64 :: "(rtc_reg, 'h) bus \<Rightarrow> 'h machine \<Rightarrow> u64 \<times> 'h machine" where
  "nrf_read64 bus s = (case nrf_read32 bus s of (v, s1) \<Rightarrow> (ucast v, s1))"

definition nrf_timer_get_irq_number :: u32 where "nrf_timer_get_irq_number = 17 + 16"

definition nrf_timer_close :: "(rtc_reg, 'h) bus \<Rightarrow> 'h machine \<Rightarrow> int \<times> 'h machine" where
  "nrf_timer_close bus s = (0, wr bus RTC_STOP 1 s)"

definition nrf_oneshot :: "(rtc_reg, 'h) bus \<Rightarrow> timespec \<Rightarrow> 'h machine \<Rightarrow> (int \<times> 'h machine) run" where
  "nrf_oneshot bus ts s =
     (let s1 = wr_all bus [(RTC_CLEAR, 1), (RTC_COMPARE0, 0)] s
      in case ticks_of nrf_getfreq ts of
           Inl e \<Rightarrow> Inl e
         | Inr ticks0 \<Rightarrow>
             if ticks0 > 0x00FFFFFF then Inr (-1, s1)
             else let ticks = (if ticks0 < 2 then 2 else ticks0)
                  in Inr (0, wr_all bus [(RTC_CC0, ucast ticks), (RTC_START, 1)] s1))"

text \<open>The interrupt asks for the exception in which threads are switched.\<close>

definition nrf_timer_IRQ :: "(rtc_reg, 'h) bus \<Rightarrow> 'h machine \<Rightarrow> int \<times> 'h machine" where
  "nrf_timer_IRQ bus s = (0, wr_all bus [(RTC_STOP, 1), (RTC_COMPARE0, 0), (ICSR, BIT 28)] s)"

definition nrf_timer_open :: "(rtc_reg, 'h) bus \<Rightarrow> 'h machine \<Rightarrow> int \<times> 'h machine" where
  "nrf_timer_open bus s = (0, wr_all bus [(RTC_EVTENSET, BIT 16), (RTC_INTENSET, BIT 16)] s)"

definition XTALFREQ_16Mhz :: u32 where "XTALFREQ_16Mhz = 0xff"

text \<open>Clear the event, start the task, wait for the event.\<close>

definition start_and_wait :: "(rtc_reg, 'h) bus \<Rightarrow> rtc_reg \<Rightarrow> rtc_reg \<Rightarrow> 'h machine \<Rightarrow> 'h machine option" where
  "start_and_wait bus event task s = poll bus event (\<lambda>v. v \<noteq> 0) (wr bus task 1 (wr bus event 0 s))"

definition nrf51822_start_crystal :: "(rtc_reg, 'h) bus \<Rightarrow> u32 \<Rightarrow> 'h machine \<Rightarrow> (int \<times> 'h machine) option" where
  "nrf51822_start_crystal bus xtalfreq s =
     Option.bind (start_and_wait bus HFCLKSTARTED HFCLKSTART (wr bus XTALFREQ xtalfreq s)) (\<lambda>s1.
       Option.bind (start_and_wait bus LFCLKSTARTED LFCLKSTART s1) (\<lambda>s2.
         Option.bind (start_and_wait bus CAL_DONE CAL s2) (\<lambda>s3. Some (0, s3))))"

definition nrf_timer_install :: "'d \<Rightarrow> 'd option list \<Rightarrow> (int \<times> 'd option list) run" where
  "nrf_timer_install drv t = timer_install (Some drv) 0 t"

definition nrf51822_start_16Mhz_crystal :: "(rtc_reg, 'h) bus \<Rightarrow> 'h machine \<Rightarrow> (int \<times> 'h machine) option" where
  "nrf51822_start_16Mhz_crystal bus s = nrf51822_start_crystal bus XTALFREQ_16Mhz s"

definition nrf_sync_cur :: "(rtc_reg, 'h) bus \<Rightarrow> 'h machine \<Rightarrow> u64 \<times> 'h machine" where
  "nrf_sync_cur bus s = (case rd bus RTC_COUNTER s of (v, s1) \<Rightarrow> (ucast v, s1))"

definition nrf_sync_freq :: u64 where "nrf_sync_freq = 32768"
definition nrf_sync_wrap :: u64 where "nrf_sync_wrap = 0xFFFFFF"

definition nrf_sync_open :: "(rtc_reg, 'h) bus \<Rightarrow> 'h machine \<Rightarrow> (int \<times> 'h machine) option" where
  "nrf_sync_open bus s =
     Option.bind (nrf51822_start_16Mhz_crystal bus s) (\<lambda>(_, s1). Some (0, wr bus RTC_START 1 s1))"

definition nrf_sync_install :: "'d \<Rightarrow> 'd option \<Rightarrow> int \<times> 'd option" where
  "nrf_sync_install drv installed = (0, snd (sync_timer_install (Some drv) installed))"

section \<open>What the drivers compute\<close>

lemma unat_ns_of: "unat (ns_of ts) = unat (seconds ts) * 1000000000 + unat (nanoseconds ts)"
proof -
  have b: "unat (seconds ts) * 1000000000 + unat (nanoseconds ts) < 18446744073709551616"
    using unat_u32_less [of "seconds ts"] unat_u32_less [of "nanoseconds ts"] by linarith
  have "unat (ucast (seconds ts) * 1000000000 :: u64) = unat (seconds ts) * 1000000000"
    using b by (subst unat_mult_lem [THEN iffD1]) (simp_all add: unat_ucast_u64)
  then show ?thesis
    using b by (simp add: ns_of_def, subst unat_add_lem [THEN iffD1]) (simp_all add: unat_ucast_u64)
qed

lemma unat_ns_per_tick: "unat (ns_per_tick freq) = 1000000000 div unat freq"
  by (simp add: ns_per_tick_def unat_div_distrib unat_ucast_u64)

text \<open>The nanoseconds of an interval, as a whole number.\<close>

definition interval_ns :: "timespec \<Rightarrow> nat" where
  "interval_ns ts = unat (seconds ts) * 1000000000 + unat (nanoseconds ts)"

text \<open>The interval asked for lies between these two whole numbers of ticks; the quotient is rounded down twice.\<close>

lemma ticks_of_bounds:
  assumes "ticks_of freq ts = Inr t"
  shows "unat t = interval_ns ts div (1000000000 div unat freq)"
    and "interval_ns ts * unat freq < (unat t + 1) * 1000000000"
proof -
  let ?ns = "interval_ns ts"
  let ?n = "1000000000 div unat freq"
  have t: "t = ns_of ts div ns_per_tick freq" and pos: "ns_per_tick freq \<noteq> 0"
    using assms(1) by (auto simp: ticks_of_def split: if_splits)
  show eq: "unat t = ?ns div ?n" by (simp add: t unat_div_distrib unat_ns_of unat_ns_per_tick interval_ns_def)
  have n: "0 < ?n" using pos unat_ns_per_tick [of freq] by (metis unat_gt_0)
  have "?ns < (unat t + 1) * ?n" unfolding eq using n by (metis Suc_eq_plus1 dividend_less_div_times mult.commute mult_Suc_right add.commute)
  then have "?ns * unat freq < (unat t + 1) * ?n * unat freq"
    using n by (intro mult_strict_right_mono) (auto intro: Nat.gr0I)
  also have "\<dots> \<le> (unat t + 1) * 1000000000"
    unfolding mult.assoc by (intro mult_le_mono2 div_times_less_eq_dividend)
  finally show "?ns * unat freq < (unat t + 1) * 1000000000" .
qed

text \<open>The prescaler divides by what was asked for.\<close>

lemma ptv_of_power: "ptv_of d = Some p \<Longrightarrow> unat d = 2 ^ (unat p + 1)"
  by (auto simp: ptv_of_def split: if_splits)

section \<open>What the devices do\<close>

text \<open>
  The general purpose timer, by its manual: while \<open>ST\<close> is set it counts a tick up; past its last value it
  overflows, which is counted here, and starts again from the reload value when \<open>AR\<close> is set or stops. A
  write to \<open>TTGR\<close> loads the reload value.
\<close>

record gpt =
  gp_count :: u32
  gp_reload :: u32
  gp_tclr :: u32
  gp_ena :: u32
  gp_ovfs :: nat

definition gp_tick :: "gpt \<Rightarrow> gpt" where
  "gp_tick t =
     (if \<not> bit (gp_tclr t) 0 then t
      else if gp_count t \<noteq> - 1 then t\<lparr>gp_count := gp_count t + 1\<rparr>
      else if bit (gp_tclr t) 1 then t\<lparr>gp_ovfs := gp_ovfs t + 1, gp_count := gp_reload t\<rparr>
      else t\<lparr>gp_ovfs := gp_ovfs t + 1, gp_count := 0, gp_tclr := gp_tclr t AND NOT ST\<rparr>)"

definition gp_poke :: "omap_timer_reg \<Rightarrow> u32 \<Rightarrow> gpt \<Rightarrow> gpt" where
  "gp_poke r v t =
     (case r of TLDR \<Rightarrow> t\<lparr>gp_reload := v\<rparr>
      | TTGR \<Rightarrow> t\<lparr>gp_count := gp_reload t\<rparr>
      | TCRR \<Rightarrow> t\<lparr>gp_count := v\<rparr>
      | TCLR \<Rightarrow> t\<lparr>gp_tclr := v\<rparr>
      | TIER \<Rightarrow> t\<lparr>gp_ena := v\<rparr>
      | IRQSTATUS_SET \<Rightarrow> t\<lparr>gp_ena := gp_ena t OR v\<rparr>
      | _ \<Rightarrow> t)"

text \<open>Before every access any number of ticks may have passed.\<close>

definition gpt_device :: "'h omap_bus \<Rightarrow> ('h \<Rightarrow> gpt) \<Rightarrow> bool" where
  "gpt_device bus view \<longleftrightarrow>
     (\<forall>r h. \<exists>k. view (snd (peek bus r h)) = (gp_tick ^^ k) (view h)) \<and>
     (\<forall>h. fst (peek bus TCLR h) = gp_tclr (view (snd (peek bus TCLR h)))) \<and>
     (\<forall>r v h. \<exists>k. view (poke bus r v h) = gp_poke r v ((gp_tick ^^ k) (view h)))"

text \<open>
  The real-time counter, by its manual: 24 bits that count the ticks while it runs, and an event when they reach the
  compare register, which asks for an interrupt when bit 16 enables it.
\<close>

record rtc =
  rt_count :: nat
  rt_running :: bool
  rt_cc0 :: u32
  rt_event :: bool
  rt_inten :: u32

definition rt_tick :: "rtc \<Rightarrow> rtc" where
  "rt_tick t =
     (if \<not> rt_running t then t
      else let c = (rt_count t + 1) mod 2 ^ 24 in t\<lparr>rt_count := c, rt_event := rt_event t \<or> c = unat (rt_cc0 t)\<rparr>)"

definition rt_poke :: "rtc_reg \<Rightarrow> u32 \<Rightarrow> rtc \<Rightarrow> rtc" where
  "rt_poke r v t =
     (case r of RTC_START \<Rightarrow> t\<lparr>rt_running := rt_running t \<or> v = 1\<rparr>
      | RTC_STOP \<Rightarrow> t\<lparr>rt_running := rt_running t \<and> v \<noteq> 1\<rparr>
      | RTC_CLEAR \<Rightarrow> (if v = 1 then t\<lparr>rt_count := 0\<rparr> else t)
      | RTC_COMPARE0 \<Rightarrow> t\<lparr>rt_event := (v \<noteq> 0)\<rparr>
      | RTC_CC0 \<Rightarrow> t\<lparr>rt_cc0 := v\<rparr>
      | RTC_INTENSET \<Rightarrow> t\<lparr>rt_inten := rt_inten t OR v\<rparr>
      | _ \<Rightarrow> t)"

definition rt_irq :: "rtc \<Rightarrow> bool" where
  "rt_irq t \<longleftrightarrow> rt_event t \<and> bit (rt_inten t) 16"

definition rtc_device :: "(rtc_reg, 'h) bus \<Rightarrow> ('h \<Rightarrow> rtc) \<Rightarrow> bool" where
  "rtc_device bus view \<longleftrightarrow>
     (\<forall>r h. \<exists>k. view (snd (peek bus r h)) = (rt_tick ^^ k) (view h)) \<and>
     (\<forall>r v h. \<exists>k. view (poke bus r v h) = rt_poke r v ((rt_tick ^^ k) (view h)))"

text \<open>Time does nothing to a timer that is stopped.\<close>

lemma gp_stopped: "\<not> bit (gp_tclr t) 0 \<Longrightarrow> (gp_tick ^^ k) t = t"
  by (induction k) (simp_all add: gp_tick_def)

lemma rt_stopped: "\<not> rt_running t \<Longrightarrow> (rt_tick ^^ k) t = t"
  by (induction k) (simp_all add: rt_tick_def)

text \<open>A timer that runs and does not reload overflows once, when it has counted past its last value.\<close>

lemma gp_running:
  assumes "bit (gp_tclr t) 0" and "\<not> bit (gp_tclr t) 1"
  shows "gp_ovfs ((gp_tick ^^ k) t) = gp_ovfs t + (if k < 2 ^ 32 - unat (gp_count t) then 0 else 1)"
proof -
  let ?n = "2 ^ 32 - unat (gp_count t)"
  have c: "unat (gp_count t) < 4294967296" by (rule unat_u32_less)
  have last: "unat (- 1 :: u32) = 4294967295" by simp
  have before: "(gp_tick ^^ k) t = t\<lparr>gp_count := gp_count t + word_of_nat k\<rparr>" if "k < ?n" for k
    using that
  proof (induction k)
    case (Suc k)
    have "unat (gp_count t + word_of_nat k) = unat (gp_count t) + k"
      using Suc.prems c by (subst unat_add_lem [THEN iffD1]) (simp_all add: unat_of_nat)
    then have "gp_count t + word_of_nat k \<noteq> - 1" using Suc.prems last by auto
    then show ?case using Suc assms by (simp add: gp_tick_def add.assoc add.commute)
  qed simp
  have "(2 :: nat) ^ 32 = 4294967296" by simp
  then have "?n \<noteq> 0" using c by linarith
  then obtain m where m: "?n = Suc m" using not0_implies_Suc by blast
  have "gp_count t + word_of_nat m = - 1"
  proof -
    have "unat (gp_count t + word_of_nat m) = unat (gp_count t) + m"
      using m c by (subst unat_add_lem [THEN iffD1]) (simp_all add: unat_of_nat)
    also have "\<dots> = unat (- 1 :: u32)" using m last by simp
    finally show ?thesis by (simp only: word_unat_eq_iff)
  qed
  then have at: "(gp_tick ^^ ?n) t = t\<lparr>gp_ovfs := gp_ovfs t + 1, gp_count := 0, gp_tclr := gp_tclr t AND NOT ST\<rparr>"
    using before [of m] m assms by (simp add: gp_tick_def)
  show ?thesis
  proof (cases "k < ?n")
    case True
    then show ?thesis using before [OF True] by simp
  next
    case False
    then obtain d where "k = d + ?n" by (metis le_add_diff_inverse2 not_less)
    moreover have "\<not> bit (gp_tclr ((gp_tick ^^ ?n) t)) 0" unfolding at by (simp add: bit_simps ST_def)
    ultimately have "(gp_tick ^^ k) t = (gp_tick ^^ ?n) t" by (simp only: funpow_add comp_apply) (rule gp_stopped)
    then show ?thesis using False unfolding at by simp
  qed
qed

lemma rt_running_event:
  assumes "rt_running t" and "rt_count t = 0" and "\<not> rt_event t" and "unat (rt_cc0 t) < 2 ^ 24" and "0 < unat (rt_cc0 t)"
  shows "k < unat (rt_cc0 t) \<Longrightarrow> \<not> rt_event ((rt_tick ^^ k) t)" and "rt_event ((rt_tick ^^ unat (rt_cc0 t)) t)"
    and "rt_inten ((rt_tick ^^ k) t) = rt_inten t"
proof -
  have before: "(rt_tick ^^ k) t = t\<lparr>rt_count := k\<rparr>" if "k < unat (rt_cc0 t)" for k
    using that
  proof (induction k)
    case 0
    then show ?case using assms(2) by simp
  next
    case (Suc k)
    then have "(k + 1) mod 2 ^ 24 = k + 1" using assms(4) by (intro mod_less) simp
    then show ?case using Suc assms(1,3) by (simp add: rt_tick_def Let_def)
  qed
  then show "k < unat (rt_cc0 t) \<Longrightarrow> \<not> rt_event ((rt_tick ^^ k) t)" using assms(3) by simp
  obtain m where m: "unat (rt_cc0 t) = Suc m" using assms(5) by (cases "unat (rt_cc0 t)") auto
  have "(m + 1) mod 2 ^ 24 = Suc m" using m assms(4) by simp
  then show "rt_event ((rt_tick ^^ unat (rt_cc0 t)) t)"
    using before [of m] m assms(1) by (simp add: rt_tick_def Let_def)
  show "rt_inten ((rt_tick ^^ k) t) = rt_inten t" by (induction k) (simp_all add: rt_tick_def Let_def)
qed

text \<open>A tick changes no prescaler.\<close>

definition gp_prescaler :: "gpt \<Rightarrow> u32" where
  "gp_prescaler t = gp_tclr t AND (PRE OR PTV_MASK)"

lemma prescaler_keep: "(w AND NOT ST) AND (PRE OR PTV_MASK) = w AND (PRE OR PTV_MASK)"
proof -
  have "\<not> bit (PRE OR PTV_MASK) 0" by (simp add: PRE_def PTV_MASK_def TCLR_PTV_SHIFT_def bit_simps)
  then show ?thesis by (intro bit_word_eqI) (auto simp: bit_simps ST_def intro!: gr0I)
qed

lemma gp_prescaler_ticks [simp]: "gp_prescaler ((gp_tick ^^ k) t) = gp_prescaler t"
proof (induction k)
  case (Suc k)
  have "gp_prescaler (gp_tick t) = gp_prescaler t" for t by (simp add: gp_prescaler_def gp_tick_def prescaler_keep)
  then show ?case using Suc by simp
qed simp

text \<open>What the accesses of \<open>_oneshot\<close> do to a timer that is stopped.\<close>

definition stopped_view :: "('h \<Rightarrow> gpt) \<Rightarrow> gpt \<Rightarrow> 'h gptimer \<Rightarrow> bool" where
  "stopped_view view t s \<longleftrightarrow> view (dev s) = t \<and> \<not> bit (gp_tclr t) 0"

lemma stopped_rd:
  "gpt_device bus view \<Longrightarrow> stopped_view view t s \<Longrightarrow> rd bus r s = (v, s1) \<Longrightarrow>
   stopped_view view t s1 \<and> (r = TCLR \<longrightarrow> v = gp_tclr t)"
  unfolding gpt_device_def stopped_view_def rd_def by (auto split: prod.splits) (metis fst_conv snd_conv gp_stopped)+

lemma stopped_wr:
  assumes "gpt_device bus view" and "stopped_view view t s"
  shows "view (dev (wr bus r v s)) = gp_poke r v t"
proof -
  obtain k where "view (poke bus r v (dev s)) = gp_poke r v ((gp_tick ^^ k) (view (dev s)))"
    using assms(1) unfolding gpt_device_def by blast
  then show ?thesis using assms(2) by (simp add: stopped_view_def wr_def gp_stopped)
qed

lemma stopped_wait:
  assumes "gpt_device bus view" and "stopped_view view t s" and "wait_for_pending bus pend s = Some s'"
  shows "stopped_view view t s'"
proof -
  obtain v s1 where v: "rd bus TSICR s = (v, s1)" by (metis surj_pair)
  have s1: "stopped_view view t s1" using stopped_rd [OF assms(1,2) v] by blast
  show ?thesis
  proof (cases "v AND POSTED \<noteq> 0")
    case True
    then have "poll bus TWPS (\<lambda>p. p AND pend = 0) s1 = Some s'" using assms(3) v by (simp add: wait_for_pending_def)
    then show ?thesis by (rule poll_induct [where P = "stopped_view view t"]) (use s1 stopped_rd [OF assms(1)] in blast)+
  next
    case False
    then show ?thesis using assms(3) v s1 by (simp add: wait_for_pending_def)
  qed
qed

text \<open>Before it is stopped only its prescaler is known to stay.\<close>

lemma prescaler_rd: "gpt_device bus view \<Longrightarrow> rd bus r s = (v, s1) \<Longrightarrow> gp_prescaler (view (dev s1)) = gp_prescaler (view (dev s))"
  unfolding gpt_device_def rd_def by (auto split: prod.splits) (metis snd_conv gp_prescaler_ticks)

lemma prescaler_wait:
  assumes "gpt_device bus view" and "wait_for_pending bus pend s = Some s'"
  shows "gp_prescaler (view (dev s')) = gp_prescaler (view (dev s))"
proof -
  obtain v s1 where v: "rd bus TSICR s = (v, s1)" by (metis surj_pair)
  have s1: "gp_prescaler (view (dev s1)) = gp_prescaler (view (dev s))" by (rule prescaler_rd [OF assms(1) v])
  show ?thesis
  proof (cases "v AND POSTED \<noteq> 0")
    case True
    then have "poll bus TWPS (\<lambda>p. p AND pend = 0) s1 = Some s'" using assms(2) v by (simp add: wait_for_pending_def)
    then show ?thesis
      by (rule poll_induct [where P = "\<lambda>s'. gp_prescaler (view (dev s')) = gp_prescaler (view (dev s))"])
        (simp add: s1, metis prescaler_rd [OF assms(1)])
  next
    case False
    then show ?thesis using assms(2) v s1 by (simp add: wait_for_pending_def)
  qed
qed

lemma stop_timer:
  assumes dev: "gpt_device bus view"
  shows "\<exists>t. stopped_view view t (modify bus TCLR (\<lambda>v. v AND NOT ST) s) \<and> gp_prescaler t = gp_prescaler (view (dev s))"
proof -
  obtain v s1 where v: "rd bus TCLR s = (v, s1)" by (metis surj_pair)
  have tclr: "v = gp_tclr (view (dev s1))"
    using dev v unfolding gpt_device_def rd_def by (auto split: prod.splits) (metis fst_conv snd_conv)
  obtain k where "view (poke bus TCLR (v AND NOT ST) (dev s1)) = gp_poke TCLR (v AND NOT ST) ((gp_tick ^^ k) (view (dev s1)))"
    using dev unfolding gpt_device_def by blast
  then have t: "view (dev (modify bus TCLR (\<lambda>v. v AND NOT ST) s)) = ((gp_tick ^^ k) (view (dev s1)))\<lparr>gp_tclr := v AND NOT ST\<rparr>"
    by (simp add: modify_def v wr_def gp_poke_def)
  have "gp_prescaler (((gp_tick ^^ k) (view (dev s1)))\<lparr>gp_tclr := v AND NOT ST\<rparr>) = gp_prescaler (view (dev s1))"
    by (simp add: gp_prescaler_def tclr prescaler_keep)
  moreover have "\<not> bit (v AND NOT ST) 0" by (simp add: bit_simps ST_def)
  ultimately show ?thesis using prescaler_rd [OF dev v] t by (simp add: stopped_view_def)
qed

lemma reload_ticks:
  assumes "\<not> (0xFFFFFFFF :: u64) < t"
  shows "unat (- 1 - (ucast (0xffffffff - t) :: u32)) = unat t"
proof -
  have le: "t \<le> 0xFFFFFFFF" using assms by simp
  then have le': "unat t \<le> 4294967295" by (simp add: word_le_nat_alt)
  have "unat (0xffffffff - t) = 4294967295 - unat t" using le by (simp add: unat_sub)
  then have u: "unat (ucast (0xffffffff - t) :: u32) = 4294967295 - unat t"
    by (simp add: unsigned_ucast_eq take_bit_nat_eq_self)
  have "unat (- 1 - (ucast (0xffffffff - t) :: u32)) = unat (- 1 :: u32) - unat (ucast (0xffffffff - t) :: u32)"
    by (rule unat_sub_u32) simp
  then show ?thesis using u le' by simp
qed

lemma and_other_bits:
  fixes w :: u32
  assumes "x AND m = 0" and "y AND m = 0" and "z AND m = 0"
  shows "((w AND NOT x) OR y OR z) AND m = w AND m"
proof (rule bit_word_eqI)
  fix n assume "n < LENGTH(32)"
  have "\<not> bit (x AND m) n" "\<not> bit (y AND m) n" "\<not> bit (z AND m) n" using assms by simp_all
  then show "bit (((w AND NOT x) OR y OR z) AND m) n = bit (w AND m) n"
    using \<open>n < LENGTH(32)\<close> by (auto simp: bit_simps)
qed

text \<open>The one-shot of the OMAP leaves the timer running down to its overflow.\<close>

lemma omap_oneshot_view:
  assumes dev: "gpt_device bus view" and shot: "omap_oneshot bus ver ts s = Some (Inr (0, s'))"
  shows "\<exists>t0. ticks_of (tm_freq s) ts = Inr t0 \<and>
    unat (gp_count (view (dev s'))) = 4294967295 - (if t0 \<le> 10 then 11 else unat t0) \<and> unat t0 \<le> 4294967295 \<and>
    bit (gp_tclr (view (dev s'))) 0 \<and> \<not> bit (gp_tclr (view (dev s'))) 1 \<and> bit (gp_ena (view (dev s'))) 1 \<and>
    gp_prescaler (view (dev s')) = gp_prescaler (view (dev s))"
proof -
  obtain t0 where t0: "ticks_of (tm_freq s) ts = Inr t0"
    using shot by (cases "ticks_of (tm_freq s) ts") (auto simp: omap_oneshot_def)
  have small: "\<not> 0xFFFFFFFF < t0" using shot t0 by (auto simp: omap_oneshot_def split: if_splits)
  let ?t = "if t0 \<le> 10 then 11 else t0" and ?ena = "if ver = 3 then TIER else IRQSTATUS_SET"
  let ?load = "ucast (0xffffffff - ?t) :: u32" and ?go = "\<lambda>v. (v AND NOT (AR OR TRG_MASK)) OR ST OR TRG_OVR"
  obtain s1 s2 where s1: "wait_for_pending bus W_PEND_TCLR s = Some s1"
    and s2: "wait_for_pending bus (W_PEND_TLDR OR W_PEND_TTGR OR W_PEND_TCLR) (modify bus TCLR (\<lambda>v. v AND NOT ST) s1) = Some s2"
    and s': "s' = modify bus TCLR ?go (wr_all bus [(TLDR, ?load), (TTGR, 0), (?ena, OVF_IT_ENA)] s2)"
    using shot t0 small by (auto simp: omap_oneshot_def Let_def bind_eq_Some_conv)
  obtain t where t: "stopped_view view t (modify bus TCLR (\<lambda>v. v AND NOT ST) s1)" "gp_prescaler t = gp_prescaler (view (dev s1))"
    using stop_timer [OF dev] by blast
  have two: "stopped_view view t s2" by (rule stopped_wait [OF dev t(1) s2])
  have stop: "\<not> bit (gp_tclr t) 0" using two by (simp add: stopped_view_def)
  define u where "u = t\<lparr>gp_reload := ?load, gp_count := ?load, gp_ena := (if ver = 3 then OVF_IT_ENA else gp_ena t OR OVF_IT_ENA)\<rparr>"
  let ?s3 = "wr bus TLDR ?load s2" and ?s4 = "wr bus TTGR 0 (wr bus TLDR ?load s2)"
  have 3: "stopped_view view (t\<lparr>gp_reload := ?load\<rparr>) ?s3"
    using stopped_wr [OF dev two, of TLDR ?load] stop by (simp add: stopped_view_def gp_poke_def)
  have 4: "stopped_view view (t\<lparr>gp_reload := ?load, gp_count := ?load\<rparr>) ?s4"
    using stopped_wr [OF dev 3, of TTGR 0] stop by (simp add: stopped_view_def gp_poke_def)
  have 5: "stopped_view view u (wr bus ?ena OVF_IT_ENA ?s4)"
    using stopped_wr [OF dev 4, of ?ena OVF_IT_ENA] stop by (simp add: stopped_view_def gp_poke_def u_def)
  obtain v s6 where v: "rd bus TCLR (wr bus ?ena OVF_IT_ENA ?s4) = (v, s6)" by (metis surj_pair)
  note 6 = stopped_rd [OF dev 5 v]
  have end1: "view (dev s') = u\<lparr>gp_tclr := ?go (gp_tclr t)\<rparr>"
  proof -
    have "s' = wr bus TCLR (?go (gp_tclr t)) s6"
      using v 6 by (simp add: s' wr_all_def modify_def u_def)
    then show ?thesis using stopped_wr [OF dev conjunct1 [OF 6], of TCLR "?go (gp_tclr t)"] by (simp add: gp_poke_def)
  qed
  have "unat ?load = 4294967295 - unat ?t"
  proof -
    have 1: "unat (- 1 - ?load) = unat ?t" by (rule reload_ticks) (use small in auto)
    have 2: "unat (- 1 - ?load) = unat (- 1 :: u32) - unat ?load" by (rule unat_sub_u32) simp
    have 3: "unat (- 1 :: u32) = 4294967295" by simp
    have 4: "unat ?load < 4294967296" by (rule unat_u32_less)
    show ?thesis using 1 2 4 unfolding 3 by linarith
  qed
  moreover have "unat ?t = (if t0 \<le> 10 then 11 else unat t0)" by simp
  moreover have "unat t0 \<le> 4294967295" using small by (simp add: word_le_nat_alt not_less)
  moreover have "bit (?go w) 0" "\<not> bit (?go w) 1" for w
    by (simp_all add: bit_simps ST_def AR_def TRG_MASK_def TRG_OVR_def TCLR_TRG_SHIFT_def)
  moreover have "bit (gp_ena u) 1" by (simp add: u_def OVF_IT_ENA_def bit_simps)
  moreover have "?go w AND (PRE OR PTV_MASK) = w AND (PRE OR PTV_MASK)" for w
    by (rule and_other_bits)
      (simp_all add: BIT_def ST_def AR_def TRG_MASK_def TRG_OVR_def TCLR_TRG_SHIFT_def PRE_def PTV_MASK_def TCLR_PTV_SHIFT_def)
  then have "gp_prescaler (view (dev s')) = gp_prescaler (view (dev s))"
    unfolding end1 using t(2) prescaler_wait [OF dev s1] by (simp add: gp_prescaler_def)
  ultimately show ?thesis using t0 by (simp add: end1 u_def)
qed

lemma rtc_wr:
  assumes "rtc_device bus view" and "\<not> rt_running (view (dev s))"
  shows "view (dev (wr bus r v s)) = rt_poke r v (view (dev s))"
proof -
  obtain k where "view (poke bus r v (dev s)) = rt_poke r v ((rt_tick ^^ k) (view (dev s)))"
    using assms(1) unfolding rtc_device_def by blast
  then show ?thesis using assms(2) by (simp add: wr_def rt_stopped)
qed

lemma nrf_oneshot_view:
  assumes dev: "rtc_device bus view" and stop: "\<not> rt_running (view (dev s))" and shot: "nrf_oneshot bus ts s = Inr (0, s')"
  shows "\<exists>t0. ticks_of 32768 ts = Inr t0 \<and> unat t0 < 2 ^ 24 \<and>
    view (dev s') = (view (dev s))\<lparr>rt_count := 0, rt_event := False, rt_cc0 := ucast (if t0 < 2 then 2 else t0), rt_running := True\<rparr>"
proof -
  obtain t0 where t0: "ticks_of 32768 ts = Inr t0"
    using shot by (cases "ticks_of 32768 ts") (auto simp: nrf_oneshot_def nrf_getfreq_def Let_def)
  let ?t = "if t0 < 2 then 2 else t0"
  have small: "\<not> 0x00FFFFFF < t0" using shot t0 by (auto simp: nrf_oneshot_def nrf_getfreq_def Let_def split: if_splits)
  then have "unat t0 < 2 ^ 24" by (simp add: word_le_nat_alt not_less)
  let ?s1 = "wr bus RTC_CLEAR 1 s" and ?s2 = "wr bus RTC_COMPARE0 0 (wr bus RTC_CLEAR 1 s)"
  let ?s3 = "wr bus RTC_CC0 (ucast ?t) (wr bus RTC_COMPARE0 0 (wr bus RTC_CLEAR 1 s))"
  have s': "s' = wr bus RTC_START 1 ?s3"
    using shot t0 small by (simp add: nrf_oneshot_def nrf_getfreq_def Let_def wr_all_def)
  have 1: "view (dev ?s1) = (view (dev s))\<lparr>rt_count := 0\<rparr>" using rtc_wr [OF dev stop] by (simp add: rt_poke_def)
  then have r1: "\<not> rt_running (view (dev ?s1))" using stop by simp
  have 2: "view (dev ?s2) = (view (dev s))\<lparr>rt_count := 0, rt_event := False\<rparr>"
    using rtc_wr [OF dev r1] 1 by (simp add: rt_poke_def)
  then have r2: "\<not> rt_running (view (dev ?s2))" using stop by simp
  have 3: "view (dev ?s3) = (view (dev s))\<lparr>rt_count := 0, rt_event := False, rt_cc0 := ucast ?t\<rparr>"
    using rtc_wr [OF dev r2] 2 by (simp add: rt_poke_def)
  then have r3: "\<not> rt_running (view (dev ?s3))" using stop by simp
  have "view (dev s') = (view (dev s))\<lparr>rt_count := 0, rt_event := False, rt_cc0 := ucast ?t, rt_running := True\<rparr>"
    using rtc_wr [OF dev r3] 3 by (simp add: rt_poke_def s')
  then show ?thesis using t0 \<open>unat t0 < 2 ^ 24\<close> by blast
qed


text \<open>The devices themselves, without ticks between accesses, to run the drivers on.\<close>

definition demo_gpt :: "(omap_timer_reg, gpt) bus" where
  "demo_gpt = \<lparr>peek = (\<lambda>r t. (if r = TCLR then gp_tclr t else 0, t)), poke = gp_poke\<rparr>"

definition demo_rtc :: "(rtc_reg, rtc) bus" where
  "demo_rtc = \<lparr>peek = (\<lambda>r t. (0, t)), poke = rt_poke\<rparr>"

lemma demo_devices: "gpt_device demo_gpt (\<lambda>t. t)" "rtc_device demo_rtc (\<lambda>t. t)"
  by (auto simp: gpt_device_def rtc_device_def demo_gpt_def demo_rtc_def intro: exI [of _ 0])


end
