(* ===== verification/Nrf_Devices.thy ===== *)
theory Nrf_Devices
  imports Registers System_Time Uart_Spec
begin

unbundle bit_operations_syntax

text \<open>
  The small devices of the nRF51822: the serial line (\<open>src/kernel/drivers/ns/nRF51822/uart/uart.c\<close>), the random number
  generator (\<open>hwrng/hwrng.c\<close>), the pins (\<open>gpio/gpio.c\<close>) and the light that blinks while the kernel is alive
  (\<open>heartbeat/heartbeat.c\<close>). Registers are behind a bus; what others do while a thread yields is an argument.
\<close>

section \<open>Serial line\<close>

datatype nrf_uart_reg =
  U_STARTTX | U_RXDRDY | U_TXDRDY | U_INTENSET | U_INTENCLR | U_ENABLE | U_PSELTXD | U_PSELRXD | U_RXD | U_TXD | U_BAUDRATE

definition NU_NONBLOCK :: u32 where "NU_NONBLOCK = BIT 0"
definition NU_CONSOLE :: u32 where "NU_CONSOLE = BIT 1"
definition NU_DEV :: u32 where "NU_DEV = BIT 2"
definition INTEN_RX_READY :: u32 where "INTEN_RX_READY = BIT 2"
definition INTEN_TX_READY :: u32 where "INTEN_TX_READY = BIT 7"

record nrf_uart_context =
  nu_read :: fifo_buffer
  nu_write :: fifo_buffer
  nu_flags :: u32

record 'h nrf_uart = "'h machine" +
  nu_ctx :: nrf_uart_context
  nu_mem :: memory

text \<open>Before there is a driver: a dummy write with the pin disconnected makes the transmitter ready.\<close>

definition nrf51822_debug_startup :: "(nrf_uart_reg, 'h) bus \<Rightarrow> 'h machine \<Rightarrow> 'h machine option" where
  "nrf51822_debug_startup bus s =
     Option.bind (poll bus U_TXDRDY (\<lambda>v. v = 1)
         (wr_all bus [(U_BAUDRATE, 0x004EA000), (U_PSELRXD, 25), (U_ENABLE, 4), (U_STARTTX, 1), (U_TXDRDY, 0), (U_TXD, 0)] s))
       (\<lambda>s1. Some (wr bus U_PSELTXD 24 s1))"

fun nrf_debug_loop :: "(nrf_uart_reg, 'h) bus \<Rightarrow> u8 list \<Rightarrow> 'h machine \<Rightarrow> 'h machine option" where
  "nrf_debug_loop bus [] s = Some s"
| "nrf_debug_loop bus (b # bs) s =
     Option.bind (poll bus U_TXDRDY (\<lambda>v. v = 1) s)
       (\<lambda>s1. nrf_debug_loop bus bs (wr_all bus [(U_TXDRDY, 0), (U_TXD, ucast b)] s1))"

definition nrf_debug_out :: "(nrf_uart_reg, 'h) bus \<Rightarrow> string \<Rightarrow> 'h machine \<Rightarrow> (u32 \<times> 'h machine) option" where
  "nrf_debug_out bus str s =
     Option.bind (nrf_debug_loop bus (bytes_of str) s)
       (\<lambda>s1. Option.bind (poll bus U_TXDRDY (\<lambda>v. v = 1) s1) (\<lambda>s2. Some (word_of_nat (length str), s2)))"

definition nrf_uart_get_irq_number :: u32 where "nrf_uart_get_irq_number = 2 + 16"

text \<open>Received bytes are dropped; a byte is sent, or the interrupt disabled when there is none.\<close>

definition nrf_uart_IRQ :: "(nrf_uart_reg, 'h) bus \<Rightarrow> 'h nrf_uart \<Rightarrow> int \<times> 'h nrf_uart" where
  "nrf_uart_IRQ bus s =
     (case rd bus U_RXDRDY s of (rx, s1) \<Rightarrow>
        let s2 = (if rx \<noteq> 0 then wr bus U_RXDRDY 0 (snd (rd bus U_RXD s1)) else s1)
        in case rd bus U_TXDRDY s2 of (tx, s3) \<Rightarrow>
             (0, if tx = 0 then s3
                 else case fifo_buffer_getb (nu_write (nu_ctx s3)) (nu_mem s3) of
                   (r, Some b, fb) \<Rightarrow>
                     wr_all bus [(U_TXDRDY, 0), (U_TXD, ucast b)] (s3\<lparr>nu_ctx := (nu_ctx s3)\<lparr>nu_write := fb\<rparr>\<rparr>)
                 | (r, None, fb) \<Rightarrow> wr bus U_INTENCLR INTEN_TX_READY (s3\<lparr>nu_ctx := (nu_ctx s3)\<lparr>nu_write := fb\<rparr>\<rparr>)))"

text \<open>What \<open>_write\<close> does under the lock, and the bytes that did not fit.\<close>

definition nrf_write_chunk :: "u8 list \<Rightarrow> 'h nrf_uart \<Rightarrow> u8 list \<times> 'h nrf_uart" where
  "nrf_write_chunk bs s =
     (case put_bytes bs (nu_write (nu_ctx s)) (nu_mem s) of
        (rest, fb, m) \<Rightarrow> (rest, s\<lparr>nu_ctx := (nu_ctx s)\<lparr>nu_write := fb\<rparr>, nu_mem := m\<rparr>))"

text \<open>
  The loop of \<open>_write\<close>, from one place where others can run to the next: a writer stands before the test of the loop with
  the bytes that are left, or has released the lock and not enabled the interrupt yet, or returns.
\<close>

datatype nrf_writer = W_Loop "u8 list" | W_Unlocked "u8 list" | W_Done "u8 list"

fun nrf_write_step :: "(nrf_uart_reg, 'h) bus \<Rightarrow> bool \<Rightarrow> nrf_writer \<Rightarrow> 'h nrf_uart \<Rightarrow> nrf_writer \<times> 'h nrf_uart" where
  "nrf_write_step bus nonblock (W_Loop bs) s =
     (if bs = [] then (W_Done [], s) else case nrf_write_chunk bs s of (rest, s1) \<Rightarrow> (W_Unlocked rest, s1))"
| "nrf_write_step bus nonblock (W_Unlocked rest) s =
     (if rest = [] \<or> nonblock then W_Done rest else W_Loop rest, wr bus U_INTENSET INTEN_TX_READY s)"
| "nrf_write_step bus nonblock (W_Done rest) s = (W_Done rest, s)"

text \<open>\<open>others w\<close> is what others do when the writer stands at \<open>w\<close>: after a release of the lock and while it yields.\<close>

partial_function (option) nrf_write_loop ::
  "(nrf_uart_reg, 'h) bus \<Rightarrow> (nrf_writer \<Rightarrow> 'h nrf_uart \<Rightarrow> 'h nrf_uart) \<Rightarrow> bool \<Rightarrow> nrf_writer \<Rightarrow> 'h nrf_uart \<Rightarrow>
   (u8 list \<times> 'h nrf_uart) option" where
  "nrf_write_loop bus others nonblock w s =
     (case w of
        W_Done rest \<Rightarrow> Some (rest, s)
      | _ \<Rightarrow> case nrf_write_step bus nonblock w s of (w', s1) \<Rightarrow> nrf_write_loop bus others nonblock w' (others w' s1))"

declare nrf_write_loop.simps [code]

definition nrf_uart_write ::
  "(nrf_uart_reg, 'h) bus \<Rightarrow> (nrf_writer \<Rightarrow> 'h nrf_uart \<Rightarrow> 'h nrf_uart) \<Rightarrow> bool \<Rightarrow> u8 list \<Rightarrow> 'h nrf_uart \<Rightarrow>
   (u32 \<times> 'h nrf_uart) option" where
  "nrf_uart_write bus others in_irq bs s =
     (if in_irq then Some (0, s)
      else Option.bind (nrf_write_loop bus others (nu_flags (nu_ctx s) AND NU_NONBLOCK \<noteq> 0) (W_Loop bs) s)
             (\<lambda>(rest, s'). Some (word_of_nat (length bs - length rest), s')))"

definition nrf_uart_read :: u32 where "nrf_uart_read = 0"

text \<open>An interface that is given is set to null.\<close>

definition nrf_uart_close :: "'i option \<Rightarrow> int \<times> 'i option" where
  "nrf_uart_close itf = (0, None)"

text \<open>The context is static. The truth value says whether the interfaces are given.\<close>

definition nrf_uart_open ::
  "board \<Rightarrow> (nrf_uart_reg, 'h) bus \<Rightarrow> u32 \<Rightarrow> u32 \<Rightarrow> nrf_uart_context \<Rightarrow> pages \<Rightarrow> 'h machine \<Rightarrow>
   int \<times> bool \<times> nrf_uart_context \<times> pages \<times> 'h machine" where
  "nrf_uart_open cfg bus major minor c0 P s =
     (let is_dev = (CHRD_DEV_CONSOLE_MAJOR = major \<and> CHRD_DEV_CONSOLE_MINOR = minor);
          c = c0\<lparr>nu_flags := if is_dev then NU_CONSOLE OR NU_DEV else NU_CONSOLE\<rparr>;
          pins = wr_all bus [(U_BAUDRATE, 0x004EA000), (U_PSELRXD, 25), (U_PSELTXD, 24), (U_ENABLE, 4), (U_STARTTX, 1)]
      in if is_dev then (0, True, c, P, pins s)
         else case fifo_buffer_create cfg (nu_read c) (PAGE_SIZE cfg) P of (r, rb, P1) \<Rightarrow>
           let c1 = c\<lparr>nu_read := rb\<rparr>
           in if r \<noteq> 0 then (-1, False, c1, P1, s)
              else case fifo_buffer_create cfg (nu_write c1) (PAGE_SIZE cfg) P1 of (w, wb, P2) \<Rightarrow>
                let c2 = c1\<lparr>nu_write := wb\<rparr>
                in if w \<noteq> 0 then (-1, False, c2, fifo_buffer_destroy cfg rb P2, s)
                   else (0, True, c2, P2, wr bus U_INTENSET INTEN_RX_READY (pins s)))"

definition nrf_uart_install :: "'d \<Rightarrow> 'd chrdev_table \<Rightarrow> int \<times> 'd chrdev_table" where
  "nrf_uart_install drv t =
     (case chrd_install drv CHRD_SERIAL_CONSOLE_MAJOR CHRD_SERIAL_CONSOLE_MINOR t of (r1, t1) \<Rightarrow>
        case chrd_install drv CHRD_DEV_CONSOLE_MAJOR CHRD_DEV_CONSOLE_MINOR t1 of (r2, t2) \<Rightarrow>
          (if r1 \<noteq> 0 \<or> r2 \<noteq> 0 then -1 else 0, t2))"

section \<open>Random numbers\<close>

datatype hwrng_reg = RNG_START | RNG_STOP | RNG_VALRDY | RNG_INTENSET | RNG_INTENCLR | RNG_VALUE

definition CHRD_HWRNG_MAJOR :: u32 where "CHRD_HWRNG_MAJOR = 6"
definition CHRD_HWRNG_MINOR :: u32 where "CHRD_HWRNG_MINOR = 0"
definition RNG_NONBLOCK :: u32 where "RNG_NONBLOCK = BIT 0"

record hwrng_context =
  rng_buffer :: fifo_buffer
  rng_flags :: u32

record 'h hwrng = "'h machine" +
  rng_ctx :: hwrng_context
  rng_mem :: memory

definition hwrng_get_irq_number :: u32 where "hwrng_get_irq_number = 13 + 16"

text \<open>A byte that does not fit stays in the device, and its interrupt is disabled.\<close>

definition hwrng_IRQ :: "(hwrng_reg, 'h) bus \<Rightarrow> 'h hwrng \<Rightarrow> int \<times> 'h hwrng" where
  "hwrng_IRQ bus s =
     (case rd bus RNG_VALRDY s of (rdy, s1) \<Rightarrow>
        (0, if rdy = 0 then s1
            else case rd bus RNG_VALUE s1 of (v, s2) \<Rightarrow>
              case fifo_buffer_putb (rng_buffer (rng_ctx s2)) (ucast v) (rng_mem s2) of (r, fb, m) \<Rightarrow>
                let s3 = s2\<lparr>rng_ctx := (rng_ctx s2)\<lparr>rng_buffer := fb\<rparr>, rng_mem := m\<rparr>
                in if r = FIFO_BUFFER_PUT_SUCCESS then wr bus RNG_VALRDY 0 s3 else wr bus RNG_INTENCLR 1 s3))"

definition hwrng_write :: u32 where "hwrng_write = 0"

definition hwrng_close :: "(hwrng_reg, 'h) bus \<Rightarrow> 'i option \<Rightarrow> 'h machine \<Rightarrow> int \<times> 'i option \<times> 'h machine" where
  "hwrng_close bus itf s = (0, None, wr bus RNG_STOP 1 s)"

text \<open>What \<open>_read\<close> does under the lock.\<close>

definition hwrng_read_chunk :: "nat \<Rightarrow> 'h hwrng \<Rightarrow> u8 list \<times> 'h hwrng" where
  "hwrng_read_chunk count s =
     (case get_bytes count (rng_buffer (rng_ctx s)) (rng_mem s) of
        (bs, fb) \<Rightarrow> (bs, s\<lparr>rng_ctx := (rng_ctx s)\<lparr>rng_buffer := fb\<rparr>\<rparr>))"

text \<open>
  The loop of \<open>_read\<close> in the same way: the count that is left and the bytes that were read.
\<close>

datatype rng_reader = R_Loop nat "u8 list" | R_Unlocked nat "u8 list" | R_Done "u8 list"

fun hwrng_read_step :: "(hwrng_reg, 'h) bus \<Rightarrow> bool \<Rightarrow> rng_reader \<Rightarrow> 'h hwrng \<Rightarrow> rng_reader \<times> 'h hwrng" where
  "hwrng_read_step bus nonblock (R_Loop count acc) s =
     (if count = 0 then (R_Done acc, s)
      else case hwrng_read_chunk count s of (bs, s1) \<Rightarrow> (R_Unlocked (count - length bs) (acc @ bs), s1))"
| "hwrng_read_step bus nonblock (R_Unlocked left acc) s =
     (if left = 0 \<or> nonblock then R_Done acc else R_Loop left acc, wr bus RNG_INTENSET 1 s)"
| "hwrng_read_step bus nonblock (R_Done acc) s = (R_Done acc, s)"

partial_function (option) hwrng_read_loop ::
  "(hwrng_reg, 'h) bus \<Rightarrow> (rng_reader \<Rightarrow> 'h hwrng \<Rightarrow> 'h hwrng) \<Rightarrow> bool \<Rightarrow> rng_reader \<Rightarrow> 'h hwrng \<Rightarrow>
   (u8 list \<times> 'h hwrng) option" where
  "hwrng_read_loop bus others nonblock p s =
     (case p of
        R_Done acc \<Rightarrow> Some (acc, s)
      | _ \<Rightarrow> case hwrng_read_step bus nonblock p s of (p', s1) \<Rightarrow> hwrng_read_loop bus others nonblock p' (others p' s1))"

declare hwrng_read_loop.simps [code]

text \<open>The bytes read; their number is what \<open>_read\<close> answers.\<close>

definition hwrng_read ::
  "(hwrng_reg, 'h) bus \<Rightarrow> (rng_reader \<Rightarrow> 'h hwrng \<Rightarrow> 'h hwrng) \<Rightarrow> nat \<Rightarrow> 'h hwrng \<Rightarrow> (u8 list \<times> 'h hwrng) option" where
  "hwrng_read bus others count s =
     hwrng_read_loop bus others (rng_flags (rng_ctx s) AND RNG_NONBLOCK \<noteq> 0) (R_Loop count []) s"

definition hwrng_open ::
  "board \<Rightarrow> (hwrng_reg, 'h) bus \<Rightarrow> hwrng_context \<Rightarrow> pages \<Rightarrow> 'h machine \<Rightarrow> int \<times> bool \<times> hwrng_context \<times> pages \<times> 'h machine" where
  "hwrng_open cfg bus c P s =
     (case fifo_buffer_create cfg (rng_buffer c) (PAGE_SIZE cfg) P of (r, fb, P1) \<Rightarrow>
        let c1 = c\<lparr>rng_buffer := fb\<rparr>
        in if r \<noteq> 0 then (-1, False, c1, P1, s) else (0, True, c1, P1, wr bus RNG_START 1 s))"

definition hwrng_install :: "'d \<Rightarrow> 'd chrdev_table \<Rightarrow> int \<times> 'd chrdev_table" where
  "hwrng_install drv t = chrd_install drv CHRD_HWRNG_MAJOR CHRD_HWRNG_MINOR t"

section \<open>Pins and the light\<close>

datatype gpio_reg = GPIO_OUTSET | GPIO_OUTCLR | GPIO_IN | GPIO_DIRSET | GPIO_DIRCLR | GPIO_PIN_CNF nat

definition GPIO_DIR_IN :: int where "GPIO_DIR_IN = 0"
definition GPIO_DIR_OUT :: int where "GPIO_DIR_OUT = 1"
definition GPIO_OFF :: int where "GPIO_OFF = 0"
definition GPIO_ON :: int where "GPIO_ON = 1"

definition PIN_CNF_IN :: u32 where "PIN_CNF_IN = push_bit 0 0"
definition PIN_CNF_OUT :: u32 where "PIN_CNF_OUT = push_bit 0 1"
definition PIN_CNF_INPUT_CONNECT :: u32 where "PIN_CNF_INPUT_CONNECT = push_bit 1 0"
definition PIN_CNF_INPUT_DISCONNECT :: u32 where "PIN_CNF_INPUT_DISCONNECT = push_bit 1 1"
definition PIN_CNF_DRIVE_S0S1 :: u32 where "PIN_CNF_DRIVE_S0S1 = push_bit 8 0"
definition PIN_CNF_SENSE_DISABLE :: u32 where "PIN_CNF_SENSE_DISABLE = push_bit 16 0"

text \<open>A shift by the number of a pin there is not is undefined: a fault.\<close>

definition pin_ok :: "int \<Rightarrow> bool" where
  "pin_ok gpio \<longleftrightarrow> 0 \<le> gpio \<and> gpio < 32"

definition gpio_set_dir :: "(gpio_reg, 'h) bus \<Rightarrow> int \<Rightarrow> int \<Rightarrow> 'h machine \<Rightarrow> (int \<times> 'h machine) run" where
  "gpio_set_dir bus gpio dir s =
     (if \<not> pin_ok gpio then Inl FAULT
      else let mask = BIT (nat gpio)
           in Inr (0, if dir = GPIO_DIR_IN
                      then wr_all bus [(GPIO_DIRCLR, mask), (GPIO_PIN_CNF (nat gpio), PIN_CNF_IN OR PIN_CNF_INPUT_CONNECT)] s
                      else wr_all bus [(GPIO_DIRSET, mask), (GPIO_PIN_CNF (nat gpio), PIN_CNF_OUT OR PIN_CNF_INPUT_DISCONNECT
                             OR PIN_CNF_SENSE_DISABLE OR PIN_CNF_DRIVE_S0S1)] s))"

definition gpio_in :: "(gpio_reg, 'h) bus \<Rightarrow> int \<Rightarrow> 'h machine \<Rightarrow> (int \<times> 'h machine) run" where
  "gpio_in bus gpio s =
     (if \<not> pin_ok gpio then Inl FAULT
      else case rd bus GPIO_IN s of (v, s1) \<Rightarrow> Inr (sint (drop_bit (nat gpio) v), s1))"

definition gpio_out :: "(gpio_reg, 'h) bus \<Rightarrow> int \<Rightarrow> int \<Rightarrow> 'h machine \<Rightarrow> (int \<times> 'h machine) run" where
  "gpio_out bus gpio out s =
     (if \<not> pin_ok gpio then Inl FAULT
      else Inr (0, wr bus (if out \<noteq> 0 then GPIO_OUTSET else GPIO_OUTCLR) (BIT (nat gpio)) s))"

definition nrf_gpio_install :: "'d \<Rightarrow> 'd option \<Rightarrow> int \<times> 'd option" where
  "nrf_gpio_install drv installed = gpio_install (Some drv) installed"

definition led_c1 :: int where "led_c1 = 4"
definition led_r1 :: int where "led_r1 = 13"

definition then_run :: "(int \<times> 's) run \<Rightarrow> ('s \<Rightarrow> (int \<times> 's) run) \<Rightarrow> (int \<times> 's) run" where
  "then_run r f = (case r of Inl e \<Rightarrow> Inl e | Inr (_, s) \<Rightarrow> f s)"

text \<open>\<open>opened\<close> is what \<open>gpio_open\<close> answers.\<close>

definition heartbeat_start :: "(gpio_reg, 'h) bus \<Rightarrow> int \<Rightarrow> 'h machine \<Rightarrow> (int \<times> 'h machine) run" where
  "heartbeat_start bus opened s =
     (if opened \<noteq> 0 then Inl BUG
      else then_run (gpio_set_dir bus led_c1 GPIO_DIR_OUT s) (gpio_set_dir bus led_r1 GPIO_DIR_OUT))"

text \<open>The light is on in the odd seconds. \<open>started\<close> says that the interface of the pins is set.\<close>

definition heartbeat_update :: "(gpio_reg, 'h) bus \<Rightarrow> bool \<Rightarrow> timespec \<Rightarrow> 'h machine \<Rightarrow> (int \<times> 'h machine) run" where
  "heartbeat_update bus started time s =
     (if \<not> started then Inr (0, s)
      else if seconds time AND 1 \<noteq> 0
      then then_run (gpio_out bus led_c1 GPIO_OFF s) (gpio_out bus led_r1 GPIO_ON)
      else then_run (gpio_out bus led_c1 GPIO_ON s) (gpio_out bus led_r1 GPIO_OFF))"

end
