(* ===== verification/Nrf_Spec.thy ===== *)
theory Nrf_Spec
  imports Nrf_Devices "HOL-Library.Multiset"
begin

unbundle bit_operations_syntax

text \<open>
  What the serial line and the random number generator of the nRF51822 promise, whatever their callers, interrupts and
  the devices do in whatever order. Both drivers put data into a buffer under a lock and turn the interrupt on only after
  the lock is released, while the interrupt handler turns it off when it can do no more: that no wake-up is
  lost is part of what is shown.
\<close>

section \<open>Interrupt enable bits\<close>

text \<open>A pair of registers that set and clear the enable bit \<open>k\<close>, as seen by \<open>on\<close>; nothing else changes the bit.\<close>

definition enable_bit :: "('r, 'h) bus \<Rightarrow> 'r \<Rightarrow> 'r \<Rightarrow> nat \<Rightarrow> ('h \<Rightarrow> bool) \<Rightarrow> bool" where
  "enable_bit bus inten_set inten_clr k on \<longleftrightarrow>
     (\<forall>r h. on (snd (peek bus r h)) = on h) \<and>
     (\<forall>r v h. on (poke bus r v h) = (if r = inten_set \<and> bit v k then True
                                     else if r = inten_clr \<and> bit v k then False else on h))"

lemma rd_dev: "rd bus r s = (v, s1) \<Longrightarrow> v = fst (peek bus r (dev s)) \<and> dev s1 = snd (peek bus r (dev s))"
  by (auto simp: rd_def split: prod.splits)

lemma enable_bit_rd: "enable_bit bus a c k on \<Longrightarrow> rd bus r s = (v, s1) \<Longrightarrow> on (dev s1) = on (dev s)"
  by (simp add: enable_bit_def rd_dev)

lemma enable_bit_wr:
  "enable_bit bus a c k on \<Longrightarrow> on (dev (wr bus r v s)) =
     (if r = a \<and> bit v k then True else if r = c \<and> bit v k then False else on (dev s))"
  by (simp add: enable_bit_def wr_def)

lemma more_rd: "rd bus r s = (v, s1) \<Longrightarrow> machine.more s1 = machine.more s"
  by (auto simp: rd_def split: prod.splits)

lemma more_wr [simp]: "machine.more (wr bus r v s) = machine.more s"
  by (simp add: wr_def)

section \<open>Serial line\<close>

text \<open>
  \<open>sent h\<close> is what has been handed to the transmitter so far: writing \<open>TXD\<close> after \<open>TXDRDY\<close> was seen and cleared hands
  it a byte, and nothing else does. \<open>ready h\<close> says that \<open>TXDRDY\<close> is set: the reads and the write of the receiving half
  leave it alone.
\<close>

definition serial_device :: "(nrf_uart_reg, 'h) bus \<Rightarrow> ('h \<Rightarrow> u8 list) \<Rightarrow> ('h \<Rightarrow> bool) \<Rightarrow> ('h \<Rightarrow> bool) \<Rightarrow> bool" where
  "serial_device bus sent tx_on ready \<longleftrightarrow>
     enable_bit bus U_INTENSET U_INTENCLR 7 tx_on \<and>
     (\<forall>r h. sent (snd (peek bus r h)) = sent h) \<and>
     (\<forall>r v h. r \<noteq> U_TXD \<longrightarrow> sent (poke bus r v h) = sent h) \<and>
     (\<forall>v h. fst (peek bus U_TXDRDY h) \<noteq> 0 \<longrightarrow>
        sent (poke bus U_TXD v (poke bus U_TXDRDY 0 (snd (peek bus U_TXDRDY h)))) = sent h @ [ucast v]) \<and>
     (\<forall>h. ready h \<longleftrightarrow> fst (peek bus U_TXDRDY h) \<noteq> 0) \<and>
     (\<forall>h. ready (snd (peek bus U_RXDRDY h)) = ready h \<and> ready (snd (peek bus U_RXD h)) = ready h) \<and>
     (\<forall>v h. ready (poke bus U_RXDRDY v h) = ready h)"

lemma serial_rd:
  assumes "serial_device bus sent tx_on ready" and "rd bus r s = (v, s1)"
  shows "sent (dev s1) = sent (dev s)" and "tx_on (dev s1) = tx_on (dev s)" and "machine.more s1 = machine.more s"
proof -
  show "sent (dev s1) = sent (dev s)"
    using assms by (simp add: serial_device_def rd_dev)
  show "tx_on (dev s1) = tx_on (dev s)" 
    by (rule enable_bit_rd [where a = U_INTENSET and c = U_INTENCLR and k = 7, OF _ assms(2)]) (use assms(1) in \<open>simp add: serial_device_def\<close>)
  show "machine.more s1 = machine.more s" by (rule more_rd [OF assms(2)])
qed

lemma serial_wr:
  assumes "serial_device bus sent tx_on ready"
  shows "r \<noteq> U_TXD \<Longrightarrow> sent (dev (wr bus r v s)) = sent (dev s)"
    and "tx_on (dev (wr bus r v s)) =
      (if r = U_INTENSET \<and> bit v 7 then True else if r = U_INTENCLR \<and> bit v 7 then False else tx_on (dev s))"
proof -
  show "r \<noteq> U_TXD \<Longrightarrow> sent (dev (wr bus r v s)) = sent (dev s)"
    using assms by (simp add: serial_device_def wr_def)
  show "tx_on (dev (wr bus r v s)) =
      (if r = U_INTENSET \<and> bit v 7 then True else if r = U_INTENCLR \<and> bit v 7 then False else tx_on (dev s))"
    by (rule enable_bit_wr) (use assms in \<open>simp add: serial_device_def\<close>)
qed

lemma serial_send:
  assumes "serial_device bus sent tx_on ready" and "rd bus U_TXDRDY s = (t, s1)" and "t \<noteq> 0" and "dev s2 = dev s1"
  shows "sent (dev (wr_all bus [(U_TXDRDY, 0), (U_TXD, v)] s2)) = sent (dev s) @ [ucast v]"
    and "tx_on (dev (wr_all bus [(U_TXDRDY, 0), (U_TXD, v)] s2)) = tx_on (dev s)"
    and "machine.more (wr_all bus [(U_TXDRDY, 0), (U_TXD, v)] s2) = machine.more s2"
proof -
  have p: "peek bus U_TXDRDY (dev s) = (t, dev s1)"
    using rd_dev [OF assms(2)] by simp
  show "sent (dev (wr_all bus [(U_TXDRDY, 0), (U_TXD, v)] s2)) = sent (dev s) @ [ucast v]"
    using assms(1,3,4) p unfolding serial_device_def by (simp add: wr_all_def wr_def) (metis fst_conv snd_conv)
  have "tx_on (dev s2) = tx_on (dev s)" using serial_rd(2) [OF assms(1,2)] assms(4) by simp
  then show "tx_on (dev (wr_all bus [(U_TXDRDY, 0), (U_TXD, v)] s2)) = tx_on (dev s)"
    by (simp add: wr_all_def serial_wr(2) [OF assms(1)])
  show "machine.more (wr_all bus [(U_TXDRDY, 0), (U_TXD, v)] s2) = machine.more s2" by (simp add: wr_all_def)
qed

definition waiting :: "'h nrf_uart \<Rightarrow> u8 list" where
  "waiting s = fifo_bytes (nu_write (nu_ctx s), nu_mem s)"

definition nrf_uart_ok :: "'h nrf_uart \<Rightarrow> bool" where
  "nrf_uart_ok s \<longleftrightarrow> fifo_ok (nu_write (nu_ctx s))"

lemma uart_more:
  "machine.more s = machine.more (t :: 'h nrf_uart) \<Longrightarrow> nu_ctx s = nu_ctx t \<and> nu_mem s = nu_mem t"
  by (cases s; cases t) simp

lemma bit_tx_ready: "bit INTEN_TX_READY 7" "\<not> bit INTEN_RX_READY 7"
  by (simp_all add: INTEN_TX_READY_def INTEN_RX_READY_def bit_simps)

text \<open>An interrupt sends the next byte, or none; it disables itself only when no byte is waiting.\<close>

lemma nrf_uart_IRQ_ok:
  assumes dev: "serial_device bus sent tx_on ready" and ok: "nrf_uart_ok s" and irq: "nrf_uart_IRQ bus s = (r, s')"
  shows "nrf_uart_ok s' \<and> sent (dev s') @ waiting s' = sent (dev s) @ waiting s \<and>
    (tx_on (dev s') = tx_on (dev s) \<or> waiting s' = []) \<and> (waiting s = [] \<longrightarrow> waiting s' = []) \<and>
    (ready (dev s) \<longrightarrow> sent (dev s') = sent (dev s) @ take 1 (waiting s))"
proof -
  obtain rx s1 where s1: "rd bus U_RXDRDY s = (rx, s1)" by (metis surj_pair)
  define s2 where "s2 = (if rx \<noteq> 0 then wr bus U_RXDRDY 0 (snd (rd bus U_RXD s1)) else s1)"
  obtain tx s3 where s3: "rd bus U_TXDRDY s2 = (tx, s3)" by (metis surj_pair)
  obtain x s1' where x: "rd bus U_RXD s1 = (x, s1')" by (metis surj_pair)
  have two: "sent (dev s2) = sent (dev s)" "tx_on (dev s2) = tx_on (dev s)" "machine.more s2 = machine.more s"
    using serial_rd [OF dev s1] serial_rd [OF dev x] by (simp_all add: s2_def x serial_wr [OF dev])
  note three = serial_rd [OF dev s3]
  have law: "ready (snd (peek bus U_RXDRDY h)) = ready h" "ready (snd (peek bus U_RXD h)) = ready h"
    "ready (poke bus U_RXDRDY v h) = ready h" "fst (peek bus U_TXDRDY h) \<noteq> 0 \<longleftrightarrow> ready h" for v h
    using dev unfolding serial_device_def by blast+
  have "ready (dev s2) = ready (dev s)"
    using rd_dev [OF s1] rd_dev [OF x] by (simp add: s2_def x wr_def law)
  then have ready: "ready (dev s) \<longleftrightarrow> tx \<noteq> 0" using rd_dev [OF s3] law(4) by simp
  have same: "nu_ctx s3 = nu_ctx s" "nu_mem s3 = nu_mem s" using uart_more [of s3 s] three(3) two(3) by auto
  show ?thesis
  proof (cases "tx = 0")
    case True
    then have "s' = s3" using irq s1 s3 by (simp add: nrf_uart_IRQ_def s2_def Let_def)
    then show ?thesis using ok two three same ready True by (simp add: nrf_uart_ok_def waiting_def)
  next
    case False
    obtain e b fb where g: "fifo_buffer_getb (nu_write (nu_ctx s)) (nu_mem s) = (e, b, fb)" by (metis surj_pair)
    let ?s4 = "s3\<lparr>nu_ctx := (nu_ctx s3)\<lparr>nu_write := fb\<rparr>\<rparr>"
    have okw: "fifo_ok (nu_write (nu_ctx s))" using ok by (simp add: nrf_uart_ok_def)
    show ?thesis
    proof (cases rule: getb_cases [OF okw g])
      case (1 y)
      then have s': "s' = wr_all bus [(U_TXDRDY, 0), (U_TXD, ucast y)] ?s4"
        using irq s1 s3 g False same by (simp add: nrf_uart_IRQ_def s2_def Let_def)
      note sd = serial_send [OF dev s3 False, of ?s4 "ucast y"]
      have "nu_write (nu_ctx s') = fb" "nu_mem s' = nu_mem s"
        using uart_more [of s' ?s4] sd(3) same by (auto simp: s')
      then show ?thesis using 1 sd two by (simp add: s' nrf_uart_ok_def waiting_def)
    next
      case 2
      then have s': "s' = wr bus U_INTENCLR INTEN_TX_READY ?s4"
        using irq s1 s3 g False same by (simp add: nrf_uart_IRQ_def s2_def Let_def)
      have "nu_write (nu_ctx s') = fb" "nu_mem s' = nu_mem s"
        using uart_more [of s' ?s4] same by (auto simp: s')
      then show ?thesis
        using 2 two three okw by (simp add: s' nrf_uart_ok_def waiting_def serial_wr [OF dev])
    qed
  qed
qed

lemma nrf_write_chunk_ok:
  assumes "nrf_uart_ok s" and "nrf_write_chunk bs s = (rest, s')"
  shows "\<exists>done. bs = done @ rest \<and> nrf_uart_ok s' \<and> waiting s' = waiting s @ done \<and> dev s' = dev s"
proof -
  obtain fb m where p: "put_bytes bs (nu_write (nu_ctx s)) (nu_mem s) = (rest, fb, m)"
    and s': "s' = s\<lparr>nu_ctx := (nu_ctx s)\<lparr>nu_write := fb\<rparr>, nu_mem := m\<rparr>"
    using assms(2) by (auto simp: nrf_write_chunk_def split: prod.splits)
  show ?thesis
    using put_bytes_ok [OF _ p] assms(1) by (auto simp: s' nrf_uart_ok_def waiting_def)
qed

text \<open>How much a writer still has to write, and what one step of it has written.\<close>

fun bytes_left :: "nrf_writer \<Rightarrow> u8 list" where
  "bytes_left (W_Loop bs) = bs"
| "bytes_left (W_Unlocked bs) = bs"
| "bytes_left (W_Done bs) = bs"

definition written :: "nrf_writer \<Rightarrow> nrf_writer \<Rightarrow> u8 list" where
  "written w w' = take (length (bytes_left w) - length (bytes_left w')) (bytes_left w)"

text \<open>A writer that has put bytes into the buffer and is about to enable the interrupt.\<close>

definition enabling :: "nrf_writer list \<Rightarrow> bool" where
  "enabling ws \<longleftrightarrow> (\<exists>rest. W_Unlocked rest \<in> set ws)"

lemma nrf_write_step_ok:
  assumes dev: "serial_device bus sent tx_on ready" and ok: "nrf_uart_ok s" and st: "nrf_write_step bus nonblock w s = (w', s')"
  shows "nrf_uart_ok s' \<and> waiting s' = waiting s @ written w w' \<and> sent (dev s') = sent (dev s) \<and>
    bytes_left w = written w w' @ bytes_left w' \<and>
    (w' \<in> range W_Unlocked \<or> tx_on (dev s') \<or> (waiting s' = waiting s \<and> w \<notin> range W_Unlocked \<and> tx_on (dev s') = tx_on (dev s)))"
proof (cases w)
  case (W_Loop bs)
  show ?thesis
  proof (cases "bs = []")
    case True
    then show ?thesis using st ok W_Loop by (auto simp: written_def)
  next
    case False
    obtain rest s1 where c: "nrf_write_chunk bs s = (rest, s1)" by (metis surj_pair)
    then have "w' = W_Unlocked rest" "s' = s1" using st W_Loop False by simp_all
    then show ?thesis using nrf_write_chunk_ok [OF ok c] W_Loop by (auto simp: written_def)
  qed
next
  case (W_Unlocked rest)
  then have s': "s' = wr bus U_INTENSET INTEN_TX_READY s" and w': "bytes_left w' = rest" using st by (auto split: if_splits)
  have "waiting s' = waiting s" "nrf_uart_ok s' = nrf_uart_ok s" by (simp_all add: s' waiting_def nrf_uart_ok_def wr_def)
  then show ?thesis using ok w' W_Unlocked by (simp add: written_def s' serial_wr [OF dev] bit_tx_ready)
next
  case (W_Done rest)
  then show ?thesis using st ok by (auto simp: written_def)
qed

text \<open>
  Writers that call, writers at any place of \<open>_write\<close>, interrupts, the device on its own, and the rest of the kernel, which
  leaves the buffer alone; with what was accepted and where every writer stands. The flag that a writer was
  opened with is any.
\<close>

inductive nrf_run ::
  "(nrf_uart_reg, 'h) bus \<Rightarrow> ('h \<Rightarrow> u8 list) \<Rightarrow> ('h \<Rightarrow> bool) \<Rightarrow> 'h nrf_uart \<Rightarrow> u8 list \<Rightarrow> nrf_writer list \<Rightarrow> 'h nrf_uart \<Rightarrow> bool"
  for bus sent tx_on s where
  nrf_start: "nrf_run bus sent tx_on s [] [] s"
| nrf_call: "nrf_run bus sent tx_on s acc ws s1 \<Longrightarrow> nrf_run bus sent tx_on s acc (ws @ [W_Loop bs]) s1"
| nrf_write: "nrf_run bus sent tx_on s acc ws s1 \<Longrightarrow> i < length ws \<Longrightarrow> nrf_write_step bus nonblock (ws ! i) s1 = (w, s2) \<Longrightarrow>
    nrf_run bus sent tx_on s (acc @ written (ws ! i) w) (ws[i := w]) s2"
| nrf_irq: "nrf_run bus sent tx_on s acc ws s1 \<Longrightarrow> nrf_uart_IRQ bus s1 = (r, s2) \<Longrightarrow> nrf_run bus sent tx_on s acc ws s2"
| nrf_device: "nrf_run bus sent tx_on s acc ws s1 \<Longrightarrow> sent h = sent (dev s1) \<Longrightarrow> tx_on h = tx_on (dev s1) \<Longrightarrow>
    nrf_run bus sent tx_on s acc ws (s1\<lparr>dev := h\<rparr>)"
| nrf_other: "nrf_run bus sent tx_on s acc ws s1 \<Longrightarrow>
    (\<And>i. i < unat (sz (nu_write (nu_ctx s1))) \<Longrightarrow>
       m (bp (nu_write (nu_ctx s1)) + word_of_nat i) = nu_mem s1 (bp (nu_write (nu_ctx s1)) + word_of_nat i)) \<Longrightarrow>
    nrf_run bus sent tx_on s acc ws (s1\<lparr>nu_mem := m\<rparr>)"

lemma enabling_update:
  assumes "i < length ws" and "enabling ws" and "ws ! i \<notin> range W_Unlocked \<or> w \<in> range W_Unlocked"
  shows "enabling (ws[i := w])"
proof -
  obtain j rest where j: "j < length ws" "ws ! j = W_Unlocked rest" using assms(2) by (auto simp: enabling_def in_set_conv_nth)
  show ?thesis
  proof (cases "j = i")
    case True
    then have "w \<in> range W_Unlocked" using assms(3) j by auto
    then show ?thesis using assms(1) by (auto simp: enabling_def intro: set_update_memI)
  next
    case False
    then have "ws[i := w] ! j = W_Unlocked rest" "j < length (ws[i := w])" using j by simp_all
    then show ?thesis unfolding enabling_def by (metis nth_mem)
  qed
qed

lemma nrf_run_ok:
  assumes dev: "serial_device bus sent tx_on ready" and ok: "nrf_uart_ok s" and on: "waiting s = [] \<or> tx_on (dev s)"
    and "nrf_run bus sent tx_on s acc ws s'"
  shows "nrf_uart_ok s' \<and> sent (dev s') @ waiting s' = sent (dev s) @ waiting s @ acc \<and>
    (waiting s' = [] \<or> tx_on (dev s') \<or> enabling ws)"
  using assms(4)
proof (induction rule: nrf_run.induct)
  case nrf_start
  then show ?case using ok on by auto
next
  case (nrf_call acc ws s1 bs)
  then show ?case by (auto simp: enabling_def)
next
  case (nrf_write acc ws s1 i nonblock w s2)
  then have st: "nrf_uart_ok s2" "waiting s2 = waiting s1 @ written (ws ! i) w" "sent (dev s2) = sent (dev s1)"
    "w \<in> range W_Unlocked \<or> tx_on (dev s2) \<or>
     (waiting s2 = waiting s1 \<and> ws ! i \<notin> range W_Unlocked \<and> tx_on (dev s2) = tx_on (dev s1))"
    using nrf_write_step_ok [OF dev, of s1 nonblock "ws ! i" w s2] by auto
  have "waiting s2 = [] \<or> tx_on (dev s2) \<or> enabling (ws[i := w])"
    using st(4)
  proof (elim disjE)
    assume "w \<in> range W_Unlocked"
    then show ?thesis using nrf_write.hyps(2) by (auto simp: enabling_def intro: set_update_memI)
  next
    assume "waiting s2 = waiting s1 \<and> ws ! i \<notin> range W_Unlocked \<and> tx_on (dev s2) = tx_on (dev s1)"
    then show ?thesis using nrf_write.IH enabling_update [OF nrf_write.hyps(2)] by auto
  qed simp
  then show ?case using st nrf_write.IH by auto
next
  case (nrf_irq acc ws s1 r s2)
  then show ?case using nrf_uart_IRQ_ok [OF dev, of s1 r s2] by auto
next
  case (nrf_device acc ws s1 h)
  then show ?case by (simp add: waiting_def nrf_uart_ok_def)
next
  case (nrf_other acc ws s1 m)
  then have "waiting (s1\<lparr>nu_mem := m\<rparr>) = waiting s1"
    using fifo_bytes_cong [of "nu_write (nu_ctx s1)" m "nu_mem s1"] by (simp add: waiting_def nrf_uart_ok_def)
  then show ?case using nrf_other.IH by (simp add: nrf_uart_ok_def)
qed

text \<open>C38: However writers, interrupts and the transmitter of the nRF51822 take turns, the bytes accepted are sent or
  waiting, in order; while a byte waits the transmit interrupt is on, unless some writer has released the lock and is just about
  to turn it on; and an interrupt that finds the transmitter ready sends the first byte that waits. The run starts with an
  empty buffer or with the interrupt on.\<close>

theorem nrf_uart_no_byte_stuck:
  assumes "serial_device bus sent tx_on ready" and "nrf_uart_ok s" and "waiting s = [] \<or> tx_on (dev s)"
    and "nrf_run bus sent tx_on s acc ws s'"
  shows "nrf_uart_ok s' \<and> sent (dev s') @ waiting s' = sent (dev s) @ waiting s @ acc \<and>
    (waiting s' = [] \<or> tx_on (dev s') \<or> (\<exists>rest. W_Unlocked rest \<in> set ws)) \<and>
    (ready (dev s') \<longrightarrow> sent (dev (snd (nrf_uart_IRQ bus s'))) = sent (dev s') @ take 1 (waiting s'))"
proof -
  note run = nrf_run_ok [OF assms]
  obtain r s'' where "nrf_uart_IRQ bus s' = (r, s'')" by (metis surj_pair)
  then show ?thesis using run nrf_uart_IRQ_ok [OF assms(1), of s' r s''] by (auto simp: enabling_def)
qed

text \<open>A transmitter that is always ready, for the example: what it has sent, and whether its interrupt is on.\<close>

definition ready_serial :: "(nrf_uart_reg, u8 list \<times> bool) bus" where
  "ready_serial = \<lparr>peek = \<lambda>r (b, on). (if r = U_TXDRDY then 1 else 0, b, on),
     poke = \<lambda>r v (b, on). (if r = U_TXD then b @ [ucast v] else b,
        if r = U_INTENSET \<and> bit v 7 then True else if r = U_INTENCLR \<and> bit v 7 then False else on)\<rparr>"

definition demo_serial :: "(u8 list \<times> bool) nrf_uart" where
  "demo_serial = \<lparr>dev = ([], False), nu_ctx = \<lparr>nu_read = zero_fifo,
     nu_write = \<lparr>bp = 0x20000800, ri = 0, wi = 0, sz = 4, rsz = 0, wsz = 4\<rparr>, nu_flags = NU_CONSOLE\<rparr>, nu_mem = (\<lambda>_. 0)\<rparr>"

lemma ready_serial_device: "serial_device ready_serial fst snd (\<lambda>_. True)"
  by (auto simp: serial_device_def enable_bit_def ready_serial_def split: prod.splits)

text \<open>A writer puts two bytes, turns the interrupt on and returns; the next interrupt sends the first of them.\<close>

theorem nrf_uart_no_byte_stuck_witness:
  "\<exists>s1 s2. nrf_write_step ready_serial False (W_Loop [65, 66]) demo_serial = (W_Unlocked [], s1) \<and>
     nrf_write_step ready_serial False (W_Unlocked []) s1 = (W_Done [], s2) \<and>
     waiting s2 = [65, 66] \<and> snd (dev s2) \<and> fst (dev (snd (nrf_uart_IRQ ready_serial s2))) = [65]"
proof -
  obtain rest s1 where w: "nrf_write_chunk [65, 66] demo_serial = (rest, s1)" by (metis surj_pair)
  then have rest: "rest = []" and dev: "dev s1 = ([], False)"
    by (auto simp: nrf_write_chunk_def demo_serial_def fifo_buffer_putb_def fifo_codes Let_def)
  let ?ws = "[W_Loop [65, 66]]" and ?s2 = "wr ready_serial U_INTENSET INTEN_TX_READY s1"
  have 1: "nrf_write_step ready_serial False (?ws ! 0) demo_serial = (W_Unlocked [], s1)" using w rest by simp
  have 2: "nrf_write_step ready_serial False ([W_Unlocked []] ! 0) s1 = (W_Done [], ?s2)" by simp
  have "nrf_run ready_serial fst snd demo_serial [] ?ws demo_serial" using nrf_call [OF nrf_start, where bs = "[65, 66]"] by simp
  from nrf_write [OF this _ 1] have "nrf_run ready_serial fst snd demo_serial [65, 66] [W_Unlocked []] s1" by (simp add: written_def)
  from nrf_write [OF this _ 2] have run: "nrf_run ready_serial fst snd demo_serial [65, 66] [W_Done []] ?s2"
    by (simp add: written_def)
  have ok: "nrf_uart_ok demo_serial" "waiting demo_serial = [] \<or> snd (dev demo_serial)" "waiting demo_serial = []"
    "dev demo_serial = ([], False)"
    by (simp_all add: demo_serial_def nrf_uart_ok_def waiting_def fifo_ok_def fifo_bytes_def)
  note concl = nrf_uart_no_byte_stuck [OF ready_serial_device ok(1,2) run]
  have d2: "dev ?s2 = ([], True)" by (simp add: wr_def dev ready_serial_def bit_tx_ready)
  then have "waiting ?s2 = [65, 66]" using concl ok(3,4) by simp
  then show ?thesis using concl d2 1 by (intro exI [of _ s1] exI [of _ ?s2]) simp
qed

text \<open>A blocking write returns with every byte accepted when there is room whenever it has yielded, also when it finds the buffer full.\<close>

lemma nrf_write_chunk_progress:
  assumes "nrf_uart_ok s" and "unat (rsz (nu_write (nu_ctx s))) < unat (sz (nu_write (nu_ctx s)))" and "bs \<noteq> []"
    and "nrf_write_chunk bs s = (rest, s')"
  shows "length rest < length bs"
  using put_bytes_progress [of "nu_write (nu_ctx s)" bs "nu_mem s"] assms
  by (auto simp: nrf_write_chunk_def nrf_uart_ok_def split: prod.splits)

definition room :: "'h nrf_uart \<Rightarrow> bool" where
  "room s \<longleftrightarrow> unat (rsz (nu_write (nu_ctx s))) < unat (sz (nu_write (nu_ctx s)))"

lemma nrf_write_loop_done [simp]: "nrf_write_loop bus others nonblock (W_Done rest) s = Some (rest, s)"
  by (subst nrf_write_loop.simps) simp

lemma nrf_write_loop_round:
  assumes "bs \<noteq> []" and "nrf_write_chunk bs s = (rest, s1)"
  shows "nrf_write_loop bus others False (W_Loop bs) s =
    (let w = if rest = [] then W_Done [] else W_Loop rest
     in nrf_write_loop bus others False w (others w (wr bus U_INTENSET INTEN_TX_READY (others (W_Unlocked rest) s1))))"
proof -
  have "nrf_write_loop bus others False (W_Unlocked rest) t =
      (let w = if rest = [] then W_Done [] else W_Loop rest
       in nrf_write_loop bus others False w (others w (wr bus U_INTENSET INTEN_TX_READY t)))" for t
    by (subst nrf_write_loop.simps) (simp add: Let_def)
  then show ?thesis using assms by (subst nrf_write_loop.simps) simp
qed

lemma nrf_write_loop_all:
  assumes others: "\<And>w s1. nrf_uart_ok s1 \<Longrightarrow> nrf_uart_ok (others w s1)"
    and yields: "\<And>bs s1. nrf_uart_ok s1 \<Longrightarrow> room (others (W_Loop bs) s1)"
    and "nrf_uart_ok s"
  shows "\<exists>s'. nrf_write_loop bus others False (W_Loop bs) s = Some ([], s')"
proof -
  have enable: "nrf_uart_ok (wr bus U_INTENSET INTEN_TX_READY s1) = nrf_uart_ok s1" for s1
    by (simp add: nrf_uart_ok_def wr_def)
  have nil: "nrf_write_loop bus others False (W_Loop []) s = Some ([], others (W_Done []) s)" for s
    by (subst nrf_write_loop.simps) simp
  have roomy: "\<exists>s'. nrf_write_loop bus others False (W_Loop bs) s = Some ([], s')" if "room s" "nrf_uart_ok s" for bs s
    using that
  proof (induction "length bs" arbitrary: bs s rule: less_induct)
    case less
    show ?case
    proof (cases "bs = []")
      case False
      obtain rest s1 where w: "nrf_write_chunk bs s = (rest, s1)" by (metis surj_pair)
      have "nrf_uart_ok s1" using nrf_write_chunk_ok [OF less.prems(2) w] by blast
      moreover have "length rest < length bs"
        using nrf_write_chunk_progress [OF less.prems(2) _ False w] less.prems(1) by (simp add: room_def)
      ultimately show ?thesis
        using less.hyps yields others by (simp add: nrf_write_loop_round [OF False w] Let_def enable)
    qed (simp add: nil)
  qed
  show ?thesis
  proof (cases "bs = []")
    case False
    obtain rest s1 where w: "nrf_write_chunk bs s = (rest, s1)" by (metis surj_pair)
    have "nrf_uart_ok s1" using nrf_write_chunk_ok [OF assms(3) w] by blast
    then show ?thesis using roomy yields others by (simp add: nrf_write_loop_round [OF False w] Let_def enable)
  qed (simp add: nil)
qed

text \<open>
  A development console that is opened before the serial console has no buffers: its context is all zeros. A write to
  it waits for ever, whoever runs meanwhile.
\<close>

lemma dev_console_write_never_returns:
  assumes "wsz (nu_write (nu_ctx s)) = 0" and "bs \<noteq> []"
    and unset: "\<And>w s1. wsz (nu_write (nu_ctx s1)) = 0 \<Longrightarrow> wsz (nu_write (nu_ctx (others w s1))) = 0"
  shows "nrf_write_loop bus others False (W_Loop bs) s = None"
proof -
  let ?at = "\<lambda>w. w = W_Loop bs \<or> w = W_Unlocked bs"
  have stuck: "nrf_write_chunk bs s = (bs, s)" if "wsz (nu_write (nu_ctx s)) = 0" for s :: "'a nrf_uart"
    using that assms(2) by (cases bs) (simp_all add: nrf_write_chunk_def fifo_buffer_putb_def fifo_codes)
  have never: "\<not> (oth = others \<and> nb = False \<and> ?at w \<and> wsz (nu_write (nu_ctx t)) = 0)"
    if "nrf_write_loop b oth nb w t = Some r" for b oth nb w t r
  proof (rule nrf_write_loop.raw_induct [where P = "\<lambda>b oth nb w t r.
      \<not> (oth = others \<and> nb = False \<and> ?at w \<and> wsz (nu_write (nu_ctx t)) = 0)", OF _ that], rule notI)
    fix loop and b oth nb w and t :: "'a nrf_uart" and r
    assume IH: "\<And>b oth nb w t r. loop b oth nb w t = Some r \<Longrightarrow> \<not> (oth = others \<and> nb = False \<and> ?at w \<and> wsz (nu_write (nu_ctx t)) = 0)"
      and step: "(case w of W_Done rest \<Rightarrow> Some (rest, t)
        | _ \<Rightarrow> case nrf_write_step b nb w t of (w', s1) \<Rightarrow> loop b oth nb w' (oth w' s1)) = Some r"
      and eq: "oth = others \<and> nb = False \<and> ?at w \<and> wsz (nu_write (nu_ctx t)) = 0"
    obtain w' s1 where st: "nrf_write_step b nb w t = (w', s1)" by (metis surj_pair)
    have "?at w'" "wsz (nu_write (nu_ctx s1)) = 0" using st eq stuck assms(2) by (auto simp: wr_def)
    moreover have "loop b oth nb w' (oth w' s1) = Some r" using step eq st by (auto split: nrf_writer.splits)
    ultimately show False using IH unset eq by blast
  qed
  show ?thesis
    using never [of bus others False "W_Loop bs" s] assms(1) by (cases "nrf_write_loop bus others False (W_Loop bs) s") auto
qed

section \<open>Random numbers\<close>

text \<open>
  The generator makes bytes by itself, at any moment: \<open>gen h\<close> is all it has made so far and \<open>event h\<close> its event \<open>VALRDY\<close>,
  which every new byte sets and only the driver clears. \<open>VALUE\<close> holds the last byte made. At any access to a register
  new bytes may have come before it.
\<close>

definition random_device :: "(hwrng_reg, 'h) bus \<Rightarrow> ('h \<Rightarrow> u8 list) \<Rightarrow> ('h \<Rightarrow> bool) \<Rightarrow> ('h \<Rightarrow> bool) \<Rightarrow> bool" where
  "random_device bus gen event rng_on \<longleftrightarrow>
     enable_bit bus RNG_INTENSET RNG_INTENCLR 0 rng_on \<and>
     (\<forall>r h. \<exists>new. gen (snd (peek bus r h)) = gen h @ new \<and> event (snd (peek bus r h)) = (event h \<or> new \<noteq> [])) \<and>
     (\<forall>h. fst (peek bus RNG_VALRDY h) \<noteq> 0 \<longleftrightarrow> event (snd (peek bus RNG_VALRDY h))) \<and>
     (\<forall>h. gen (snd (peek bus RNG_VALUE h)) \<noteq> [] \<longrightarrow> ucast (fst (peek bus RNG_VALUE h)) = last (gen (snd (peek bus RNG_VALUE h)))) \<and>
     (\<forall>r v h. r \<noteq> RNG_VALRDY \<or> v \<noteq> 0 \<longrightarrow>
        (\<exists>new. gen (poke bus r v h) = gen h @ new \<and> event (poke bus r v h) = (event h \<or> new \<noteq> []))) \<and>
     (\<forall>h. \<exists>before after. gen (poke bus RNG_VALRDY 0 h) = gen h @ before @ after \<and>
        event (poke bus RNG_VALRDY 0 h) = (after \<noteq> []))"

lemma random_on:
  assumes "random_device bus gen event rng_on"
  shows "rd bus r s = (v, s1) \<Longrightarrow> rng_on (dev s1) = rng_on (dev s)"
    and "rng_on (dev (wr bus r v s)) =
      (if r = RNG_INTENSET \<and> bit v 0 then True else if r = RNG_INTENCLR \<and> bit v 0 then False else rng_on (dev s))"
  using assms by (simp_all add: random_device_def enable_bit_def rd_dev wr_def)

text \<open>
  What the invariant says of the device: \<open>past\<close> holds every byte that was made up to the last one taken, and the byte behind a set event
  is not among them.
\<close>

definition unused :: "('h \<Rightarrow> u8 list) \<Rightarrow> ('h \<Rightarrow> bool) \<Rightarrow> u8 list \<Rightarrow> 'h \<Rightarrow> bool" where
  "unused gen event past h \<longleftrightarrow> (\<exists>rest. gen h = past @ rest \<and> (event h \<longrightarrow> rest \<noteq> []))"

lemma unused_more:
  "unused gen event past h \<Longrightarrow> gen h' = gen h @ new \<Longrightarrow> event h' = (event h \<or> new \<noteq> []) \<Longrightarrow> unused gen event past h'"
  by (auto simp: unused_def)

lemma unused_rd:
  assumes "random_device bus gen event rng_on" and "unused gen event past (dev s)" and "rd bus r s = (v, s1)"
  shows "unused gen event past (dev s1)" and "event (dev s) \<Longrightarrow> event (dev s1)"
proof -
  obtain new where new: "gen (dev s1) = gen (dev s) @ new" "event (dev s1) = (event (dev s) \<or> new \<noteq> [])"
    using assms(1,3) unfolding random_device_def by (metis rd_dev)
  show "unused gen event past (dev s1)" by (rule unused_more [OF assms(2) new])
  show "event (dev s) \<Longrightarrow> event (dev s1)" using new(2) by simp
qed

lemma unused_wr:
  assumes "random_device bus gen event rng_on" and "unused gen event past (dev s)" and "r \<noteq> RNG_VALRDY"
  shows "unused gen event past (dev (wr bus r v s))"
proof -
  obtain new where "gen (poke bus r v (dev s)) = gen (dev s) @ new" "event (poke bus r v (dev s)) = (event (dev s) \<or> new \<noteq> [])"
    using assms(1,3) unfolding random_device_def by meson
  then show ?thesis using unused_more [OF assms(2)] by (simp add: wr_def)
qed

lemma unused_clear:
  assumes "random_device bus gen event rng_on" and "gen (dev s) = past"
  shows "unused gen event past (dev (wr bus RNG_VALRDY 0 s))"
proof -
  obtain a b where "gen (poke bus RNG_VALRDY 0 (dev s)) = gen (dev s) @ a @ b" "event (poke bus RNG_VALRDY 0 (dev s)) = (b \<noteq> [])"
    using assms(1) unfolding random_device_def by meson
  then show ?thesis using assms(2) by (auto simp: unused_def wr_def)
qed

definition rng_ok :: "'h hwrng \<Rightarrow> bool" where
  "rng_ok s \<longleftrightarrow> fifo_ok (rng_buffer (rng_ctx s))"

definition pool :: "'h hwrng \<Rightarrow> u8 list" where
  "pool s = fifo_bytes (rng_buffer (rng_ctx s), rng_mem s)"

definition pool_full :: "'h hwrng \<Rightarrow> bool" where
  "pool_full s \<longleftrightarrow> unat (rsz (rng_buffer (rng_ctx s))) = unat (sz (rng_buffer (rng_ctx s)))"

lemma rng_more:
  "machine.more s = machine.more (t :: 'h hwrng) \<Longrightarrow> rng_ctx s = rng_ctx t \<and> rng_mem s = rng_mem t"
  by (cases s; cases t) simp

text \<open>
  An interrupt adds the last byte that was made to the buffer if there is an event and room, and disables itself only when the
  buffer is full; no byte is taken a second time.
\<close>

lemma hwrng_IRQ_ok:
  assumes dev: "random_device bus gen event rng_on" and ok: "rng_ok s" and un: "unused gen event past (dev s)"
    and irq: "hwrng_IRQ bus s = (r, s')"
  shows "\<exists>kept skipped. rng_ok s' \<and> unused gen event (past @ skipped @ kept) (dev s') \<and> pool s' = pool s @ kept \<and>
    (pool_full s' \<or> (rng_on (dev s') = rng_on (dev s) \<and> \<not> pool_full s)) \<and>
    (event (dev s) \<and> \<not> pool_full s \<longrightarrow> length kept = 1)"
proof -
  obtain rdy s1 where s1: "rd bus RNG_VALRDY s = (rdy, s1)" by (metis surj_pair)
  note one = unused_rd [OF dev un s1] random_on(1) [OF dev s1]
  have same1: "rng_ctx s1 = rng_ctx s" "rng_mem s1 = rng_mem s" using rng_more [OF more_rd [OF s1]] by auto
  have event: "rdy \<noteq> 0 \<longleftrightarrow> event (dev s1)" using dev rd_dev [OF s1] by (simp add: random_device_def)
  have okb: "fifo_ok (rng_buffer (rng_ctx s))" using ok by (simp add: rng_ok_def)
  show ?thesis
  proof (cases "rdy = 0")
    case True
    then have "s' = s1" using irq s1 by (simp add: hwrng_IRQ_def)
    then show ?thesis
      using ok one same1 event True by (intro exI [of _ "[]"]) (auto simp: rng_ok_def pool_def pool_full_def)
  next
    case False
    obtain v s2 where s2: "rd bus RNG_VALUE s1 = (v, s2)" by (metis surj_pair)
    note two = unused_rd [OF dev one(1) s2] random_on(1) [OF dev s2]
    have same: "rng_ctx s2 = rng_ctx s" "rng_mem s2 = rng_mem s" using rng_more [OF more_rd [OF s2]] same1 by auto
    obtain rest where rest: "gen (dev s2) = past @ rest" "rest \<noteq> []" using two event False by (auto simp: unused_def)
    have "ucast v = last (gen (dev s2))" using dev rd_dev [OF s2] rest by (simp add: random_device_def)
    then have v: "gen (dev s2) = past @ butlast rest @ [ucast v]" using rest by simp
    obtain e fb m where p: "fifo_buffer_putb (rng_buffer (rng_ctx s)) (ucast v) (rng_mem s) = (e, fb, m)"
      by (metis surj_pair)
    let ?s3 = "s2\<lparr>rng_ctx := (rng_ctx s)\<lparr>rng_buffer := fb\<rparr>, rng_mem := m\<rparr>"
    show ?thesis
    proof (cases rule: putb_cases [OF okb p])
      case 1
      then have s': "s' = wr bus RNG_VALRDY 0 ?s3"
        using irq s1 s2 p False same by (simp add: hwrng_IRQ_def Let_def)
      have ctx: "rng_buffer (rng_ctx s') = fb" "rng_mem s' = m" by (simp_all add: s' wr_def)
      have "unat (rsz fb) \<le> unat (sz fb)" using 1(2) by (auto simp: fifo_ok_def)
      then have "\<not> pool_full s" using 1(4,7) by (simp add: pool_full_def)
      moreover have "pool s' = pool s @ [ucast v]" using 1(5) by (simp add: pool_def ctx)
      moreover have "unused gen event (past @ butlast rest @ [ucast v]) (dev s')"
        unfolding s' by (rule unused_clear [OF dev]) (simp add: v)
      moreover have "rng_on (dev s') = rng_on (dev s)" using one two by (simp add: s' random_on(2) [OF dev])
      moreover have "rng_ok s'" using 1(2) by (simp add: rng_ok_def ctx)
      ultimately show ?thesis by (intro exI [of _ "[ucast v]"] exI [of _ "butlast rest"]) simp
    next
      case 2
      then have s': "s' = wr bus RNG_INTENCLR 1 ?s3"
        using irq s1 s2 p False same by (simp add: hwrng_IRQ_def Let_def)
      have ctx: "rng_buffer (rng_ctx s') = fb" "rng_mem s' = m" by (simp_all add: s' wr_def)
      have "pool_full s'" "pool_full s" using 2 by (simp_all add: pool_full_def ctx)
      moreover have "pool s' = pool s" "rng_ok s'" using 2 okb by (simp_all add: pool_def rng_ok_def ctx)
      moreover have "unused gen event past (dev s')" unfolding s' by (rule unused_wr [OF dev]) (use two in simp_all)
      ultimately show ?thesis by (intro exI [of _ "[]"]) simp
    qed
  qed
qed

lemma hwrng_read_chunk_ok:
  assumes "rng_ok s" and "hwrng_read_chunk n s = (bs, s')"
  shows "rng_ok s' \<and> pool s = bs @ pool s' \<and> dev s' = dev s"
proof -
  obtain fb where g: "get_bytes n (rng_buffer (rng_ctx s)) (rng_mem s) = (bs, fb)"
    and s': "s' = s\<lparr>rng_ctx := (rng_ctx s)\<lparr>rng_buffer := fb\<rparr>\<rparr>"
    using assms(2) by (auto simp: hwrng_read_chunk_def split: prod.splits)
  show ?thesis using get_bytes_ok [OF _ g] assms(1) by (simp add: s' rng_ok_def pool_def)
qed

text \<open>The bytes a reader has got.\<close>

fun got :: "rng_reader \<Rightarrow> u8 list" where
  "got (R_Loop n acc) = acc"
| "got (R_Unlocked n acc) = acc"
| "got (R_Done acc) = acc"

text \<open>A reader that has taken bytes and is about to enable the interrupt.\<close>

fun unlocked :: "rng_reader \<Rightarrow> bool" where
  "unlocked (R_Unlocked n acc) = True"
| "unlocked (R_Loop n acc) = False"
| "unlocked (R_Done acc) = False"

lemma unlocked_iff: "unlocked p \<longleftrightarrow> (\<exists>n acc. p = R_Unlocked n acc)"
  by (cases p) auto

lemma hwrng_read_step_ok:
  assumes dev: "random_device bus gen event rng_on" and ok: "rng_ok s" and un: "unused gen event past (dev s)"
    and st: "hwrng_read_step bus nonblock p s = (p', s')"
  shows "\<exists>bs. rng_ok s' \<and> got p' = got p @ bs \<and> pool s = bs @ pool s' \<and> unused gen event past (dev s') \<and>
    (unlocked p' \<or> rng_on (dev s') \<or>
     (pool_full s' = pool_full s \<and> \<not> unlocked p \<and> rng_on (dev s') = rng_on (dev s)))"
proof (cases p)
  case (R_Loop n acc)
  show ?thesis
  proof (cases "n = 0")
    case True
    then show ?thesis using st ok un R_Loop by auto
  next
    case False
    obtain bs s1 where c: "hwrng_read_chunk n s = (bs, s1)" by (metis surj_pair)
    then have "p' = R_Unlocked (n - length bs) (acc @ bs)" "s' = s1" using st R_Loop False by simp_all
    then show ?thesis using hwrng_read_chunk_ok [OF ok c] R_Loop un by (intro exI [of _ bs]) force
  qed
next
  case (R_Unlocked n acc)
  then have s': "s' = wr bus RNG_INTENSET 1 s" and p': "got p' = acc" using st by (auto split: if_splits)
  have "pool s' = pool s" "rng_ok s' = rng_ok s" by (simp_all add: s' pool_def rng_ok_def wr_def)
  moreover have "unused gen event past (dev s')" unfolding s' by (rule unused_wr [OF dev un]) simp
  ultimately show ?thesis using ok p' R_Unlocked by (simp add: s' random_on(2) [OF dev])
next
  case (R_Done acc)
  then show ?thesis using st ok un by auto
qed

text \<open>Runs, with what was delivered, in order, and where every reader stands.\<close>

inductive rng_run ::
  "(hwrng_reg, 'h) bus \<Rightarrow> ('h \<Rightarrow> u8 list) \<Rightarrow> ('h \<Rightarrow> bool) \<Rightarrow> ('h \<Rightarrow> bool) \<Rightarrow> 'h hwrng \<Rightarrow> u8 list \<Rightarrow> rng_reader list \<Rightarrow>
   'h hwrng \<Rightarrow> bool"
  for bus gen event rng_on s where
  rng_start: "rng_run bus gen event rng_on s [] [] s"
| rng_call: "rng_run bus gen event rng_on s del ps s1 \<Longrightarrow> rng_run bus gen event rng_on s del (ps @ [R_Loop n []]) s1"
| rng_read: "rng_run bus gen event rng_on s del ps s1 \<Longrightarrow> i < length ps \<Longrightarrow>
    hwrng_read_step bus nonblock (ps ! i) s1 = (p, s2) \<Longrightarrow>
    rng_run bus gen event rng_on s (del @ drop (length (got (ps ! i))) (got p)) (ps[i := p]) s2"
| rng_irq: "rng_run bus gen event rng_on s del ps s1 \<Longrightarrow> hwrng_IRQ bus s1 = (r, s2) \<Longrightarrow>
    rng_run bus gen event rng_on s del ps s2"
| rng_device: "rng_run bus gen event rng_on s del ps s1 \<Longrightarrow> gen h = gen (dev s1) @ new \<Longrightarrow>
    event h = (event (dev s1) \<or> new \<noteq> []) \<Longrightarrow> rng_on h = rng_on (dev s1) \<Longrightarrow>
    rng_run bus gen event rng_on s del ps (s1\<lparr>dev := h\<rparr>)"
| rng_other: "rng_run bus gen event rng_on s del ps s1 \<Longrightarrow>
    (\<And>i. i < unat (sz (rng_buffer (rng_ctx s1))) \<Longrightarrow>
       m (bp (rng_buffer (rng_ctx s1)) + word_of_nat i) = rng_mem s1 (bp (rng_buffer (rng_ctx s1)) + word_of_nat i)) \<Longrightarrow>
    rng_run bus gen event rng_on s del ps (s1\<lparr>rng_mem := m\<rparr>)"

definition reader_enabling :: "rng_reader list \<Rightarrow> bool" where
  "reader_enabling ps \<longleftrightarrow> (\<exists>p \<in> set ps. unlocked p)"

lemma reader_enabling_update:
  assumes "i < length ps" and "reader_enabling ps" and "\<not> unlocked (ps ! i)"
  shows "reader_enabling (ps[i := p])"
proof -
  obtain j where j: "j < length ps" "unlocked (ps ! j)"
    using assms(2) by (metis reader_enabling_def in_set_conv_nth)
  then have "unlocked (ps[i := p] ! j)" "j < length (ps[i := p])" using assms(3) by (cases "j = i", auto)
  then show ?thesis unfolding reader_enabling_def by (metis nth_mem)
qed

text \<open>What all readers have got together.\<close>

definition all_got :: "rng_reader list \<Rightarrow> u8 multiset" where
  "all_got ps = mset (concat (map got ps))"

lemma all_got_update:
  assumes "i < length ps" and "got p = got (ps ! i) @ bs"
  shows "all_got (ps[i := p]) = all_got ps + mset bs"
  using assms
proof (induction ps arbitrary: i)
  case (Cons q ps)
  then show ?case by (cases i) (auto simp: all_got_def)
qed simp

lemma rng_run_ok:
  assumes dev: "random_device bus gen event rng_on" and "rng_ok s" and "pool s = []" and "gen (dev s) = []"
    and "\<not> event (dev s)" and "pool_full s \<or> rng_on (dev s)" and "rng_run bus gen event rng_on s del ps s'"
  shows "\<exists>past. rng_ok s' \<and> unused gen event past (dev s') \<and> subseq (del @ pool s') past \<and> all_got ps = mset del \<and>
    (pool_full s' \<or> rng_on (dev s') \<or> reader_enabling ps)"
  using assms(7)
proof (induction rule: rng_run.induct)
  case rng_start
  then show ?case using assms(2-6) by (intro exI [of _ "[]"]) (auto simp: unused_def all_got_def)
next
  case (rng_call del ps s1 n)
  then show ?case by (auto simp: reader_enabling_def all_got_def)
next
  case (rng_read del ps s1 i nonblock p s2)
  then obtain past where IH: "rng_ok s1" "unused gen event past (dev s1)" "subseq (del @ pool s1) past" "all_got ps = mset del"
    "pool_full s1 \<or> rng_on (dev s1) \<or> reader_enabling ps" by blast
  from hwrng_read_step_ok [OF dev IH(1,2) rng_read.hyps(3)] obtain bs where st: "rng_ok s2" "got p = got (ps ! i) @ bs"
    "pool s1 = bs @ pool s2" "unused gen event past (dev s2)"
    "unlocked p \<or> rng_on (dev s2) \<or>
     (pool_full s2 = pool_full s1 \<and> \<not> unlocked (ps ! i) \<and> rng_on (dev s2) = rng_on (dev s1))" by blast
  have "pool_full s2 \<or> rng_on (dev s2) \<or> reader_enabling (ps[i := p])"
    using st(5)
  proof (elim disjE)
    assume "unlocked p"
    then show ?thesis
      unfolding reader_enabling_def using rng_read.hyps(2) by (blast intro: set_update_memI)
  next
    assume "pool_full s2 = pool_full s1 \<and> \<not> unlocked (ps ! i) \<and> rng_on (dev s2) = rng_on (dev s1)"
    then show ?thesis using IH(5) reader_enabling_update [OF rng_read.hyps(2)] by auto
  qed simp
  then show ?case using IH st all_got_update [OF rng_read.hyps(2) st(2)] by (intro exI [of _ past]) simp
next
  case (rng_irq del ps s1 r s2)
  then obtain past where IH: "rng_ok s1" "unused gen event past (dev s1)" "subseq (del @ pool s1) past" "all_got ps = mset del"
    "pool_full s1 \<or> rng_on (dev s1) \<or> reader_enabling ps" by blast
  from hwrng_IRQ_ok [OF dev IH(1,2) rng_irq.hyps(2)] obtain kept skipped where k: "rng_ok s2"
    "unused gen event (past @ skipped @ kept) (dev s2)" "pool s2 = pool s1 @ kept"
    "pool_full s2 \<or> (rng_on (dev s2) = rng_on (dev s1) \<and> \<not> pool_full s1)" by blast
  have "subseq ((del @ pool s1) @ kept) (past @ skipped @ kept)"
    by (rule list_emb_append_mono [OF IH(3)]) (rule list_emb_append2, simp)
  then show ?case using k IH by (intro exI [of _ "past @ skipped @ kept"]) auto
next
  case (rng_device del ps s1 h new)
  then obtain past where "rng_ok s1" "unused gen event past (dev s1)" "subseq (del @ pool s1) past" "all_got ps = mset del"
    "pool_full s1 \<or> rng_on (dev s1) \<or> reader_enabling ps" by blast
  moreover have "unused gen event past h" using calculation(2) rng_device.hyps(2,3) by (rule unused_more)
  ultimately show ?case using rng_device.hyps by (intro exI [of _ past]) (auto simp: pool_def rng_ok_def pool_full_def)
next
  case (rng_other del ps s1 m)
  then have "pool (s1\<lparr>rng_mem := m\<rparr>) = pool s1"
    using fifo_bytes_cong [of "rng_buffer (rng_ctx s1)" m "rng_mem s1"] by (auto simp: pool_def rng_ok_def)
  then show ?case using rng_other.IH by (auto simp: rng_ok_def pool_full_def)
qed


text \<open>A generator that makes no byte by itself, for the example: what it has made, its event and its interrupt.\<close>

definition quiet_rng :: "(hwrng_reg, u8 list \<times> bool \<times> bool) bus" where
  "quiet_rng = \<lparr>peek = \<lambda>r (g, f, on). (if r = RNG_VALUE then (if g = [] then 0 else ucast (last g)) else if f then 1 else 0, g, f, on),
     poke = \<lambda>r v (g, f, on). (g, if r = RNG_VALRDY \<and> v = 0 then False else f,
        if r = RNG_INTENSET \<and> bit v 0 then True else if r = RNG_INTENCLR \<and> bit v 0 then False else on)\<rparr>"

definition demo_rng :: "(u8 list \<times> bool \<times> bool) hwrng" where
  "demo_rng = \<lparr>dev = ([], False, True), rng_ctx = \<lparr>rng_buffer = \<lparr>bp = 0x20000800, ri = 0, wi = 0, sz = 4, rsz = 0, wsz = 4\<rparr>,
     rng_flags = 0\<rparr>, rng_mem = (\<lambda>_. 0)\<rparr>"

lemma quiet_rng_device: "random_device quiet_rng fst (\<lambda>h. fst (snd h)) (\<lambda>h. snd (snd h))"
  by (auto simp: random_device_def enable_bit_def quiet_rng_def split: prod.splits)


section \<open>The light\<close>

text \<open>\<open>outs\<close> is what the pins are driven to.\<close>

definition pins_device :: "(gpio_reg, 'h) bus \<Rightarrow> ('h \<Rightarrow> u32) \<Rightarrow> bool" where
  "pins_device bus outs \<longleftrightarrow> (\<forall>r v h. outs (poke bus r v h) =
     (if r = GPIO_OUTSET then outs h OR v else if r = GPIO_OUTCLR then outs h AND NOT v else outs h))"

lemma pins_out:
  assumes "pins_device bus outs" and "pin_ok gpio"
  shows "\<exists>s'. gpio_out bus gpio out s = Inr (0, s') \<and>
    (\<forall>n. bit (outs (dev s')) n = (if n = nat gpio then out \<noteq> 0 else bit (outs (dev s)) n))"
  using assms by (auto simp: gpio_out_def pins_device_def wr_def pin_ok_def BIT_def bit_simps dest: bit_imp_le_length)

text \<open>The light is on, its row driven and its column not, exactly in the odd seconds; no other pin changes.\<close>

lemma heartbeat_light:
  assumes "pins_device bus outs"
  shows "\<exists>s'. heartbeat_update bus True time s = Inr (0, s') \<and>
    bit (outs (dev s')) 13 = bit (seconds time) 0 \<and> bit (outs (dev s')) 4 = (\<not> bit (seconds time) 0) \<and>
    (\<forall>n. n \<notin> {4, 13} \<longrightarrow> bit (outs (dev s')) n = bit (outs (dev s)) n)"
proof -
  have pins: "pin_ok led_c1" "pin_ok led_r1" "nat led_c1 = 4" "nat led_r1 = 13"
    by (simp_all add: pin_ok_def led_c1_def led_r1_def)
  have odd: "seconds time AND 1 \<noteq> 0 \<longleftrightarrow> bit (seconds time) 0" by (simp add: and_one_eq odd_iff_mod_2_eq_one bit_0)
  obtain a b where ab: "(a = GPIO_OFF \<and> b = GPIO_ON \<and> bit (seconds time) 0) \<or> (a = GPIO_ON \<and> b = GPIO_OFF \<and> \<not> bit (seconds time) 0)"
    by blast
  obtain s1 where s1: "gpio_out bus led_c1 a s = Inr (0, s1)"
    "\<And>n. bit (outs (dev s1)) n = (if n = 4 then a \<noteq> 0 else bit (outs (dev s)) n)"
    using pins_out [OF assms pins(1), of a s] pins(3) by auto
  obtain s2 where s2: "gpio_out bus led_r1 b s1 = Inr (0, s2)"
    "\<And>n. bit (outs (dev s2)) n = (if n = 13 then b \<noteq> 0 else bit (outs (dev s1)) n)"
    using pins_out [OF assms pins(2), of b s1] pins(4) by auto
  have "heartbeat_update bus True time s = Inr (0, s2)"
    using ab s1(1) s2(1) odd by (auto simp: heartbeat_update_def then_run_def)
  then show ?thesis using ab by (intro exI [of _ s2]) (auto simp: s1(2) s2(2) GPIO_OFF_def GPIO_ON_def)
qed

end
