(* ===== verification/Register_Map.thy ===== *)
theory Register_Map
  imports Timer_Drivers Irq_Controllers Nrf_Devices Uart
begin

unbundle bit_operations_syntax

text \<open>
  Where the registers are: the structures the drivers lay over device memory, field by field as the headers declare
  them, and the address each register of a driver gets from them. Headers: \<open>drivers/arm/gic/regs.h\<close>,
  \<open>drivers/ti/omap/omap3/interrupt_controller/regs.h\<close>, \<open>drivers/ti/omap/timer/regs.h\<close> and \<open>sync_regs.h\<close>,
  \<open>drivers/ti/omap/uart/regs.h\<close>, \<open>drivers/ns/nRF51822/timer/rtc_regs.h\<close>, \<open>gpio/regs.h\<close>, \<open>uart/regs.h\<close>,
  \<open>hwrng/regs.h\<close>.
\<close>

section \<open>Structures of 32-bit words\<close>

text \<open>The fields in order: their names, more than one in a union, and how many words they take.\<close>

type_synonym layout = "(string list \<times> nat) list"

fun offset_from :: "nat \<Rightarrow> layout \<Rightarrow> string \<Rightarrow> nat option" where
  "offset_from k [] f = None"
| "offset_from k ((fs, n) # l) f = (if f \<in> set fs then Some k else offset_from (k + 4 * n) l f)"

definition offset_of :: "layout \<Rightarrow> string \<Rightarrow> nat" where
  "offset_of l f = the (offset_from 0 l f)"

definition sizeof_layout :: "layout \<Rightarrow> nat" where
  "sizeof_layout l = 4 * sum_list (map snd l)"

text \<open>Fields of one version of the chip only.\<close>

definition only :: "nat \<Rightarrow> nat \<Rightarrow> 'a list \<Rightarrow> 'a list" where
  "only ver v xs = (if ver = v then xs else [])"

section \<open>The headers\<close>

definition GIC_DISTRIBUTOR :: "layout" where
  "GIC_DISTRIBUTOR =
     [([''GICD_CTLR''], 1), ([''GICD_TYPER''], 1), ([''GICD_IIDR''], 1), ([''_padding0''], 29), ([''GICD_IGROUPR''], 32),
      ([''GICD_ISENABLER''], 32), ([''GICD_ICENABLER''], 32), ([''GICD_ISPENDR''], 32), ([''GICD_ICPENDR''], 32),
      ([''GICD_ISACTIVER''], 32), ([''GICD_ICACTIVER''], 32), ([''GICD_IPRIORITYR''], 255), ([''_padding1''], 1),
      ([''GICD_ITARGETSR''], 255), ([''_padding2''], 1), ([''GICD_ICFGR''], 64), ([''_padding3''], 64),
      ([''GICD_NSACR''], 64), ([''GICD_SGIR''], 1), ([''_padding4''], 3), ([''GICD_CPENDSGIR''], 4),
      ([''GICD_SPENDSGIR''], 4), ([''_padding5''], 40), ([''_padding6''], 6), ([''ICPIDR2''], 1), ([''_padding7''], 5)]"

definition GIC_CPU_INTERFACE :: "layout" where
  "GIC_CPU_INTERFACE =
     [([''GICC_CTLR''], 1), ([''GICC_PMR''], 1), ([''GICC_BPR''], 1), ([''GICC_IAR''], 1), ([''GICC_EOIR''], 1),
      ([''GICC_RPR''], 1), ([''GICC_HPPIR''], 1), ([''GICC_ABPR''], 1), ([''GICC_AIAR''], 1), ([''GICC_AEOIR''], 1),
      ([''GICC_AHPPIR''], 1), ([''_padding0''], 5), ([''_imp_defined0''], 36), ([''GICC_APR''], 4), ([''GICC_NSAPR''], 4),
      ([''_padding1''], 3), ([''GICC_IIDR''], 1), ([''_padding2''], 960), ([''GICC_DIR''], 1)]"

text \<open>The controller of the OMAP3 has an array of four structures in the middle.\<close>

definition OMAP36XX_MPU_INTC_BANK :: "layout" where
  "OMAP36XX_MPU_INTC_BANK =
     [([''INTCPS_ITRn''], 1), ([''INTCPS_MIRn''], 1), ([''INTCPS_MIR_CLEARn''], 1), ([''INTCPS_MIR_SETn''], 1),
      ([''INTCPS_ISR_SETn''], 1), ([''INTCPS_ISR_CLEARn''], 1), ([''INTCPS_PENDING_IRQn''], 1),
      ([''INTCPS_PENDING_FIQn''], 1)]"

definition OMAP36XX_MPU_INTC_BASE :: "layout" where
  "OMAP36XX_MPU_INTC_BASE =
     [([''INTCPS_REVISION''], 1), ([''reserved0''], 1), ([''reserved1''], 1), ([''reserved2''], 1),
      ([''INTCPS_SYSCONFIG''], 1), ([''INTCPS_SYSSTATUS''], 1), ([''reserved3''], 1), ([''reserved4''], 1),
      ([''reserved5''], 1), ([''reserved6''], 1), ([''reserved7''], 1), ([''reserved8''], 1), ([''reserved9''], 1),
      ([''reserved10''], 1), ([''reserved11''], 1), ([''reserved12''], 1), ([''INTCPS_SIR_IRQ''], 1),
      ([''INTCPS_SIR_FIQ''], 1), ([''INTCPS_CONTROL''], 1), ([''INTCPS_PROTECTION''], 1), ([''INTCPS_IDLE''], 1),
      ([''reserved13''], 1), ([''reserved14''], 1), ([''reserved15''], 1), ([''INTCPS_IRQ_PRIORITY''], 1),
      ([''INTCPS_FIQ_PRIORITY''], 1), ([''INTCPS_THRESHOLD''], 1), ([''reserved16''], 1), ([''reserved17''], 1),
      ([''reserved18''], 1), ([''reserved19''], 1), ([''reserved20''], 1),
      ([''n''], 4 * sum_list (map snd OMAP36XX_MPU_INTC_BANK)), ([''INTCPS_ILRm''], 96)]"

definition OMAP_GPTIMER :: "nat \<Rightarrow> layout" where
  "OMAP_GPTIMER ver =
     [([''TIDR''], 1), ([''_reserved0''], 1), ([''_reserved1''], 1), ([''_reserved2''], 1), ([''TIOCP_CFG''], 1)] @
     only ver 3 [([''TISTAT''], 1), ([''TISR''], 1), ([''TIER''], 1), ([''TWER''], 1)] @
     only ver 5 [([''_reserved3''], 1), ([''_reserved4''], 1), ([''_reserved5''], 1), ([''RESERVED''], 1),
      ([''IRQSTATUS_RAW''], 1), ([''IRQSTATUS''], 1), ([''IRQSTATUS_SET''], 1), ([''IRQSTATUS_CLR''], 1),
      ([''IRQWAKEEN''], 1)] @
     [([''TCLR''], 1), ([''TCRR''], 1), ([''TLDR''], 1), ([''TTGR''], 1), ([''TWPS''], 1), ([''TMAR''], 1),
      ([''TCAR1''], 1), ([''TSICR''], 1), ([''TCAR2''], 1), ([''TPIR''], 1), ([''TNIR''], 1), ([''TCVR''], 1),
      ([''TOCR''], 1), ([''TOWR''], 1)]"

definition OMAP_SYNCTIMER :: "nat \<Rightarrow> layout" where
  "OMAP_SYNCTIMER ver =
     [([''REG_32KSYNCNT_REV''], 1)] @
     only ver 5 [([''_reserved0''], 1), ([''_reserved1''], 1), ([''_reserved2''], 1)] @
     [([''REG_32KSYNCNT_SYSCONFIG''], 1), ([''_reserved3''], 1), ([''_reserved4''], 1)] @
     only ver 5 [([''_reserved5''], 1), ([''_reserved6''], 1), ([''_reserved7''], 1), ([''_reserved8''], 1),
      ([''_reserved9''], 1)] @
     [([''REG_32KSYNCNT_CR''], 1)]"

definition UART_REGS :: "nat \<Rightarrow> layout" where
  "UART_REGS ver =
     [([''THR'', ''RHR'', ''DLL''], 1), ([''DLH'', ''IER''] @ only ver 5 [''IER_IRDA'', ''IER_CIR''], 1),
      ([''IIR'', ''FCR'', ''EFR''] @ only ver 5 [''IIR_IRDA'', ''IIR_CIR''], 1), ([''LCR''], 1),
      ([''MCR'', ''XON1_ADDR1''], 1),
      ([''LSR''] @ only ver 3 [''XON1_ADDR2''] @ only ver 5 [''XON2_ADDR2'', ''LSR_IRDA'', ''LSR_CIR''], 1),
      ([''MSR'', ''TCR'', ''XOFF1''], 1), ([''SPR'', ''TLR'', ''XOFF2''], 1), ([''MDR1''], 1), ([''MDR2''], 1),
      ([''SFLSR'', ''TXFLL''], 1), ([''RESUME'', ''TXFHL''], 1), ([''SFREGL'', ''RXFLL''], 1),
      ([''SFREGH'', ''RXFLH''], 1), ([''UASR'', ''BLR''], 1), ([''ACREG''], 1), ([''SCR''], 1), ([''SSR''], 1),
      ([''EBLR''], 1), ([''reserved0''], 1), ([''MVR''], 1), ([''SYSC''], 1), ([''SYSS''], 1), ([''WER''], 1),
      ([''CFPS''], 1), ([''RXFIFO_LVL''], 1), ([''TXFIFO_LVL''], 1), ([''IER2''], 1), ([''ISR2''], 1)] @
     only ver 3 [([''reserved1''], 1)] @
     only ver 5 [([''FREQ_SEL''], 1)] @
     [([''reserved2''], 1), ([''reserved3''], 1), ([''MDR3''], 1)] @
     only ver 5 [([''TX_DMA_THRESHOLD''], 1)]"

text \<open>\<open>PADDING\<close>: the words between two addresses.\<close>

definition PADDING :: "string \<Rightarrow> nat \<Rightarrow> nat \<Rightarrow> string list \<times> nat" where
  "PADDING name last_addr next_addr = ([name], (next_addr - last_addr) div 4 - 1)"

definition RTC_REGS :: layout where
  "RTC_REGS =
     [([''START''], 1), ([''STOP''], 1), ([''CLEAR''], 1), ([''TRIGOVRFLW''], 1), PADDING ''p0'' 0x00C 0x100,
      ([''TICK''], 1), ([''OVRFLW''], 1), PADDING ''p1'' 0x104 0x140, ([''COMPARE''], 4), PADDING ''p2'' 0x14C 0x300,
      ([''INTEN''], 1), ([''INTENSET''], 1), ([''INTENCLR''], 1), PADDING ''p3'' 0x308 0x340,
      ([''EVTEN''], 1), ([''EVTENSET''], 1), ([''EVTENCLR''], 1), PADDING ''p4'' 0x348 0x504,
      ([''COUNTER''], 1), ([''PRESCALER''], 1), PADDING ''p5'' 0x508 0x540, ([''CC''], 4)]"

definition GPIO_REGS :: layout where
  "GPIO_REGS =
     [([''_RESERVED0''], 321), ([''OUT''], 1), ([''OUTSET''], 1), ([''OUTCLR''], 1), ([''IN''], 1), ([''DIR''], 1),
      ([''DIRSET''], 1), ([''DIRCLR''], 1), ([''_RESERVED1''], 120), ([''PIN_CNF''], 32)]"

section \<open>Addresses\<close>

definition field :: "u32 \<Rightarrow> layout \<Rightarrow> string \<Rightarrow> nat \<Rightarrow> u32" where
  "field base l f i = base + word_of_nat (offset_of l f + 4 * i)"

fun gic_address :: "u32 \<Rightarrow> gic_reg \<Rightarrow> u32" where
  "gic_address cbar GICD_CTLR = field (gic_get_distributor cbar) GIC_DISTRIBUTOR ''GICD_CTLR'' 0"
| "gic_address cbar GICD_IIDR = field (gic_get_distributor cbar) GIC_DISTRIBUTOR ''GICD_IIDR'' 0"
| "gic_address cbar (GICD_ISENABLER i) = field (gic_get_distributor cbar) GIC_DISTRIBUTOR ''GICD_ISENABLER'' i"
| "gic_address cbar (GICD_ICENABLER i) = field (gic_get_distributor cbar) GIC_DISTRIBUTOR ''GICD_ICENABLER'' i"
| "gic_address cbar (GICD_IPRIORITYR i) = field (gic_get_distributor cbar) GIC_DISTRIBUTOR ''GICD_IPRIORITYR'' i"
| "gic_address cbar (GICD_ITARGETSR i) = field (gic_get_distributor cbar) GIC_DISTRIBUTOR ''GICD_ITARGETSR'' i"
| "gic_address cbar GICD_SGIR = field (gic_get_distributor cbar) GIC_DISTRIBUTOR ''GICD_SGIR'' 0"
| "gic_address cbar GICC_CTLR = field (gic_get_cpu_interface cbar) GIC_CPU_INTERFACE ''GICC_CTLR'' 0"
| "gic_address cbar GICC_PMR = field (gic_get_cpu_interface cbar) GIC_CPU_INTERFACE ''GICC_PMR'' 0"
| "gic_address cbar GICC_IAR = field (gic_get_cpu_interface cbar) GIC_CPU_INTERFACE ''GICC_IAR'' 0"
| "gic_address cbar GICC_EOIR = field (gic_get_cpu_interface cbar) GIC_CPU_INTERFACE ''GICC_EOIR'' 0"
| "gic_address cbar GICC_IIDR = field (gic_get_cpu_interface cbar) GIC_CPU_INTERFACE ''GICC_IIDR'' 0"

definition intc_bank :: "string \<Rightarrow> nat \<Rightarrow> u32" where
  "intc_bank f i = MPU_INTC_PA_BASE_OMAP36XX + word_of_nat (offset_of OMAP36XX_MPU_INTC_BASE ''n'' +
     sizeof_layout OMAP36XX_MPU_INTC_BANK * i + offset_of OMAP36XX_MPU_INTC_BANK f)"

definition intc_field :: "string \<Rightarrow> nat \<Rightarrow> u32" where
  "intc_field f i = field MPU_INTC_PA_BASE_OMAP36XX OMAP36XX_MPU_INTC_BASE f i"

fun intc_address :: "intc_reg \<Rightarrow> u32" where
  "intc_address INTCPS_SYSCONFIG = intc_field ''INTCPS_SYSCONFIG'' 0"
| "intc_address INTCPS_SYSSTATUS = intc_field ''INTCPS_SYSSTATUS'' 0"
| "intc_address INTCPS_SIR_IRQ = intc_field ''INTCPS_SIR_IRQ'' 0"
| "intc_address INTCPS_CONTROL = intc_field ''INTCPS_CONTROL'' 0"
| "intc_address INTCPS_IDLE = intc_field ''INTCPS_IDLE'' 0"
| "intc_address (INTCPS_MIR_CLEAR i) = intc_bank ''INTCPS_MIR_CLEARn'' i"
| "intc_address (INTCPS_MIR_SET i) = intc_bank ''INTCPS_MIR_SETn'' i"
| "intc_address (INTCPS_ILR i) = intc_field ''INTCPS_ILRm'' i"

definition SYNCTIMER_32KHZ_PA_BASE_OMAP :: "nat \<Rightarrow> u32" where
  "SYNCTIMER_32KHZ_PA_BASE_OMAP ver = (if ver = 3 then 0x48320000 else 0x4AE04000)"

fun omap_timer_address :: "nat \<Rightarrow> u32 \<Rightarrow> omap_timer_reg \<Rightarrow> u32" where
  "omap_timer_address ver base TISR = field base (OMAP_GPTIMER ver) ''TISR'' 0"
| "omap_timer_address ver base TIER = field base (OMAP_GPTIMER ver) ''TIER'' 0"
| "omap_timer_address ver base IRQSTATUS = field base (OMAP_GPTIMER ver) ''IRQSTATUS'' 0"
| "omap_timer_address ver base IRQSTATUS_SET = field base (OMAP_GPTIMER ver) ''IRQSTATUS_SET'' 0"
| "omap_timer_address ver base TCLR = field base (OMAP_GPTIMER ver) ''TCLR'' 0"
| "omap_timer_address ver base TCRR = field base (OMAP_GPTIMER ver) ''TCRR'' 0"
| "omap_timer_address ver base TLDR = field base (OMAP_GPTIMER ver) ''TLDR'' 0"
| "omap_timer_address ver base TTGR = field base (OMAP_GPTIMER ver) ''TTGR'' 0"
| "omap_timer_address ver base TWPS = field base (OMAP_GPTIMER ver) ''TWPS'' 0"
| "omap_timer_address ver base TSICR = field base (OMAP_GPTIMER ver) ''TSICR'' 0"
| "omap_timer_address ver base REG_32KSYNCNT_CR =
     field (SYNCTIMER_32KHZ_PA_BASE_OMAP ver) (OMAP_SYNCTIMER ver) ''REG_32KSYNCNT_CR'' 0"

fun uart_address :: "nat \<Rightarrow> u32 \<Rightarrow> uart_reg \<Rightarrow> u32" where
  "uart_address ver base THR = field base (UART_REGS ver) ''THR'' 0"
| "uart_address ver base RHR = field base (UART_REGS ver) ''RHR'' 0"
| "uart_address ver base IER = field base (UART_REGS ver) ''IER'' 0"
| "uart_address ver base IIR = field base (UART_REGS ver) ''IIR'' 0"
| "uart_address ver base FCR = field base (UART_REGS ver) ''FCR'' 0"
| "uart_address ver base TLR = field base (UART_REGS ver) ''TLR'' 0"
| "uart_address ver base SCR = field base (UART_REGS ver) ''SCR'' 0"
| "uart_address ver base SSR = field base (UART_REGS ver) ''SSR'' 0"
| "uart_address ver base LSR = field base (UART_REGS ver) ''LSR'' 0"

definition GPIO_REGS_BASE :: u32 where "GPIO_REGS_BASE = 0x50000000"

fun gpio_address :: "gpio_reg \<Rightarrow> u32" where
  "gpio_address GPIO_OUTSET = field GPIO_REGS_BASE GPIO_REGS ''OUTSET'' 0"
| "gpio_address GPIO_OUTCLR = field GPIO_REGS_BASE GPIO_REGS ''OUTCLR'' 0"
| "gpio_address GPIO_IN = field GPIO_REGS_BASE GPIO_REGS ''IN'' 0"
| "gpio_address GPIO_DIRSET = field GPIO_REGS_BASE GPIO_REGS ''DIRSET'' 0"
| "gpio_address GPIO_DIRCLR = field GPIO_REGS_BASE GPIO_REGS ''DIRCLR'' 0"
| "gpio_address (GPIO_PIN_CNF i) = field GPIO_REGS_BASE GPIO_REGS ''PIN_CNF'' i"

definition UART_BASE :: u32 where "UART_BASE = 0x40002000"

fun nrf_uart_address :: "nrf_uart_reg \<Rightarrow> u32" where
  "nrf_uart_address U_STARTTX = UART_BASE + 0x008"
| "nrf_uart_address U_RXDRDY = UART_BASE + 0x108"
| "nrf_uart_address U_TXDRDY = UART_BASE + 0x11C"
| "nrf_uart_address U_INTENSET = UART_BASE + 0x304"
| "nrf_uart_address U_INTENCLR = UART_BASE + 0x308"
| "nrf_uart_address U_ENABLE = UART_BASE + 0x500"
| "nrf_uart_address U_PSELTXD = UART_BASE + 0x50C"
| "nrf_uart_address U_PSELRXD = UART_BASE + 0x514"
| "nrf_uart_address U_RXD = UART_BASE + 0x518"
| "nrf_uart_address U_TXD = UART_BASE + 0x51C"
| "nrf_uart_address U_BAUDRATE = UART_BASE + 0x524"

definition HWRNG_BASE :: u32 where "HWRNG_BASE = 0x4000D000"

fun hwrng_address :: "hwrng_reg \<Rightarrow> u32" where
  "hwrng_address RNG_START = HWRNG_BASE + 0x000"
| "hwrng_address RNG_STOP = HWRNG_BASE + 0x004"
| "hwrng_address RNG_VALRDY = HWRNG_BASE + 0x100"
| "hwrng_address RNG_INTENSET = HWRNG_BASE + 0x304"
| "hwrng_address RNG_INTENCLR = HWRNG_BASE + 0x308"
| "hwrng_address RNG_VALUE = HWRNG_BASE + 0x508"

section \<open>They are where the manuals have them\<close>

text \<open>The offsets noted beside the fields in the headers, and the sizes; words computed once.\<close>

lemma gic_offsets:
  "map (offset_of GIC_DISTRIBUTOR) [''GICD_CTLR'', ''GICD_IIDR'', ''GICD_ISENABLER'', ''GICD_ICENABLER'', ''GICD_IPRIORITYR'',
     ''GICD_ITARGETSR'', ''GICD_ICFGR'', ''GICD_SGIR'', ''ICPIDR2''] = [0x000, 0x008, 0x100, 0x180, 0x400, 0x800, 0xC00, 0xF00, 0xFE8]"
  "map (offset_of GIC_CPU_INTERFACE) [''GICC_CTLR'', ''GICC_PMR'', ''GICC_IAR'', ''GICC_EOIR'', ''GICC_APR'', ''GICC_IIDR'', ''GICC_DIR''] =
     [0x00, 0x04, 0x0C, 0x10, 0xD0, 0xFC, 0x1000]"
  "sizeof_layout GIC_DISTRIBUTOR = 0x1000" "sizeof_layout GIC_CPU_INTERFACE = 0x1004"
  by code_simp+

lemma intc_offsets:
  "map (offset_of OMAP36XX_MPU_INTC_BASE) [''INTCPS_SYSCONFIG'', ''INTCPS_SYSSTATUS'', ''INTCPS_SIR_IRQ'', ''INTCPS_CONTROL'',
     ''INTCPS_IDLE'', ''n'', ''INTCPS_ILRm''] = [0x10, 0x14, 0x40, 0x48, 0x50, 0x80, 0x100]"
  "map (offset_of OMAP36XX_MPU_INTC_BANK) [''INTCPS_MIR_CLEARn'', ''INTCPS_MIR_SETn''] = [0x08, 0x0C]"
  "sizeof_layout OMAP36XX_MPU_INTC_BANK = 0x20" "sizeof_layout OMAP36XX_MPU_INTC_BASE = 0x280"
  by code_simp+

lemma omap_timer_offsets:
  "map (offset_of (OMAP_GPTIMER 3)) [''TISR'', ''TIER'', ''TCLR'', ''TCRR'', ''TLDR'', ''TTGR'', ''TWPS'', ''TSICR''] =
     [0x18, 0x1C, 0x24, 0x28, 0x2C, 0x30, 0x34, 0x40]"
  "map (offset_of (OMAP_GPTIMER 5)) [''IRQSTATUS'', ''IRQSTATUS_SET'', ''TCLR'', ''TCRR'', ''TLDR'', ''TTGR'', ''TWPS'', ''TSICR''] =
     [0x28, 0x2C, 0x38, 0x3C, 0x40, 0x44, 0x48, 0x54]"
  "offset_of (OMAP_SYNCTIMER 3) ''REG_32KSYNCNT_CR'' = 0x10" "offset_of (OMAP_SYNCTIMER 5) ''REG_32KSYNCNT_CR'' = 0x30"
  by code_simp+

lemma uart_offsets:
  "ver \<in> {3, 5} \<Longrightarrow> map (offset_of (UART_REGS ver)) [''THR'', ''RHR'', ''IER'', ''IIR'', ''FCR'', ''LSR'', ''TLR'', ''SCR'', ''SSR''] =
     [0x00, 0x00, 0x04, 0x08, 0x08, 0x14, 0x1C, 0x40, 0x44]"
  by (elim insertE emptyE; simp only:; code_simp)

lemma rtc_offsets:
  "map (offset_of RTC_REGS) [''START'', ''STOP'', ''CLEAR'', ''COMPARE'', ''INTENSET'', ''EVTENSET'', ''COUNTER'', ''CC''] =
     [0x000, 0x004, 0x008, 0x140, 0x304, 0x344, 0x504, 0x540]"
  by code_simp

lemma gpio_offsets:
  "map (offset_of GPIO_REGS) [''OUTSET'', ''OUTCLR'', ''IN'', ''DIRSET'', ''DIRCLR'', ''PIN_CNF''] =
     [0x508, 0x50C, 0x510, 0x518, 0x51C, 0x700]"
  by code_simp

end
