(* ===== verification/Spec2Isabelle.thy ===== *)
theory Spec2Isabelle
  imports Prelude Stdlib Boot_Pages Buddy Page2 Buddy_Spec Buddy_Inv Page_Allocator Page_Init
    Page_Provider Page_Examples Bounded_Queue Fifo_Buffer Packet_Fifo Kmalloc_Tiny
    Mem_Cache Mem_Cache_Inv Mem_Cache_Ops Kmalloc Kmalloc_Examples
    System_Time Stack Sched Sched_Props Sched_Inv Sched_Run
    Descriptors VMSAv7 VMSAv6 Translation Page_Tables Page_Tables_Init Kmalloc_Memory Vm_Map Startup
    Printf Printf_Spec Interrupts Devices Uart Uart_Spec Console
    Registers Radio Radio_Spec Cache Irq_Controllers Timer_Drivers Nrf_Devices Nrf_Spec Register_Map
begin

text \<open>
  A verification library for the kernel of ShovelOS, a small operating system for ARM boards: the BBC
  micro:bit (Cortex-M0), the Beagleboard-XM (Cortex-A8) and the IGEPv5 (Cortex-A15). Paths are below
  \<open>src/kernel\<close>. Every definition is a translation of the C function of the same name; where
  two drivers have functions of one name the driver's name is put in front.

  The parts of the kernel and how they work together. At boot \<open>boot_pages.c\<close> hands out pages
  from the end of the kernel image; \<open>page2.c\<close> takes its bitmaps from it and becomes the page allocator of
  the rest, over the buddy bitmaps of \<open>buddy_alloc.c\<close>. The slab allocator \<open>mem_cache.c\<close> cuts
  pages into chunks and \<open>kmalloc.c\<close> is seven of its caches; the small boards use \<open>kmalloc_tiny.c\<close>,
  whole pages. Thread stacks, FIFOs and threads are allocated from these. The scheduler switches threads at an interrupt
  of a timer, round robin over 32 slots, the first for the idle task; a sleeping thread is ready once the system time has passed. Drivers
  put themselves into registries by device number; the ones for serial lines and the radio connect an interrupt handler
  and the file operations by a FIFO, under a spin lock that masks interrupts. The console prints by
  \<open>fprintf.c\<close> on a serial device, or polls the device before there is one.

  What models what, in the order of the imports:

  \<^item> \<open>Prelude\<close>: machine words, boards, results and lemmas all parts share. \<open>halt + 'a\<close> is the result of code
    that can stop in a \<open>_BUG\<close> or a fault.
  \<^item> \<open>Stdlib\<close>: \<open>stdlib/stdlib.c\<close> and \<open>fgets.c\<close>.
  \<^item> \<open>Boot_Pages\<close>: \<open>memory/boot_pages.c\<close>. \<open>Buddy\<close>, \<open>Page2\<close>: \<open>lib/alloc/buddy_alloc.c\<close> and
    \<open>memory/page2.c\<close>. \<open>Buddy_Spec\<close> is the abstract allocator, a set of live blocks;
    \<open>Buddy_Inv\<close> shows that the bitmaps refine it, \<open>Page_Allocator\<close> that allocating and freeing do, on every branch,
    \<open>Page_Init\<close> that the set-up starts it, \<open>Page_Provider\<close> that it keeps the contract \<open>region_provider\<close> of
    a memory allocator, and what the contract gives a client; \<open>Page_Examples\<close> runs it, also where it goes wrong.
  \<^item> \<open>Bounded_Queue\<close>: the contract of a bounded queue. \<open>Fifo_Buffer\<close>: \<open>memory/fifo_buffer.c\<close>,
    \<open>Packet_Fifo\<close>: \<open>memory/fifo_packet_buffer.c\<close>, both shown to be one.
  \<^item> \<open>Kmalloc_Tiny\<close>: \<open>memory/kmalloc_tiny.c\<close>. \<open>Mem_Cache\<close>: \<open>memory/mem_cache.c\<close>, with the invariant in
    \<open>Mem_Cache_Inv\<close> and what its operations promise over any page provider in \<open>Mem_Cache_Ops\<close>.
    \<open>Kmalloc\<close>: \<open>memory/kmalloc.c\<close>, with runs of it in \<open>Kmalloc_Examples\<close>.
  \<^item> \<open>System_Time\<close>: \<open>timer/system_time.c\<close>. \<open>Stack\<close>: \<open>memory/stack.c\<close>. \<open>Sched\<close>:
    \<open>sched/sched.c\<close>, \<open>sched_sleep.c\<close>, \<open>arch/arm_a/cpu_state.c\<close>; what single operations do is in
    \<open>Sched_Props\<close>, the invariant of the threads in \<open>Sched_Inv\<close>, runs of the system in \<open>Sched_Run\<close>.
  \<^item> \<open>Descriptors\<close>, \<open>VMSAv7\<close>, \<open>VMSAv6\<close>: the headers of \<open>arch/arm_a/mm\<close>. \<open>Translation\<close> is the table walk of
    the memory management unit, \<open>Page_Tables\<close> is \<open>init_page_tables.c\<close> and \<open>page_tables.c\<close>, and
    \<open>Page_Tables_Init\<close> shows what the walk makes of the first ones. \<open>Kmalloc_Memory\<close> is what \<open>kmalloc\<close> does
    to the bytes of others, and with it \<open>Vm_Map\<close> shows what \<open>vm_map\<close> does to the walk.
  \<^item> \<open>Startup\<close>: \<open>memory/memory.c\<close>, which puts the memory parts together, \<open>_init_ram\<close> and \<open>register_drivers\<close> of
    \<open>arm.c\<close>, and \<open>arch/arm_m/cpu_state.c\<close> with the tail of \<open>context.S\<close>.
  \<^item> \<open>Printf\<close>: \<open>stdlib/fprintf.c\<close>, with its specification in \<open>Printf_Spec\<close>.
  \<^item> \<open>Interrupts\<close>: interrupt masks and spin locks of both architectures, one contract \<open>irq_locks\<close> for both.
    \<open>Devices\<close>: the registries of drivers and timers.
  \<^item> \<open>Uart\<close>: \<open>drivers/ti/omap/uart/uart.c\<close>, specified in \<open>Uart_Spec\<close>; \<open>Console\<close>: \<open>console/console.c\<close>.
  \<^item> \<open>Registers\<close>: memory-mapped registers behind a bus. \<open>Radio\<close>: \<open>drivers/ns/nRF51822/radio\<close>, specified in \<open>Radio_Spec\<close>.
  \<^item> \<open>Cache\<close>: \<open>arch/arm_a/mm/VMSAv7/cache.c\<close>. \<open>Irq_Controllers\<close>: the GIC, the controller of the OMAP3 and
    the NVIC (\<open>drivers/arm/gic\<close>, \<open>drivers/ti/omap/omap3\<close>, \<open>drivers/arm/nvic\<close>), one contract
    \<open>irq_controller\<close> for the three. \<open>Timer_Drivers\<close>: \<open>drivers/ti/omap/timer\<close>,
    \<open>drivers/ns/nRF51822/timer\<close> and \<open>clock\<close>.
  \<^item> \<open>Nrf_Devices\<close>: \<open>uart\<close>, \<open>hwrng\<close>, \<open>gpio\<close> and \<open>heartbeat\<close> below \<open>drivers/ns/nRF51822\<close>, specified in
    \<open>Nrf_Spec\<close>. \<open>Register_Map\<close>: the register structures of the headers and the addresses they give.
  How state is modelled. A structure of the code is a record, a linked list of structures a list, memory a function from
  addresses to bytes wherever bytes matter (the page allocator, FIFOs, stacks, page tables), machine integers are words
  of their width, and a comparison on signed integers is on \<open>sint\<close>. Device registers are a bus, an
  argument of a driver: what a volatile read answers and what reads and writes do to the
  device. The laws of a device that a property needs are its premises (\<open>uart_device\<close>, \<open>radio_device\<close>) and each has an instance.
  One core runs the kernel and a spin lock masks interrupts, so what is done under one lock is one step; what others do
  between two such steps is an argument (\<open>yield\<close>, \<open>between\<close>), or a rule of a relation that takes every
  interleaving (\<open>uart_run\<close>, \<open>radio_run\<close>, and the runs of clients of the allocators and of the scheduler).

  What the lemmas show. Safety and completeness of the allocators, from bitmaps to blocks of bytes: what is
  handed out never overlaps, is big enough, comes back on release, and is refused only when there is none.
  The two FIFOs and both drivers above them refine queues: nothing is lost, doubled or reordered, whatever the interleaving.
  The scheduler saves and restores states, never loses or doubles a thread and starves none. The page tables translate the
  range they were built for and nothing else, and mapping more pages changes no other address;
  the set-up of memory establishes what the properties of the heap and of the tables assume. Descriptors, times and numbers round-trip. Locks nest. Formatted
  output prints what its format says. Where the code does not do what it is meant to, a theorem says what it does instead.

  Bounds and fuel. Recursion is structural or has a measure wherever the code's loops are bounded by data. A loop that
  waits for a device, for another thread, or may not end at all is a \<open>partial_function (option)\<close>: \<open>None\<close> is not returning, and where
  the loop ends that is proved (\<open>run_queue_next_returns\<close>, \<open>putd_returns\<close>,
  \<open>uart_write_accepts_all\<close>) as is where it does not (\<open>radio_never_sends\<close>). No definition has fuel.

  Not modelled, and why. Assembly: context switches, exception vectors, barriers, the instructions of TLB maintenance;
  a switch is modelled by what it does to the saved state.
  \<open>memory/page.c\<close> is no longer compiled. \<open>arch/hosted\<close> and \<open>drivers/hosted\<close>
  run the kernel as a program of another operating system and consist of calls to it. \<open>arch/i286\<close>, its BIOS
  video driver and the boot loader \<open>src/bootloader\<close> are stubs for a target that is not supported, mostly assembly.
  Debug traces, self-tests under \<open>UNIT_TEST_BUILD\<close> and the \<open>debug_dump\<close> operations are left out
  throughout.
\<close>

end
